(* ===== verification/Gpty_Prelude.thy ===== *)
theory Gpty_Prelude
  imports Main "HOL-Library.Word" "HOL-Library.Sublist"
begin

text \<open>
  Vocabulary shared by every component of the development: bytes and strings as the Rust
  program holds them, the string operations of the Rust standard library the sources call,
  machine-integer arithmetic with its bounds written out, and two interfaces several
  components rely on.

  A Rust \<open>u8\<close> is a HOL \<open>char\<close> (8 bits) and both \<open>[u8]\<close> and \<open>str\<close> are lists
  of bytes; a \<open>str\<close> is the UTF-8 encoding, so \<open>length\<close> is Rust's \<open>len()\<close>.
  The two locales are the drop-oldest queue (every bounded queue of the program that
  evicts its head) and the chunked stream consumer (every parser that is fed a byte
  stream in pieces).  Each is interpreted, on the program's own operations, in the theory
  of the component that provides it.
\<close>

section \<open>Bytes, strings, integers\<close>

type_synonym byte = char
type_synonym bytes = "char list"
type_synonym str = "char list"

abbreviation ESC :: byte where "ESC \<equiv> CHR 0x1B"
abbreviation BEL :: byte where "BEL \<equiv> CHR 0x07"
abbreviation LF :: byte where "LF \<equiv> CHR 0x0A"
abbreviation CR :: byte where "CR \<equiv> CHR 0x0D"
abbreviation BACKSLASH :: byte where "BACKSLASH \<equiv> CHR 0x5C"

text \<open>The numeric value of a byte, for range tests.\<close>

definition code :: "byte \<Rightarrow> nat" where
  "code b = of_char b"

definition u64_max :: nat where "u64_max = 2 ^ 64 - 1"

definition sat_add64 :: "nat \<Rightarrow> nat \<Rightarrow> nat" where
  \<comment> \<open>\<open>u64::saturating_add\<close>, and \<open>usize::saturating_add\<close> on a 64-bit target;
      \<open>saturating_sub\<close> is the subtraction of \<open>nat\<close>\<close>
  "sat_add64 a b = min (a + b) u64_max"

lemma sat_add64_le: "sat_add64 a b \<le> u64_max"
  by (simp add: sat_add64_def)

lemma sat_add64_exact: "a + b \<le> u64_max \<Longrightarrow> sat_add64 a b = a + b"
  by (simp add: sat_add64_def)

text \<open>A number in decimal, as \<open>to_string\<close> and \<open>format!\<close> write it.\<close>

definition digit :: "nat \<Rightarrow> byte" where
  "digit d = char_of (48 + d)"

fun dec :: "nat \<Rightarrow> str" where
  "dec n = (if n < 10 then [digit n] else dec (n div 10) @ [digit (n mod 10)])"

declare dec.simps [simp del]

text \<open>A digit of \<open>format!("{:x}")\<close>.\<close>

definition hex_digit :: "nat \<Rightarrow> byte" where
  "hex_digit d = (if d < 10 then char_of (48 + d) else char_of (87 + d))"

section \<open>Collections of facts\<close>

named_theorems queue_simps
named_theorems invariant_intros

section \<open>Lists\<close>

text \<open>The last \<open>n\<close> elements, what a drop-oldest queue of capacity \<open>n\<close> retains.\<close>

definition last_n :: "nat \<Rightarrow> 'a list \<Rightarrow> 'a list" where
  "last_n n xs = drop (length xs - n) xs"

lemma last_n_short [simp]: "length xs \<le> n \<Longrightarrow> last_n n xs = xs"
  by (simp add: last_n_def)

lemma length_last_n: "length (last_n n xs) = min n (length xs)"
  by (simp add: last_n_def)

lemma suffix_last_n: "suffix (last_n n xs) xs"
  by (simp add: last_n_def suffix_drop)

lemma set_last_n: "set (last_n n xs) \<subseteq> set xs"
  by (simp add: last_n_def set_drop_subset)

lemma last_n_last_n_append: "last_n n (last_n n xs @ ys) = last_n n (xs @ ys)"
proof (cases "length xs \<le> n")
  case False
  then show ?thesis
    by (cases "length ys \<le> n") (simp_all add: last_n_def add.commute)
qed (simp add: last_n_def)

lemma sum_list_tl:
  fixes f :: "'a \<Rightarrow> nat"
  shows "xs \<noteq> [] \<Longrightarrow> sum_list (map f (tl xs)) = sum_list (map f xs) - f (hd xs)"
  by (cases xs) auto

section \<open>Drop-oldest queues\<close>

text \<open>
  The contract of \<open>push_bounded\<close>, \<open>push_notice\<close>, \<open>store_line\<close>'s recent-lines ring,
  \<open>emit_event\<close> and the child-log ring: below the capacity the new element is appended,
  at the capacity the head is dropped first.
\<close>

locale drop_oldest =
  fixes push :: "'a \<Rightarrow> 'a list \<Rightarrow> 'a list"
    and cap :: nat
  assumes cap_pos: "0 < cap"
    and push_room: "length q < cap \<Longrightarrow> push x q = q @ [x]"
    and push_full: "length q = cap \<Longrightarrow> push x q = tl q @ [x]"
begin

lemma push_last_n: "length q \<le> cap \<Longrightarrow> push x q = last_n cap (q @ [x])"
  using cap_pos
  by (cases "length q < cap") (auto simp: push_room push_full last_n_def drop_Suc)

lemma push_bound: "length q \<le> cap \<Longrightarrow> length (push x q) \<le> cap"
  by (simp add: push_last_n length_last_n)

lemma push_newest: "length q \<le> cap \<Longrightarrow> last (push x q) = x"
  using cap_pos by (cases "length q < cap") (auto simp: push_room push_full)

lemma push_length: "length q \<le> cap \<Longrightarrow> length (push x q) = min cap (Suc (length q))"
  by (simp add: push_last_n length_last_n)

lemma push_set: "length q \<le> cap \<Longrightarrow> set (push x q) \<subseteq> insert x (set q)"
  using set_last_n [of cap "q @ [x]"] by (simp add: push_last_n)

text \<open>Any number of pushes keeps exactly the newest \<open>cap\<close> elements, in order.\<close>

lemma fold_push: "length q \<le> cap \<Longrightarrow> fold push xs q = last_n cap (q @ xs)"
proof (induction xs arbitrary: q)
  case Nil
  then show ?case by simp
next
  case (Cons x xs)
  then have "fold push (x # xs) q = last_n cap (push x q @ xs)"
    by (simp add: push_bound)
  also have "\<dots> = last_n cap ((q @ [x]) @ xs)"
    using Cons.prems by (simp add: push_last_n last_n_last_n_append del: append_assoc)
  finally show ?case by simp
qed

end

section \<open>Chunked stream consumers\<close>

text \<open>
  A parser that is fed a stream in pieces: \<open>feed s xs\<close> returns the next state and what it
  emitted.  The law is that the piece boundaries do not matter for one split; the lemma is
  that they do not matter at all.
\<close>

locale stream_consumer =
  fixes feed :: "'s \<Rightarrow> 'b list \<Rightarrow> 's \<times> 'o list"
  assumes feed_nil: "feed s [] = (s, [])"
    and feed_append: "feed s (xs @ ys) =
      (case feed s xs of (s', out) \<Rightarrow> case feed s' ys of (s'', out') \<Rightarrow> (s'', out @ out'))"
begin

fun feed_all :: "'s \<Rightarrow> 'b list list \<Rightarrow> 's \<times> 'o list" where
  "feed_all s [] = (s, [])"
| "feed_all s (c # cs) =
     (case feed s c of (s', out) \<Rightarrow> case feed_all s' cs of (s'', out') \<Rightarrow> (s'', out @ out'))"

lemma feed_all_concat: "feed_all s cs = feed s (concat cs)"
  by (induction cs arbitrary: s) (auto simp: feed_nil feed_append split: prod.splits)

lemma feed_all_independent: "concat cs = concat ds \<Longrightarrow> feed_all s cs = feed_all s ds"
  by (simp add: feed_all_concat)

end

end
