(* ===== verification/Escape_Guard.thy ===== *)
theory Escape_Guard
  imports Gpty_Prelude
begin

text \<open>
  The escape-string guard of \<open>crates/gpty-core/src/escstring.rs\<close>: it sits in front of
  every consumer of a PTY's output and closes an OSC string that grows past a budget, so
  that the payload the \<open>vte\<close> parser behind it buffers stays finite.
\<close>

section \<open>The guard\<close>

definition MAX_ESCAPE_STRING_BYTES :: nat where
  "MAX_ESCAPE_STRING_BYTES = 64 * 1024"

definition TERMINATOR :: byte where
  "TERMINATOR = CHR 0x07"

record escape_guard =
  osc_len :: "nat option"
  pending_esc :: bool

definition guard_new :: escape_guard where
  "guard_new = \<lparr>osc_len = None, pending_esc = False\<rparr>"

text \<open>One iteration of the loop of \<open>feed\<close>: the next state, and whether the string just
  passed its budget, in which case the terminator is emitted after the byte.\<close>

definition guard_byte :: "nat \<Rightarrow> escape_guard \<Rightarrow> byte \<Rightarrow> escape_guard \<times> bool" where
  "guard_byte budget g b =
     (case osc_len g of
        Some len \<Rightarrow>
          let g1 = g\<lparr>osc_len := Some (len + 1)\<rparr>;
              g2 = (if b = CHR 0x07 \<or> b = CHR 0x18 \<or> b = CHR 0x1A then g1\<lparr>osc_len := None\<rparr>
                    else if b = CHR 0x1B then g1\<lparr>osc_len := None, pending_esc := True\<rparr>
                    else g1)
          in (case osc_len g2 of
                Some n \<Rightarrow>
                  if budget < n then (g2\<lparr>osc_len := None, pending_esc := False\<rparr>, True)
                  else (g2, False)
              | None \<Rightarrow> (g2, False))
      | None \<Rightarrow>
          if pending_esc g
          then (let g1 = g\<lparr>pending_esc := False\<rparr>
                in if b = CHR '']'' then (g1\<lparr>osc_len := Some 0\<rparr>, False) else (g1, False))
          else if b = CHR 0x1B then (g\<lparr>pending_esc := True\<rparr>, False)
          else (g, False))"

text \<open>The loop: \<open>acc\<close> is the slice \<open>bytes[start..i]\<close> not handed to the sink yet; the
  result lists the slices the sink received, in order.\<close>

fun guard_loop :: "nat \<Rightarrow> escape_guard \<Rightarrow> bytes \<Rightarrow> bytes \<Rightarrow> escape_guard \<times> bytes list" where
  "guard_loop budget g acc [] = (g, if acc = [] then [] else [acc])"
| "guard_loop budget g acc (b # bs) =
     (case guard_byte budget g b of
        (g', True) \<Rightarrow>
          (case guard_loop budget g' [] bs of
             (g'', out) \<Rightarrow> (g'', (acc @ [b]) # [TERMINATOR] # out))
      | (g', False) \<Rightarrow> guard_loop budget g' (acc @ [b]) bs)"

definition guard_feed :: "nat \<Rightarrow> escape_guard \<Rightarrow> bytes \<Rightarrow> escape_guard \<times> bytes list" where
  "guard_feed budget g bs = guard_loop budget g [] bs"

section \<open>The guard as a byte-by-byte transducer\<close>

text \<open>What reaches the sink, forgetting how it was sliced: every input byte, each followed
  by a terminator exactly where \<open>guard_byte\<close> asks for one.\<close>

fun guard_stream :: "nat \<Rightarrow> escape_guard \<Rightarrow> bytes \<Rightarrow> escape_guard \<times> bytes" where
  "guard_stream budget g [] = (g, [])"
| "guard_stream budget g (b # bs) =
     (case guard_byte budget g b of (g', over) \<Rightarrow>
        case guard_stream budget g' bs of (g'', out) \<Rightarrow>
          (g'', b # (if over then [TERMINATOR] else []) @ out))"

lemma guard_loop_stream:
  "(case guard_loop budget g acc bs of (g', slices) \<Rightarrow> (g', concat slices)) =
   (case guard_stream budget g bs of (g', out) \<Rightarrow> (g', acc @ out))"
  by (induction budget g acc bs rule: guard_loop.induct)
    (auto split: prod.splits bool.splits if_splits)

lemma guard_feed_stream:
  "guard_feed budget g bs = (g', slices) \<Longrightarrow> guard_stream budget g bs = (g', concat slices)"
  using guard_loop_stream [of budget g "[]" bs]
  by (auto simp: guard_feed_def split: prod.splits)

lemma guard_stream_append:
  "guard_stream budget g (xs @ ys) =
     (case guard_stream budget g xs of (g', out) \<Rightarrow>
        case guard_stream budget g' ys of (g'', out') \<Rightarrow> (g'', out @ out'))"
  by (induction xs arbitrary: g) (auto split: prod.splits)

interpretation guard: stream_consumer "guard_stream budget" for budget
  by unfold_locales (simp_all add: guard_stream_append)

text \<open>Successive calls of \<open>feed\<close>, as a PTY reader makes them, and the stream that reached
  the sink.\<close>

fun guard_feeds :: "nat \<Rightarrow> escape_guard \<Rightarrow> bytes list \<Rightarrow> escape_guard \<times> bytes" where
  "guard_feeds budget g [] = (g, [])"
| "guard_feeds budget g (c # cs) =
     (case guard_feed budget g c of (g', slices) \<Rightarrow>
        case guard_feeds budget g' cs of (g'', out) \<Rightarrow> (g'', concat slices @ out))"

lemma guard_feeds_stream: "guard_feeds budget g cs = guard_stream budget g (concat cs)"
proof (induction cs arbitrary: g)
  case (Cons c cs)
  then show ?case
    by (cases "guard_feed budget g c")
      (auto simp: guard_stream_append guard_feed_stream split: prod.splits)
qed simp

section \<open>Every byte goes through, and only terminators are added\<close>

text \<open>\<open>weave bs cuts\<close> is \<open>bs\<close> with a terminator after each byte whose flag is set.\<close>

fun weave :: "bytes \<Rightarrow> bool list \<Rightarrow> bytes" where
  "weave (b # bs) (c # cs) = b # (if c then [TERMINATOR] else []) @ weave bs cs"
| "weave _ _ = []"

lemma guard_stream_weave:
  "\<exists>cuts. length cuts = length bs \<and> snd (guard_stream budget g bs) = weave bs cuts"
proof (induction bs arbitrary: g)
  case (Cons b bs)
  obtain g' over where step: "guard_byte budget g b = (g', over)" by force
  obtain cuts where "length cuts = length bs" "snd (guard_stream budget g' bs) = weave bs cuts"
    using Cons.IH by blast
  with step show ?case
    by (intro exI [of _ "over # cuts"]) (auto split: prod.splits)
qed simp

lemma subseq_weave: "length cuts = length bs \<Longrightarrow> subseq bs (weave bs cuts)"
  by (induction bs cuts rule: weave.induct) auto

section \<open>Framing, as the module documents it\<close>

text \<open>
  The framing the module's documentation gives: a string opens on \<open>ESC ]\<close> and closes on
  BEL, CAN, SUB or ESC (the latter beginning a new sequence).  It is the specification the
  guard is compared with: the state carries the payload of the string that is open.
\<close>

datatype frame = Ground | Escape | In_Osc nat

fun frame_step :: "frame \<Rightarrow> byte \<Rightarrow> frame" where
  "frame_step (In_Osc n) b =
     (if b = CHR 0x07 \<or> b = CHR 0x18 \<or> b = CHR 0x1A then Ground
      else if b = CHR 0x1B then Escape else In_Osc (n + 1))"
| "frame_step Escape b =
     (if b = CHR '']'' then In_Osc 0 else if b = CHR 0x1B then Escape else Ground)"
| "frame_step Ground b = (if b = CHR 0x1B then Escape else Ground)"

fun payload :: "frame \<Rightarrow> nat" where
  "payload (In_Osc n) = n"
| "payload _ = 0"

text \<open>The largest payload any string reaches while a stream is framed.\<close>

fun peak :: "frame \<Rightarrow> bytes \<Rightarrow> nat" where
  "peak f [] = payload f"
| "peak f (b # bs) = max (payload f) (peak (frame_step f b) bs)"

text \<open>A stream in which no ESC directly follows another.\<close>

fun esc_esc_free :: "bytes \<Rightarrow> bool" where
  "esc_esc_free (a # b # bs) \<longleftrightarrow> \<not> (a = ESC \<and> b = ESC) \<and> esc_esc_free (b # bs)"
| "esc_esc_free _ \<longleftrightarrow> True"

fun frame_of :: "escape_guard \<Rightarrow> frame" where
  "frame_of g = (case osc_len g of Some n \<Rightarrow> In_Osc n
     | None \<Rightarrow> if pending_esc g then Escape else Ground)"

text \<open>The guard never has both a string open and an ESC pending, and never holds a string
  past its budget.\<close>

definition guard_inv :: "nat \<Rightarrow> escape_guard \<Rightarrow> bool" where
  "guard_inv budget g \<longleftrightarrow>
     (case osc_len g of None \<Rightarrow> True | Some n \<Rightarrow> n \<le> budget \<and> \<not> pending_esc g)"

lemma guard_inv_new [simp]: "guard_inv budget guard_new"
  by (simp add: guard_inv_def guard_new_def)

lemma guard_byte_inv: "guard_inv budget g \<Longrightarrow> guard_inv budget (fst (guard_byte budget g b))"
  by (cases g) (auto simp: guard_inv_def guard_byte_def Let_def split: option.splits if_splits)

lemma guard_byte_keep:
  "guard_inv budget g \<Longrightarrow> \<not> (pending_esc g \<and> b = ESC) \<Longrightarrow>
   guard_byte budget g b = (g', False) \<Longrightarrow> frame_of g' = frame_step (frame_of g) b"
  by (cases g) (auto simp: guard_inv_def guard_byte_def Let_def split: option.splits if_splits)

lemma guard_byte_cut:
  "guard_inv budget g \<Longrightarrow> guard_byte budget g b = (g', True) \<Longrightarrow>
   frame_step (frame_of g) b = In_Osc (budget + 1) \<and> frame_of g' = Ground"
  by (cases g) (auto simp: guard_inv_def guard_byte_def Let_def split: option.splits if_splits)

lemma payload_frame_of: "guard_inv budget g \<Longrightarrow> payload (frame_of g) \<le> budget"
  by (auto simp: guard_inv_def split: option.splits)

lemma guard_byte_pending:
  "guard_inv budget g \<Longrightarrow> pending_esc (fst (guard_byte budget g b)) \<Longrightarrow> b = ESC"
  by (cases g) (auto simp: guard_inv_def guard_byte_def Let_def split: option.splits if_splits)

lemma peak_guard_stream:
  assumes "guard_inv budget g" and "esc_esc_free bs"
    and "pending_esc g \<longrightarrow> (case bs of [] \<Rightarrow> True | b # _ \<Rightarrow> b \<noteq> ESC)"
  shows "peak (frame_of g) (snd (guard_stream budget g bs)) \<le> budget + 1"
  using assms
proof (induction bs arbitrary: g)
  case Nil
  then show ?case using payload_frame_of [of budget g] by simp
next
  case (Cons b bs)
  obtain g' over where step: "guard_byte budget g b = (g', over)" by force
  have inv': "guard_inv budget g'"
    using guard_byte_inv [OF Cons.prems(1), of b] step by simp
  have free: "esc_esc_free bs" using Cons.prems(2) by (cases bs) auto
  have next_ok: "pending_esc g' \<longrightarrow> (case bs of [] \<Rightarrow> True | c # _ \<Rightarrow> c \<noteq> ESC)"
    using guard_byte_pending [OF Cons.prems(1), of b] step Cons.prems(2)
    by (auto split: list.splits)
  have IH: "peak (frame_of g') (snd (guard_stream budget g' bs)) \<le> budget + 1"
    using inv' free next_ok by (rule Cons.IH)
  have low: "payload (frame_of g) \<le> budget" using Cons.prems(1) by (rule payload_frame_of)
  show ?case
  proof (cases over)
    case True
    then show ?thesis
      using IH low step guard_byte_cut [OF Cons.prems(1), of b g']
      by (simp add: TERMINATOR_def case_prod_beta del: frame_of.simps)
  next
    case False
    then show ?thesis
      using IH low step Cons.prems(3) guard_byte_keep [OF Cons.prems(1), of b g']
      by (simp add: case_prod_beta del: frame_of.simps)
  qed
qed

text \<open>In the other direction the guard sees a string open only where the framing does, so a
  stream whose strings all fit passes through untouched, whatever ESCs it holds.\<close>

definition within_frame :: "escape_guard \<Rightarrow> frame \<Rightarrow> bool" where
  "within_frame g f \<longleftrightarrow>
     (case osc_len g of Some n \<Rightarrow> f = In_Osc n \<and> \<not> pending_esc g
      | None \<Rightarrow> pending_esc g \<longrightarrow> f = Escape)"

lemma guard_byte_within:
  "within_frame g f \<Longrightarrow> payload (frame_step f b) \<le> budget \<Longrightarrow>
   \<exists>g'. guard_byte budget g b = (g', False) \<and> within_frame g' (frame_step f b)"
  by (cases g; cases f)
    (auto simp: within_frame_def guard_byte_def Let_def split: option.splits if_splits)

lemma peak_ge_payload: "payload f \<le> peak f bs"
  by (cases bs) auto

lemma guard_stream_transparent:
  "within_frame g f \<Longrightarrow> peak f bs \<le> budget \<Longrightarrow> snd (guard_stream budget g bs) = bs"
proof (induction bs arbitrary: g f)
  case (Cons b bs)
  then have peak': "peak (frame_step f b) bs \<le> budget" by simp
  then have "payload (frame_step f b) \<le> budget"
    using peak_ge_payload order_trans by blast
  with Cons.prems(1) obtain g'
    where "guard_byte budget g b = (g', False)" "within_frame g' (frame_step f b)"
    using guard_byte_within by blast
  with Cons.IH [OF _ peak'] show ?case by (simp add: case_prod_beta)
qed simp

lemma within_frame_new [simp]: "within_frame guard_new Ground"
  by (simp add: within_frame_def guard_new_def)

section \<open>Properties\<close>



text \<open>Every byte of the stream reaches the sink exactly once and in order, and nothing
  but string terminators is added; the slices depend on how the stream was cut, what reaches
  the sink does not.\<close>

theorem guard_only_adds_terminators:
  "(\<exists>cuts. length cuts = length (concat chunks) \<and>
      snd (guard_feeds budget g chunks) = weave (concat chunks) cuts) \<and>
   guard_feeds budget g chunks = guard_feeds budget g [concat chunks]"
  using guard_stream_weave [of "concat chunks" budget g] by (simp add: guard_feeds_stream)

text \<open>A stream none of whose OSC strings passes the budget reaches the sink unchanged.\<close>

theorem guard_transparent:
  assumes "peak Ground (concat chunks) \<le> budget"
  shows "snd (guard_feeds budget guard_new chunks) = concat chunks"
  using guard_stream_transparent [OF within_frame_new assms] by (simp add: guard_feeds_stream)

theorem guard_transparent_witness:
  "snd (guard_feeds 3 guard_new [[ESC, CHR '']''], ''abc'', [BEL], ''plain'']) =
     [ESC, CHR '']''] @ ''abc'' @ [BEL] @ ''plain''"
  using guard_transparent [of "[[ESC, CHR '']''], ''abc'', [BEL], ''plain'']" 3] by simp

text \<open>The guard forgets a pending ESC when a second one follows it, so it does not see
  the string that \<open>ESC ESC ]\<close> opens: under the documented framing the payload of such a
  string grows without bound and no terminator is ever injected.\<close>

theorem guard_misses_double_escape:
  "guard_feed budget guard_new (ESC # ESC # CHR '']'' # replicate n (CHR ''x'')) =
     (guard_new, [ESC # ESC # CHR '']'' # replicate n (CHR ''x'')]) \<and>
   peak Ground (ESC # ESC # CHR '']'' # replicate n (CHR ''x'')) = n"
proof -
  have loop: "acc \<noteq> [] \<Longrightarrow> guard_loop budget guard_new acc (replicate k (CHR ''x'')) =
      (guard_new, [acc @ replicate k (CHR ''x'')])" for acc k
    by (induction k arbitrary: acc)
      (simp_all add: guard_byte_def guard_new_def replicate_app_Cons_same)
  have framing: "peak (In_Osc m) (replicate k (CHR ''x'')) = m + k" for m k
    by (induction k arbitrary: m) simp_all
  have "guard_feed budget guard_new (ESC # ESC # CHR '']'' # replicate n (CHR ''x'')) =
      guard_loop budget guard_new [ESC, ESC, CHR '']''] (replicate n (CHR ''x''))"
    by (simp add: guard_feed_def guard_byte_def guard_new_def)
  then show ?thesis by (simp add: loop framing)
qed

end
