(* ===== verification/Rust_Strings.thy ===== *)
theory Rust_Strings
  imports Gpty_Prelude
begin

text \<open>
  The operations of Rust's \<open>str\<close> the sources call, on UTF-8 bytes: trimming of Unicode
  white space, splitting, UTF-8 validation and the lossy conversion of
  \<open>String::from_utf8_lossy\<close>.
\<close>

section \<open>White space and trimming\<close>

text \<open>Unicode \<open>White_Space\<close>, by the length of the character's encoding.\<close>

definition ws1 :: "byte \<Rightarrow> bool" where
  "ws1 a \<longleftrightarrow> (9 \<le> code a \<and> code a \<le> 13) \<or> code a = 32"

definition ws2 :: "byte \<Rightarrow> byte \<Rightarrow> bool" where
  \<comment> \<open>U+0085 and U+00A0\<close>
  "ws2 a b \<longleftrightarrow> code a = 0xC2 \<and> (code b = 0x85 \<or> code b = 0xA0)"

definition ws3 :: "byte \<Rightarrow> byte \<Rightarrow> byte \<Rightarrow> bool" where
  \<comment> \<open>U+1680, U+2000 to U+200A, U+2028, U+2029, U+202F, U+205F and U+3000\<close>
  "ws3 a b c \<longleftrightarrow>
     (code a = 0xE1 \<and> code b = 0x9A \<and> code c = 0x80) \<or>
     (code a = 0xE2 \<and> code b = 0x80 \<and>
        ((0x80 \<le> code c \<and> code c \<le> 0x8A) \<or> code c = 0xA8 \<or> code c = 0xA9 \<or> code c = 0xAF)) \<or>
     (code a = 0xE2 \<and> code b = 0x81 \<and> code c = 0x9F) \<or>
     (code a = 0xE3 \<and> code b = 0x80 \<and> code c = 0x80)"

fun strip_with :: "(byte \<Rightarrow> bool) \<Rightarrow> (byte \<Rightarrow> byte \<Rightarrow> bool) \<Rightarrow> (byte \<Rightarrow> byte \<Rightarrow> byte \<Rightarrow> bool)
    \<Rightarrow> str \<Rightarrow> str" where
  "strip_with w1 w2 w3 [] = []"
| "strip_with w1 w2 w3 (a # xs) =
     (if w1 a then strip_with w1 w2 w3 xs
      else (case xs of
          b # ys \<Rightarrow>
            if w2 a b then strip_with w1 w2 w3 ys
            else (case ys of
                c # zs \<Rightarrow> if w3 a b c then strip_with w1 w2 w3 zs else a # xs
              | [] \<Rightarrow> a # xs)
        | [] \<Rightarrow> a # xs))"

definition trim_start :: "str \<Rightarrow> str" where
  "trim_start s = strip_with ws1 ws2 ws3 s"

definition trim_end :: "str \<Rightarrow> str" where
  "trim_end s = rev (strip_with ws1 (\<lambda>b a. ws2 a b) (\<lambda>c b a. ws3 a b c) (rev s))"

definition trim :: "str \<Rightarrow> str" where
  "trim s = trim_end (trim_start s)"

lemma suffix_strip_with: "suffix (strip_with w1 w2 w3 s) s"
proof (induction w1 w2 w3 s rule: strip_with.induct)
  case (2 w1 w2 w3 a xs)
  then show ?case
    by (auto split: list.splits simp: suffix_ConsI intro: suffix_ConsI)
qed simp

lemma length_trim_start: "length (trim_start s) \<le> length s"
  using suffix_strip_with [of ws1 ws2 ws3 s] by (simp add: trim_start_def suffix_length_le)

lemma length_trim_end: "length (trim_end s) \<le> length s"
  using suffix_strip_with [of ws1 "\<lambda>b a. ws2 a b" "\<lambda>c b a. ws3 a b c" "rev s"]
  by (auto simp: trim_end_def dest: suffix_length_le)

lemma length_trim: "length (trim s) \<le> length s"
  using length_trim_end length_trim_start order_trans unfolding trim_def by blast

lemmas trim_eval = trim_def trim_start_def trim_end_def ws1_def ws2_def ws3_def code_def

section \<open>Splitting\<close>

fun split_once :: "byte \<Rightarrow> str \<Rightarrow> (str \<times> str) option" where
  "split_once d [] = None"
| "split_once d (a # xs) =
     (if a = d then Some ([], xs)
      else map_option (\<lambda>(l, r). (a # l, r)) (split_once d xs))"

lemma split_once_Some: "split_once d s = Some (l, r) \<longleftrightarrow> s = l @ d # r \<and> d \<notin> set l"
proof (induction s arbitrary: l)
  case (Cons a s)
  then show ?case by (cases l) auto
qed simp

lemma split_once_None: "split_once d s = None \<longleftrightarrow> d \<notin> set s"
  by (induction s) auto

definition strip_suffix :: "str \<Rightarrow> str \<Rightarrow> str option" where
  "strip_suffix suf s =
     (if suf = drop (length s - length suf) s then Some (take (length s - length suf) s) else None)"

lemma strip_suffix_Some: "strip_suffix suf s = Some p \<longleftrightarrow> s = p @ suf"
proof
  assume "strip_suffix suf s = Some p"
  then show "s = p @ suf"
    by (metis append_take_drop_id option.distinct(1) option.inject strip_suffix_def)
qed (simp add: strip_suffix_def)

definition strip_or :: "str \<Rightarrow> str \<Rightarrow> str" where
  \<comment> \<open>\<open>s.strip_suffix(suf).unwrap_or(s)\<close>\<close>
  "strip_or suf s = (case strip_suffix suf s of Some p \<Rightarrow> p | None \<Rightarrow> s)"

text \<open>\<open>str::split_inclusive('\\n')\<close>: the lines, each with the newline that ended it.\<close>

fun split_inclusive :: "str \<Rightarrow> str list" where
  "split_inclusive [] = []"
| "split_inclusive (a # xs) =
     (if a = LF then [a] # split_inclusive xs
      else (case split_inclusive xs of
          [] \<Rightarrow> [[a]]
        | l # ls \<Rightarrow> (a # l) # ls))"

lemma concat_split_inclusive [simp]: "concat (split_inclusive s) = s"
  by (induction s) (auto split: list.splits)

text \<open>\<open>str::lines\<close>.\<close>

definition str_lines :: "str \<Rightarrow> str list" where
  "str_lines s = map (\<lambda>l. case strip_suffix [LF] l of
     None \<Rightarrow> l | Some l' \<Rightarrow> strip_or [CR] l') (split_inclusive s)"

section \<open>UTF-8\<close>

definition cont :: "byte \<Rightarrow> bool" where
  "cont b \<longleftrightarrow> 0x80 \<le> code b \<and> code b \<le> 0xBF"

text \<open>The second byte a leading byte of a three- or four-byte sequence admits.\<close>

definition second_ok :: "byte \<Rightarrow> byte \<Rightarrow> bool" where
  "second_ok a b \<longleftrightarrow>
     (if code a = 0xE0 then 0xA0 \<le> code b \<and> code b \<le> 0xBF
      else if code a = 0xED then 0x80 \<le> code b \<and> code b \<le> 0x9F
      else if code a = 0xF0 then 0x90 \<le> code b \<and> code b \<le> 0xBF
      else if code a = 0xF4 then 0x80 \<le> code b \<and> code b \<le> 0x8F
      else cont b)"

text \<open>The first sequence of a byte string: whether it is a character, and its length (for
  an ill-formed one, the length of the part that is replaced as a whole).\<close>

definition utf8_head :: "byte \<Rightarrow> bytes \<Rightarrow> bool \<times> nat" where
  "utf8_head a rest =
     (if code a < 0x80 then (True, 1)
      else if 0xC2 \<le> code a \<and> code a \<le> 0xDF then
        (case rest of b # _ \<Rightarrow> if cont b then (True, 2) else (False, 1) | [] \<Rightarrow> (False, 1))
      else if 0xE0 \<le> code a \<and> code a \<le> 0xEF then
        (case rest of
           b # r2 \<Rightarrow> if second_ok a b
             then (case r2 of c # _ \<Rightarrow> if cont c then (True, 3) else (False, 2) | [] \<Rightarrow> (False, 2))
             else (False, 1)
         | [] \<Rightarrow> (False, 1))
      else if 0xF0 \<le> code a \<and> code a \<le> 0xF4 then
        (case rest of
           b # r2 \<Rightarrow> if second_ok a b
             then (case r2 of
                c # r3 \<Rightarrow> if cont c
                  then (case r3 of d # _ \<Rightarrow> if cont d then (True, 4) else (False, 3)
                        | [] \<Rightarrow> (False, 3))
                  else (False, 2)
              | [] \<Rightarrow> (False, 2))
             else (False, 1)
         | [] \<Rightarrow> (False, 1))
      else (False, 1))"

fun utf8_chunks :: "bytes \<Rightarrow> (bool \<times> bytes) list" where
  "utf8_chunks [] = []"
| "utf8_chunks (a # rest) =
     (case utf8_head a rest of (ok, n) \<Rightarrow>
        (ok, a # take (n - 1) rest) # utf8_chunks (drop (n - 1) rest))"

definition utf8_valid :: "bytes \<Rightarrow> bool" where
  "utf8_valid bs = list_all fst (utf8_chunks bs)"

text \<open>The first characters of a string.\<close>

definition take_chars :: "nat \<Rightarrow> str \<Rightarrow> str" where
  "take_chars n s = concat (map snd (take n (utf8_chunks s)))"

definition replacement :: str where
  \<comment> \<open>U+FFFD\<close>
  "replacement = [CHR 0xEF, CHR 0xBF, CHR 0xBD]"

definition from_utf8_lossy :: "bytes \<Rightarrow> str" where
  "from_utf8_lossy bs = concat (map (\<lambda>(ok, c). if ok then c else replacement) (utf8_chunks bs))"

lemma concat_utf8_chunks: "concat (map snd (utf8_chunks bs)) = bs"
  by (induction bs rule: utf8_chunks.induct) (auto split: prod.splits)

text \<open>A well-formed string is its own lossy conversion.\<close>

lemma from_utf8_lossy_valid: "utf8_valid bs \<Longrightarrow> from_utf8_lossy bs = bs"
proof -
  assume "utf8_valid bs"
  then have eq: "map (\<lambda>(ok, c). if ok then c else replacement) (utf8_chunks bs) =
      map snd (utf8_chunks bs)"
    by (auto simp: utf8_valid_def list_all_iff)
  show ?thesis unfolding from_utf8_lossy_def eq by (rule concat_utf8_chunks)
qed

text \<open>A complete character is read the same whatever follows it, so decoding goes on after a
  well-formed prefix.\<close>

lemma utf8_head_append: "utf8_head a rest = (True, n) \<Longrightarrow> utf8_head a (rest @ s) = (True, n)"
  by (auto simp: utf8_head_def split: if_splits list.splits)

lemma utf8_head_len: "utf8_head a rest = (True, n) \<Longrightarrow> n - 1 \<le> length rest"
  by (auto simp: utf8_head_def split: if_splits list.splits)

lemma utf8_chunks_append: "utf8_valid bs \<Longrightarrow> utf8_chunks (bs @ s) = utf8_chunks bs @ utf8_chunks s"
proof (induction bs rule: utf8_chunks.induct)
  case (2 a rest)
  then obtain n where h: "utf8_head a rest = (True, n)"
    by (cases "utf8_head a rest") (auto simp: utf8_valid_def)
  then have "utf8_valid (drop (n - 1) rest)" using 2(2) by (simp add: utf8_valid_def)
  then show ?case
    using 2(1) [OF h [symmetric]] h utf8_head_append [OF h, of s] utf8_head_len [OF h] by simp
qed simp

definition ascii :: "bytes \<Rightarrow> bool" where
  "ascii bs = list_all (\<lambda>b. code b < 0x80) bs"

lemma utf8_chunks_ascii: "ascii bs \<Longrightarrow> utf8_chunks bs = map (\<lambda>b. (True, [b])) bs"
  by (induction bs) (auto simp: ascii_def utf8_head_def)

lemma ascii_valid: "ascii bs \<Longrightarrow> utf8_valid bs"
  by (simp add: utf8_valid_def utf8_chunks_ascii list_all_iff)

section \<open>Comparing without a shortcut\<close>

text \<open>The fold of the byte-wise differences both sockets compare secrets with.\<close>

unbundle bit_operations_syntax

definition byte_word :: "byte \<Rightarrow> 8 word" where
  "byte_word b = word_of_nat (code b)"

lemma byte_word_eq: "byte_word a = byte_word b \<longleftrightarrow> a = b"
proof
  assume "byte_word a = byte_word b"
  then have "unat (byte_word a) = unat (byte_word b)" by simp
  then have "code a mod 256 = code b mod 256" by (simp add: byte_word_def unat_of_nat)
  moreover have "code c < 256" for c by (simp add: code_def)
  ultimately have "code a = code b" by simp
  then show "a = b" by (simp add: code_def)
qed simp

lemma word_xor_zero: "a XOR b = 0 \<longleftrightarrow> a = b" for a b :: "8 word"
proof
  assume "a XOR b = 0"
  then have "(a XOR b) XOR b = b" by simp
  then show "a = b" by (simp add: xor.assoc)
qed simp

lemma fold_diff_zero:
  "fold (\<lambda>(a, b) diff. diff OR (byte_word a XOR byte_word b)) ps d = 0 \<longleftrightarrow>
   d = 0 \<and> list_all (\<lambda>(a, b). a = b) ps"
proof (induction ps arbitrary: d)
  case (Cons p ps)
  obtain a b where p: "p = (a, b)" by force
  have "d OR (byte_word a XOR byte_word b) = 0 \<longleftrightarrow> d = 0 \<and> a = b"
    by (simp only: or_eq_0_iff word_xor_zero byte_word_eq)
  then show ?case using Cons.IH by (simp add: p)
qed simp

lemma fold_diff_zip:
  "length l = length r \<Longrightarrow>
   fold (\<lambda>(a, b) diff. diff OR (byte_word a XOR byte_word b)) (zip l r) 0 = 0 \<longleftrightarrow> l = r"
  by (auto simp: fold_diff_zero list_all_iff set_zip list_eq_iff_nth_eq)

section \<open>Characters\<close>

text \<open>\<open>str::chars\<close>, each character as its encoding.\<close>

definition chars :: "str \<Rightarrow> str list" where
  "chars s = map snd (utf8_chunks s)"

text \<open>\<open>char::is_control\<close>: C0, DEL and C1.\<close>

definition is_control :: "str \<Rightarrow> bool" where
  "is_control c =
     (case c of
        [a] \<Rightarrow> code a < 32 \<or> code a = 127
      | [a, b] \<Rightarrow> code a = 0xC2 \<and> 0x80 \<le> code b \<and> code b \<le> 0x9F
      | _ \<Rightarrow> False)"

text \<open>\<open>char::is_whitespace\<close> and \<open>str::split_whitespace\<close>.\<close>

definition is_white :: "str \<Rightarrow> bool" where
  "is_white c = (case c of [a] \<Rightarrow> ws1 a | [a, b] \<Rightarrow> ws2 a b | [a, b, d] \<Rightarrow> ws3 a b d | _ \<Rightarrow> False)"

fun words_of :: "str list \<Rightarrow> str \<Rightarrow> str list" where
  "words_of [] w = (if w = [] then [] else [w])"
| "words_of (c # cs) w =
     (if is_white c then (if w = [] then words_of cs [] else w # words_of cs []) else words_of cs (w @ c))"

definition split_whitespace :: "str \<Rightarrow> str list" where
  "split_whitespace s = words_of (chars s) []"

end
