(* ===== verification/Agent_State.thy ===== *)
theory Agent_State
  imports Rust_Strings
begin

text \<open>
  The tiered, display-only agent state of \<open>crates/gpty-core/src/agent_state.rs\<close>: the
  declaration whitelist, the tracker that merges observations by tier, its decay, and the
  failure patterns.  The \<open>regex\<close> crate is a parameter (\<open>rx p line\<close>: does the pattern
  \<open>p\<close> match the line).
\<close>

section \<open>States and tiers\<close>

datatype agent_state = Idle | Working | NeedsAttention | Completed | Failed

definition as_str :: "agent_state \<Rightarrow> str" where
  "as_str s = (case s of
      Idle \<Rightarrow> ''idle''
    | Working \<Rightarrow> ''working''
    | NeedsAttention \<Rightarrow> ''needs-attention''
    | Completed \<Rightarrow> ''completed''
    | Failed \<Rightarrow> ''failed'')"

definition from_declaration :: "str \<Rightarrow> agent_state option" where
  "from_declaration value =
     (let t = trim value
      in if t = ''idle'' then Some Idle
         else if t = ''working'' then Some Working
         else if t = ''needs-attention'' \<or> t = ''needs_attention'' then Some NeedsAttention
         else if t = ''completed'' then Some Completed
         else if t = ''failed'' then Some Failed
         else None)"

datatype state_tier = Tier1 | Tier2 | Tier3

fun tier_no :: "state_tier \<Rightarrow> nat" where
  "tier_no Tier1 = 1"
| "tier_no Tier2 = 2"
| "tier_no Tier3 = 3"

lemma tier_no_inj [simp]: "tier_no a = tier_no b \<longleftrightarrow> a = b"
  by (cases a; cases b) simp_all

text \<open>The derived \<open>Ord\<close>: a lower tier is stronger.\<close>

instantiation state_tier :: linorder
begin

definition less_eq_state_tier :: "state_tier \<Rightarrow> state_tier \<Rightarrow> bool" where
  "less_eq_state_tier a b \<longleftrightarrow> tier_no a \<le> tier_no b"

definition less_state_tier :: "state_tier \<Rightarrow> state_tier \<Rightarrow> bool" where
  "less_state_tier a b \<longleftrightarrow> tier_no a < tier_no b"

instance
  by intro_classes (auto simp: less_eq_state_tier_def less_state_tier_def)

end

lemma tier_le_simps [simp]:
  "Tier1 \<le> t" "t \<le> Tier3" "\<not> Tier2 \<le> Tier1" "\<not> Tier3 \<le> Tier2" "\<not> Tier3 \<le> Tier1"
  by (cases t; simp add: less_eq_state_tier_def)+

definition DECLARATION_MIN_INTERVAL_MS :: nat where
  "DECLARATION_MIN_INTERVAL_MS = 500"

definition TIER3_TTL_MS :: nat where
  "TIER3_TTL_MS = 60000"

section \<open>The tracker\<close>

record agent_tracker =
  state :: agent_state
  tier :: "state_tier option"
  at_unix_ms :: nat
  last_declaration_unix_ms :: "nat option"
  last_t3_signal_unix_ms :: "nat option"

definition tracker_default :: agent_tracker where
  "tracker_default = \<lparr>state = Idle, tier = None, at_unix_ms = 0,
     last_declaration_unix_ms = None, last_t3_signal_unix_ms = None\<rparr>"

definition observe :: "state_tier \<Rightarrow> agent_state \<Rightarrow> nat \<Rightarrow> agent_tracker \<Rightarrow> agent_tracker \<times> bool" where
  "observe t s now tr =
     (if (case tier tr of Some current \<Rightarrow> current < t | None \<Rightarrow> False) then (tr, False)
      else (tr\<lparr>tier := Some t, state := s, at_unix_ms := now\<rparr>,
            tier tr \<noteq> Some t \<or> state tr \<noteq> s))"

definition decay_t3 :: "nat \<Rightarrow> nat \<Rightarrow> agent_tracker \<Rightarrow> agent_tracker \<times> bool" where
  "decay_t3 now ttl tr =
     (if tier tr \<noteq> Some Tier3 \<or> state tr = Idle then (tr, False)
      else let stale = (case last_t3_signal_unix_ms tr of Some t \<Rightarrow> ttl \<le> now - t | None \<Rightarrow> True)
           in if stale then observe Tier3 Idle now tr else (tr, False))"

section \<open>Tier 3 patterns\<close>

definition TIER3_FAILURE_PATTERNS :: "str list" where
  "TIER3_FAILURE_PATTERNS =
     [''(?i)'' @ [BACKSLASH] @ ''bfatal error'' @ [BACKSLASH] @ ''b'',
      ''(?i)'' @ [BACKSLASH] @ ''bassertion failed'' @ [BACKSLASH] @ ''b'',
      ''(?i)'' @ [BACKSLASH] @ ''bfailures?: [1-9][0-9]*'' @ [BACKSLASH] @ ''b'',
      ''(?i)'' @ [BACKSLASH] @ ''btest result: FAILED'' @ [BACKSLASH] @ ''b'',
      ''(?i)'' @ [BACKSLASH] @ ''btests? failed'' @ [BACKSLASH] @ ''b'',
      ''(?i)'' @ [BACKSLASH] @ ''bcould not compile'' @ [BACKSLASH] @ ''b'',
      ''(?i)^error: process didn'' @ [CHR 0x27] @ ''t exit successfully'',
      ''(?i)^npm error'']"

definition tier3_failure_match :: "(str \<Rightarrow> str \<Rightarrow> bool) \<Rightarrow> str \<Rightarrow> bool" where
  "tier3_failure_match rx line = list_ex (\<lambda>p. rx p line) TIER3_FAILURE_PATTERNS"

section \<open>Facts\<close>

lemma from_declaration_as_str: "from_declaration (as_str s) = Some s"
  by (cases s) (simp_all add: as_str_def from_declaration_def trim_eval)

lemma observe_weaker: "tier tr = Some c \<Longrightarrow> c < t \<Longrightarrow> observe t s now tr = (tr, False)"
  by (simp add: observe_def)

lemma observe_accepted:
  "(\<forall>c. tier tr = Some c \<longrightarrow> t \<le> c) \<Longrightarrow>
   fst (observe t s now tr) = tr\<lparr>tier := Some t, state := s, at_unix_ms := now\<rparr>"
  by (auto simp: observe_def not_less split: option.splits)

lemma observe_tier: "tier (fst (observe t s now tr)) =
    Some (case tier tr of None \<Rightarrow> t | Some c \<Rightarrow> min c t)"
  by (auto simp: observe_def min_def split: option.splits)

lemma decay_other_tier: "tier tr \<noteq> Some Tier3 \<Longrightarrow> decay_t3 now ttl tr = (tr, False)"
  by (simp add: decay_t3_def)

lemma decay_tier: "tier (fst (decay_t3 now ttl tr)) = tier tr"
  by (auto simp: decay_t3_def observe_def split: option.splits)

text \<open>A sequence of observations \<open>(tier, state, time)\<close>.\<close>

fun observe_all :: "(state_tier \<times> agent_state \<times> nat) list \<Rightarrow> agent_tracker \<Rightarrow> agent_tracker" where
  "observe_all [] tr = tr"
| "observe_all ((t, s, now) # os) tr = observe_all os (fst (observe t s now tr))"

lemma observe_all_append: "observe_all (xs @ ys) tr = observe_all ys (observe_all xs tr)"
  by (induction xs tr rule: observe_all.induct) simp_all

text \<open>The specification: the newest observation of the strongest tier seen.\<close>

definition strongest :: "(state_tier \<times> agent_state \<times> nat) list \<Rightarrow> state_tier" where
  "strongest os = Min (fst ` set os)"

definition winner :: "(state_tier \<times> agent_state \<times> nat) list \<Rightarrow> state_tier \<times> agent_state \<times> nat" where
  "winner os = last (filter (\<lambda>ob. fst ob = strongest os) os)"

lemma strongest_snoc:
  "os \<noteq> [] \<Longrightarrow> strongest (os @ [(t, s, now)]) = min t (strongest os)"
  by (simp add: strongest_def)

lemma winner_snoc:
  assumes "os \<noteq> []"
  shows "winner (os @ [(t, s, now)]) = (if t \<le> strongest os then (t, s, now) else winner os)"
  using assms by (auto simp: winner_def strongest_snoc min_def)

lemma fst_winner: "os \<noteq> [] \<Longrightarrow> fst (winner os) = strongest os"
proof -
  assume "os \<noteq> []"
  then have "strongest os \<in> fst ` set os" unfolding strongest_def by (intro Min_in) auto
  then have "filter (\<lambda>ob. fst ob = strongest os) os \<noteq> []" by (force simp: filter_empty_conv)
  from last_in_set [OF this] show ?thesis by (simp add: winner_def)
qed

lemma observe_all_winner:
  "os \<noteq> [] \<Longrightarrow>
   (tier (observe_all os tracker_default), state (observe_all os tracker_default),
    at_unix_ms (observe_all os tracker_default)) =
   (case winner os of (t, s, now) \<Rightarrow> (Some t, s, now))"
proof (induction os rule: rev_induct)
  case (snoc ob os)
  obtain t s now where ob: "ob = (t, s, now)" by (cases ob) auto
  show ?case
  proof (cases "os = []")
    case True
    then show ?thesis
      by (simp add: ob winner_def strongest_def observe_def tracker_default_def)
  next
    case False
    then show ?thesis
      using snoc.IH fst_winner [of os]
      by (auto simp: ob observe_all_append winner_snoc observe_def not_less
          split: prod.splits if_splits option.splits)
  qed
qed simp

section \<open>Properties\<close>

text \<open>After any sequence of observations the tracker shows the newest observation of the
  strongest tier it was given, so a weaker tier never overrides a stronger one.\<close>

theorem tracker_shows_winner:
  assumes "os \<noteq> []" and "winner os = (t, s, now)"
  shows "tier (observe_all os tracker_default) = Some t \<and>
         state (observe_all os tracker_default) = s \<and>
         at_unix_ms (observe_all os tracker_default) = now \<and>
         (\<forall>ob \<in> set os. t \<le> fst ob)"
proof -
  have "t = strongest os" using fst_winner [OF assms(1)] assms(2) by simp
  then have "\<forall>ob \<in> set os. t \<le> fst ob" by (simp add: strongest_def)
  then show ?thesis using observe_all_winner [OF assms(1)] assms(2) by simp
qed

theorem tracker_shows_winner_witness:
  "state (observe_all [(Tier3, Failed, 5), (Tier2, Working, 7), (Tier3, Failed, 9)] tracker_default)
     = Working"
  using tracker_shows_winner
    [of "[(Tier3, Failed, 5), (Tier2, Working, 7), (Tier3, Failed, 9)]" Tier2 Working 7]
  by (simp add: winner_def strongest_def min_def less_eq_state_tier_def)

end
