(* ===== verification/Line_Parser.thy ===== *)
theory Line_Parser
  imports Escape_Guard Agent_State
begin

text \<open>
  The plain-text line parser of \<open>crates/gpty-core/src/parser.rs\<close>: the \<open>Perform\<close> handler that
  turns \<open>vte\<close>'s callbacks into completed lines, and the parser around it (escape-string guard,
  \<open>vte\<close> parser, handler).  The \<open>vte\<close> parser itself is a parameter: \<open>advance v bs\<close> returns
  its next state and the callbacks it makes, in order.
\<close>

section \<open>Callbacks and handler state\<close>

text \<open>A printed character is its UTF-8 encoding; CSI parameters are \<open>vte\<close>'s list of
  sub-parameter lists of 16-bit numbers.\<close>

datatype vte_event =
    Print str
  | Execute byte
  | Csi_Dispatch "nat list list" bool byte
  | Osc_Dispatch "bytes list" bool
  | Esc_Dispatch | Hook | Put byte | Unhook

definition MAX_LINE_LEN :: nat where
  "MAX_LINE_LEN = 16 * 1024"

record handler =
  current_line :: str
  completed_lines :: "str list"
  cr_stash :: "str option"
  declared_state :: "agent_state option"
  cursor_row :: nat

definition handler_default :: handler where
  "handler_default = \<lparr>current_line = [], completed_lines = [], cr_stash = None,
     declared_state = None, cursor_row = 1\<rparr>"

section \<open>The handler's operations\<close>

definition commit_if_nonempty :: "handler \<Rightarrow> handler" where
  "commit_if_nonempty h =
     (case cr_stash h of
        Some stashed \<Rightarrow>
          (let h1 = h\<lparr>cr_stash := None\<rparr>
           in if stashed \<noteq> [] then h1\<lparr>completed_lines := completed_lines h1 @ [stashed]\<rparr> else h1)
      | None \<Rightarrow>
          if current_line h \<noteq> []
          then h\<lparr>completed_lines := completed_lines h @ [current_line h], current_line := []\<rparr>
          else h)"

definition print :: "str \<Rightarrow> handler \<Rightarrow> handler" where
  "print c h =
     (let h1 = (if cr_stash h \<noteq> None then h\<lparr>cr_stash := None, current_line := []\<rparr> else h)
      in if length (current_line h1) < MAX_LINE_LEN
         then h1\<lparr>current_line := current_line h1 @ c\<rparr> else h1)"

definition execute :: "byte \<Rightarrow> handler \<Rightarrow> handler" where
  "execute b h =
     (if b = LF then
        (case cr_stash h of
           Some stashed \<Rightarrow> h\<lparr>cr_stash := None, completed_lines := completed_lines h @ [stashed]\<rparr>
         | None \<Rightarrow>
             h\<lparr>completed_lines := completed_lines h @ [current_line h], current_line := []\<rparr>)
      else if b = CR \<and> cr_stash h = None then
        h\<lparr>cr_stash := Some (current_line h), current_line := []\<rparr>
      else h)"

text \<open>The first sub-parameter of the first parameter, 0 and absent both meaning 1.\<close>

definition first_param :: "nat list list \<Rightarrow> nat" where
  "first_param params =
     (case params of
        (p # _) # _ \<Rightarrow> if p \<noteq> 0 then p else 1
      | _ \<Rightarrow> 1)"

definition csi_dispatch :: "nat list list \<Rightarrow> bool \<Rightarrow> byte \<Rightarrow> handler \<Rightarrow> handler" where
  "csi_dispatch params ignore action h =
     (if ignore then h
      else if action = CHR ''H'' \<or> action = CHR ''f'' then
        (let row = first_param params
         in if row \<noteq> cursor_row h then (commit_if_nonempty h)\<lparr>cursor_row := row\<rparr> else h)
      else if action = CHR ''B'' \<or> action = CHR ''E'' then
        (let n = first_param params
         in if 0 < n
            then (let h1 = commit_if_nonempty h
                  in h1\<lparr>cursor_row := sat_add64 (cursor_row h1) n\<rparr>)
            else h)
      else h)"

definition osc_dispatch :: "bytes list \<Rightarrow> handler \<Rightarrow> handler" where
  "osc_dispatch params h =
     (if declared_state h \<noteq> None then h
      else (case params of
          [] \<Rightarrow> h
        | p # _ \<Rightarrow>
            (case split_once (CHR ''='') p of
               None \<Rightarrow> h
             | Some (key, val) \<Rightarrow>
                 if key = ''gpty_state'' \<and> utf8_valid val
                 then (case from_declaration val of
                         Some s \<Rightarrow> h\<lparr>declared_state := Some s\<rparr>
                       | None \<Rightarrow> h)
                 else h)))"

fun perform :: "vte_event \<Rightarrow> handler \<Rightarrow> handler" where
  "perform (Print c) h = print c h"
| "perform (Execute b) h = execute b h"
| "perform (Csi_Dispatch params ignore action) h = csi_dispatch params ignore action h"
| "perform (Osc_Dispatch params bell) h = osc_dispatch params h"
| "perform Esc_Dispatch h = h"
| "perform Hook h = h"
| "perform (Put b) h = h"
| "perform Unhook h = h"

definition perform_all :: "vte_event list \<Rightarrow> handler \<Rightarrow> handler" where
  "perform_all evs h = fold perform evs h"

lemma perform_all_simps [simp]:
  "perform_all [] h = h"
  "perform_all (e # es) h = perform_all es (perform e h)"
  "perform_all (es @ fs) h = perform_all fs (perform_all es h)"
  by (simp_all add: perform_all_def)

section \<open>The parser\<close>

record 'v line_parser =
  parser :: 'v
  handler :: handler
  strings :: escape_guard

definition parser_new :: "'v \<Rightarrow> 'v line_parser" where
  "parser_new v0 = \<lparr>parser = v0, handler = handler_default, strings = guard_new\<rparr>"

text \<open>The sink of the guard: each slice goes through the \<open>vte\<close> parser into the handler.\<close>

fun parse_slices :: "('v \<Rightarrow> bytes \<Rightarrow> 'v \<times> vte_event list) \<Rightarrow> bytes list \<Rightarrow> 'v \<Rightarrow> handler
    \<Rightarrow> 'v \<times> handler" where
  "parse_slices advance [] v h = (v, h)"
| "parse_slices advance (s # ss) v h =
     (case advance v s of (v', evs) \<Rightarrow> parse_slices advance ss v' (perform_all evs h))"

definition parser_feed :: "('v \<Rightarrow> bytes \<Rightarrow> 'v \<times> vte_event list) \<Rightarrow> 'v line_parser \<Rightarrow> bytes
    \<Rightarrow> 'v line_parser \<times> str list" where
  "parser_feed advance p bs =
     (case guard_feed MAX_ESCAPE_STRING_BYTES (strings p) bs of (g, slices) \<Rightarrow>
        case parse_slices advance slices (parser p) (handler p) of (v, h) \<Rightarrow>
          (p\<lparr>parser := v, handler := h\<lparr>completed_lines := []\<rparr>, strings := g\<rparr>, completed_lines h))"

definition take_declared_state :: "'v line_parser \<Rightarrow> 'v line_parser \<times> agent_state option" where
  "take_declared_state p =
     (p\<lparr>handler := (handler p)\<lparr>declared_state := None\<rparr>\<rparr>, declared_state (handler p))"

section \<open>Memory bounds\<close>

text \<open>A character is at most four bytes, so a line stops at most three bytes over the cap.\<close>

definition char_event :: "vte_event \<Rightarrow> bool" where
  "char_event e \<longleftrightarrow> (case e of Print c \<Rightarrow> c \<noteq> [] \<and> length c \<le> 4 | _ \<Rightarrow> True)"

definition handler_bounded :: "handler \<Rightarrow> bool" where
  "handler_bounded h \<longleftrightarrow>
     length (current_line h) \<le> MAX_LINE_LEN + 3 \<and>
     (case cr_stash h of Some s \<Rightarrow> length s \<le> MAX_LINE_LEN + 3 \<and> current_line h = [] | None \<Rightarrow> True) \<and>
     (\<forall>l \<in> set (completed_lines h). length l \<le> MAX_LINE_LEN + 3)"

lemma handler_bounded_default [simp]: "handler_bounded handler_default"
  by (simp add: handler_bounded_def handler_default_def)

lemma print_bounded: "handler_bounded h \<Longrightarrow> length c \<le> 4 \<Longrightarrow> handler_bounded (print c h)"
  by (auto simp: handler_bounded_def print_def MAX_LINE_LEN_def Let_def split: option.splits)

lemma execute_bounded: "handler_bounded h \<Longrightarrow> handler_bounded (execute b h)"
  by (auto simp: handler_bounded_def execute_def split: option.splits)

lemma commit_bounded: "handler_bounded h \<Longrightarrow> handler_bounded (commit_if_nonempty h)"
  by (auto simp: handler_bounded_def commit_if_nonempty_def Let_def split: option.splits)

lemma handler_bounded_frame [simp]:
  "handler_bounded (h\<lparr>cursor_row := r\<rparr>) = handler_bounded h"
  "handler_bounded (h\<lparr>declared_state := d\<rparr>) = handler_bounded h"
  "handler_bounded h \<Longrightarrow> handler_bounded (h\<lparr>completed_lines := []\<rparr>)"
  by (auto simp: handler_bounded_def split: option.splits)

lemma csi_bounded: "handler_bounded h \<Longrightarrow> handler_bounded (csi_dispatch ps i a h)"
  by (auto simp: csi_dispatch_def Let_def commit_bounded)

lemma osc_bounded: "handler_bounded h \<Longrightarrow> handler_bounded (osc_dispatch ps h)"
  by (auto simp: osc_dispatch_def split: list.splits option.splits)

lemma perform_bounded: "handler_bounded h \<Longrightarrow> char_event e \<Longrightarrow> handler_bounded (perform e h)"
  by (cases e) (auto simp: char_event_def print_bounded execute_bounded csi_bounded osc_bounded)

lemma perform_all_bounded:
  "handler_bounded h \<Longrightarrow> \<forall>e \<in> set es. char_event e \<Longrightarrow> handler_bounded (perform_all es h)"
  by (induction es arbitrary: h) (auto intro: perform_bounded)

lemma parse_slices_bounded:
  "handler_bounded h \<Longrightarrow> \<forall>v s. \<forall>e \<in> set (snd (advance v s)). char_event e \<Longrightarrow>
   handler_bounded (snd (parse_slices advance ss v h))"
proof (induction ss arbitrary: v h)
  case (Cons s ss)
  obtain v' evs where adv: "advance v s = (v', evs)" by force
  have "\<forall>e \<in> set evs. char_event e" using Cons.prems(2) adv by (metis snd_conv)
  then show ?case using Cons adv perform_all_bounded by auto
qed simp

section \<open>What a line is\<close>

text \<open>
  The specification of a line, over the printed characters and carriage returns between two
  line feeds: trailing carriage returns are part of the line ending, and what remains shows
  the text printed after the last carriage return.
\<close>

fun is_cr :: "vte_event \<Rightarrow> bool" where
  "is_cr (Execute b) = (b = CR)"
| "is_cr _ = False"

fun printed :: "vte_event \<Rightarrow> str" where
  "printed (Print c) = c"
| "printed _ = []"

definition text_of :: "vte_event list \<Rightarrow> str" where
  "text_of es = concat (map printed es)"

definition visible :: "vte_event list \<Rightarrow> str" where
  "visible seg =
     text_of (rev (takeWhile (\<lambda>e. \<not> is_cr e) (dropWhile is_cr (rev seg))))"

definition line_event :: "vte_event \<Rightarrow> bool" where
  "line_event e \<longleftrightarrow> is_cr e \<or> (\<exists>c. e = Print c \<and> c \<noteq> [])"

definition ends_cr :: "vte_event list \<Rightarrow> bool" where
  "ends_cr seg \<longleftrightarrow> seg \<noteq> [] \<and> is_cr (last seg)"

lemma text_of_simps [simp]:
  "text_of [] = []" "text_of (es @ fs) = text_of es @ text_of fs"
  "text_of [Print c] = c" "text_of [Execute b] = []"
  by (simp_all add: text_of_def)

lemma visible_nil [simp]: "visible [] = []"
  by (simp add: visible_def)

lemma visible_snoc_cr: "is_cr e \<Longrightarrow> visible (seg @ [e]) = visible seg"
  by (simp add: visible_def)

lemma visible_snoc_print:
  "visible (seg @ [Print c]) = (if ends_cr seg then c else visible seg @ c)"
  by (cases seg rule: rev_cases) (simp_all add: visible_def ends_cr_def)

lemma length_text_of_rev [simp]: "length (text_of (rev es)) = length (text_of es)"
  by (induction es) (simp_all add: text_of_def)

lemma length_visible: "length (visible seg) \<le> length (text_of seg)"
proof -
  let ?d = "dropWhile is_cr (rev seg)"
  have "rev seg = takeWhile is_cr (rev seg) @ takeWhile (\<lambda>e. \<not> is_cr e) ?d
      @ dropWhile (\<lambda>e. \<not> is_cr e) ?d"
    by simp
  then have "length (text_of (rev seg)) = length (text_of (takeWhile is_cr (rev seg)))
      + length (text_of (takeWhile (\<lambda>e. \<not> is_cr e) ?d))
      + length (text_of (dropWhile (\<lambda>e. \<not> is_cr e) ?d))"
    by (metis add.assoc length_append text_of_simps(2))
  then show ?thesis by (simp add: visible_def)
qed

definition line_start :: "handler \<Rightarrow> bool" where
  "line_start h \<longleftrightarrow> current_line h = [] \<and> cr_stash h = None"

lemma perform_segment:
  assumes "line_start h" and "list_all line_event seg" and "length (text_of seg) \<le> MAX_LINE_LEN"
  shows "perform_all seg h =
    h\<lparr>current_line := (if ends_cr seg then [] else visible seg),
      cr_stash := (if ends_cr seg then Some (visible seg) else None)\<rparr>"
  using assms
proof (induction seg rule: rev_induct)
  case Nil
  then show ?case by (simp add: line_start_def ends_cr_def)
next
  case (snoc e seg)
  then have IH: "perform_all seg h =
      h\<lparr>current_line := (if ends_cr seg then [] else visible seg),
        cr_stash := (if ends_cr seg then Some (visible seg) else None)\<rparr>"
    by simp
  have e: "line_event e" using snoc.prems(2) by simp
  show ?case
  proof (cases "is_cr e")
    case True
    then obtain b where "e = Execute b" "b = CR" by (cases e) auto
    then show ?thesis
      by (auto simp: IH execute_def visible_snoc_cr ends_cr_def)
  next
    case False
    with e obtain c where c: "e = Print c" "c \<noteq> []" by (auto simp: line_event_def)
    then have "length (visible seg) < MAX_LINE_LEN"
      using snoc.prems(3) length_visible [of seg] by (cases c) auto
    then show ?thesis
      by (auto simp: IH c print_def Let_def visible_snoc_print ends_cr_def MAX_LINE_LEN_def)
  qed
qed

lemma perform_line:
  assumes "line_start h" and "list_all line_event seg" and "length (text_of seg) \<le> MAX_LINE_LEN"
  shows "perform_all (seg @ [Execute LF]) h =
    h\<lparr>completed_lines := completed_lines h @ [visible seg]\<rparr>"
  using assms by (auto simp: perform_segment execute_def line_start_def)

lemma perform_lines:
  assumes "line_start h"
    and "\<forall>seg \<in> set segs. list_all line_event seg \<and> length (text_of seg) \<le> MAX_LINE_LEN"
  shows "perform_all (concat (map (\<lambda>seg. seg @ [Execute LF]) segs)) h =
    h\<lparr>completed_lines := completed_lines h @ map visible segs\<rparr>"
  using assms
proof (induction segs arbitrary: h)
  case (Cons seg segs)
  let ?h = "h\<lparr>completed_lines := completed_lines h @ [visible seg]\<rparr>"
  have "line_start ?h" using Cons.prems(1) by (simp add: line_start_def)
  with Cons.IH [of ?h] Cons.prems show ?case
    using perform_line [OF Cons.prems(1), of seg] by simp
qed simp

section \<open>Chunk boundaries\<close>

lemma parse_slices_append:
  "parse_slices advance (xs @ ys) v h =
     (case parse_slices advance xs v h of (v', h') \<Rightarrow> parse_slices advance ys v' h')"
  by (induction xs arbitrary: v h) (auto split: prod.splits)

text \<open>What the sources rely on of the \<open>vte\<close> parser: how the stream is cut into slices
  does not matter.\<close>

definition chunk_independent :: "('v \<Rightarrow> bytes \<Rightarrow> 'v \<times> vte_event list) \<Rightarrow> bool" where
  "chunk_independent advance \<longleftrightarrow>
     (\<forall>v. advance v [] = (v, [])) \<and>
     (\<forall>v xs ys. advance v (xs @ ys) =
        (case advance v xs of (v', es) \<Rightarrow> case advance v' ys of (v'', fs) \<Rightarrow> (v'', es @ fs)))"

lemma parse_slices_concat:
  "chunk_independent advance \<Longrightarrow>
   parse_slices advance ss v h =
     (case advance v (concat ss) of (v', evs) \<Rightarrow> (v', perform_all evs h))"
proof (induction ss arbitrary: v h)
  case (Cons s ss)
  then show ?case
    by (auto simp: chunk_independent_def split: prod.splits)
qed (simp add: chunk_independent_def)

text \<open>The handler only appends to the completed lines.\<close>

definition with_lines :: "str list \<Rightarrow> handler \<Rightarrow> handler" where
  "with_lines ls h = h\<lparr>completed_lines := ls @ completed_lines h\<rparr>"

lemma commit_with_lines: "commit_if_nonempty (with_lines ls h) = with_lines ls (commit_if_nonempty h)"
  by (cases h) (simp add: commit_if_nonempty_def with_lines_def Let_def split: option.splits)

lemma perform_with_lines: "perform e (with_lines ls h) = with_lines ls (perform e h)"
proof (cases e)
  case (Csi_Dispatch ps i a)
  have "cursor_row (with_lines ls h') = cursor_row h'"
    and "(with_lines ls h')\<lparr>cursor_row := r\<rparr> = with_lines ls (h'\<lparr>cursor_row := r\<rparr>)" for h' r
    by (simp_all add: with_lines_def)
  with Csi_Dispatch show ?thesis
    by (simp add: csi_dispatch_def Let_def commit_with_lines)
next
  case (Osc_Dispatch ps b)
  then show ?thesis
    by (cases h) (simp add: osc_dispatch_def with_lines_def split: list.splits option.splits)
qed (cases h; simp add: print_def execute_def with_lines_def Let_def split: option.splits)+

lemma perform_all_with_lines: "perform_all es (with_lines ls h) = with_lines ls (perform_all es h)"
  by (induction es arbitrary: h) (simp_all add: perform_with_lines)

text \<open>Successive calls of \<open>feed\<close>.\<close>

fun parser_feeds :: "('v \<Rightarrow> bytes \<Rightarrow> 'v \<times> vte_event list) \<Rightarrow> 'v line_parser \<Rightarrow> bytes list
    \<Rightarrow> 'v line_parser \<times> str list" where
  "parser_feeds advance p [] = (p, [])"
| "parser_feeds advance p (c # cs) =
     (case parser_feed advance p c of (p', ls) \<Rightarrow>
        case parser_feeds advance p' cs of (p'', ls') \<Rightarrow> (p'', ls @ ls'))"

text \<open>A parser whose completed lines have been taken, which is how \<open>feed\<close> leaves it.\<close>

definition drained :: "'v line_parser \<Rightarrow> bool" where
  "drained p \<longleftrightarrow> completed_lines (handler p) = []"

lemma drained_feed: "drained (fst (parser_feed advance p bs))"
  by (simp add: drained_def parser_feed_def split: prod.splits)

lemma drained_new [simp]: "drained (parser_new v0)"
  by (simp add: drained_def parser_new_def handler_default_def)

text \<open>One call, over the stream the guard lets through.\<close>

lemma parser_feed_stream:
  assumes "chunk_independent advance"
  shows "parser_feed advance p bs =
    (case guard_stream MAX_ESCAPE_STRING_BYTES (strings p) bs of (g, out) \<Rightarrow>
       case advance (parser p) out of (v, evs) \<Rightarrow>
         let h = perform_all evs (handler p)
         in (p\<lparr>parser := v, handler := h\<lparr>completed_lines := []\<rparr>, strings := g\<rparr>, completed_lines h))"
  using guard_feed_stream [of MAX_ESCAPE_STRING_BYTES "strings p" bs]
  by (auto simp: parser_feed_def parse_slices_concat [OF assms] Let_def split: prod.splits)

lemma take_lines: "h\<lparr>completed_lines := []\<rparr> = h' \<Longrightarrow> h = with_lines (completed_lines h) h'"
  by (auto simp: with_lines_def)

lemma completed_with_lines [simp]:
  "completed_lines (with_lines ls h) = ls @ completed_lines h"
  "(with_lines ls h)\<lparr>completed_lines := []\<rparr> = h\<lparr>completed_lines := []\<rparr>"
  by (simp_all add: with_lines_def)

lemma parser_feed_append:
  assumes "chunk_independent advance"
  shows "parser_feed advance p (xs @ ys) =
    (case parser_feed advance p xs of (p', ls) \<Rightarrow>
       case parser_feed advance p' ys of (p'', ls') \<Rightarrow> (p'', ls @ ls'))"
proof -
  obtain g1 o1 where g1: "guard_stream MAX_ESCAPE_STRING_BYTES (strings p) xs = (g1, o1)" by force
  obtain g2 o2 where g2: "guard_stream MAX_ESCAPE_STRING_BYTES g1 ys = (g2, o2)" by force
  obtain v1 e1 where v1: "advance (parser p) o1 = (v1, e1)" by force
  obtain v2 e2 where v2: "advance v1 o2 = (v2, e2)" by force
  let ?h1 = "perform_all e1 (handler p)"
  have "?h1 = with_lines (completed_lines ?h1) (?h1\<lparr>completed_lines := []\<rparr>)"
    by (rule take_lines) simp
  then have h2: "perform_all e2 ?h1 =
      with_lines (completed_lines ?h1) (perform_all e2 (?h1\<lparr>completed_lines := []\<rparr>))"
    by (metis perform_all_with_lines)
  have both: "advance (parser p) (o1 @ o2) = (v2, e1 @ e2)"
    using assms v1 v2 by (simp add: chunk_independent_def)
  show ?thesis
    by (simp add: parser_feed_stream [OF assms] guard_stream_append g1 g2 v1 v2 both h2
        Let_def)
qed

lemma parser_feeds_drained:
  assumes "chunk_independent advance" and "drained p"
  shows "parser_feeds advance p cs = parser_feed advance p (concat cs)"
  using assms(2)
proof (induction cs arbitrary: p)
  case Nil
  then show ?case
    using assms(1) by (simp add: parser_feed_stream drained_def chunk_independent_def Let_def)
next
  case (Cons c cs)
  have "drained (fst (parser_feed advance p c))" by (rule drained_feed)
  with Cons.IH show ?case
    by (simp add: parser_feed_append [OF assms(1)] case_prod_beta)
qed

section \<open>Properties\<close>



text \<open>C6: however the PTY stream is cut into reads, the parser returns the same lines and
  reaches the same state, given that the \<open>vte\<close> parser behind it does.\<close>

theorem parser_feeds_chunk_independent:
  assumes "chunk_independent advance" and "concat cs = concat ds"
  shows "parser_feeds advance (parser_new v0) cs = parser_feeds advance (parser_new v0) ds"
  using assms by (simp add: parser_feeds_drained)

text \<open>A byte-wise stand-in for the \<open>vte\<close> parser: printable ASCII is printed, controls are
  executed.\<close>

definition plain_advance :: "unit \<Rightarrow> bytes \<Rightarrow> unit \<times> vte_event list" where
  "plain_advance v bs = (v, map (\<lambda>b. if code b < 32 then Execute b else Print [b]) bs)"

theorem parser_feeds_chunk_independent_witness:
  "parser_feeds plain_advance (parser_new ()) [''ab'', ''c'' @ [LF], ''d''] =
   parser_feeds plain_advance (parser_new ()) [''a'', ''bc'', [LF] @ ''d''] \<and>
   snd (parser_feeds plain_advance (parser_new ()) [''ab'', ''c'' @ [LF], ''d'']) = [''abc'']"
proof
  have ind: "chunk_independent plain_advance"
    by (simp add: chunk_independent_def plain_advance_def)
  show "parser_feeds plain_advance (parser_new ()) [''ab'', ''c'' @ [LF], ''d''] =
      parser_feeds plain_advance (parser_new ()) [''a'', ''bc'', [LF] @ ''d'']"
    by (rule parser_feeds_chunk_independent [OF ind]) simp
  show "snd (parser_feeds plain_advance (parser_new ()) [''ab'', ''c'' @ [LF], ''d'']) = [''abc'']"
    by (simp add: parser_feed_def parser_new_def guard_feed_def guard_new_def guard_byte_def
        plain_advance_def code_def handler_default_def print_def execute_def MAX_LINE_LEN_def)
qed

text \<open>Whatever the bytes of the stream, every line the parser returns and every buffer it
  keeps is at most three bytes over \<open>MAX_LINE_LEN\<close>.\<close>

theorem parser_lines_bounded:
  assumes "\<forall>v s. \<forall>e \<in> set (snd (advance v s)). char_event e" and "handler_bounded (handler p)"
    and "parser_feed advance p bs = (p', ls)"
  shows "handler_bounded (handler p') \<and> (\<forall>l \<in> set ls. length l \<le> MAX_LINE_LEN + 3)"
proof -
  obtain g slices where "guard_feed MAX_ESCAPE_STRING_BYTES (strings p) bs = (g, slices)" by force
  moreover obtain v h where vh: "parse_slices advance slices (parser p) (handler p) = (v, h)" by force
  moreover have "handler_bounded h"
    using parse_slices_bounded [OF assms(2,1), of slices "parser p"] vh by simp
  moreover have "\<forall>l \<in> set (completed_lines h). length l \<le> MAX_LINE_LEN + 3"
    using \<open>handler_bounded h\<close> by (simp add: handler_bounded_def)
  ultimately show ?thesis
    using assms(3) by (auto simp: parser_feed_def)
qed

theorem parser_lines_bounded_witness:
  "snd (parser_feed plain_advance (parser_new ()) (''hi'' @ [CR, LF])) = [''hi''] \<and>
   list_all (\<lambda>l. length l \<le> MAX_LINE_LEN + 3)
     (snd (parser_feed plain_advance (parser_new ()) (''hi'' @ [CR, LF])))"
proof
  have chars: "\<forall>v s. \<forall>e \<in> set (snd (plain_advance v s)). char_event e"
    by (auto simp: plain_advance_def char_event_def)
  show "list_all (\<lambda>l. length l \<le> MAX_LINE_LEN + 3)
      (snd (parser_feed plain_advance (parser_new ()) (''hi'' @ [CR, LF])))"
    unfolding list_all_iff
    using parser_lines_bounded [OF chars, of "parser_new ()"]
    by (metis handler_bounded_default line_parser.select_convs(2) parser_new_def prod.collapse)
qed (simp add: parser_feed_def parser_new_def guard_feed_def guard_new_def guard_byte_def
    plain_advance_def code_def handler_default_def print_def execute_def MAX_LINE_LEN_def)

text \<open>A cursor move to another row ends the pending line without a line feed, and only if
  there is one; a move within the row changes nothing.\<close>

theorem cursor_move_commits:
  assumes "line_start h" and "list_all line_event seg" and "length (text_of seg) \<le> MAX_LINE_LEN"
    and "a = CHR ''H'' \<or> a = CHR ''f''"
  shows "completed_lines (perform_all (seg @ [Csi_Dispatch ps False a]) h) =
      completed_lines h @ (if first_param ps \<noteq> cursor_row h \<and> visible seg \<noteq> [] then [visible seg] else [])
    \<and> (first_param ps = cursor_row h \<longrightarrow>
        perform_all (seg @ [Csi_Dispatch ps False a]) h = perform_all seg h)"
  using assms(1,4)
  by (auto simp: perform_segment [OF assms(1-3)] csi_dispatch_def commit_if_nonempty_def
      line_start_def Let_def)

theorem cursor_move_commits_witness:
  "completed_lines (perform_all ([Print ''x'', Execute CR] @ [Csi_Dispatch [[5], [1]] False (CHR ''H'')])
      handler_default) = [''x'']"
  using cursor_move_commits
    [of handler_default "[Print ''x'', Execute CR]" "CHR ''H''" "[[5], [1]]"]
  by (simp add: handler_default_def line_start_def line_event_def text_of_def MAX_LINE_LEN_def
      first_param_def visible_def)

end
