(* ===== verification/History_Store.thy ===== *)
theory History_Store
  imports Gpty_Prelude
begin

text \<open>
  The scrollback history of \<open>crates/gpty-core/src/history.rs\<close>: the bounded line queue between
  a terminal and its writer thread, the writer thread's loop as a step relation interleaved
  with the producer, and the SQLite store's rows with their retention.  SQLite's
  \<open>LENGTH(text)\<close> is a parameter (\<open>sql_length\<close>); a failing statement is a step of its own.
\<close>

section \<open>The line queue\<close>

type_synonym line = "int \<times> str"

record line_queue =
  lq_lines :: "line list"
  lq_bytes :: nat
  lq_pending :: nat
  lq_closed :: bool
  window_rows :: nat
  window_bytes :: nat

definition lq_new :: "nat \<Rightarrow> nat \<Rightarrow> line_queue" where
  "lq_new wr wb = \<lparr>lq_lines = [], lq_bytes = 0, lq_pending = 0, lq_closed = False,
     window_rows = wr, window_bytes = wb\<rparr>"

text \<open>The loop of \<open>push\<close> that drops the oldest lines past the window.\<close>

fun lq_drop :: "line list \<Rightarrow> nat \<Rightarrow> nat \<Rightarrow> nat \<Rightarrow> nat \<Rightarrow> line list \<times> nat \<times> nat" where
  "lq_drop [] bs pend wr wb = ([], bs, pend)"
| "lq_drop (l # ls) bs pend wr wb =
     (if wr < length (l # ls) \<or> wb < bs
      then lq_drop ls (bs - length (snd l)) (pend - 1) wr wb
      else (l # ls, bs, pend))"

definition lq_push :: "int \<Rightarrow> str \<Rightarrow> line_queue \<Rightarrow> line_queue" where
  "lq_push n t q =
     (if lq_closed q then q
      else (case lq_drop (lq_lines q @ [(n, t)]) (lq_bytes q + length t) (lq_pending q + 1)
                   (window_rows q) (window_bytes q) of
              (ls, bs, pend) \<Rightarrow> q\<lparr>lq_lines := ls, lq_bytes := bs, lq_pending := pend\<rparr>))"

definition lq_take :: "line_queue \<Rightarrow> line_queue \<times> line list" where
  "lq_take q = (q\<lparr>lq_lines := [], lq_bytes := 0\<rparr>, lq_lines q)"

definition lq_flushed :: "nat \<Rightarrow> line_queue \<Rightarrow> line_queue" where
  "lq_flushed rows q = q\<lparr>lq_pending := lq_pending q - rows\<rparr>"

definition lq_close :: "line_queue \<Rightarrow> line_queue" where
  "lq_close q = q\<lparr>lq_closed := True\<rparr>"

text \<open>\<open>flush\<close> reports success exactly when this holds.\<close>

definition lq_committed :: "line_queue \<Rightarrow> bool" where
  "lq_committed q \<longleftrightarrow> lq_pending q = 0"

section \<open>The store\<close>

record row =
  pane_id :: str
  line_num :: int
  row_text :: str

record history_store =
  rows :: "row list"
  pane_key :: str
  cap :: nat
  byte_cap :: nat

definition RETAINED_BYTES_PER_ROW :: nat where "RETAINED_BYTES_PER_ROW = 1024"
definition UNCAPPED_ROW_BUDGET :: nat where "UNCAPPED_ROW_BUDGET = 1024"
definition FLUSH_ROWS :: nat where "FLUSH_ROWS = 512"
definition usize_max :: nat where "usize_max = u64_max"

definition store_open :: "row list \<Rightarrow> str \<Rightarrow> nat \<Rightarrow> history_store" where
  "store_open rs key c = \<lparr>rows = rs, pane_key = key, cap = c,
     byte_cap = max c UNCAPPED_ROW_BUDGET * RETAINED_BYTES_PER_ROW\<rparr>"

definition retention_window :: "history_store \<Rightarrow> nat \<times> nat" where
  "retention_window st = (if cap st = 0 then usize_max else cap st, byte_cap st)"

definition append_batch :: "line list \<Rightarrow> history_store \<Rightarrow> history_store" where
  "append_batch ls st =
     st\<lparr>rows := rows st @ map (\<lambda>(n, t). \<lparr>pane_id = pane_key st, line_num = n, row_text = t\<rparr>) ls\<rparr>"

definition own_rows :: "history_store \<Rightarrow> row list" where
  "own_rows st = filter (\<lambda>r. pane_id r = pane_key st) (rows st)"

definition line_count :: "history_store \<Rightarrow> nat" where
  "line_count st = length (own_rows st)"

definition max_line_num :: "history_store \<Rightarrow> int" where
  \<comment> \<open>\<open>COALESCE(MAX(line_num), 0)\<close>\<close>
  "max_line_num st = (case own_rows st of [] \<Rightarrow> 0 | rs \<Rightarrow> Max (line_num ` set rs))"

text \<open>\<open>DELETE FROM lines WHERE pane_id = ?1 AND line_num <= ?2\<close>\<close>

definition delete_upto :: "int \<Rightarrow> history_store \<Rightarrow> history_store" where
  "delete_upto n st =
     st\<lparr>rows := filter (\<lambda>r. \<not> (pane_id r = pane_key st \<and> line_num r \<le> n)) (rows st)\<rparr>"

definition enforce_row_cap :: "history_store \<Rightarrow> history_store" where
  \<comment> \<open>\<open>MAX\<close> over no row is \<open>NULL\<close>, and then nothing compares as less or equal\<close>
  "enforce_row_cap st =
     (if cap st = 0 then st
      else (case own_rows st of
              [] \<Rightarrow> st
            | rs \<Rightarrow> delete_upto (Max (line_num ` set rs) - int (cap st)) st))"

definition total_length :: "(str \<Rightarrow> nat) \<Rightarrow> history_store \<Rightarrow> nat" where
  "total_length sql_length st = sum_list (map (\<lambda>r. sql_length (row_text r)) (own_rows st))"

text \<open>\<open>SUM(LENGTH(text)) OVER (ORDER BY line_num DESC)\<close> at a row: the default frame runs from
  the newest row to the current one and its peers.\<close>

definition running :: "(str \<Rightarrow> nat) \<Rightarrow> history_store \<Rightarrow> int \<Rightarrow> nat" where
  "running sql_length st n =
     sum_list (map (\<lambda>r. sql_length (row_text r)) (filter (\<lambda>r. n \<le> line_num r) (own_rows st)))"

definition enforce_byte_cap :: "(str \<Rightarrow> nat) \<Rightarrow> history_store \<Rightarrow> history_store" where
  "enforce_byte_cap sql_length st =
     (if byte_cap st = 0 then st
      else if byte_cap st < total_length sql_length st
      then (case filter (\<lambda>r. byte_cap st < running sql_length st (line_num r)) (own_rows st) of
              [] \<Rightarrow> st
            | over \<Rightarrow> delete_upto (Min (line_num ` set over)) st)
      else st)"

definition enforce_cap :: "(str \<Rightarrow> nat) \<Rightarrow> history_store \<Rightarrow> history_store" where
  "enforce_cap sql_length st = enforce_byte_cap sql_length (enforce_row_cap st)"

definition clear :: "history_store \<Rightarrow> history_store" where
  "clear st = st\<lparr>rows := filter (\<lambda>r. pane_id r \<noteq> pane_key st) (rows st)\<rparr>"

definition get_lines :: "int \<Rightarrow> int \<Rightarrow> history_store \<Rightarrow> line list" where
  "get_lines a b st =
     sort_key fst (map (\<lambda>r. (line_num r, row_text r))
       (filter (\<lambda>r. a \<le> line_num r \<and> line_num r \<le> b) (own_rows st)))"

definition prune_missing_panes :: "str list \<Rightarrow> history_store \<Rightarrow> history_store \<times> nat" where
  "prune_missing_panes known st =
     (if known = [] then (st, 0)
      else let kept = filter (\<lambda>r. pane_id r \<in> set known) (rows st)
           in (st\<lparr>rows := kept\<rparr>, length (rows st) - length kept))"

section \<open>The queue's window and its accounting\<close>

definition sum_len :: "line list \<Rightarrow> nat" where
  "sum_len ls = sum_list (map (\<lambda>l. length (snd l)) ls)"

lemma sum_len_simps [simp]:
  "sum_len [] = 0" "sum_len (l # ls) = length (snd l) + sum_len ls"
  "sum_len (xs @ ys) = sum_len xs + sum_len ys"
  by (simp_all add: sum_len_def)

lemma lq_drop_suffix:
  "lq_drop ls (sum_len ls) (length ls + k) wr wb = (ls', bs, pend) \<Longrightarrow>
   \<exists>n \<le> length ls. ls' = drop n ls \<and> bs = sum_len ls' \<and> pend = length ls' + k \<and>
     length ls' \<le> wr \<and> sum_len ls' \<le> wb"
proof (induction ls)
  case (Cons l ls)
  show ?case
  proof (cases "wr < length (l # ls) \<or> wb < sum_len (l # ls)")
    case True
    then have "lq_drop ls (sum_len ls) (length ls + k) wr wb = (ls', bs, pend)"
      using Cons.prems by simp
    from Cons.IH [OF this] obtain n where "n \<le> length ls" "ls' = drop n ls"
      "bs = sum_len ls'" "pend = length ls' + k" "length ls' \<le> wr" "sum_len ls' \<le> wb" by blast
    then show ?thesis by (intro exI [of _ "Suc n"]) auto
  next
    case False
    then show ?thesis using Cons.prems by (intro exI [of _ 0]) auto
  qed
qed simp

text \<open>\<open>in_flight\<close> is the number of lines the writer has taken and not accounted for.\<close>

definition lq_inv :: "nat \<Rightarrow> line_queue \<Rightarrow> bool" where
  "lq_inv in_flight q \<longleftrightarrow>
     lq_bytes q = sum_len (lq_lines q) \<and> lq_pending q = length (lq_lines q) + in_flight \<and>
     length (lq_lines q) \<le> window_rows q \<and> lq_bytes q \<le> window_bytes q"

lemma lq_inv_new [simp]: "lq_inv 0 (lq_new wr wb)"
  by (simp add: lq_inv_def lq_new_def)

lemma lq_push_inv: "lq_inv k q \<Longrightarrow> lq_inv k (lq_push n t q)"
proof (cases "lq_closed q")
  case False
  assume inv: "lq_inv k q"
  let ?ls = "lq_lines q @ [(n, t)]"
  obtain ls bs pend where d: "lq_drop ?ls (sum_len ?ls) (length ?ls + k)
      (window_rows q) (window_bytes q) = (ls, bs, pend)"
    by (cases "lq_drop ?ls (sum_len ?ls) (length ?ls + k) (window_rows q) (window_bytes q)") auto
  from lq_drop_suffix [OF d] inv d False show ?thesis
    by (auto simp: lq_inv_def lq_push_def add.commute add.left_commute)
qed (simp add: lq_push_def)

text \<open>What a push leaves: the newest part of the queue with the new line.\<close>

lemma lq_push_lines:
  assumes "lq_inv k q" and "\<not> lq_closed q"
  shows "\<exists>d \<le> length (lq_lines q) + 1. lq_lines (lq_push n t q) = drop d (lq_lines q @ [(n, t)])"
proof -
  let ?ls = "lq_lines q @ [(n, t)]"
  obtain ls bs pend where d: "lq_drop ?ls (sum_len ?ls) (length ?ls + k)
      (window_rows q) (window_bytes q) = (ls, bs, pend)"
    by (cases "lq_drop ?ls (sum_len ?ls) (length ?ls + k) (window_rows q) (window_bytes q)") auto
  from lq_drop_suffix [OF d] assms d show ?thesis
    by (auto simp: lq_inv_def lq_push_def add.commute add.left_commute)
qed

lemma lq_take_inv: "lq_inv k q \<Longrightarrow> lq_inv (k + length (lq_lines q)) (fst (lq_take q))"
  by (simp add: lq_inv_def lq_take_def)

lemma lq_flushed_inv: "lq_inv k q \<Longrightarrow> n \<le> k \<Longrightarrow> lq_inv (k - n) (lq_flushed n q)"
  by (simp add: lq_inv_def lq_flushed_def)

lemma lq_close_inv: "lq_inv k q \<Longrightarrow> lq_inv k (lq_close q)"
  by (simp add: lq_inv_def lq_close_def)

section \<open>The writer thread\<close>

text \<open>
  Where the loop of \<open>spawn_writer\<close> stands: about to take the queue, about to ask whether it
  was closed, about to take it once more after seeing it closed, waiting for lines, about to
  commit its batch, or ended.
\<close>

datatype writer_pc = Take_Pc | Closed_Pc | Retake_Pc | Wait_Pc | Commit_Pc | Done_Pc

text \<open>The producer, the writer and the store.  The last three fields record the history of
  the run: the lines the queue accepted, those a commit has accounted for, in order, and how
  many the window dropped.\<close>

record history_sys =
  queue :: line_queue
  store :: history_store
  batch :: "line list"
  pc :: writer_pc
  accepted :: "line list"
  handled :: "line list"
  dropped :: nat

definition history_open :: "row list \<Rightarrow> str \<Rightarrow> nat \<Rightarrow> history_sys" where
  "history_open rs key c =
     (let st = store_open rs key c
      in \<lparr>queue = lq_new (fst (retention_window st)) (snd (retention_window st)), store = st,
          batch = [], pc = Take_Pc, accepted = [], handled = [], dropped = 0\<rparr>)"

definition history_push :: "int \<Rightarrow> str \<Rightarrow> history_sys \<Rightarrow> history_sys" where
  "history_push n t s =
     (if lq_closed (queue s) then s\<lparr>queue := lq_push n t (queue s)\<rparr>
      else s\<lparr>queue := lq_push n t (queue s), accepted := accepted s @ [(n, t)],
             dropped := dropped s + (length (lq_lines (queue s)) + 1
               - length (lq_lines (lq_push n t (queue s))))\<rparr>)"

definition history_close :: "history_sys \<Rightarrow> history_sys" where
  "history_close s = s\<lparr>queue := lq_close (queue s)\<rparr>"

text \<open>One step of the writer.  The flags say whether the two SQLite statements of a commit
  succeed; \<open>append_batch\<close> is one transaction, so a failed one stores nothing.\<close>

definition writer_take :: "history_sys \<Rightarrow> history_sys" where
  "writer_take s = (case lq_take (queue s) of (q, ls) \<Rightarrow> s\<lparr>queue := q, batch := batch s @ ls\<rparr>)"

definition writer_commit :: "(str \<Rightarrow> nat) \<Rightarrow> bool \<Rightarrow> bool \<Rightarrow> history_sys \<Rightarrow> history_sys" where
  "writer_commit sql_length append_ok trim_ok s =
     (let st1 = (if append_ok then append_batch (batch s) (store s) else store s);
          st2 = (if trim_ok then enforce_cap sql_length st1 else st1)
      in s\<lparr>store := st2, queue := lq_flushed (length (batch s)) (queue s),
           handled := handled s @ batch s, batch := [], pc := Take_Pc\<rparr>)"

fun writer_step :: "(str \<Rightarrow> nat) \<Rightarrow> bool \<Rightarrow> bool \<Rightarrow> history_sys \<Rightarrow> history_sys" where
  "writer_step L a_ok t_ok s = (case pc s of
      Take_Pc \<Rightarrow>
        (let s1 = writer_take s
         in s1\<lparr>pc := (if length (batch s1) < FLUSH_ROWS
                      then (if batch s1 = [] then Closed_Pc else Wait_Pc) else Commit_Pc)\<rparr>)
    | Closed_Pc \<Rightarrow> s\<lparr>pc := (if lq_closed (queue s) then Retake_Pc else Wait_Pc)\<rparr>
    | Retake_Pc \<Rightarrow>
        (let s1 = writer_take s in s1\<lparr>pc := (if batch s1 = [] then Done_Pc else Wait_Pc)\<rparr>)
    | Wait_Pc \<Rightarrow>
        s\<lparr>pc := (if lq_lines (queue s) \<noteq> [] then Take_Pc
                  else if batch s = [] then Take_Pc else Commit_Pc)\<rparr>
    | Commit_Pc \<Rightarrow> writer_commit L a_ok t_ok s
    | Done_Pc \<Rightarrow> s)"

inductive history_step :: "(str \<Rightarrow> nat) \<Rightarrow> history_sys \<Rightarrow> history_sys \<Rightarrow> bool" for L where
  push: "history_step L s (history_push n t s)"
| close: "history_step L s (history_close s)"
| writer: "pc s \<noteq> Done_Pc \<Longrightarrow> history_step L s (writer_step L a_ok t_ok s)"

inductive history_reachable :: "(str \<Rightarrow> nat) \<Rightarrow> history_sys \<Rightarrow> history_sys \<Rightarrow> bool" for L where
  start: "history_reachable L s s"
| step: "history_reachable L s t \<Longrightarrow> history_step L t u \<Longrightarrow> history_reachable L s u"

definition history_inv :: "history_sys \<Rightarrow> bool" where
  "history_inv s \<longleftrightarrow>
     lq_inv (length (batch s)) (queue s) \<and>
     subseq (handled s @ batch s @ lq_lines (queue s)) (accepted s) \<and>
     length (accepted s) =
       length (handled s) + length (batch s) + length (lq_lines (queue s)) + dropped s \<and>
     (pc s = Done_Pc \<longrightarrow> lq_closed (queue s) \<and> batch s = [] \<and> lq_lines (queue s) = []) \<and>
     (pc s = Retake_Pc \<longrightarrow> lq_closed (queue s) \<and> batch s = []) \<and>
     (pc s = Closed_Pc \<longrightarrow> batch s = []) \<and>
     (pc s = Commit_Pc \<longrightarrow> batch s \<noteq> [])"

lemma lq_push_fields [simp]:
  "lq_closed (lq_push n t q) = lq_closed q"
  "window_rows (lq_push n t q) = window_rows q" "window_bytes (lq_push n t q) = window_bytes q"
  by (auto simp: lq_push_def split: prod.splits)

lemma subseq_drop_mono: "subseq xs ys \<Longrightarrow> subseq (drop d xs) ys"
  by (meson subseq_order.trans suffix_drop suffix_imp_subseq)

lemma history_push_inv: "history_inv s \<Longrightarrow> history_inv (history_push n t s)"
proof (cases "lq_closed (queue s)")
  case True
  then show "history_inv s \<Longrightarrow> ?thesis" by (simp add: history_push_def lq_push_def)
next
  case open_q: False
  assume inv: "history_inv s"
  then have q: "lq_inv (length (batch s)) (queue s)" by (simp add: history_inv_def)
  obtain d where d: "d \<le> length (lq_lines (queue s)) + 1"
    "lq_lines (lq_push n t (queue s)) = drop d (lq_lines (queue s) @ [(n, t)])"
    using lq_push_lines [OF q open_q] by blast
  have "subseq ((handled s @ batch s @ lq_lines (queue s)) @ [(n, t)]) (accepted s @ [(n, t)])"
    using inv by (intro list_emb_append_mono) (simp_all add: history_inv_def)
  then have all: "subseq (handled s @ batch s @ lq_lines (queue s) @ [(n, t)])
      (accepted s @ [(n, t)])"
    by simp
  have "subseq (handled s @ batch s @ drop d (lq_lines (queue s) @ [(n, t)]))
      (handled s @ batch s @ lq_lines (queue s) @ [(n, t)])"
    by (intro list_emb_append_mono subseq_drop_mono) simp_all
  from this all have "subseq (handled s @ batch s @ drop d (lq_lines (queue s) @ [(n, t)]))
      (accepted s @ [(n, t)])"
    by (rule subseq_order.trans)
  then show ?thesis
    using inv open_q d lq_push_inv [OF q] by (auto simp: history_inv_def history_push_def)
qed

lemma history_close_inv: "history_inv s \<Longrightarrow> history_inv (history_close s)"
  by (auto simp: history_inv_def history_close_def lq_close_def lq_inv_def)

lemma writer_step_inv: "history_inv s \<Longrightarrow> history_inv (writer_step L a_ok t_ok s)"
  by (cases "pc s")
    (auto simp: history_inv_def writer_take_def lq_take_def lq_inv_def writer_commit_def
      lq_flushed_def FLUSH_ROWS_def Let_def split: prod.splits)

lemma history_step_inv: "history_step L s t \<Longrightarrow> history_inv s \<Longrightarrow> history_inv t"
  by (induction rule: history_step.induct)
    (simp_all add: history_push_inv history_close_inv writer_step_inv del: writer_step.simps)

lemma history_open_inv [simp]: "history_inv (history_open rs key c)"
  by (simp add: history_inv_def history_open_def Let_def lq_new_def lq_inv_def)

lemma history_reachable_inv:
  "history_reachable L s t \<Longrightarrow> history_inv s \<Longrightarrow> history_inv t"
  by (induction rule: history_reachable.induct) (auto intro: history_step_inv)

text \<open>The writer alone, over the outcomes of its statements.\<close>

fun writer_run :: "(str \<Rightarrow> nat) \<Rightarrow> (bool \<times> bool) list \<Rightarrow> history_sys \<Rightarrow> history_sys" where
  "writer_run L [] s = s"
| "writer_run L ((a, t) # oks) s = writer_run L oks (writer_step L a t s)"

lemma writer_run_inv: "history_inv s \<Longrightarrow> history_inv (writer_run L oks s)"
  by (induction L oks s rule: writer_run.induct) (simp_all add: writer_step_inv del: writer_step.simps)

lemma writer_step_closed:
  "lq_closed (queue (writer_step L a t s)) = lq_closed (queue s)"
  by (cases "pc s")
    (simp_all add: writer_take_def lq_take_def writer_commit_def lq_flushed_def Let_def)

text \<open>How many steps the writer still needs once the queue is closed.\<close>

definition writer_rank :: "history_sys \<Rightarrow> nat" where
  "writer_rank s = (case pc s of
      Done_Pc \<Rightarrow> 0
    | Retake_Pc \<Rightarrow> (if lq_lines (queue s) = [] then 1 else 6)
    | Closed_Pc \<Rightarrow> (if lq_lines (queue s) = [] then 2 else 7)
    | Take_Pc \<Rightarrow> (if batch s = [] \<and> lq_lines (queue s) = [] then 3 else 6)
    | Commit_Pc \<Rightarrow> (if lq_lines (queue s) = [] then 4 else 7)
    | Wait_Pc \<Rightarrow> (if lq_lines (queue s) = [] then (if batch s = [] then 4 else 5) else 7))"

lemma writer_rank_bound: "writer_rank s \<le> 7"
  by (cases "pc s") (auto simp: writer_rank_def)

lemma writer_rank_step:
  "history_inv s \<Longrightarrow> lq_closed (queue s) \<Longrightarrow> pc s \<noteq> Done_Pc \<Longrightarrow>
   writer_rank (writer_step L a t s) < writer_rank s"
  by (cases "pc s")
    (auto simp: history_inv_def writer_rank_def writer_take_def lq_take_def writer_commit_def
      lq_flushed_def FLUSH_ROWS_def Let_def)

lemma writer_done: "pc s = Done_Pc \<Longrightarrow> writer_run L oks s = s"
  by (induction L oks s rule: writer_run.induct) simp_all

lemma writer_run_done:
  "history_inv s \<Longrightarrow> lq_closed (queue s) \<Longrightarrow> writer_rank s \<le> length oks \<Longrightarrow>
   pc (writer_run L oks s) = Done_Pc"
proof (induction L oks s rule: writer_run.induct)
  case (1 L s)
  then show ?case by (cases "pc s") (auto simp: writer_rank_def split: if_splits)
next
  case (2 L a t oks s)
  show ?case
  proof (cases "pc s = Done_Pc")
    case True
    then show ?thesis using writer_done [of s L "(a, t) # oks"] by simp
  next
    case False
    then have "writer_rank (writer_step L a t s) \<le> length oks"
      using writer_rank_step [OF 2(2,3) False, of L a t] 2(4) by simp
    then show ?thesis
      using 2 by (simp add: writer_step_inv writer_step_closed del: writer_step.simps)
  qed
qed

lemma writer_step_ghost:
  "accepted (writer_step L a t s) = accepted s" "dropped (writer_step L a t s) = dropped s"
  by (cases "pc s"; simp add: writer_take_def lq_take_def writer_commit_def Let_def)+

lemma writer_run_ghost:
  "accepted (writer_run L oks s) = accepted s \<and> dropped (writer_run L oks s) = dropped s"
  by (induction L oks s rule: writer_run.induct)
    (simp_all add: writer_step_ghost del: writer_step.simps)

section \<open>Retention\<close>

lemma own_rows_delete:
  "own_rows (delete_upto n st) = filter (\<lambda>r. n < line_num r) (own_rows st)"
  by (simp add: own_rows_def delete_upto_def not_le conj_commute cong: conj_cong)

lemma enforce_row_cap_own:
  assumes "cap st \<noteq> 0" and "own_rows st \<noteq> []"
  shows "own_rows (enforce_row_cap st) =
    filter (\<lambda>r. Max (line_num ` set (own_rows st)) - int (cap st) < line_num r) (own_rows st)"
  using assms by (cases "own_rows st") (auto simp: enforce_row_cap_def own_rows_delete)

lemma delete_upto_other:
  "filter (\<lambda>r. pane_id r \<noteq> pane_key st) (rows (delete_upto n st)) =
   filter (\<lambda>r. pane_id r \<noteq> pane_key st) (rows st)"
  by (auto simp: delete_upto_def intro: filter_cong)

lemma enforce_row_cap_other:
  "filter (\<lambda>r. pane_id r \<noteq> pane_key st) (rows (enforce_row_cap st)) =
   filter (\<lambda>r. pane_id r \<noteq> pane_key st) (rows st)"
  by (auto simp: enforce_row_cap_def delete_upto_other split: list.splits)

lemma distinct_nums_bound:
  fixes m :: int
  assumes "distinct (map f rs)" and "\<forall>r \<in> set rs. m - int k < f r \<and> f r \<le> m"
  shows "length rs \<le> k"
proof -
  have "set (map f rs) \<subseteq> {m - int k <.. m}" using assms(2) by auto
  then have "card (set (map f rs)) \<le> card {m - int k <.. m}" by (intro card_mono) auto
  then show ?thesis using distinct_card [OF assms(1)] by simp
qed

text \<open>At the pane's smallest line number the running total is the whole total.\<close>

lemma running_min:
  "own_rows st \<noteq> [] \<Longrightarrow> running L st (Min (line_num ` set (own_rows st))) = total_length L st"
proof -
  have "filter (\<lambda>r. Min (line_num ` set (own_rows st)) \<le> line_num r) (own_rows st) = own_rows st"
    by (simp add: filter_id_conv)
  then show ?thesis by (simp add: running_def total_length_def)
qed

lemma enforce_byte_cap_eq:
  assumes "byte_cap st \<noteq> 0" and "byte_cap st < total_length L st"
  shows "enforce_byte_cap L st = delete_upto (Min (line_num ` set (own_rows st))) st"
proof -
  let ?own = "own_rows st" and ?m = "Min (line_num ` set (own_rows st))"
  let ?over = "filter (\<lambda>r. byte_cap st < running L st (line_num r)) ?own"
  have ne: "?own \<noteq> []" using assms(2) by (auto simp: total_length_def)
  then have "?m \<in> line_num ` set ?own" by (intro Min_in) auto
  then obtain r where r: "r \<in> set ?own" "line_num r = ?m" by auto
  then have in_over: "r \<in> set ?over" using assms(2) running_min [OF ne, of L] by simp
  have "Min (line_num ` set ?over) = ?m"
  proof (rule Min_eqI)
    show "?m \<in> line_num ` set ?over" using in_over r(2) by (metis image_eqI)
    fix n assume "n \<in> line_num ` set ?over"
    then show "?m \<le> n" by auto
  qed simp
  moreover obtain x xs where over: "?over = x # xs" using in_over by (cases ?over) auto
  ultimately have "Min (line_num ` set (x # xs)) = ?m" by simp
  then show ?thesis
    using assms by (simp add: enforce_byte_cap_def over)
qed

section \<open>Properties\<close>

text \<open>In every interleaving of the producer, the close and the writer thread, the queue's
  counters are exact, its window holds, and every accepted line is in exactly one place: past
  a commit, in the writer's batch, queued, or dropped by the window; the surviving lines keep
  their order.  So when \<open>flush\<close> reports success nothing accepted is still on its way.\<close>

theorem history_accounting:
  assumes "history_reachable L (history_open rs key c) s"
  shows "lq_pending (queue s) = length (lq_lines (queue s)) + length (batch s) \<and>
    lq_bytes (queue s) = sum_len (lq_lines (queue s)) \<and>
    length (lq_lines (queue s)) \<le> window_rows (queue s) \<and>
    lq_bytes (queue s) \<le> window_bytes (queue s) \<and>
    subseq (handled s @ batch s @ lq_lines (queue s)) (accepted s) \<and>
    length (accepted s) =
      length (handled s) + length (batch s) + length (lq_lines (queue s)) + dropped s \<and>
    (lq_committed (queue s) \<longrightarrow> length (accepted s) = length (handled s) + dropped s)"
  using history_reachable_inv [OF assms history_open_inv]
  by (auto simp: history_inv_def lq_inv_def lq_committed_def)

theorem history_accounting_witness:
  "lq_pending (queue (history_push 1 ''a'' (history_open [] ''p'' 4))) =
     length (lq_lines (queue (history_push 1 ''a'' (history_open [] ''p'' 4)))) +
     length (batch (history_push 1 ''a'' (history_open [] ''p'' 4))) \<and>
   lq_lines (queue (history_push 1 ''a'' (history_open [] ''p'' 4))) = [(1, ''a'')]"
  using history_accounting [OF history_reachable.step
      [OF history_reachable.start history_step.push [of length _ 1 "''a''"]], of "[]" "''p''" 4]
  by (simp add: history_push_def history_open_def Let_def store_open_def retention_window_def
      lq_new_def lq_push_def RETAINED_BYTES_PER_ROW_def UNCAPPED_ROW_BUDGET_def)



text \<open>The row cap keeps exactly the pane's rows within \<open>cap\<close> line numbers of its newest,
  hence at most \<open>cap\<close> rows when line numbers are distinct, and touches no other pane.\<close>

theorem row_cap_retains_newest:
  assumes "cap st \<noteq> 0" and "own_rows st \<noteq> []" and "distinct (map line_num (own_rows st))"
  shows "own_rows (enforce_row_cap st) =
      filter (\<lambda>r. Max (line_num ` set (own_rows st)) - int (cap st) < line_num r) (own_rows st) \<and>
    length (own_rows (enforce_row_cap st)) \<le> cap st \<and>
    Max (line_num ` set (own_rows st)) \<in> line_num ` set (own_rows (enforce_row_cap st)) \<and>
    filter (\<lambda>r. pane_id r \<noteq> pane_key st) (rows (enforce_row_cap st)) =
      filter (\<lambda>r. pane_id r \<noteq> pane_key st) (rows st)"
proof -
  let ?m = "Max (line_num ` set (own_rows st))"
  let ?kept = "filter (\<lambda>r. ?m - int (cap st) < line_num r) (own_rows st)"
  have "distinct (map line_num ?kept)" using assms(3) by (rule distinct_map_filter)
  moreover have "\<forall>r \<in> set ?kept. ?m - int (cap st) < line_num r \<and> line_num r \<le> ?m" by simp
  ultimately have len: "length ?kept \<le> cap st" by (rule distinct_nums_bound)
  have "?m \<in> line_num ` set (own_rows st)" using assms(2) by (intro Max_in) auto
  then have "?m \<in> line_num ` set ?kept" using assms(1) by auto
  with len show ?thesis
    by (simp only: enforce_row_cap_own [OF assms(1,2)] enforce_row_cap_other simp_thms)
qed

theorem row_cap_retains_newest_witness:
  "map line_num (own_rows (enforce_row_cap (append_batch [(1, ''a''), (2, ''b''), (3, ''c'')]
     (store_open [] ''p'' 2)))) = [2, 3]"
  using row_cap_retains_newest [of "append_batch [(1, ''a''), (2, ''b''), (3, ''c'')]
     (store_open [] ''p'' 2)"]
  by (simp add: append_batch_def store_open_def own_rows_def)

text \<open>When the pane's text is over its byte budget, the trim deletes the rows with the
  smallest line number and nothing else, whatever the budget: the cutoff it computes is the
  minimum of the line numbers whose running total is over the budget, and the oldest line
  always is one.\<close>

theorem byte_trim_deletes_only_oldest:
  assumes "byte_cap st \<noteq> 0" and "byte_cap st < total_length L st"
  shows "own_rows (enforce_byte_cap L st) =
    filter (\<lambda>r. Min (line_num ` set (own_rows st)) < line_num r) (own_rows st)"
  by (simp add: enforce_byte_cap_eq [OF assms] own_rows_delete)

text \<open>Five lines of 100 bytes against a budget of 250: four of them stay.\<close>

definition five_rows :: history_store where
  "five_rows = \<lparr>rows = map (\<lambda>n. \<lparr>pane_id = ''p'', line_num = n, row_text = replicate 100 (CHR ''x'')\<rparr>)
     [1, 2, 3, 4, 5], pane_key = ''p'', cap = 0, byte_cap = 250\<rparr>"

theorem byte_trim_deletes_only_oldest_witness:
  "map line_num (own_rows (enforce_byte_cap length five_rows)) = [2, 3, 4, 5] \<and>
   byte_cap five_rows < total_length length (enforce_byte_cap length five_rows)"
proof -
  have over: "byte_cap five_rows \<noteq> 0" "byte_cap five_rows < total_length length five_rows"
    by (simp_all add: five_rows_def total_length_def own_rows_def)
  have kept: "own_rows (enforce_byte_cap length five_rows) =
      map (\<lambda>n. \<lparr>pane_id = ''p'', line_num = n, row_text = replicate 100 (CHR ''x'')\<rparr>) [2, 3, 4, 5]"
    unfolding byte_trim_deletes_only_oldest [OF over] by (simp add: five_rows_def own_rows_def)
  then show ?thesis by (simp add: total_length_def) (simp add: five_rows_def)
qed

end
