(* ===== verification/Json.thy ===== *)
theory Json
  imports Gpty_Prelude "HOL-Library.List_Lexorder" "HOL-Library.Char_ord" "HOL-Library.Countable"
begin

text \<open>
  JSON values as \<open>serde_json::Value\<close> holds them, with the accessors the sources use.  An
  object is an association list of its entries; a number that is not an integer keeps only
  its bits, since no code modelled here computes with it.
\<close>

unbundle bit_operations_syntax

datatype json =
    JNull
  | JBool bool
  | JInt int
  | JFloat "64 word"
  | JStr str
  | JArr "json list"
  | JObj "(str \<times> json) list"

fun jget :: "json \<Rightarrow> str \<Rightarrow> json option" where
  "jget (JObj kvs) k = map_of kvs k"
| "jget _ k = None"

text \<open>\<open>value[key]\<close>: null when the key is absent or the value is not an object.\<close>

definition jindex :: "json \<Rightarrow> str \<Rightarrow> json" where
  "jindex v k = (case jget v k of Some x \<Rightarrow> x | None \<Rightarrow> JNull)"

fun jstr :: "json \<Rightarrow> str option" where
  "jstr (JStr s) = Some s"
| "jstr _ = None"

fun jbool :: "json \<Rightarrow> bool option" where
  "jbool (JBool b) = Some b"
| "jbool _ = None"

fun ju64 :: "json \<Rightarrow> nat option" where
  "ju64 (JInt n) = (if 0 \<le> n \<and> n < 2 ^ 64 then Some (nat n) else None)"
| "ju64 _ = None"

fun ji64 :: "json \<Rightarrow> int option" where
  "ji64 (JInt n) = (if - (2 ^ 63) \<le> n \<and> n < 2 ^ 63 then Some n else None)"
| "ji64 _ = None"

fun jarr :: "json \<Rightarrow> json list option" where
  "jarr (JArr xs) = Some xs"
| "jarr _ = None"

fun jobj :: "json \<Rightarrow> (str \<times> json) list option" where
  "jobj (JObj kvs) = Some kvs"
| "jobj _ = None"

definition unwrap_or :: "'a option \<Rightarrow> 'a \<Rightarrow> 'a" where
  "unwrap_or x d = (case x of Some a \<Rightarrow> a | None \<Rightarrow> d)"

lemma unwrap_or_simps [simp]: "unwrap_or (Some a) d = a" "unwrap_or None d = d"
  by (simp_all add: unwrap_or_def)

lemma jstr_Some [simp]: "jstr v = Some s \<longleftrightarrow> v = JStr s"
  by (cases v) auto

lemma jarr_Some [simp]: "jarr v = Some xs \<longleftrightarrow> v = JArr xs"
  by (cases v) auto

lemma jobj_Some [simp]: "jobj v = Some kvs \<longleftrightarrow> v = JObj kvs"
  by (cases v) auto

lemma jbool_Some [simp]: "jbool v = Some b \<longleftrightarrow> v = JBool b"
  by (cases v) auto

lemma ju64_bound: "ju64 v = Some n \<Longrightarrow> n < 2 ^ 64"
  by (cases v) (auto split: if_splits)

section \<open>JSON text\<close>

text \<open>Writing and reading JSON text, \<open>serde_json\<close>'s \<open>to_string\<close> (or its pretty form) and \<open>from_str\<close>.\<close>

record json_text =
  to_text :: "json \<Rightarrow> str"
  from_text :: "str \<Rightarrow> json option"

definition finite_bits :: "64 word \<Rightarrow> bool" where
  "finite_bits w = (drop_bit 52 w AND 0x7FF \<noteq> 0x7FF)"

text \<open>The values \<open>serde_json\<close> holds: objects with their keys in strict order, finite numbers, and
  integers of 64 bits.\<close>

fun serde_value :: "json \<Rightarrow> bool" where
  "serde_value (JObj kvs) \<longleftrightarrow> sorted_wrt (<) (map fst kvs) \<and> (\<forall>kv \<in> set kvs. serde_value (snd kv))"
| "serde_value (JArr vs) \<longleftrightarrow> (\<forall>v \<in> set vs. serde_value v)"
| "serde_value (JFloat w) \<longleftrightarrow> finite_bits w"
| "serde_value (JInt n) \<longleftrightarrow> - (2 ^ 63) \<le> n \<and> n < 2 ^ 64"
| "serde_value _ \<longleftrightarrow> True"

text \<open>What the stores rely on: a value written out, also with a newline after it, is read back, and
  what is read is such a value.\<close>

definition json_text_law :: "json_text \<Rightarrow> bool" where
  "json_text_law J \<longleftrightarrow>
     (\<forall>v. serde_value v \<longrightarrow> from_text J (to_text J v) = Some v \<and> from_text J (to_text J v @ [LF]) = Some v) \<and>
     (\<forall>s v. from_text J s = Some v \<longrightarrow> serde_value v)"

text \<open>A stand-in that satisfies the law: a value is written as its number in unary.\<close>

instance json :: countable
  by countable_datatype

definition unary_text :: json_text where
  "unary_text = \<lparr>to_text = (\<lambda>v. replicate (to_nat v) (CHR ''1'')),
     from_text = (\<lambda>s. let v = from_nat (length (filter (\<lambda>c. c \<noteq> LF) s)) in if serde_value v then Some v else None)\<rparr>"

lemma unary_text_law: "json_text_law unary_text"
  by (simp add: json_text_law_def unary_text_def Let_def)

end
