(* ===== verification/Concepts.thy ===== *)
theory Concepts
  imports Json
begin

text \<open>
  The data vocabulary of \<open>crates/gpty-core/src/types.rs\<close> (pane types, capture modes,
  concepts, captures, notices) and the concept matcher and parser of
  \<open>crates/gpty-core/src/concept.rs\<close>.  The \<open>regex\<close> crate is a parameter.
\<close>

section \<open>Data vocabulary\<close>

datatype capture_mode = Single_Line | Until_Stop nat bool
  \<comment> \<open>\<open>UntilStop { stop_timeout_ms, stop_on_input }\<close>\<close>

definition capture_mode_default :: capture_mode where
  "capture_mode_default = Until_Stop 300 True"

datatype pane_type =
  Terminal | CodeViewer | FileTree | Inspector | Reasoning | CliView | Wiki | Media

definition pane_type_ALL :: "pane_type list" where
  "pane_type_ALL = [Terminal, CodeViewer, FileTree, Inspector, Reasoning, CliView, Wiki, Media]"

definition pane_type_as_str :: "pane_type \<Rightarrow> str" where
  "pane_type_as_str p = (case p of
      Terminal \<Rightarrow> ''terminal''
    | CodeViewer \<Rightarrow> ''code_viewer''
    | FileTree \<Rightarrow> ''file_tree''
    | Inspector \<Rightarrow> ''inspector''
    | Reasoning \<Rightarrow> ''reasoning''
    | CliView \<Rightarrow> ''cli_view''
    | Wiki \<Rightarrow> ''wiki''
    | Media \<Rightarrow> ''media'')"

definition pane_type_parse :: "str \<Rightarrow> pane_type option" where
  "pane_type_parse s =
     (if s = ''terminal'' then Some Terminal
      else if s = ''code_viewer'' then Some CodeViewer
      else if s = ''file_tree'' then Some FileTree
      else if s = ''inspector'' \<or> s = ''observer'' then Some Inspector
      else if s = ''reasoning'' then Some Reasoning
      else if s = ''cli_view'' then Some CliView
      else if s = ''wiki'' then Some Wiki
      else if s = ''media'' then Some Media
      else None)"

definition pane_type_serialize :: "pane_type \<Rightarrow> json" where
  "pane_type_serialize p = JStr (pane_type_as_str p)"

definition pane_type_deserialize :: "json \<Rightarrow> pane_type option" where
  \<comment> \<open>the error is \<open>None\<close>; its message lists \<open>pane_type_ALL\<close>\<close>
  "pane_type_deserialize v =
     (case jstr v of Some raw \<Rightarrow> pane_type_parse raw | None \<Rightarrow> None)"

record action =
  target_label :: str

record 'r concept =
  c_name :: str
  c_trigger_regex :: 'r
  c_conditions :: "'r list"
  c_enabled :: bool
  c_capture_mode :: capture_mode
  c_destinations :: "action list"

definition concept_new :: "str \<Rightarrow> 'r \<Rightarrow> action list \<Rightarrow> 'r concept" where
  "concept_new n re dests = \<lparr>c_name = n, c_trigger_regex = re, c_conditions = [],
     c_enabled = True, c_capture_mode = capture_mode_default, c_destinations = dests\<rparr>"

record captured_output =
  co_id :: nat
  co_concept_name :: str
  co_lines :: "str list"
  co_target_pane_type :: str

record concept_notice =
  cn_concept_name :: str

section \<open>The regex crate\<close>

text \<open>What the sources call of it: compiling a pattern, matching, the source text of a
  compiled pattern, and a set of patterns compiled together.\<close>

record ('r, 's) regex_api =
  re_new :: "str \<Rightarrow> str + 'r"
  re_is_match :: "'r \<Rightarrow> str \<Rightarrow> bool"
  re_as_str :: "'r \<Rightarrow> str"
  set_new :: "str list \<Rightarrow> 's option"
  set_is_match :: "'s \<Rightarrow> str \<Rightarrow> bool"

text \<open>The documented behaviour the matcher's gate relies on: a set matches a text exactly
  when one of the regexes whose patterns it was compiled from does.\<close>

definition regex_set_law :: "('r, 's) regex_api \<Rightarrow> 'r list \<Rightarrow> bool" where
  "regex_set_law R res \<longleftrightarrow>
     (\<forall>s line. set_new R (map (re_as_str R) res) = Some s \<longrightarrow>
        set_is_match R s line = list_ex (\<lambda>re. re_is_match R re line) res)"

section \<open>Matching a line\<close>

type_synonym verdict = "str \<times> capture_mode \<times> str"

definition verdict_of :: "'r concept \<Rightarrow> verdict" where
  "verdict_of c = (c_name c, c_capture_mode c,
     (case c_destinations c of a # _ \<Rightarrow> target_label a | [] \<Rightarrow> []))"

text \<open>The loop, with the notify-only match found so far.\<close>

fun match_loop :: "('r, 's) regex_api \<Rightarrow> str \<Rightarrow> verdict option \<Rightarrow> 'r concept list
    \<Rightarrow> verdict option" where
  "match_loop R line notify [] = notify"
| "match_loop R line notify (c # cs) =
     (if \<not> c_enabled c \<or> \<not> re_is_match R (c_trigger_regex c) line
      then match_loop R line notify cs
      else if \<not> list_all (\<lambda>re. re_is_match R re line) (c_conditions c)
      then match_loop R line notify cs
      else (case c_capture_mode c of
          Until_Stop _ _ \<Rightarrow> Some (verdict_of c)
        | Single_Line \<Rightarrow>
            match_loop R line
              (case notify of None \<Rightarrow> Some (verdict_of c) | Some v \<Rightarrow> Some v) cs))"

definition match_line :: "('r, 's) regex_api \<Rightarrow> 'r concept list \<Rightarrow> str \<Rightarrow> verdict option" where
  "match_line R concepts line = match_loop R line None concepts"

record ('r, 's) concept_matcher =
  m_concepts :: "'r concept list"
  m_gate :: "'s option"

definition matcher_new :: "('r, 's) regex_api \<Rightarrow> 'r concept list \<Rightarrow> ('r, 's) concept_matcher" where
  "matcher_new R concepts =
     (let patterns = map (\<lambda>c. re_as_str R (c_trigger_regex c)) (filter c_enabled concepts)
      in \<lparr>m_concepts = concepts,
          m_gate = (if patterns = [] then None else set_new R patterns)\<rparr>)"

definition matcher_match_line :: "('r, 's) regex_api \<Rightarrow> ('r, 's) concept_matcher \<Rightarrow> str
    \<Rightarrow> verdict option" where
  "matcher_match_line R m line =
     (if (case m_gate m of Some g \<Rightarrow> \<not> set_is_match R g line | None \<Rightarrow> False) then None
      else match_line R (m_concepts m) line)"

section \<open>Parsing concept definitions\<close>

definition MAX_CONCEPTS :: nat where "MAX_CONCEPTS = 128"
definition MAX_TRIGGER_LEN :: nat where "MAX_TRIGGER_LEN = 1024"
definition MAX_ACTIONS :: nat where "MAX_ACTIONS = 32"
definition MAX_CONDITIONS :: nat where "MAX_CONDITIONS = 8"
definition MAX_STOP_TIMEOUT_MS :: nat where "MAX_STOP_TIMEOUT_MS = 600000"

datatype pattern_error = Empty_Pattern | Pattern_Too_Long | Not_A_Regex str

definition compile_pattern :: "('r, 's) regex_api \<Rightarrow> str \<Rightarrow> pattern_error + 'r" where
  "compile_pattern R pat =
     (if pat = [] then Inl Empty_Pattern
      else if MAX_TRIGGER_LEN < length pat then Inl Pattern_Too_Long
      else (case re_new R pat of Inl e \<Rightarrow> Inl (Not_A_Regex e) | Inr re \<Rightarrow> Inr re))"

definition validate_pattern :: "('r, 's) regex_api \<Rightarrow> str \<Rightarrow> pattern_error + unit" where
  "validate_pattern R pat =
     (case compile_pattern R pat of Inl e \<Rightarrow> Inl e | Inr _ \<Rightarrow> Inr ())"

datatype conditions_error =
    Not_An_Array | Too_Many_Conditions nat | Not_A_String | Invalid_Condition str pattern_error

fun compile_conditions :: "('r, 's) regex_api \<Rightarrow> json list \<Rightarrow> conditions_error + 'r list" where
  "compile_conditions R [] = Inr []"
| "compile_conditions R (e # es) =
     (case jstr e of
        None \<Rightarrow> Inl Not_A_String
      | Some pat \<Rightarrow>
          (case compile_pattern R pat of
             Inl err \<Rightarrow> Inl (Invalid_Condition pat err)
           | Inr re \<Rightarrow>
               (case compile_conditions R es of Inl err \<Rightarrow> Inl err | Inr res \<Rightarrow> Inr (re # res))))"

definition parse_conditions :: "('r, 's) regex_api \<Rightarrow> json option \<Rightarrow> conditions_error + 'r list" where
  "parse_conditions R v =
     (case v of
        None \<Rightarrow> Inr []
      | Some JNull \<Rightarrow> Inr []
      | Some x \<Rightarrow>
          (case jarr x of
             None \<Rightarrow> Inl Not_An_Array
           | Some entries \<Rightarrow>
               if MAX_CONDITIONS < length entries then Inl (Too_Many_Conditions (length entries))
               else compile_conditions R entries))"

definition parse_actions :: "json \<Rightarrow> action list" where
  "parse_actions v =
     (case jarr v of
        None \<Rightarrow> []
      | Some acts \<Rightarrow>
          take MAX_ACTIONS
            (map (\<lambda>t. \<lparr>target_label = t\<rparr>)
              (filter (\<lambda>t. t \<noteq> [])
                (map (\<lambda>a. unwrap_or (jstr (jindex a ''target'')) []) acts))))"

definition clamp :: "nat \<Rightarrow> nat \<Rightarrow> nat \<Rightarrow> nat" where
  "clamp lo hi x = max lo (min hi x)"

text \<open>One iteration of the loop of \<open>concepts_from_json\<close>: \<open>None\<close> where the entry is skipped.\<close>

definition concept_of_item :: "('r, 's) regex_api \<Rightarrow> json \<Rightarrow> 'r concept option" where
  "concept_of_item R item =
     (let nm = unwrap_or (jstr (jindex item ''name'')) [];
          trigger = unwrap_or (jstr (jindex item ''trigger'')) []
      in if nm = [] \<or> 256 < length nm then None
         else if trigger = [] \<or> MAX_TRIGGER_LEN < length trigger then None
         else (case re_new R trigger of
             Inl _ \<Rightarrow> None
           | Inr re \<Rightarrow>
               (case parse_conditions R (jget item ''conditions'') of
                  Inl _ \<Rightarrow> None
                | Inr conds \<Rightarrow>
                    let on = unwrap_or (jbool (jindex item ''enabled'')) True;
                        stop_ms = clamp 1 MAX_STOP_TIMEOUT_MS
                          (unwrap_or (ju64 (jindex item ''stop_timeout_ms'')) 300);
                        stop_input = unwrap_or (jbool (jindex item ''stop_on_input'')) True;
                        mode = (if jstr (jindex item ''capture_mode'') = Some ''single_line''
                                then Single_Line else Until_Stop stop_ms stop_input)
                    in Some \<lparr>c_name = nm, c_trigger_regex = re, c_conditions = conds,
                             c_enabled = on, c_capture_mode = mode,
                             c_destinations = parse_actions (jindex item ''actions'')\<rparr>)))"

fun concepts_loop :: "('r, 's) regex_api \<Rightarrow> 'r concept list \<Rightarrow> json list
    \<Rightarrow> 'r concept list \<times> bool" where
  "concepts_loop R acc [] = (acc, False)"
| "concepts_loop R acc (item # items) =
     (if MAX_CONCEPTS \<le> length acc then (acc, True)
      else concepts_loop R
        (case concept_of_item R item of None \<Rightarrow> acc | Some c \<Rightarrow> acc @ [c]) items)"

definition concepts_from_json :: "(str \<Rightarrow> json option) \<Rightarrow> ('r, 's) regex_api \<Rightarrow> str
    \<Rightarrow> 'r concept list" where
  \<comment> \<open>the first parameter is \<open>serde_json::from_str\<close>\<close>
  "concepts_from_json from_str R s =
     (case from_str s of
        None \<Rightarrow> []
      | Some v \<Rightarrow> (case jarr v of None \<Rightarrow> [] | Some arr \<Rightarrow> fst (concepts_loop R [] arr)))"

section \<open>Facts about matching\<close>

text \<open>When a concept fires on a line, and whether it captures.\<close>

definition fires :: "('r, 's) regex_api \<Rightarrow> str \<Rightarrow> 'r concept \<Rightarrow> bool" where
  "fires R line c \<longleftrightarrow> c_enabled c \<and> re_is_match R (c_trigger_regex c) line \<and>
     list_all (\<lambda>re. re_is_match R re line) (c_conditions c)"

definition captures :: "'r concept \<Rightarrow> bool" where
  "captures c \<longleftrightarrow> c_capture_mode c \<noteq> Single_Line"

definition best_concept :: "('r, 's) regex_api \<Rightarrow> str \<Rightarrow> 'r concept list \<Rightarrow> 'r concept option" where
  "best_concept R line cs =
     (case find (\<lambda>c. fires R line c \<and> captures c) cs of
        Some c \<Rightarrow> Some c
      | None \<Rightarrow> find (fires R line) cs)"

lemma match_loop_best:
  "match_loop R line notify cs =
     (case find (\<lambda>c. fires R line c \<and> captures c) cs of
        Some c \<Rightarrow> Some (verdict_of c)
      | None \<Rightarrow> (case notify of Some v \<Rightarrow> Some v
          | None \<Rightarrow> map_option verdict_of (find (fires R line) cs)))"
proof (induction cs arbitrary: notify)
  case (Cons c cs)
  show ?case
    by (cases "c_capture_mode c"; cases notify)
      (auto simp: Cons.IH fires_def captures_def split: option.splits)
qed (simp split: option.splits)

lemma match_line_best: "match_line R cs line = map_option verdict_of (best_concept R line cs)"
  by (simp add: match_line_def match_loop_best best_concept_def split: option.splits)

lemma best_concept_fires: "best_concept R line cs = Some c \<Longrightarrow> c \<in> set cs \<and> fires R line c"
  by (auto simp: best_concept_def find_Some_iff split: option.splits)

lemma match_line_None: "match_line R cs line = None \<longleftrightarrow> (\<forall>c \<in> set cs. \<not> fires R line c)"
  by (auto simp: match_line_best best_concept_def find_None_iff find_Some_iff split: option.splits)

section \<open>Facts about parsing\<close>

lemma compile_pattern_Inr:
  "compile_pattern R pat = Inr re \<longleftrightarrow>
     pat \<noteq> [] \<and> length pat \<le> MAX_TRIGGER_LEN \<and> re_new R pat = Inr re"
  by (auto simp: compile_pattern_def split: sum.splits)

lemma compile_conditions_Inr:
  "compile_conditions R es = Inr res \<longleftrightarrow>
     list_all2 (\<lambda>e re. \<exists>pat. e = JStr pat \<and> compile_pattern R pat = Inr re) es res"
proof (induction es arbitrary: res)
  case Nil
  then show ?case by auto
next
  case (Cons e es)
  show ?case
    by (cases res) (auto simp: Cons.IH [symmetric] split: option.splits sum.splits)
qed

lemma parse_conditions_length:
  "parse_conditions R v = Inr res \<Longrightarrow> length res \<le> MAX_CONDITIONS"
  by (auto simp: parse_conditions_def compile_conditions_Inr split: option.splits json.splits if_splits
      dest: list_all2_lengthD)

text \<open>Nothing of a conditions list is dropped: parsing succeeds with one regex per entry.\<close>

lemma parse_conditions_all:
  "parse_conditions R (Some (JArr es)) = Inr res \<Longrightarrow>
   list_all2 (\<lambda>e re. \<exists>pat. e = JStr pat \<and> compile_pattern R pat = Inr re) es res"
  by (auto simp: parse_conditions_def compile_conditions_Inr split: if_splits)

lemma validate_pattern_Inr:
  "validate_pattern R pat = Inr () \<longleftrightarrow>
     pat \<noteq> [] \<and> length pat \<le> MAX_TRIGGER_LEN \<and> (\<exists>re. re_new R pat = Inr re)"
  by (auto simp: validate_pattern_def compile_pattern_def split: sum.splits)

lemma validate_iff_compile:
  "validate_pattern R pat = Inr () \<longleftrightarrow> (\<exists>re. compile_pattern R pat = Inr re)"
  by (auto simp: validate_pattern_def split: sum.splits)

lemma compile_conditions_ok:
  "(\<exists>res. compile_conditions R es = Inr res) \<longleftrightarrow>
     (\<forall>e \<in> set es. \<exists>pat. e = JStr pat \<and> validate_pattern R pat = Inr ())"
proof (induction es)
  case (Cons e es)
  have "(\<exists>res. compile_conditions R (e # es) = Inr res) \<longleftrightarrow>
      (\<exists>pat. e = JStr pat \<and> validate_pattern R pat = Inr ()) \<and>
      (\<exists>res. compile_conditions R es = Inr res)"
    by (cases e) (auto simp: validate_iff_compile split: sum.splits)
  with Cons.IH show ?case by simp
qed simp

lemma length_parse_actions: "length (parse_actions v) \<le> MAX_ACTIONS"
  by (simp add: parse_actions_def split: option.splits)

lemma parse_actions_nonempty: "a \<in> set (parse_actions v) \<Longrightarrow> target_label a \<noteq> []"
  by (auto simp: parse_actions_def split: option.splits dest!: in_set_takeD)

text \<open>What every loaded concept satisfies.\<close>

definition concept_ok :: "('r, 's) regex_api \<Rightarrow> 'r concept \<Rightarrow> bool" where
  "concept_ok R c \<longleftrightarrow>
     c_name c \<noteq> [] \<and> length (c_name c) \<le> 256 \<and>
     (\<exists>pat. length pat \<le> MAX_TRIGGER_LEN \<and> pat \<noteq> [] \<and> re_new R pat = Inr (c_trigger_regex c)) \<and>
     length (c_conditions c) \<le> MAX_CONDITIONS \<and>
     length (c_destinations c) \<le> MAX_ACTIONS \<and>
     (\<forall>a \<in> set (c_destinations c). target_label a \<noteq> []) \<and>
     (case c_capture_mode c of
        Until_Stop ms _ \<Rightarrow> 1 \<le> ms \<and> ms \<le> MAX_STOP_TIMEOUT_MS
      | Single_Line \<Rightarrow> True)"

lemma clamp_bounds: "lo \<le> hi \<Longrightarrow> lo \<le> clamp lo hi x \<and> clamp lo hi x \<le> hi"
  by (simp add: clamp_def)

lemma concept_of_item_ok: "concept_of_item R item = Some c \<Longrightarrow> concept_ok R c"
  using clamp_bounds [of 1 MAX_STOP_TIMEOUT_MS]
  by (auto simp: concept_of_item_def concept_ok_def Let_def parse_conditions_length
      length_parse_actions parse_actions_nonempty MAX_STOP_TIMEOUT_MS_def
      split: if_splits sum.splits
      intro!: exI [of _ "unwrap_or (jstr (jindex item ''trigger'')) []"])

text \<open>Loading an entry whose name is good and whose keys are present.\<close>

lemma concept_of_item_eq:
  assumes "jget item ''name'' = Some (JStr nm)" and "nm \<noteq> []" and "length nm \<le> 256"
    and "jget item ''trigger'' = Some (JStr trigger)"
    and "jget item ''conditions'' = Some cs"
  shows "concept_of_item R item =
    (if trigger = [] \<or> MAX_TRIGGER_LEN < length trigger then None
     else (case re_new R trigger of Inl _ \<Rightarrow> None
       | Inr re \<Rightarrow> (case parse_conditions R (Some cs) of Inl _ \<Rightarrow> None
           | Inr conds \<Rightarrow> Some
               \<lparr>c_name = nm, c_trigger_regex = re, c_conditions = conds,
                c_enabled = unwrap_or (jbool (jindex item ''enabled'')) True,
                c_capture_mode = (if jstr (jindex item ''capture_mode'') = Some ''single_line''
                  then Single_Line
                  else Until_Stop
                    (clamp 1 MAX_STOP_TIMEOUT_MS
                      (unwrap_or (ju64 (jindex item ''stop_timeout_ms'')) 300))
                    (unwrap_or (jbool (jindex item ''stop_on_input'')) True)),
                c_destinations = parse_actions (jindex item ''actions'')\<rparr>)))"
proof -
  have "jindex item ''name'' = JStr nm" "jindex item ''trigger'' = JStr trigger"
    using assms by (simp_all add: jindex_def)
  with assms show ?thesis
    unfolding concept_of_item_def Let_def by (auto simp: not_less split: sum.splits)
qed

lemma concepts_loop_ok:
  "list_all (concept_ok R) acc \<Longrightarrow> length acc \<le> MAX_CONCEPTS \<Longrightarrow>
   list_all (concept_ok R) (fst (concepts_loop R acc items)) \<and>
   length (fst (concepts_loop R acc items)) \<le> MAX_CONCEPTS"
  by (induction items arbitrary: acc) (auto simp: concept_of_item_ok split: option.splits)

text \<open>Without truncation the loop keeps exactly the entries that parse, in order.\<close>

lemma concepts_loop_filter:
  "length acc + length (List.map_filter (concept_of_item R) items) \<le> MAX_CONCEPTS \<Longrightarrow>
   fst (concepts_loop R acc items) = acc @ List.map_filter (concept_of_item R) items"
proof (induction items arbitrary: acc)
  case (Cons item items)
  show ?case
  proof (cases "MAX_CONCEPTS \<le> length acc")
    case True
    with Cons.prems have "length (List.map_filter (concept_of_item R) (item # items)) = 0"
      by linarith
    then have "List.map_filter (concept_of_item R) (item # items) = []" by blast
    with True show ?thesis by simp
  next
    case False
    with Cons show ?thesis by (simp add: map_filter_simps split: option.splits)
  qed
qed (simp add: map_filter_simps)

text \<open>A stand-in for the regex crate in which a pattern matches exactly its own text.\<close>

definition literal_regex :: "(str, str list) regex_api" where
  "literal_regex = \<lparr>re_new = Inr, re_is_match = (\<lambda>p l. p = l), re_as_str = id,
     set_new = (\<lambda>ps. Some ps), set_is_match = (\<lambda>ps l. l \<in> set ps)\<rparr>"

section \<open>Properties\<close>

text \<open>C7: the verdict on a line is the first enabled capturing concept whose trigger and
  conditions all match it, and only when there is none the first such notify-only one: a
  capture outranks a notify, whatever the order of the set.\<close>

theorem match_line_precedence:
  "match_line R cs line = map_option verdict_of (best_concept R line cs) \<and>
   (match_line R cs line = None \<longleftrightarrow> (\<forall>c \<in> set cs. \<not> fires R line c))"
  by (simp add: match_line_best match_line_None [symmetric])

theorem match_line_precedence_witness:
  "match_line literal_regex
     [(concept_new ''note'' ''x'' [])\<lparr>c_capture_mode := Single_Line\<rparr>,
      concept_new ''grab'' ''x'' [\<lparr>target_label = ''wiki''\<rparr>]] ''x'' =
   Some (''grab'', Until_Stop 300 True, ''wiki'')"
  using match_line_precedence [of
      "literal_regex"
      "[(concept_new ''note'' ''x'' [])\<lparr>c_capture_mode := Single_Line\<rparr>,
        concept_new ''grab'' ''x'' [\<lparr>target_label = ''wiki''\<rparr>]]" "''x''"]
  by (simp add: best_concept_def fires_def captures_def concept_new_def verdict_of_def
      capture_mode_default_def literal_regex_def)

text \<open>The combined gate in front of the concept loop never changes a verdict, given that
  a compiled pattern set matches exactly when one of its patterns does.\<close>

theorem matcher_gate_sound:
  assumes "regex_set_law R (map c_trigger_regex (filter c_enabled cs))"
  shows "matcher_match_line R (matcher_new R cs) line = match_line R cs line"
proof (cases "m_gate (matcher_new R cs)")
  case None
  then show ?thesis by (simp add: matcher_match_line_def matcher_new_def Let_def)
next
  case (Some g)
  then have "set_new R (map (re_as_str R) (map c_trigger_regex (filter c_enabled cs))) = Some g"
    by (auto simp: matcher_new_def Let_def comp_def split: if_splits)
  with assms have gate: "set_is_match R g line =
      list_ex (\<lambda>re. re_is_match R re line) (map c_trigger_regex (filter c_enabled cs))"
    by (simp add: regex_set_law_def)
  have "\<not> set_is_match R g line \<Longrightarrow> match_line R cs line = None"
    by (auto simp: gate match_line_None fires_def list_ex_iff)
  then show ?thesis
    using Some by (auto simp: matcher_match_line_def matcher_new_def Let_def)
qed

theorem matcher_gate_sound_witness:
  "matcher_match_line literal_regex
     (matcher_new literal_regex
       [concept_new ''a'' ''x'' [], concept_new ''b'' ''y'' []]) ''y'' =
   Some (''b'', Until_Stop 300 True, [])"
proof -
  let ?R = "literal_regex"
  have "regex_set_law ?R (map c_trigger_regex (filter c_enabled
      [concept_new ''a'' ''x'' [], concept_new ''b'' ''y'' []]))"
    by (auto simp: regex_set_law_def concept_new_def literal_regex_def)
  from matcher_gate_sound [OF this, of "''y''"] show ?thesis
    by (simp add: match_line_def concept_new_def verdict_of_def capture_mode_default_def
        literal_regex_def)
qed

text \<open>Whatever the configuration file holds, at most \<open>MAX_CONCEPTS\<close> concepts are loaded and
  each respects every cap: its name, trigger, conditions, destinations, and a stop timeout
  between 1 ms and 10 minutes.\<close>

theorem concepts_from_json_caps:
  "list_all (concept_ok R) (concepts_from_json from_str R s) \<and>
   length (concepts_from_json from_str R s) \<le> MAX_CONCEPTS"
  using concepts_loop_ok [of R "[]"]
  by (auto simp: concepts_from_json_def split: option.splits)

text \<open>An entry that names itself loads exactly when the editor's \<open>validate_pattern\<close> accepts
  its trigger and every entry of its conditions list compiles; no condition is dropped.\<close>

theorem concept_loads_iff_validated:
  assumes "jget item ''name'' = Some (JStr nm)" and "nm \<noteq> []" and "length nm \<le> 256"
    and "jget item ''trigger'' = Some (JStr trigger)"
    and "jget item ''conditions'' = Some (JArr es)"
  shows "(concept_of_item R item \<noteq> None \<longleftrightarrow>
      validate_pattern R trigger = Inr () \<and> length es \<le> MAX_CONDITIONS \<and>
      (\<forall>e \<in> set es. \<exists>pat. e = JStr pat \<and> validate_pattern R pat = Inr ())) \<and>
    (\<forall>c. concept_of_item R item = Some c \<longrightarrow> length (c_conditions c) = length es)"
proof
  have conds: "(\<exists>res. parse_conditions R (Some (JArr es)) = Inr res) \<longleftrightarrow>
      length es \<le> MAX_CONDITIONS \<and>
      (\<forall>e \<in> set es. \<exists>pat. e = JStr pat \<and> validate_pattern R pat = Inr ())"
    by (simp add: parse_conditions_def compile_conditions_ok)
  have "concept_of_item R item \<noteq> None \<longleftrightarrow>
      validate_pattern R trigger = Inr () \<and>
      (\<exists>res. parse_conditions R (Some (JArr es)) = Inr res)"
    by (cases "re_new R trigger"; cases "parse_conditions R (Some (JArr es))")
      (simp_all add: concept_of_item_eq [OF assms] validate_pattern_Inr not_less)
  with conds show "concept_of_item R item \<noteq> None \<longleftrightarrow>
      validate_pattern R trigger = Inr () \<and> length es \<le> MAX_CONDITIONS \<and>
      (\<forall>e \<in> set es. \<exists>pat. e = JStr pat \<and> validate_pattern R pat = Inr ())"
    by blast
  show "\<forall>c. concept_of_item R item = Some c \<longrightarrow> length (c_conditions c) = length es"
    by (auto simp: concept_of_item_eq [OF assms] split: if_splits sum.splits
        dest!: parse_conditions_all list_all2_lengthD)
qed

theorem concept_loads_iff_validated_witness:
  "concept_of_item literal_regex
     (JObj [(''name'', JStr ''n''), (''trigger'', JStr ''t''), (''conditions'', JArr [JStr ''c''])])
     \<noteq> None"
  using concept_loads_iff_validated
    [of "JObj [(''name'', JStr ''n''), (''trigger'', JStr ''t''), (''conditions'', JArr [JStr ''c''])]"
      "''n''" "''t''" "[JStr ''c'']" literal_regex]
  by (simp add: literal_regex_def validate_pattern_def compile_pattern_def MAX_TRIGGER_LEN_def MAX_CONDITIONS_def)

text \<open>The wire spelling of every pane type parses back to it, every accepted spelling is an
  emitted one or the legacy \<open>observer\<close>, and no other value is accepted.\<close>

theorem pane_type_roundtrip:
  "pane_type_deserialize (pane_type_serialize p) = Some p \<and> p \<in> set pane_type_ALL \<and>
   (pane_type_deserialize v = Some q \<longleftrightarrow>
      v = pane_type_serialize q \<or> (v = JStr ''observer'' \<and> q = Inspector))"
proof -
  have "pane_type_parse s = Some q \<longleftrightarrow> s = pane_type_as_str q \<or> (s = ''observer'' \<and> q = Inspector)"
    for s q
    by (cases q) (auto simp: pane_type_parse_def pane_type_as_str_def)
  then show ?thesis
    by (cases p; cases v) (auto simp: pane_type_deserialize_def pane_type_serialize_def
        pane_type_ALL_def)
qed

end
