(* ===== verification/Term_Grid.thy ===== *)
theory Term_Grid
  imports Line_Parser History_Store Concepts
begin

text \<open>
  The program's part of the terminal grid of \<open>crates/gpty-core/src/term.rs\<close>: feeding bytes
  through the escape-string guard, the queue of emulator replies, the recent-lines ring and
  the history hand-off, the restore of scrollback lines and the anchoring of a resize.  The
  emulator itself (\<open>alacritty_terminal\<close>) is a parameter: its state type, what advancing it
  over bytes does and which events it sends, and the few facts the code reads off it.
  Rendering, selection and colours are not part of this theory.
\<close>

section \<open>The emulator\<close>

datatype term_event = Title str | Pty_Write str | Other_Event

record 't term_api =
  ta_new :: "nat \<Rightarrow> nat \<Rightarrow> nat \<Rightarrow> 't"
    \<comment> \<open>scrollback limit, rows, columns\<close>
  ta_advance :: "'t \<Rightarrow> bytes \<Rightarrow> 't \<times> term_event list"
  ta_resize :: "nat \<Rightarrow> nat \<Rightarrow> 't \<Rightarrow> 't"
  ta_alt_screen :: "'t \<Rightarrow> bool"
  ta_show_cursor :: "'t \<Rightarrow> bool"
  ta_cursor_viewport :: "'t \<Rightarrow> (nat \<times> nat) option"
    \<comment> \<open>the cursor in viewport coordinates, under the current scroll offset\<close>
  ta_display_offset :: "'t \<Rightarrow> nat"
  ta_history_size :: "'t \<Rightarrow> nat"

section \<open>State\<close>

record term_status =
  st_pid :: "nat option"
  st_exit_code :: "int option"
  st_last_output_unix_ms :: "nat option"
  st_started_unix_ms :: nat
  st_foreground_job :: "bool option"
  st_child_alive :: bool

definition status_default :: term_status where
  "status_default = \<lparr>st_pid = None, st_exit_code = None, st_last_output_unix_ms = None,
     st_started_unix_ms = 0, st_foreground_job = None, st_child_alive = False\<rparr>"

record 't term_grid =
  g_term :: 't
  g_strings :: escape_guard
  g_title :: str
  g_replies :: "bytes list"
  g_rows :: nat
  g_cols :: nat
  g_generation :: nat
  g_line_count :: nat
  g_history :: "history_sys option"
  g_status :: term_status
  g_agent_state :: agent_tracker
  g_recent_lines :: "str list"

definition RECENT_LINE_CAP :: nat where "RECENT_LINE_CAP = 512"

definition grid_new :: "'t term_api \<Rightarrow> nat \<Rightarrow> nat \<Rightarrow> nat \<Rightarrow> 't term_grid" where
  "grid_new A nrows ncols max_history =
     \<lparr>g_term = ta_new A max_history nrows ncols, g_strings = guard_new, g_title = [], g_replies = [],
      g_rows = nrows, g_cols = ncols, g_generation = 0, g_line_count = 0, g_history = None,
      g_status = status_default, g_agent_state = tracker_default, g_recent_lines = []\<rparr>"

section \<open>Operations\<close>

text \<open>The listener the emulator sends its events to.\<close>

fun send_event :: "term_event \<Rightarrow> 't term_grid \<Rightarrow> 't term_grid" where
  "send_event (Title t) g = g\<lparr>g_title := t\<rparr>"
| "send_event (Pty_Write txt) g = g\<lparr>g_replies := g_replies g @ [txt]\<rparr>"
| "send_event Other_Event g = g"

definition grid_slice :: "'t term_api \<Rightarrow> bytes \<Rightarrow> 't term_grid \<Rightarrow> 't term_grid" where
  "grid_slice A bs g =
     (case ta_advance A (g_term g) bs of (t, evs) \<Rightarrow> fold send_event evs (g\<lparr>g_term := t\<rparr>))"

definition grid_feed_parser :: "'t term_api \<Rightarrow> bytes \<Rightarrow> 't term_grid \<Rightarrow> 't term_grid" where
  "grid_feed_parser A bs g =
     (case guard_feed MAX_ESCAPE_STRING_BYTES (g_strings g) bs of (sg, slices) \<Rightarrow>
        fold (grid_slice A) slices (g\<lparr>g_strings := sg\<rparr>))"

definition grid_feed :: "'t term_api \<Rightarrow> bytes \<Rightarrow> 't term_grid \<Rightarrow> 't term_grid" where
  "grid_feed A bs g = grid_feed_parser A bs (g\<lparr>g_generation := g_generation g + 1\<rparr>)"

definition drain_replies :: "'t term_grid \<Rightarrow> 't term_grid \<times> bytes list" where
  "drain_replies g = (g\<lparr>g_replies := []\<rparr>, g_replies g)"

definition seed_line_count :: "nat \<Rightarrow> 't term_grid \<Rightarrow> 't term_grid" where
  "seed_line_count n g = g\<lparr>g_line_count := n\<rparr>"

fun restore_lines :: "'t term_api \<Rightarrow> str option \<Rightarrow> str list \<Rightarrow> 't term_grid \<Rightarrow> 't term_grid" where
  "restore_lines A prev [] g = g"
| "restore_lines A prev (l # ls) g =
     (if l \<noteq> [] \<and> prev = Some l then restore_lines A prev ls g
      else restore_lines A (Some l) ls (grid_feed A (l @ [CR, LF]) g))"

definition feed_restore_lines :: "'t term_api \<Rightarrow> str list \<Rightarrow> 't term_grid \<Rightarrow> 't term_grid" where
  "feed_restore_lines A ls g = restore_lines A None ls g"

definition push_recent :: "str \<Rightarrow> str list \<Rightarrow> str list" where
  "push_recent l q =
     (let q1 = q @ [l] in if RECENT_LINE_CAP < length q1 then tl q1 else q1)"

definition store_line :: "str \<Rightarrow> 't term_grid \<Rightarrow> 't term_grid" where
  "store_line l g =
     (let n = g_line_count g + 1
      in g\<lparr>g_line_count := n, g_recent_lines := push_recent l (g_recent_lines g),
           g_history := map_option (history_push (int n) l) (g_history g)\<rparr>)"

definition first_matching_line :: "('r, 's) regex_api \<Rightarrow> str \<Rightarrow> 't term_grid \<Rightarrow> str option" where
  "first_matching_line R pat g =
     (if pat = [] \<or> 1024 < length pat then None
      else (case re_new R pat of
          Inl _ \<Rightarrow> None
        | Inr re \<Rightarrow> find (re_is_match R re) (rev (g_recent_lines g))))"

definition cursor_position :: "'t term_api \<Rightarrow> 't term_grid \<Rightarrow> (nat \<times> nat) option" where
  "cursor_position A g =
     (if \<not> ta_show_cursor A (g_term g) then None
      else (case ta_cursor_viewport A (g_term g) of
          None \<Rightarrow> None
        | Some (row, col) \<Rightarrow>
            if row < g_rows g \<and> col < g_cols g then Some (row, col) else None))"

definition is_alt_screen :: "'t term_api \<Rightarrow> 't term_grid \<Rightarrow> bool" where
  "is_alt_screen A g = ta_alt_screen A (g_term g)"

text \<open>The escape sequence that undoes the scrollback rows a growing resize revealed.\<close>

definition anchor_sequence :: "nat \<Rightarrow> (nat \<times> nat) option \<Rightarrow> bytes" where
  "anchor_sequence growth cursor =
     [ESC] @ ''[H'' @ [ESC] @ ''['' @ dec growth @ ''M'' @
     (case cursor of
        None \<Rightarrow> []
      | Some (row, col) \<Rightarrow> [ESC] @ ''['' @ dec row @ ''B'' @ [ESC] @ ''['' @ dec (col + 1) @ ''G'')"

definition grid_resize :: "'t term_api \<Rightarrow> nat \<Rightarrow> nat \<Rightarrow> 't term_grid \<Rightarrow> 't term_grid" where
  "grid_resize A nrows ncols g =
     (if g_rows g = nrows \<and> g_cols g = ncols then g
      else
        (let old_rows = g_rows g;
             was_following = (ta_display_offset A (g_term g) = 0);
             cursor = cursor_position A g;
             alt_screen = is_alt_screen A g;
             g1 = g\<lparr>g_rows := nrows, g_cols := ncols, g_term := ta_resize A nrows ncols (g_term g)\<rparr>;
             g2 = (if was_following \<and> old_rows < nrows \<and> \<not> alt_screen
                      \<and> 0 < ta_history_size A (g_term g1)
                   then grid_feed_parser A (anchor_sequence (nrows - old_rows) cursor) g1
                   else g1)
         in g2\<lparr>g_generation := g_generation g2 + 1\<rparr>))"

section \<open>The recent-lines ring\<close>

interpretation recent: drop_oldest push_recent RECENT_LINE_CAP
proof
  show "0 < RECENT_LINE_CAP" by (simp add: RECENT_LINE_CAP_def)
next
  fix q :: "str list" and x
  show "length q < RECENT_LINE_CAP \<Longrightarrow> push_recent x q = q @ [x]"
    by (simp add: push_recent_def Let_def)
  show "length q = RECENT_LINE_CAP \<Longrightarrow> push_recent x q = tl q @ [x]"
    by (cases q) (auto simp: push_recent_def Let_def RECENT_LINE_CAP_def)
qed

text \<open>What feeding leaves alone.\<close>

lemma fold_send_event_frame:
  "g_recent_lines (fold send_event evs g) = g_recent_lines g"
  "g_line_count (fold send_event evs g) = g_line_count g"
  "g_history (fold send_event evs g) = g_history g"
  "g_status (fold send_event evs g) = g_status g"
  "g_agent_state (fold send_event evs g) = g_agent_state g"
proof (induction evs arbitrary: g)
  case (Cons e es)
  { case 1 then show ?case using Cons by (cases e) simp_all }
  { case 2 then show ?case using Cons by (cases e) simp_all }
  { case 3 then show ?case using Cons by (cases e) simp_all }
  { case 4 then show ?case using Cons by (cases e) simp_all }
  { case 5 then show ?case using Cons by (cases e) simp_all }
qed simp_all

lemma fold_grid_slice_frame:
  "g_recent_lines (fold (grid_slice A) ss g) = g_recent_lines g \<and>
   g_line_count (fold (grid_slice A) ss g) = g_line_count g \<and>
   g_history (fold (grid_slice A) ss g) = g_history g \<and>
   g_status (fold (grid_slice A) ss g) = g_status g \<and>
   g_agent_state (fold (grid_slice A) ss g) = g_agent_state g"
  by (induction ss arbitrary: g)
    (simp_all add: grid_slice_def fold_send_event_frame split: prod.splits)

lemma grid_feed_frame [simp]:
  "g_recent_lines (grid_feed A bs g) = g_recent_lines g"
  "g_line_count (grid_feed A bs g) = g_line_count g"
  "g_history (grid_feed A bs g) = g_history g"
  "g_status (grid_feed A bs g) = g_status g"
  "g_agent_state (grid_feed A bs g) = g_agent_state g"
  by (simp_all add: grid_feed_def grid_feed_parser_def fold_grid_slice_frame split: prod.splits)

lemma store_line_frame [simp]:
  "g_term (store_line l g) = g_term g" "g_strings (store_line l g) = g_strings g"
  "g_replies (store_line l g) = g_replies g" "g_agent_state (store_line l g) = g_agent_state g"
  "g_status (store_line l g) = g_status g"
  by (simp_all add: store_line_def Let_def)

text \<open>Storing lines: the ring holds the newest, and a history numbers them on from the count.\<close>

lemma fold_store_line_recent:
  "length (g_recent_lines g) \<le> RECENT_LINE_CAP \<Longrightarrow>
   g_recent_lines (fold store_line ls g) = last_n RECENT_LINE_CAP (g_recent_lines g @ ls)"
proof -
  assume "length (g_recent_lines g) \<le> RECENT_LINE_CAP"
  moreover have "g_recent_lines (fold store_line ls g) = fold push_recent ls (g_recent_lines g)"
    by (induction ls arbitrary: g) (simp_all add: store_line_def Let_def)
  ultimately show ?thesis by (simp add: recent.fold_push)
qed

lemma fold_store_line_count: "g_line_count (fold store_line ls g) = g_line_count g + length ls"
  by (induction ls arbitrary: g) (simp_all add: store_line_def Let_def)

end
