(* ===== verification/Capture_Session.thy ===== *)
theory Capture_Session
  imports Term_Grid
begin

text \<open>
  The capture state machine of \<open>crates/gpty-core/src/engine.rs\<close>: buffering, the byte cap and
  the deadline, finalization into a bounded queue and the raw-chunk store, flushing and
  acknowledging a capture.  Instants are milliseconds.  The queue a finalized capture goes to
  is named by the session's sink; both queues a sink can name are part of the session.
\<close>

section \<open>State\<close>

definition MAX_CAPTURE_BYTES :: nat where "MAX_CAPTURE_BYTES = 4 * 1024 * 1024"
definition MAX_BUFFERED_CAPTURES :: nat where "MAX_BUFFERED_CAPTURES = 64"

datatype sink = Pane_Queue | Orphan_Queue

record capture_session =
  cs_buffer :: "bytes list"
  cs_bytes :: nat
  active_name :: "str option"
  active_target :: "str option"
  deadline :: "nat option"
  next_event_id :: nat
  cs_sink :: sink
  cs_buffers :: "(nat \<times> bytes list) list"
  capture_queue :: "captured_output list"
  orphaned :: "captured_output list"

definition session_new :: "captured_output list \<Rightarrow> capture_session" where
  "session_new orphans = \<lparr>cs_buffer = [], cs_bytes = 0, active_name = None, active_target = None,
     deadline = None, next_event_id = 0, cs_sink = Pane_Queue, cs_buffers = [],
     capture_queue = [], orphaned = orphans\<rparr>"

section \<open>Operations\<close>

definition push_bounded :: "captured_output \<Rightarrow> captured_output list \<Rightarrow> captured_output list" where
  "push_bounded ev q = (if MAX_BUFFERED_CAPTURES \<le> length q then tl q else q) @ [ev]"

definition push_sink :: "captured_output \<Rightarrow> capture_session \<Rightarrow> capture_session" where
  "push_sink ev s = (case cs_sink s of
      Pane_Queue \<Rightarrow> s\<lparr>capture_queue := push_bounded ev (capture_queue s)\<rparr>
    | Orphan_Queue \<Rightarrow> s\<lparr>orphaned := push_bounded ev (orphaned s)\<rparr>)"

text \<open>\<open>bufs.remove(&oldest)\<close> when the store is full, then \<open>bufs.insert(id, raw_bytes)\<close>.\<close>

definition remove_key :: "nat \<Rightarrow> (nat \<times> 'a) list \<Rightarrow> (nat \<times> 'a) list" where
  "remove_key k kvs = filter (\<lambda>kv. fst kv \<noteq> k) kvs"

definition insert_chunks :: "nat \<Rightarrow> bytes list \<Rightarrow> (nat \<times> bytes list) list
    \<Rightarrow> (nat \<times> bytes list) list" where
  "insert_chunks k raw bufs =
     (let bufs1 = (if MAX_BUFFERED_CAPTURES \<le> length bufs \<and> bufs \<noteq> []
                   then remove_key (Min (fst ` set bufs)) bufs else bufs)
      in (k, raw) # remove_key k bufs1)"

text \<open>The lines of the buffered chunks, parsed by a fresh line parser.\<close>

definition parse_chunks :: "('v \<Rightarrow> bytes \<Rightarrow> 'v \<times> vte_event list) \<Rightarrow> 'v \<Rightarrow> bytes list \<Rightarrow> str list" where
  "parse_chunks advance v0 chunks = snd (parser_feeds advance (parser_new v0) chunks)"

definition finalize :: "('v \<Rightarrow> bytes \<Rightarrow> 'v \<times> vte_event list) \<Rightarrow> 'v \<Rightarrow> capture_session
    \<Rightarrow> capture_session \<times> captured_output option" where
  "finalize advance v0 s =
     (case active_name s of
        None \<Rightarrow> (s, None)
      | Some nm \<Rightarrow>
          let ident = next_event_id s;
              raw = cs_buffer s;
              event = \<lparr>co_id = ident, co_concept_name = nm,
                       co_lines = parse_chunks advance v0 raw,
                       co_target_pane_type = unwrap_or (active_target s) []\<rparr>;
              s1 = s\<lparr>next_event_id := ident + 1, active_name := None, active_target := None,
                     cs_buffer := [], cs_bytes := 0,
                     cs_buffers := insert_chunks ident raw (cs_buffers s)\<rparr>;
              s2 = (push_sink event s1)\<lparr>deadline := None\<rparr>
          in (s2, Some event))"

definition is_active :: "capture_session \<Rightarrow> bool" where
  "is_active s \<longleftrightarrow> active_name s \<noteq> None"

definition begin_capture :: "str \<Rightarrow> str \<Rightarrow> nat \<Rightarrow> capture_session \<Rightarrow> capture_session" where
  "begin_capture nm target dl s =
     s\<lparr>active_name := Some nm, active_target := Some target, deadline := Some dl\<rparr>"

definition feed_output :: "('v \<Rightarrow> bytes \<Rightarrow> 'v \<times> vte_event list) \<Rightarrow> 'v \<Rightarrow> bytes \<Rightarrow> nat
    \<Rightarrow> capture_session \<Rightarrow> capture_session \<times> bool" where
  "feed_output advance v0 bs now s =
     (if active_name s = None then (s, False)
      else
        (let s1 = s\<lparr>cs_bytes := cs_bytes s + length bs, cs_buffer := cs_buffer s @ [bs]\<rparr>;
             over_cap = MAX_CAPTURE_BYTES < cs_bytes s1;
             past_deadline = (case deadline s1 of Some d \<Rightarrow> d \<le> now | None \<Rightarrow> False)
         in if over_cap \<or> past_deadline then (fst (finalize advance v0 s1), True) else (s1, False)))"

definition finalize_to :: "('v \<Rightarrow> bytes \<Rightarrow> 'v \<times> vte_event list) \<Rightarrow> 'v \<Rightarrow> sink \<Rightarrow> capture_session
    \<Rightarrow> capture_session \<times> captured_output option" where
  "finalize_to advance v0 snk s = finalize advance v0 (s\<lparr>cs_sink := snk\<rparr>)"

definition stops_on_input :: "('r, 's) concept_matcher \<Rightarrow> capture_session \<Rightarrow> bool" where
  "stops_on_input m s =
     (case active_name s of
        None \<Rightarrow> False
      | Some nm \<Rightarrow>
          list_ex (\<lambda>c. c_name c = nm \<and>
            (case c_capture_mode c of Until_Stop _ stop \<Rightarrow> stop | Single_Line \<Rightarrow> False))
            (m_concepts m))"

definition take_chunks :: "nat \<Rightarrow> capture_session \<Rightarrow> capture_session \<times> bytes list option" where
  "take_chunks ident s =
     (s\<lparr>cs_buffers := remove_key ident (cs_buffers s)\<rparr>, map_of (cs_buffers s) ident)"

text \<open>\<open>FlushCapture\<close>: replay the chunks into the grid, storing the lines of each.\<close>

fun flush_chunks :: "('v \<Rightarrow> bytes \<Rightarrow> 'v \<times> vte_event list) \<Rightarrow> 't term_api \<Rightarrow> 'v line_parser
    \<Rightarrow> bytes list \<Rightarrow> 't term_grid \<Rightarrow> 't term_grid" where
  "flush_chunks advance A lp [] g = g"
| "flush_chunks advance A lp (c # cs) g =
     (case parser_feed advance lp c of (lp', ls) \<Rightarrow>
        flush_chunks advance A lp' cs (fold store_line ls (grid_feed A c g)))"

definition flush_capture :: "('v \<Rightarrow> bytes \<Rightarrow> 'v \<times> vte_event list) \<Rightarrow> 'v \<Rightarrow> 't term_api \<Rightarrow> nat
    \<Rightarrow> capture_session \<Rightarrow> 't term_grid \<Rightarrow> capture_session \<times> 't term_grid" where
  "flush_capture advance v0 A ident s g =
     (case take_chunks ident s of
        (s', None) \<Rightarrow> (s', g)
      | (s', Some chunks) \<Rightarrow> (s', flush_chunks advance A (parser_new v0) chunks g))"

text \<open>\<open>AcknowledgeCapture\<close>: drop the chunks but for the prompt, the bytes after the last
  newline, which goes to the grid on a fresh line.\<close>

definition after_last_newline :: "bytes \<Rightarrow> bytes option" where
  "after_last_newline bs =
     (if LF \<in> set bs then Some (rev (takeWhile (\<lambda>b. b \<noteq> LF) (rev bs))) else None)"

definition acknowledge_capture :: "'t term_api \<Rightarrow> nat \<Rightarrow> capture_session \<Rightarrow> 't term_grid
    \<Rightarrow> capture_session \<times> 't term_grid" where
  "acknowledge_capture A ident s g =
     (case take_chunks ident s of
        (s', None) \<Rightarrow> (s', g)
      | (s', Some chunks) \<Rightarrow>
          (s', (case after_last_newline (concat chunks) of
                  Some prompt \<Rightarrow>
                    if prompt \<noteq> [] then grid_feed A prompt (grid_feed A [CR, LF] g) else g
                | None \<Rightarrow> grid_feed A (concat chunks) (grid_feed A [CR, LF] g))))"

text \<open>\<open>SpawnedTerminal::drop\<close>: finalize what is in flight into the orphan queue, then carry
  over what the pane queue still holds.  \<open>drain_orphaned_captures\<close> takes them.\<close>

definition spawned_drop :: "('v \<Rightarrow> bytes \<Rightarrow> 'v \<times> vte_event list) \<Rightarrow> 'v \<Rightarrow> capture_session
    \<Rightarrow> capture_session" where
  "spawned_drop advance v0 s =
     (let s1 = fst (finalize_to advance v0 Orphan_Queue s)
      in s1\<lparr>capture_queue := [], orphaned := fold push_bounded (capture_queue s1) (orphaned s1)\<rparr>)"

definition drain_orphaned_captures :: "capture_session \<Rightarrow> capture_session \<times> captured_output list" where
  "drain_orphaned_captures s = (s\<lparr>orphaned := []\<rparr>, orphaned s)"

section \<open>The capture queues\<close>

interpretation captures_q: drop_oldest push_bounded MAX_BUFFERED_CAPTURES
  by unfold_locales (auto simp: push_bounded_def MAX_BUFFERED_CAPTURES_def)

section \<open>The session invariant\<close>

definition session_inv :: "capture_session \<Rightarrow> bool" where
  "session_inv s \<longleftrightarrow>
     (active_name s = None \<longrightarrow> active_target s = None \<and> deadline s = None \<and> cs_buffer s = []) \<and>
     (active_name s \<noteq> None \<longrightarrow> active_target s \<noteq> None \<and> deadline s \<noteq> None) \<and>
     cs_bytes s = sum_list (map length (cs_buffer s)) \<and> cs_bytes s \<le> MAX_CAPTURE_BYTES \<and>
     distinct (map fst (cs_buffers s)) \<and> (\<forall>k \<in> fst ` set (cs_buffers s). k < next_event_id s) \<and>
     length (cs_buffers s) \<le> MAX_BUFFERED_CAPTURES \<and>
     length (capture_queue s) \<le> MAX_BUFFERED_CAPTURES \<and>
     length (orphaned s) \<le> MAX_BUFFERED_CAPTURES \<and>
     (\<forall>ev \<in> set (capture_queue s). co_id ev < next_event_id s)"

lemma session_inv_new:
  "length orphans \<le> MAX_BUFFERED_CAPTURES \<Longrightarrow> session_inv (session_new orphans)"
  by (simp add: session_inv_def session_new_def)

lemma length_remove_key_in:
  "distinct (map fst kvs) \<Longrightarrow> k \<in> fst ` set kvs \<Longrightarrow> length (remove_key k kvs) = length kvs - 1"
proof (induction kvs)
  case (Cons kv kvs)
  show ?case
  proof (cases "fst kv = k")
    case True
    with Cons.prems have "k \<notin> fst ` set kvs" by auto
    then have "remove_key k kvs = kvs" by (auto simp: remove_key_def filter_id_conv)
    then show ?thesis using True by (simp add: remove_key_def)
  next
    case False
    with Cons.prems have "k \<in> fst ` set kvs" by auto
    moreover from this have "0 < length kvs" by auto
    ultimately show ?thesis using Cons False by (simp add: remove_key_def)
  qed
qed simp

lemma length_remove_key_le: "length (remove_key k kvs) \<le> length kvs"
  by (simp add: remove_key_def)

lemma fst_remove_key: "fst ` set (remove_key k kvs) = fst ` set kvs - {k}"
  by (auto simp: remove_key_def)

lemma distinct_remove_key: "distinct (map fst kvs) \<Longrightarrow> distinct (map fst (remove_key k kvs))"
  by (simp add: remove_key_def distinct_map_filter)

lemma map_of_remove_key: "k' \<noteq> k \<Longrightarrow> map_of (remove_key k kvs) k' = map_of kvs k'"
  by (induction kvs) (auto simp: remove_key_def)

lemma insert_chunks_keys:
  "fst ` set (insert_chunks k raw bufs) \<subseteq> insert k (fst ` set bufs)"
  by (auto simp: insert_chunks_def Let_def remove_key_def)

lemma insert_chunks_distinct:
  "distinct (map fst bufs) \<Longrightarrow> distinct (map fst (insert_chunks k raw bufs))"
  by (simp add: insert_chunks_def Let_def distinct_remove_key fst_remove_key)

lemma insert_chunks_length:
  assumes "distinct (map fst bufs)" and "length bufs \<le> MAX_BUFFERED_CAPTURES"
  shows "length (insert_chunks k raw bufs) \<le> MAX_BUFFERED_CAPTURES"
proof (cases "MAX_BUFFERED_CAPTURES \<le> length bufs \<and> bufs \<noteq> []")
  case True
  then have "Min (fst ` set bufs) \<in> fst ` set bufs" by (intro Min_in) auto
  then have "length (remove_key (Min (fst ` set bufs)) bufs) = length bufs - 1"
    using assms(1) by (intro length_remove_key_in)
  then have "length (remove_key k (remove_key (Min (fst ` set bufs)) bufs)) \<le> length bufs - 1"
    by (metis length_remove_key_le)
  then have "length (remove_key k (remove_key (Min (fst ` set bufs)) bufs)) < MAX_BUFFERED_CAPTURES"
    using True assms(2) by (cases bufs) auto
  then show ?thesis using True by (simp add: insert_chunks_def Let_def)
next
  case False
  then have "length (remove_key k bufs) < MAX_BUFFERED_CAPTURES"
    using length_remove_key_le [of k bufs] captures_q.cap_pos by auto
  with False show ?thesis by (auto simp: insert_chunks_def)
qed

lemma insert_chunks_lookup: "map_of (insert_chunks k raw bufs) k = Some raw"
  by (simp add: insert_chunks_def Let_def)

lemma finalize_idle: "active_name s = None \<Longrightarrow> finalize advance v0 s = (s, None)"
  by (simp add: finalize_def)

text \<open>Finalizing an active session whatever its byte count: the invariant may be broken by the
  chunk that passed the cap, and holds again afterwards.\<close>

definition session_core :: "capture_session \<Rightarrow> bool" where
  "session_core s \<longleftrightarrow>
     distinct (map fst (cs_buffers s)) \<and> (\<forall>k \<in> fst ` set (cs_buffers s). k < next_event_id s) \<and>
     length (cs_buffers s) \<le> MAX_BUFFERED_CAPTURES \<and>
     length (capture_queue s) \<le> MAX_BUFFERED_CAPTURES \<and>
     length (orphaned s) \<le> MAX_BUFFERED_CAPTURES \<and>
     (\<forall>ev \<in> set (capture_queue s). co_id ev < next_event_id s)"

lemma session_inv_core: "session_inv s \<Longrightarrow> session_core s"
  by (simp add: session_inv_def session_core_def)

lemma push_bounded_cases:
  "e \<in> set (push_bounded ev q) \<Longrightarrow> e = ev \<or> e \<in> set q"
  by (cases q) (auto simp: push_bounded_def split: if_splits)

lemma finalize_inv:
  assumes "session_core s" and "active_name s \<noteq> None"
  shows "session_inv (fst (finalize advance v0 s))"
proof -
  have keys: "k < Suc (next_event_id s)"
    if "(k, v) \<in> set (insert_chunks (next_event_id s) (cs_buffer s) (cs_buffers s))" for k v
  proof -
    from that have "k \<in> insert (next_event_id s) (fst ` set (cs_buffers s))"
      using insert_chunks_keys by force
    then show ?thesis using assms(1) by (auto simp: session_core_def intro: less_SucI)
  qed
  have queue: "co_id ev < Suc (next_event_id s)" if "ev \<in> set (capture_queue s)" for ev
    using assms(1) that by (auto simp: session_core_def intro: less_SucI)
  from assms show ?thesis
    by (auto simp: finalize_def Let_def push_sink_def session_inv_def session_core_def
        insert_chunks_distinct insert_chunks_length captures_q.push_bound
        split: sink.splits dest!: push_bounded_cases intro: keys queue)
qed

lemma finalize_preserves: "session_inv s \<Longrightarrow> session_inv (fst (finalize advance v0 s))"
  by (cases "active_name s = None") (simp_all add: finalize_idle finalize_inv session_inv_core)

lemma finalize_inactive: "\<not> is_active (fst (finalize advance v0 s))"
  by (auto simp: is_active_def finalize_def Let_def push_sink_def split: option.splits sink.splits)

lemma begin_preserves:
  "session_inv s \<Longrightarrow> session_inv (begin_capture nm target dl s)"
  by (simp add: session_inv_def begin_capture_def)

lemma feed_output_preserves:
  "session_inv s \<Longrightarrow> session_inv (fst (feed_output advance v0 bs now s))"
proof -
  assume inv: "session_inv s"
  let ?s1 = "s\<lparr>cs_bytes := cs_bytes s + length bs, cs_buffer := cs_buffer s @ [bs]\<rparr>"
  have "session_core ?s1" using inv by (simp add: session_inv_def session_core_def)
  then have "active_name s \<noteq> None \<Longrightarrow> session_inv (fst (finalize advance v0 ?s1))"
    by (intro finalize_inv) simp_all
  then show ?thesis
    using inv by (auto simp: feed_output_def Let_def session_inv_def not_less)
qed

lemma take_chunks_preserves: "session_inv s \<Longrightarrow> session_inv (fst (take_chunks ident s))"
  using length_remove_key_le [of ident "cs_buffers s"]
  by (auto simp: take_chunks_def session_inv_def distinct_remove_key fst_remove_key)

lemma flush_preserves: "session_inv s \<Longrightarrow> session_inv (fst (flush_capture advance v0 A ident s g))"
  using take_chunks_preserves [of s ident]
  by (auto simp: flush_capture_def split: prod.splits option.splits)

lemma acknowledge_preserves: "session_inv s \<Longrightarrow> session_inv (fst (acknowledge_capture A ident s g))"
  using take_chunks_preserves [of s ident]
  by (auto simp: acknowledge_capture_def split: prod.splits option.splits)

section \<open>Capturing, then flushing\<close>

text \<open>Chunks fed to an active session, each at its instant, as long as none finalizes it.\<close>

fun feed_outputs :: "('v \<Rightarrow> bytes \<Rightarrow> 'v \<times> vte_event list) \<Rightarrow> 'v \<Rightarrow> (bytes \<times> nat) list
    \<Rightarrow> capture_session \<Rightarrow> capture_session \<times> bool" where
  "feed_outputs advance v0 [] s = (s, False)"
| "feed_outputs advance v0 ((bs, now) # rest) s =
     (case feed_output advance v0 bs now s of
        (s', True) \<Rightarrow> (s', True)
      | (s', False) \<Rightarrow> feed_outputs advance v0 rest s')"

lemma feed_outputs_buffer:
  "active_name s \<noteq> None \<Longrightarrow> feed_outputs advance v0 cs s = (s', False) \<Longrightarrow>
   s' = s\<lparr>cs_bytes := cs_bytes s + sum_list (map (length \<circ> fst) cs),
          cs_buffer := cs_buffer s @ map fst cs\<rparr>"
proof (induction cs arbitrary: s)
  case (Cons c cs)
  obtain bs now where c: "c = (bs, now)" by (cases c) auto
  let ?s1 = "s\<lparr>cs_bytes := cs_bytes s + length bs, cs_buffer := cs_buffer s @ [bs]\<rparr>"
  have "feed_output advance v0 bs now s = (?s1, False)"
    using Cons.prems by (auto simp: c feed_output_def Let_def split: if_splits)
  then have "feed_outputs advance v0 cs ?s1 = (s', False)" using Cons.prems(2) by (simp add: c)
  from Cons.IH [OF _ this] Cons.prems(1) show ?case by (simp add: c add.assoc)
qed simp

lemma finalize_active:
  "active_name s = Some nm \<Longrightarrow> finalize advance v0 s = (s', ev) \<Longrightarrow>
   ev = Some \<lparr>co_id = next_event_id s, co_concept_name = nm,
              co_lines = parse_chunks advance v0 (cs_buffer s),
              co_target_pane_type = unwrap_or (active_target s) []\<rparr> \<and>
   map_of (cs_buffers s') (next_event_id s) = Some (cs_buffer s)"
  by (auto simp: finalize_def Let_def push_sink_def insert_chunks_lookup split: sink.splits)

text \<open>What flushing leaves in the grid: the emulator as if it had been fed the chunks, and the
  lines the chunks hold in the recent-lines ring.\<close>

definition same_emulator :: "'t term_grid \<Rightarrow> 't term_grid \<Rightarrow> bool" where
  "same_emulator g h \<longleftrightarrow>
     g_term g = g_term h \<and> g_strings g = g_strings h \<and> g_replies g = g_replies h"

lemma fold_send_event_same:
  "same_emulator g h \<Longrightarrow> same_emulator (fold send_event evs g) (fold send_event evs h)"
proof (induction evs arbitrary: g h)
  case (Cons e es)
  have "same_emulator (send_event e g) (send_event e h)"
    using Cons.prems by (cases e) (simp_all add: same_emulator_def)
  with Cons.IH show ?case by simp
qed simp

lemma grid_slice_same:
  "same_emulator g h \<Longrightarrow> same_emulator (grid_slice A bs g) (grid_slice A bs h)"
proof -
  assume same: "same_emulator g h"
  obtain t evs where g: "ta_advance A (g_term g) bs = (t, evs)" by force
  with same have h: "ta_advance A (g_term h) bs = (t, evs)" by (simp add: same_emulator_def)
  have "same_emulator (g\<lparr>g_term := t\<rparr>) (h\<lparr>g_term := t\<rparr>)"
    using same by (simp add: same_emulator_def)
  from fold_send_event_same [OF this] show ?thesis by (simp add: grid_slice_def g h)
qed

lemma fold_grid_slice_same:
  "same_emulator g h \<Longrightarrow> same_emulator (fold (grid_slice A) ss g) (fold (grid_slice A) ss h)"
  by (induction ss arbitrary: g h) (simp_all add: grid_slice_same)

lemma grid_feed_same:
  assumes "same_emulator g h"
  shows "same_emulator (grid_feed A bs g) (grid_feed A bs h)"
proof -
  obtain sg ss where g: "guard_feed MAX_ESCAPE_STRING_BYTES (g_strings g) bs = (sg, ss)" by force
  with assms have h: "guard_feed MAX_ESCAPE_STRING_BYTES (g_strings h) bs = (sg, ss)"
    by (simp add: same_emulator_def)
  have "same_emulator (g\<lparr>g_generation := n, g_strings := sg\<rparr>)
      (h\<lparr>g_generation := m, g_strings := sg\<rparr>)" for n m
    using assms by (simp add: same_emulator_def)
  from fold_grid_slice_same [OF this] show ?thesis
    by (simp add: grid_feed_def grid_feed_parser_def g h)
qed

lemma same_emulator_store: "same_emulator (fold store_line ls g) g"
proof (induction ls arbitrary: g)
  case (Cons l ls)
  then show ?case
    using store_line_frame unfolding same_emulator_def by (metis fold_simps(2))
qed (simp add: same_emulator_def)

lemma flush_chunks_emulator:
  "same_emulator g h \<Longrightarrow>
   same_emulator (flush_chunks advance A lp cs g) (fold (grid_feed A) cs h)"
proof (induction cs arbitrary: lp g h)
  case (Cons c cs)
  obtain lp' ls where p: "parser_feed advance lp c = (lp', ls)" by force
  have "same_emulator (fold store_line ls (grid_feed A c g)) (grid_feed A c h)"
    using same_emulator_store [of ls "grid_feed A c g"] grid_feed_same [OF Cons.prems, of A c]
    by (simp add: same_emulator_def)
  from Cons.IH [OF this] show ?case by (simp add: p)
qed simp

lemma flush_chunks_recent:
  "length (g_recent_lines g) \<le> RECENT_LINE_CAP \<Longrightarrow>
   g_recent_lines (flush_chunks advance A lp cs g) =
     last_n RECENT_LINE_CAP (g_recent_lines g @ snd (parser_feeds advance lp cs))"
proof (induction cs arbitrary: lp g)
  case (Cons c cs)
  obtain lp' ls where p: "parser_feed advance lp c = (lp', ls)" by force
  obtain lp'' ls' where q: "parser_feeds advance lp' cs = (lp'', ls')" by force
  have stored: "g_recent_lines (fold store_line ls (grid_feed A c g)) =
      last_n RECENT_LINE_CAP (g_recent_lines g @ ls)"
    using Cons.prems by (simp add: fold_store_line_recent)
  then have "length (g_recent_lines (fold store_line ls (grid_feed A c g))) \<le> RECENT_LINE_CAP"
    by (simp add: length_last_n)
  from Cons.IH [OF this, of lp'] show ?case
    by (simp add: p q stored last_n_last_n_append)
qed simp

section \<open>Properties\<close>


text \<open>A stand-in emulator that records the bytes it is advanced over.\<close>

definition recording_term :: "bytes term_api" where
  "recording_term = \<lparr>ta_new = (\<lambda>_ _ _. []), ta_advance = (\<lambda>t bs. (t @ bs, [])),
     ta_resize = (\<lambda>_ _ t. t), ta_alt_screen = (\<lambda>_. False), ta_show_cursor = (\<lambda>_. True),
     ta_cursor_viewport = (\<lambda>_. None), ta_display_offset = (\<lambda>_. 0), ta_history_size = (\<lambda>_. 0)\<rparr>"


text \<open>Acknowledging a capture feeds the grid nothing of it but the prompt: the bytes after
  the last newline of the buffered chunks, on a fresh line, or all of them when they hold none;
  an empty tail and an unknown id change nothing.\<close>

theorem acknowledge_shows_only_prompt:
  assumes "map_of (cs_buffers s) ident = Some chunks"
  shows "(concat chunks = body @ [LF] @ prompt \<and> LF \<notin> set prompt \<longrightarrow>
      snd (acknowledge_capture A ident s g) =
        (if prompt = [] then g else grid_feed A prompt (grid_feed A [CR, LF] g))) \<and>
    (LF \<notin> set (concat chunks) \<longrightarrow>
      snd (acknowledge_capture A ident s g) =
        grid_feed A (concat chunks) (grid_feed A [CR, LF] g)) \<and>
    map_of (cs_buffers (fst (acknowledge_capture A ident s g))) ident = None"
proof (intro conjI impI)
  assume split: "concat chunks = body @ [LF] @ prompt \<and> LF \<notin> set prompt"
  moreover from split have "takeWhile (\<lambda>b. b \<noteq> LF) (rev prompt @ LF # rev body) = rev prompt"
    by (subst takeWhile_append2) auto
  ultimately have "after_last_newline (concat chunks) = Some prompt"
    by (simp add: after_last_newline_def)
  then show "snd (acknowledge_capture A ident s g) =
      (if prompt = [] then g else grid_feed A prompt (grid_feed A [CR, LF] g))"
    using assms by (simp add: acknowledge_capture_def take_chunks_def)
next
  assume "LF \<notin> set (concat chunks)"
  then have "after_last_newline (concat chunks) = None"
    unfolding after_last_newline_def by simp
  then show "snd (acknowledge_capture A ident s g) =
      grid_feed A (concat chunks) (grid_feed A [CR, LF] g)"
    using assms by (simp add: acknowledge_capture_def take_chunks_def)
next
  show "map_of (cs_buffers (fst (acknowledge_capture A ident s g))) ident = None"
    using assms
    by (auto simp: acknowledge_capture_def take_chunks_def remove_key_def map_of_eq_None_iff)
qed

theorem acknowledge_shows_only_prompt_witness:
  "snd (acknowledge_capture recording_term 0
      ((session_new [])\<lparr>cs_buffers := [(0, [''out'' @ [LF], ''$ ''])]\<rparr>) (grid_new recording_term 2 2 10)) =
   grid_feed recording_term ''$ '' (grid_feed recording_term [CR, LF] (grid_new recording_term 2 2 10))"
  using acknowledge_shows_only_prompt
    [of "(session_new [])\<lparr>cs_buffers := [(0, [''out'' @ [LF], ''$ ''])]\<rparr>" 0
      "[''out'' @ [LF], ''$ '']" "''out''" "''$ ''" recording_term "grid_new recording_term 2 2 10"]
  by simp

text \<open>The orphan queue after a pane is torn down.\<close>

lemma session_after_finalize_queues:
  "length (orphaned s) \<le> MAX_BUFFERED_CAPTURES \<Longrightarrow>
   finalize_to advance v0 Orphan_Queue s = (s', ev) \<Longrightarrow>
   orphaned s' = last_n MAX_BUFFERED_CAPTURES
     (orphaned s @ (case ev of Some e \<Rightarrow> [e] | None \<Rightarrow> [])) \<and> capture_queue s' = capture_queue s"
  by (auto simp: finalize_to_def finalize_def Let_def push_sink_def captures_q.push_last_n
      split: option.splits)

text \<open>Tearing a pane down loses no capture the bounded orphan queue can hold: the capture in
  flight is finalized with everything buffered, and it and the events nobody polled are appended
  to the orphan queue, which keeps the newest 64 in order; the pane's queue is empty and no
  capture is left active.\<close>

theorem pane_teardown_keeps_captures:
  assumes "session_inv s"
  shows "orphaned (spawned_drop advance v0 s) =
      last_n MAX_BUFFERED_CAPTURES (orphaned s
        @ (case active_name s of
             None \<Rightarrow> []
           | Some nm \<Rightarrow> [\<lparr>co_id = next_event_id s, co_concept_name = nm,
                         co_lines = parse_chunks advance v0 (cs_buffer s),
                         co_target_pane_type = unwrap_or (active_target s) []\<rparr>])
        @ capture_queue s) \<and>
    capture_queue (spawned_drop advance v0 s) = [] \<and>
    \<not> is_active (spawned_drop advance v0 s)"
proof -
  obtain s1 ev where fin: "finalize_to advance v0 Orphan_Queue s = (s1, ev)" by force
  have bound: "length (orphaned s) \<le> MAX_BUFFERED_CAPTURES"
    using assms by (simp add: session_inv_def)
  from session_after_finalize_queues [OF bound fin]
  have q: "orphaned s1 = last_n MAX_BUFFERED_CAPTURES
      (orphaned s @ (case ev of Some e \<Rightarrow> [e] | None \<Rightarrow> []))" "capture_queue s1 = capture_queue s"
    by auto
  have ev: "ev = map_option (\<lambda>nm. \<lparr>co_id = next_event_id s, co_concept_name = nm,
      co_lines = parse_chunks advance v0 (cs_buffer s),
      co_target_pane_type = unwrap_or (active_target s) []\<rparr>) (active_name s)"
    using fin finalize_active [of "s\<lparr>cs_sink := Orphan_Queue\<rparr>" _ advance v0 s1 ev]
    by (cases "active_name s") (auto simp: finalize_to_def finalize_idle)
  have "length (orphaned s1) \<le> MAX_BUFFERED_CAPTURES" by (simp add: q length_last_n)
  then have "fold push_bounded (capture_queue s1) (orphaned s1) =
      last_n MAX_BUFFERED_CAPTURES (orphaned s
        @ (case ev of Some e \<Rightarrow> [e] | None \<Rightarrow> []) @ capture_queue s)"
    by (simp add: captures_q.fold_push q last_n_last_n_append)
  moreover have "\<not> is_active s1"
    using finalize_inactive [of advance v0 "s\<lparr>cs_sink := Orphan_Queue\<rparr>"] fin
    by (simp add: finalize_to_def)
  ultimately show ?thesis
    by (cases "active_name s") (simp_all add: spawned_drop_def fin ev is_active_def Let_def)
qed

theorem pane_teardown_keeps_captures_witness:
  "map co_concept_name (orphaned (spawned_drop plain_advance ()
     (begin_capture ''c'' ''wiki'' 300 (session_new [])))) = [''c'']"
  using pane_teardown_keeps_captures
    [of "begin_capture ''c'' ''wiki'' 300 (session_new [])" plain_advance "()"]
    begin_preserves [OF session_inv_new [of "[]"]]
  by (simp add: begin_capture_def session_new_def MAX_BUFFERED_CAPTURES_def)

end
