(* ===== verification/Terminal_Task.thy ===== *)
theory Terminal_Task
  imports Capture_Session
begin

text \<open>
  The terminal task of \<open>crates/gpty-core/src/engine.rs\<close>: the loop of \<open>run_terminal_task\<close>, one
  step per arm of its \<open>select!\<close>, its exit path, and the status document of
  \<open>SpawnedTerminal\<close>.  A step takes the instant at which the arm runs (milliseconds of the
  monotonic clock) and, where the arm reads it, the wall clock.  What the PTY and the child
  answer are parts of the event; what is written to the PTY is recorded in order.  The grid
  is always present: the only caller of the task passes one.
\<close>

section \<open>The task\<close>

datatype stdin_input =
    Line str
  | Raw bytes
  | Resize nat nat
  | Flush_Capture nat
  | Acknowledge_Capture nat

text \<open>What the handle is asked to do: \<open>write_line\<close> queues the line and then a CR.\<close>

datatype pty_op = Op_Write bytes | Op_Resize nat nat

definition EXIT_DRAIN_QUIET_MS :: nat where "EXIT_DRAIN_QUIET_MS = 500"
definition POST_RESIZE_CONCEPT_SUPPRESS_MS :: nat where "POST_RESIZE_CONCEPT_SUPPRESS_MS = 750"
definition INACTIVE_DURATION :: nat where "INACTIVE_DURATION = 86400 * 365 * 1000"
definition MAX_NOTICES :: nat where "MAX_NOTICES = 64"

text \<open>The parameters: the \<open>vte\<close> parser and its initial state, the emulator, the regex crate,
  and the tier-3 patterns' matching.\<close>

record ('v, 't, 'r, 's) env =
  e_advance :: "'v \<Rightarrow> bytes \<Rightarrow> 'v \<times> vte_event list"
  e_v0 :: 'v
  e_term :: "'t term_api"
  e_regex :: "('r, 's) regex_api"
  e_tier3 :: "str \<Rightarrow> str \<Rightarrow> bool"

record ('v, 't, 'r, 's) task =
  t_matcher :: "('r, 's) concept_matcher"
  t_session :: capture_session
  t_notices :: "concept_notice list"
  t_suppress_until :: "nat option"
  t_line_parser :: "'v line_parser"
  t_grid :: "'t term_grid"
  t_timeout :: nat
  t_child_exit :: "int option"
  t_exit_quiet_until :: "nat option"
  t_ended :: bool
  t_pty :: "pty_op list"

datatype task_event =
    Child_Poll nat "int option" "bool option"
      \<comment> \<open>now, \<open>try_wait\<close>, \<open>foreground_job\<close>\<close>
  | Timeout nat
  | Pty_Data bytes nat nat
      \<comment> \<open>the chunk, now, the wall clock\<close>
  | Pty_Closed
  | Stdin stdin_input nat
  | Stdin_Closed

definition task_start :: "('v, 't, 'r, 's) env \<Rightarrow> ('r, 's) concept_matcher \<Rightarrow> 't term_grid
    \<Rightarrow> captured_output list \<Rightarrow> nat option \<Rightarrow> nat \<Rightarrow> nat \<Rightarrow> ('v, 't, 'r, 's) task" where
  \<comment> \<open>the last three arguments: the child's pid, now, the wall clock\<close>
  "task_start E m g orphans pid now unix =
     \<lparr>t_matcher = m, t_session = session_new orphans, t_notices = [], t_suppress_until = None,
      t_line_parser = parser_new (e_v0 E),
      t_grid = g\<lparr>g_status := (g_status g)\<lparr>st_pid := pid, st_started_unix_ms := unix\<rparr>\<rparr>,
      t_timeout = now + INACTIVE_DURATION, t_child_exit = None, t_exit_quiet_until = None,
      t_ended = False, t_pty = []\<rparr>"

section \<open>Matching\<close>

definition concept_match_suppressed :: "nat option \<Rightarrow> nat \<Rightarrow> bool" where
  "concept_match_suppressed dl now = (case dl of Some d \<Rightarrow> now < d | None \<Rightarrow> False)"

definition push_notice :: "concept_notice \<Rightarrow> concept_notice list \<Rightarrow> concept_notice list" where
  "push_notice n ns = (if MAX_NOTICES \<le> length ns then tl ns else ns) @ [n]"

definition apply_match :: "nat \<Rightarrow> verdict option \<Rightarrow> ('v, 't, 'r, 's) task
    \<Rightarrow> ('v, 't, 'r, 's) task \<times> nat option" where
  "apply_match now matched t =
     (case matched of
        None \<Rightarrow> (t, None)
      | Some (nm, mode, target) \<Rightarrow>
          (case mode of
             Single_Line \<Rightarrow>
               (t\<lparr>t_notices := push_notice \<lparr>cn_concept_name = nm\<rparr> (t_notices t)\<rparr>, None)
           | Until_Stop ms _ \<Rightarrow>
               if \<not> is_active (t_session t)
               then (t\<lparr>t_session := begin_capture nm target (now + ms) (t_session t)\<rparr>, Some (now + ms))
               else (t, None)))"

text \<open>\<open>if let Some(deadline) = ctx.apply_match(matched) { timeout_sleep.reset(deadline) }\<close>\<close>

definition apply_and_arm :: "nat \<Rightarrow> verdict option \<Rightarrow> ('v, 't, 'r, 's) task
    \<Rightarrow> ('v, 't, 'r, 's) task" where
  "apply_and_arm now matched t =
     (case apply_match now matched t of
        (t', Some dl) \<Rightarrow> t'\<lparr>t_timeout := dl\<rparr>
      | (t', None) \<Rightarrow> t')"

fun match_lines :: "('v, 't, 'r, 's) env \<Rightarrow> nat \<Rightarrow> str list \<Rightarrow> ('v, 't, 'r, 's) task
    \<Rightarrow> ('v, 't, 'r, 's) task" where
  "match_lines E now [] t = t"
| "match_lines E now (l # ls) t =
     (if MAX_LINE_LEN < length l then match_lines E now ls t
      else match_lines E now ls
        (apply_and_arm now (matcher_match_line (e_regex E) (t_matcher t) l) t))"

section \<open>Agent state from output\<close>

definition declare_tier2 :: "agent_state option \<Rightarrow> nat \<Rightarrow> agent_tracker \<Rightarrow> agent_tracker" where
  "declare_tier2 declared unix tr =
     (case declared of
        None \<Rightarrow> tr
      | Some s \<Rightarrow>
          (if (case last_declaration_unix_ms tr of
                 Some prev \<Rightarrow> DECLARATION_MIN_INTERVAL_MS \<le> unix - prev | None \<Rightarrow> True)
           then (fst (observe Tier2 s unix tr))\<lparr>last_declaration_unix_ms := Some unix\<rparr>
           else tr))"

definition observe_tier3 :: "(str \<Rightarrow> str \<Rightarrow> bool) \<Rightarrow> str list \<Rightarrow> nat \<Rightarrow> agent_tracker \<Rightarrow> agent_tracker" where
  "observe_tier3 rx ls unix tr =
     (let tr1 = (if list_ex (\<lambda>l. length l \<le> MAX_LINE_LEN \<and> tier3_failure_match rx l) ls
                 then (fst (observe Tier3 Failed unix tr))\<lparr>last_t3_signal_unix_ms := Some unix\<rparr>
                 else tr)
      in fst (decay_t3 unix TIER3_TTL_MS tr1))"

section \<open>The arms of the loop\<close>

definition on_child_poll :: "nat \<Rightarrow> int option \<Rightarrow> bool option \<Rightarrow> ('v, 't, 'r, 's) task
    \<Rightarrow> ('v, 't, 'r, 's) task" where
  "on_child_poll now waited fg t =
     (if t_child_exit t = None then
        (let g1 = (t_grid t)\<lparr>g_status := (g_status (t_grid t))\<lparr>st_foreground_job := fg\<rparr>\<rparr>;
             t1 = t\<lparr>t_grid := g1, t_child_exit := waited\<rparr>
         in if waited \<noteq> None
            then t1\<lparr>t_grid := g1\<lparr>g_status := (g_status g1)\<lparr>st_child_alive := False\<rparr>\<rparr>,
                    t_exit_quiet_until := Some (now + EXIT_DRAIN_QUIET_MS)\<rparr>
            else t1)
      else if (case t_exit_quiet_until t of Some d \<Rightarrow> d \<le> now | None \<Rightarrow> False)
      then t\<lparr>t_ended := True\<rparr>
      else t)"

definition on_timeout :: "('v, 't, 'r, 's) env \<Rightarrow> nat \<Rightarrow> ('v, 't, 'r, 's) task
    \<Rightarrow> ('v, 't, 'r, 's) task" where
  "on_timeout E now t =
     (let t1 = (if is_active (t_session t)
                then t\<lparr>t_session := fst (finalize (e_advance E) (e_v0 E) (t_session t))\<rparr> else t)
      in t1\<lparr>t_timeout := now + INACTIVE_DURATION\<rparr>)"

text \<open>A chunk while a capture is active: the grid sees none of it.\<close>

definition on_data_capturing :: "('v, 't, 'r, 's) env \<Rightarrow> bytes \<Rightarrow> nat \<Rightarrow> ('v, 't, 'r, 's) task
    \<Rightarrow> ('v, 't, 'r, 's) task" where
  "on_data_capturing E bs now t =
     (if concept_match_suppressed (t_suppress_until t) now then t
      else (case feed_output (e_advance E) (e_v0 E) bs now (t_session t) of
          (s, True) \<Rightarrow> t\<lparr>t_session := s, t_timeout := now + INACTIVE_DURATION\<rparr>
        | (s, False) \<Rightarrow>
            (let t1 = t\<lparr>t_session := s\<rparr>
             in (case deadline s of Some d \<Rightarrow> t1\<lparr>t_timeout := d\<rparr> | None \<Rightarrow> t1))))"

text \<open>A chunk in normal mode: match its lines, update the agent state, feed and store.\<close>

definition on_data_normal :: "('v, 't, 'r, 's) env \<Rightarrow> bytes \<Rightarrow> str list \<Rightarrow> agent_state option
    \<Rightarrow> nat \<Rightarrow> nat \<Rightarrow> ('v, 't, 'r, 's) task \<Rightarrow> ('v, 't, 'r, 's) task" where
  "on_data_normal E bs ls declared now unix t =
     (let t1 = (if \<not> is_alt_screen (e_term E) (t_grid t)
                   \<and> \<not> concept_match_suppressed (t_suppress_until t) now
                then (let t' = match_lines E now ls t;
                          tr = g_agent_state (t_grid t');
                          tr' = observe_tier3 (e_tier3 E) ls unix (declare_tier2 declared unix tr)
                      in t'\<lparr>t_grid := (t_grid t')\<lparr>g_agent_state := tr'\<rparr>\<rparr>)
                else t)
      in t1\<lparr>t_grid := fold store_line ls (grid_feed (e_term E) bs (t_grid t1))\<rparr>)"

definition on_pty_data :: "('v, 't, 'r, 's) env \<Rightarrow> bytes \<Rightarrow> nat \<Rightarrow> nat \<Rightarrow> ('v, 't, 'r, 's) task
    \<Rightarrow> ('v, 't, 'r, 's) task" where
  "on_pty_data E bs now unix t =
     (let g = t_grid t;
          t1 = t\<lparr>t_exit_quiet_until := (if t_child_exit t \<noteq> None
                   then Some (now + EXIT_DRAIN_QUIET_MS) else t_exit_quiet_until t),
                 t_grid := g\<lparr>g_status := (g_status g)\<lparr>st_last_output_unix_ms := Some unix\<rparr>\<rparr>\<rparr>
      in (case parser_feed (e_advance E) (t_line_parser t1) bs of
            (lp1, ls) \<Rightarrow>
              (case take_declared_state lp1 of
                 (lp2, declared) \<Rightarrow>
                   (let t2 = t1\<lparr>t_line_parser := lp2\<rparr>
                    in if is_active (t_session t2) then on_data_capturing E bs now t2
                       else on_data_normal E bs ls declared now unix t2))))"

text \<open>Input from outside: stop an active capture on real user input, then act.\<close>

definition stop_on_user_input :: "('v, 't, 'r, 's) env \<Rightarrow> stdin_input \<Rightarrow> nat
    \<Rightarrow> ('v, 't, 'r, 's) task \<Rightarrow> ('v, 't, 'r, 's) task" where
  "stop_on_user_input E inp now t =
     (let is_user_input = (case inp of Line _ \<Rightarrow> True | Raw _ \<Rightarrow> True | _ \<Rightarrow> False)
      in if is_user_input \<and> is_active (t_session t) \<and> stops_on_input (t_matcher t) (t_session t)
         then t\<lparr>t_session := fst (finalize (e_advance E) (e_v0 E) (t_session t)),
                t_timeout := now + INACTIVE_DURATION\<rparr>
         else t)"

fun act_on_input :: "('v, 't, 'r, 's) env \<Rightarrow> stdin_input \<Rightarrow> nat \<Rightarrow> ('v, 't, 'r, 's) task
    \<Rightarrow> ('v, 't, 'r, 's) task" where
  "act_on_input E (Line l) now t =
     (let t1 = (if \<not> is_active (t_session t) \<and> length l \<le> MAX_LINE_LEN
                then apply_and_arm now (matcher_match_line (e_regex E) (t_matcher t) l) t else t)
      in t1\<lparr>t_pty := t_pty t1 @ [Op_Write l, Op_Write [CR]]\<rparr>)"
| "act_on_input E (Raw bs) now t = t\<lparr>t_pty := t_pty t @ [Op_Write bs]\<rparr>"
| "act_on_input E (Resize nrows ncols) now t =
     t\<lparr>t_pty := t_pty t @ [Op_Resize nrows ncols],
       t_grid := grid_resize (e_term E) nrows ncols (t_grid t),
       t_suppress_until := Some (now + POST_RESIZE_CONCEPT_SUPPRESS_MS)\<rparr>"
| "act_on_input E (Flush_Capture ident) now t =
     (case flush_capture (e_advance E) (e_v0 E) (e_term E) ident (t_session t) (t_grid t) of
        (s, g) \<Rightarrow> t\<lparr>t_session := s, t_grid := g\<rparr>)"
| "act_on_input E (Acknowledge_Capture ident) now t =
     (case acknowledge_capture (e_term E) ident (t_session t) (t_grid t) of
        (s, g) \<Rightarrow> t\<lparr>t_session := s, t_grid := g\<rparr>)"

fun run_arm :: "('v, 't, 'r, 's) env \<Rightarrow> task_event \<Rightarrow> ('v, 't, 'r, 's) task
    \<Rightarrow> ('v, 't, 'r, 's) task" where
  "run_arm E (Child_Poll now waited fg) t = on_child_poll now waited fg t"
| "run_arm E (Timeout now) t = on_timeout E now t"
| "run_arm E (Pty_Data bs now unix) t = on_pty_data E bs now unix t"
| "run_arm E Pty_Closed t = t\<lparr>t_ended := True\<rparr>"
| "run_arm E (Stdin inp now) t = act_on_input E inp now (stop_on_user_input E inp now t)"
| "run_arm E Stdin_Closed t = t\<lparr>t_ended := True\<rparr>"

text \<open>After an arm that did not leave the loop: the emulator's replies go to the child.\<close>

definition deliver_replies :: "('v, 't, 'r, 's) task \<Rightarrow> ('v, 't, 'r, 's) task" where
  "deliver_replies t =
     (case drain_replies (t_grid t) of
        (g, replies) \<Rightarrow> t\<lparr>t_grid := g, t_pty := t_pty t @ map Op_Write replies\<rparr>)"

definition task_step :: "('v, 't, 'r, 's) env \<Rightarrow> task_event \<Rightarrow> ('v, 't, 'r, 's) task
    \<Rightarrow> ('v, 't, 'r, 's) task" where
  "task_step E ev t =
     (if t_ended t then t
      else (let t1 = run_arm E ev t in if t_ended t1 then t1 else deliver_replies t1))"

text \<open>The exit path after the loop; \<open>exit_code\<close> is what the bounded polling of the child
  answers, \<open>None\<close> if it never does.\<close>

definition task_exit :: "('v, 't, 'r, 's) env \<Rightarrow> int option \<Rightarrow> nat \<Rightarrow> ('v, 't, 'r, 's) task
    \<Rightarrow> ('v, 't, 'r, 's) task" where
  "task_exit E exit_code unix t =
     (let g = t_grid t;
          g1 = g\<lparr>g_status := (g_status g)\<lparr>st_exit_code := exit_code,
                                         st_child_alive := (exit_code = None)\<rparr>\<rparr>;
          g2 = (case exit_code of
                  Some c \<Rightarrow> if c \<noteq> 0
                    then g1\<lparr>g_agent_state := fst (observe Tier3 Failed unix (g_agent_state g1))\<rparr>
                    else g1
                | None \<Rightarrow> g1)
      in t\<lparr>t_session := fst (finalize (e_advance E) (e_v0 E) (t_session t)), t_grid := g2\<rparr>)"

section \<open>The handle\<close>

datatype exit_reason = Exited | Task_Ended

record status_doc =
  sd_pid :: "nat option"
  sd_running :: bool
  sd_exit_code :: "int option"
  sd_exit_reason :: "exit_reason option"
  sd_idle_ms :: "nat option"
  sd_foreground_job :: "bool option"
  sd_child_alive :: bool
  sd_agent_state :: str
  sd_agent_state_tier :: "nat option"

text \<open>The fields of \<open>status_json\<close>; \<open>finished\<close> is \<open>task_finished\<close>.\<close>

definition status_doc_of :: "bool \<Rightarrow> nat \<Rightarrow> 't term_grid \<Rightarrow> status_doc" where
  "status_doc_of finished unix g =
     (let s = g_status g; task_alive = (\<not> finished)
      in \<lparr>sd_pid = st_pid s,
          sd_running = (st_exit_code s = None \<and> task_alive),
          sd_exit_code = st_exit_code s,
          sd_exit_reason = (case (st_exit_code s, task_alive) of
              (Some _, _) \<Rightarrow> Some Exited | (None, False) \<Rightarrow> Some Task_Ended | (None, True) \<Rightarrow> None),
          sd_idle_ms = map_option (\<lambda>t. unix - t) (st_last_output_unix_ms s),
          sd_foreground_job = st_foreground_job s,
          sd_child_alive = st_child_alive s,
          sd_agent_state = as_str (state (g_agent_state g)),
          sd_agent_state_tier = map_option tier_no (tier (g_agent_state g))\<rparr>)"

text \<open>\<open>SpawnedTerminal::resize\<close>: the input it sends, if any, and whether it holds the size.\<close>

definition spawned_resize :: "'t term_api \<Rightarrow> nat \<Rightarrow> nat \<Rightarrow> 't term_grid
    \<Rightarrow> 't term_grid \<times> stdin_input option" where
  "spawned_resize A nrows ncols g =
     (if g_rows g = nrows \<and> g_cols g = ncols then (g, None)
      else (grid_resize A nrows ncols g, Some (Resize (nrows mod 65536) (ncols mod 65536))))"

interpretation notices_q: drop_oldest push_notice MAX_NOTICES
  by unfold_locales (auto simp: push_notice_def MAX_NOTICES_def)

section \<open>The task's invariant\<close>

text \<open>The session is well formed, an active capture has its timeout armed at its deadline, and
  what the task keeps in memory is bounded.\<close>

definition armed :: "('v, 't, 'r, 's) task \<Rightarrow> bool" where
  "armed t \<longleftrightarrow> (is_active (t_session t) \<longrightarrow> deadline (t_session t) = Some (t_timeout t))"

definition task_inv :: "('v, 't, 'r, 's) task \<Rightarrow> bool" where
  "task_inv t \<longleftrightarrow> session_inv (t_session t) \<and> armed t \<and> length (t_notices t) \<le> MAX_NOTICES \<and>
     length (g_recent_lines (t_grid t)) \<le> RECENT_LINE_CAP"

lemma task_start_inv:
  "length orphans \<le> MAX_BUFFERED_CAPTURES \<Longrightarrow> length (g_recent_lines g) \<le> RECENT_LINE_CAP \<Longrightarrow>
   task_inv (task_start E m g orphans pid now unix)"
  by (simp add: task_inv_def task_start_def session_inv_new armed_def)
    (simp add: is_active_def session_new_def)

lemma session_inv_active_deadline:
  "session_inv s \<Longrightarrow> is_active s \<Longrightarrow> \<exists>d. deadline s = Some d"
  by (auto simp: session_inv_def is_active_def)

lemma apply_and_arm_inv: "task_inv t \<Longrightarrow> task_inv (apply_and_arm now v t)"
  by (auto simp: apply_and_arm_def apply_match_def task_inv_def armed_def begin_preserves
      notices_q.push_bound split: option.splits capture_mode.splits if_splits)
    (auto simp: begin_capture_def)

lemma match_lines_inv: "task_inv t \<Longrightarrow> task_inv (match_lines E now ls t)"
  by (induction E now ls t rule: match_lines.induct) (simp_all add: apply_and_arm_inv)

lemma apply_and_arm_frame [simp]:
  "t_grid (apply_and_arm now v t) = t_grid t" "t_pty (apply_and_arm now v t) = t_pty t"
  "t_matcher (apply_and_arm now v t) = t_matcher t"
  "t_ended (apply_and_arm now v t) = t_ended t"
  by (simp_all add: apply_and_arm_def apply_match_def split: option.splits capture_mode.splits)

lemma match_lines_frame [simp]:
  "t_grid (match_lines E now ls t) = t_grid t \<and> t_pty (match_lines E now ls t) = t_pty t \<and>
   t_ended (match_lines E now ls t) = t_ended t"
  by (induction E now ls t rule: match_lines.induct) simp_all

text \<open>Steps that only touch the grid's other fields keep the invariant.\<close>

lemma task_inv_cong:
  "t_session t = t_session u \<Longrightarrow> t_timeout t = t_timeout u \<Longrightarrow> t_notices t = t_notices u \<Longrightarrow>
   length (g_recent_lines (t_grid t)) \<le> RECENT_LINE_CAP \<Longrightarrow> task_inv u \<Longrightarrow> task_inv t"
  by (simp add: task_inv_def armed_def)

lemma task_inv_recent: "task_inv t \<Longrightarrow> length (g_recent_lines (t_grid t)) \<le> RECENT_LINE_CAP"
  by (simp add: task_inv_def)

lemma finalize_arm_inv:
  "task_inv t \<Longrightarrow> task_inv (t\<lparr>t_session := fst (finalize adv v0 (t_session t)), t_timeout := d\<rparr>)"
  by (simp add: task_inv_def armed_def finalize_preserves finalize_inactive)

lemma on_child_poll_inv: "task_inv t \<Longrightarrow> task_inv (on_child_poll now waited fg t)"
  by (rule task_inv_cong [where u = t])
    (simp_all add: on_child_poll_def Let_def task_inv_recent)

lemma on_timeout_inv: "task_inv t \<Longrightarrow> task_inv (on_timeout E now t)"
  by (simp add: on_timeout_def Let_def finalize_arm_inv) (simp add: task_inv_def armed_def)

lemma on_data_capturing_inv: "task_inv t \<Longrightarrow> task_inv (on_data_capturing E bs now t)"
proof (cases "concept_match_suppressed (t_suppress_until t) now")
  case False
  assume inv: "task_inv t"
  obtain s fin where f: "feed_output (e_advance E) (e_v0 E) bs now (t_session t) = (s, fin)" by force
  have s: "session_inv s"
    using inv feed_output_preserves [of "t_session t" "e_advance E" "e_v0 E" bs now] f
    by (simp add: task_inv_def)
  have "fin \<Longrightarrow> \<not> is_active s"
    using f by (auto simp: feed_output_def Let_def finalize_inactive split: if_splits)
  then show ?thesis
    using False inv s session_inv_active_deadline [OF s]
    by (cases fin) (auto simp: on_data_capturing_def f task_inv_def armed_def Let_def
        split: option.splits)
qed (simp add: on_data_capturing_def)

lemma fold_store_recent_bound:
  "length (g_recent_lines g) \<le> RECENT_LINE_CAP \<Longrightarrow>
   length (g_recent_lines (fold store_line ls g)) \<le> RECENT_LINE_CAP"
  by (simp add: fold_store_line_recent length_last_n)

lemma on_data_normal_inv:
  assumes "task_inv t"
  shows "task_inv (on_data_normal E bs ls declared now unix t)"
proof (cases "\<not> is_alt_screen (e_term E) (t_grid t)
    \<and> \<not> concept_match_suppressed (t_suppress_until t) now")
  case True
  have inv: "task_inv (match_lines E now ls t)" using assms by (rule match_lines_inv)
  show ?thesis
    by (rule task_inv_cong [OF _ _ _ _ inv])
      (simp_all add: on_data_normal_def True Let_def fold_store_recent_bound task_inv_recent [OF assms])
next
  case False
  show ?thesis
    by (rule task_inv_cong [OF _ _ _ _ assms])
      (use False in \<open>auto simp: on_data_normal_def Let_def fold_store_recent_bound
        task_inv_recent [OF assms]\<close>)
qed

lemma on_pty_data_inv: "task_inv t \<Longrightarrow> task_inv (on_pty_data E bs now unix t)"
proof -
  assume inv: "task_inv t"
  have "task_inv (t\<lparr>t_exit_quiet_until := q,
      t_grid := (t_grid t)\<lparr>g_status := st\<rparr>, t_line_parser := lp\<rparr>)" for q st lp
    using inv by (simp add: task_inv_def armed_def)
  moreover have "task_inv (t\<lparr>t_grid := (t_grid t)\<lparr>g_status := st\<rparr>, t_line_parser := lp\<rparr>)" for st lp
    using inv by (simp add: task_inv_def armed_def)
  ultimately show ?thesis
    by (auto simp: on_pty_data_def take_declared_state_def Let_def split: prod.splits
        intro!: on_data_capturing_inv on_data_normal_inv)
qed

lemma grid_resize_recent: "g_recent_lines (grid_resize A r c g) = g_recent_lines g"
  by (simp add: grid_resize_def Let_def grid_feed_parser_def fold_grid_slice_frame split: prod.splits)

lemma flush_chunks_bound:
  "length (g_recent_lines g) \<le> RECENT_LINE_CAP \<Longrightarrow>
   length (g_recent_lines (flush_chunks adv A lp cs g)) \<le> RECENT_LINE_CAP"
  by (simp add: flush_chunks_recent length_last_n)

lemma flush_session_frame:
  "active_name (fst (flush_capture adv v0 A i s g)) = active_name s"
  "deadline (fst (flush_capture adv v0 A i s g)) = deadline s"
  "active_name (fst (acknowledge_capture A i s g)) = active_name s"
  "deadline (fst (acknowledge_capture A i s g)) = deadline s"
  by (simp_all add: flush_capture_def acknowledge_capture_def take_chunks_def split: option.splits)

lemma act_on_input_inv: "task_inv t \<Longrightarrow> task_inv (act_on_input E inp now t)"
proof (cases inp)
  case (Line l)
  assume inv: "task_inv t"
  then show ?thesis
    using apply_and_arm_inv [OF inv, of now "matcher_match_line (e_regex E) (t_matcher t) l"] Line
    by (simp add: Let_def task_inv_def armed_def)
next
  case (Flush_Capture i)
  assume inv: "task_inv t"
  obtain s g where f: "flush_capture (e_advance E) (e_v0 E) (e_term E) i (t_session t) (t_grid t)
      = (s, g)" by force
  have "length (g_recent_lines g) \<le> RECENT_LINE_CAP"
    using f task_inv_recent [OF inv]
    by (auto simp: flush_capture_def take_chunks_def flush_chunks_bound split: option.splits)
  then show ?thesis
    using inv f Flush_Capture flush_session_frame(1,2) [of "e_advance E" "e_v0 E" "e_term E" i
        "t_session t" "t_grid t"]
      flush_preserves [where s = "t_session t" and g = "t_grid t" and A = "e_term E" and ident = i
        and advance = "e_advance E" and ?v0.0 = "e_v0 E"]
    by (auto simp: task_inv_def armed_def is_active_def)
next
  case (Acknowledge_Capture i)
  assume inv: "task_inv t"
  obtain s g where f: "acknowledge_capture (e_term E) i (t_session t) (t_grid t) = (s, g)" by force
  have "length (g_recent_lines g) \<le> RECENT_LINE_CAP"
    using f task_inv_recent [OF inv]
    by (auto simp: acknowledge_capture_def take_chunks_def split: option.splits if_splits)
  then show ?thesis
    using inv f Acknowledge_Capture flush_session_frame(3,4) [of "e_term E" i "t_session t" "t_grid t"]
      acknowledge_preserves [where s = "t_session t" and g = "t_grid t" and A = "e_term E"
        and ident = i]
    by (auto simp: task_inv_def armed_def is_active_def)
qed (simp_all add: task_inv_def armed_def grid_resize_recent)

lemma stop_on_user_input_inv: "task_inv t \<Longrightarrow> task_inv (stop_on_user_input E inp now t)"
  using finalize_arm_inv by (auto simp: stop_on_user_input_def Let_def)

lemma run_arm_inv: "task_inv t \<Longrightarrow> task_inv (run_arm E ev t)"
proof (cases ev)
  case Pty_Closed
  then show "task_inv t \<Longrightarrow> ?thesis" by (simp add: task_inv_def armed_def)
next
  case Stdin_Closed
  then show "task_inv t \<Longrightarrow> ?thesis" by (simp add: task_inv_def armed_def)
qed (simp_all add: on_child_poll_inv on_timeout_inv on_pty_data_inv act_on_input_inv
    stop_on_user_input_inv)

lemma task_step_inv: "task_inv t \<Longrightarrow> task_inv (task_step E ev t)"
proof -
  assume "task_inv t"
  then have inv: "task_inv (run_arm E ev t)" by (rule run_arm_inv)
  then have "task_inv (deliver_replies (run_arm E ev t))"
    by (simp add: deliver_replies_def drain_replies_def task_inv_def armed_def)
  with inv \<open>task_inv t\<close> show ?thesis by (simp add: task_step_def Let_def)
qed

text \<open>Runs: a timeout fires only at its instant or later.\<close>

definition enabled :: "task_event \<Rightarrow> ('v, 't, 'r, 's) task \<Rightarrow> bool" where
  "enabled ev t = (case ev of Timeout now \<Rightarrow> t_timeout t \<le> now | _ \<Rightarrow> True)"

inductive task_reachable :: "('v, 't, 'r, 's) env \<Rightarrow> ('v, 't, 'r, 's) task
    \<Rightarrow> ('v, 't, 'r, 's) task \<Rightarrow> bool" for E where
  start: "task_reachable E t t"
| step: "task_reachable E t u \<Longrightarrow> enabled ev u \<Longrightarrow> task_reachable E t (task_step E ev u)"

lemma task_reachable_inv: "task_reachable E t u \<Longrightarrow> task_inv t \<Longrightarrow> task_inv u"
  by (induction rule: task_reachable.induct) (simp_all add: task_step_inv)

section \<open>Properties\<close>

text \<open>A concrete environment: the plain parser, the recording emulator, literal patterns.\<close>

definition plain_env :: "(unit, bytes, str, str list) env" where
  "plain_env = \<lparr>e_advance = plain_advance, e_v0 = (), e_term = recording_term,
     e_regex = literal_regex, e_tier3 = (\<lambda>p l. False)\<rparr>"

definition plain_start :: "str concept list \<Rightarrow> (unit, bytes, str, str list) task" where
  "plain_start cs = task_start plain_env (matcher_new literal_regex cs)
     (grid_new recording_term 2 2 10) [] None 0 0"

lemma plain_start_inv: "task_inv (plain_start cs)"
  unfolding plain_start_def by (rule task_start_inv) (simp_all add: grid_new_def)

text \<open>C1: in every state the terminal task can reach, whatever the child prints and the user
  sends: a capture buffers at most 4 MiB, at most 64 raw captures, 64 finished captures and 64
  notices wait, the recent-lines ring holds at most 512 lines, and an active capture always has
  the loop's timer armed at its own deadline.\<close>

theorem terminal_task_bounded:
  assumes "length orphans \<le> MAX_BUFFERED_CAPTURES" and "length (g_recent_lines g) \<le> RECENT_LINE_CAP"
    and "task_reachable E (task_start E m g orphans pid now unix) u"
  shows "sum_list (map length (cs_buffer (t_session u))) \<le> 4 * 1024 * 1024 \<and>
    length (cs_buffers (t_session u)) \<le> 64 \<and> length (capture_queue (t_session u)) \<le> 64 \<and>
    length (t_notices u) \<le> 64 \<and> length (g_recent_lines (t_grid u)) \<le> 512 \<and>
    (is_active (t_session u) \<longrightarrow> deadline (t_session u) = Some (t_timeout u))"
proof -
  have "task_inv u"
    using task_reachable_inv [OF assms(3) task_start_inv [OF assms(1,2)]] .
  then show ?thesis
    by (auto simp: task_inv_def session_inv_def armed_def MAX_CAPTURE_BYTES_def
        MAX_BUFFERED_CAPTURES_def MAX_NOTICES_def RECENT_LINE_CAP_def)
qed

theorem terminal_task_bounded_witness:
  "length (t_notices (task_step plain_env (Stdin (Line ''x'') 5)
     (plain_start [(concept_new ''n'' ''x'' [])\<lparr>c_capture_mode := Single_Line\<rparr>]))) \<le> 64"
proof -
  let ?t = "plain_start [(concept_new ''n'' ''x'' [])\<lparr>c_capture_mode := Single_Line\<rparr>]"
  have "task_reachable plain_env ?t (task_step plain_env (Stdin (Line ''x'') 5) ?t)"
    by (rule task_reachable.step [OF task_reachable.start]) (simp add: enabled_def)
  then show ?thesis
    unfolding plain_start_def
    using terminal_task_bounded [of "[]" "grid_new recording_term 2 2 10" plain_env]
    by (simp add: grid_new_def)
qed

text \<open>What an input of the user asks the PTY for.\<close>

fun user_ops :: "task_event \<Rightarrow> pty_op list" where
  "user_ops (Stdin (Line l) _) = [Op_Write l, Op_Write [CR]]"
| "user_ops (Stdin (Raw bs) _) = [Op_Write bs]"
| "user_ops (Stdin (Resize r c) _) = [Op_Resize r c]"
| "user_ops _ = []"

lemma stop_on_user_input_frame [simp]:
  "t_pty (stop_on_user_input E inp now t) = t_pty t"
  "t_grid (stop_on_user_input E inp now t) = t_grid t"
  "t_ended (stop_on_user_input E inp now t) = t_ended t"
  by (simp_all add: stop_on_user_input_def Let_def)

lemma on_pty_data_pty: "t_pty (on_pty_data E bs now unix t) = t_pty t"
  by (simp add: on_pty_data_def on_data_capturing_def on_data_normal_def Let_def
      split: prod.splits bool.splits option.splits)

lemma run_arm_pty: "t_pty (run_arm E ev t) = t_pty t @ user_ops ev"
proof (cases ev)
  case (Stdin inp now)
  then show ?thesis
    by (cases inp) (auto simp: Let_def split: prod.splits)
qed (simp_all add: on_child_poll_def on_timeout_def on_pty_data_pty Let_def)

text \<open>C2: the only bytes and sizes that ever reach the child's PTY are the user's own input, in
  order and unchanged (a line followed by a carriage return), and the emulator's replies: no
  output of the child, no concept and no capture writes to it, and nothing is written once the
  task has ended.\<close>

theorem pty_gets_only_user_input_and_replies:
  "t_pty (task_step E ev t) = t_pty t @
     (if t_ended t then [] else user_ops ev @
       (if t_ended (run_arm E ev t) then [] else map Op_Write (g_replies (t_grid (run_arm E ev t)))))"
  by (simp add: task_step_def Let_def run_arm_pty deliver_replies_def drain_replies_def)

text \<open>Ending a capture.\<close>

lemma finalize_publishes:
  "active_name s = Some nm \<Longrightarrow> cs_sink s = Pane_Queue \<Longrightarrow>
   capture_queue (fst (finalize adv v0 s)) =
     push_bounded \<lparr>co_id = next_event_id s, co_concept_name = nm,
       co_lines = parse_chunks adv v0 (cs_buffer s),
       co_target_pane_type = unwrap_or (active_target s) []\<rparr> (capture_queue s)"
  by (simp add: finalize_def Let_def push_sink_def)

text \<open>A capture cannot outlive its deadline: from the deadline on the loop's timer is due,
  and either the timer or the next chunk from the child (outside the grace period after a
  resize) ends it and publishes everything buffered, the chunk included, as the newest event of
  the pane's queue.\<close>

theorem capture_ends_at_deadline:
  assumes "task_inv t" and "\<not> t_ended t" and "active_name (t_session t) = Some nm"
    and "deadline (t_session t) = Some d" and "d \<le> now" and "cs_sink (t_session t) = Pane_Queue"
  shows "enabled (Timeout now) t \<and>
    (let u = task_step E (Timeout now) t
     in \<not> is_active (t_session u) \<and>
        co_lines (last (capture_queue (t_session u))) =
          parse_chunks (e_advance E) (e_v0 E) (cs_buffer (t_session t))) \<and>
    (concept_match_suppressed (t_suppress_until t) now \<or>
     (let u = task_step E (Pty_Data bs now unix) t
      in \<not> is_active (t_session u) \<and>
         co_lines (last (capture_queue (t_session u))) =
           parse_chunks (e_advance E) (e_v0 E) (cs_buffer (t_session t) @ [bs])))"
proof (intro conjI)
  show "enabled (Timeout now) t"
    using assms by (simp add: enabled_def task_inv_def armed_def is_active_def)
next
  show "let u = task_step E (Timeout now) t
    in \<not> is_active (t_session u) \<and> co_lines (last (capture_queue (t_session u))) =
        parse_chunks (e_advance E) (e_v0 E) (cs_buffer (t_session t))"
    using assms finalize_publishes [OF assms(3) assms(6), of "e_advance E" "e_v0 E"]
      finalize_inactive [of "e_advance E" "e_v0 E" "t_session t"]
    by (simp add: task_step_def on_timeout_def deliver_replies_def drain_replies_def is_active_def
        push_bounded_def Let_def)
next
  let ?s = "(t_session t)\<lparr>cs_bytes := cs_bytes (t_session t) + length bs,
      cs_buffer := cs_buffer (t_session t) @ [bs]\<rparr>"
  have pub: "capture_queue (fst (finalize (e_advance E) (e_v0 E) ?s)) =
      push_bounded \<lparr>co_id = next_event_id (t_session t), co_concept_name = nm,
        co_lines = parse_chunks (e_advance E) (e_v0 E) (cs_buffer (t_session t) @ [bs]),
        co_target_pane_type = unwrap_or (active_target (t_session t)) []\<rparr>
        (capture_queue (t_session t))"
    using finalize_publishes [of ?s nm "e_advance E" "e_v0 E"] assms by simp
  have "feed_output (e_advance E) (e_v0 E) bs now (t_session t) =
      (fst (finalize (e_advance E) (e_v0 E) ?s), True)"
    using assms by (simp add: feed_output_def Let_def)
  then have "\<not> concept_match_suppressed (t_suppress_until t) now \<Longrightarrow>
      t_session (run_arm E (Pty_Data bs now unix) t) = fst (finalize (e_advance E) (e_v0 E) ?s) \<and>
      \<not> t_ended (run_arm E (Pty_Data bs now unix) t)"
    using assms by (simp add: on_pty_data_def on_data_capturing_def Let_def is_active_def
        take_declared_state_def split: prod.splits)
  then show "concept_match_suppressed (t_suppress_until t) now \<or>
    (let u = task_step E (Pty_Data bs now unix) t
     in \<not> is_active (t_session u) \<and> co_lines (last (capture_queue (t_session u))) =
          parse_chunks (e_advance E) (e_v0 E) (cs_buffer (t_session t) @ [bs]))"
    using pub assms(2) finalize_inactive [of "e_advance E" "e_v0 E" ?s]
    by (auto simp: task_step_def deliver_replies_def drain_replies_def push_bounded_def Let_def)
qed

theorem capture_ends_at_deadline_witness:
  "let t = (plain_start [])\<lparr>t_session := begin_capture ''c'' ''wiki'' 300 (session_new []),
             t_timeout := 300\<rparr>
   in enabled (Timeout 300) t \<and> \<not> is_active (t_session (task_step plain_env (Timeout 300) t))"
proof -
  let ?t = "(plain_start [])\<lparr>t_session := begin_capture ''c'' ''wiki'' 300 (session_new []),
      t_timeout := 300\<rparr>"
  have i: "task_inv ?t"
    using begin_preserves [OF session_inv_new [of "[]"]] plain_start_inv [of "[]"]
    by (simp add: task_inv_def armed_def) (simp add: begin_capture_def)
  have f: "\<not> t_ended ?t" "active_name (t_session ?t) = Some ''c''" "deadline (t_session ?t) = Some 300"
    "cs_sink (t_session ?t) = Pane_Queue"
    by (simp_all add: plain_start_def task_start_def begin_capture_def session_new_def)
  from capture_ends_at_deadline [OF i f(1-3) order_refl f(4), of plain_env "[]" 0]
  show ?thesis by (simp add: Let_def)
qed

text \<open>While a capture is active the child's output is withheld: a chunk that does not end
  the capture changes neither the emulator nor the recent lines, the line count or the history,
  and is buffered whole, in order, unless it falls in the grace period after a resize, when the
  capture drops it.  The deadline stays where the start of the capture put it: output does not
  postpone it.\<close>

theorem capture_withholds_output:
  assumes "\<not> t_ended t" and "is_active (t_session t)"
    and "is_active (t_session (task_step E (Pty_Data bs now unix) t))"
  shows "let u = task_step E (Pty_Data bs now unix) t
    in g_term (t_grid u) = g_term (t_grid t) \<and> g_recent_lines (t_grid u) = g_recent_lines (t_grid t) \<and>
       g_line_count (t_grid u) = g_line_count (t_grid t) \<and>
       g_history (t_grid u) = g_history (t_grid t) \<and>
       deadline (t_session u) = deadline (t_session t) \<and>
       cs_buffer (t_session u) = cs_buffer (t_session t) @
         (if concept_match_suppressed (t_suppress_until t) now then [] else [bs])"
proof (cases "concept_match_suppressed (t_suppress_until t) now")
  case True
  then show ?thesis
    using assms by (simp add: task_step_def on_pty_data_def on_data_capturing_def deliver_replies_def
        drain_replies_def take_declared_state_def Let_def split: prod.splits)
next
  case False
  let ?f = "feed_output (e_advance E) (e_v0 E) bs now (t_session t)"
  have sess: "t_session (task_step E (Pty_Data bs now unix) t) = fst ?f"
    and grid: "\<exists>st. t_grid (task_step E (Pty_Data bs now unix) t) =
      (t_grid t)\<lparr>g_status := st, g_replies := []\<rparr>"
    using assms(1,2) False
    by (auto simp: task_step_def on_pty_data_def on_data_capturing_def deliver_replies_def
        drain_replies_def take_declared_state_def Let_def split: prod.splits bool.splits option.splits)
  have "fst ?f = (t_session t)\<lparr>cs_bytes := cs_bytes (t_session t) + length bs,
      cs_buffer := cs_buffer (t_session t) @ [bs]\<rparr>"
    using assms(2,3) is_active_def [of "t_session t"] unfolding sess
    by (cases "snd ?f") (auto simp: feed_output_def Let_def finalize_inactive split: if_splits)
  then show ?thesis using sess grid False by (auto simp: Let_def)
qed

text \<open>The end of the child: the instant of the last sign of life among the events.\<close>

fun last_activity :: "nat \<Rightarrow> task_event list \<Rightarrow> nat" where
  "last_activity a [] = a"
| "last_activity a (Pty_Data bs now unix # evs) = last_activity now evs"
| "last_activity a (ev # evs) = last_activity a evs"

text \<open>Chunks and polls, each poll less than 500 ms after the last sign of life before it.\<close>

fun draining :: "nat \<Rightarrow> task_event list \<Rightarrow> bool" where
  "draining a [] = True"
| "draining a (Pty_Data bs now unix # evs) = draining now evs"
| "draining a (Child_Poll now w fg # evs) = (now < a + EXIT_DRAIN_QUIET_MS \<and> draining a evs)"
| "draining a (ev # evs) = False"

definition run_events :: "('v, 't, 'r, 's) env \<Rightarrow> task_event list \<Rightarrow> ('v, 't, 'r, 's) task
    \<Rightarrow> ('v, 't, 'r, 's) task" where
  "run_events E evs t = fold (task_step E) evs t"

definition drain_state :: "nat \<Rightarrow> ('v, 't, 'r, 's) task \<Rightarrow> bool" where
  "drain_state a t \<longleftrightarrow> \<not> t_ended t \<and> t_child_exit t \<noteq> None \<and>
     t_exit_quiet_until t = Some (a + EXIT_DRAIN_QUIET_MS)"

lemma match_lines_exit [simp]:
  "t_child_exit (match_lines E now ls t) = t_child_exit t \<and>
   t_exit_quiet_until (match_lines E now ls t) = t_exit_quiet_until t"
  by (induction E now ls t rule: match_lines.induct)
    (simp_all add: apply_and_arm_def apply_match_def split: option.splits capture_mode.splits)

lemma data_drain_state: "drain_state a t \<Longrightarrow> drain_state now (task_step E (Pty_Data bs now unix) t)"
  by (auto simp: drain_state_def task_step_def on_pty_data_def on_data_capturing_def
      on_data_normal_def deliver_replies_def drain_replies_def Let_def
      split: prod.splits bool.splits option.splits)

lemma poll_drain_state:
  "drain_state a t \<Longrightarrow> now < a + EXIT_DRAIN_QUIET_MS \<Longrightarrow>
   drain_state a (task_step E (Child_Poll now w fg) t)"
  by (auto simp: drain_state_def task_step_def on_child_poll_def deliver_replies_def
      drain_replies_def Let_def)

lemma run_events_draining:
  "drain_state a t \<Longrightarrow> draining a evs \<Longrightarrow> drain_state (last_activity a evs) (run_events E evs t)"
proof (induction evs arbitrary: a t)
  case (Cons ev evs)
  then show ?case
    by (cases ev) (simp_all add: run_events_def data_drain_state poll_drain_state)
qed (simp add: run_events_def)

text \<open>Output that arrives after the child has exited is not lost: once a poll has reaped the
  child, the task keeps running, however many chunks come, as long as none of its polls comes
  500 ms or more after the last of them, and the first poll that does ends it.\<close>

theorem exit_waits_for_quiet:
  assumes "\<not> t_ended t" and "t_child_exit t = None"
    and "draining now0 evs" and "last_activity now0 evs + 500 \<le> now1"
  shows "let u = run_events E evs (task_step E (Child_Poll now0 (Some c) fg) t)
    in \<not> t_ended u \<and> t_ended (task_step E (Child_Poll now1 w fg1) u)"
proof -
  have "drain_state now0 (task_step E (Child_Poll now0 (Some c) fg) t)"
    using assms(1,2) by (simp add: drain_state_def task_step_def on_child_poll_def Let_def
        deliver_replies_def drain_replies_def)
  from run_events_draining [OF this assms(3), of E]
  show ?thesis using assms(4)
    by (auto simp: drain_state_def task_step_def on_child_poll_def Let_def EXIT_DRAIN_QUIET_MS_def)
qed

theorem exit_waits_for_quiet_witness:
  "t_ended (run_events plain_env [Pty_Data ''a'' 300 0, Child_Poll 700 None None, Child_Poll 800 None None]
     (task_step plain_env (Child_Poll 0 (Some 0) None) (plain_start [])))"
proof -
  have a: "\<not> t_ended (plain_start [])" "t_child_exit (plain_start []) = None"
    by (simp_all add: plain_start_def task_start_def)
  have b: "draining 0 [Pty_Data ''a'' 300 0, Child_Poll 700 None None]"
    "last_activity 0 [Pty_Data ''a'' 300 0, Child_Poll 700 None None] + 500 \<le> 800"
    by (simp_all add: EXIT_DRAIN_QUIET_MS_def)
  from exit_waits_for_quiet [OF a b, of plain_env] show ?thesis
    by (simp add: run_events_def Let_def)
qed

text \<open>The exit path always settles the pane: no capture stays active and what it held is
  published, the status document says running exactly while there is neither an exit code nor a
  finished task, and a failing exit is shown as \<open>failed\<close> unless a stronger tier has spoken.\<close>

theorem task_exit_settles:
  "\<not> is_active (t_session (task_exit E exit_code unix t)) \<and>
   t_session (task_exit E exit_code unix t) =
     fst (finalize (e_advance E) (e_v0 E) (t_session t)) \<and>
   (let d = status_doc_of finished unix1 (t_grid (task_exit E exit_code unix t))
    in sd_running d = (exit_code = None \<and> \<not> finished) \<and> sd_exit_code d = exit_code \<and>
       sd_exit_reason d = (if exit_code \<noteq> None then Some Exited
                           else if finished then Some Task_Ended else None) \<and>
       sd_running d = (sd_exit_reason d = None) \<and>
       sd_agent_state d = as_str
         (if exit_code \<noteq> None \<and> exit_code \<noteq> Some 0
             \<and> tier (g_agent_state (t_grid t)) \<notin> {Some Tier1, Some Tier2}
          then Failed else state (g_agent_state (t_grid t))))"
proof -
  have "tier tr \<noteq> Some Tier1 \<Longrightarrow> tier tr \<noteq> Some Tier2 \<Longrightarrow>
      state (fst (observe Tier3 Failed unix tr)) = Failed" for tr
    by (auto simp: observe_def not_less split: option.splits) (metis state_tier.exhaust less_irrefl)
  moreover have "tier tr = Some Tier1 \<or> tier tr = Some Tier2 \<Longrightarrow>
      state (fst (observe Tier3 Failed unix tr)) = state tr" for tr
    by (auto simp: observe_def less_le)
  ultimately show ?thesis
    by (cases exit_code) (auto simp: task_exit_def status_doc_of_def Let_def finalize_inactive)
qed

theorem capture_withholds_output_witness:
  "let t = (plain_start [])\<lparr>t_session := begin_capture ''c'' ''wiki'' 300 (session_new [])\<rparr>
   in cs_buffer (t_session (task_step plain_env (Pty_Data ''a'' 10 0) t)) = [''a''] \<and>
      g_term (t_grid (task_step plain_env (Pty_Data ''a'' 10 0) t)) = g_term (t_grid t)"
proof -
  let ?t = "(plain_start [])\<lparr>t_session := begin_capture ''c'' ''wiki'' 300 (session_new [])\<rparr>"
  note ev = plain_start_def task_start_def begin_capture_def session_new_def is_active_def
  have a: "\<not> t_ended ?t" "is_active (t_session ?t)" by (simp_all add: ev)
  have b: "is_active (t_session (task_step plain_env (Pty_Data ''a'' 10 0) ?t))"
    by (simp add: ev task_step_def on_pty_data_def on_data_capturing_def feed_output_def Let_def
        concept_match_suppressed_def deliver_replies_def drain_replies_def take_declared_state_def
        MAX_CAPTURE_BYTES_def split: prod.splits)
  from capture_withholds_output [OF a b] show ?thesis
    by (simp add: Let_def concept_match_suppressed_def)
      (simp add: ev)
qed

end
