(* ===== verification/Wiki_Links.thy ===== *)
theory Wiki_Links
  imports Rust_Strings "HOL-Library.List_Lexorder" "HOL-Library.Char_ord"
begin

text \<open>
  Wikilinks, \<open>crates/gpty-core/src/links.rs\<close>: the scanner that finds \<open>[[target]]\<close> occurrences
  in a note's body (outside fenced blocks, code spans and escapes), the index that resolves a
  target against the notes of a vault, and the respelling of a target after a note moved.
  Positions are byte offsets.  \<open>str::to_lowercase\<close> (Unicode case folding) is a parameter.
\<close>

section \<open>Data\<close>

definition MAX_LINK_OCCURRENCES :: nat where "MAX_LINK_OCCURRENCES = 512"
definition MAX_LINK_TARGET_BYTES :: nat where "MAX_LINK_TARGET_BYTES = 1024"

record link =
  lk_seq :: nat
  lk_line :: nat
  lk_target :: str
  lk_alias :: "str option"
  lk_fragment :: "str option"
  lk_start :: nat
  lk_end :: nat

section \<open>Scanning\<close>

definition run_length :: "bytes \<Rightarrow> nat \<Rightarrow> byte \<Rightarrow> nat" where
  "run_length bs start marker = length (takeWhile (\<lambda>b. b = marker) (drop start bs))"

definition opens_fence :: "str \<Rightarrow> (byte \<times> nat) option" where
  "opens_fence line =
     (case trim_start line of
        [] \<Rightarrow> None
      | marker # _ \<Rightarrow>
          if marker \<noteq> CHR ''`'' \<and> marker \<noteq> CHR ''~'' then None
          else (let run = run_length (trim_start line) 0 marker
                in if 3 \<le> run then Some (marker, run) else None))"

definition closes_fence :: "str \<Rightarrow> byte \<Rightarrow> nat \<Rightarrow> bool" where
  "closes_fence line marker len =
     (let t = trim line in t \<noteq> [] \<and> list_all (\<lambda>b. b = marker) t \<and> len \<le> length t)"

text \<open>\<open>find_close\<close> reads on from an index: the rest of the line and the index it starts at.\<close>

fun find_close_at :: "bytes \<Rightarrow> nat \<Rightarrow> nat option" where
  "find_close_at (a # b # rest) i =
     (if a = CHR ''['' then None
      else if a = CHR '']'' \<and> b = CHR '']'' then Some i
      else find_close_at (b # rest) (i + 1))"
| "find_close_at _ i = None"

definition find_close :: "bytes \<Rightarrow> nat \<Rightarrow> nat option" where
  "find_close bs from_ix = find_close_at (drop from_ix bs) from_ix"

definition is_escaped :: "bytes \<Rightarrow> nat \<Rightarrow> bool" where
  "is_escaped bs at = odd (length (takeWhile (\<lambda>b. b = BACKSLASH) (rev (take at bs))))"

definition nonempty :: "str option \<Rightarrow> str option" where
  "nonempty s = (case s of Some [] \<Rightarrow> None | other \<Rightarrow> other)"

definition link_from :: "str \<Rightarrow> nat \<Rightarrow> nat \<Rightarrow> link option" where
  "link_from content line seq =
     (let (left, al) = (case split_once (CHR ''|'') content of
            Some (l, a) \<Rightarrow> (l, Some a) | None \<Rightarrow> (content, None));
          (target, fragment) = (case split_once (CHR ''#'') left of
            Some (t, f) \<Rightarrow> (t, Some f) | None \<Rightarrow> (left, None))
      in if target = [] \<or> MAX_LINK_TARGET_BYTES < length target then None
         else Some \<lparr>lk_seq = seq, lk_line = line, lk_target = target, lk_alias = nonempty al,
                    lk_fragment = nonempty fragment, lk_start = 0, lk_end = 0\<rparr>)"

lemma find_close_at_SomeD:
  "find_close_at xs i = Some c \<Longrightarrow>
   \<exists>mid rest. xs = mid @ CHR '']'' # CHR '']'' # rest \<and> c = i + length mid \<and> CHR ''['' \<notin> set mid"
proof (induction xs i rule: find_close_at.induct)
  case (1 a b rest i)
  show ?case
  proof (cases "a = CHR '']'' \<and> b = CHR '']''")
    case True
    then show ?thesis using "1.prems" by (intro exI [of _ "[]"] exI [of _ rest]) auto
  next
    case False
    with "1.prems" have a: "a \<noteq> CHR ''[''" "find_close_at (b # rest) (i + 1) = Some c"
      by (auto split: if_splits)
    from "1.IH" [OF a(1) False a(2)] obtain mid rest'
      where "b # rest = mid @ CHR '']'' # CHR '']'' # rest'" "c = i + 1 + length mid"
        "CHR ''['' \<notin> set mid" by blast
    then show ?thesis using a(1) by (intro exI [of _ "a # mid"] exI [of _ rest']) auto
  qed
qed auto

lemma find_close_SomeD:
  assumes "find_close bs i = Some c" and "i \<le> length bs"
  shows "i \<le> c \<and> c + 2 \<le> length bs \<and> CHR ''['' \<notin> set (take (c - i) (drop i bs)) \<and>
    take (c + 2 - i) (drop i bs) = take (c - i) (drop i bs) @ '']]''"
proof -
  obtain mid rest where m: "drop i bs = mid @ CHR '']'' # CHR '']'' # rest" "c = i + length mid"
    "CHR ''['' \<notin> set mid"
    using find_close_at_SomeD [OF assms(1) [unfolded find_close_def]] by auto
  have "length (drop i bs) = length mid + 2 + length rest" using m(1) by simp
  then have "length bs = i + length mid + 2 + length rest" using assms(2) by simp
  then show ?thesis using m by (auto simp: numeral_2_eq_2)
qed

lemma run_length_pos: "i < length bs \<Longrightarrow> bs ! i = m \<Longrightarrow> 0 < run_length bs i m"
  by (simp add: run_length_def Cons_nth_drop_Suc [symmetric])

text \<open>The loop of \<open>scan_line\<close>, at index \<open>i\<close>, with the length of the open code span's run.\<close>

function scan_loop :: "bytes \<Rightarrow> nat \<Rightarrow> nat \<Rightarrow> nat \<Rightarrow> nat option \<Rightarrow> link list \<Rightarrow> link list" where
  "scan_loop bs number off i code_run out =
     (if length bs \<le> i then out
      else if bs ! i = CHR ''`'' then
        (let run = run_length bs i (CHR ''`'')
         in scan_loop bs number off (i + run)
              (if code_run = Some run then None
               else if code_run = None then Some run else code_run) out)
      else if code_run = None \<and> bs ! i = CHR ''['' \<and> i + 1 < length bs \<and> bs ! (i + 1) = CHR ''[''
              \<and> \<not> is_escaped bs i then
        (case find_close bs (i + 2) of
           Some close \<Rightarrow>
             scan_loop bs number off (close + 2) code_run
               (case link_from (take (close - (i + 2)) (drop (i + 2) bs)) number (length out) of
                  Some l \<Rightarrow> out @ [l\<lparr>lk_start := off + i, lk_end := off + close + 2\<rparr>]
                | None \<Rightarrow> out)
         | None \<Rightarrow> scan_loop bs number off (i + 1) code_run out)
      else scan_loop bs number off (i + 1) code_run out)"
  by pat_completeness auto

termination
proof (relation "measure (\<lambda>(bs, number, off, i, code_run, out). length bs - i)", goal_cases)
  case (2 bs number off i code_run out x)
  then show ?case using run_length_pos [of i bs "CHR ''`''"] by simp
next
  case 3
  then show ?case by (auto dest!: find_close_SomeD)
next
  case 4
  then show ?case by (auto dest!: find_close_SomeD)
qed auto

declare scan_loop.simps [simp del]

definition scan_line :: "str \<Rightarrow> nat \<Rightarrow> nat \<Rightarrow> link list \<Rightarrow> link list" where
  "scan_line line number line_offset out = scan_loop line number line_offset 0 None out"

text \<open>The loop of \<open>parse_links\<close> over the lines, each with the newline that ended it.\<close>

fun links_loop :: "str list \<Rightarrow> nat \<Rightarrow> nat \<Rightarrow> (byte \<times> nat) option \<Rightarrow> link list \<Rightarrow> link list" where
  "links_loop [] index offset fence links = links"
| "links_loop (chunk # chunks) index offset fence links =
     (let line = strip_or [CR] (strip_or [LF] chunk)
      in case fence of
           Some (marker, len) \<Rightarrow>
             links_loop chunks (index + 1) (offset + length chunk)
               (if closes_fence line marker len then None else fence) links
         | None \<Rightarrow>
             (case opens_fence line of
                Some fen \<Rightarrow> links_loop chunks (index + 1) (offset + length chunk) (Some fen) links
              | None \<Rightarrow>
                  (let links' = scan_line line (index + 1) offset links
                   in if MAX_LINK_OCCURRENCES \<le> length links' then take MAX_LINK_OCCURRENCES links'
                      else links_loop chunks (index + 1) (offset + length chunk) fence links')))"

definition parse_links :: "str \<Rightarrow> link list" where
  "parse_links body = links_loop (split_inclusive body) 0 0 None []"

section \<open>Resolving\<close>

datatype resolution = Resolved str | Ambiguous "str list" | Missing

definition resolution_note :: "resolution \<Rightarrow> str option" where
  "resolution_note r = (case r of Resolved n \<Rightarrow> Some n | _ \<Rightarrow> None)"

text \<open>The last segment of a path: \<open>rsplit('/').next()\<close>.\<close>

definition base_name :: "str \<Rightarrow> str" where
  "base_name p = rev (takeWhile (\<lambda>b. b \<noteq> CHR ''/'') (rev p))"

definition note_stem :: "str \<Rightarrow> str" where
  "note_stem rel_path =
     (case strip_suffix ''.md'' (base_name rel_path) of Some s \<Rightarrow> s | None \<Rightarrow> rel_path)"

record note_index =
  ni_paths :: "str \<rightharpoonup> str"
  ni_paths_ci :: "str \<rightharpoonup> str list"
  ni_stems :: "str \<rightharpoonup> str list"
  ni_stems_ci :: "str \<rightharpoonup> str list"

text \<open>\<open>entry(k).or_default().push(v)\<close>\<close>

definition push_entry :: "str \<Rightarrow> str \<Rightarrow> (str \<rightharpoonup> str list) \<Rightarrow> (str \<rightharpoonup> str list)" where
  "push_entry k v m = m(k \<mapsto> (case m k of Some vs \<Rightarrow> vs | None \<Rightarrow> []) @ [v])"

definition index_note :: "(str \<Rightarrow> str) \<Rightarrow> str \<Rightarrow> note_index \<Rightarrow> note_index" where
  "index_note lower note ix =
     (let stem = note_stem note
      in \<lparr>ni_paths = (ni_paths ix)(note \<mapsto> note),
          ni_paths_ci = push_entry (lower note) note (ni_paths_ci ix),
          ni_stems = push_entry stem note (ni_stems ix),
          ni_stems_ci = push_entry (lower stem) note (ni_stems_ci ix)\<rparr>)"

definition index_new :: "(str \<Rightarrow> str) \<Rightarrow> str list \<Rightarrow> note_index" where
  "index_new lower notes = fold (index_note lower) notes
     \<lparr>ni_paths = Map.empty, ni_paths_ci = Map.empty, ni_stems = Map.empty, ni_stems_ci = Map.empty\<rparr>"

definition single :: "str list \<Rightarrow> str option" where
  "single matches = (case matches of [only] \<Rightarrow> Some only | _ \<Rightarrow> None)"

definition ends_md :: "str \<Rightarrow> bool" where
  "ends_md s = (strip_suffix ''.md'' s \<noteq> None)"

definition resolve :: "(str \<Rightarrow> str) \<Rightarrow> note_index \<Rightarrow> str \<Rightarrow> resolution" where
  "resolve lower ix target =
     (let (exact, ci) =
        (if CHR ''/'' \<in> set target then
           (let path = (if ends_md target then target else target @ ''.md'')
            in (ni_paths ix path, ni_paths_ci ix (lower path)))
         else (Option.bind (ni_stems ix target) single, ni_stems_ci ix (lower target)))
      in case exact of
           Some note \<Rightarrow> Resolved note
         | None \<Rightarrow>
             (case ci of
                None \<Rightarrow> Missing
              | Some matches \<Rightarrow>
                  (case single matches of
                     Some note \<Rightarrow> Resolved note
                   | None \<Rightarrow> Ambiguous (sort matches))))"

definition resolve_target :: "(str \<Rightarrow> str) \<Rightarrow> str \<Rightarrow> str list \<Rightarrow> resolution" where
  "resolve_target lower target notes = resolve lower (index_new lower notes) target"

section \<open>Respelling\<close>

text \<open>\<open>char::is_control\<close> on UTF-8: C0, DEL, and C1 (encoded C2 80 to C2 9F).\<close>

fun has_control :: "str \<Rightarrow> bool" where
  "has_control [] = False"
| "has_control (a # xs) =
     (code a < 32 \<or> code a = 127 \<or>
      (code a = 0xC2 \<and> (case xs of b # _ \<Rightarrow> 0x80 \<le> code b \<and> code b \<le> 0x9F | [] \<Rightarrow> False)) \<or>
      has_control xs)"

definition retarget :: "str \<Rightarrow> str \<Rightarrow> str option" where
  "retarget target new_rel_path =
     (let spelled = (if CHR ''/'' \<in> set target
            then (if ends_md target then new_rel_path else strip_or ''.md'' new_rel_path)
            else note_stem new_rel_path);
          spellable = (spelled \<noteq> [] \<and> length spelled \<le> MAX_LINK_TARGET_BYTES \<and>
            list_all (\<lambda>c. c \<notin> {CHR ''['', CHR '']'', CHR ''|'', CHR ''#''}) spelled \<and>
            \<not> has_control spelled)
      in if spellable then Some spelled else None)"

section \<open>Occurrences\<close>

text \<open>A link is where it says: its span of the body is \<open>[[\<close>, its content, \<open>]]\<close>, the content has
  no opening bracket and no newline, and it is what target, alias and fragment were read from.\<close>

definition link_at :: "str \<Rightarrow> link \<Rightarrow> bool" where
  "link_at body l \<longleftrightarrow>
     lk_start l + 4 \<le> lk_end l \<and> lk_end l \<le> length body \<and>
     (let content = take (lk_end l - lk_start l - 4) (drop (lk_start l + 2) body)
      in take (lk_end l - lk_start l) (drop (lk_start l) body) = ''[['' @ content @ '']]'' \<and>
         CHR ''['' \<notin> set content \<and> LF \<notin> set content \<and>
         link_from content (lk_line l) (lk_seq l) = Some (l\<lparr>lk_start := 0, lk_end := 0\<rparr>))"

text \<open>Links in order from position \<open>pos\<close>, numbered from \<open>n\<close>, on line \<open>number\<close>, up to \<open>lim\<close>.\<close>

fun occs :: "str \<Rightarrow> nat \<Rightarrow> nat \<Rightarrow> nat \<Rightarrow> nat \<Rightarrow> link list \<Rightarrow> bool" where
  "occs body lim number n pos [] = True"
| "occs body lim number n pos (l # ls) =
     (pos \<le> lk_start l \<and> lk_end l \<le> lim \<and> lk_seq l = n \<and> lk_line l = number \<and> link_at body l \<and>
      occs body lim number (n + 1) (lk_end l) ls)"

lemma occs_mono: "occs body lim number n pos ls \<Longrightarrow> pos' \<le> pos \<Longrightarrow> occs body lim number n pos' ls"
  by (cases ls) auto

lemma link_from_fields:
  "link_from content number n = Some l \<Longrightarrow>
   lk_seq l = n \<and> lk_line l = number \<and> lk_start l = 0 \<and> lk_end l = 0 \<and> lk_target l \<noteq> [] \<and>
   length (lk_target l) \<le> MAX_LINK_TARGET_BYTES"
  by (auto simp: link_from_def Let_def split: option.splits prod.splits if_splits)

lemma take_drop_window:
  "take n (drop off body) = bs \<Longrightarrow> i + k \<le> n \<Longrightarrow> n = length bs \<Longrightarrow>
   take k (drop (off + i) body) = take k (drop i bs)"
proof -
  assume bs: "take n (drop off body) = bs" and "i + k \<le> n"
  then have "take k (drop i bs) = take k (drop i (drop off body))"
    unfolding bs [symmetric] by (simp add: drop_take min_def del: drop_drop)
  then show ?thesis by (simp add: add.commute)
qed

lemma scan_hit:
  assumes w: "take (length bs) (drop off body) = bs" and bound: "off + length bs \<le> length body"
    and lf: "LF \<notin> set bs"
    and i: "i + 1 < length bs" "bs ! i = CHR ''[''" "bs ! (i + 1) = CHR ''[''"
    and fc: "find_close bs (i + 2) = Some close"
    and lk: "link_from (take (close - (i + 2)) (drop (i + 2) bs)) number n = Some l"
  shows "link_at body (l\<lparr>lk_start := off + i, lk_end := off + close + 2\<rparr>)"
proof -
  let ?content = "take (close - (i + 2)) (drop (i + 2) bs)"
  from find_close_SomeD [OF fc] i(1)
  have c: "i + 2 \<le> close" "close + 2 \<le> length bs" "CHR ''['' \<notin> set ?content"
    and tail: "take (close + 2 - (i + 2)) (drop (i + 2) bs) = ?content @ '']]''"
    by auto
  have "take (close + 2 - i) (drop i bs) = ''[['' @ ?content @ '']]''"
  proof -
    have "drop i bs = CHR ''['' # CHR ''['' # drop (i + 2) bs"
      using i by (metis Cons_nth_drop_Suc Suc_eq_plus1 Suc_lessD add_2_eq_Suc')
    moreover have "close + 2 - i = Suc (Suc (close + 2 - (i + 2)))" using c(1) by simp
    ultimately show ?thesis using tail by simp
  qed
  moreover have "take (close + 2 - i) (drop (off + i) body) = take (close + 2 - i) (drop i bs)"
    by (rule take_drop_window [OF w]) (use c in auto)
  moreover have "take (close - (i + 2)) (drop (off + (i + 2)) body) = ?content"
    by (rule take_drop_window [OF w]) (use c in auto)
  moreover have "LF \<notin> set ?content" using lf by (meson in_set_dropD in_set_takeD)
  moreover have "off + close + 2 - (off + i) = close + 2 - i"
    "off + close + 2 - (off + i) - 4 = close - (i + 2)" by simp_all
  ultimately show ?thesis
    using c bound lk link_from_fields [OF lk]
    by (simp add: link_at_def Let_def add.commute add.left_commute)
qed

lemma scan_loop_occs:
  assumes "take (length bs) (drop off body) = bs" and "off + length bs \<le> length body"
    and "LF \<notin> set bs"
  shows "\<exists>new. scan_loop bs number off i code_run out = out @ new \<and>
    occs body (off + length bs) number (length out) (off + i) new"
  using assms
proof (induction bs number off i code_run out rule: scan_loop.induct)
  case (1 bs number off i code_run out)
  note step = scan_loop.simps [of bs number off i code_run out]
  let ?hit = "code_run = None \<and> bs ! i = CHR ''['' \<and> i + 1 < length bs \<and> bs ! (i + 1) = CHR ''[''
      \<and> \<not> is_escaped bs i"
  have skip: "\<exists>new. scan_loop bs number off j cr out = out @ new \<and>
      occs body (off + length bs) number (length out) (off + i) new"
    if "\<exists>new. scan_loop bs number off j cr out = out @ new \<and>
      occs body (off + length bs) number (length out) (off + j) new" "i \<le> j" for j cr
    using that occs_mono by (meson add_left_mono)
  consider "length bs \<le> i" | "\<not> length bs \<le> i" "bs ! i = CHR ''`''"
    | "\<not> length bs \<le> i" "bs ! i \<noteq> CHR ''`''" "?hit"
    | "\<not> length bs \<le> i" "bs ! i \<noteq> CHR ''`''" "\<not> ?hit" by blast
  then show ?case
  proof cases
    case 1
    then show ?thesis by (simp add: step)
  next
    case 2
    from skip [OF "1.IH"(1) [OF 2 refl "1.prems"]] 2 show ?thesis by (simp add: step Let_def)
  next
    case 3
    show ?thesis
    proof (cases "find_close bs (i + 2)")
      case None
      from skip [OF "1.IH"(2) [OF 3 None "1.prems"]] 3 None show ?thesis
        unfolding step by (simp del: One_nat_def add_2_eq_Suc')
    next
      case (Some close)
      have c: "i + 2 \<le> close" "close + 2 \<le> length bs"
        using find_close_SomeD [OF Some] 3 by auto
      let ?lk = "link_from (take (close - (i + 2)) (drop (i + 2) bs)) number (length out)"
      show ?thesis
      proof (cases ?lk)
        case None
        with skip [of "close + 2" code_run] "1.IH"(3) [OF 3 Some "1.prems"] 3 Some c show ?thesis
          unfolding step by (simp del: One_nat_def add_2_eq_Suc')
      next
        case (Some l)
        let ?l = "l\<lparr>lk_start := off + i, lk_end := off + close + 2\<rparr>"
        have at: "link_at body ?l"
          using scan_hit [OF "1.prems" _ _ _ \<open>find_close bs (i + 2) = _\<close> Some] 3 by simp
        from "1.IH"(3) [OF 3 \<open>find_close bs (i + 2) = _\<close> "1.prems"] Some
        obtain new where "scan_loop bs number off (close + 2) code_run (out @ [?l]) = out @ [?l] @ new"
          "occs body (off + length bs) number (length out + 1) (off + close + 2) new"
          by (auto simp: add.assoc)
        then show ?thesis
          using 3 Some at c link_from_fields [OF Some] \<open>find_close bs (i + 2) = _\<close>
          unfolding step by (intro exI [of _ "?l # new"]) (simp del: One_nat_def add_2_eq_Suc')
      qed
    qed
  next
    case 4
    then have "scan_loop bs number off i code_run out = scan_loop bs number off (i + 1) code_run out"
      unfolding step by (simp only: if_False)
    then show ?thesis using skip [OF "1.IH"(4) [OF 4 "1.prems"]] by simp
  qed
qed

text \<open>The same over the whole body: numbered from \<open>n\<close>, after position \<open>pos\<close>, each with its line.\<close>

fun chain :: "str \<Rightarrow> nat \<Rightarrow> nat \<Rightarrow> link list \<Rightarrow> bool" where
  "chain body n pos [] = True"
| "chain body n pos (l # ls) =
     (pos \<le> lk_start l \<and> lk_seq l = n \<and> link_at body l \<and>
      lk_line l = 1 + count_list (take (lk_start l) body) LF \<and> chain body (n + 1) (lk_end l) ls)"

lemma link_at_start_end: "link_at body l \<Longrightarrow> lk_start l < lk_end l"
  by (simp add: link_at_def)

lemma occs_chain:
  assumes "occs body (off + length bs) number n pos ls" and "off \<le> pos"
    and "take (length bs) (drop off body) = bs" and "LF \<notin> set bs"
    and "number = 1 + count_list (take off body) LF"
  shows "chain body n pos ls \<and> (\<forall>l \<in> set ls. lk_end l \<le> off + length bs)"
  using assms(1,2)
proof (induction ls arbitrary: n pos)
  case (Cons l ls)
  from Cons.prems have l: "pos \<le> lk_start l" "lk_end l \<le> off + length bs" "link_at body l"
    "lk_line l = number" by auto
  let ?k = "lk_start l - off"
  have "take (lk_start l) body = take off body @ take ?k (drop off body)"
    using l(1) Cons.prems(2) by (metis le_add_diff_inverse order_trans take_add)
  moreover have "take ?k (drop off body) = take ?k bs"
    using l link_at_start_end [OF l(3)] assms(3) by (metis add_le_cancel_left le_add_diff_inverse
        less_imp_le_nat linorder_linear min_absorb1 nat_le_linear order_trans take_take diff_le_mono
        add_diff_cancel_left')
  moreover have "count_list (take ?k bs) LF = 0"
    using assms(4) by (simp add: count_list_0_iff) (meson in_set_takeD)
  ultimately have "lk_line l = 1 + count_list (take (lk_start l) body) LF"
    using l(4) assms(5) by (simp add: count_list_append)
  moreover have "off \<le> lk_end l" using l link_at_start_end [OF l(3)] Cons.prems(2) by simp
  ultimately show ?case using Cons by auto
qed simp

lemma chain_append:
  "chain body n pos xs \<Longrightarrow> (\<forall>l \<in> set xs. lk_end l \<le> q) \<Longrightarrow> pos \<le> q \<Longrightarrow>
   chain body (n + length xs) q ys \<Longrightarrow> chain body n pos (xs @ ys)"
proof (induction xs arbitrary: n pos)
  case Nil
  then show ?case by (cases ys) auto
next
  case (Cons x xs)
  then show ?case using Cons.IH [of "n + 1" "lk_end x"] by simp
qed

lemma chain_take: "chain body n pos ls \<Longrightarrow> chain body n pos (take k ls)"
  by (induction ls arbitrary: n pos k) (auto simp: take_Cons split: nat.splits)

text \<open>The chunks of \<open>split_inclusive\<close>: every one but the last ends with its only newline.\<close>

fun good_chunks :: "str list \<Rightarrow> bool" where
  "good_chunks [] = True"
| "good_chunks (c # cs) =
     (LF \<notin> set (strip_or [LF] c) \<and> (cs \<noteq> [] \<longrightarrow> count_list c LF = 1) \<and> good_chunks cs)"

lemma strip_or_cases: "strip_or suf s = s \<or> s = strip_or suf s @ suf"
  by (auto simp: strip_or_def strip_suffix_Some split: option.splits)

lemma strip_or_LF: "strip_or [LF] (a # l) = (if l = [] \<and> a = LF then [] else a # strip_or [LF] l)"
  by (cases l rule: rev_cases) (auto simp: strip_or_def strip_suffix_def)

lemma split_inclusive_nonempty: "c \<in> set (split_inclusive s) \<Longrightarrow> c \<noteq> []"
  by (induction s) (auto split: if_splits list.splits)

lemma good_split_inclusive: "good_chunks (split_inclusive s)"
proof (induction s)
  case (Cons a s)
  show ?case
  proof (cases "split_inclusive s")
    case Nil
    then show ?thesis by (simp add: strip_or_LF) (auto simp: strip_or_def strip_suffix_def)
  next
    case (Cons c cs)
    then have "c \<noteq> []" using split_inclusive_nonempty [of c s] by simp
    moreover have "good_chunks (c # cs)" using Cons.IH Cons by simp
    ultimately show ?thesis
      using Cons by (auto simp: strip_or_LF)
  qed
qed simp

lemma links_loop_chain:
  assumes "body = pre @ concat chunks" and "good_chunks chunks"
    and "chain body 0 0 links" and "\<forall>l \<in> set links. lk_end l \<le> length pre"
  shows "chain body 0 0 (links_loop chunks (count_list pre LF) (length pre) fence links)"
  using assms
proof (induction chunks arbitrary: pre fence links)
  case (Cons chunk chunks)
  let ?raw = "strip_or [LF] chunk" and ?line = "strip_or [CR] (strip_or [LF] chunk)"
  let ?res = "\<lambda>fen ls. links_loop chunks (count_list pre LF + 1) (length pre + length chunk) fen ls"
  have IH: "chain body 0 0 (?res fen ls)"
    if "chain body 0 0 ls" "\<forall>l \<in> set ls. lk_end l \<le> length pre + length chunk" for fen ls
  proof (cases "chunks = []")
    case False
    then have "count_list (pre @ chunk) LF = count_list pre LF + 1"
      using Cons.prems(2) by (simp add: count_list_append)
    with Cons.IH [of "pre @ chunk" ls fen] Cons.prems that show ?thesis by simp
  qed (use that in simp)
  obtain t where t: "chunk = ?line @ t"
    using strip_or_cases [of "[LF]" chunk] strip_or_cases [of "[CR]" ?raw] by (metis append.assoc append_Nil2)
  have lf: "LF \<notin> set ?line"
    using Cons.prems(2) strip_or_cases [of "[CR]" ?raw] by (metis good_chunks.simps(2) UnI1 set_append)
  have window: "take (length ?line) (drop (length pre) body) = ?line"
    and bound: "length pre + length ?line \<le> length body"
    unfolding Cons.prems(1) by (subst (2) t, simp)+
  obtain new where scan: "scan_line ?line (count_list pre LF + 1) (length pre) links = links @ new"
    and occ: "occs body (length pre + length ?line) (count_list pre LF + 1) (length links) (length pre) new"
    using scan_loop_occs [OF window bound lf, of "count_list pre LF + 1" 0 None links]
    by (auto simp: scan_line_def)
  have "take (length pre) body = pre" by (simp add: Cons.prems(1))
  from occs_chain [OF occ order_refl window lf] this
  have new: "chain body (length links) (length pre) new"
    "\<forall>l \<in> set new. lk_end l \<le> length pre + length ?line" by simp_all
  have all: "chain body 0 0 (links @ new)"
    using chain_append [of body 0 0 links "length pre" new] Cons.prems(3,4) new(1) by simp
  have "length ?line \<le> length chunk" by (subst (2) t) simp
  then have ends: "\<forall>l \<in> set (links @ new). lk_end l \<le> length pre + length chunk"
    using Cons.prems(4) new(2) by (auto intro: order_trans)
  have old: "\<forall>l \<in> set links. lk_end l \<le> length pre + length chunk"
    using Cons.prems(4) by (auto intro: trans_le_add1)
  show ?case
    using IH [OF Cons.prems(3) old] IH [OF all ends] chain_take [OF all] scan
    by (auto simp: Let_def split: option.splits)
qed simp

lemma links_loop_length:
  "length links < MAX_LINK_OCCURRENCES \<Longrightarrow>
   length (links_loop chunks index offset fence links) \<le> MAX_LINK_OCCURRENCES"
  by (induction chunks index offset fence links rule: links_loop.induct)
    (auto simp: Let_def split: option.splits)

section \<open>The index\<close>

definition bucket :: "str list \<Rightarrow> str list option" where
  "bucket ns = (if ns = [] then None else Some ns)"

lemma fold_push_entry:
  "fold (\<lambda>n. push_entry (f n) n) ns m k =
     (let new = filter (\<lambda>n. f n = k) ns
      in if new = [] then m k else Some ((case m k of Some vs \<Rightarrow> vs | None \<Rightarrow> []) @ new))"
  by (induction ns arbitrary: m) (auto simp: push_entry_def Let_def)

lemma fold_index_note:
  "ni_paths (fold (index_note lower) ns ix) = fold (\<lambda>n m. m(n \<mapsto> n)) ns (ni_paths ix) \<and>
   ni_paths_ci (fold (index_note lower) ns ix) = fold (\<lambda>n. push_entry (lower n) n) ns (ni_paths_ci ix) \<and>
   ni_stems (fold (index_note lower) ns ix) = fold (\<lambda>n. push_entry (note_stem n) n) ns (ni_stems ix) \<and>
   ni_stems_ci (fold (index_note lower) ns ix) =
     fold (\<lambda>n. push_entry (lower (note_stem n)) n) ns (ni_stems_ci ix)"
  by (induction ns arbitrary: ix) (simp_all add: index_note_def Let_def)

lemma fold_upd_id: "fold (\<lambda>n m. m(n \<mapsto> n)) ns m k = (if k \<in> set ns then Some k else m k)"
  by (induction ns arbitrary: m) auto

lemma index_new_lookup:
  "ni_paths (index_new lower ns) k = (if k \<in> set ns then Some k else None)"
  "ni_paths_ci (index_new lower ns) k = bucket (filter (\<lambda>n. lower n = k) ns)"
  "ni_stems (index_new lower ns) k = bucket (filter (\<lambda>n. note_stem n = k) ns)"
  "ni_stems_ci (index_new lower ns) k = bucket (filter (\<lambda>n. lower (note_stem n) = k) ns)"
  by (simp_all add: index_new_def fold_index_note fold_upd_id fold_push_entry bucket_def Let_def)

text \<open>The specification of resolving: the notes a target names exactly, and up to case.\<close>

definition with_md :: "str \<Rightarrow> str" where
  "with_md t = (if ends_md t then t else t @ ''.md'')"

definition exact_matches :: "str \<Rightarrow> str list \<Rightarrow> str list" where
  "exact_matches t ns =
     (if CHR ''/'' \<in> set t then filter (\<lambda>n. n = with_md t) ns else filter (\<lambda>n. note_stem n = t) ns)"

definition folded_matches :: "(str \<Rightarrow> str) \<Rightarrow> str \<Rightarrow> str list \<Rightarrow> str list" where
  "folded_matches lower t ns =
     (if CHR ''/'' \<in> set t then filter (\<lambda>n. lower n = lower (with_md t)) ns
      else filter (\<lambda>n. lower (note_stem n) = lower t) ns)"

lemma filter_eq_distinct: "distinct ns \<Longrightarrow> filter (\<lambda>n. n = p) ns = (if p \<in> set ns then [p] else [])"
  by (induction ns) (auto simp: filter_empty_conv)

lemma resolve_target_cases:
  assumes "distinct notes"
  shows "resolve_target lower target notes =
    (case exact_matches target notes of
       [n] \<Rightarrow> Resolved n
     | _ \<Rightarrow> (case folded_matches lower target notes of
         [] \<Rightarrow> Missing | [n] \<Rightarrow> Resolved n | ns \<Rightarrow> Ambiguous (sort ns)))"
proof (cases "CHR ''/'' \<in> set target")
  case True
  then show ?thesis
    using assms
    by (auto simp: resolve_target_def resolve_def index_new_lookup exact_matches_def folded_matches_def
        with_md_def [symmetric] filter_eq_distinct bucket_def single_def
        split: list.splits option.splits)
next
  case False
  then show ?thesis
    by (auto simp: resolve_target_def resolve_def index_new_lookup exact_matches_def folded_matches_def
        bucket_def single_def Option.bind_eq_Some_conv split: list.splits option.splits)
qed

lemma resolve_exact:
  "distinct notes \<Longrightarrow> exact_matches t notes = [n] \<Longrightarrow> resolve_target lower t notes = Resolved n"
  by (simp add: resolve_target_cases)

section \<open>Properties\<close>

lemma parse_links_chain: "chain body 0 0 (parse_links body)"
  using links_loop_chain [of body "[]" "split_inclusive body" "[]" None] good_split_inclusive [of body]
  by (simp add: parse_links_def)

text \<open>C10: Every link the scanner reports is where it says it is: the occurrences are numbered
  0, 1, 2 and so on, in order and without overlap, at most 512; each one's span of the body is
  exactly \<open>[[content]]\<close> on the line given, and target, alias and fragment are read from that
  content.\<close>

theorem parse_links_occurrences:
  "chain body 0 0 (parse_links body) \<and> length (parse_links body) \<le> 512"
  using parse_links_chain
    links_loop_length [of "[]" "split_inclusive body" 0 0 None] good_split_inclusive [of body]
  by (simp add: parse_links_def MAX_LINK_OCCURRENCES_def)

text \<open>A target resolves to the note it names exactly when that note is unique, otherwise to
  the unique note it names up to case; several candidates are reported sorted and never one
  picked, and no candidate is missing.\<close>

theorem resolve_target_spec:
  assumes "distinct notes"
  shows "resolve_target lower target notes =
    (case exact_matches target notes of
       [n] \<Rightarrow> Resolved n
     | _ \<Rightarrow> (case folded_matches lower target notes of
         [] \<Rightarrow> Missing | [n] \<Rightarrow> Resolved n | ns \<Rightarrow> Ambiguous (sort ns)))"
  using assms by (rule resolve_target_cases)

theorem resolve_target_spec_witness:
  "resolve_target id ''note'' [''a/note.md'', ''b/note.md''] = Ambiguous [''a/note.md'', ''b/note.md'']"
  using resolve_target_spec [of "[''a/note.md'', ''b/note.md'']" id "''note''"]
  by (simp add: exact_matches_def folded_matches_def note_stem_def base_name_def strip_suffix_def
      less_char_def less_eq_char_def)

section \<open>Respelled targets\<close>

lemma find_close_at_plain:
  "CHR ''['' \<notin> set s \<Longrightarrow> CHR '']'' \<notin> set s \<Longrightarrow> find_close_at (s @ '']]'') i = Some (i + length s)"
proof (induction s arbitrary: i)
  case (Cons a s)
  obtain b rest where b: "s @ '']]'' = b # rest" by (cases s) auto
  from Cons.IH [of "i + 1"] Cons.prems have "find_close_at (b # rest) (i + 1) = Some (i + 1 + length s)"
    unfolding b by simp
  with Cons.prems b show ?case by auto
qed simp

lemma split_inclusive_single: "s \<noteq> [] \<Longrightarrow> LF \<notin> set s \<Longrightarrow> split_inclusive s = [s]"
proof (induction s)
  case (Cons a s)
  then show ?case by (cases "s = []") auto
qed simp

lemma has_control_LF: "LF \<in> set s \<Longrightarrow> has_control s"
  by (induction s) (auto simp: code_def)

lemma strip_or_no_suffix: "suf \<noteq> drop (length s - length suf) s \<Longrightarrow> strip_or suf s = s"
  by (simp add: strip_or_def strip_suffix_def)

lemma parse_links_single:
  assumes "s \<noteq> []" and "length s \<le> MAX_LINK_TARGET_BYTES" and "LF \<notin> set s"
    and "set s \<inter> {CHR ''['', CHR '']'', CHR ''|'', CHR ''#''} = {}"
  shows "parse_links (''[['' @ s @ '']]'') =
    [\<lparr>lk_seq = 0, lk_line = 1, lk_target = s, lk_alias = None, lk_fragment = None,
      lk_start = 0, lk_end = length s + 4\<rparr>]"
proof -
  let ?body = "''[['' @ s @ '']]''"
  have chunks: "split_inclusive ?body = [?body]" using assms(3) by (intro split_inclusive_single) auto
  have strip: "strip_or [LF] ?body = ?body" "strip_or [CR] ?body = ?body"
    by (rule strip_or_no_suffix, simp)+
  have "trim_start ?body = ?body"
    by (simp add: trim_eval split: list.splits)
  then have fence: "opens_fence ?body = None" by (simp add: opens_fence_def)
  have close: "find_close ?body 2 = Some (2 + length s)"
    using find_close_at_plain [of s 2] assms(4) by (auto simp: find_close_def)
  have lk: "link_from s 1 0 = Some \<lparr>lk_seq = 0, lk_line = 1, lk_target = s, lk_alias = None,
      lk_fragment = None, lk_start = 0, lk_end = 0\<rparr>"
  proof -
    have "split_once (CHR ''|'') s = None" "split_once (CHR ''#'') s = None"
      using assms(4) by (auto simp: split_once_None)
    then show ?thesis using assms(1,2) by (simp add: link_from_def nonempty_def Let_def)
  qed
  have last: "scan_loop ?body 1 0 (length s + 4) None ls = ls" for ls
    by (subst scan_loop.simps) simp
  have "scan_loop ?body 1 0 0 None [] =
      [\<lparr>lk_seq = 0, lk_line = 1, lk_target = s, lk_alias = None, lk_fragment = None,
        lk_start = 0, lk_end = length s + 4\<rparr>]"
    using close lk last by (subst scan_loop.simps) (simp add: is_escaped_def numeral_eq_Suc)
  then show ?thesis
    using chunks strip fence
    by (simp add: parse_links_def scan_line_def Let_def MAX_LINK_OCCURRENCES_def)
qed

lemma base_name_no_slash: "CHR ''/'' \<notin> set (base_name p)"
  by (auto simp: base_name_def dest: set_takeWhileD)

text \<open>A target respelled after a move is one the scanner reads back as exactly that one
  target, and it resolves to the moved note, provided the note is an \<open>.md\<close> file of the vault
  whose stem does not itself end in \<open>.md\<close> and, for a bare target, no other note has the stem.\<close>

theorem retarget_roundtrip:
  assumes "retarget target (q @ ''.md'') = Some s" and "\<not> ends_md q"
    and "q @ ''.md'' \<in> set notes" and "distinct notes"
    and "CHR ''/'' \<notin> set s \<Longrightarrow> filter (\<lambda>n. note_stem n = s) notes = [q @ ''.md'']"
  shows "map lk_target (parse_links (''[['' @ s @ '']]'')) = [s] \<and>
    resolve_target lower s notes = Resolved (q @ ''.md'')"
proof
  have s: "s \<noteq> []" "length s \<le> MAX_LINK_TARGET_BYTES" "\<not> has_control s"
    "set s \<inter> {CHR ''['', CHR '']'', CHR ''|'', CHR ''#''} = {}"
    using assms(1) by (auto simp: retarget_def Let_def list_all_iff split: if_splits)
  then have "LF \<notin> set s" using has_control_LF by blast
  from parse_links_single [OF s(1,2) this s(4)]
  show "map lk_target (parse_links (''[['' @ s @ '']]'')) = [s]" by simp
next
  have strip: "strip_or ''.md'' (q @ ''.md'') = q" by (simp add: strip_or_def strip_suffix_def)
  have md: "ends_md (q @ ''.md'')" by (simp add: ends_md_def strip_suffix_def)
  have form: "s = q @ ''.md'' \<or> s = q \<or> s = note_stem (q @ ''.md'')"
    using assms(1) strip by (auto simp: retarget_def Let_def split: if_splits)
  have "exact_matches s notes = [q @ ''.md'']"
  proof (cases "CHR ''/'' \<in> set s")
    case True
    have "base_name (q @ ''.md'') = base_name q @ ''.md''" by (simp add: base_name_def)
    then have "note_stem (q @ ''.md'') = base_name q" by (simp add: note_stem_def strip_suffix_def)
    with form True base_name_no_slash have "s = q @ ''.md'' \<or> s = q" by auto
    then have "with_md s = q @ ''.md''" using md assms(2) by (auto simp: with_md_def)
    then show ?thesis using True assms(3,4) by (simp add: exact_matches_def filter_eq_distinct)
  next
    case False
    then show ?thesis using assms(5) by (simp add: exact_matches_def)
  qed
  then show "resolve_target lower s notes = Resolved (q @ ''.md'')"
    using resolve_exact [OF assms(4)] by simp
qed

theorem retarget_roundtrip_witness:
  "map lk_target (parse_links ''[[new]]'') = [''new''] \<and>
   resolve_target id ''new'' [''dir/new.md'', ''x.md''] = Resolved ''dir/new.md''"
proof -
  have a: "retarget ''old'' (''dir/new'' @ ''.md'') = Some ''new''"
    by (simp add: retarget_def note_stem_def base_name_def strip_suffix_def code_def
        MAX_LINK_TARGET_BYTES_def)
  have b: "\<not> ends_md ''dir/new''" by (simp add: ends_md_def strip_suffix_def)
  have c: "filter (\<lambda>n. note_stem n = ''new'') [''dir/new.md'', ''x.md''] = [''dir/new'' @ ''.md'']"
    by (simp add: note_stem_def base_name_def strip_suffix_def)
  from retarget_roundtrip [OF a b _ _ c, of id] show ?thesis by simp
qed

end
