(* ===== verification/Cli_View.thy ===== *)
theory Cli_View
  imports Rust_Strings
begin

text \<open>
  The backend of the \<open>cli_view\<close> pane, \<open>crates/gpty-core/src/cli.rs\<close>: splitting a child's
  output into lines of bounded length, the bounded queue both reader threads push to (blocking
  when it is full) and the pane drains, and the life cycle of the child.  The threads are a
  step relation; a reader in the middle of \<open>LineQueue::push\<close> holds the lines it has still to
  push.  What \<open>try_wait\<close> answers is an argument, and the signals sent are recorded.
\<close>

section \<open>Lines\<close>

definition QUEUE_LINES :: nat where "QUEUE_LINES = 512"
definition MAX_LINE_BYTES :: nat where "MAX_LINE_BYTES = 16 * 1024"

definition take_line :: "bytes \<Rightarrow> str" where
  "take_line pending =
     from_utf8_lossy (if pending \<noteq> [] \<and> last pending = CR then butlast pending else pending)"

text \<open>\<open>push_chunk\<close> returns the new pending bytes and the lines it pushes.\<close>

fun push_chunk :: "nat \<Rightarrow> bytes \<Rightarrow> bytes \<Rightarrow> bytes \<times> str list" where
  "push_chunk mx pending [] = (pending, [])"
| "push_chunk mx pending (b # bs) =
     (if b = LF then
        (case push_chunk mx [] bs of (p, out) \<Rightarrow> (p, take_line pending # out))
      else if mx \<le> length pending then
        (case push_chunk mx [b] bs of (p, out) \<Rightarrow> (p, from_utf8_lossy pending # out))
      else push_chunk mx (pending @ [b]) bs)"

definition flush_pending :: "bytes \<Rightarrow> str list" where
  "flush_pending pending = (if pending = [] then [] else [take_line pending])"

interpretation cli_lines: stream_consumer "push_chunk mx" for mx
proof
  fix s :: bytes and xs ys :: bytes
  show "push_chunk mx s [] = (s, [])" by simp
  show "push_chunk mx s (xs @ ys) =
      (case push_chunk mx s xs of (s', out) \<Rightarrow>
        case push_chunk mx s' ys of (s'', out') \<Rightarrow> (s'', out @ out'))"
    by (induction mx s xs rule: push_chunk.induct) (auto split: prod.splits)
qed

text \<open>Everything a stream produces by its end.\<close>

definition stream_lines :: "nat \<Rightarrow> bytes \<Rightarrow> str list" where
  "stream_lines mx bs = (case push_chunk mx [] bs of (p, out) \<Rightarrow> out @ flush_pending p)"

section \<open>The queue\<close>

record line_q =
  q_lines :: "str list"
  q_closed :: bool

definition q_new :: line_q where "q_new = \<lparr>q_lines = [], q_closed = False\<rparr>"

text \<open>One turn of the loop of \<open>push\<close>: \<open>None\<close> while it has to wait for space; otherwise the
  queue and the lines still to push (none when the queue is closed: they are discarded).\<close>

definition q_push_one :: "line_q \<Rightarrow> str \<Rightarrow> str list \<Rightarrow> (line_q \<times> str list) option" where
  "q_push_one q l ls =
     (if QUEUE_LINES \<le> length (q_lines q) \<and> \<not> q_closed q then None
      else if q_closed q then Some (q, [])
      else Some (q\<lparr>q_lines := q_lines q @ [l]\<rparr>, ls))"

definition q_drain :: "line_q \<Rightarrow> line_q \<times> str list" where
  "q_drain q = (q\<lparr>q_lines := []\<rparr>, q_lines q)"

definition q_close :: "line_q \<Rightarrow> line_q" where
  "q_close q = q\<lparr>q_closed := True\<rparr>"

section \<open>The readers\<close>

text \<open>A reader of \<open>read_lines\<close>: its pending bytes, the lines it is pushing, and whether its
  stream has ended.\<close>

record reader =
  r_pending :: bytes
  r_pushing :: "str list"
  r_eof :: bool

definition reader_new :: reader where
  "reader_new = \<lparr>r_pending = [], r_pushing = [], r_eof = False\<rparr>"

definition reader_read :: "bytes \<Rightarrow> reader \<Rightarrow> reader" where
  "reader_read bs r = (case push_chunk MAX_LINE_BYTES (r_pending r) bs of
     (p, out) \<Rightarrow> r\<lparr>r_pending := p, r_pushing := out\<rparr>)"

text \<open>End of the stream, or a read error: flush the partial line.\<close>

definition reader_eof :: "reader \<Rightarrow> reader" where
  "reader_eof r = r\<lparr>r_pending := [], r_pushing := flush_pending (r_pending r), r_eof := True\<rparr>"

text \<open>The two readers and the queue, with what each has read, what each has queued and what the
  pane has drained so far.\<close>

record cli_sys =
  s_queue :: line_q
  s_out :: reader
  s_err :: reader
  s_out_read :: bytes
  s_err_read :: bytes
  s_out_sent :: "str list"
  s_err_sent :: "str list"
  s_drained :: "str list"

definition sys_new :: cli_sys where
  "sys_new = \<lparr>s_queue = q_new, s_out = reader_new, s_err = reader_new, s_out_read = [],
     s_err_read = [], s_out_sent = [], s_err_sent = [], s_drained = []\<rparr>"

inductive cli_step :: "cli_sys \<Rightarrow> cli_sys \<Rightarrow> bool" where
  out_read: "\<not> r_eof (s_out s) \<Longrightarrow> r_pushing (s_out s) = [] \<Longrightarrow> bs \<noteq> [] \<Longrightarrow>
    cli_step s (s\<lparr>s_out := reader_read bs (s_out s), s_out_read := s_out_read s @ bs\<rparr>)"
| out_eof: "\<not> r_eof (s_out s) \<Longrightarrow> r_pushing (s_out s) = [] \<Longrightarrow>
    cli_step s (s\<lparr>s_out := reader_eof (s_out s)\<rparr>)"
| out_push: "r_pushing (s_out s) = l # ls \<Longrightarrow> q_push_one (s_queue s) l ls = Some (q, rest) \<Longrightarrow>
    cli_step s (s\<lparr>s_queue := q, s_out := (s_out s)\<lparr>r_pushing := rest\<rparr>, s_out_sent := s_out_sent s @ [l]\<rparr>)"
| err_read: "\<not> r_eof (s_err s) \<Longrightarrow> r_pushing (s_err s) = [] \<Longrightarrow> bs \<noteq> [] \<Longrightarrow>
    cli_step s (s\<lparr>s_err := reader_read bs (s_err s), s_err_read := s_err_read s @ bs\<rparr>)"
| err_eof: "\<not> r_eof (s_err s) \<Longrightarrow> r_pushing (s_err s) = [] \<Longrightarrow>
    cli_step s (s\<lparr>s_err := reader_eof (s_err s)\<rparr>)"
| err_push: "r_pushing (s_err s) = l # ls \<Longrightarrow> q_push_one (s_queue s) l ls = Some (q, rest) \<Longrightarrow>
    cli_step s (s\<lparr>s_queue := q, s_err := (s_err s)\<lparr>r_pushing := rest\<rparr>, s_err_sent := s_err_sent s @ [l]\<rparr>)"
| drain: "q_drain (s_queue s) = (q, out) \<Longrightarrow>
    cli_step s (s\<lparr>s_queue := q, s_drained := s_drained s @ out\<rparr>)"

inductive_cases cli_stepE: "cli_step s s'"

inductive cli_reachable :: "cli_sys \<Rightarrow> cli_sys \<Rightarrow> bool" for s0 where
  start: "cli_reachable s0 s0"
| step: "cli_reachable s0 s \<Longrightarrow> cli_step s s' \<Longrightarrow> cli_reachable s0 s'"

section \<open>The child\<close>

datatype wait_result = Waited "int option" | Still_Running | Wait_Error

datatype reason = Killed | Exited_Itself

datatype signal = Kill_Group | Kill_Child

record cli_process =
  p_program :: str
  p_args :: "str list"
  p_child :: nat
  p_queue :: line_q
  p_exit_code :: "int option"
  p_exit_reason :: "reason option"
  p_signals :: "signal list"

definition REAP_ATTEMPTS :: nat where "REAP_ATTEMPTS = 20"

definition cli_running :: "cli_process \<Rightarrow> bool" where
  "cli_running c = (p_exit_reason c = None)"

definition cli_pid :: "cli_process \<Rightarrow> nat option" where
  "cli_pid c = (if cli_running c then Some (p_child c) else None)"

definition refresh :: "wait_result \<Rightarrow> cli_process \<Rightarrow> cli_process" where
  "refresh w c =
     (if p_exit_reason c \<noteq> None then c
      else (case w of
          Waited ec \<Rightarrow> c\<lparr>p_exit_code := ec, p_exit_reason := Some Exited_Itself\<rparr>
        | Still_Running \<Rightarrow> c
        | Wait_Error \<Rightarrow> c\<lparr>p_exit_reason := Some Exited_Itself\<rparr>))"

text \<open>The bounded loop of \<open>reap\<close>: \<open>n\<close> attempts left, \<open>ws i\<close> the answer to the \<open>i\<close>-th.\<close>

fun reap_loop :: "nat \<Rightarrow> nat \<Rightarrow> (nat \<Rightarrow> wait_result) \<Rightarrow> cli_process \<Rightarrow> cli_process" where
  "reap_loop 0 i ws c = c"
| "reap_loop (Suc n) i ws c =
     (case ws i of
        Waited ec \<Rightarrow> c\<lparr>p_exit_code := ec\<rparr>
      | Still_Running \<Rightarrow> reap_loop n (i + 1) ws c
      | Wait_Error \<Rightarrow> c)"

definition reap :: "(nat \<Rightarrow> wait_result) \<Rightarrow> cli_process \<Rightarrow> cli_process" where
  "reap ws c = reap_loop REAP_ATTEMPTS 0 ws c"

definition stop :: "wait_result \<Rightarrow> (nat \<Rightarrow> wait_result) \<Rightarrow> cli_process \<Rightarrow> cli_process" where
  "stop w ws c =
     (if p_exit_reason c \<noteq> None then c
      else (let c1 = refresh w c
            in if p_exit_reason c1 \<noteq> None then c1
               else (let c2 = c1\<lparr>p_exit_reason := Some Killed,
                                 p_signals := p_signals c1 @ [Kill_Group, Kill_Child]\<rparr>;
                         c3 = reap ws c2
                     in c3\<lparr>p_queue := q_close (p_queue c3)\<rparr>)))"

record cli_status =
  cs_program :: str
  cs_args :: "str list"
  cs_pid :: "nat option"
  cs_running :: bool
  cs_exit_code :: "int option"
  cs_exit_reason :: "reason option"

definition idle_status :: cli_status where
  "idle_status = \<lparr>cs_program = [], cs_args = [], cs_pid = None, cs_running = False,
     cs_exit_code = None, cs_exit_reason = None\<rparr>"

definition cli_status_of :: "wait_result \<Rightarrow> cli_process \<Rightarrow> cli_process \<times> cli_status" where
  "cli_status_of w c =
     (let c1 = refresh w c
      in (c1, \<lparr>cs_program = p_program c1, cs_args = p_args c1, cs_pid = cli_pid c1,
               cs_running = cli_running c1, cs_exit_code = p_exit_code c1,
               cs_exit_reason = p_exit_reason c1\<rparr>))"

section \<open>Lines: bounds and meaning\<close>

lemma utf8_head_pos: "1 \<le> snd (utf8_head a rest)"
  by (simp add: utf8_head_def split: list.splits)

lemma utf8_chunks_nonempty: "c \<in> set (utf8_chunks bs) \<Longrightarrow> snd c \<noteq> []"
  by (induction bs rule: utf8_chunks.induct) (auto split: prod.splits)

lemma lossy_length: "length (from_utf8_lossy bs) \<le> 3 * length bs"
proof -
  have chunk: "length (if fst c then snd c else replacement) \<le> 3 * length (snd c)"
    if "snd c \<noteq> []" for c :: "bool \<times> bytes"
    using that by (cases "snd c") (auto simp: replacement_def)
  have "sum_list (map (\<lambda>c. length (if fst c then snd c else replacement)) (utf8_chunks bs))
      \<le> sum_list (map (\<lambda>c. 3 * length (snd c)) (utf8_chunks bs))"
    by (rule sum_list_mono) (use chunk utf8_chunks_nonempty in blast)
  also have "\<dots> = 3 * length (concat (map snd (utf8_chunks bs)))"
    by (simp add: length_concat sum_list_const_mult comp_def)
  finally show ?thesis
    by (simp add: from_utf8_lossy_def length_concat comp_def case_prod_beta concat_utf8_chunks)
qed

lemma take_line_length: "length (take_line p) \<le> 3 * length p"
  using lossy_length [of "butlast p"] lossy_length [of p] by (auto simp: take_line_def)

lemma push_chunk_bounded:
  "0 < mx \<Longrightarrow> length pending \<le> mx \<Longrightarrow> push_chunk mx pending bs = (p, out) \<Longrightarrow>
   length p \<le> mx \<and> list_all (\<lambda>l. length l \<le> 3 * mx) out"
proof (induction mx pending bs arbitrary: p out rule: push_chunk.induct)
  case (2 mx pending b bs)
  have "length (take_line pending) \<le> 3 * mx" "length (from_utf8_lossy pending) \<le> 3 * mx"
    using take_line_length [of pending] lossy_length [of pending] "2.prems"(2) by simp_all
  with 2 show ?case by (auto split: if_splits prod.splits)
qed simp

text \<open>A text whose lines fit the bound.\<close>

lemma push_chunk_plain:
  "LF \<notin> set l \<Longrightarrow> length (p @ l) \<le> mx \<Longrightarrow> push_chunk mx p l = (p @ l, [])"
  by (induction l arbitrary: p) auto

lemma push_chunk_line:
  assumes "LF \<notin> set l" and "length l \<le> mx"
  shows "push_chunk mx [] (l @ LF # rest) =
    (case push_chunk mx [] rest of (p, out) \<Rightarrow> (p, take_line l # out))"
  using cli_lines.feed_append [of mx "[]" l "LF # rest"] push_chunk_plain [of l "[]" mx] assms
  by (auto split: prod.splits)

lemma shuffles_snoc:
  "zs \<in> shuffles xs ys \<Longrightarrow> zs @ [a] \<in> shuffles (xs @ [a]) ys"
proof (induction xs ys arbitrary: zs rule: shuffles.induct)
  case (1 ys)
  then have "zs = ys" by simp
  moreover have "ys @ [a] \<in> shuffles [a] ys" for ys :: "'a list"
    by (induction ys) (auto intro: Cons_in_shuffles_rightI)
  ultimately show ?case by simp
next
  case (2 xs)
  then show ?case by simp
next
  case (3 x xs y ys)
  then show ?case by auto
qed

lemma shuffles_snoc_right: "zs \<in> shuffles xs ys \<Longrightarrow> zs @ [a] \<in> shuffles xs (ys @ [a])"
  using shuffles_snoc [of zs ys xs a] by (simp add: shuffles_commutes)

section \<open>The invariant of the readers and the queue\<close>

definition reader_inv :: "reader \<Rightarrow> bytes \<Rightarrow> str list \<Rightarrow> bool" where
  "reader_inv r bs sent \<longleftrightarrow> length (r_pending r) \<le> MAX_LINE_BYTES \<and>
     (if r_eof r then sent @ r_pushing r = stream_lines MAX_LINE_BYTES bs
      else push_chunk MAX_LINE_BYTES [] bs = (r_pending r, sent @ r_pushing r))"

definition cli_inv :: "cli_sys \<Rightarrow> bool" where
  "cli_inv s \<longleftrightarrow> \<not> q_closed (s_queue s) \<and> length (q_lines (s_queue s)) \<le> QUEUE_LINES \<and>
     reader_inv (s_out s) (s_out_read s) (s_out_sent s) \<and>
     reader_inv (s_err s) (s_err_read s) (s_err_sent s) \<and>
     s_drained s @ q_lines (s_queue s) \<in> shuffles (s_out_sent s) (s_err_sent s)"

lemma MAX_LINE_BYTES_pos: "0 < MAX_LINE_BYTES"
  by (simp add: MAX_LINE_BYTES_def)

lemma reader_read_inv:
  assumes "reader_inv r bs sent" and "\<not> r_eof r" and "r_pushing r = []"
  shows "reader_inv (reader_read new r) (bs @ new) sent"
proof -
  obtain p out where c: "push_chunk MAX_LINE_BYTES (r_pending r) new = (p, out)" by force
  with assms show ?thesis
    using push_chunk_bounded [OF MAX_LINE_BYTES_pos _ c]
    by (simp add: reader_inv_def reader_read_def cli_lines.feed_append)
qed

lemma reader_eof_inv:
  "reader_inv r bs sent \<Longrightarrow> \<not> r_eof r \<Longrightarrow> r_pushing r = [] \<Longrightarrow> reader_inv (reader_eof r) bs sent"
  by (simp add: reader_inv_def reader_eof_def stream_lines_def)

lemma reader_push_inv:
  "reader_inv r bs sent \<Longrightarrow> r_pushing r = l # ls \<Longrightarrow>
   reader_inv (r\<lparr>r_pushing := ls\<rparr>) bs (sent @ [l])"
  by (auto simp: reader_inv_def split: if_splits)

lemma push_one_open:
  "\<not> q_closed q \<Longrightarrow> q_push_one q l ls = Some (q', rest) \<Longrightarrow>
   rest = ls \<and> q' = q\<lparr>q_lines := q_lines q @ [l]\<rparr> \<and> length (q_lines q) < QUEUE_LINES"
  by (auto simp: q_push_one_def split: if_splits)

lemma cli_step_inv: "cli_step s s' \<Longrightarrow> cli_inv s \<Longrightarrow> cli_inv s'"
proof (induction rule: cli_step.induct)
  case (out_push s l ls q rest)
  then show ?case
    using push_one_open [of "s_queue s" l ls q rest] reader_push_inv [of "s_out s" _ _ l ls]
      shuffles_snoc [of "s_drained s @ q_lines (s_queue s)" "s_out_sent s" "s_err_sent s" l]
    by (auto simp: cli_inv_def)
next
  case (err_push s l ls q rest)
  then show ?case
    using push_one_open [of "s_queue s" l ls q rest] reader_push_inv [of "s_err s" _ _ l ls]
      shuffles_snoc_right [of "s_drained s @ q_lines (s_queue s)" "s_out_sent s" "s_err_sent s" l]
    by (auto simp: cli_inv_def)
qed (auto simp: cli_inv_def q_drain_def reader_read_inv reader_eof_inv)

lemma sys_new_inv: "cli_inv sys_new"
  by (simp add: cli_inv_def sys_new_def q_new_def reader_inv_def reader_new_def)

lemma cli_reachable_inv: "cli_reachable sys_new s \<Longrightarrow> cli_inv s"
  by (induction rule: cli_reachable.induct) (auto intro: sys_new_inv cli_step_inv)

section \<open>Properties\<close>



text \<open>The lines of a stream are its lines: a text whose lines fit the bound comes out line
  by line, however it was chunked, each without its newline and one carriage return before it,
  and an unterminated tail is a line too.\<close>

theorem stream_lines_of_text:
  assumes "list_all (\<lambda>l. LF \<notin> set l \<and> length l \<le> mx) ls" and "LF \<notin> set tail" and "length tail \<le> mx"
    and "concat chunks = concat (map (\<lambda>l. l @ [LF]) ls) @ tail"
  shows "(case cli_lines.feed_all mx [] chunks of (p, out) \<Rightarrow> out @ flush_pending p) =
    map take_line ls @ flush_pending tail"
proof -
  have "push_chunk mx [] (concat (map (\<lambda>l. l @ [LF]) ls) @ tail) = (tail, map take_line ls)"
    using assms(1) by (induction ls) (simp_all add: push_chunk_line push_chunk_plain assms(2,3))
  then show ?thesis by (simp add: cli_lines.feed_all_concat assms(4))
qed

theorem stream_lines_of_text_witness:
  "(case cli_lines.feed_all 16 [] [''ab'' @ [CR], [LF] @ ''c'', ''d''] of (p, out) \<Rightarrow> out @ flush_pending p)
     = [''ab'', ''cd'']"
  using stream_lines_of_text [of 16 "[''ab'' @ [CR]]" "''cd''" "[''ab'' @ [CR], [LF] @ ''c'', ''d'']"]
  by (simp add: flush_pending_def take_line_def from_utf8_lossy_valid ascii_valid ascii_def code_def)

text \<open>A line of exactly the bound's length that ends in CRLF comes out as two lines, the second
  empty: the carriage return opens a new piece.\<close>

theorem crlf_at_the_bound_adds_an_empty_line:
  assumes "length l = mx" and "0 < mx" and "LF \<notin> set l"
  shows "stream_lines mx (l @ [CR, LF]) = [from_utf8_lossy l, []]"
proof -
  have "push_chunk mx [] (l @ [CR, LF]) = ([], [from_utf8_lossy l, take_line [CR]])"
    using cli_lines.feed_append [of mx "[]" l "[CR, LF]"] push_chunk_plain [of l "[]" mx] assms
    by simp
  then show ?thesis
    by (simp add: stream_lines_def flush_pending_def take_line_def from_utf8_lossy_valid ascii_valid
        ascii_def)
qed

theorem crlf_at_the_bound_adds_an_empty_line_witness:
  "stream_lines 2 (''ab'' @ [CR, LF]) = [''ab'', []]"
  using crlf_at_the_bound_adds_an_empty_line [of "''ab''" 2]
  by (simp add: from_utf8_lossy_valid ascii_valid ascii_def code_def)

lemma reap_loop_frame:
  "p_exit_reason (reap_loop n i ws c) = p_exit_reason c \<and> p_signals (reap_loop n i ws c) = p_signals c \<and>
   p_queue (reap_loop n i ws c) = p_queue c \<and> p_program (reap_loop n i ws c) = p_program c \<and>
   p_args (reap_loop n i ws c) = p_args c \<and> p_child (reap_loop n i ws c) = p_child c"
  by (induction n i ws c rule: reap_loop.induct) (auto split: wait_result.splits)

lemma reap_loop_code:
  "i + k < n + i \<Longrightarrow> (\<forall>j < k. ws (i + j) = Still_Running) \<Longrightarrow> ws (i + k) = Waited ec \<Longrightarrow>
   p_exit_code (reap_loop n i ws c) = ec"
proof (induction n arbitrary: i k)
  case (Suc n)
  show ?case
  proof (cases k)
    case (Suc k')
    then have "ws i = Still_Running" "\<forall>j < k'. ws (Suc i + j) = Still_Running"
      using Suc.prems(2) by auto
    then show ?thesis using Suc.IH [of "Suc i" k'] Suc.prems Suc by simp
  qed (use Suc.prems in simp)
qed simp

text \<open>Stopping ends the process for good and tells the truth about how: afterwards it is not
  running and has no pid; a child still alive is killed with its whole group, the reason is
  \<open>killed\<close> and the queue is closed; a child that had ended by itself is not signalled and keeps
  that reason; and stopping again changes nothing.\<close>

theorem stop_settles_the_child:
  assumes "p_exit_reason c = None"
  shows "\<not> cli_running (stop w ws c) \<and> cli_pid (stop w ws c) = None \<and>
    stop w' ws' (stop w ws c) = stop w ws c \<and>
    (w = Still_Running \<longrightarrow> p_exit_reason (stop w ws c) = Some Killed \<and>
       p_signals (stop w ws c) = p_signals c @ [Kill_Group, Kill_Child] \<and>
       q_closed (p_queue (stop w ws c))) \<and>
    (w \<noteq> Still_Running \<longrightarrow> p_exit_reason (stop w ws c) = Some Exited_Itself \<and>
       p_signals (stop w ws c) = p_signals c) \<and>
    (\<forall>ec. w = Waited ec \<longrightarrow> p_exit_code (stop w ws c) = ec)"
  using assms
  by (cases w) (auto simp: stop_def refresh_def Let_def reap_def reap_loop_frame cli_running_def
      cli_pid_def q_close_def)

definition sample_process :: "str list \<Rightarrow> cli_process" where
  "sample_process ls = \<lparr>p_program = ''tool'', p_args = [], p_child = 7,
     p_queue = \<lparr>q_lines = ls, q_closed = False\<rparr>, p_exit_code = None, p_exit_reason = None,
     p_signals = []\<rparr>"

theorem stop_settles_the_child_witness:
  "p_exit_reason (stop Still_Running (\<lambda>_. Waited None) (sample_process [])) = Some Killed"
  using stop_settles_the_child [of "sample_process []" Still_Running]
  by (simp add: sample_process_def)

text \<open>But when the child ended by itself the queue is left open, so a reader waiting for space
  then waits for ever: whatever the readers do, as long as nobody drains, it never gets on.\<close>

theorem stop_after_exit_strands_the_reader:
  assumes "p_exit_reason c = None" and "\<not> q_closed (p_queue c)"
    and "length (q_lines (p_queue c)) = QUEUE_LINES"
    and "s_queue s = p_queue (stop (Waited ec) ws c)" and "r_pushing (s_out s) = l # ls"
    and "(\<lambda>a b. cli_step a b \<and> s_drained b = s_drained a)\<^sup>*\<^sup>* s s'"
  shows "r_pushing (s_out s') = l # ls \<and> \<not> q_closed (s_queue s')"
proof -
  let ?stuck = "\<lambda>s. r_pushing (s_out s) = l # ls \<and> \<not> q_closed (s_queue s) \<and>
      length (q_lines (s_queue s)) = QUEUE_LINES"
  have "?stuck s'" using assms(6)
  proof (induction rule: rtranclp_induct)
    case base
    then show ?case using assms by (simp add: stop_def refresh_def Let_def)
  next
    case (step a b)
    from step.hyps(2) have "cli_step a b" "s_drained b = s_drained a" by simp_all
    then show ?case using step.IH
      by (elim cli_stepE) (auto simp: q_push_one_def q_drain_def QUEUE_LINES_def)
  qed
  then show ?thesis by simp
qed

theorem stop_after_exit_strands_the_reader_witness:
  "r_pushing (s_out (sys_new\<lparr>s_queue := p_queue (stop (Waited (Some 0)) (\<lambda>_. Wait_Error)
       (sample_process (replicate 512 ''x''))), s_out := reader_new\<lparr>r_pushing := [''y'']\<rparr>\<rparr>)) = [''y'']"
  using stop_after_exit_strands_the_reader
    [of "sample_process (replicate 512 ''x'')"
      "sys_new\<lparr>s_queue := p_queue (stop (Waited (Some 0)) (\<lambda>_. Wait_Error)
         (sample_process (replicate 512 ''x''))), s_out := reader_new\<lparr>r_pushing := [''y'']\<rparr>\<rparr>"
      "Some 0" "\<lambda>_. Wait_Error" "''y''" "[]"]
  by (simp add: sample_process_def QUEUE_LINES_def)

end
