(* ===== verification/Omp_Events.thy ===== *)
theory Omp_Events
  imports Json Agent_State
begin

text \<open>
  The event socket of \<open>crates/gpty-gdext/src/omp_events.rs\<close>: terminals registered with a
  capability, the translation of a submitted event through the field allowlist, the bounded
  queue the frame drains, and the subscriptions that are fanned events out to.  The process
  state is one record; each lock is held for the whole of the operation that takes it.  Random
  bytes, the serialized size of a value, the JSON text parser and the clock (milliseconds) are
  arguments.
\<close>

unbundle bit_operations_syntax

section \<open>Bounds and vocabulary\<close>

definition PROTOCOL_VERSION :: nat where "PROTOCOL_VERSION = 1"
definition MAX_GLOBAL_EVENTS :: nat where "MAX_GLOBAL_EVENTS = 4096"
definition MAX_SESSION_EVENTS :: nat where "MAX_SESSION_EVENTS = 1024"
definition MAX_QUEUED_BYTES :: nat where "MAX_QUEUED_BYTES = 4 * 1024 * 1024"
definition MAX_ID_LEN :: nat where "MAX_ID_LEN = 128"
definition MAX_THINKING_BYTES :: nat where "MAX_THINKING_BYTES = 8 * 1024"
definition MAX_STATE_LEN :: nat where "MAX_STATE_LEN = 32"
definition SEQ_RESET_CEILING :: nat where "SEQ_RESET_CEILING = 128"
definition MAX_SUBSCRIPTIONS :: nat where "MAX_SUBSCRIPTIONS = 64"
definition SUBSCRIPTION_IDLE :: nat where "SUBSCRIPTION_IDLE = 120 * 1000"
definition MAX_QUEUED_EVENTS :: nat where "MAX_QUEUED_EVENTS = 256"

definition ALLOWED_EVENTS :: "str list" where
  "ALLOWED_EVENTS =
     [''omp.session.bound'', ''omp.session.shutdown'', ''omp.agent.started'', ''omp.agent.settled'',
      ''omp.turn.started'', ''omp.turn.finished'', ''omp.tool.started'', ''omp.tool.finished'',
      ''omp.reasoning.delta'', ''gpty.state.declared'']"

definition GENERIC_EVENT_NAMES :: "(str \<times> str) list" where
  "GENERIC_EVENT_NAMES =
     [(''omp.session.bound'', ''session.bound''),
      (''omp.session.shutdown'', ''session.shutdown''),
      (''omp.agent.started'', ''agent.started''),
      (''omp.agent.settled'', ''agent.settled''),
      (''omp.turn.started'', ''turn.started''),
      (''omp.turn.finished'', ''turn.finished''),
      (''omp.tool.started'', ''tool.call''),
      (''omp.tool.finished'', ''tool.finished''),
      (''omp.reasoning.delta'', ''thinking.delta''),
      (''gpty.state.declared'', ''state.declared'')]"

definition to_generic_name :: "str \<Rightarrow> str" where
  "to_generic_name name = unwrap_or (map_of GENERIC_EVENT_NAMES name) name"

datatype field_kind = KStr nat | KInt | KBool

definition ALLOWED_FIELDS :: "(str \<times> (str \<times> field_kind) list) list" where
  "ALLOWED_FIELDS =
     [(''session.bound'', [(''reason'', KStr 64), (''emitted_at_ms'', KInt)]),
      (''session.shutdown'', [(''emitted_at_ms'', KInt)]),
      (''agent.started'', [(''emitted_at_ms'', KInt)]),
      (''agent.settled'', [(''emitted_at_ms'', KInt)]),
      (''turn.started'', [(''turn_index'', KInt), (''started_at_ms'', KInt), (''emitted_at_ms'', KInt)]),
      (''turn.finished'', [(''turn_index'', KInt), (''emitted_at_ms'', KInt)]),
      (''tool.call'', [(''tool_call_id'', KStr MAX_ID_LEN), (''tool_name'', KStr MAX_ID_LEN),
        (''emitted_at_ms'', KInt)]),
      (''tool.finished'', [(''tool_call_id'', KStr MAX_ID_LEN), (''tool_name'', KStr MAX_ID_LEN),
        (''is_error'', KBool), (''emitted_at_ms'', KInt)]),
      (''thinking.delta'', [(''text'', KStr MAX_THINKING_BYTES), (''emitted_at_ms'', KInt)]),
      (''state.declared'', [(''state'', KStr MAX_STATE_LEN)])]"

section \<open>Translation\<close>

fun copy_field :: "field_kind \<Rightarrow> json \<Rightarrow> json option" where
  "copy_field (KStr mx) v = (case jstr v of
     Some s \<Rightarrow> if length s \<le> mx then Some (JStr s) else None | None \<Rightarrow> None)"
| "copy_field KInt v = (case ji64 v of
     Some n \<Rightarrow> if 0 \<le> n then Some (JInt n) else None | None \<Rightarrow> None)"
| "copy_field KBool v = map_option JBool (jbool v)"

text \<open>\<open>Map::insert\<close> on an object built with distinct keys.\<close>

fun copy_fields :: "(str \<times> field_kind) list \<Rightarrow> (str \<times> json) list \<Rightarrow> (str \<times> json) list" where
  "copy_fields [] event = []"
| "copy_fields ((f, kind) # fs) event =
     (case map_of event f of
        None \<Rightarrow> copy_fields fs event
      | Some v \<Rightarrow>
          (case copy_field kind v of
             Some c \<Rightarrow> (f, c) # copy_fields fs event
           | None \<Rightarrow> copy_fields fs event))"

definition translate_event :: "(str \<times> json) list \<Rightarrow> json option" where
  "translate_event event =
     (case Option.bind (map_of event ''name'') jstr of
        None \<Rightarrow> None
      | Some name \<Rightarrow>
          (case map_of ALLOWED_FIELDS (to_generic_name name) of
             None \<Rightarrow> None
           | Some fs \<Rightarrow> Some (JObj ((''name'', JStr (to_generic_name name)) # copy_fields fs event))))"

section \<open>State\<close>

record session_cap =
  sc_capability :: str
  sc_last_seq :: nat

record omp_event =
  oe_terminal :: str
  oe_session :: str
  oe_seq :: nat
  oe_event :: json
  oe_bytes :: nat

record event_queue =
  eq_events :: "omp_event list"
  eq_bytes :: nat

record event_counters =
  ec_accepted :: nat
  ec_accepted_bytes :: nat
  ec_rejected_queue_full :: nat
  ec_rejected_oversized :: nat
  ec_drained_events :: nat
  ec_drained_bytes :: nat

record subscription =
  sub_queue :: "str list"
  sub_last_poll :: nat

record omp_sys =
  om_sessions :: "str \<rightharpoonup> session_cap"
  om_queue :: event_queue
  om_counters :: event_counters
  om_subs :: "(str \<times> subscription) list"
  om_next_sub :: nat

definition omp_new :: omp_sys where
  "omp_new = \<lparr>om_sessions = Map.empty, om_queue = \<lparr>eq_events = [], eq_bytes = 0\<rparr>,
     om_counters = \<lparr>ec_accepted = 0, ec_accepted_bytes = 0, ec_rejected_queue_full = 0,
       ec_rejected_oversized = 0, ec_drained_events = 0, ec_drained_bytes = 0\<rparr>,
     om_subs = [], om_next_sub = 1\<rparr>"

definition has_room :: "str \<Rightarrow> nat \<Rightarrow> event_queue \<Rightarrow> bool" where
  "has_room tid n q =
     (if MAX_GLOBAL_EVENTS \<le> length (eq_events q) \<or> MAX_QUEUED_BYTES < sat_add64 (eq_bytes q) n then False
      else length (filter (\<lambda>e. oe_terminal e = tid) (eq_events q)) < MAX_SESSION_EVENTS)"

section \<open>Sessions\<close>

definition random_hex :: "bytes \<Rightarrow> str" where
  "random_hex raw = concat (map (\<lambda>b. [hex_digit (code b div 16), hex_digit (code b mod 16)]) raw)"

text \<open>\<open>register_terminal\<close>, from 16 and 32 random bytes.\<close>

definition register_terminal :: "bytes \<Rightarrow> bytes \<Rightarrow> omp_sys \<Rightarrow> omp_sys \<times> (str \<times> str)" where
  "register_terminal raw_id raw_cap s =
     (let session_id = random_hex raw_id; capability = random_hex raw_cap
      in (s\<lparr>om_sessions := (om_sessions s)(session_id \<mapsto>
              \<lparr>sc_capability = capability, sc_last_seq = 0\<rparr>)\<rparr>, (session_id, capability)))"

definition unregister_terminal :: "str \<Rightarrow> omp_sys \<Rightarrow> omp_sys" where
  "unregister_terminal sid s =
     (let q = om_queue s;
          removed = sum_list (map oe_bytes (filter (\<lambda>e. oe_terminal e = sid) (eq_events q)))
      in s\<lparr>om_sessions := (om_sessions s)(sid := None),
           om_queue := \<lparr>eq_events = filter (\<lambda>e. oe_terminal e \<noteq> sid) (eq_events q),
                        eq_bytes = eq_bytes q - removed\<rparr>\<rparr>)"

definition drain_events :: "omp_sys \<Rightarrow> omp_sys \<times> omp_event list" where
  "drain_events s =
     (let events = eq_events (om_queue s); n = eq_bytes (om_queue s); c = om_counters s;
          s1 = s\<lparr>om_queue := \<lparr>eq_events = [], eq_bytes = 0\<rparr>\<rparr>
      in (if events = [] then s1
          else s1\<lparr>om_counters := c\<lparr>ec_drained_events := sat_add64 (ec_drained_events c) (length events),
                                   ec_drained_bytes := sat_add64 (ec_drained_bytes c) n\<rparr>\<rparr>,
          events))"

section \<open>Submission\<close>

definition constant_time_eq :: "str \<Rightarrow> str \<Rightarrow> bool" where
  "constant_time_eq l r =
     (if length l \<noteq> length r then False
      else fold (\<lambda>(a, b) diff. diff OR (byte_word a XOR byte_word b)) (zip l r) 0 = 0)"

definition bounded_string :: "json \<Rightarrow> str \<Rightarrow> nat \<Rightarrow> str option" where
  "bounded_string v key mx =
     (case Option.bind (jget v key) jstr of
        Some s \<Rightarrow> if length s \<le> mx then Some s else None | None \<Rightarrow> None)"

definition accept_event_seq :: "nat \<Rightarrow> session_cap \<Rightarrow> session_cap \<times> bool" where
  "accept_event_seq seq sc =
     (if seq \<le> sc_last_seq sc then
        (if sc_last_seq sc \<le> seq \<or> SEQ_RESET_CEILING < seq then (sc, False)
         else (sc\<lparr>sc_last_seq := seq\<rparr>, True))
      else (sc\<lparr>sc_last_seq := seq\<rparr>, True))"

type_synonym rpc_error = "int \<times> str"

definition count_oversized :: "omp_sys \<Rightarrow> omp_sys" where
  "count_oversized s = (let c = om_counters s in
     s\<lparr>om_counters := c\<lparr>ec_rejected_oversized := sat_add64 (ec_rejected_oversized c) 1\<rparr>\<rparr>)"

definition count_full :: "omp_sys \<Rightarrow> omp_sys" where
  "count_full s = (let c = om_counters s in
     s\<lparr>om_counters := c\<lparr>ec_rejected_queue_full := sat_add64 (ec_rejected_queue_full c) 1\<rparr>\<rparr>)"

definition count_accepted :: "nat \<Rightarrow> omp_sys \<Rightarrow> omp_sys" where
  "count_accepted n s = (let c = om_counters s in
     s\<lparr>om_counters := c\<lparr>ec_accepted := sat_add64 (ec_accepted c) 1,
                         ec_accepted_bytes := sat_add64 (ec_accepted_bytes c) n\<rparr>\<rparr>)"

text \<open>The checks of the payload before any lock is taken: the first error, or what the rest of
  the handler uses.  The flag says whether the rejection counts as oversized.\<close>

definition check_event :: "(str \<times> json) list \<Rightarrow> rpc_error \<times> bool + json" where
  "check_event event =
     (case Option.bind (map_of event ''name'') jstr of
        None \<Rightarrow> Inl ((- 32602, ''missing event name''), False)
      | Some name \<Rightarrow>
          if MAX_ID_LEN < length name \<or> name \<notin> set ALLOWED_EVENTS
          then Inl ((- 32602, ''unsupported OMP event''), False)
          else if name = ''omp.reasoning.delta'' \<and>
                  (case Option.bind (map_of event ''text'') jstr of
                     None \<Rightarrow> True | Some text \<Rightarrow> MAX_THINKING_BYTES < length text)
          then Inl ((- 32602, ''invalid reasoning delta''), True)
          else if name = ''gpty.state.declared'' \<and>
                  Option.bind (Option.bind (map_of event ''state'') jstr) from_declaration = None
          then Inl ((- 32602, ''invalid state declaration''), False)
          else (case translate_event event of
                  None \<Rightarrow> Inl ((- 32602, ''unsupported OMP event''), False)
                | Some t \<Rightarrow> Inr t))"

text \<open>The critical section: the session, its capability, the sequence gate, the queue.\<close>

definition submit :: "nat \<Rightarrow> str \<Rightarrow> str \<Rightarrow> str \<Rightarrow> nat option \<Rightarrow> json \<Rightarrow> omp_sys
    \<Rightarrow> omp_sys \<times> (rpc_error + nat)" where
  "submit n tid capability oid seq translated s =
     (case om_sessions s tid of
        None \<Rightarrow> (s, Inl (- 32002, ''unknown or expired terminal session''))
      | Some sc \<Rightarrow>
          if \<not> constant_time_eq (sc_capability sc) capability
          then (s, Inl (- 32001, ''invalid event capability''))
          else
            (case (case seq of Some k \<Rightarrow> accept_event_seq k sc | None \<Rightarrow> (sc, True)) of
               (sc1, False) \<Rightarrow> (s, Inl (- 32003, ''stale event sequence''))
             | (sc1, True) \<Rightarrow>
                 (let s1 = s\<lparr>om_sessions := (om_sessions s)(tid \<mapsto> sc1)\<rparr>; q = om_queue s1
                  in if \<not> has_room tid n q
                     then (count_full s1, Inl (- 32004, ''event queue full''))
                     else (count_accepted n
                             (s1\<lparr>om_queue := \<lparr>eq_events = eq_events q @
                                 [\<lparr>oe_terminal = tid, oe_session = oid, oe_seq = unwrap_or seq 0,
                                   oe_event = translated, oe_bytes = n\<rparr>],
                                 eq_bytes = sat_add64 (eq_bytes q) n\<rparr>\<rparr>),
                           Inr (sat_add64 (sc_last_seq sc1) 1)))))"

text \<open>The handler of \<open>ompEvent\<close>; the answer on success is \<open>next_seq\<close>.\<close>

definition event_handler :: "(json \<Rightarrow> nat) \<Rightarrow> json \<Rightarrow> omp_sys \<Rightarrow> omp_sys \<times> (rpc_error + nat)" where
  "event_handler enc_len params s =
     (let version = Option.bind (jget params ''v'') ju64;
          tid = bounded_string params ''terminal_session_id'' MAX_ID_LEN;
          capability = bounded_string params ''capability'' 128;
          oid = unwrap_or (bounded_string params ''omp_session_id'' MAX_ID_LEN) [];
          seq = Option.bind (jget params ''seq'') ju64;
          event = Option.bind (jget params ''event'') jobj
      in case (tid, capability, event) of
           (Some t, Some c, Some ev) \<Rightarrow>
             if version \<noteq> Some PROTOCOL_VERSION
             then (s, Inl (- 32602, ''unsupported OMP event protocol''))
             else (case check_event ev of
                     Inl (e, oversized) \<Rightarrow> (if oversized then count_oversized s else s, Inl e)
                   | Inr translated \<Rightarrow> submit (enc_len translated) t c oid seq translated s)
         | _ \<Rightarrow> (s, Inl (- 32602, ''invalid OMP event payload'')))"

section \<open>Subscriptions\<close>

definition subscription_expired :: "subscription \<Rightarrow> nat \<Rightarrow> bool" where
  "subscription_expired sub now = (SUBSCRIPTION_IDLE \<le> now - sub_last_poll sub)"

definition release_idle_subscriptions :: "nat \<Rightarrow> (str \<times> subscription) list
    \<Rightarrow> (str \<times> subscription) list" where
  "release_idle_subscriptions now subs = filter (\<lambda>(_, sub). \<not> subscription_expired sub now) subs"

definition sub_push :: "str \<Rightarrow> str list \<Rightarrow> str list" where
  "sub_push e q = (if MAX_QUEUED_EVENTS \<le> length q then tl q else q) @ [e]"

definition emit_event :: "nat \<Rightarrow> str \<Rightarrow> omp_sys \<Rightarrow> omp_sys" where
  "emit_event now e s =
     s\<lparr>om_subs := map (\<lambda>(k, sub). (k, sub\<lparr>sub_queue := sub_push e (sub_queue sub)\<rparr>))
                    (release_idle_subscriptions now (om_subs s))\<rparr>"

definition subscribe_handler :: "nat \<Rightarrow> omp_sys \<Rightarrow> omp_sys \<times> (rpc_error + str)" where
  "subscribe_handler now s =
     (let sub_id = ''sub-'' @ dec (om_next_sub s);
          subs = release_idle_subscriptions now (om_subs s);
          s1 = s\<lparr>om_next_sub := om_next_sub s + 1, om_subs := subs\<rparr>
      in if length subs < MAX_SUBSCRIPTIONS
         then (s1\<lparr>om_subs := subs @ [(sub_id, \<lparr>sub_queue = [], sub_last_poll = now\<rparr>)]\<rparr>, Inr sub_id)
         else (s1, Inl (- 32001, ''subscription limit reached'')))"

fun poll_subs :: "nat \<Rightarrow> str \<Rightarrow> nat \<Rightarrow> (str \<times> subscription) list
    \<Rightarrow> ((str \<times> subscription) list \<times> str list) option" where
  "poll_subs now sid limit [] = None"
| "poll_subs now sid limit ((k, sub) # rest) =
     (if k = sid
      then Some ((k, \<lparr>sub_queue = drop limit (sub_queue sub), sub_last_poll = now\<rparr>) # rest,
                 take limit (sub_queue sub))
      else map_option (\<lambda>(subs, out). ((k, sub) # subs, out)) (poll_subs now sid limit rest))"

definition events_poll_handler :: "(str \<Rightarrow> json option) \<Rightarrow> nat \<Rightarrow> json \<Rightarrow> omp_sys
    \<Rightarrow> omp_sys \<times> (rpc_error + json list)" where
  "events_poll_handler from_str now params s =
     (let sid = unwrap_or (Option.bind (jget params ''subscription_id'') jstr) [];
          limit = min (unwrap_or (Option.bind (jget params ''limit'') ju64) 64) 256
      in case poll_subs now sid limit (om_subs s) of
           Some (subs, out) \<Rightarrow> (s\<lparr>om_subs := subs\<rparr>, Inr (List.map_filter from_str out))
         | None \<Rightarrow> (s, Inl (- 32002, ''unknown subscription'')))"

interpretation sub_q: drop_oldest sub_push MAX_QUEUED_EVENTS
  by unfold_locales (auto simp: sub_push_def MAX_QUEUED_EVENTS_def)

section \<open>The allowlist\<close>

definition field_ok :: "field_kind \<Rightarrow> json \<Rightarrow> bool" where
  "field_ok kind v = (case kind of
     KStr mx \<Rightarrow> (case v of JStr s \<Rightarrow> length s \<le> mx | _ \<Rightarrow> False)
   | KInt \<Rightarrow> (case v of JInt n \<Rightarrow> 0 \<le> n \<and> n < 2 ^ 63 | _ \<Rightarrow> False)
   | KBool \<Rightarrow> (case v of JBool _ \<Rightarrow> True | _ \<Rightarrow> False))"

lemma copy_field_ok: "copy_field kind v = Some c \<Longrightarrow> c = v \<and> field_ok kind c"
  by (cases "(kind, v)" rule: copy_field.cases; cases v)
    (auto simp: field_ok_def split: option.splits if_splits)

lemma copy_fields_sound:
  "(f, v) \<in> set (copy_fields fs event) \<Longrightarrow>
   \<exists>kind. (f, kind) \<in> set fs \<and> field_ok kind v \<and> map_of event f = Some v"
proof (induction fs event rule: copy_fields.induct)
  case (2 g kind fs event)
  show ?case
  proof (cases "(f, v) \<in> set (copy_fields fs event)")
    case True
    then have "\<exists>k. (f, k) \<in> set fs \<and> field_ok k v \<and> map_of event f = Some v"
      using "2.IH" by (metis not_None_eq)
    then show ?thesis by auto
  next
    case False
    with "2.prems" obtain w where w: "map_of event g = Some w" "copy_field kind w = Some v" "f = g"
      by (auto split: option.splits)
    then show ?thesis using copy_field_ok [OF w(2)] by auto
  qed
qed simp

lemma copy_fields_complete:
  "(f, kind) \<in> set fs \<Longrightarrow> map_of event f = Some v \<Longrightarrow> copy_field kind v = Some c \<Longrightarrow>
   (f, c) \<in> set (copy_fields fs event)"
  by (induction fs event rule: copy_fields.induct) (auto split: option.splits)

text \<open>What a translated event may be: a generic name and allowlisted fields of its kind.\<close>

definition generic_event :: "(str \<times> json) list \<Rightarrow> json \<Rightarrow> bool" where
  "generic_event event out \<longleftrightarrow>
     (\<exists>name fs kvs. out = JObj ((''name'', JStr name) # kvs) \<and> (name, fs) \<in> set ALLOWED_FIELDS \<and>
        (\<forall>(f, v) \<in> set kvs. \<exists>kind. (f, kind) \<in> set fs \<and> field_ok kind v \<and> map_of event f = Some v))"

lemma translate_event_generic: "translate_event event = Some out \<Longrightarrow> generic_event event out"
  by (fastforce simp: translate_event_def generic_event_def dest: copy_fields_sound map_of_SomeD
      split: option.splits)

lemma constant_time_eq_iff: "constant_time_eq l r \<longleftrightarrow> l = r"
  by (auto simp: constant_time_eq_def fold_diff_zip)

section \<open>The queue's invariant\<close>

definition queue_inv :: "event_queue \<Rightarrow> bool" where
  "queue_inv q \<longleftrightarrow> eq_bytes q = sum_list (map oe_bytes (eq_events q)) \<and> eq_bytes q \<le> MAX_QUEUED_BYTES \<and>
     length (eq_events q) \<le> MAX_GLOBAL_EVENTS \<and>
     (\<forall>tid. length (filter (\<lambda>e. oe_terminal e = tid) (eq_events q)) \<le> MAX_SESSION_EVENTS)"

text \<open>Every queued event belongs to a registered terminal.\<close>

definition omp_inv :: "omp_sys \<Rightarrow> bool" where
  "omp_inv s \<longleftrightarrow> queue_inv (om_queue s) \<and>
     (\<forall>e \<in> set (eq_events (om_queue s)). om_sessions s (oe_terminal e) \<noteq> None)"

lemma has_room_exact:
  "has_room tid n q \<Longrightarrow> sat_add64 (eq_bytes q) n = eq_bytes q + n \<and> eq_bytes q + n \<le> MAX_QUEUED_BYTES"
  by (auto simp: has_room_def sat_add64_def u64_max_def MAX_QUEUED_BYTES_def split: if_splits)

lemma push_queue_inv:
  "queue_inv q \<Longrightarrow> has_room (oe_terminal e) (oe_bytes e) q \<Longrightarrow>
   queue_inv \<lparr>eq_events = eq_events q @ [e], eq_bytes = sat_add64 (eq_bytes q) (oe_bytes e)\<rparr>"
  using has_room_exact [of "oe_terminal e" "oe_bytes e" q]
  by (auto simp: queue_inv_def has_room_def Suc_le_eq split: if_splits)

lemma sum_filter_split:
  "sum_list (map f (filter P xs)) + sum_list (map f (filter (\<lambda>x. \<not> P x) xs)) = sum_list (map f xs)"
  for f :: "'a \<Rightarrow> nat"
  by (induction xs) auto

lemma length_filter_conj: "length (filter (\<lambda>x. P x \<and> Q x) xs) \<le> length (filter P xs)"
  by (induction xs) auto

lemma filter_queue_inv:
  assumes "queue_inv q"
  shows "queue_inv \<lparr>eq_events = filter (\<lambda>e. oe_terminal e \<noteq> sid) (eq_events q),
    eq_bytes = eq_bytes q - sum_list (map oe_bytes (filter (\<lambda>e. oe_terminal e = sid) (eq_events q)))\<rparr>"
proof -
  have "eq_bytes q - sum_list (map oe_bytes (filter (\<lambda>e. oe_terminal e = sid) (eq_events q))) =
      sum_list (map oe_bytes (filter (\<lambda>e. oe_terminal e \<noteq> sid) (eq_events q)))"
    using assms sum_filter_split [of oe_bytes "\<lambda>e. oe_terminal e = sid" "eq_events q"]
    by (simp add: queue_inv_def)
  moreover have "length (filter (\<lambda>e. oe_terminal e = tid)
      (filter (\<lambda>e. oe_terminal e \<noteq> sid) (eq_events q))) \<le> MAX_SESSION_EVENTS" for tid
    using assms length_filter_conj [of "\<lambda>e. oe_terminal e = tid" "\<lambda>e. oe_terminal e \<noteq> sid" "eq_events q"]
    by (auto simp: queue_inv_def conj_commute intro: order_trans)
  moreover have "length (filter (\<lambda>e. oe_terminal e \<noteq> sid) (eq_events q)) \<le> MAX_GLOBAL_EVENTS"
    using assms by (auto simp: queue_inv_def intro: order_trans [OF length_filter_le])
  moreover have "sum_list (map oe_bytes (filter (\<lambda>e. oe_terminal e \<noteq> sid) (eq_events q)))
      \<le> MAX_QUEUED_BYTES"
    using assms sum_filter_split [of oe_bytes "\<lambda>e. oe_terminal e = sid" "eq_events q"]
    by (simp add: queue_inv_def)
  ultimately show ?thesis by (simp add: queue_inv_def)
qed

section \<open>Runs\<close>

datatype omp_op =
    Op_Register bytes bytes
  | Op_Unregister str
  | Op_Event json
  | Op_Drain
  | Op_Emit nat str
  | Op_Subscribe nat
  | Op_Poll nat json

fun omp_step :: "(json \<Rightarrow> nat) \<Rightarrow> (str \<Rightarrow> json option) \<Rightarrow> omp_op \<Rightarrow> omp_sys \<Rightarrow> omp_sys" where
  "omp_step enc_len from_str (Op_Register a b) s = fst (register_terminal a b s)"
| "omp_step enc_len from_str (Op_Unregister sid) s = unregister_terminal sid s"
| "omp_step enc_len from_str (Op_Event params) s = fst (event_handler enc_len params s)"
| "omp_step enc_len from_str Op_Drain s = fst (drain_events s)"
| "omp_step enc_len from_str (Op_Emit now e) s = emit_event now e s"
| "omp_step enc_len from_str (Op_Subscribe now) s = fst (subscribe_handler now s)"
| "omp_step enc_len from_str (Op_Poll now params) s = fst (events_poll_handler from_str now params s)"

definition events_generic :: "omp_sys \<Rightarrow> bool" where
  "events_generic s \<longleftrightarrow> (\<forall>e \<in> set (eq_events (om_queue s)). \<exists>ev. generic_event ev (oe_event e))"

lemma count_frame [simp]:
  "om_queue (count_full s) = om_queue s" "om_queue (count_accepted n s) = om_queue s"
  "om_queue (count_oversized s) = om_queue s" "om_sessions (count_full s) = om_sessions s"
  "om_sessions (count_accepted n s) = om_sessions s" "om_sessions (count_oversized s) = om_sessions s"
  by (simp_all add: count_full_def count_accepted_def count_oversized_def Let_def)

text \<open>What a submission does to the queue: nothing, or it appends the one event, and then only
  for a registered terminal whose capability was given.\<close>

lemma submit_cases:
  assumes "submit n tid capability oid seq translated s = (s', r)"
  obtains (rejected) err where "r = Inl err" "om_queue s' = om_queue s"
      "\<forall>t. om_sessions s t \<noteq> None \<longrightarrow> om_sessions s' t \<noteq> None"
  | (accepted) sc e next_seq where "r = Inr next_seq" "om_sessions s tid = Some sc"
      "sc_capability sc = capability" "has_room tid n (om_queue s)"
      "om_queue s' = \<lparr>eq_events = eq_events (om_queue s) @ [e],
         eq_bytes = sat_add64 (eq_bytes (om_queue s)) n\<rparr>"
      "oe_terminal e = tid" "oe_event e = translated" "oe_bytes e = n" "oe_seq e = unwrap_or seq 0"
      "\<forall>t. om_sessions s t \<noteq> None \<longrightarrow> om_sessions s' t \<noteq> None"
proof (cases "om_sessions s tid")
  case None
  with assms rejected show thesis by (auto simp: submit_def)
next
  case (Some sc)
  note some = this
  obtain sc1 ok where gate: "(case seq of Some k \<Rightarrow> accept_event_seq k sc | None \<Rightarrow> (sc, True)) = (sc1, ok)"
    by force
  note eqn = assms [unfolded submit_def Some option.simps gate prod.case constant_time_eq_iff Let_def]
  consider "sc_capability sc \<noteq> capability" | "sc_capability sc = capability" "\<not> ok"
    | "sc_capability sc = capability" ok "\<not> has_room tid n (om_queue s)"
    | "sc_capability sc = capability" ok "has_room tid n (om_queue s)" by blast
  then show thesis
  proof cases
    case 4
    let ?e = "\<lparr>oe_terminal = tid, oe_session = oid, oe_seq = unwrap_or seq 0, oe_event = translated,
        oe_bytes = n\<rparr>"
    show thesis
      by (rule accepted [of "sat_add64 (sc_last_seq sc1) 1" sc ?e]) (use eqn 4 some in auto)
  qed (use eqn rejected in auto)
qed

lemma check_event_generic: "check_event event = Inr t \<Longrightarrow> generic_event event t"
  by (auto simp: check_event_def translate_event_generic split: option.splits if_splits)

lemma event_handler_cases:
  assumes "event_handler enc_len params s = (s', r)"
  obtains (rejected) err where "r = Inl err" "om_queue s' = om_queue s"
      "\<forall>t. om_sessions s t \<noteq> None \<longrightarrow> om_sessions s' t \<noteq> None"
  | (accepted) tid sc ev e next_seq where "r = Inr next_seq"
      "jget params ''terminal_session_id'' = Some (JStr tid)"
      "jget params ''event'' = Some (JObj ev)"
      "om_sessions s tid = Some sc"
      "jget params ''capability'' = Some (JStr (sc_capability sc))"
      "has_room tid (oe_bytes e) (om_queue s)"
      "om_queue s' = \<lparr>eq_events = eq_events (om_queue s) @ [e],
         eq_bytes = sat_add64 (eq_bytes (om_queue s)) (oe_bytes e)\<rparr>"
      "oe_terminal e = tid" "generic_event ev (oe_event e)"
      "\<forall>t. om_sessions s t \<noteq> None \<longrightarrow> om_sessions s' t \<noteq> None"
proof -
  have str: "jget params k = Some (JStr x)" if "bounded_string params k mx = Some x" for k mx x
    using that by (auto simp: bounded_string_def split: option.splits if_splits bind_splits)
  obtain tid c ev where f: "bounded_string params ''terminal_session_id'' MAX_ID_LEN = Some tid \<and>
      bounded_string params ''capability'' 128 = Some c \<and> jget params ''event'' = Some (JObj ev) \<or>
      (\<exists>err. r = Inl err) \<and> s' = s"
    using assms by (force simp: event_handler_def Let_def bind_eq_Some_conv split: option.splits)
  show thesis
  proof (cases "(\<exists>err. r = Inl err) \<and> s' = s")
    case True
    then show thesis using rejected by blast
  next
    case False
    with f have f: "bounded_string params ''terminal_session_id'' MAX_ID_LEN = Some tid"
      "bounded_string params ''capability'' 128 = Some c" "jget params ''event'' = Some (JObj ev)"
      by auto
    show thesis
    proof (cases "check_event ev")
      case (Inl e)
      then have "(\<exists>err. r = Inl err) \<and> om_queue s' = om_queue s \<and> om_sessions s' = om_sessions s"
        using assms f by (cases e) (auto simp: event_handler_def Let_def split: if_splits)
      then show thesis using rejected by metis
    next
      case (Inr t)
      with assms f False obtain oid seq where "submit (enc_len t) tid c oid seq t s = (s', r)"
        by (auto simp: event_handler_def Let_def split: if_splits)
      then show thesis
      proof (cases rule: submit_cases)
        case (rejected err)
        then show thesis using that(1) by blast
      next
        case (accepted sc e next_seq)
        then show thesis
          using that(2) [of next_seq tid ev sc e] f str check_event_generic [OF Inr] by auto
      qed
    qed
  qed
qed

lemma omp_step_inv:
  assumes "omp_inv s" and "events_generic s"
  shows "omp_inv (omp_step enc_len from_str op s) \<and> events_generic (omp_step enc_len from_str op s)"
proof (cases op)
  case (Op_Event params)
  obtain s' r where h: "event_handler enc_len params s = (s', r)" by force
  from h have "omp_inv s' \<and> events_generic s'"
  proof (cases rule: event_handler_cases)
    case rejected
    then show ?thesis using assms by (auto simp: omp_inv_def events_generic_def)
  next
    case (accepted tid sc ev e next_seq)
    have "queue_inv (om_queue s')"
      using push_queue_inv [of "om_queue s" e] assms(1) accepted by (simp add: omp_inv_def)
    then show ?thesis using assms accepted by (auto simp: omp_inv_def events_generic_def)
  qed
  then show ?thesis by (simp add: Op_Event h)
next
  case (Op_Unregister sid)
  then show ?thesis
    using assms filter_queue_inv [of "om_queue s" sid]
    by (auto simp: omp_inv_def events_generic_def unregister_terminal_def Let_def)
next
  case (Op_Poll now params)
  then show ?thesis
    using assms by (auto simp: omp_inv_def events_generic_def events_poll_handler_def Let_def
        split: option.splits)
qed (use assms in \<open>auto simp: omp_inv_def events_generic_def register_terminal_def drain_events_def
    emit_event_def subscribe_handler_def queue_inv_def Let_def\<close>)

lemma omp_new_inv: "omp_inv omp_new \<and> events_generic omp_new"
  by (simp add: omp_inv_def events_generic_def omp_new_def queue_inv_def)

lemma omp_run_inv:
  "omp_inv (fold (omp_step enc_len from_str) ops omp_new) \<and>
   events_generic (fold (omp_step enc_len from_str) ops omp_new)"
proof -
  have "omp_inv s \<and> events_generic s \<Longrightarrow> omp_inv (fold (omp_step enc_len from_str) ops s) \<and>
      events_generic (fold (omp_step enc_len from_str) ops s)" for s
    by (induction ops arbitrary: s) (simp_all add: omp_step_inv)
  then show ?thesis using omp_new_inv by blast
qed

section \<open>Sequences\<close>

text \<open>The numbers of a stream that are accepted.\<close>

fun accepted_seqs :: "nat list \<Rightarrow> session_cap \<Rightarrow> nat list" where
  "accepted_seqs [] sc = []"
| "accepted_seqs (k # ks) sc =
     (case accept_event_seq k sc of
        (sc', True) \<Rightarrow> k # accepted_seqs ks sc'
      | (sc', False) \<Rightarrow> accepted_seqs ks sc')"

lemma accepted_seqs_increasing:
  "list_all (\<lambda>k. SEQ_RESET_CEILING < k) ks \<Longrightarrow>
   sorted_wrt (<) (accepted_seqs ks sc) \<and> list_all (\<lambda>k. sc_last_seq sc < k) (accepted_seqs ks sc)"
proof (induction ks arbitrary: sc)
  case (Cons k ks)
  then show ?case
    by (fastforce simp: accept_event_seq_def list_all_iff split: if_splits)
qed simp

section \<open>Subscriptions\<close>

lemma poll_subs_found:
  "distinct (map fst subs) \<Longrightarrow> (sid, sub) \<in> set subs \<Longrightarrow>
   \<exists>subs'. poll_subs now sid limit subs = Some (subs', take limit (sub_queue sub))"
  by (induction subs) force+

text \<open>Events emitted one after the other, each at its instant.\<close>

definition emit_all :: "(nat \<times> str) list \<Rightarrow> omp_sys \<Rightarrow> omp_sys" where
  "emit_all es s = fold (\<lambda>(now, e). emit_event now e) es s"

lemma emit_all_sub:
  "distinct (map fst (om_subs s)) \<Longrightarrow> (sid, sub) \<in> set (om_subs s) \<Longrightarrow>
   list_all (\<lambda>(now, e). now < sub_last_poll sub + SUBSCRIPTION_IDLE) es \<Longrightarrow>
   length (sub_queue sub) \<le> MAX_QUEUED_EVENTS \<Longrightarrow>
   distinct (map fst (om_subs (emit_all es s))) \<and>
   (sid, sub\<lparr>sub_queue := last_n MAX_QUEUED_EVENTS (sub_queue sub @ map snd es)\<rparr>)
     \<in> set (om_subs (emit_all es s))"
proof (induction es arbitrary: s sub)
  case Nil
  then show ?case by (simp add: emit_all_def)
next
  case (Cons ev es)
  obtain now e where ev: "ev = (now, e)" by force
  let ?sub = "sub\<lparr>sub_queue := sub_push e (sub_queue sub)\<rparr>"
  have alive: "\<not> subscription_expired sub now"
    using Cons.prems(3) by (auto simp: ev subscription_expired_def SUBSCRIPTION_IDLE_def)
  then have mem: "(sid, ?sub) \<in> set (om_subs (emit_event now e s))"
    using Cons.prems(2) by (force simp: emit_event_def release_idle_subscriptions_def)
  have keys: "map fst (om_subs (emit_event now e s)) =
      map fst (release_idle_subscriptions now (om_subs s))"
    by (simp add: emit_event_def comp_def case_prod_beta)
  have dist: "distinct (map fst (om_subs (emit_event now e s)))"
    unfolding keys using Cons.prems(1)
    by (simp add: release_idle_subscriptions_def distinct_map_filter)
  have late: "list_all (\<lambda>(now, e). now < sub_last_poll ?sub + SUBSCRIPTION_IDLE) es"
    using Cons.prems(3) by (simp add: ev)
  have len: "length (sub_queue ?sub) \<le> MAX_QUEUED_EVENTS"
    using sub_q.push_bound [OF Cons.prems(4)] by simp
  have "last_n MAX_QUEUED_EVENTS (sub_push e (sub_queue sub) @ map snd es) =
      last_n MAX_QUEUED_EVENTS (sub_queue sub @ e # map snd es)"
    using sub_q.push_last_n [OF Cons.prems(4), of e] last_n_last_n_append
    by (metis append.assoc append_Cons append_Nil)
  then show ?case
    using Cons.IH [OF dist mem late len] by (simp add: emit_all_def ev)
qed

section \<open>Properties\<close>

text \<open>Whatever is registered, submitted, drained and unregistered, the pending-event queue
  holds at most 4096 events and 4 MiB with exact accounting, at most 1024 events per terminal,
  only events of terminals still registered, and every event in it is a generic one made of
  allowlisted fields of the right kind and size copied from a submission.\<close>

theorem omp_queue_safe:
  "let q = om_queue (fold (omp_step enc_len from_str) ops omp_new);
       sess = om_sessions (fold (omp_step enc_len from_str) ops omp_new)
   in length (eq_events q) \<le> 4096 \<and> eq_bytes q = sum_list (map oe_bytes (eq_events q)) \<and>
      eq_bytes q \<le> 4 * 1024 * 1024 \<and>
      length (filter (\<lambda>e. oe_terminal e = tid) (eq_events q)) \<le> 1024 \<and>
      list_all (\<lambda>e. sess (oe_terminal e) \<noteq> None \<and> (\<exists>ev. generic_event ev (oe_event e))) (eq_events q)"
  using omp_run_inv [of enc_len from_str ops]
  by (simp add: omp_inv_def queue_inv_def events_generic_def list_all_iff MAX_GLOBAL_EVENTS_def
      MAX_SESSION_EVENTS_def MAX_QUEUED_BYTES_def Let_def)

text \<open>C12: Only the holder of a terminal's capability can add an event, and only one, and only
  under that terminal's id: a submission that is answered with an error leaves the queue as it
  was, and one that is accepted named a registered terminal and its exact capability and
  appended a single translated event of that terminal.\<close>

theorem event_needs_capability:
  assumes "event_handler enc_len params s = (s', r)"
  shows "case r of
      Inl err \<Rightarrow> om_queue s' = om_queue s
    | Inr next_seq \<Rightarrow>
        (\<exists>tid sc ev e. jget params ''terminal_session_id'' = Some (JStr tid) \<and>
           om_sessions s tid = Some sc \<and>
           jget params ''capability'' = Some (JStr (sc_capability sc)) \<and>
           jget params ''event'' = Some (JObj ev) \<and> generic_event ev (oe_event e) \<and>
           oe_terminal e = tid \<and>
           eq_events (om_queue s') = eq_events (om_queue s) @ [e])"
  using assms by (rule event_handler_cases) auto

definition sample_params :: "str \<Rightarrow> nat \<Rightarrow> json" where
  "sample_params cap seq = JObj
     [(''v'', JInt 1), (''terminal_session_id'', JStr ''t''), (''capability'', JStr cap),
      (''seq'', JInt (int seq)),
      (''event'', JObj [(''name'', JStr ''omp.agent.started''), (''secret'', JStr ''x'')])]"

definition sample_sys :: omp_sys where
  "sample_sys = omp_new\<lparr>om_sessions := [''t'' \<mapsto> \<lparr>sc_capability = ''c'', sc_last_seq = 0\<rparr>]\<rparr>"

theorem event_needs_capability_witness:
  "om_queue (fst (event_handler (\<lambda>_. 10) (sample_params ''wrong'' 1) sample_sys)) = om_queue sample_sys"
proof -
  have "\<exists>s' e. event_handler (\<lambda>_. 10) (sample_params ''wrong'' 1) sample_sys = (s', Inl e)"
    by (simp add: event_handler_def sample_params_def bounded_string_def MAX_ID_LEN_def
        PROTOCOL_VERSION_def check_event_def ALLOWED_EVENTS_def translate_event_def
        to_generic_name_def GENERIC_EVENT_NAMES_def ALLOWED_FIELDS_def submit_def sample_sys_def
        constant_time_eq_iff)
  then obtain s' e where h: "event_handler (\<lambda>_. 10) (sample_params ''wrong'' 1) sample_sys = (s', Inl e)"
    by blast
  show ?thesis using event_needs_capability [OF h] unfolding h by simp
qed

text \<open>The comparison of capabilities is equality, though it looks at every byte.\<close>

theorem constant_time_eq_correct: "constant_time_eq l r = (l = r)"
  by (simp add: constant_time_eq_iff)

text \<open>A producer's stream is accepted in order and once: of any submissions numbered above the
  restart ceiling of 128, whatever is repeated or reordered, the accepted numbers are strictly
  increasing and above the session's last one.\<close>

theorem accepted_sequence_increases:
  assumes "list_all (\<lambda>k. 128 < k) ks"
  shows "sorted_wrt (<) (accepted_seqs ks sc) \<and>
    list_all (\<lambda>k. sc_last_seq sc < k) (accepted_seqs ks sc)"
  using accepted_seqs_increasing [of ks sc] assms by (simp add: SEQ_RESET_CEILING_def)

theorem accepted_sequence_increases_witness:
  "sorted_wrt (<) (accepted_seqs [200, 201, 200, 300] \<lparr>sc_capability = [], sc_last_seq = 150\<rparr>)"
  using accepted_sequence_increases [of "[200, 201, 200, 300]" "\<lparr>sc_capability = [], sc_last_seq = 150\<rparr>"]
  by simp

text \<open>A numbered event refused because the queue is full cannot be submitted again: the refusal
  already advanced the session's sequence, so after the queue has been drained the same event is
  refused as stale.\<close>

theorem full_queue_burns_the_sequence:
  assumes "om_sessions s tid = Some sc" and "sc_last_seq sc < k"
    and "\<not> has_room tid n (om_queue s)"
  shows "let (s1, r1) = submit n tid (sc_capability sc) oid (Some k) ev s;
             (s2, _) = drain_events s1;
             (s3, r2) = submit n tid (sc_capability sc) oid (Some k) ev s2
         in r1 = Inl (- 32004, ''event queue full'') \<and> r2 = Inl (- 32003, ''stale event sequence'')"
  using assms
  by (simp add: submit_def accept_event_seq_def constant_time_eq_iff drain_events_def count_full_def
      Let_def)

theorem full_queue_burns_the_sequence_witness:
  "snd (submit (MAX_QUEUED_BYTES + 1) ''t'' ''c'' [] (Some 1) JNull sample_sys) =
   Inl (- 32004, ''event queue full'')"
proof -
  have "\<not> has_room ''t'' (MAX_QUEUED_BYTES + 1) (om_queue sample_sys)"
    by (simp add: has_room_def sample_sys_def omp_new_def sat_add64_def u64_max_def MAX_QUEUED_BYTES_def)
  from full_queue_burns_the_sequence [OF _ _ this, of "\<lparr>sc_capability = ''c'', sc_last_seq = 0\<rparr>" 1 "[]" JNull]
  show ?thesis by (auto simp: sample_sys_def case_prod_beta Let_def)
qed

text \<open>A subscriber that polls in time loses nothing but what its bounded queue cannot hold:
  after any events emitted before its idle limit, a poll hands out, oldest first, the first
  \<open>limit\<close> of the newest 256 events waiting for it.\<close>

theorem subscriber_gets_newest_events:
  assumes "distinct (map fst (om_subs s))" and "(sid, sub) \<in> set (om_subs s)"
    and "list_all (\<lambda>(now, e). now < sub_last_poll sub + SUBSCRIPTION_IDLE) es"
    and "length (sub_queue sub) \<le> MAX_QUEUED_EVENTS"
    and "jget params ''subscription_id'' = Some (JStr sid)" and "jget params ''limit'' = Some (JInt (int n))"
    and "n \<le> 256"
  shows "snd (events_poll_handler from_str now params (emit_all es s)) =
    Inr (List.map_filter from_str (take n (last_n 256 (sub_queue sub @ map snd es))))"
proof -
  from emit_all_sub [OF assms(1-4)] poll_subs_found
  obtain subs' where "poll_subs now sid n (om_subs (emit_all es s)) =
      Some (subs', take n (last_n MAX_QUEUED_EVENTS (sub_queue sub @ map snd es)))"
    by fastforce
  then show ?thesis
    using assms(5-7) by (simp add: events_poll_handler_def Let_def MAX_QUEUED_EVENTS_def)
qed

theorem subscriber_gets_newest_events_witness:
  "snd (events_poll_handler (\<lambda>s. Some (JStr s)) 20
      (JObj [(''subscription_id'', JStr ''sub-1''), (''limit'', JInt (int 1))])
      (emit_all [(5, ''a''), (6, ''b'')]
        (omp_new\<lparr>om_subs := [(''sub-1'', \<lparr>sub_queue = [], sub_last_poll = 0\<rparr>)]\<rparr>))) =
   Inr [JStr ''a'']"
  using subscriber_gets_newest_events
    [of "omp_new\<lparr>om_subs := [(''sub-1'', \<lparr>sub_queue = [], sub_last_poll = 0\<rparr>)]\<rparr>" "''sub-1''"
      "\<lparr>sub_queue = [], sub_last_poll = 0\<rparr>" "[(5, ''a''), (6, ''b'')]"
      "JObj [(''subscription_id'', JStr ''sub-1''), (''limit'', JInt (int 1))]" 1
      "\<lambda>s. Some (JStr s)" 20]
  by (simp add: SUBSCRIPTION_IDLE_def List.map_filter_simps)

end
