(* ===== verification/Ipc_Server.thy ===== *)
theory Ipc_Server
  imports Json Rust_Strings
begin

text \<open>
  The control socket, \<open>crates/gpty-ipc/src/server.rs\<close> and \<open>protocol.rs\<close>: one connection is the
  bytes the client sends until it closes, and handling it is a function of them and of the
  state the handlers act on.  The JSON text parser is a parameter (it returns the request or
  its error message), and so is what each registered handler does; a handler that misses its
  budget is one that answers nothing.  Read and write timeouts are not part of the model.  The
  decision whether to replace an existing socket and the claim of the first pipe instance are
  modelled on their own.
\<close>

section \<open>The protocol\<close>

record request =
  rq_jsonrpc :: str
  rq_id :: "nat option"
  rq_method :: str
  rq_params :: "json option"
  rq_secret :: "str option"

record rpc_err =
  re_code :: int
  re_message :: str
  re_data :: "json option"

record response =
  rs_jsonrpc :: str
  rs_id :: nat
  rs_result :: "json option"
  rs_error :: "rpc_err option"

definition PARSE_ERROR :: int where "PARSE_ERROR = - 32700"
definition INVALID_REQUEST :: int where "INVALID_REQUEST = - 32600"
definition METHOD_NOT_FOUND :: int where "METHOD_NOT_FOUND = - 32601"
definition INVALID_PARAMS :: int where "INVALID_PARAMS = - 32602"
definition SERVER_ERROR :: int where "SERVER_ERROR = - 32000"
definition UNAUTHORIZED :: int where "UNAUTHORIZED = - 32001"

definition rpc_err_new :: "int \<Rightarrow> str \<Rightarrow> rpc_err" where
  "rpc_err_new c m = \<lparr>re_code = c, re_message = m, re_data = None\<rparr>"

definition is_notification :: "request \<Rightarrow> bool" where
  "is_notification r = (rq_id r = None)"

definition build_response :: "nat \<Rightarrow> json \<Rightarrow> response" where
  "build_response i v = \<lparr>rs_jsonrpc = ''2.0'', rs_id = i, rs_result = Some v, rs_error = None\<rparr>"

definition build_error :: "nat \<Rightarrow> rpc_err \<Rightarrow> response" where
  "build_error i e = \<lparr>rs_jsonrpc = ''2.0'', rs_id = i, rs_result = None, rs_error = Some e\<rparr>"

section \<open>The server\<close>

definition MAX_REQUEST_LEN :: nat where "MAX_REQUEST_LEN = 64 * 1024"
definition DEFAULT_DISPATCH_TIMEOUT :: nat where "DEFAULT_DISPATCH_TIMEOUT = 30 * 1000"

text \<open>A registered handler: what it does to the state it acts on and what it answers (\<open>None\<close>:
  not within its budget), and the budget in milliseconds.\<close>

record 's registered =
  rh_handler :: "json \<Rightarrow> 's \<Rightarrow> 's \<times> (rpc_err + json) option"
  rh_timeout :: nat

record 's server =
  sv_handlers :: "str \<rightharpoonup> 's registered"
  sv_secret :: "str option"
  sv_parse :: "str \<Rightarrow> str + request"

definition server_new :: "(str \<Rightarrow> str + request) \<Rightarrow> 's server" where
  "server_new p = \<lparr>sv_handlers = Map.empty, sv_secret = None, sv_parse = p\<rparr>"

definition set_secret :: "str \<Rightarrow> 's server \<Rightarrow> 's server" where
  "set_secret x sv = sv\<lparr>sv_secret := Some x\<rparr>"

definition register_with_timeout :: "str \<Rightarrow> (json \<Rightarrow> 's \<Rightarrow> 's \<times> (rpc_err + json) option) \<Rightarrow> nat
    \<Rightarrow> 's server \<Rightarrow> 's server" where
  "register_with_timeout mth h t sv =
     sv\<lparr>sv_handlers := (sv_handlers sv)(mth \<mapsto> \<lparr>rh_handler = h, rh_timeout = t\<rparr>)\<rparr>"

definition register :: "str \<Rightarrow> (json \<Rightarrow> 's \<Rightarrow> 's \<times> (rpc_err + json) option) \<Rightarrow> 's server \<Rightarrow> 's server" where
  "register mth h sv = register_with_timeout mth h DEFAULT_DISPATCH_TIMEOUT sv"

definition ipc_constant_time_eq :: "str \<Rightarrow> str \<Rightarrow> bool" where
  "ipc_constant_time_eq provided expected =
     (if length provided \<noteq> length expected then False
      else fold (\<lambda>(a, b) diff. diff OR (byte_word a XOR byte_word b)) (zip provided expected) 0 = 0)"

lemma ipc_constant_time_eq_iff: "ipc_constant_time_eq l r \<longleftrightarrow> l = r"
  by (auto simp: ipc_constant_time_eq_def fold_diff_zip)

definition json_kind :: "json \<Rightarrow> str" where
  "json_kind v = (case v of
     JNull \<Rightarrow> ''null'' | JBool _ \<Rightarrow> ''a boolean'' | JInt _ \<Rightarrow> ''a number'' | JFloat _ \<Rightarrow> ''a number''
   | JStr _ \<Rightarrow> ''a string'' | JArr _ \<Rightarrow> ''an array'' | JObj _ \<Rightarrow> ''an object'')"

section \<open>One frame\<close>

text \<open>\<open>read_line\<close> under \<open>take(n)\<close>: up to and with the first newline, at most \<open>n\<close> bytes; the bytes
  taken and the rest of the stream.\<close>

fun read_line :: "nat \<Rightarrow> bytes \<Rightarrow> bytes \<times> bytes" where
  "read_line 0 bs = ([], bs)"
| "read_line (Suc n) [] = ([], [])"
| "read_line (Suc n) (b # bs) =
     (if b = LF then ([b], bs) else (case read_line n bs of (l, rest) \<Rightarrow> (b # l, rest)))"

datatype next_frame = Continue | Close | Io_Error

text \<open>Dispatch of a request that passed every check.\<close>

definition dispatch :: "'s server \<Rightarrow> nat \<Rightarrow> str \<Rightarrow> json \<Rightarrow> 's \<Rightarrow> 's \<times> response" where
  "dispatch sv i mth params s =
     (case sv_handlers sv mth of
        Some entry \<Rightarrow>
          (case rh_handler entry params s of
             (s', Some (Inr v)) \<Rightarrow> (s', build_response i v)
           | (s', Some (Inl e)) \<Rightarrow> (s', build_error i e)
           | (s', None) \<Rightarrow> (s', build_error i (rpc_err_new SERVER_ERROR
               (''handler timed out after '' @ dec (rh_timeout entry) @ '' ms''))))
      | None \<Rightarrow> (s, build_error i (rpc_err_new METHOD_NOT_FOUND (''Unknown method: '' @ mth))))"

text \<open>What a parsed request gets: the new state, the response if any, and what happens next.\<close>

definition serve_request :: "'s server \<Rightarrow> request \<Rightarrow> 's \<Rightarrow> 's \<times> response option \<times> next_frame" where
  "serve_request sv req s =
     (case rq_id req of
        None \<Rightarrow> (s, None, Continue)
      | Some i \<Rightarrow>
          if (case sv_secret sv of
                Some expected \<Rightarrow> \<not> ipc_constant_time_eq (unwrap_or (rq_secret req) []) expected
              | None \<Rightarrow> False)
          then (s, Some (build_error i (rpc_err_new UNAUTHORIZED
                  ''unauthorized: missing or invalid gpty_secret'')), Close)
          else (let params = unwrap_or (rq_params req) JNull
                in if params \<noteq> JNull \<and> jobj params = None
                   then (s, Some (build_error i (rpc_err_new INVALID_PARAMS
                           (''params must be a JSON object or absent, got '' @ json_kind params))),
                         Continue)
                   else (case dispatch sv i (rq_method req) params s of
                           (s', resp) \<Rightarrow> (s', Some resp, Continue))))"

text \<open>\<open>handle_frame\<close>: the rest of the stream, the state, the response written, what happens next.
  A frame that is not UTF-8 is an I/O error of \<open>read_line\<close>.\<close>

definition handle_frame :: "'s server \<Rightarrow> bytes \<Rightarrow> 's
    \<Rightarrow> bytes \<times> 's \<times> response option \<times> next_frame" where
  "handle_frame sv stream s =
     (case read_line (MAX_REQUEST_LEN + 1) stream of
        (raw, rest) \<Rightarrow>
          if \<not> utf8_valid raw then (rest, s, None, Io_Error)
          else if raw = [] then (rest, s, None, Close)
          else if last raw \<noteq> LF \<and> length raw = MAX_REQUEST_LEN + 1
          then (rest, s, Some (build_error 0 (rpc_err_new INVALID_REQUEST
                  (''request exceeds '' @ dec MAX_REQUEST_LEN @ '' bytes''))), Close)
          else (let text = trim raw
                in if text = [] then (rest, s, None, Continue)
                   else (case sv_parse sv text of
                           Inl e \<Rightarrow> (rest, s, Some (build_error 0 (rpc_err_new PARSE_ERROR
                                      (''Parse error: '' @ e))), Continue)
                         | Inr req \<Rightarrow> (rest, serve_request sv req s))))"

section \<open>One connection\<close>

lemma read_line_concat: "read_line n bs = (l, rest) \<Longrightarrow> bs = l @ rest"
  by (induction n bs arbitrary: l rule: read_line.induct) (auto split: if_splits prod.splits)

lemma read_line_length: "length (fst (read_line n bs)) \<le> n"
  by (induction n bs rule: read_line.induct) (auto split: prod.splits)

lemma handle_frame_continue:
  "handle_frame sv stream s = (rest, s', resp, Continue) \<Longrightarrow> length rest < length stream"
  using read_line_concat [of "MAX_REQUEST_LEN + 1" stream]
  by (cases "fst (read_line (MAX_REQUEST_LEN + 1) stream) = []")
    (auto simp: handle_frame_def Let_def split: prod.splits if_splits sum.splits)

text \<open>\<open>handle_connection\<close>: the state, the responses in order, and whether it ended in an error.\<close>

function handle_connection :: "'s server \<Rightarrow> bytes \<Rightarrow> 's \<Rightarrow> 's \<times> response list \<times> bool" where
  "handle_connection sv stream s =
     (case handle_frame sv stream s of
        (rest, s', resp, Continue) \<Rightarrow>
          (case handle_connection sv rest s' of
             (s'', resps, err) \<Rightarrow> (s'', (case resp of Some r \<Rightarrow> [r] | None \<Rightarrow> []) @ resps, err))
      | (rest, s', resp, Close) \<Rightarrow> (s', (case resp of Some r \<Rightarrow> [r] | None \<Rightarrow> []), False)
      | (rest, s', resp, Io_Error) \<Rightarrow> (s', [], True))"
  by pat_completeness auto
termination
  by (relation "measure (\<lambda>(sv, stream, s). length stream)") (auto dest: handle_frame_continue [OF sym])

declare handle_connection.simps [simp del]

section \<open>Binding\<close>

datatype socket_state = Absent | Stale | Live | Unknown

datatype connect_result = Connected | Refused | Not_Found | Other_Failure | Probe_Timeout

definition probe_socket :: "connect_result \<Rightarrow> socket_state" where
  "probe_socket r = (case r of
     Connected \<Rightarrow> Live | Refused \<Rightarrow> Stale | Not_Found \<Rightarrow> Absent
   | Other_Failure \<Rightarrow> Unknown | Probe_Timeout \<Rightarrow> Unknown)"

text \<open>What is at the path, \<open>symlink_metadata\<close>: nothing, or a file with its kind and owner.\<close>

record path_meta =
  pm_is_socket :: bool
  pm_owned :: bool

datatype refusal = Not_A_Socket | Foreign_Socket | Already_Listening | No_Answer

datatype bind_decision = Bind | Remove_And_Bind | Refuse refusal

definition bind_check :: "path_meta option \<Rightarrow> connect_result \<Rightarrow> bind_decision" where
  "bind_check meta probe =
     (case meta of
        Some mt \<Rightarrow>
          if \<not> pm_is_socket mt then Refuse Not_A_Socket
          else if \<not> pm_owned mt then Refuse Foreign_Socket
          else (case probe_socket probe of
                  Stale \<Rightarrow> Remove_And_Bind | Absent \<Rightarrow> Remove_And_Bind
                | Live \<Rightarrow> Refuse Already_Listening | Unknown \<Rightarrow> Refuse No_Answer)
      | None \<Rightarrow> Bind)"

text \<open>\<open>create_with\<close>: the flag is whether an instance was ever created; the result is what the
  attempt was told (to be the first) and the flag afterwards.\<close>

definition create_with :: "(bool \<Rightarrow> bool) \<Rightarrow> bool \<Rightarrow> bool \<times> bool" where
  "create_with create any_created =
     (let first = \<not> any_created
      in (first, if create first then True else any_created))"

section \<open>Lemmas\<close>

lemma read_line_frame:
  "LF \<notin> set l \<Longrightarrow> length l < n \<Longrightarrow> read_line n (l @ LF # rest) = (l @ [LF], rest)"
proof (induction l arbitrary: n)
  case Nil
  then show ?case by (cases n) auto
next
  case (Cons b l)
  then show ?case by (cases n) auto
qed

lemma read_line_long: "LF \<notin> set l \<Longrightarrow> length l = n \<Longrightarrow> read_line n (l @ rest) = (l, rest)"
proof (induction l arbitrary: n)
  case Nil
  then show ?case by simp
next
  case (Cons b l)
  then show ?case by (cases n) auto
qed

text \<open>A request whose secret is the server's.\<close>

definition authorized :: "'s server \<Rightarrow> request \<Rightarrow> bool" where
  "authorized sv req \<longleftrightarrow>
     (case sv_secret sv of Some expected \<Rightarrow> unwrap_or (rq_secret req) [] = expected | None \<Rightarrow> True)"

lemma serve_request_unauthorized:
  "\<not> authorized sv req \<Longrightarrow> serve_request sv req s = (s', resp, nxt) \<Longrightarrow>
   s' = s \<and> (rq_id req = None \<and> resp = None \<or> (\<exists>i. rq_id req = Some i \<and> nxt = Close \<and>
     resp = Some (build_error i (rpc_err_new UNAUTHORIZED
       ''unauthorized: missing or invalid gpty_secret''))))"
  by (auto simp: serve_request_def authorized_def ipc_constant_time_eq_iff split: option.splits)

lemma handle_frame_state:
  assumes "handle_frame sv stream s = (rest, s', resp, nxt)" and "s' \<noteq> s"
  shows "\<exists>raw req i. read_line (MAX_REQUEST_LEN + 1) stream = (raw, rest) \<and>
    sv_parse sv (trim raw) = Inr req \<and> rq_id req = Some i \<and> authorized sv req \<and>
    sv_handlers sv (rq_method req) \<noteq> None \<and>
    (unwrap_or (rq_params req) JNull = JNull \<or> (\<exists>kvs. unwrap_or (rq_params req) JNull = JObj kvs))"
proof -
  obtain raw rest' where r: "read_line (MAX_REQUEST_LEN + 1) stream = (raw, rest')" by force
  with assms obtain req where req: "sv_parse sv (trim raw) = Inr req" "rest' = rest"
    "serve_request sv req s = (s', resp, nxt)"
    by (auto simp: handle_frame_def Let_def split: if_splits sum.splits)
  have auth: "authorized sv req" using serve_request_unauthorized req(3) assms(2) by metis
  have handled: "sv_handlers sv mth \<noteq> None" if "dispatch sv i mth params s = (s', x)" for i mth params x
    using that assms(2) by (cases "sv_handlers sv mth") (auto simp: dispatch_def)
  obtain i where i: "rq_id req = Some i" using req(3) assms(2) by (cases "rq_id req") (auto simp: serve_request_def)
  let ?params = "unwrap_or (rq_params req) JNull"
  have ok: "?params = JNull \<or> jobj ?params \<noteq> None"
    using req(3) assms(2) i by (auto simp: serve_request_def Let_def split: if_splits)
  then have "sv_handlers sv (rq_method req) \<noteq> None"
    using req(3) assms(2) i auth
    by (auto simp: serve_request_def Let_def split: if_splits prod.splits dest!: handled)
  then show ?thesis using req(1,2) r auth i ok by auto
qed

section \<open>Answering a pipeline\<close>

text \<open>A frame the server can answer: its bytes, without the newline, and the request they parse to.\<close>

definition good_frame :: "'s server \<Rightarrow> str \<Rightarrow> request \<Rightarrow> bool" where
  "good_frame sv l req \<longleftrightarrow> LF \<notin> set l \<and> length l \<le> MAX_REQUEST_LEN \<and> utf8_valid (l @ [LF]) \<and>
     trim (l @ [LF]) \<noteq> [] \<and> sv_parse sv (trim (l @ [LF])) = Inr req \<and> authorized sv req"

text \<open>The reference: one request after the other.\<close>

fun serve_all :: "'s server \<Rightarrow> request list \<Rightarrow> 's \<Rightarrow> 's \<times> response list" where
  "serve_all sv [] s = (s, [])"
| "serve_all sv (req # reqs) s =
     (case serve_request sv req s of
        (s', resp, _) \<Rightarrow>
          (case serve_all sv reqs s' of
             (s'', resps) \<Rightarrow> (s'', (case resp of Some r \<Rightarrow> [r] | None \<Rightarrow> []) @ resps)))"

lemma serve_request_continue:
  "authorized sv req \<Longrightarrow> \<exists>s' resp. serve_request sv req s = (s', resp, Continue) \<and>
     (resp = None \<longleftrightarrow> rq_id req = None) \<and>
     (\<forall>r. resp = Some r \<longrightarrow> rq_id req = Some (rs_id r))"
proof (cases "rq_id req")
  case (Some i)
  assume auth: "authorized sv req"
  have resp: "\<exists>s' r. dispatch sv i mth params s = (s', r) \<and> rs_id r = i" for mth params
    by (auto simp: dispatch_def build_response_def build_error_def
        split: option.splits prod.splits sum.splits)
  have "(case sv_secret sv of Some expected \<Rightarrow>
      \<not> ipc_constant_time_eq (unwrap_or (rq_secret req) []) expected | None \<Rightarrow> False) = False"
    using auth by (simp add: authorized_def ipc_constant_time_eq_iff split: option.splits)
  then show ?thesis
    using resp [of "rq_method req" "unwrap_or (rq_params req) JNull"] Some
    by (auto simp: serve_request_def Let_def build_error_def)
qed (simp add: serve_request_def)

lemma handle_connection_empty: "handle_connection sv [] s = (s, [], False)"
  by (subst handle_connection.simps) (simp add: handle_frame_def utf8_valid_def)

lemma handle_connection_good:
  assumes "good_frame sv l req" and "serve_request sv req s = (s', resp, Continue)"
    and "handle_connection sv rest s' = (s'', resps, err)"
  shows "handle_connection sv (l @ LF # rest) s =
    (s'', (case resp of Some r \<Rightarrow> [r] | None \<Rightarrow> []) @ resps, err)"
proof -
  have "read_line (MAX_REQUEST_LEN + 1) (l @ LF # rest) = (l @ [LF], rest)"
    using assms(1) by (intro read_line_frame) (auto simp: good_frame_def)
  then have "handle_frame sv (l @ LF # rest) s = (rest, s', resp, Continue)"
    using assms(1,2) by (simp add: handle_frame_def good_frame_def)
  then show ?thesis using assms(3) by (subst handle_connection.simps) simp
qed

lemma pipeline_lemma:
  "list_all2 (good_frame sv) ls reqs \<Longrightarrow>
   handle_connection sv (concat (map (\<lambda>l. l @ [LF]) ls)) s =
     (fst (serve_all sv reqs s), snd (serve_all sv reqs s), False)"
proof (induction ls reqs arbitrary: s rule: list_all2_induct)
  case Nil
  show ?case by (simp add: handle_connection_empty)
next
  case (Cons l ls req reqs)
  then have "authorized sv req" by (simp add: good_frame_def)
  then obtain s' resp where r: "serve_request sv req s = (s', resp, Continue)"
    using serve_request_continue [of sv req s] by auto
  have tail: "handle_connection sv (concat (map (\<lambda>l. l @ [LF]) ls)) s' =
      (fst (serve_all sv reqs s'), snd (serve_all sv reqs s'), False)" by (rule Cons.IH)
  show ?case
    using handle_connection_good [OF Cons.hyps(1) r tail] by (simp add: r case_prod_beta)
qed

lemma serve_all_ids:
  "list_all (authorized sv) reqs \<Longrightarrow>
   map rs_id (snd (serve_all sv reqs s)) = List.map_filter rq_id reqs"
proof (induction reqs arbitrary: s)
  case (Cons req reqs)
  then have "authorized sv req" by simp
  from serve_request_continue [OF this, of s] obtain s' resp
    where r: "serve_request sv req s = (s', resp, Continue)"
    "resp = None \<longleftrightarrow> rq_id req = None" "\<forall>x. resp = Some x \<longrightarrow> rq_id req = Some (rs_id x)"
    by (elim exE conjE)
  have "map rs_id (snd (serve_all sv reqs s')) = List.map_filter rq_id reqs"
    using Cons by simp
  with r show ?case
    by (cases resp) (auto simp: List.map_filter_simps case_prod_beta)
qed (simp add: List.map_filter_simps)

section \<open>Properties\<close>

text \<open>C13: With a secret configured nothing reaches a handler without it: whatever bytes a client
  sends, a frame that changes the state the handlers act on parsed to a request with an id that
  presented exactly the secret, named a registered method, and carried parameters that are an
  object, null or absent.\<close>

theorem only_authorized_frames_act:
  assumes "handle_frame sv stream s = (rest, s', resp, nxt)" and "s' \<noteq> s"
    and "sv_secret sv = Some secret"
  shows "\<exists>raw req i. read_line (MAX_REQUEST_LEN + 1) stream = (raw, rest) \<and>
    sv_parse sv (trim raw) = Inr req \<and> rq_id req = Some i \<and>
    unwrap_or (rq_secret req) [] = secret \<and> sv_handlers sv (rq_method req) \<noteq> None \<and>
    (unwrap_or (rq_params req) JNull = JNull \<or> (\<exists>kvs. unwrap_or (rq_params req) JNull = JObj kvs))"
  using handle_frame_state [OF assms(1,2)] assms(3) by (simp add: authorized_def)

text \<open>A server with one method, \<open>inc\<close>, whose parser reads the frame \<open>inc!\<close> with the secret and
  any other text without.\<close>

definition sample_request :: "str \<Rightarrow> request" where
  "sample_request secret = \<lparr>rq_jsonrpc = ''2.0'', rq_id = Some 7, rq_method = ''inc'',
     rq_params = None, rq_secret = Some secret\<rparr>"

definition sample_server :: "nat server" where
  "sample_server = set_secret ''k'' (register ''inc'' (\<lambda>_ n. (n + 1, Some (Inr JNull)))
     (server_new (\<lambda>t. Inr (sample_request (if t = ''inc!'' then ''k'' else ''x'')))))"

lemma sample_frame: "good_frame sample_server ''inc!'' (sample_request ''k'')"
  by (simp add: good_frame_def sample_server_def set_secret_def register_def register_with_timeout_def
      server_new_def MAX_REQUEST_LEN_def authorized_def sample_request_def trim_eval ascii_valid ascii_def)

lemma sample_handle:
  "handle_frame sample_server (''inc!'' @ [LF]) 3 =
    ([], 4, Some (build_response 7 JNull), Continue)"
proof -
  have "read_line (MAX_REQUEST_LEN + 1) (''inc!'' @ LF # []) = (''inc!'' @ [LF], [])"
    by (rule read_line_frame) (simp_all add: MAX_REQUEST_LEN_def)
  then show ?thesis
    using sample_frame
    by (simp add: handle_frame_def good_frame_def serve_request_def dispatch_def sample_server_def
        set_secret_def register_def register_with_timeout_def server_new_def sample_request_def
        ipc_constant_time_eq_iff)
qed

theorem only_authorized_frames_act_witness:
  "\<exists>req. sv_parse sample_server ''inc!'' = Inr req \<and> rq_secret req = Some ''k''"
  using only_authorized_frames_act [OF sample_handle, of "''k''"]
  by (simp add: sample_server_def set_secret_def register_def register_with_timeout_def server_new_def
      sample_request_def)

text \<open>A client may pipeline: for any frames that fit the bound and parse to authorized requests,
  one connection serves them all in order, each acting on the state the one before it left, and
  answers exactly those with an id, in order and under their own ids; notifications are not
  answered, and an error of one does not end the pipeline.\<close>

theorem pipeline_in_order:
  assumes "list_all2 (good_frame sv) ls reqs"
  shows "handle_connection sv (concat (map (\<lambda>l. l @ [LF]) ls)) s =
      (fst (serve_all sv reqs s), snd (serve_all sv reqs s), False) \<and>
    map rs_id (snd (serve_all sv reqs s)) = List.map_filter rq_id reqs"
proof -
  have "list_all (authorized sv) reqs"
    using assms by (auto simp: list_all_iff list_all2_conv_all_nth in_set_conv_nth good_frame_def)
  then show ?thesis using pipeline_lemma [OF assms, of s] serve_all_ids [of sv reqs s] by simp
qed

theorem pipeline_in_order_witness:
  "map rs_id (fst (snd (handle_connection sample_server (''inc!'' @ [LF] @ ''inc!'' @ [LF]) 0))) = [7, 7]"
  using pipeline_in_order [of sample_server "[''inc!'', ''inc!'']"
      "[sample_request ''k'', sample_request ''k'']" 0] sample_frame
  by (simp add: List.map_filter_simps sample_request_def)

text \<open>The reader never takes more than the bound and one byte of a frame; a frame that is
  longer is answered with an error and ends the connection, if the byte where it was cut is the
  end of a character.\<close>

theorem oversized_frame_is_answered:
  assumes "LF \<notin> set l" and "length l = MAX_REQUEST_LEN + 1" and "utf8_valid l"
  shows "length (fst (read_line (MAX_REQUEST_LEN + 1) any)) \<le> 65537 \<and>
    handle_connection sv (l @ rest) s =
      (s, [build_error 0 (rpc_err_new INVALID_REQUEST
             (''request exceeds '' @ dec MAX_REQUEST_LEN @ '' bytes''))], False)"
proof -
  have "l \<noteq> []" using assms(2) by auto
  then have "last l \<noteq> LF" using assms(1) last_in_set by metis
  with \<open>l \<noteq> []\<close> have "handle_frame sv (l @ rest) s = (rest, s, Some (build_error 0 (rpc_err_new INVALID_REQUEST
      (''request exceeds '' @ dec MAX_REQUEST_LEN @ '' bytes''))), Close)"
    using assms read_line_long [OF assms(1,2), of rest] by (simp add: handle_frame_def)
  then show ?thesis
    using read_line_length [of "MAX_REQUEST_LEN + 1" any]
    by (subst handle_connection.simps) (simp add: MAX_REQUEST_LEN_def)
qed

theorem oversized_frame_is_answered_witness:
  "length (fst (snd (handle_connection sample_server (replicate 65537 (CHR ''a'')) 0))) = 1"
proof -
  have "ascii (replicate 65537 (CHR ''a''))" by (simp add: ascii_def list_all_iff code_def)
  then have "utf8_valid (replicate 65537 (CHR ''a''))" by (rule ascii_valid)
  from oversized_frame_is_answered [OF _ _ this, of "[]" sample_server "[]" 0] show ?thesis
    by (simp add: MAX_REQUEST_LEN_def)
qed

text \<open>But a frame that is cut inside a character is not answered at all: \<open>read_line\<close> fails
  on the partial character and the connection is dropped as an I/O error.\<close>

theorem oversized_frame_cut_in_a_character:
  assumes "LF \<notin> set l" and "length l = MAX_REQUEST_LEN + 1" and "\<not> utf8_valid l"
  shows "handle_connection sv (l @ rest) s = (s, [], True)"
  using read_line_long [OF assms(1,2), of rest] assms(3)
  by (subst handle_connection.simps) (simp add: handle_frame_def)

lemma utf8_chunks_append_ascii:
  "ascii xs \<Longrightarrow> utf8_chunks (xs @ ys) = map (\<lambda>b. (True, [b])) xs @ utf8_chunks ys"
  by (induction xs) (auto simp: ascii_def utf8_head_def)

theorem oversized_frame_cut_in_a_character_witness:
  "handle_connection sample_server
     (replicate 65536 (CHR ''a'') @ [CHR 0xC3] @ [CHR 0xA9] @ [LF]) 0 = (0, [], True)"
proof -
  have a: "ascii (replicate 65536 (CHR ''a''))" by (simp add: ascii_def list_all_iff code_def)
  have u: "\<not> utf8_valid (replicate 65536 (CHR ''a'') @ [CHR 0xC3])"
    unfolding utf8_valid_def utf8_chunks_append_ascii [OF a] by (simp add: utf8_head_def code_def)
  have l: "LF \<notin> set (replicate 65536 (CHR ''a'') @ [CHR 0xC3])"
    "length (replicate 65536 (CHR ''a'') @ [CHR 0xC3]) = MAX_REQUEST_LEN + 1"
    by (simp_all add: MAX_REQUEST_LEN_def)
  from oversized_frame_cut_in_a_character [OF l u, of sample_server "[CHR 0xA9, LF]" 0]
  show ?thesis by simp
qed

text \<open>Binding never takes a socket away from anybody: an existing path is removed only when it
  is a socket of this user behind which a connection was refused or nothing is left, and every
  other answer of the probe, a timeout included, refuses.\<close>

theorem bind_never_steals:
  "(bind_check meta probe = Remove_And_Bind) =
     (\<exists>mt. meta = Some mt \<and> pm_is_socket mt \<and> pm_owned mt \<and> probe \<in> {Refused, Not_Found}) \<and>
   (bind_check meta probe = Bind) = (meta = None) \<and>
   (meta \<noteq> None \<and> probe \<in> {Connected, Other_Failure, Probe_Timeout} \<longrightarrow>
      (\<exists>why. bind_check meta probe = Refuse why))"
  by (cases probe) (auto simp: bind_check_def probe_socket_def split: option.splits)

theorem bind_never_steals_witness:
  "\<exists>why. bind_check (Some \<lparr>pm_is_socket = True, pm_owned = True\<rparr>) Probe_Timeout = Refuse why"
  using bind_never_steals [of "Some \<lparr>pm_is_socket = True, pm_owned = True\<rparr>" Probe_Timeout] by simp

text \<open>Attempts to create a pipe instance one after the other.\<close>

fun create_all :: "(bool \<Rightarrow> bool) list \<Rightarrow> bool \<Rightarrow> bool list" where
  "create_all [] flag = []"
| "create_all (c # cs) flag = (case create_with c flag of (first, flag') \<Rightarrow> first # create_all cs flag')"

lemma create_all_after: "create_all cs True = replicate (length cs) False"
  by (induction cs) (simp_all add: create_with_def)

text \<open>The claim of the first pipe instance is spent by the first success only: attempts are
  told to be the first until one of them succeeds, and none after it.\<close>

theorem first_claim_survives_failures:
  assumes "list_all (\<lambda>c. \<not> c True) failing" and "ok True"
  shows "create_all (failing @ ok # rest) False =
    replicate (length failing + 1) True @ replicate (length rest) False"
  using assms by (induction failing) (simp_all add: create_with_def create_all_after)

theorem first_claim_survives_failures_witness:
  "create_all [\<lambda>_. False, \<lambda>_. True, \<lambda>_. True] False = [True, True, False]"
  using first_claim_survives_failures [of "[\<lambda>_. False]" "\<lambda>_. True" "[\<lambda>_. True]"]
  by (simp add: numeral_2_eq_2)

end
