(* ===== verification/File_System.thy ===== *)
theory File_System
  imports Rust_Strings
begin

text \<open>
  What the sources use of \<open>std::path\<close> and \<open>std::fs\<close>, on a POSIX system: paths as strings and
  their components, and a file system of directories, files and symbolic links in which a path
  is resolved component by component.  A file has its bytes, its modification time in
  nanoseconds and its mode.  Permission failures, hard links and file systems that are not
  case sensitive are outside the model, and nothing else changes the file system while an
  operation runs.
\<close>

section \<open>Paths\<close>

text \<open>\<open>str::split('/')\<close>\<close>

fun split_slash :: "str \<Rightarrow> str list" where
  "split_slash [] = [[]]"
| "split_slash (a # s) =
     (if a = CHR ''/'' then [] # split_slash s
      else (case split_slash s of [] \<Rightarrow> [[a]] | p # ps \<Rightarrow> (a # p) # ps))"

definition absolute :: "str \<Rightarrow> bool" where
  "absolute s = (case s of c # _ \<Rightarrow> c = CHR ''/'' | [] \<Rightarrow> False)"

text \<open>The names of a path: its components without empty ones and \<open>.\<close>\<close>

definition path_names :: "str \<Rightarrow> str list" where
  "path_names s = filter (\<lambda>c. c \<noteq> [] \<and> c \<noteq> ''.'') (split_slash s)"

text \<open>The components the system resolves: a path that ends in a slash ends in \<open>.\<close>\<close>

definition os_comps :: "str \<Rightarrow> str list" where
  "os_comps s = path_names s @ (if s \<noteq> [] \<and> last (split_slash s) \<in> {[], ''.''} then [''.''] else [])"

datatype path_component = Root_Dir | Cur_Dir | Parent_Dir | Normal str

definition components :: "str \<Rightarrow> path_component list" where
  "components s =
     (if absolute s then [Root_Dir] else if hd (split_slash s) = ''.'' then [Cur_Dir] else [])
     @ map (\<lambda>c. if c = ''..'' then Parent_Dir else Normal c) (path_names s)"

definition path_join :: "str \<Rightarrow> str \<Rightarrow> str" where
  "path_join base rel =
     (if absolute rel then rel
      else if base = [] \<or> last base = CHR ''/'' then base @ rel else base @ ''/'' @ rel)"

section \<open>The file system\<close>

type_synonym path = "str list"

datatype fnode = Dir | File bytes int nat | Link str

type_synonym fs = "(path \<times> fnode) list"

definition fs_get :: "fs \<Rightarrow> path \<Rightarrow> fnode option" where
  "fs_get fs p = (if p = [] then Some Dir else map_of fs p)"

definition fs_put :: "path \<Rightarrow> fnode \<Rightarrow> fs \<Rightarrow> fs" where
  "fs_put p n fs = (p, n) # filter (\<lambda>e. fst e \<noteq> p) fs"

definition fs_del :: "path \<Rightarrow> fs \<Rightarrow> fs" where
  "fs_del p fs = filter (\<lambda>e. fst e \<noteq> p) fs"

text \<open>Resolution follows at most 40 links.\<close>

definition MAX_SYMLINKS :: nat where "MAX_SYMLINKS = 40"

function resolve_at :: "fs \<Rightarrow> nat \<Rightarrow> path \<Rightarrow> str list \<Rightarrow> path option" where
  "resolve_at fs n acc [] = Some acc"
| "resolve_at fs n acc (c # cs) =
     (if fs_get fs acc \<noteq> Some Dir then None
      else if c = ''.'' then resolve_at fs n acc cs
      else if c = ''..'' then resolve_at fs n (butlast acc) cs
      else (case fs_get fs (acc @ [c]) of
          None \<Rightarrow> None
        | Some (Link t) \<Rightarrow>
            (if n = 0 \<or> t = [] then None
             else resolve_at fs (n - 1) (if absolute t then [] else acc) (os_comps t @ cs))
        | Some _ \<Rightarrow> resolve_at fs n (acc @ [c]) cs))"
  by pat_completeness auto

termination
  by (relation "measures [\<lambda>(fs, n, acc, cs). n, \<lambda>(fs, n, acc, cs). length cs]") auto

declare resolve_at.simps(2) [simp del]

text \<open>\<open>fs::canonicalize\<close>, \<open>fs::metadata\<close>, \<open>Path::is_dir\<close>, \<open>fs::read_dir\<close>; a relative path would
  be resolved against the working directory, which is not modelled.\<close>

definition canonicalize :: "fs \<Rightarrow> str \<Rightarrow> path option" where
  "canonicalize fs s = (if absolute s then resolve_at fs MAX_SYMLINKS [] (os_comps s) else None)"

definition metadata :: "fs \<Rightarrow> str \<Rightarrow> fnode option" where
  "metadata fs s = Option.bind (canonicalize fs s) (fs_get fs)"

definition is_dir :: "fs \<Rightarrow> str \<Rightarrow> bool" where
  "is_dir fs s = (metadata fs s = Some Dir)"

definition read_dir :: "fs \<Rightarrow> str \<Rightarrow> str list option" where
  "read_dir fs s =
     (case canonicalize fs s of
        Some p \<Rightarrow> if fs_get fs p = Some Dir
          then Some (map (last \<circ> fst) (filter (\<lambda>(q, _). q \<noteq> [] \<and> butlast q = p) fs)) else None
      | None \<Rightarrow> None)"

text \<open>The entry a path names, its own last component not followed: what unlinking, renaming and
  an exclusive create act on.\<close>

definition locate :: "fs \<Rightarrow> str \<Rightarrow> path option" where
  "locate fs s =
     (let cs = os_comps s
      in if \<not> absolute s \<or> cs = [] \<or> last cs \<in> {''.'', ''..''} then None
         else (case resolve_at fs MAX_SYMLINKS [] (butlast cs) of
             Some p \<Rightarrow> if fs_get fs p = Some Dir then Some (p @ [last cs]) else None
           | None \<Rightarrow> None))"

definition symlink_metadata :: "fs \<Rightarrow> str \<Rightarrow> fnode option" where
  "symlink_metadata fs s = Option.bind (locate fs s) (fs_get fs)"

datatype io_error = Io_Not_Found | Io_Already_Exists | Io_Other

text \<open>\<open>OpenOptions::create_new\<close>, then the whole content; \<open>fs::remove_file\<close>; \<open>fs::rename\<close> of a file
  or a link.\<close>

definition create_new :: "fs \<Rightarrow> str \<Rightarrow> fnode \<Rightarrow> io_error + fs" where
  "create_new fs s node =
     (case locate fs s of
        None \<Rightarrow> Inl Io_Other
      | Some p \<Rightarrow> if fs_get fs p \<noteq> None then Inl Io_Already_Exists else Inr (fs_put p node fs))"

definition remove_file :: "fs \<Rightarrow> str \<Rightarrow> io_error + fs" where
  "remove_file fs s =
     (case locate fs s of
        None \<Rightarrow> Inl Io_Not_Found
      | Some p \<Rightarrow>
          (case fs_get fs p of
             None \<Rightarrow> Inl Io_Not_Found
           | Some Dir \<Rightarrow> Inl Io_Other
           | Some _ \<Rightarrow> Inr (fs_del p fs)))"

definition rename_file :: "fs \<Rightarrow> str \<Rightarrow> str \<Rightarrow> io_error + fs" where
  "rename_file fs s d =
     (case (locate fs s, locate fs d) of
        (Some p, Some q) \<Rightarrow>
          (case fs_get fs p of
             None \<Rightarrow> Inl Io_Not_Found
           | Some Dir \<Rightarrow> Inl Io_Other
           | Some node \<Rightarrow>
               if fs_get fs q = Some Dir then Inl Io_Other
               else if p = q then Inr fs else Inr (fs_put q node (fs_del p fs)))
      | _ \<Rightarrow> Inl Io_Not_Found)"

section \<open>Lemmas\<close>

lemma fs_get_root [simp]: "fs_get fs [] = Some Dir"
  by (simp add: fs_get_def)

lemma map_of_filter_ne: "map_of (filter (\<lambda>e. fst e \<noteq> p) fs) q = (if q = p then None else map_of fs q)"
  by (induction fs) auto

lemma fs_get_put: "fs_get (fs_put p n fs) q = (if q = p \<and> p \<noteq> [] then Some n else fs_get fs q)"
  by (auto simp: fs_get_def fs_put_def map_of_filter_ne)

lemma fs_get_del: "fs_get (fs_del p fs) q = (if q = p \<and> p \<noteq> [] then None else fs_get fs q)"
  by (auto simp: fs_get_def fs_del_def map_of_filter_ne)

text \<open>Resolution sees only which entries are directories and links.\<close>

fun same_kind :: "fnode option \<Rightarrow> fnode option \<Rightarrow> bool" where
  "same_kind (Some (File _ _ _)) (Some (File _ _ _)) = True"
| "same_kind x y = (x = y)"

lemma same_kind_refl [simp]: "same_kind x x"
  by (cases x; cases "the x") auto

lemma same_kind_Dir: "same_kind x y \<Longrightarrow> x = Some Dir \<longleftrightarrow> y = Some Dir"
  by (cases x; cases y; cases "the x"; cases "the y") auto

lemma resolve_at_cong:
  "(\<And>p. same_kind (fs_get fs p) (fs_get fs' p)) \<Longrightarrow> resolve_at fs n acc cs = resolve_at fs' n acc cs"
proof (induction fs n acc cs rule: resolve_at.induct)
  case (2 fs n acc c cs)
  note k = 2(6)
  have d: "fs_get fs acc = Some Dir \<longleftrightarrow> fs_get fs' acc = Some Dir"
    by (rule same_kind_Dir [OF k])
  show ?case
    using k [of "acc @ [c]"] 2(1-5)
    by (cases "fs_get fs (acc @ [c])"; cases "fs_get fs' (acc @ [c])"; cases "the (fs_get fs (acc @ [c]))";
        cases "the (fs_get fs' (acc @ [c]))")
      (simp_all add: d k resolve_at.simps(2) [of fs] resolve_at.simps(2) [of fs'])
qed simp

definition is_link :: "fnode option \<Rightarrow> bool" where
  "is_link x = (case x of Some (Link _) \<Rightarrow> True | _ \<Rightarrow> False)"

text \<open>Resolution as a relation, for induction over its steps.\<close>

inductive resolves :: "fs \<Rightarrow> nat \<Rightarrow> path \<Rightarrow> str list \<Rightarrow> path \<Rightarrow> bool" for fs where
  at_end: "resolves fs n acc [] acc"
| dot: "fs_get fs acc = Some Dir \<Longrightarrow> resolves fs n acc cs q \<Longrightarrow> resolves fs n acc (''.'' # cs) q"
| up: "fs_get fs acc = Some Dir \<Longrightarrow> resolves fs n (butlast acc) cs q \<Longrightarrow> resolves fs n acc (''..'' # cs) q"
| follow: "fs_get fs acc = Some Dir \<Longrightarrow> c \<noteq> ''.'' \<Longrightarrow> c \<noteq> ''..'' \<Longrightarrow> fs_get fs (acc @ [c]) = Some (Link t) \<Longrightarrow>
    t \<noteq> [] \<Longrightarrow> resolves fs n (if absolute t then [] else acc) (os_comps t @ cs) q \<Longrightarrow> resolves fs (Suc n) acc (c # cs) q"
| enter: "fs_get fs acc = Some Dir \<Longrightarrow> c \<noteq> ''.'' \<Longrightarrow> c \<noteq> ''..'' \<Longrightarrow> fs_get fs (acc @ [c]) \<noteq> None \<Longrightarrow>
    \<not> is_link (fs_get fs (acc @ [c])) \<Longrightarrow> resolves fs n (acc @ [c]) cs q \<Longrightarrow> resolves fs n acc (c # cs) q"

inductive_cases resolves_NilE: "resolves fs n acc [] q"
inductive_cases resolves_ConsE: "resolves fs n acc (c # cs) q"

lemma resolves_resolve_at: "resolves fs n acc cs q \<Longrightarrow> resolve_at fs n acc cs = Some q"
  by (induction rule: resolves.induct)
    (simp_all add: resolve_at.simps(2) is_link_def split: option.splits fnode.splits)

lemma resolve_at_resolves: "resolve_at fs n acc cs = Some q \<Longrightarrow> resolves fs n acc cs q"
proof (induction fs n acc cs rule: resolve_at.induct)
  case (2 fs n acc c cs)
  have d: "fs_get fs acc = Some Dir" using 2(6) by (simp add: resolve_at.simps(2) split: if_splits)
  consider "c = ''.''" | "c = ''..''" | (link) t where "c \<noteq> ''.''" "c \<noteq> ''..''" "fs_get fs (acc @ [c]) = Some (Link t)"
    | (node) "c \<noteq> ''.''" "c \<noteq> ''..''" "fs_get fs (acc @ [c]) \<noteq> None" "\<not> is_link (fs_get fs (acc @ [c]))"
    | "c \<noteq> ''.''" "c \<noteq> ''..''" "fs_get fs (acc @ [c]) = None"
    by (cases "fs_get fs (acc @ [c])"; cases "the (fs_get fs (acc @ [c]))") (auto simp: is_link_def)
  then show ?case
  proof cases
    case link
    then have "n \<noteq> 0" "t \<noteq> []" and r: "resolve_at fs (n - 1) (if absolute t then [] else acc) (os_comps t @ cs) = Some q"
      using 2(6) d by (simp_all add: resolve_at.simps(2) split: if_splits)
    then have "resolves fs (n - 1) (if absolute t then [] else acc) (os_comps t @ cs) q"
      by (intro 2(5) [OF _ link(1,2,3) refl _ r]) (use d in simp_all)
    then show ?thesis
      using follow [OF d link(1,2,3) \<open>t \<noteq> []\<close>, of "n - 1"] \<open>n \<noteq> 0\<close> by simp
  next
    case node
    then have "resolve_at fs n (acc @ [c]) cs = Some q"
      using 2(6) d by (auto simp: resolve_at.simps(2) [of fs n acc] is_link_def split: option.splits fnode.splits)
    then have "resolves fs n (acc @ [c]) cs q"
      using 2(3,4) node d by (cases "the (fs_get fs (acc @ [c]))") (auto simp: is_link_def)
    then show ?thesis using node d by (intro enter)
  qed (use 2 d in \<open>auto simp: resolve_at.simps(2) [of fs n acc] intro: resolves.intros\<close>)
qed (auto intro: resolves.intros)

lemma resolve_at_iff: "resolve_at fs n acc cs = Some q \<longleftrightarrow> resolves fs n acc cs q"
  using resolves_resolve_at resolve_at_resolves by blast

lemma resolve_at_mono:
  assumes "\<And>p node. fs_get fs p = Some node \<Longrightarrow> fs_get fs' p = Some node" "resolve_at fs n acc cs = Some q"
  shows "resolve_at fs' n acc cs = Some q"
proof -
  have "resolves fs n acc cs q \<Longrightarrow> resolves fs' n acc cs q"
  proof (induction rule: resolves.induct)
    case (follow acc c t n cs q)
    then show ?case by (intro resolves.follow) (auto simp: assms(1))
  next
    case (enter acc c n cs q)
    then obtain node where "fs_get fs (acc @ [c]) = Some node" by blast
    then show ?case using enter assms(1) by (intro resolves.enter) auto
  qed (auto intro: resolves.intros assms(1))
  then show ?thesis using assms(2) by (simp add: resolve_at_iff)
qed

text \<open>A well-formed file system: one entry per path, the parent of every entry is a directory, and
  names are names.\<close>

definition good_name :: "str \<Rightarrow> bool" where
  "good_name c \<longleftrightarrow> c \<noteq> [] \<and> c \<noteq> ''.'' \<and> c \<noteq> ''..'' \<and> CHR ''/'' \<notin> set c"

definition fs_ok :: "fs \<Rightarrow> bool" where
  "fs_ok fs \<longleftrightarrow> distinct (map fst fs) \<and>
     list_all (\<lambda>(p, _). p \<noteq> [] \<and> list_all good_name p \<and> fs_get fs (butlast p) = Some Dir) fs"

lemma fs_ok_parent: "fs_ok fs \<Longrightarrow> fs_get fs p = Some node \<Longrightarrow> fs_get fs (butlast p) = Some Dir"
  by (cases "p = []") (auto simp: fs_ok_def list_all_iff fs_get_def [of fs p] dest!: map_of_SomeD)

lemma fs_ok_names: "fs_ok fs \<Longrightarrow> fs_get fs p = Some node \<Longrightarrow> list_all good_name p"
  by (cases "p = []") (auto simp: fs_ok_def list_all_iff fs_get_def [of fs p] dest!: map_of_SomeD)

lemma resolve_at_real:
  assumes "fs_ok fs" "fs_get fs acc \<noteq> None" "\<not> is_link (fs_get fs acc)" "resolve_at fs n acc cs = Some q"
  shows "fs_get fs q \<noteq> None \<and> \<not> is_link (fs_get fs q)"
proof -
  have "resolves fs n acc cs q \<Longrightarrow> fs_get fs acc \<noteq> None \<and> \<not> is_link (fs_get fs acc) \<Longrightarrow>
      fs_get fs q \<noteq> None \<and> \<not> is_link (fs_get fs q)"
  proof (induction rule: resolves.induct)
    case (up acc n cs q)
    then show ?case using fs_ok_parent [OF assms(1) up(1)] by (simp add: is_link_def)
  next
    case (follow acc c t n cs q)
    then show ?case by (simp add: is_link_def)
  qed simp_all
  then show ?thesis using assms by (simp add: resolve_at_iff)
qed

lemma resolve_at_snoc:
  assumes "resolve_at fs n acc cs = Some p" "fs_get fs p = Some Dir" "fs_get fs (p @ [c]) \<noteq> None"
    "\<not> is_link (fs_get fs (p @ [c]))" "c \<noteq> ''.''" "c \<noteq> ''..''"
  shows "resolve_at fs n acc (cs @ [c]) = Some (p @ [c])"
proof -
  have "resolves fs n acc cs p \<Longrightarrow> fs_get fs p = Some Dir \<and> fs_get fs (p @ [c]) \<noteq> None \<and>
      \<not> is_link (fs_get fs (p @ [c])) \<Longrightarrow> resolves fs n acc (cs @ [c]) (p @ [c])"
  proof (induction rule: resolves.induct)
    case (follow acc d t n cs q)
    then show ?case using resolves.follow [OF follow(1-5), of n "cs @ [c]"] by simp
  next
    case (enter acc d n cs q)
    then show ?case using resolves.enter [OF enter(1-5), of n "cs @ [c]"] by simp
  qed (use assms(5,6) in \<open>auto intro!: resolves.intros\<close>)
  then show ?thesis using assms by (simp add: resolve_at_iff)
qed

lemma resolves_append: "resolves fs n acc (cs @ ds) q \<Longrightarrow> \<exists>m p. resolves fs n acc cs p \<and> m \<le> n \<and> resolves fs m p ds q"
proof (induction n acc "cs @ ds" q arbitrary: cs rule: resolves.induct)
  case (at_end n acc)
  then show ?case by (auto intro: resolves.intros)
next
  case (dot acc n ds' q)
  show ?case
  proof (cases cs)
    case Nil
    then show ?thesis using dot by (auto intro!: exI [of _ n] intro: resolves.intros)
  next
    case (Cons d cs')
    then obtain m p where "resolves fs n acc cs' p" "m \<le> n" "resolves fs m p ds q"
      using dot(3,4) by auto
    then show ?thesis
      using resolves.dot [OF dot(1), of n cs' p] Cons dot(4) by (auto intro!: exI [of _ m])
  qed
next
  case (up acc n ds' q)
  show ?case
  proof (cases cs)
    case Nil
    then show ?thesis using up by (auto intro!: exI [of _ n] intro: resolves.intros)
  next
    case (Cons d cs')
    then obtain m p where "resolves fs n (butlast acc) cs' p" "m \<le> n" "resolves fs m p ds q"
      using up(3,4) by auto
    then show ?thesis
      using resolves.up [OF up(1), of n cs' p] Cons up(4) by (auto intro!: exI [of _ m])
  qed
next
  case (follow acc c t n ds' q)
  show ?case
  proof (cases cs)
    case Nil
    then show ?thesis using follow by (auto intro!: exI [of _ "Suc n"] intro: resolves.intros)
  next
    case (Cons d cs')
    then have "c = d" "ds' = cs' @ ds" using follow(8) by simp_all
    then obtain m p where "resolves fs n (if absolute t then [] else acc) ((os_comps t @ cs')) p" "m \<le> n" "resolves fs m p ds q"
      using follow(7) [of "os_comps t @ cs'"] by auto
    then show ?thesis
      using resolves.follow [OF follow(1-5), of n cs' p] Cons \<open>c = d\<close> by (auto intro!: exI [of _ m])
  qed
next
  case (enter acc c n ds' q)
  show ?case
  proof (cases cs)
    case Nil
    then show ?thesis using enter by (auto intro!: exI [of _ n] intro: resolves.intros)
  next
    case (Cons d cs')
    then obtain m p where "resolves fs n (acc @ [c]) cs' p" "m \<le> n" "resolves fs m p ds q"
      using enter(7,8) by auto
    then show ?thesis
      using resolves.enter [OF enter(1-5), of n cs' p] Cons enter(8) by (auto intro!: exI [of _ m])
  qed
qed

lemma resolve_at_prefix: "resolve_at fs n acc (cs @ ds) = Some q \<Longrightarrow> \<exists>p. resolve_at fs n acc cs = Some p"
  using resolves_append by (metis resolve_at_iff)

lemma resolve_at_snocD:
  assumes "resolve_at fs n acc (cs @ [c]) = Some q" "resolve_at fs n acc cs = Some p" "\<not> is_link (fs_get fs (p @ [c]))"
    "c \<noteq> ''.''" "c \<noteq> ''..''"
  shows "fs_get fs p = Some Dir \<and> q = p @ [c] \<and> fs_get fs q \<noteq> None"
proof -
  obtain m p' where "resolves fs n acc cs p'" "resolves fs m p' [c] q"
    using assms(1) resolves_append by (metis resolve_at_iff)
  moreover from this have "p' = p" using assms(2) by (metis option.inject resolve_at_iff)
  ultimately show ?thesis
    using assms(3-5) by (auto simp: is_link_def elim!: resolves_ConsE resolves_NilE)
qed

section \<open>Lemmas on paths\<close>

lemma split_slash_nonempty [simp]: "split_slash s \<noteq> []"
  by (induction s) (auto split: list.splits)

lemma split_slash_append: "split_slash (a @ CHR ''/'' # b) = split_slash a @ split_slash b"
proof (induction a)
  case (Cons x a)
  then show ?case by (cases "split_slash a") auto
qed simp

lemma split_slash_no_slash: "CHR ''/'' \<notin> set s \<Longrightarrow> split_slash s = [s]"
  by (induction s) auto

lemma path_names_slash: "path_names (a @ CHR ''/'' # b) = path_names a @ path_names b"
  by (simp add: path_names_def split_slash_append)

lemma path_names_join: "\<not> absolute rel \<Longrightarrow> path_names (path_join base rel) = path_names base @ path_names rel"
proof (cases "base = []")
  case True
  then show ?thesis by (simp add: path_join_def path_names_def)
next
  case False
  then obtain b z where base: "base = b @ [z]" by (cases base rule: rev_cases) auto
  assume "\<not> absolute rel"
  then show ?thesis
    using path_names_slash [of b rel] path_names_slash [of b "[]"] path_names_slash [of base rel]
    by (auto simp: path_join_def base path_names_def)
qed

lemma last_split_join:
  assumes "\<not> absolute rel"
  shows "last (split_slash (path_join base rel)) = last (split_slash rel)"
proof (cases "base = []")
  case True
  then show ?thesis using assms by (simp add: path_join_def)
next
  case False
  then obtain b z where base: "base = b @ [z]" by (cases base rule: rev_cases) auto
  show ?thesis
    using assms split_slash_append [of b rel] split_slash_append [of base rel]
    by (auto simp: path_join_def base)
qed

lemma os_comps_join:
  "\<not> absolute rel \<Longrightarrow> rel \<noteq> [] \<Longrightarrow> os_comps (path_join base rel) = path_names base @ os_comps rel"
  by (auto simp: os_comps_def path_names_join last_split_join) (auto simp: path_join_def split: if_splits)

lemma good_name_path: "good_name c \<Longrightarrow> path_names c = [c] \<and> os_comps c = [c] \<and> \<not> absolute c \<and> c \<noteq> []"
  by (auto simp: good_name_def path_names_def os_comps_def split_slash_no_slash absolute_def split: list.splits)

lemma absolute_join: "absolute base \<Longrightarrow> absolute (path_join base rel)"
  by (cases base) (auto simp: path_join_def absolute_def)

lemma path_names_no_dot: "c \<in> set (path_names s) \<Longrightarrow> c \<noteq> [] \<and> c \<noteq> ''.''"
  by (simp add: path_names_def)

lemma split_slash_no_slashes: "c \<in> set (split_slash s) \<Longrightarrow> CHR ''/'' \<notin> set c"
  by (induction s arbitrary: c) (auto split: if_splits list.splits)

lemma resolve_at_dot:
  assumes "resolve_at fs n acc (cs @ [''.'']) = Some p"
  shows "resolve_at fs n acc cs = Some p"
proof -
  obtain m p' where "resolves fs n acc cs p'" "resolves fs m p' [''.''] p"
    using assms resolves_append by (metis resolve_at_iff)
  then show ?thesis by (auto simp: resolve_at_iff elim!: resolves_ConsE resolves_NilE)
qed

lemma canonicalize_names: "canonicalize fs s = Some p \<Longrightarrow> resolve_at fs MAX_SYMLINKS [] (path_names s) = Some p"
  by (auto simp: canonicalize_def os_comps_def dest: resolve_at_dot split: if_splits)

end
