(* ===== verification/Vault_Index.thy ===== *)
theory Vault_Index
  imports Wiki_Links "HOL-Library.Product_Lexorder" "HOL-Library.Multiset"
begin

text \<open>
  The vault index, the store of \<open>crates/gpty-core/src/vault.rs\<close>: the notes and links tables as
  lists of rows in insertion order, the statements that change them, the incremental index
  pass, and the queries for one note's links and for the link graph.  What the walk found, what
  reading a note answers and which directories exist are arguments; so is Unicode lower-casing.
  SQLite failures are not modelled.
\<close>

section \<open>Rows\<close>

definition MAX_GRAPH_EDGES :: nat where "MAX_GRAPH_EDGES = 10000"
definition MAX_GRAPH_GHOSTS :: nat where "MAX_GRAPH_GHOSTS = 2000"

record scanned_note =
  sn_rel_path :: str
  sn_abs_path :: str
  sn_mtime :: int
  sn_size :: int

record scan_result =
  sr_notes :: "scanned_note list"
  sr_truncated :: bool
  sr_outside :: nat

record note_row =
  nr_vault :: str
  nr_rel_path :: str
  nr_mtime :: int
  nr_size :: int
  nr_title :: str
  nr_body :: str

record link_entry =
  le_vault :: str
  le_src :: str
  le_seq :: nat
  le_line :: nat
  le_target :: str
  le_resolved :: "str option"

record vault_store =
  vs_notes :: "note_row list"
  vs_links :: "link_entry list"

definition note_key :: "note_row \<Rightarrow> str \<times> str" where
  "note_key r = (nr_vault r, nr_rel_path r)"

definition note_paths :: "str \<Rightarrow> vault_store \<Rightarrow> str list" where
  "note_paths v st = map nr_rel_path (filter (\<lambda>r. nr_vault r = v) (vs_notes st))"

section \<open>Changing the store\<close>

text \<open>\<open>INSERT ... ON CONFLICT(vault_id, rel_path) DO UPDATE\<close>\<close>

definition upsert_note :: "note_row \<Rightarrow> note_row list \<Rightarrow> note_row list" where
  "upsert_note row notes =
     (if note_key row \<in> note_key ` set notes
      then map (\<lambda>r. if note_key r = note_key row then row else r) notes
      else notes @ [row])"

text \<open>The links of one row, resolved against an index.\<close>

definition link_entries :: "(str \<Rightarrow> str) \<Rightarrow> note_index \<Rightarrow> note_row \<Rightarrow> link_entry list" where
  "link_entries lower ix row =
     map (\<lambda>l. \<lparr>le_vault = nr_vault row, le_src = nr_rel_path row, le_seq = lk_seq l,
               le_line = lk_line l, le_target = lk_target l,
               le_resolved = resolution_note (resolve lower ix (lk_target l))\<rparr>)
       (parse_links (nr_body row))"

definition delete_links_of :: "str \<Rightarrow> str \<Rightarrow> link_entry list \<Rightarrow> link_entry list" where
  "delete_links_of v src ls = filter (\<lambda>l. \<not> (le_vault l = v \<and> le_src l = src)) ls"

definition relink_vault :: "(str \<Rightarrow> str) \<Rightarrow> note_row list \<Rightarrow> str \<Rightarrow> vault_store \<Rightarrow> vault_store" where
  "relink_vault lower rows v st =
     (let ix = index_new lower (note_paths v st)
      in st\<lparr>vs_links := fold (\<lambda>row ls. delete_links_of v (nr_rel_path row) ls @ link_entries lower ix row)
              (filter (\<lambda>row. nr_vault row = v) rows) (vs_links st)\<rparr>)"

definition upsert_batch :: "(str \<Rightarrow> str) \<Rightarrow> note_row list \<Rightarrow> vault_store \<Rightarrow> vault_store" where
  "upsert_batch lower rows st =
     (let st1 = st\<lparr>vs_notes := fold upsert_note rows (vs_notes st)\<rparr>;
          vaults = remdups (sort (map nr_vault rows))
      in fold (relink_vault lower rows) vaults st1)"

definition indexed :: "str \<Rightarrow> vault_store \<Rightarrow> (str \<times> int \<times> int) list" where
  "indexed v st = map (\<lambda>r. (nr_rel_path r, nr_mtime r, nr_size r))
     (filter (\<lambda>r. nr_vault r = v) (vs_notes st))"

definition delete_note :: "str \<Rightarrow> str \<Rightarrow> vault_store \<Rightarrow> vault_store" where
  "delete_note v rel st =
     st\<lparr>vs_notes := filter (\<lambda>r. \<not> (nr_vault r = v \<and> nr_rel_path r = rel)) (vs_notes st),
        vs_links := delete_links_of v rel (vs_links st)\<rparr>"

definition remove_missing :: "str \<Rightarrow> str list \<Rightarrow> vault_store \<Rightarrow> vault_store \<times> nat" where
  "remove_missing v known st =
     (let gone = filter (\<lambda>rel. rel \<notin> set known) (note_paths v st)
      in (fold (delete_note v) gone st, length gone))"

definition delete_vault :: "str \<Rightarrow> vault_store \<Rightarrow> vault_store" where
  "delete_vault v st =
     st\<lparr>vs_notes := filter (\<lambda>r. nr_vault r \<noteq> v) (vs_notes st),
        vs_links := filter (\<lambda>l. le_vault l \<noteq> v) (vs_links st)\<rparr>"

definition prune_dead_vaults :: "(str \<Rightarrow> bool) \<Rightarrow> vault_store \<Rightarrow> vault_store \<times> nat" where
  "prune_dead_vaults is_dir st =
     (let dead = filter (\<lambda>v. \<not> is_dir v) (remdups (map nr_vault (vs_notes st)))
      in (fold delete_vault dead st,
          length (filter (\<lambda>r. \<not> is_dir (nr_vault r)) (vs_notes st))))"

definition clear_vault :: "str \<Rightarrow> vault_store \<Rightarrow> vault_store" where
  "clear_vault v st = delete_vault v st"

definition note_count :: "str \<Rightarrow> vault_store \<Rightarrow> nat" where
  "note_count v st = length (filter (\<lambda>r. nr_vault r = v) (vs_notes st))"

definition reresolve_one :: "(str \<Rightarrow> str) \<Rightarrow> str \<Rightarrow> note_index \<Rightarrow> link_entry \<Rightarrow> link_entry" where
  "reresolve_one lower v ix l =
     (if le_vault l = v then l\<lparr>le_resolved := resolution_note (resolve lower ix (le_target l))\<rparr> else l)"

definition reresolve_links :: "(str \<Rightarrow> str) \<Rightarrow> str \<Rightarrow> vault_store \<Rightarrow> vault_store \<times> nat" where
  "reresolve_links lower v st =
     (let ix = index_new lower (note_paths v st)
      in (st\<lparr>vs_links := map (reresolve_one lower v ix) (vs_links st)\<rparr>,
          length (filter (\<lambda>l. reresolve_one lower v ix l \<noteq> l) (vs_links st))))"

definition store_resolve_target :: "(str \<Rightarrow> str) \<Rightarrow> str \<Rightarrow> str \<Rightarrow> vault_store \<Rightarrow> resolution" where
  "store_resolve_target lower v target st = resolve lower (index_new lower (note_paths v st)) target"

section \<open>The index pass\<close>

record index_outcome =
  io_notes :: "scanned_note list"
  io_truncated :: bool
  io_added :: nat
  io_updated :: nat
  io_removed :: nat
  io_unreadable :: nat
  io_outside :: nat

text \<open>What the loop over the walked notes collects: the rows to write and the counts of added,
  updated and unreadable notes.\<close>

fun collect_rows :: "(str \<Rightarrow> (str \<times> bool) option) \<Rightarrow> (str \<Rightarrow> str \<Rightarrow> str) \<Rightarrow> str
    \<Rightarrow> (str \<times> int \<times> int) list \<Rightarrow> scanned_note list \<Rightarrow> note_row list \<times> nat \<times> nat \<times> nat" where
  "collect_rows read_note title root known [] = ([], 0, 0, 0)"
| "collect_rows read_note title root known (n # ns) =
     (let (rows, added, updated, unreadable) = collect_rows read_note title root known ns;
          k = map_of known (sn_rel_path n)
      in if k = Some (sn_mtime n, sn_size n) then (rows, added, updated, unreadable)
         else (case read_note (sn_abs_path n) of
                 Some (body, _) \<Rightarrow>
                   (\<lparr>nr_vault = root, nr_rel_path = sn_rel_path n, nr_mtime = sn_mtime n,
                     nr_size = sn_size n, nr_title = title (sn_rel_path n) body, nr_body = body\<rparr> # rows,
                    if k = None then added + 1 else added,
                    if k = None then updated else updated + 1, unreadable)
               | None \<Rightarrow> (rows, added, updated, unreadable + 1)))"

definition index_vault_limited :: "(str \<Rightarrow> str) \<Rightarrow> (str \<Rightarrow> bool) \<Rightarrow> (str \<Rightarrow> (str \<times> bool) option)
    \<Rightarrow> (str \<Rightarrow> str \<Rightarrow> str) \<Rightarrow> scan_result \<Rightarrow> str \<Rightarrow> vault_store \<Rightarrow> vault_store \<times> index_outcome" where
  "index_vault_limited lower is_dir read_note title scan root st =
     (let (rows, added, updated, unreadable) =
            collect_rows read_note title root (indexed root st) (sr_notes scan);
          st1 = (if rows \<noteq> [] then upsert_batch lower rows st else st);
          (st2, removed) = (if sr_truncated scan then (st1, 0)
             else remove_missing root (map sn_rel_path (sr_notes scan)) st1);
          st3 = fst (prune_dead_vaults is_dir st2);
          st4 = (if 0 < added \<or> 0 < removed then fst (reresolve_links lower root st3) else st3)
      in (st4, \<lparr>io_notes = sr_notes scan, io_truncated = sr_truncated scan, io_added = added,
                io_updated = updated, io_removed = removed, io_unreadable = unreadable,
                io_outside = sr_outside scan\<rparr>))"

section \<open>Queries\<close>

record link_row =
  lr_seq :: nat
  lr_line :: nat
  lr_target :: str
  lr_fragment :: "str option"
  lr_resolved :: "str option"

record backlink =
  bl_src :: str
  bl_line :: nat
  bl_target :: str

record broken_link =
  br_target :: str
  br_line :: nat
  br_candidates :: "str list"

record links_for_note =
  lf_outgoing :: "link_row list"
  lf_backlinks :: "backlink list"
  lf_unresolved :: "broken_link list"

definition note_body :: "str \<Rightarrow> str \<Rightarrow> vault_store \<Rightarrow> str option" where
  "note_body v rel st = map_option nr_body (find (\<lambda>r. nr_vault r = v \<and> nr_rel_path r = rel) (vs_notes st))"

definition fragments_of :: "str option \<Rightarrow> nat \<Rightarrow> str option" where
  "fragments_of body seq =
     (case body of
        None \<Rightarrow> None
      | Some b \<Rightarrow> map_of (rev (List.map_filter (\<lambda>l. map_option (Pair (lk_seq l)) (lk_fragment l))
                           (parse_links b))) seq)"

definition links_for :: "(str \<Rightarrow> str) \<Rightarrow> str \<Rightarrow> str \<Rightarrow> vault_store \<Rightarrow> links_for_note" where
  "links_for lower v rel st =
     (let mine = sort_key le_seq (filter (\<lambda>l. le_vault l = v \<and> le_src l = rel) (vs_links st));
          outgoing = map (\<lambda>l. \<lparr>lr_seq = le_seq l, lr_line = le_line l, lr_target = le_target l,
             lr_fragment = fragments_of (note_body v rel st) (le_seq l),
             lr_resolved = le_resolved l\<rparr>) mine;
          back = sort_key (\<lambda>l. (le_src l, le_line l))
             (filter (\<lambda>l. le_vault l = v \<and> le_resolved l = Some rel) (vs_links st));
          ix = index_new lower (note_paths v st);
          broken = filter (\<lambda>l. lr_resolved l = None) outgoing
      in \<lparr>lf_outgoing = outgoing,
          lf_backlinks = map (\<lambda>l. \<lparr>bl_src = le_src l, bl_line = le_line l, bl_target = le_target l\<rparr>) back,
          lf_unresolved = map (\<lambda>l. \<lparr>br_target = lr_target l, br_line = lr_line l,
             br_candidates = (case resolve lower ix (lr_target l) of Ambiguous cs \<Rightarrow> cs | _ \<Rightarrow> [])\<rparr>) broken\<rparr>)"

record graph_node =
  gn_id :: str
  gn_label :: str
  gn_ghost :: bool

record graph_edge =
  ge_src :: str
  ge_dst :: str
  ge_count :: nat
  ge_ghost :: bool

record vault_graph =
  vg_nodes :: "graph_node list"
  vg_edges :: "graph_edge list"
  vg_truncated :: bool

text \<open>\<open>GROUP BY src, dst\<close> with the counts, heaviest first, then by name, at most \<open>cap + 1\<close> rows.\<close>

definition graph_edges :: "(str \<times> str) list \<Rightarrow> nat \<Rightarrow> (str \<times> str \<times> nat) list" where
  "graph_edges pairs cap =
     take (cap + 1) (sort_key (\<lambda>(s, d, c). (- int c, s, d))
       (map (\<lambda>(s, d). (s, d, count_list pairs (s, d))) (remdups pairs)))"

definition ghost_id :: "str \<Rightarrow> str" where
  "ghost_id t = ''ghost:'' @ t"

text \<open>First occurrences, in order.\<close>

definition first_seen :: "'a list \<Rightarrow> 'a list" where
  "first_seen xs = rev (remdups (rev xs))"

definition graph_limited :: "str \<Rightarrow> nat \<Rightarrow> nat \<Rightarrow> vault_store \<Rightarrow> vault_graph" where
  "graph_limited v max_edges max_ghosts st =
     (let notes = sort_key nr_rel_path (filter (\<lambda>r. nr_vault r = v) (vs_notes st));
          mine = filter (\<lambda>l. le_vault l = v) (vs_links st);
          nodes = map (\<lambda>r. \<lparr>gn_id = nr_rel_path r, gn_label = nr_title r, gn_ghost = False\<rparr>) notes;
          resolved = graph_edges
            (List.map_filter (\<lambda>l. map_option (Pair (le_src l)) (le_resolved l)) mine) max_edges;
          unresolved = graph_edges
            (map (\<lambda>l. (le_src l, le_target l)) (filter (\<lambda>l. le_resolved l = None) mine)) max_edges;
          edges = map (\<lambda>(s, d, c). \<lparr>ge_src = s, ge_dst = d, ge_count = c, ge_ghost = False\<rparr>)
            (take max_edges resolved);
          pending = take max_edges unresolved;
          all_ghosts = first_seen (map (\<lambda>(s, t, c). t) pending);
          ghosts = take max_ghosts all_ghosts;
          ghost_edges = map (\<lambda>(s, t, c). \<lparr>ge_src = s, ge_dst = ghost_id t, ge_count = c, ge_ghost = True\<rparr>)
            (filter (\<lambda>(s, t, c). t \<in> set ghosts) pending)
      in \<lparr>vg_nodes = nodes @ map (\<lambda>t. \<lparr>gn_id = ghost_id t, gn_label = t, gn_ghost = True\<rparr>) (sort ghosts),
          vg_edges = edges @ ghost_edges,
          vg_truncated = (max_edges < length resolved \<or> max_edges < length unresolved \<or>
                          max_ghosts < length all_ghosts)\<rparr>)"

definition graph :: "str \<Rightarrow> vault_store \<Rightarrow> vault_graph" where
  "graph v st = graph_limited v MAX_GRAPH_EDGES MAX_GRAPH_GHOSTS st"

section \<open>The store's invariant\<close>

text \<open>Primary keys are distinct; the links of a note are the ones its stored body parses to and
  belong to a stored note; and every link's \<open>resolved\<close> is what its target resolves to now.\<close>

definition link_text :: "link_entry \<Rightarrow> nat \<times> nat \<times> str" where
  "link_text l = (le_seq l, le_line l, le_target l)"

definition parsed :: "str \<Rightarrow> (nat \<times> nat \<times> str) list" where
  "parsed b = map (\<lambda>l. (lk_seq l, lk_line l, lk_target l)) (parse_links b)"

definition note_links :: "str \<Rightarrow> str \<Rightarrow> link_entry list \<Rightarrow> link_entry list" where
  "note_links v src ls = filter (\<lambda>l. le_vault l = v \<and> le_src l = src) ls"

definition keys_ok :: "note_row list \<Rightarrow> bool" where
  "keys_ok notes = distinct (map note_key notes)"

definition parsed_ok :: "note_row list \<Rightarrow> link_entry list \<Rightarrow> bool" where
  "parsed_ok notes ls \<longleftrightarrow>
     list_all (\<lambda>r. map link_text (note_links (nr_vault r) (nr_rel_path r) ls) = parsed (nr_body r)) notes \<and>
     list_all (\<lambda>l. (le_vault l, le_src l) \<in> note_key ` set notes) ls"

definition resolved_ok :: "(str \<Rightarrow> str) \<Rightarrow> vault_store \<Rightarrow> link_entry \<Rightarrow> bool" where
  "resolved_ok lower st l =
     (le_resolved l = resolution_note (store_resolve_target lower (le_vault l) (le_target l) st))"

definition store_ok :: "(str \<Rightarrow> str) \<Rightarrow> vault_store \<Rightarrow> bool" where
  "store_ok lower st \<longleftrightarrow> keys_ok (vs_notes st) \<and> parsed_ok (vs_notes st) (vs_links st) \<and>
     list_all (resolved_ok lower st) (vs_links st)"

subsection \<open>Notes\<close>

lemma note_paths_keys: "note_paths v st = map snd (filter (\<lambda>k. fst k = v) (map note_key (vs_notes st)))"
  by (simp add: note_paths_def filter_map comp_def note_key_def)

lemma upsert_keys:
  "map note_key (upsert_note row ns) =
     (if note_key row \<in> note_key ` set ns then map note_key ns else map note_key ns @ [note_key row])"
  by (auto simp: upsert_note_def)

lemma upsert_set:
  "set (upsert_note row ns) = insert row {r \<in> set ns. note_key r \<noteq> note_key row}"
  by (auto simp: upsert_note_def image_iff)

lemma upsert_keys_ok: "keys_ok ns \<Longrightarrow> keys_ok (upsert_note row ns)"
  unfolding keys_ok_def upsert_keys by (auto simp del: map_eq_conv)

lemma fold_upsert_keys_ok: "keys_ok ns \<Longrightarrow> keys_ok (fold upsert_note rows ns)"
  by (induction rows arbitrary: ns) (auto intro: upsert_keys_ok)

lemma fold_upsert_keys_known:
  "note_key ` set rows \<subseteq> note_key ` set ns \<Longrightarrow>
   map note_key (fold upsert_note rows ns) = map note_key ns"
proof (induction rows arbitrary: ns)
  case (Cons row rows)
  then have k: "map note_key (upsert_note row ns) = map note_key ns"
    by (auto simp: upsert_keys)
  then have "note_key ` set (upsert_note row ns) = note_key ` set ns"
    by (metis list.set_map)
  then show ?case using Cons k by auto
qed simp

lemma fold_upsert_key_set:
  "note_key ` set (fold upsert_note rows ns) = note_key ` set rows \<union> note_key ` set ns"
  by (induction rows arbitrary: ns) (auto simp: upsert_set image_iff)

lemma filter_map_same:
  "(\<And>x. x \<in> set xs \<Longrightarrow> P x \<Longrightarrow> f x = x) \<Longrightarrow> (\<And>x. x \<in> set xs \<Longrightarrow> \<not> P x \<Longrightarrow> \<not> P (f x)) \<Longrightarrow>
   filter P (map f xs) = filter P xs"
  by (induction xs) auto

lemma upsert_other:
  "nr_vault row \<noteq> w \<Longrightarrow>
   filter (\<lambda>r. nr_vault r = w) (upsert_note row ns) = filter (\<lambda>r. nr_vault r = w) ns"
  by (auto simp: upsert_note_def note_key_def intro!: filter_map_same split: if_splits)

lemma fold_upsert_other:
  "list_all (\<lambda>row. nr_vault row \<noteq> w) rows \<Longrightarrow>
   filter (\<lambda>r. nr_vault r = w) (fold upsert_note rows ns) = filter (\<lambda>r. nr_vault r = w) ns"
  by (induction rows arbitrary: ns) (simp_all add: upsert_other)

lemma fold_upsert_mem:
  "r \<in> set (fold upsert_note rows ns) \<Longrightarrow>
   r \<in> set rows \<or> (r \<in> set ns \<and> note_key r \<notin> note_key ` set rows)"
  by (induction rows arbitrary: ns) (fastforce simp: upsert_set)+

lemma fold_upsert_kept:
  "r \<in> set ns \<Longrightarrow> note_key r \<notin> note_key ` set rows \<Longrightarrow> r \<in> set (fold upsert_note rows ns)"
  by (induction rows arbitrary: ns) (auto simp: upsert_set)

lemma fold_upsert_written:
  "distinct (map note_key rows) \<Longrightarrow> r \<in> set rows \<Longrightarrow> r \<in> set (fold upsert_note rows ns)"
proof (induction rows arbitrary: ns)
  case (Cons a rows)
  show ?case
  proof (cases "r = a")
    case True
    then show ?thesis using Cons.prems by (auto simp: upsert_set intro!: fold_upsert_kept)
  qed (use Cons in auto)
qed simp

subsection \<open>Links\<close>

lemma link_entries_text [simp]: "map link_text (link_entries lower ix row) = parsed (nr_body row)"
  by (simp add: link_entries_def parsed_def link_text_def comp_def)

lemma link_entries_src:
  "l \<in> set (link_entries lower ix row) \<Longrightarrow> le_vault l = nr_vault row \<and> le_src l = nr_rel_path row"
  by (auto simp: link_entries_def)

lemma note_links_entries:
  "note_links v src (link_entries lower ix row) =
     (if nr_vault row = v \<and> nr_rel_path row = src then link_entries lower ix row else [])"
  by (auto simp: note_links_def filter_empty_conv filter_id_conv dest: link_entries_src)

lemma note_links_append [simp]: "note_links v src (xs @ ys) = note_links v src xs @ note_links v src ys"
  by (simp add: note_links_def)

lemma note_links_delete:
  "note_links v src (delete_links_of v' src' ls) =
     (if v = v' \<and> src = src' then [] else note_links v src ls)"
  by (auto simp: note_links_def delete_links_of_def filter_empty_conv intro!: filter_cong)

lemma write_note_parsed_ok:
  assumes "parsed_ok ns ls"
  shows "parsed_ok (upsert_note row ns)
    (delete_links_of (nr_vault row) (nr_rel_path row) ls @ link_entries lower ix row)"
proof -
  let ?ls = "delete_links_of (nr_vault row) (nr_rel_path row) ls @ link_entries lower ix row"
  have keys: "note_key ` set (upsert_note row ns) = insert (note_key row) (note_key ` set ns)"
    by (auto simp: upsert_set image_iff)
  have "map link_text (note_links (nr_vault r) (nr_rel_path r) ?ls) = parsed (nr_body r)"
    if "r \<in> set (upsert_note row ns)" for r
  proof (cases "r = row")
    case False
    then have r: "r \<in> set ns" and k: "note_key r \<noteq> note_key row" using that by (auto simp: upsert_set)
    from k have "note_links (nr_vault r) (nr_rel_path r) ?ls = note_links (nr_vault r) (nr_rel_path r) ls"
      by (auto simp: note_links_entries note_links_delete note_key_def)
    then show ?thesis using assms r by (simp add: parsed_ok_def list_all_iff)
  qed (simp add: note_links_entries note_links_delete)
  moreover have "(le_vault l, le_src l) \<in> note_key ` set (upsert_note row ns)" if "l \<in> set ?ls" for l
    using that assms unfolding keys
    by (auto simp: delete_links_of_def parsed_ok_def list_all_iff note_key_def dest: link_entries_src)
  ultimately show ?thesis by (simp add: parsed_ok_def list_all_iff)
qed

lemma write_notes_parsed_ok:
  "list_all (\<lambda>row. nr_vault row = v) rows \<Longrightarrow> parsed_ok ns ls \<Longrightarrow>
   parsed_ok (fold upsert_note rows ns)
     (fold (\<lambda>row ls. delete_links_of v (nr_rel_path row) ls @ link_entries lower ix row) rows ls)"
proof (induction rows arbitrary: ns ls)
  case (Cons row rows)
  then show ?case using write_note_parsed_ok [of ns ls row lower ix] by auto
qed simp

lemma remdups_all_eq: "xs \<noteq> [] \<Longrightarrow> list_all (\<lambda>x. x = a) xs \<Longrightarrow> remdups xs = [a]"
proof (induction xs)
  case (Cons x xs)
  then have "a \<in> set xs" if "xs \<noteq> []" using that by (cases xs) auto
  with Cons show ?case by (cases "xs = []") simp_all
qed simp

lemma upsert_batch_one:
  assumes "rows \<noteq> []" "list_all (\<lambda>row. nr_vault row = v) rows"
  shows "upsert_batch lower rows st = relink_vault lower rows v (st\<lparr>vs_notes := fold upsert_note rows (vs_notes st)\<rparr>)"
proof -
  have "sort (map nr_vault rows) \<noteq> []"
    by (metis assms(1) length_0_conv length_map length_sort)
  then have "remdups (sort (map nr_vault rows)) = [v]"
    by (rule remdups_all_eq) (use assms(2) in \<open>simp add: list_all_iff\<close>)
  then show ?thesis by (simp add: upsert_batch_def)
qed

lemma relink_vault_eq:
  "list_all (\<lambda>row. nr_vault row = v) rows \<Longrightarrow>
   relink_vault lower rows v st = st\<lparr>vs_links :=
     fold (\<lambda>row ls. delete_links_of v (nr_rel_path row) ls
             @ link_entries lower (index_new lower (note_paths v st)) row) rows (vs_links st)\<rparr>"
  by (simp add: relink_vault_def Let_def list_all_iff cong: filter_cong)

lemma resolved_ok_cong:
  "note_paths (le_vault l) st' = note_paths (le_vault l) st \<Longrightarrow> resolved_ok lower st' l = resolved_ok lower st l"
  by (simp add: resolved_ok_def store_resolve_target_def)

lemma link_entries_resolved_ok:
  "l \<in> set (link_entries lower (index_new lower (note_paths (nr_vault row) st)) row) \<Longrightarrow> resolved_ok lower st l"
  by (auto simp: link_entries_def resolved_ok_def store_resolve_target_def)

lemma fold_links_mem:
  "l \<in> set (fold (\<lambda>row ls. delete_links_of v (nr_rel_path row) ls @ link_entries lower ix row) rows ls) \<Longrightarrow>
   l \<in> set ls \<or> (\<exists>row \<in> set rows. l \<in> set (link_entries lower ix row))"
  by (induction rows arbitrary: ls) (fastforce simp: delete_links_of_def)+

subsection \<open>Each step of the pass\<close>

text \<open>What holds between the steps: everything, except that links of the vault being indexed may
  have a stale \<open>resolved\<close>.\<close>

definition pass_ok :: "(str \<Rightarrow> str) \<Rightarrow> str \<Rightarrow> vault_store \<Rightarrow> bool" where
  "pass_ok lower root st \<longleftrightarrow> keys_ok (vs_notes st) \<and> parsed_ok (vs_notes st) (vs_links st) \<and>
     list_all (\<lambda>l. le_vault l = root \<or> resolved_ok lower st l) (vs_links st)"

lemma store_ok_pass_ok: "store_ok lower st \<Longrightarrow> pass_ok lower root st"
  by (auto simp: store_ok_def pass_ok_def list_all_iff)

lemma upsert_batch_notes:
  "rows \<noteq> [] \<Longrightarrow> list_all (\<lambda>row. nr_vault row = v) rows \<Longrightarrow>
   vs_notes (upsert_batch lower rows st) = fold upsert_note rows (vs_notes st)"
  by (simp add: upsert_batch_one relink_vault_def Let_def)

lemma upsert_batch_ok:
  assumes ok: "store_ok lower st" and rows: "rows \<noteq> []" "list_all (\<lambda>row. nr_vault row = root) rows"
  shows "pass_ok lower root (upsert_batch lower rows st)"
    and "note_key ` set rows \<subseteq> note_key ` set (vs_notes st) \<Longrightarrow> store_ok lower (upsert_batch lower rows st)"
proof -
  let ?st1 = "st\<lparr>vs_notes := fold upsert_note rows (vs_notes st)\<rparr>"
  let ?ix = "index_new lower (note_paths root ?st1)"
  let ?ls = "fold (\<lambda>row ls. delete_links_of root (nr_rel_path row) ls @ link_entries lower ?ix row) rows (vs_links st)"
  have eq: "upsert_batch lower rows st = ?st1\<lparr>vs_links := ?ls\<rparr>"
    using rows by (simp add: upsert_batch_one relink_vault_eq)
  have keys: "keys_ok (fold upsert_note rows (vs_notes st))"
    using ok by (simp add: store_ok_def fold_upsert_keys_ok)
  have pars: "parsed_ok (fold upsert_note rows (vs_notes st)) ?ls"
    using ok rows by (simp add: store_ok_def write_notes_parsed_ok)
  have paths: "note_paths w (upsert_batch lower rows st) = note_paths w ?st1" for w
    by (simp add: eq note_paths_def)
  have old: "resolved_ok lower (upsert_batch lower rows st) l"
    if "l \<in> set (vs_links st)" "note_paths (le_vault l) ?st1 = note_paths (le_vault l) st" for l
  proof -
    have "resolved_ok lower (upsert_batch lower rows st) l = resolved_ok lower st l"
      by (rule resolved_ok_cong) (simp add: paths that)
    then show ?thesis using ok that(1) by (simp add: store_ok_def list_all_iff)
  qed
  have new: "le_vault l = root \<and> resolved_ok lower (upsert_batch lower rows st) l"
    if "row \<in> set rows" "l \<in> set (link_entries lower ?ix row)" for l row
  proof -
    have r: "nr_vault row = root" using rows that by (simp add: list_all_iff)
    then have "l \<in> set (link_entries lower (index_new lower (note_paths (nr_vault row) (upsert_batch lower rows st))) row)"
      using that by (simp add: paths)
    then show ?thesis using r by (auto dest: link_entries_src link_entries_resolved_ok)
  qed
  have other: "note_paths w ?st1 = note_paths w st" if "w \<noteq> root" for w
    using rows that by (auto simp: note_paths_def fold_upsert_other list_all_iff)
  have "le_vault l = root \<or> resolved_ok lower (upsert_batch lower rows st) l" if "l \<in> set ?ls" for l
    using fold_links_mem [OF that] new old other by blast
  then show "pass_ok lower root (upsert_batch lower rows st)"
    using keys pars by (simp add: pass_ok_def eq list_all_iff)
  assume "note_key ` set rows \<subseteq> note_key ` set (vs_notes st)"
  then have same: "note_paths w ?st1 = note_paths w st" for w
    by (simp add: note_paths_keys fold_upsert_keys_known)
  have "resolved_ok lower (upsert_batch lower rows st) l" if "l \<in> set ?ls" for l
    using fold_links_mem [OF that] new old same by blast
  then show "store_ok lower (upsert_batch lower rows st)"
    using keys pars by (simp add: store_ok_def eq list_all_iff)
qed

lemma fold_delete_note:
  "fold (delete_note v) rels st =
     st\<lparr>vs_notes := filter (\<lambda>r. \<not> (nr_vault r = v \<and> nr_rel_path r \<in> set rels)) (vs_notes st),
        vs_links := filter (\<lambda>l. \<not> (le_vault l = v \<and> le_src l \<in> set rels)) (vs_links st)\<rparr>"
  by (induction rels arbitrary: st) (simp_all add: delete_note_def delete_links_of_def imp_conjR)

lemma fold_delete_vault:
  "fold delete_vault vs st =
     st\<lparr>vs_notes := filter (\<lambda>r. nr_vault r \<notin> set vs) (vs_notes st),
        vs_links := filter (\<lambda>l. le_vault l \<notin> set vs) (vs_links st)\<rparr>"
  by (induction vs arbitrary: st) (auto simp: delete_vault_def intro!: filter_cong)

lemma filter_rows_parsed_ok:
  assumes "parsed_ok ns ls"
  shows "parsed_ok (filter (\<lambda>r. P (nr_vault r) (nr_rel_path r)) ns) (filter (\<lambda>l. P (le_vault l) (le_src l)) ls)"
proof -
  have "note_links v src (filter (\<lambda>l. P (le_vault l) (le_src l)) ls) = note_links v src ls" if "P v src" for v src
    using that by (auto simp: note_links_def intro!: filter_cong)
  then show ?thesis
    using assms by (fastforce simp: parsed_ok_def list_all_iff note_key_def)
qed

lemma filter_rows_keys_ok: "keys_ok ns \<Longrightarrow> keys_ok (filter P ns)"
  by (simp add: keys_ok_def distinct_map_filter)

lemma delete_notes_ok:
  assumes "pass_ok lower root st"
  shows "pass_ok lower root (fold (delete_note root) rels st)"
proof -
  let ?st = "fold (delete_note root) rels st"
  have "note_paths w ?st = note_paths w st" if "w \<noteq> root" for w
    using that by (auto simp: fold_delete_note note_paths_def intro!: arg_cong [of _ _ "map nr_rel_path"] filter_cong)
  then have "resolved_ok lower ?st l = resolved_ok lower st l" if "le_vault l \<noteq> root" for l
    using that by (intro resolved_ok_cong) simp
  moreover have "parsed_ok (vs_notes ?st) (vs_links ?st)"
    using assms filter_rows_parsed_ok [of "vs_notes st" "vs_links st" "\<lambda>v r. \<not> (v = root \<and> r \<in> set rels)"]
    by (simp add: pass_ok_def fold_delete_note)
  ultimately show ?thesis
    using assms by (auto simp: pass_ok_def fold_delete_note list_all_iff filter_rows_keys_ok)
qed

text \<open>Deleting whole vaults keeps either form of the invariant.\<close>

lemma delete_vaults_ok:
  assumes "pass_ok lower root st"
  shows "pass_ok lower root (fold delete_vault vs st)"
    and "store_ok lower st \<Longrightarrow> store_ok lower (fold delete_vault vs st)"
proof -
  let ?st = "fold delete_vault vs st"
  have paths: "note_paths w ?st = note_paths w st" if "w \<notin> set vs" for w
    using that by (auto simp: fold_delete_vault note_paths_def intro!: arg_cong [of _ _ "map nr_rel_path"] filter_cong)
  have res: "resolved_ok lower ?st l = resolved_ok lower st l" if "l \<in> set (vs_links ?st)" for l
    using that by (intro resolved_ok_cong paths) (simp add: fold_delete_vault)
  have base: "keys_ok (vs_notes ?st) \<and> parsed_ok (vs_notes ?st) (vs_links ?st)"
    using assms filter_rows_parsed_ok [of "vs_notes st" "vs_links st" "\<lambda>v r. v \<notin> set vs"]
    by (simp add: pass_ok_def fold_delete_vault filter_rows_keys_ok)
  have sub: "set (vs_links ?st) \<subseteq> set (vs_links st)" by (auto simp: fold_delete_vault)
  show "pass_ok lower root ?st"
    using assms base res sub unfolding pass_ok_def list_all_iff by (metis subsetD)
  show "store_ok lower ?st" if "store_ok lower st"
    using that base res sub unfolding store_ok_def list_all_iff by (metis subsetD)
qed

lemma prune_eq: "fst (prune_dead_vaults is_dir st) =
  fold delete_vault (filter (\<lambda>v. \<not> is_dir v) (remdups (map nr_vault (vs_notes st)))) st"
  by (simp add: prune_dead_vaults_def Let_def)

lemma reresolve_one_fields [simp]:
  "le_vault (reresolve_one lower v ix l) = le_vault l" "le_src (reresolve_one lower v ix l) = le_src l"
  "le_target (reresolve_one lower v ix l) = le_target l" "link_text (reresolve_one lower v ix l) = link_text l"
  by (simp_all add: reresolve_one_def link_text_def)

lemma reresolve_ok:
  assumes "pass_ok lower root st"
  shows "store_ok lower (fst (reresolve_links lower root st))"
proof -
  let ?ix = "index_new lower (note_paths root st)"
  let ?st = "fst (reresolve_links lower root st)"
  have eq: "?st = st\<lparr>vs_links := map (reresolve_one lower root ?ix) (vs_links st)\<rparr>"
    by (simp add: reresolve_links_def Let_def)
  have links: "map link_text (note_links v src (vs_links ?st)) = map link_text (note_links v src (vs_links st))" for v src
    by (simp add: eq note_links_def filter_map comp_def)
  have "parsed_ok (vs_notes ?st) (vs_links ?st)"
    using assms unfolding parsed_ok_def links pass_ok_def by (simp add: eq list_all_iff)
  moreover have "resolved_ok lower ?st (reresolve_one lower root ?ix l)" if "l \<in> set (vs_links st)" for l
  proof -
    have "note_paths w ?st = note_paths w st" for w by (simp add: eq note_paths_def)
    then have "resolved_ok lower ?st (reresolve_one lower root ?ix l) =
        resolved_ok lower st (reresolve_one lower root ?ix l)"
      by (intro resolved_ok_cong) simp
    also have "\<dots>"
      using assms that
      by (auto simp: reresolve_one_def resolved_ok_def store_resolve_target_def pass_ok_def list_all_iff)
    finally show ?thesis by simp
  qed
  ultimately show ?thesis
    using assms by (simp add: store_ok_def pass_ok_def eq list_all_iff)
qed

lemma map_of_key: "map_of kvs k = Some v \<Longrightarrow> k \<in> fst ` set kvs"
  by (metis domI dom_map_of_conv_image_fst)

lemma collect_rows_facts:
  assumes "collect_rows read_note title root known ns = (rows, added, updated, unreadable)"
  shows "list_all (\<lambda>row. nr_vault row = root) rows"
    and "added = 0 \<Longrightarrow> nr_rel_path ` set rows \<subseteq> fst ` set known"
  using assms
proof (induction ns arbitrary: rows added updated unreadable)
  case (Cons n ns)
  obtain rows' added' updated' unreadable' where c: "collect_rows read_note title root known ns = (rows', added', updated', unreadable')"
    using prod_cases4 by blast
  {
    case 1
    then show ?case using Cons.IH(1) [OF c] by (auto simp: c Let_def split: if_splits option.splits)
  next
    case 2
    then show ?case
      using Cons.IH(2) [OF _ c]
      by (auto simp: c Let_def image_subset_iff dest!: map_of_key split: if_splits option.splits) force+
  }
qed auto

lemma known_keys:
  "nr_rel_path ` set rows \<subseteq> fst ` set (indexed root st) \<Longrightarrow> list_all (\<lambda>row. nr_vault row = root) rows \<Longrightarrow>
   note_key ` set rows \<subseteq> note_key ` set (vs_notes st)"
proof
  assume sub: "nr_rel_path ` set rows \<subseteq> fst ` set (indexed root st)" and root: "list_all (\<lambda>row. nr_vault row = root) rows"
  fix k assume "k \<in> note_key ` set rows"
  then obtain row where row: "row \<in> set rows" "k = note_key row" by blast
  then obtain r where "r \<in> set (vs_notes st)" "nr_vault r = root" "nr_rel_path r = nr_rel_path row"
    using sub by (auto simp: indexed_def image_subset_iff)
  then show "k \<in> note_key ` set (vs_notes st)"
    using row root by (auto simp: note_key_def list_all_iff intro!: image_eqI [of _ _ r])
qed

lemma remove_missing_eq:
  "remove_missing v known st =
    (fold (delete_note v) (filter (\<lambda>rel. rel \<notin> set known) (note_paths v st)) st,
     length (filter (\<lambda>rel. rel \<notin> set known) (note_paths v st)))"
  by (simp add: remove_missing_def Let_def)

subsection \<open>The whole pass\<close>

lemma index_pass_ok:
  assumes "store_ok lower st"
  shows "store_ok lower (fst (index_vault_limited lower is_dir read_note title scan root st))"
proof -
  obtain rows added updated unreadable where
    c: "collect_rows read_note title root (indexed root st) (sr_notes scan) = (rows, added, updated, unreadable)"
    using prod_cases4 by blast
  note rows = collect_rows_facts [OF c]
  define st1 where "st1 = (if rows \<noteq> [] then upsert_batch lower rows st else st)"
  define st2 removed where "st2 = fst (if sr_truncated scan then (st1, 0)
     else remove_missing root (map sn_rel_path (sr_notes scan)) st1)"
    and "removed = snd (if sr_truncated scan then (st1, 0::nat)
     else remove_missing root (map sn_rel_path (sr_notes scan)) st1)"
  define st3 where "st3 = fst (prune_dead_vaults is_dir st2)"
  have p1: "pass_ok lower root st1"
    using upsert_batch_ok(1) [OF assms _ rows(1)] store_ok_pass_ok [OF assms] by (simp add: st1_def)
  have s1: "store_ok lower st1" if "added = 0"
    using upsert_batch_ok(2) [OF assms _ rows(1)] known_keys [OF rows(2) [OF that] rows(1)] assms
    by (simp add: st1_def)
  have p2: "pass_ok lower root st2"
    using p1 by (simp add: st2_def remove_missing_eq delete_notes_ok)
  have s2: "store_ok lower st2" if "added = 0" "removed = 0"
    using s1 that by (auto simp: st2_def removed_def remove_missing_eq split: if_splits)
  have p3: "pass_ok lower root st3" and s3: "store_ok lower st2 \<Longrightarrow> store_ok lower st3"
    using delete_vaults_ok [OF p2] by (simp_all add: st3_def prune_eq)
  have "fst (index_vault_limited lower is_dir read_note title scan root st) =
    (if 0 < added \<or> 0 < removed then fst (reresolve_links lower root st3) else st3)"
    by (simp add: index_vault_limited_def c Let_def st1_def st2_def st3_def removed_def split_beta)
  then show ?thesis using reresolve_ok [OF p3] s2 s3 by auto
qed

section \<open>Properties of the index pass\<close>

text \<open>C9: An index pass keeps the store consistent whatever the walk and the reads answer: no two
  rows share a key, the links stored for a note are exactly the ones its stored body parses to,
  no link belongs to a note that is gone, and every link's \<open>resolved\<close> is what its target
  resolves to among the notes stored now - also for links of notes this pass did not read.\<close>

theorem index_pass_keeps_store_consistent:
  assumes "store_ok lower st"
  shows "store_ok lower (fst (index_vault_limited lower is_dir read_note title scan root st))"
  using assms by (rule index_pass_ok)

text \<open>A note \<open>a.md\<close> that mentions \<open>b\<close>, before \<open>b.md\<close> exists.\<close>

definition demo_store :: vault_store where
  "demo_store = \<lparr>vs_notes = [\<lparr>nr_vault = ''v'', nr_rel_path = ''a.md'', nr_mtime = 1, nr_size = 5,
       nr_title = ''a'', nr_body = ''[[b]]''\<rparr>],
     vs_links = [\<lparr>le_vault = ''v'', le_src = ''a.md'', le_seq = 0, le_line = 1, le_target = ''b'',
       le_resolved = None\<rparr>]\<rparr>"

definition demo_scan :: scan_result where
  "demo_scan = \<lparr>sr_notes = [\<lparr>sn_rel_path = ''a.md'', sn_abs_path = ''v/a.md'', sn_mtime = 1, sn_size = 5\<rparr>,
       \<lparr>sn_rel_path = ''b.md'', sn_abs_path = ''v/b.md'', sn_mtime = 2, sn_size = 0\<rparr>],
     sr_truncated = False, sr_outside = 0\<rparr>"

lemma demo_store_ok: "store_ok id demo_store"
  by code_simp

theorem index_pass_keeps_store_consistent_witness:
  "store_ok id (fst (index_vault_limited id (\<lambda>v. True) (\<lambda>p. Some ([], False)) (\<lambda>rel body. rel) demo_scan ''v'' demo_store)) \<and>
   map le_resolved (vs_links (fst (index_vault_limited id (\<lambda>v. True) (\<lambda>p. Some ([], False)) (\<lambda>rel body. rel)
     demo_scan ''v'' demo_store))) = [Some ''b.md'']"
  using index_pass_keeps_store_consistent [OF demo_store_ok] by (rule conjI) code_simp

section \<open>A complete pass mirrors the walk\<close>

lemma keys_ok_unique:
  "keys_ok ns \<Longrightarrow> r \<in> set ns \<Longrightarrow> r' \<in> set ns \<Longrightarrow> note_key r = note_key r' \<Longrightarrow> r = r'"
  by (simp add: keys_ok_def distinct_map inj_on_def)

lemma note_body_mem:
  assumes "keys_ok (vs_notes st)" "r \<in> set (vs_notes st)"
  shows "note_body (nr_vault r) (nr_rel_path r) st = Some (nr_body r)"
proof -
  obtain r' where "find (\<lambda>x. nr_vault x = nr_vault r \<and> nr_rel_path x = nr_rel_path r) (vs_notes st) = Some r'"
    using assms(2) by (cases "find (\<lambda>x. nr_vault x = nr_vault r \<and> nr_rel_path x = nr_rel_path r) (vs_notes st)")
      (auto simp: find_None_iff)
  moreover from this have "r' \<in> set (vs_notes st)" "note_key r' = note_key r"
    by (auto simp: find_Some_iff note_key_def in_set_conv_nth)
  ultimately show ?thesis
    using keys_ok_unique [OF assms(1) _ assms(2), of r'] by (simp add: note_body_def)
qed

lemma indexed_SomeD:
  "map_of (indexed v st) p = Some (m, s) \<Longrightarrow>
   \<exists>r \<in> set (vs_notes st). nr_vault r = v \<and> nr_rel_path r = p \<and> nr_mtime r = m \<and> nr_size r = s"
  by (auto simp: indexed_def dest!: map_of_SomeD)

abbreviation changed :: "(str \<times> int \<times> int) list \<Rightarrow> scanned_note \<Rightarrow> bool" where
  "changed known n \<equiv> map_of known (sn_rel_path n) \<noteq> Some (sn_mtime n, sn_size n)"

abbreviation row_of :: "(str \<Rightarrow> str \<Rightarrow> str) \<Rightarrow> str \<Rightarrow> scanned_note \<Rightarrow> str \<Rightarrow> note_row" where
  "row_of title root n body \<equiv>
     \<lparr>nr_vault = root, nr_rel_path = sn_rel_path n, nr_mtime = sn_mtime n, nr_size = sn_size n,
      nr_title = title (sn_rel_path n) body, nr_body = body\<rparr>"

lemma collect_rows_set:
  assumes "collect_rows read_note title root known ns = (rows, added, updated, unreadable)"
  shows "row \<in> set rows \<longleftrightarrow>
      (\<exists>n \<in> set ns. changed known n \<and> (\<exists>body t. read_note (sn_abs_path n) = Some (body, t) \<and> row = row_of title root n body))"
    and "unreadable = 0 \<Longrightarrow> n \<in> set ns \<Longrightarrow> changed known n \<Longrightarrow> read_note (sn_abs_path n) \<noteq> None"
    and "distinct (map sn_rel_path ns) \<Longrightarrow> distinct (map nr_rel_path rows)"
  using assms
proof (induction ns arbitrary: rows added updated unreadable row)
  case (Cons x ns)
  obtain rows' added' updated' unreadable' where c: "collect_rows read_note title root known ns = (rows', added', updated', unreadable')"
    using prod_cases4 by blast
  {
    case 1
    then show ?case using Cons.IH(1) [OF c, of row] by (auto simp: c Let_def split: if_splits option.splits)
  next
    case 2
    then show ?case using Cons.IH(2) [OF _ _ _ c] by (auto simp: c Let_def split: if_splits option.splits)
  next
    case 3
    have "sn_rel_path x \<noteq> nr_rel_path r" if "r \<in> set rows'" for r
      using 3(1) Cons.IH(1) [OF c, of r] that by auto
    then have "sn_rel_path x \<notin> nr_rel_path ` set rows'" by blast
    then show ?case using 3 Cons.IH(3) [OF _ c] by (auto simp: c Let_def split: if_splits option.splits)
  }
qed auto

lemma pass_notes:
  assumes "collect_rows read_note title root (indexed root st) (sr_notes scan) = (rows, added, updated, unreadable)"
    and "\<not> sr_truncated scan" "is_dir root"
  shows "r \<in> set (vs_notes (fst (index_vault_limited lower is_dir read_note title scan root st))) \<and> nr_vault r = root \<longleftrightarrow>
    r \<in> set (fold upsert_note rows (vs_notes st)) \<and> nr_vault r = root \<and> nr_rel_path r \<in> sn_rel_path ` set (sr_notes scan)"
proof -
  note rows = collect_rows_facts(1) [OF assms(1)]
  define st1 where "st1 = (if rows \<noteq> [] then upsert_batch lower rows st else st)"
  have n1: "vs_notes st1 = fold upsert_note rows (vs_notes st)"
    by (simp add: st1_def upsert_batch_notes [OF _ rows])
  have "vs_notes (fst (index_vault_limited lower is_dir read_note title scan root st)) =
    vs_notes (fst (prune_dead_vaults is_dir (fst (remove_missing root (map sn_rel_path (sr_notes scan)) st1))))"
    using assms(2) by (simp add: index_vault_limited_def assms(1) Let_def split_beta st1_def reresolve_links_def)
  then show ?thesis
    using assms(3) by (auto simp: remove_missing_eq prune_eq fold_delete_note fold_delete_vault n1 note_paths_def)
qed

lemma pass_note_written:
  assumes c: "collect_rows read_note title root (indexed root st) (sr_notes scan) = (rows, added, updated, 0)"
    and d: "distinct (map sn_rel_path (sr_notes scan))" and n: "n \<in> set (sr_notes scan)"
    and k: "keys_ok (vs_notes st)"
  obtains r where "r \<in> set (fold upsert_note rows (vs_notes st))" "nr_vault r = root"
    "nr_rel_path r = sn_rel_path n" "nr_mtime r = sn_mtime n" "nr_size r = sn_size n"
    "Some (nr_body r) = (if changed (indexed root st) n then map_option fst (read_note (sn_abs_path n))
                         else note_body root (sn_rel_path n) st)"
proof (cases "changed (indexed root st) n")
  case True
  then obtain body t where b: "read_note (sn_abs_path n) = Some (body, t)"
    using collect_rows_set(2) [OF c refl n] by auto
  have "row_of title root n body \<in> set rows"
    unfolding collect_rows_set(1) [OF c] using True n b by blast
  moreover have "distinct (map note_key rows)"
    using collect_rows_set(3) [OF c d] by (auto simp: distinct_map inj_on_def note_key_def)
  ultimately have "row_of title root n body \<in> set (fold upsert_note rows (vs_notes st))"
    by (rule fold_upsert_written [rotated])
  then show ?thesis by (rule that) (use True b in auto)
next
  case False
  then obtain r where r: "r \<in> set (vs_notes st)" "nr_vault r = root" "nr_rel_path r = sn_rel_path n"
    "nr_mtime r = sn_mtime n" "nr_size r = sn_size n"
    using indexed_SomeD by fastforce
  have "note_key row \<noteq> note_key r" if "row \<in> set rows" for row
  proof -
    obtain n' body where "n' \<in> set (sr_notes scan)" "changed (indexed root st) n'" "row = row_of title root n' body"
      using \<open>row \<in> set rows\<close> unfolding collect_rows_set(1) [OF c] by blast
    moreover have "n' = n" if "sn_rel_path n' = sn_rel_path n"
      using d n \<open>n' \<in> set (sr_notes scan)\<close> that by (simp add: distinct_map inj_on_def)
    ultimately show ?thesis using False r by (auto simp: note_key_def)
  qed
  then have kept: "r \<in> set (fold upsert_note rows (vs_notes st))"
    by (intro fold_upsert_kept [OF r(1)]) (metis imageE)
  have "note_body root (sn_rel_path n) st = Some (nr_body r)"
    using note_body_mem [OF k r(1)] unfolding r(2,3) .
  then have "Some (nr_body r) = (if changed (indexed root st) n then map_option fst (read_note (sn_abs_path n))
                         else note_body root (sn_rel_path n) st)"
    unfolding if_not_P [OF False] by (rule sym)
  then show ?thesis by (rule that [OF kept r(2-5)])
qed

lemma pass_mirrors_the_walk:
  assumes "store_ok lower st" "\<not> sr_truncated scan" "distinct (map sn_rel_path (sr_notes scan))" "is_dir root"
    and "index_vault_limited lower is_dir read_note title scan root st = (st', outcome)" "io_unreadable outcome = 0"
  shows "set (indexed root st') = (\<lambda>n. (sn_rel_path n, sn_mtime n, sn_size n)) ` set (sr_notes scan) \<and>
    (\<forall>n \<in> set (sr_notes scan). note_body root (sn_rel_path n) st' =
       (if changed (indexed root st) n then map_option fst (read_note (sn_abs_path n))
        else note_body root (sn_rel_path n) st))"
proof -
  have out: "st' = fst (index_vault_limited lower is_dir read_note title scan root st)" using assms(5) by simp
  obtain rows added updated unreadable where
    c: "collect_rows read_note title root (indexed root st) (sr_notes scan) = (rows, added, updated, unreadable)"
    using prod_cases4 by blast
  have "unreadable = 0"
    using assms(5,6) by (auto simp: index_vault_limited_def c Let_def split: prod.splits)
  note c = c [unfolded this]
  have old: "keys_ok (vs_notes st)" and new: "keys_ok (vs_notes st')"
    using assms(1) index_pass_ok [OF assms(1)] out by (simp_all add: store_ok_def)
  have hit: "\<exists>r \<in> set (vs_notes st'). nr_vault r = root \<and> nr_rel_path r = sn_rel_path n \<and>
      nr_mtime r = sn_mtime n \<and> nr_size r = sn_size n \<and>
      Some (nr_body r) = (if changed (indexed root st) n then map_option fst (read_note (sn_abs_path n))
        else note_body root (sn_rel_path n) st)" if "n \<in> set (sr_notes scan)" for n
    using pass_note_written [OF c assms(3) that old] pass_notes [where is_dir = is_dir, OF c assms(2,4)] that out
    by (metis image_eqI)
  have "note_body root (sn_rel_path n) st' =
       (if changed (indexed root st) n then map_option fst (read_note (sn_abs_path n))
        else note_body root (sn_rel_path n) st)" if "n \<in> set (sr_notes scan)" for n
    using hit [OF that] note_body_mem [OF new] by metis
  moreover have "(sn_rel_path n, sn_mtime n, sn_size n) \<in> set (indexed root st')" if "n \<in> set (sr_notes scan)" for n
    using hit [OF that] by (auto simp: indexed_def intro!: image_eqI)
  moreover have "k \<in> (\<lambda>n. (sn_rel_path n, sn_mtime n, sn_size n)) ` set (sr_notes scan)"
    if k: "k \<in> set (indexed root st')" for k
  proof -
    obtain r where r: "r \<in> set (vs_notes st')" "nr_vault r = root" "k = (nr_rel_path r, nr_mtime r, nr_size r)"
      using k by (auto simp: indexed_def)
    then obtain n where n: "n \<in> set (sr_notes scan)" "nr_rel_path r = sn_rel_path n"
      using pass_notes [where is_dir = is_dir, OF c assms(2,4)] out by blast
    then show ?thesis using hit [OF n(1)] r keys_ok_unique [OF new r(1)] by (force simp: note_key_def)
  qed
  ultimately show ?thesis by blast
qed

text \<open>After a complete walk whose notes could all be read, the vault's index is the walk: its
  rows are exactly the walked notes with their time stamps and sizes, nothing stays for a note
  that vanished; the body of a note whose stamp or size moved is what reading it answered, and
  the body of an unchanged note is the one stored before.\<close>

theorem index_pass_mirrors_the_walk:
  assumes "store_ok lower st" "\<not> sr_truncated scan" "distinct (map sn_rel_path (sr_notes scan))" "is_dir root"
    and "index_vault_limited lower is_dir read_note title scan root st = (st', outcome)" "io_unreadable outcome = 0"
  shows "set (indexed root st') = (\<lambda>n. (sn_rel_path n, sn_mtime n, sn_size n)) ` set (sr_notes scan) \<and>
    (\<forall>n \<in> set (sr_notes scan). note_body root (sn_rel_path n) st' =
       (if changed (indexed root st) n then map_option fst (read_note (sn_abs_path n))
        else note_body root (sn_rel_path n) st))"
  using assms by (rule pass_mirrors_the_walk)

theorem index_pass_mirrors_the_walk_witness:
  "let st' = fst (index_vault_limited id (\<lambda>v. True) (\<lambda>p. Some (''x'', False)) (\<lambda>rel body. rel) demo_scan ''v'' demo_store)
   in set (indexed ''v'' st') = {(''a.md'', 1, 5), (''b.md'', 2, 0)} \<and>
      note_body ''v'' ''a.md'' st' = Some ''[[b]]'' \<and> note_body ''v'' ''b.md'' st' = Some ''x''"
proof -
  have e: "\<not> sr_truncated demo_scan" "distinct (map sn_rel_path (sr_notes demo_scan))"
    "changed (indexed ''v'' demo_store) \<lparr>sn_rel_path = ''b.md'', sn_abs_path = ''v/b.md'', sn_mtime = 2, sn_size = 0\<rparr>"
    "\<not> changed (indexed ''v'' demo_store) \<lparr>sn_rel_path = ''a.md'', sn_abs_path = ''v/a.md'', sn_mtime = 1, sn_size = 5\<rparr>"
    "note_body ''v'' ''a.md'' demo_store = Some ''[[b]]''"
    "io_unreadable (snd (index_vault_limited id (\<lambda>v. True) (\<lambda>p. Some (''x'', False)) (\<lambda>rel body. rel) demo_scan ''v'' demo_store)) = 0"
    by code_simp+
  show ?thesis
    using index_pass_mirrors_the_walk [where is_dir = "\<lambda>v. True", OF demo_store_ok e(1,2) TrueI prod.collapse [symmetric] e(6)] e(3-5)
    by (auto simp: Let_def demo_scan_def)
qed

section \<open>The link graph\<close>

lemma graph_edges_mem:
  "(s, d, c) \<in> set (graph_edges pairs cap) \<Longrightarrow> (s, d) \<in> set pairs \<and> c = count_list pairs (s, d)"
  by (auto simp: graph_edges_def dest!: in_set_takeD)

lemma sum_list_sort_key: "sum_list (map f (sort_key k xs)) = sum_list (map f xs)" for f :: "'a \<Rightarrow> nat"
  by (metis mset_map mset_sort sum_mset_sum_list)

lemma graph_edges_total:
  assumes "length (graph_edges pairs cap) \<le> cap"
  shows "sum_list (map (\<lambda>(s, d, c). c) (graph_edges pairs cap)) = length pairs"
proof -
  let ?all = "map (\<lambda>(s, d). (s, d, count_list pairs (s, d))) (remdups pairs)"
  have "graph_edges pairs cap = sort_key (\<lambda>(s, d, c). (- int c, s, d)) ?all"
    using assms by (auto simp: graph_edges_def min_def split: if_splits)
  then have "sum_list (map (\<lambda>(s, d, c). c) (graph_edges pairs cap)) = sum_list (map (\<lambda>(s, d, c). c) ?all)"
    by (simp only: sum_list_sort_key)
  also have "\<dots> = sum_list (map (count_list pairs) (remdups pairs))"
    by (simp add: comp_def case_prod_beta)
  also have "\<dots> = sum (count_list pairs) (set pairs)"
    by (simp add: sum_list_distinct_conv_sum_set)
  finally show ?thesis by (simp add: sum_count_set)
qed

lemma map_edge_counts:
  "map (ge_count \<circ> (\<lambda>(s, d, c). \<lparr>ge_src = s, ge_dst = d, ge_count = c, ge_ghost = b\<rparr>)) es = map (\<lambda>(s, d, c). c) es"
  "map (ge_count \<circ> (\<lambda>(s, d, c). \<lparr>ge_src = s, ge_dst = ghost_id d, ge_count = c, ge_ghost = b\<rparr>)) es =
   map (\<lambda>(s, d, c). c) es"
  by (induction es) auto

lemma set_first_seen [simp]: "set (first_seen xs) = set xs"
  by (simp add: first_seen_def)

lemma resolve_in_notes: "resolution_note (resolve lower (index_new lower ns) t) = Some n \<Longrightarrow> n \<in> set ns"
  by (auto simp: resolve_def resolution_note_def index_new_lookup bucket_def single_def Let_def
      Option.bind_eq_Some_conv filter_eq_Cons_iff split: if_splits option.splits list.splits prod.splits)

lemma store_ok_link:
  assumes "store_ok lower st" "l \<in> set (vs_links st)"
  shows "le_src l \<in> set (note_paths (le_vault l) st)"
    and "le_resolved l = Some n \<Longrightarrow> n \<in> set (note_paths (le_vault l) st)"
proof -
  show "le_src l \<in> set (note_paths (le_vault l) st)"
    using assms by (auto simp: store_ok_def parsed_ok_def list_all_iff note_key_def note_paths_def)
  show "n \<in> set (note_paths (le_vault l) st)" if "le_resolved l = Some n"
    using assms that by (auto simp: store_ok_def list_all_iff resolved_ok_def store_resolve_target_def
        intro: resolve_in_notes [of lower _ "le_target l"])
qed

lemma sum_list_map_filter_total:
  "length (List.map_filter (\<lambda>l. map_option (f l) (g l)) xs) + length (filter (\<lambda>l. g l = None) xs) = length xs"
  by (induction xs) (auto simp: List.map_filter_simps split: option.splits)

text \<open>The graph drawn from a consistent store is well formed and complete: both ends of every
  edge, ghost edges included, are among its nodes, whatever was cut; and when nothing was cut the
  weights of its edges add up to the number of links the vault has.\<close>

theorem graph_edges_have_both_ends:
  assumes "store_ok lower st"
  shows "(\<forall>e \<in> set (vg_edges (graph_limited v max_edges max_ghosts st)).
      {ge_src e, ge_dst e} \<subseteq> gn_id ` set (vg_nodes (graph_limited v max_edges max_ghosts st))) \<and>
    (\<not> vg_truncated (graph_limited v max_edges max_ghosts st) \<longrightarrow>
      sum_list (map ge_count (vg_edges (graph_limited v max_edges max_ghosts st))) =
        length (filter (\<lambda>l. le_vault l = v) (vs_links st)))"
proof -
  define mine where "mine = filter (\<lambda>l. le_vault l = v) (vs_links st)"
  define rpairs where "rpairs = List.map_filter (\<lambda>l. map_option (Pair (le_src l)) (le_resolved l)) mine"
  define upairs where "upairs = map (\<lambda>l. (le_src l, le_target l)) (filter (\<lambda>l. le_resolved l = None) mine)"
  define pending where "pending = take max_edges (graph_edges upairs max_edges)"
  define ghosts where "ghosts = take max_ghosts (first_seen (map (\<lambda>(s, t, c). t) pending))"
  let ?g = "graph_limited v max_edges max_ghosts st"
  have nodes: "gn_id ` set (vg_nodes ?g) = set (note_paths v st) \<union> ghost_id ` set ghosts"
    by (auto simp: graph_limited_def Let_def note_paths_def image_image image_Un ghosts_def pending_def upairs_def mine_def)
  have edges: "vg_edges ?g =
      map (\<lambda>(s, d, c). \<lparr>ge_src = s, ge_dst = d, ge_count = c, ge_ghost = False\<rparr>) (take max_edges (graph_edges rpairs max_edges))
      @ map (\<lambda>(s, t, c). \<lparr>ge_src = s, ge_dst = ghost_id t, ge_count = c, ge_ghost = True\<rparr>)
          (filter (\<lambda>(s, t, c). t \<in> set ghosts) pending)"
    by (simp add: graph_limited_def Let_def rpairs_def ghosts_def pending_def upairs_def mine_def)
  have trunc: "vg_truncated ?g = (max_edges < length (graph_edges rpairs max_edges) \<or>
      max_edges < length (graph_edges upairs max_edges) \<or>
      max_ghosts < length (first_seen (map (\<lambda>(s, t, c). t) pending)))"
    by (simp only: graph_limited_def Let_def rpairs_def pending_def upairs_def mine_def vault_graph.simps)
  have mine: "le_src l \<in> set (note_paths v st)" "le_resolved l = Some n \<Longrightarrow> n \<in> set (note_paths v st)"
    if "l \<in> set mine" for l n
    using store_ok_link [OF assms, of l] that by (auto simp: mine_def)
  have r: "s \<in> set (note_paths v st) \<and> d \<in> set (note_paths v st)"
    if "(s, d, c) \<in> set (take max_edges (graph_edges rpairs max_edges))" for s d c
    using graph_edges_mem [OF in_set_takeD [OF that]] mine by (auto simp: rpairs_def List.map_filter_def)
  have u: "s \<in> set (note_paths v st)" if "(s, t, c) \<in> set pending" for s t c
    using graph_edges_mem [OF in_set_takeD [OF that [unfolded pending_def]]] mine by (auto simp: upairs_def)
  have ends: "\<forall>e \<in> set (vg_edges ?g). {ge_src e, ge_dst e} \<subseteq> gn_id ` set (vg_nodes ?g)"
    unfolding nodes edges using r u by auto
  have "sum_list (map ge_count (vg_edges ?g)) = length mine" if "\<not> vg_truncated ?g"
  proof -
    have cut: "length (graph_edges rpairs max_edges) \<le> max_edges" "length (graph_edges upairs max_edges) \<le> max_edges"
      "length (first_seen (map (\<lambda>(s, t, c). t) pending)) \<le> max_ghosts"
      using that unfolding trunc by linarith+
    then have "ghosts = first_seen (map (\<lambda>(s, t, c). t) pending)" "pending = graph_edges upairs max_edges"
      by (simp_all add: ghosts_def pending_def)
    then have "filter (\<lambda>(s, t, c). t \<in> set ghosts) pending = graph_edges upairs max_edges"
      by (auto intro!: filter_True rev_image_eqI)
    then have "sum_list (map ge_count (vg_edges ?g)) = length rpairs + length upairs"
      using cut graph_edges_total [OF cut(1)] graph_edges_total [OF cut(2)]
      by (simp add: edges map_edge_counts)
    then show ?thesis
      using sum_list_map_filter_total [of "\<lambda>l. Pair (le_src l)" le_resolved mine] by (simp add: rpairs_def upairs_def)
  qed
  then show ?thesis using ends by (simp add: mine_def)
qed

theorem graph_edges_have_both_ends_witness:
  "let g = graph_limited ''v'' 10 10 demo_store
   in map ge_count (vg_edges g) = [1] \<and> sum_list (map ge_count (vg_edges g)) = length (vs_links demo_store) \<and>
      map gn_id (vg_nodes g) = [''a.md'', ''ghost:b'']"
proof -
  have e: "map ge_count (vg_edges (graph_limited ''v'' 10 10 demo_store)) = [1]"
    "\<not> vg_truncated (graph_limited ''v'' 10 10 demo_store)"
    "map gn_id (vg_nodes (graph_limited ''v'' 10 10 demo_store)) = [''a.md'', ''ghost:b'']"
    "filter (\<lambda>l. le_vault l = ''v'') (vs_links demo_store) = vs_links demo_store"
    by code_simp+
  then show ?thesis
    using graph_edges_have_both_ends [OF demo_store_ok, of "''v''" 10 10] by (simp add: Let_def)
qed

end
