(* ===== verification/Vault_Notes.thy ===== *)
theory Vault_Notes
  imports File_System Vault_Index
begin

text \<open>
  The note files of a vault, the first half of \<open>crates/gpty-core/src/vault.rs\<close>: the walk that
  lists them, the vocabulary and containment of note paths, and reading, writing, creating,
  deleting and renaming one note.  What the system supplies to an operation - the random suffix
  of a temporary file, the clock, the mode of new files, and which of its writes fail - is a
  record the operation takes.
\<close>

section \<open>The walk\<close>

definition MAX_NOTES :: nat where "MAX_NOTES = 2000"
definition MAX_DEPTH :: nat where "MAX_DEPTH = 16"
definition MAX_NOTE_BYTES :: nat where "MAX_NOTE_BYTES = 2 ^ 20"

definition hidden :: "str \<Rightarrow> bool" where
  "hidden name = (case name of c # _ \<Rightarrow> c = CHR ''.'' | [] \<Rightarrow> False)"

text \<open>An extension is what follows the last dot, unless the name starts with it.\<close>

definition has_md_extension :: "str \<Rightarrow> bool" where
  "has_md_extension name =
     (case rev name of
        d # m # dot # _ # _ \<Rightarrow> (d = CHR ''d'' \<or> d = CHR ''D'') \<and> (m = CHR ''m'' \<or> m = CHR ''M'') \<and> dot = CHR ''.''
      | _ \<Rightarrow> False)"

fun slash_concat :: "str list \<Rightarrow> str" where
  "slash_concat [] = []"
| "slash_concat [p] = p"
| "slash_concat (p # ps) = p @ CHR ''/'' # slash_concat ps"

definition slash_join :: "str \<Rightarrow> str" where
  "slash_join p = slash_concat (path_names p)"

definition mtime_nanos :: "int \<Rightarrow> int" where
  "mtime_nanos m = (if m < 0 then 0 else min m (2 ^ 63 - 1))"

record walk_ctx =
  wc_visited :: "path list"
  wc_notes :: "scanned_note list"
  wc_truncated :: bool
  wc_outside :: nat

definition walk_listing :: "fs \<Rightarrow> str \<Rightarrow> (str \<times> fnode option) list option" where
  \<comment> \<open>the sorted entries, each with its own metadata: plain ones before links, by name\<close>
  "walk_listing fs dir =
     map_option (\<lambda>names. sort_key (\<lambda>(name, m). (is_link m, name))
         (map (\<lambda>name. (name, symlink_metadata fs (path_join dir name))) names))
       (read_dir fs dir)"

text \<open>What an entry is once a directory or a link is resolved.\<close>

definition walk_target :: "fs \<Rightarrow> path \<Rightarrow> str \<Rightarrow> str \<Rightarrow> fnode \<Rightarrow> (path \<times> fnode) option" where
  "walk_target fs dir_real child name m =
     (case m of
        File _ _ _ \<Rightarrow> Some (dir_real @ [name], m)
      | _ \<Rightarrow> (case canonicalize fs child of
            None \<Rightarrow> None
          | Some real \<Rightarrow> map_option (Pair real) (fs_get fs real)))"

text \<open>The first argument counts the levels left below the depth cap.\<close>

function walk :: "nat \<Rightarrow> fs \<Rightarrow> path \<Rightarrow> nat \<Rightarrow> str \<Rightarrow> path \<Rightarrow> str \<Rightarrow> walk_ctx \<Rightarrow> walk_ctx"
  and walk_entries :: "nat \<Rightarrow> fs \<Rightarrow> path \<Rightarrow> nat \<Rightarrow> str \<Rightarrow> path \<Rightarrow> str \<Rightarrow> (str \<times> fnode option) list \<Rightarrow> walk_ctx \<Rightarrow> walk_ctx"
  where
  "walk levels fs root_real max_notes dir dir_real rel ctx =
     (if wc_truncated ctx \<or> levels = 0 then ctx
      else (case walk_listing fs dir of
          None \<Rightarrow> ctx
        | Some entries \<Rightarrow> walk_entries (levels - 1) fs root_real max_notes dir dir_real rel entries ctx))"
| "walk_entries levels fs root_real max_notes dir dir_real rel [] ctx = ctx"
| "walk_entries levels fs root_real max_notes dir dir_real rel ((name, em) # es) ctx =
     (let skip = (\<lambda>c. walk_entries levels fs root_real max_notes dir dir_real rel es c);
          child = path_join dir name;
          child_rel = path_join rel name
      in if hidden name then skip ctx
         else (case em of
             None \<Rightarrow> skip ctx
           | Some m \<Rightarrow>
               (case walk_target fs dir_real child name m of
                  None \<Rightarrow> skip ctx
                | Some (real, node) \<Rightarrow>
                    if \<not> prefix root_real real then skip (ctx\<lparr>wc_outside := wc_outside ctx + 1\<rparr>)
                    else (case node of
                        Dir \<Rightarrow>
                          if real \<in> set (wc_visited ctx) then skip ctx
                          else skip (walk levels fs root_real max_notes child real child_rel
                                 (ctx\<lparr>wc_visited := real # wc_visited ctx\<rparr>))
                      | File content mtime mode \<Rightarrow>
                          if has_md_extension name then
                            (if max_notes \<le> length (wc_notes ctx) then ctx\<lparr>wc_truncated := True\<rparr>
                             else skip (ctx\<lparr>wc_notes := wc_notes ctx @
                                 [\<lparr>sn_rel_path = slash_join child_rel, sn_abs_path = child,
                                   sn_mtime = mtime_nanos mtime, sn_size = int (length content)\<rparr>]\<rparr>))
                          else skip ctx
                      | Link _ \<Rightarrow> skip ctx))))"
  by pat_completeness auto

termination
  by (relation "measures [case_sum (\<lambda>(l, _). 2 * l) (\<lambda>(l, _). 2 * l + 1),
      case_sum (\<lambda>_. 0) (\<lambda>(l, fs, r, m, d, dr, rel, es, c). length es)]") auto

declare walk.simps [simp del] walk_entries.simps(2) [simp del]

definition scan_vault_limited :: "fs \<Rightarrow> str \<Rightarrow> nat \<Rightarrow> nat \<Rightarrow> scan_result" where
  "scan_vault_limited fs root max_notes max_depth =
     (case canonicalize fs root of
        None \<Rightarrow> \<lparr>sr_notes = [], sr_truncated = False, sr_outside = 0\<rparr>
      | Some root_real \<Rightarrow>
          (let ctx = walk (max_depth + 1) fs root_real max_notes root root_real []
                 \<lparr>wc_visited = [root_real], wc_notes = [], wc_truncated = False, wc_outside = 0\<rparr>
           in \<lparr>sr_notes = sort_key sn_rel_path (wc_notes ctx), sr_truncated = wc_truncated ctx,
               sr_outside = wc_outside ctx\<rparr>))"

definition scan_vault :: "fs \<Rightarrow> str \<Rightarrow> scan_result" where
  "scan_vault fs root = scan_vault_limited fs root MAX_NOTES MAX_DEPTH"

section \<open>Errors and stamps\<close>

record note_stamp =
  st_mtime :: int
  st_size :: int

text \<open>\<open>NoteStamp::of\<close>: microseconds and bytes.\<close>

definition stamp_of :: "bytes \<Rightarrow> int \<Rightarrow> note_stamp" where
  "stamp_of content mtime = \<lparr>st_mtime = mtime_nanos mtime div 1000, st_size = int (length content)\<rparr>"

record note_content =
  nc_text :: str
  nc_truncated :: bool
  nc_crlf :: bool
  nc_stamp :: note_stamp

datatype note_error =
    Bad_Vault str | Bad_Path str | Note_Not_Found | Note_Exists | Changed_On_Disk
  | Too_Large nat | Outside | Note_Io str

fun note_error_code :: "note_error \<Rightarrow> str" where
  "note_error_code (Bad_Vault _) = ''bad_vault''"
| "note_error_code (Bad_Path _) = ''bad_path''"
| "note_error_code Note_Not_Found = ''not_found''"
| "note_error_code Note_Exists = ''exists''"
| "note_error_code Changed_On_Disk = ''changed_on_disk''"
| "note_error_code (Too_Large _) = ''too_large''"
| "note_error_code Outside = ''outside_vault''"
| "note_error_code (Note_Io _) = ''io''"

fun note_error_message :: "note_error \<Rightarrow> str" where
  "note_error_message (Bad_Vault m) = ''not a vault directory: '' @ m"
| "note_error_message (Bad_Path m) = ''not a note path: '' @ m"
| "note_error_message Note_Not_Found = ''no such note''"
| "note_error_message Note_Exists = ''a note already exists at that path''"
| "note_error_message Changed_On_Disk = ''the note changed on disk since it was opened''"
| "note_error_message (Too_Large n) =
     ''note is '' @ dec n @ '' bytes; the limit is '' @ dec MAX_NOTE_BYTES"
| "note_error_message Outside = ''the note resolves outside the vault''"
| "note_error_message (Note_Io m) = m"

section \<open>Note paths\<close>

definition MAX_REL_PATH_BYTES :: nat where "MAX_REL_PATH_BYTES = 1024"

text \<open>The loop over the components: only ordinary names, none hidden; the last one.\<close>

fun last_note_name :: "path_component list \<Rightarrow> str option \<Rightarrow> str option" where
  "last_note_name [] last_name = last_name"
| "last_note_name (Normal name # cs) last_name = (if hidden name then None else last_note_name cs (Some name))"
| "last_note_name (_ # cs) last_name = None"

definition note_path :: "fs \<Rightarrow> str \<Rightarrow> str \<Rightarrow> note_error + str" where
  "note_path fs root rel =
     (if \<not> absolute root \<or> \<not> is_dir fs root then Inl (Bad_Vault root)
      else if rel = [] \<or> MAX_REL_PATH_BYTES < length rel then Inl (Bad_Path rel)
      else (case last_note_name (components rel) None of
          None \<Rightarrow> Inl (Bad_Path rel)
        | Some name \<Rightarrow>
            if \<not> has_md_extension name then Inl (Bad_Path rel) else Inr (path_join root rel)))"

definition resolve_inside :: "fs \<Rightarrow> str \<Rightarrow> str \<Rightarrow> note_error + path" where
  "resolve_inside fs root p =
     (case canonicalize fs p of
        None \<Rightarrow> Inl Note_Not_Found
      | Some real \<Rightarrow>
          (case canonicalize fs root of
             None \<Rightarrow> Inl (Bad_Vault root)
           | Some root_real \<Rightarrow> if \<not> prefix root_real real then Inl Outside else Inr real))"

text \<open>\<open>Path::parent\<close> of a joined path, resolved.\<close>

definition canonical_parent :: "fs \<Rightarrow> str \<Rightarrow> path option" where
  "canonical_parent fs p = resolve_at fs MAX_SYMLINKS [] (butlast (path_names p))"

definition ensure_directory_inside :: "fs \<Rightarrow> str \<Rightarrow> str \<Rightarrow> str \<Rightarrow> note_error + path" where
  "ensure_directory_inside fs root p rel =
     (case canonicalize fs root of
        None \<Rightarrow> Inl (Bad_Vault root)
      | Some root_real \<Rightarrow>
          (case canonical_parent fs p of
             None \<Rightarrow> Inl (Bad_Path (rel @ '': its directory does not exist''))
           | Some dir_real \<Rightarrow>
               if fs_get fs dir_real \<noteq> Some Dir
               then Inl (Bad_Path (rel @ '': its directory is not a directory''))
               else if \<not> prefix root_real dir_real then Inl Outside else Inr dir_real))"

section \<open>Reading\<close>

text \<open>The cut before a torn character: back over at most three continuation bytes, and over the
  leading byte when it needs more of them than there are.\<close>

primrec back_over :: "bytes \<Rightarrow> nat \<Rightarrow> nat" where
  "back_over bs 0 = 0"
| "back_over bs (Suc c) =
     (if length bs - Suc c < 4 \<and> byte_word (bs ! c) AND 0xC0 = 0x80 then back_over bs c else Suc c)"

definition lead_need :: "byte \<Rightarrow> nat" where
  "lead_need lead =
     (if byte_word lead AND 0xE0 = 0xC0 then 2
      else if byte_word lead AND 0xF0 = 0xE0 then 3
      else if byte_word lead AND 0xF8 = 0xF0 then 4
      else 1)"

definition trim_torn_tail :: "bytes \<Rightarrow> str" where
  "trim_torn_tail bs =
     (let c = back_over bs (length bs);
          c' = (if 0 < c \<and> length bs - (c - 1) < lead_need (bs ! (c - 1)) then c - 1 else c)
      in from_utf8_lossy (take c' bs))"

definition read_file_capped :: "bytes \<Rightarrow> str \<times> bool" where
  "read_file_capped content = (trim_torn_tail (take MAX_NOTE_BYTES content), MAX_NOTE_BYTES < length content)"

text \<open>Executable forms that do not count up to the cap.\<close>

lemma note_cap_code [code_unfold]: "MAX_NOTE_BYTES < length content \<longleftrightarrow> 1048576 < int (length content)"
  by (auto simp: MAX_NOTE_BYTES_def)

lemma read_file_capped_code [code]:
  "read_file_capped content = (if 1048576 < int (length content)
     then (trim_torn_tail (take MAX_NOTE_BYTES content), True) else (trim_torn_tail content, False))"
  by (auto simp: read_file_capped_def MAX_NOTE_BYTES_def)

text \<open>\<open>read_note\<close> of an absolute path: unreadable unless it resolves to a file.\<close>

definition read_note :: "fs \<Rightarrow> str \<Rightarrow> (str \<times> bool) option" where
  "read_note fs abs_path =
     (case metadata fs abs_path of Some (File content _ _) \<Rightarrow> Some (read_file_capped content) | _ \<Rightarrow> None)"

definition contains_crlf :: "str \<Rightarrow> bool" where
  "contains_crlf s = list_ex (\<lambda>(a, b). a = CR \<and> b = LF) (zip s (tl s))"

definition read_vault_note :: "fs \<Rightarrow> str \<Rightarrow> str \<Rightarrow> note_error + note_content" where
  "read_vault_note fs root rel =
     (case note_path fs root rel of
        Inl e \<Rightarrow> Inl e
      | Inr p \<Rightarrow>
          (case resolve_inside fs root p of
             Inl e \<Rightarrow> Inl e
           | Inr real \<Rightarrow>
               (case fs_get fs real of
                  Some (File content mtime mode) \<Rightarrow>
                    (let (text, truncated) = read_file_capped content
                     in Inr \<lparr>nc_text = text, nc_truncated = truncated, nc_crlf = contains_crlf text,
                             nc_stamp = stamp_of content mtime\<rparr>)
                | _ \<Rightarrow> Inl Note_Not_Found)))"

section \<open>Writing, creating, deleting, renaming\<close>

record note_env =
  ne_suffix :: str        \<comment> \<open>the 16 hexadecimal digits of the temporary name\<close>
  ne_now :: int           \<comment> \<open>the modification time the system gives a file it writes\<close>
  ne_mode :: nat          \<comment> \<open>the mode of a new file\<close>
  ne_write_ok :: bool     \<comment> \<open>whether writing a file's bytes succeeds\<close>
  ne_mode_ok :: bool      \<comment> \<open>whether setting its mode succeeds\<close>
  ne_rename_ok :: bool    \<comment> \<open>whether renaming it succeeds\<close>
  ne_error :: str         \<comment> \<open>the text of the failure\<close>

definition display :: "path \<Rightarrow> str" where
  "display p = concat (map (\<lambda>c. CHR ''/'' # c) p)"

definition tmp_path :: "note_env \<Rightarrow> path \<Rightarrow> path" where
  "tmp_path E real = butlast real @ [''.gpty-note-'' @ ne_suffix E @ ''.tmp'']"

text \<open>The replacement of a file by a temporary sibling: written, given the file's mode, renamed
  over it; removed again when a step fails.\<close>

definition replace_file :: "note_env \<Rightarrow> fs \<Rightarrow> path \<Rightarrow> nat \<Rightarrow> str \<Rightarrow> fs \<times> (note_error + note_stamp)" where
  "replace_file E fs real mode content =
     (let tmp = tmp_path E real
      in if \<not> ne_write_ok E
         then (fs_del tmp fs, Inl (Note_Io (''writing '' @ display tmp @ '': '' @ ne_error E)))
         else (let fs1 = fs_put tmp (File content (ne_now E) (ne_mode E)) fs
               in if \<not> ne_mode_ok E
                  then (fs_del tmp fs1, Inl (Note_Io (''setting the note''@ [CHR 0x27] @''s mode: '' @ ne_error E)))
                  else (let fs2 = fs_put tmp (File content (ne_now E) mode) fs1
                        in if \<not> ne_rename_ok E
                           then (fs_del tmp fs2, Inl (Note_Io (''replacing '' @ display real @ '': '' @ ne_error E)))
                           else (fs_put real (File content (ne_now E) mode) (fs_del tmp fs2),
                                 Inr (stamp_of content (ne_now E))))))"

definition write_vault_note :: "note_env \<Rightarrow> fs \<Rightarrow> str \<Rightarrow> str \<Rightarrow> str \<Rightarrow> note_stamp option
    \<Rightarrow> fs \<times> (note_error + note_stamp)" where
  "write_vault_note E fs root rel content expected =
     (if MAX_NOTE_BYTES < length content then (fs, Inl (Too_Large (length content)))
      else (case note_path fs root rel of
          Inl e \<Rightarrow> (fs, Inl e)
        | Inr p \<Rightarrow>
            (case resolve_inside fs root p of
               Inl e \<Rightarrow> (fs, Inl e)
             | Inr real \<Rightarrow>
                 (case fs_get fs real of
                    Some (File old mtime mode) \<Rightarrow>
                      if (case expected of Some s \<Rightarrow> stamp_of old mtime \<noteq> s | None \<Rightarrow> False)
                      then (fs, Inl Changed_On_Disk)
                      else replace_file E fs real mode content
                  | _ \<Rightarrow> (fs, Inl Note_Not_Found)))))"

definition create_vault_note :: "note_env \<Rightarrow> fs \<Rightarrow> str \<Rightarrow> str \<Rightarrow> str \<Rightarrow> fs \<times> (note_error + note_stamp)" where
  "create_vault_note E fs root rel content =
     (if MAX_NOTE_BYTES < length content then (fs, Inl (Too_Large (length content)))
      else (case note_path fs root rel of
          Inl e \<Rightarrow> (fs, Inl e)
        | Inr p \<Rightarrow>
            (case ensure_directory_inside fs root p rel of
               Inl e \<Rightarrow> (fs, Inl e)
             | Inr _ \<Rightarrow>
                 (case create_new fs p (File [] (ne_now E) (ne_mode E)) of
                    Inl Io_Already_Exists \<Rightarrow> (fs, Inl Note_Exists)
                  | Inl _ \<Rightarrow> (fs, Inl (Note_Io (''creating '' @ p @ '': '' @ ne_error E)))
                  | Inr fs1 \<Rightarrow>
                      if \<not> ne_write_ok E
                      then (case remove_file fs1 p of Inr fs2 \<Rightarrow> fs2 | Inl _ \<Rightarrow> fs1,
                            Inl (Note_Io (''writing '' @ p @ '': '' @ ne_error E)))
                      else (case locate fs1 p of
                              Some q \<Rightarrow> fs_put q (File content (ne_now E) (ne_mode E)) fs1
                            | None \<Rightarrow> fs1,
                            Inr (stamp_of content (ne_now E)))))))"

definition delete_vault_note :: "note_env \<Rightarrow> fs \<Rightarrow> str \<Rightarrow> str \<Rightarrow> fs \<times> (note_error + unit)" where
  "delete_vault_note E fs root rel =
     (case note_path fs root rel of
        Inl e \<Rightarrow> (fs, Inl e)
      | Inr p \<Rightarrow>
          (case metadata fs p of
             Some (File _ _ _) \<Rightarrow>
               (case remove_file fs p of
                  Inr fs' \<Rightarrow> (fs', Inr ())
                | Inl Io_Not_Found \<Rightarrow> (fs, Inl Note_Not_Found)
                | Inl _ \<Rightarrow> (fs, Inl (Note_Io (''deleting '' @ p @ '': '' @ ne_error E))))
           | _ \<Rightarrow> (fs, Inl Note_Not_Found)))"

definition rename_vault_note :: "note_env \<Rightarrow> fs \<Rightarrow> str \<Rightarrow> str \<Rightarrow> str \<Rightarrow> fs \<times> (note_error + unit)" where
  "rename_vault_note E fs root rel new_rel =
     (case note_path fs root rel of
        Inl e \<Rightarrow> (fs, Inl e)
      | Inr p \<Rightarrow>
          (case note_path fs root new_rel of
             Inl e \<Rightarrow> (fs, Inl e)
           | Inr dest \<Rightarrow>
               (case metadata fs p of
                  Some (File _ _ _) \<Rightarrow>
                    (case ensure_directory_inside fs root dest new_rel of
                       Inl e \<Rightarrow> (fs, Inl e)
                     | Inr _ \<Rightarrow>
                         (case create_new fs dest (File [] (ne_now E) (ne_mode E)) of
                            Inl Io_Already_Exists \<Rightarrow> (fs, Inl Note_Exists)
                          | Inl _ \<Rightarrow> (fs, Inl (Note_Io (''claiming '' @ dest @ '': '' @ ne_error E)))
                          | Inr fs1 \<Rightarrow>
                              (case (if ne_rename_ok E then rename_file fs1 p dest else Inl Io_Other) of
                                 Inr fs2 \<Rightarrow> (fs2, Inr ())
                               | Inl e \<Rightarrow>
                                   (case remove_file fs1 dest of Inr fs2 \<Rightarrow> fs2 | Inl _ \<Rightarrow> fs1,
                                    Inl (if e = Io_Not_Found then Note_Not_Found
                                         else Note_Io (''renaming '' @ p @ '': '' @ ne_error E))))))
                | _ \<Rightarrow> (fs, Inl Note_Not_Found))))"

section \<open>Torn tails\<close>

lemma byte_word_of_code: "byte_word b = word_of_nat (code b)"
  by (simp add: byte_word_def)

lemma code_lt: "code b < 256"
  by (simp add: code_def)

lemma bits_by_value:
  "list_all (\<lambda>n. ((word_of_nat n :: 8 word) AND 0xC0 = 0x80) = (128 \<le> n \<and> n \<le> 191) \<and>
     ((word_of_nat n :: 8 word) AND 0xE0 = 0xC0) = (192 \<le> n \<and> n \<le> 223) \<and>
     ((word_of_nat n :: 8 word) AND 0xF0 = 0xE0) = (224 \<le> n \<and> n \<le> 239) \<and>
     ((word_of_nat n :: 8 word) AND 0xF8 = 0xF0) = (240 \<le> n \<and> n \<le> 247)) [0..<256]"
  by code_simp

lemma cont_bits: "byte_word b AND 0xC0 = 0x80 \<longleftrightarrow> cont b"
  using bits_by_value code_lt [of b] by (auto simp: list_all_iff byte_word_of_code cont_def)

lemma lead_need_eq:
  "lead_need b = (if 192 \<le> code b \<and> code b \<le> 223 then 2 else if 224 \<le> code b \<and> code b \<le> 239 then 3
     else if 240 \<le> code b \<and> code b \<le> 247 then 4 else 1)"
  using bits_by_value code_lt [of b] by (auto simp: list_all_iff byte_word_of_code lead_need_def)

lemma back_over_stop: "0 < c \<Longrightarrow> \<not> cont (bs ! (c - 1)) \<Longrightarrow> back_over bs c = c"
  by (cases c) (auto simp: cont_bits)

lemma back_over_step:
  "0 < c \<Longrightarrow> length bs - c < 4 \<Longrightarrow> cont (bs ! (c - 1)) \<Longrightarrow> back_over bs c = back_over bs (c - 1)"
  by (cases c) (auto simp: cont_bits)

lemma trim_ascii_end:
  assumes "utf8_valid bs" "bs = [] \<or> code (last bs) < 128"
  shows "trim_torn_tail bs = bs"
proof (cases "bs = []")
  case False
  then have l: "bs ! (length bs - 1) = last bs" "code (last bs) < 128" using assms(2) by (simp_all add: last_conv_nth)
  then have "back_over bs (length bs) = length bs"
    using False by (intro back_over_stop) (auto simp: cont_def)
  moreover have "lead_need (bs ! (length bs - 1)) = 1" using l by (simp add: lead_need_eq)
  ultimately have "trim_torn_tail bs = from_utf8_lossy bs"
    using l False by (cases bs) (simp_all add: trim_torn_tail_def Let_def)
  then show ?thesis using from_utf8_lossy_valid [OF assms(1)] by simp
qed (simp add: trim_torn_tail_def from_utf8_lossy_def)

lemma multibyte_shape:
  assumes "utf8_head a rest = (True, n)" "length rest = n - 1" "1 < n"
  shows "\<not> cont a \<and> 192 \<le> code a \<and> list_all cont rest \<and> n \<le> 4 \<and> lead_need a = n"
  using assms
  by (auto simp: utf8_head_def cont_def second_ok_def lead_need_eq split: if_splits list.splits)

lemma utf8_head_alone: "192 \<le> code a \<Longrightarrow> utf8_head a [] = (False, 1)"
  by (auto simp: utf8_head_def)

lemma trim_multibyte_end:
  assumes valid: "utf8_valid pre" and ch: "utf8_head a rest = (True, n)" "length rest = n - 1" "1 < n"
  shows "trim_torn_tail (pre @ a # rest) = pre @ replacement"
proof -
  let ?bs = "pre @ a # rest" and ?k = "length pre + 1"
  note sh = multibyte_shape [OF ch]
  have rest: "cont (?bs ! (?k + i - 1))" if "0 < i" "i \<le> length rest" for i
    using that sh by (auto simp: nth_append list_all_iff nth_Cons' simp del: One_nat_def)
  have "back_over ?bs (?k + i) = ?k" if "i \<le> length rest" for i
    using that
  proof (induction i)
    case 0
    then show ?case using sh back_over_stop [of ?k ?bs] by simp
  next
    case (Suc i)
    then have "back_over ?bs (?k + Suc i) = back_over ?bs (?k + Suc i - 1)"
      using rest [of "Suc i"] sh ch by (intro back_over_step) auto
    then show ?case using Suc by simp
  qed
  from this [of "length rest"] have "back_over ?bs (length ?bs) = ?k" by simp
  then have "trim_torn_tail ?bs = from_utf8_lossy (pre @ [a])"
    using sh ch by (simp add: trim_torn_tail_def Let_def)
  also have "\<dots> = from_utf8_lossy pre @ replacement"
    using sh by (simp add: from_utf8_lossy_def utf8_chunks_append [OF valid] utf8_head_alone)
  finally show ?thesis by (simp add: from_utf8_lossy_valid [OF valid])
qed

section \<open>Lemmas on note paths\<close>

lemma last_note_name_Some:
  "last_note_name cs l = Some name \<Longrightarrow>
   \<exists>names. cs = map Normal names \<and> list_all (\<lambda>c. \<not> hidden c) names \<and> (if names = [] then l = Some name else last names = name)"
proof (induction cs l rule: last_note_name.induct)
  case (2 c cs l)
  then obtain names where "cs = map Normal names" "list_all (\<lambda>c. \<not> hidden c) names"
    "if names = [] then c = name else last names = name" "\<not> hidden c"
    by (auto split: if_splits)
  then show ?case by (intro exI [of _ "c # names"]) (auto split: if_splits)
qed auto

lemma map_Normal:
  "map (\<lambda>c. if c = ''..'' then Parent_Dir else Normal c) ps = map Normal names \<Longrightarrow> ps = names \<and> ''..'' \<notin> set ps"
proof (induction ps arbitrary: names)
  case (Cons p ps)
  then show ?case by (cases names) (auto split: if_splits)
qed simp

lemma path_names_good: "c \<in> set (path_names s) \<Longrightarrow> c \<noteq> ''..'' \<Longrightarrow> good_name c"
  by (auto simp: path_names_def good_name_def dest: split_slash_no_slashes)

lemma note_path_Inr:
  assumes "note_path fs root rel = Inr p"
  shows "p = path_join root rel" "absolute root" "is_dir fs root" "\<not> absolute rel" "rel \<noteq> []"
    "length rel \<le> MAX_REL_PATH_BYTES" "path_names rel \<noteq> []"
    "list_all (\<lambda>c. good_name c \<and> \<not> hidden c) (path_names rel)" "has_md_extension (last (path_names rel))"
proof -
  obtain name where n: "last_note_name (components rel) None = Some name"
    and b: "p = path_join root rel" "absolute root" "is_dir fs root" "rel \<noteq> []" "length rel \<le> MAX_REL_PATH_BYTES"
      "has_md_extension name"
    using assms by (auto simp: note_path_def split: if_splits option.splits)
  from last_note_name_Some [OF n] obtain names where
    c: "components rel = map Normal names" "list_all (\<lambda>c. \<not> hidden c) names" "names \<noteq> []" "last names = name"
    by (auto split: if_splits)
  have a: "\<not> absolute rel" using c(1,3) by (cases names) (auto simp: components_def)
  have "map (\<lambda>c. if c = ''..'' then Parent_Dir else Normal c) (path_names rel) = map Normal names"
    using c(1,3) a by (cases names) (auto simp: components_def split: if_splits)
  then have "path_names rel = names" "''..'' \<notin> set (path_names rel)" using map_Normal by blast+
  then have "list_all (\<lambda>c. good_name c \<and> \<not> hidden c) (path_names rel)"
    using c(2) path_names_good [of _ rel] by (fastforce simp: list_all_iff)
  then show "list_all (\<lambda>c. good_name c \<and> \<not> hidden c) (path_names rel)" .
  show "p = path_join root rel" "absolute root" "is_dir fs root" "\<not> absolute rel" "rel \<noteq> []"
    "length rel \<le> MAX_REL_PATH_BYTES" "path_names rel \<noteq> []" "has_md_extension (last (path_names rel))"
    using a b c \<open>path_names rel = names\<close> by simp_all
qed

lemma resolve_inside_Inr:
  "resolve_inside fs root p = Inr real \<longleftrightarrow>
   canonicalize fs p = Some real \<and> (\<exists>rr. canonicalize fs root = Some rr \<and> prefix rr real)"
  by (auto simp: resolve_inside_def split: option.splits)

text \<open>Two file systems with the same directories and links resolve paths the same way.\<close>

definition same_shape :: "fs \<Rightarrow> fs \<Rightarrow> bool" where
  "same_shape fs fs' \<longleftrightarrow> (\<forall>p. same_kind (fs_get fs p) (fs_get fs' p))"

lemma canonicalize_cong: "same_shape fs fs' \<Longrightarrow> canonicalize fs' s = canonicalize fs s"
  using resolve_at_cong [of fs fs'] by (simp add: canonicalize_def same_shape_def)

lemma is_dir_cong: "same_shape fs fs' \<Longrightarrow> is_dir fs' s = is_dir fs s"
  using same_kind_Dir [of "fs_get fs p" "fs_get fs' p" for p]
  by (auto simp: is_dir_def metadata_def canonicalize_cong same_shape_def Option.bind_eq_Some_conv)

lemma note_path_cong: "same_shape fs fs' \<Longrightarrow> note_path fs' root rel = note_path fs root rel"
  by (simp add: note_path_def is_dir_cong)

lemma resolve_inside_cong: "same_shape fs fs' \<Longrightarrow> resolve_inside fs' root p = resolve_inside fs root p"
  unfolding resolve_inside_def by (simp only: canonicalize_cong [of fs fs'])

text \<open>No entry has the name the next temporary file gets.\<close>

definition no_tmp :: "note_env \<Rightarrow> fs \<Rightarrow> bool" where
  "no_tmp E fs = list_all (\<lambda>(p, _). p = [] \<or> last p \<noteq> ''.gpty-note-'' @ ne_suffix E @ ''.tmp'') fs"

lemma no_tmp_get: "no_tmp E fs \<Longrightarrow> fs_get fs (tmp_path E real) = None"
proof (rule ccontr)
  assume "no_tmp E fs" "fs_get fs (tmp_path E real) \<noteq> None"
  then obtain n where "(tmp_path E real, n) \<in> set fs" by (auto simp: fs_get_def tmp_path_def dest: map_of_SomeD)
  with \<open>no_tmp E fs\<close> show False by (auto simp: no_tmp_def list_all_iff tmp_path_def)
qed

lemma replace_file_cases:
  assumes "no_tmp E fs" "fs_get fs real = Some (File old mtime mode')" "replace_file E fs real mode content = (fs', r)"
  shows "case r of Inl e \<Rightarrow> fs_get fs' = fs_get fs
    | Inr st \<Rightarrow> fs_get fs' = (fs_get fs)(real \<mapsto> File content (ne_now E) mode) \<and> st = stamp_of content (ne_now E)"
proof -
  have t: "fs_get fs (tmp_path E real) = None" by (rule no_tmp_get [OF assms(1)])
  then have n: "tmp_path E real \<noteq> real" "real \<noteq> []" if "fs_get fs real = Some (File old mtime mode')"
    using that by auto
  show ?thesis
    using assms(3) t n [OF assms(2)]
    by (auto simp: replace_file_def Let_def fs_get_put fs_get_del fun_eq_iff split: if_splits)
qed

section \<open>Properties of the note operations\<close>

lemma write_vault_note_Inr:
  assumes "write_vault_note E fs root rel content expected = (fs', Inr st)"
  obtains real root_real old mtime mode where
    "length content \<le> MAX_NOTE_BYTES" "note_path fs root rel = Inr (path_join root rel)"
    "canonicalize fs root = Some root_real" "canonicalize fs (path_join root rel) = Some real" "prefix root_real real"
    "fs_get fs real = Some (File old mtime mode)" "expected \<noteq> None \<longrightarrow> expected = Some (stamp_of old mtime)"
    "replace_file E fs real mode content = (fs', Inr st)"
proof -
  have len: "length content \<le> MAX_NOTE_BYTES" using assms by (auto simp: write_vault_note_def split: if_splits)
  obtain p where p: "note_path fs root rel = Inr p"
    using assms len by (cases "note_path fs root rel") (auto simp: write_vault_note_def split: if_splits)
  note p' = note_path_Inr(1) [OF p]
  obtain real where real: "resolve_inside fs root p = Inr real"
    using assms len p by (cases "resolve_inside fs root p") (auto simp: write_vault_note_def split: if_splits)
  obtain old mtime mode where node: "fs_get fs real = Some (File old mtime mode)"
    and done': "(if (case expected of Some s \<Rightarrow> stamp_of old mtime \<noteq> s | None \<Rightarrow> False)
      then (fs, Inl Changed_On_Disk) else replace_file E fs real mode content) = (fs', Inr st)"
    using assms len p real
    by (cases "fs_get fs real"; cases "the (fs_get fs real)") (simp_all add: write_vault_note_def)
  obtain rr where rr: "canonicalize fs root = Some rr" "canonicalize fs p = Some real" "prefix rr real"
    using real by (auto simp: resolve_inside_Inr)
  show ?thesis
    by (rule that [of rr real old mtime mode])
      (use len p p' rr node done' in \<open>auto split: if_splits option.splits\<close>)
qed

lemma write_vault_note_spec:
  assumes "no_tmp E fs" "write_vault_note E fs root rel content expected = (fs', r)"
  shows "case r of
      Inl e \<Rightarrow> fs_get fs' = fs_get fs
    | Inr st \<Rightarrow> \<exists>root_real real old mtime mode.
        canonicalize fs root = Some root_real \<and> canonicalize fs (path_join root rel) = Some real \<and>
        prefix root_real real \<and> fs_get fs real = Some (File old mtime mode) \<and>
        expected \<in> {None, Some (stamp_of old mtime)} \<and>
        fs_get fs' = (fs_get fs)(real \<mapsto> File content (ne_now E) mode) \<and> st = stamp_of content (ne_now E)"
proof (cases r)
  case (Inl e)
  have "fs_get fs' = fs_get fs"
    using assms(2) replace_file_cases [OF assms(1)] unfolding Inl
    by (fastforce simp: write_vault_note_def split: if_splits sum.splits option.splits fnode.splits)
  then show ?thesis using Inl by simp
next
  case (Inr st)
  from write_vault_note_Inr [OF assms(2) [unfolded Inr]] show ?thesis
    using replace_file_cases [OF assms(1)] Inr by (smt (verit) insertCI sum.simps(6))
qed

text \<open>C14: Saving a note is all or nothing.  When it fails, for whatever reason, no file differs from
  before; when it succeeds, exactly one does - the file the note resolves to, which lies inside
  the vault, had the stamp the caller expected and keeps its mode - and the stamp answered is
  its new one.\<close>

theorem write_note_atomic:
  assumes "no_tmp E fs" "write_vault_note E fs root rel content expected = (fs', r)"
  shows "case r of
      Inl e \<Rightarrow> fs_get fs' = fs_get fs
    | Inr st \<Rightarrow> \<exists>root_real real old mtime mode.
        canonicalize fs root = Some root_real \<and> canonicalize fs (path_join root rel) = Some real \<and>
        prefix root_real real \<and> fs_get fs real = Some (File old mtime mode) \<and>
        expected \<in> {None, Some (stamp_of old mtime)} \<and>
        fs_get fs' = (fs_get fs)(real \<mapsto> File content (ne_now E) mode) \<and> st = stamp_of content (ne_now E)"
  using assms by (rule write_vault_note_spec)

text \<open>C15: What is saved is what is read: after a successful save of text that is empty or ends in an
  ASCII character, such as a newline, reading the note answers exactly that text, untruncated,
  with the stamp the save answered.\<close>

theorem read_after_write:
  assumes "no_tmp E fs" "write_vault_note E fs root rel content expected = (fs', Inr st)"
    and "utf8_valid content" "content = [] \<or> code (last content) < 128"
  shows "read_vault_note fs' root rel =
    Inr \<lparr>nc_text = content, nc_truncated = False, nc_crlf = contains_crlf content, nc_stamp = st\<rparr>"
proof -
  from write_vault_note_Inr [OF assms(2)] obtain real root_real old mtime mode where
    w: "length content \<le> MAX_NOTE_BYTES" "note_path fs root rel = Inr (path_join root rel)"
      "canonicalize fs root = Some root_real" "canonicalize fs (path_join root rel) = Some real" "prefix root_real real"
      "fs_get fs real = Some (File old mtime mode)" "replace_file E fs real mode content = (fs', Inr st)"
    by metis
  have get: "fs_get fs' = (fs_get fs)(real \<mapsto> File content (ne_now E) mode)" and st: "st = stamp_of content (ne_now E)"
    using replace_file_cases [OF assms(1) w(6,7)] by simp_all
  have shape: "same_shape fs fs'" by (simp add: same_shape_def get w(6))
  show ?thesis
    using w trim_ascii_end [OF assms(3,4)] resolve_inside_Inr [THEN iffD2, of fs "path_join root rel" real root]
    by (simp add: read_vault_note_def note_path_cong [OF shape] resolve_inside_cong [OF shape] get st
        read_file_capped_def)
qed

text \<open>A vault \<open>/v\<close> with a note, and one with a directory that is a link out of it.\<close>

definition demo_env :: note_env where
  "demo_env = \<lparr>ne_suffix = ''00ff'', ne_now = 7000, ne_mode = 420, ne_write_ok = True, ne_mode_ok = True,
     ne_rename_ok = True, ne_error = []\<rparr>"

definition demo_fs :: fs where
  "demo_fs = [([''v''], Dir), ([''v'', ''a.md''], File ''old'' 5000 384)]"

definition linked_fs :: fs where
  "linked_fs = [([''v''], Dir), ([''v'', ''sub''], Link ''/out''), ([''out''], Dir),
     ([''out'', ''a.md''], File ''text'' 5000 420)]"

lemma demo_paths:
  "note_path demo_fs ''/v'' ''a.md'' = Inr ''/v/a.md''" "resolve_inside demo_fs ''/v'' ''/v/a.md'' = Inr [''v'', ''a.md'']"
  "fs_get demo_fs [''v'', ''a.md''] = Some (File ''old'' 5000 384)"
  by code_simp+

lemma demo_write: "snd (write_vault_note demo_env demo_fs ''/v'' ''a.md'' ''new'' None) = Inr \<lparr>st_mtime = 7, st_size = 3\<rparr>"
  by (simp add: write_vault_note_def demo_paths MAX_NOTE_BYTES_def replace_file_def Let_def demo_env_def stamp_of_def
      mtime_nanos_def)

theorem write_note_atomic_witness:
  "fs_get (fst (write_vault_note demo_env demo_fs ''/v'' ''a.md'' ''new'' None)) [''v'', ''a.md''] = Some (File ''new'' 7000 384)"
proof -
  have "no_tmp demo_env demo_fs" by code_simp
  note w = write_note_atomic [OF this prod.collapse [symmetric], of "''/v''" "''a.md''" "''new''" None]
  have "canonicalize demo_fs (path_join ''/v'' ''a.md'') = Some [''v'', ''a.md'']"
    "fs_get demo_fs [''v'', ''a.md''] = Some (File ''old'' 5000 384)" "ne_now demo_env = 7000" by code_simp+
  then show ?thesis using w by (auto simp: demo_write)
qed

theorem read_after_write_witness:
  "let fs' = fst (write_vault_note demo_env demo_fs ''/v'' ''a.md'' ''new'' None)
   in read_vault_note fs' ''/v'' ''a.md'' = Inr \<lparr>nc_text = ''new'', nc_truncated = False, nc_crlf = False,
        nc_stamp = \<lparr>st_mtime = 7, st_size = 3\<rparr>\<rparr>"
proof -
  have e: "no_tmp demo_env demo_fs" "utf8_valid ''new''" "''new'' = [] \<or> code (last ''new'') < 128" "\<not> contains_crlf ''new''"
    by code_simp+
  have "write_vault_note demo_env demo_fs ''/v'' ''a.md'' ''new'' None =
    (fst (write_vault_note demo_env demo_fs ''/v'' ''a.md'' ''new'' None), Inr \<lparr>st_mtime = 7, st_size = 3\<rparr>)"
    using demo_write by (metis prod.collapse)
  from read_after_write [OF e(1) this e(2,3)] show ?thesis using e(4) by (simp add: Let_def)
qed

text \<open>A note that ends in a character of two or more bytes is not read as it is: the trailing bytes
  of its last character are cut although the character is complete, and the rest of it reads as
  a replacement character.\<close>

theorem read_replaces_final_character:
  assumes "utf8_valid pre" "utf8_head a rest = (True, n)" "length rest = n - 1" "1 < n"
    and "length pre + n \<le> MAX_NOTE_BYTES"
  shows "read_file_capped (pre @ a # rest) = (pre @ replacement, False)"
  using assms(3-5) trim_multibyte_end [OF assms(1-4)] by (simp add: read_file_capped_def)

theorem read_replaces_final_character_witness:
  "read_file_capped (''caf'' @ [CHR 0xC3, CHR 0xA9]) = (''caf'' @ [CHR 0xEF, CHR 0xBF, CHR 0xBD], False)"
proof -
  have "utf8_valid ''caf''" "utf8_head (CHR 0xC3) [CHR 0xA9] = (True, 2)" by code_simp+
  from read_replaces_final_character [OF this] show ?thesis
    by (simp add: MAX_NOTE_BYTES_def replacement_def)
qed

section \<open>Entries of a vault\<close>

lemma locate_Some:
  assumes "locate fs p = Some e"
  shows "canonical_parent fs p = Some (butlast e)" "fs_get fs (butlast e) = Some Dir" "e \<noteq> []" "last e = last (path_names p)"
proof -
  have cs: "os_comps p = path_names p" "path_names p \<noteq> []"
    using assms by (auto simp: locate_def Let_def os_comps_def split: if_splits)
  then obtain d where "resolve_at fs MAX_SYMLINKS [] (butlast (path_names p)) = Some d" "fs_get fs d = Some Dir"
    "e = d @ [last (path_names p)]"
    using assms by (auto simp: locate_def Let_def split: if_splits option.splits)
  then show "canonical_parent fs p = Some (butlast e)" "fs_get fs (butlast e) = Some Dir" "e \<noteq> []" "last e = last (path_names p)"
    by (simp_all add: canonical_parent_def)
qed

lemma locate_mono:
  assumes "locate fs p = Some e" "\<And>q node. fs_get fs q = Some node \<Longrightarrow> fs_get fs' q = Some node"
  shows "locate fs' p = Some e"
proof -
  obtain d where d: "resolve_at fs MAX_SYMLINKS [] (butlast (os_comps p)) = Some d" "fs_get fs d = Some Dir"
    "e = d @ [last (os_comps p)]" "absolute p" "os_comps p \<noteq> []" "last (os_comps p) \<notin> {''.'', ''..''}"
    using assms(1) by (auto simp: locate_def Let_def split: if_splits option.splits)
  have "resolve_at fs' MAX_SYMLINKS [] (butlast (os_comps p)) = Some d"
    by (rule resolve_at_mono [OF assms(2) d(1)])
  then show ?thesis using d assms(2) [OF d(2)] by (simp add: locate_def Let_def)
qed

lemma put_new_mono:
  "fs_get fs e = None \<Longrightarrow> fs_get fs q = Some node \<Longrightarrow> fs_get (fs_put e new fs) q = Some node"
  by (auto simp: fs_get_put)

lemma create_new_Inr:
  "create_new fs p node = Inr fs1 \<longleftrightarrow> (\<exists>e. locate fs p = Some e \<and> fs_get fs e = None \<and> fs1 = fs_put e node fs)"
  by (auto simp: create_new_def split: option.splits if_splits)

lemma remove_created:
  assumes "locate fs p = Some e" "fs_get fs e = None"
  shows "remove_file (fs_put e (File c m md) fs) p = Inr (fs_del e (fs_put e (File c m md) fs))"
  using locate_mono [OF assms(1) put_new_mono [OF assms(2)]] locate_Some(3) [OF assms(1)]
  by (simp add: remove_file_def fs_get_put)

lemma ensure_directory_inside_Inr:
  "ensure_directory_inside fs root p rel = Inr d \<longleftrightarrow>
   (\<exists>rr. canonicalize fs root = Some rr \<and> prefix rr d) \<and> canonical_parent fs p = Some d \<and> fs_get fs d = Some Dir"
  by (auto simp: ensure_directory_inside_def split: option.splits if_splits)

text \<open>C16: Creating a note never replaces anything and never leaves the vault: when it fails no file
  differs from before, and when it succeeds the only difference is a new file, at an entry that
  did not exist, in a directory inside the vault, under a visible name ending in \<open>.md\<close>.\<close>

theorem create_note_is_new:
  assumes "create_vault_note E fs root rel content = (fs', r)"
  shows "case r of
      Inl e \<Rightarrow> fs_get fs' = fs_get fs
    | Inr st \<Rightarrow> \<exists>root_real dir name. canonicalize fs root = Some root_real \<and> prefix root_real dir \<and>
        fs_get fs (dir @ [name]) = None \<and> \<not> hidden name \<and> has_md_extension name \<and>
        fs_get fs' = (fs_get fs)(dir @ [name] \<mapsto> File content (ne_now E) (ne_mode E)) \<and> st = stamp_of content (ne_now E)"
proof (cases "length content \<le> MAX_NOTE_BYTES \<and> (\<exists>p d e. note_path fs root rel = Inr p \<and>
    ensure_directory_inside fs root p rel = Inr d \<and> locate fs p = Some e \<and> fs_get fs e = None)")
  case False
  then have "fs' = fs \<and> (\<exists>e. r = Inl e)"
    using assms by (auto simp: create_vault_note_def create_new_def split: if_splits sum.splits option.splits io_error.splits)
  then show ?thesis by auto
next
  case True
  then obtain p d e where p: "note_path fs root rel = Inr p" "ensure_directory_inside fs root p rel = Inr d"
    "locate fs p = Some e" "fs_get fs e = None" "length content \<le> MAX_NOTE_BYTES"
    by blast
  note e = locate_Some [OF p(3)]
  have d: "e = d @ [last (path_names rel)]" "\<exists>rr. canonicalize fs root = Some rr \<and> prefix rr d"
    using p(2) e note_path_Inr [OF p(1)] append_butlast_last_id [OF e(3)]
    by (auto simp: ensure_directory_inside_Inr path_names_join)
  have name: "\<not> hidden (last (path_names rel))" "has_md_extension (last (path_names rel))"
    using note_path_Inr [OF p(1)] by (auto simp: list_all_iff)
  let ?fs1 = "fs_put e (File [] (ne_now E) (ne_mode E)) fs"
  have c: "create_new fs p (File [] (ne_now E) (ne_mode E)) = Inr ?fs1" using p by (simp add: create_new_Inr)
  have l: "locate ?fs1 p = Some e" by (rule locate_mono [OF p(3) put_new_mono [OF p(4)]])
  show ?thesis
  proof (cases "ne_write_ok E")
    case False
    then have "fs' = fs_del e ?fs1 \<and> (\<exists>x. r = Inl x)"
      using assms p c remove_created [OF p(3,4)] by (auto simp: create_vault_note_def)
    then show ?thesis using p(4) e(3) by (auto simp: fs_get_put fs_get_del fun_eq_iff)
  next
    case True
    then have "fs' = fs_put e (File content (ne_now E) (ne_mode E)) ?fs1 \<and> r = Inr (stamp_of content (ne_now E))"
      using assms p c l by (auto simp: create_vault_note_def)
    moreover have "fs_get (fs_put e (File content (ne_now E) (ne_mode E)) ?fs1) =
        (fs_get fs)(e \<mapsto> File content (ne_now E) (ne_mode E))"
      using e(3) by (auto simp: fs_get_put fun_eq_iff)
    ultimately show ?thesis using d name p(4) by auto
  qed
qed

lemma demo_create: "snd (create_vault_note demo_env demo_fs ''/v'' ''b.md'' ''new'') = Inr \<lparr>st_mtime = 7, st_size = 3\<rparr>"
proof -
  have "note_path demo_fs ''/v'' ''b.md'' = Inr ''/v/b.md''" "ensure_directory_inside demo_fs ''/v'' ''/v/b.md'' ''b.md'' = Inr [''v'']"
    "create_new demo_fs ''/v/b.md'' (File [] 7000 420) = Inr (fs_put [''v'', ''b.md''] (File [] 7000 420) demo_fs)"
    by code_simp+
  then show ?thesis
    by (simp add: create_vault_note_def MAX_NOTE_BYTES_def demo_env_def stamp_of_def mtime_nanos_def)
qed

theorem create_note_is_new_witness:
  "fs_get (fst (create_vault_note demo_env demo_fs ''/v'' ''b.md'' ''new'')) [''v'', ''b.md''] = Some (File ''new'' 7000 420)"
proof -
  have "note_path demo_fs ''/v'' ''b.md'' = Inr ''/v/b.md''" "ensure_directory_inside demo_fs ''/v'' ''/v/b.md'' ''b.md'' = Inr [''v'']"
    "create_new demo_fs ''/v/b.md'' (File [] 7000 420) = Inr (fs_put [''v'', ''b.md''] (File [] 7000 420) demo_fs)"
    "locate (fs_put [''v'', ''b.md''] (File [] 7000 420) demo_fs) ''/v/b.md'' = Some [''v'', ''b.md'']"
    "fs_get demo_fs [''v'', ''b.md''] = None"
    by code_simp+
  then have e: "fs_get demo_fs [''v'', ''b.md''] = None"
    "fs_get (fst (create_vault_note demo_env demo_fs ''/v'' ''b.md'' ''new'')) [''v'', ''b.md''] \<noteq> None"
    by (simp_all add: create_vault_note_def MAX_NOTE_BYTES_def demo_env_def fs_get_put)
  have env: "ne_now demo_env = 7000" "ne_mode demo_env = 420" by (simp_all add: demo_env_def)
  from create_note_is_new [OF prod.collapse [symmetric], of demo_env demo_fs "''/v''" "''b.md''" "''new''"]
  obtain p where p: "fs_get (fst (create_vault_note demo_env demo_fs ''/v'' ''b.md'' ''new'')) =
      (fs_get demo_fs)(p \<mapsto> File ''new'' 7000 420)"
    by (auto simp: demo_create env)
  then have "p = [''v'', ''b.md'']" using e by (auto split: if_splits)
  then show ?thesis using p by simp
qed

lemma metadata_file_entry:
  assumes "remove_file fs p = Inr fs'"
  obtains e node where "locate fs p = Some e" "fs_get fs e = Some node" "fs' = fs_del e fs" "e \<noteq> []"
  using assms locate_Some(3) [of fs p] by (auto simp: remove_file_def split: option.splits fnode.splits)

lemma delete_cases:
  assumes "delete_vault_note E fs root rel = (fs', r)"
  obtains (fails) e where "r = Inl e" "fs' = fs"
  | (deletes) p where "r = Inr ()" "note_path fs root rel = Inr p" "remove_file fs p = Inr fs'"
proof (cases "note_path fs root rel")
  case (Inl e)
  then show ?thesis using assms fails [of e] by (simp add: delete_vault_note_def)
next
  case (Inr p)
  note d = assms [unfolded delete_vault_note_def Inr sum.simps]
  show ?thesis
  proof (cases "\<exists>c m md. metadata fs p = Some (File c m md)")
    case True
    then show ?thesis
      using d fails deletes Inr by (cases "remove_file fs p") (auto split: io_error.splits)
  next
    case False
    then show ?thesis using d fails by (cases "metadata fs p"; cases "the (metadata fs p)") auto
  qed
qed

text \<open>Deleting a note removes one directory entry and nothing else: when it fails no file
  differs, and when it succeeds the entry the path names is gone - a link is unlinked, and what
  it points at stays.\<close>

theorem delete_removes_one_entry:
  assumes "delete_vault_note E fs root rel = (fs', r)"
  shows "case r of
      Inl e \<Rightarrow> fs_get fs' = fs_get fs
    | Inr _ \<Rightarrow> \<exists>dir. canonical_parent fs (path_join root rel) = Some dir \<and>
        fs_get fs (dir @ [last (path_names rel)]) \<noteq> None \<and>
        fs_get fs' = (fs_get fs)(dir @ [last (path_names rel)] := None)"
  using assms
proof (cases rule: delete_cases)
  case (deletes p)
  from metadata_file_entry [OF deletes(3)] obtain e node where
    e: "locate fs p = Some e" "fs_get fs e = Some node" "fs' = fs_del e fs" "e \<noteq> []" by metis
  note l = locate_Some [OF e(1)] and n = note_path_Inr [OF deletes(2)]
  have "e = butlast e @ [last (path_names rel)]"
    using append_butlast_last_id [OF e(4)] l(4) n by (simp add: path_names_join)
  moreover have "fs_get fs' = (fs_get fs)(e := None)" using e by (auto simp: fs_get_del fun_eq_iff)
  ultimately have "canonical_parent fs (path_join root rel) = Some (butlast e) \<and>
      fs_get fs (butlast e @ [last (path_names rel)]) \<noteq> None \<and>
      fs_get fs' = (fs_get fs)(butlast e @ [last (path_names rel)] := None)"
    using l(1) n(1) e(2) by simp
  then show ?thesis using deletes(1) by auto
qed simp

lemma linked_facts:
  "note_path linked_fs ''/v'' ''sub/a.md'' = Inr ''/v/sub/a.md''" "canonicalize linked_fs ''/v/sub/a.md'' = Some [''out'', ''a.md'']"
  "canonicalize linked_fs ''/v'' = Some [''v'']" "metadata linked_fs ''/v/sub/a.md'' = Some (File ''text'' 5000 420)"
  "locate linked_fs ''/v/sub/a.md'' = Some [''out'', ''a.md'']" "fs_get linked_fs [''out'', ''a.md''] = Some (File ''text'' 5000 420)"
  "resolve_inside linked_fs ''/v'' ''/v/sub/a.md'' = Inl Outside"
  by code_simp+

theorem delete_removes_one_entry_witness:
  "fs_get (fst (delete_vault_note demo_env demo_fs ''/v'' ''a.md'')) [''v'', ''a.md''] = None"
proof -
  have "snd (delete_vault_note demo_env demo_fs ''/v'' ''a.md'') = Inr ()"
    "canonical_parent demo_fs (path_join ''/v'' ''a.md'') = Some [''v'']" "last (path_names ''a.md'') = ''a.md''"
    by code_simp+
  then show ?thesis
    using delete_removes_one_entry [OF prod.collapse [symmetric], of demo_env demo_fs "''/v''" "''a.md''"] by auto
qed


lemma metadata_locate:
  assumes "metadata fs p = Some (File c m md)" "path_names p \<noteq> []" "last (path_names p) \<noteq> ''..''"
  obtains e where "locate fs p = Some e" "fs_get fs e \<noteq> None"
proof -
  obtain real where real: "resolves fs MAX_SYMLINKS [] (os_comps p) real" "fs_get fs real = Some (File c m md)" "absolute p"
    using assms(1) by (auto simp: metadata_def canonicalize_def Option.bind_eq_Some_conv resolve_at_iff split: if_splits)
  have "os_comps p \<noteq> []" using assms(2) by (simp add: os_comps_def)
  then obtain cs x where cs: "os_comps p = cs @ [x]" by (cases "os_comps p" rule: rev_cases) auto
  then obtain n d where d: "resolves fs MAX_SYMLINKS [] cs d" "resolves fs n d [x] real"
    using real(1) resolves_append by metis
  have up: "x \<noteq> ''..''"
    using arg_cong [OF cs, of last] assms(2,3) by (auto simp: os_comps_def split: if_splits)
  have dot: "x \<noteq> ''.''"
    using d(2) real(2) by (auto elim!: resolves_ConsE resolves_NilE)
  have node: "fs_get fs d = Some Dir" "fs_get fs (d @ [x]) \<noteq> None"
    using d(2) dot up by (auto elim!: resolves_ConsE)
  have "resolve_at fs MAX_SYMLINKS [] cs = Some d" using d(1) by (simp add: resolve_at_iff)
  then have "locate fs p = Some (d @ [x])"
    using real(3) cs up dot node(1) by (simp add: locate_def Let_def)
  then show ?thesis using node(2) by (rule that)
qed

lemma rename_cases:
  assumes "rename_vault_note E fs root rel new_rel = (fs', r)"
  obtains (fails) e where "r = Inl e" "fs' = fs"
  | (claimed) dest fs1 e where "r = Inl e" "note_path fs root new_rel = Inr dest"
      "create_new fs dest (File [] (ne_now E) (ne_mode E)) = Inr fs1"
      "fs' = (case remove_file fs1 dest of Inr fs2 \<Rightarrow> fs2 | Inl _ \<Rightarrow> fs1)"
  | (renames) p dest d fs1 where "r = Inr ()" "note_path fs root rel = Inr p" "note_path fs root new_rel = Inr dest"
      "ensure_directory_inside fs root dest new_rel = Inr d"
      "create_new fs dest (File [] (ne_now E) (ne_mode E)) = Inr fs1" "rename_file fs1 p dest = Inr fs'"
      "\<exists>c m md. metadata fs p = Some (File c m md)"
proof (cases "note_path fs root rel")
  case (Inl e)
  then show ?thesis using assms fails [of e] by (simp add: rename_vault_note_def)
next
  case p: (Inr p)
  show ?thesis
  proof (cases "note_path fs root new_rel")
    case (Inl e)
    then show ?thesis using assms p fails [of e] by (simp add: rename_vault_note_def)
  next
    case dest: (Inr dest)
    note d = assms [unfolded rename_vault_note_def p dest sum.simps]
    show ?thesis
    proof (cases "\<exists>c m md. metadata fs p = Some (File c m md)")
      case False
      then show ?thesis
        using d fails [of Note_Not_Found] by (cases "metadata fs p"; cases "the (metadata fs p)") auto
    next
      case True
      show ?thesis
      proof (cases "ensure_directory_inside fs root dest new_rel")
        case (Inl e)
        then show ?thesis using d True fails [of e] by auto
      next
        case dir: (Inr dir)
        show ?thesis
        proof (cases "create_new fs dest (File [] (ne_now E) (ne_mode E))")
          case (Inl e)
          then show ?thesis using d True dir fails by (cases e) auto
        next
          case c: (Inr fs1)
          show ?thesis
          proof (cases "if ne_rename_ok E then rename_file fs1 p dest else Inl Io_Other")
            case (Inl e)
            then show ?thesis using d True dir c claimed [OF _ dest c] by auto
          next
            case (Inr fs2)
            then show ?thesis using d True dir c renames [OF _ p dest dir c] by (auto split: if_splits)
          qed
        qed
      qed
    qed
  qed
qed

text \<open>Renaming a note moves one entry and replaces nothing: when it fails no file differs, the
  claim on the new name included, and when it succeeds the entry that was at the old path is at
  the new one, where nothing was before, in a directory inside the vault.\<close>

theorem rename_moves_one_entry:
  assumes "rename_vault_note E fs root rel new_rel = (fs', r)"
  shows "case r of
      Inl e \<Rightarrow> fs_get fs' = fs_get fs
    | Inr _ \<Rightarrow> \<exists>root_real src_dir dst_dir node. canonicalize fs root = Some root_real \<and> prefix root_real dst_dir \<and>
        fs_get fs (src_dir @ [last (path_names rel)]) = Some node \<and>
        fs_get fs (dst_dir @ [last (path_names new_rel)]) = None \<and>
        fs_get fs' = (fs_get fs)(src_dir @ [last (path_names rel)] := None, dst_dir @ [last (path_names new_rel)] \<mapsto> node)"
  using assms
proof (cases rule: rename_cases)
  case (claimed dest fs1 e)
  then obtain q where q: "locate fs dest = Some q" "fs_get fs q = None" "fs1 = fs_put q (File [] (ne_now E) (ne_mode E)) fs"
    by (auto simp: create_new_Inr)
  have "fs' = fs_del q fs1" using claimed(4) remove_created [OF q(1,2)] q(3) by simp
  then have "fs_get fs' = fs_get fs" using q(2,3) by (auto simp: fs_get_del fs_get_put fun_eq_iff)
  then show ?thesis using claimed(1) by simp
next
  case (renames p dest d fs1)
  then obtain q where q: "locate fs dest = Some q" "fs_get fs q = None" "fs1 = fs_put q (File [] (ne_now E) (ne_mode E)) fs"
    by (auto simp: create_new_Inr)
  note lq = locate_Some [OF q(1)]
  have q1: "locate fs1 dest = Some q" unfolding q(3) by (rule locate_mono [OF q(1) put_new_mono [OF q(2)]])
  obtain s node where s: "locate fs1 p = Some s" "fs_get fs1 s = Some node" "node \<noteq> Dir"
      "fs' = (if s = q then fs1 else fs_put q node (fs_del s fs1))"
  proof (cases "locate fs1 p")
    case None
    then show ?thesis using renames(6) by (simp add: rename_file_def)
  next
    case (Some s)
    show ?thesis
      by (rule that [of s "the (fs_get fs1 s)"])
        (use renames(6) q1 Some in \<open>simp_all add: rename_file_def split: option.splits fnode.splits if_splits\<close>)
  qed
  have ls: "s \<noteq> []" "last s = last (path_names p)" using locate_Some [OF s(1)] by simp_all
  have names: "last q = last (path_names new_rel)" "last s = last (path_names rel)"
    using lq(4) ls note_path_Inr [OF renames(2)] note_path_Inr [OF renames(3)] by (simp_all add: path_names_join)
  obtain rr where rr: "canonicalize fs root = Some rr" "prefix rr d" "d = butlast q"
    using renames(4) [unfolded ensure_directory_inside_Inr] lq(1) by (metis option.inject)
  have src: "locate fs p = Some s \<and> fs_get fs s \<noteq> None"
  proof -
    have "path_names p \<noteq> []" "last (path_names p) \<noteq> ''..''"
      using note_path_Inr [OF renames(2)] by (auto simp: path_names_join has_md_extension_def)
    then obtain e where e: "locate fs p = Some e" "fs_get fs e \<noteq> None"
      using renames(7) metadata_locate by metis
    then have "locate fs1 p = Some e" unfolding q(3) by (intro locate_mono [OF _ put_new_mono [OF q(2)]])
    then show ?thesis using e s(1) by simp
  qed
  then have sq: "s \<noteq> q" "fs_get fs s = Some node" using q(2) s(2) q(3) by (auto simp: fs_get_put split: if_splits)
  have "fs_get fs' = (fs_get fs)(s := None, q \<mapsto> node)"
    using s(4) sq(1) q(3) ls(1) lq(3) by (auto simp: fs_get_put fs_get_del fun_eq_iff)
  moreover have "s = butlast s @ [last (path_names rel)]" "q = d @ [last (path_names new_rel)]"
    using append_butlast_last_id [OF ls(1)] append_butlast_last_id [OF lq(3)] names rr(3) by simp_all
  ultimately have "fs_get fs (butlast s @ [last (path_names rel)]) = Some node"
    "fs_get fs (d @ [last (path_names new_rel)]) = None"
    "fs_get fs' = (fs_get fs)(butlast s @ [last (path_names rel)] := None, d @ [last (path_names new_rel)] \<mapsto> node)"
    using sq(2) q(2) by simp_all
  then show ?thesis using renames(1) rr(1,2) by auto
qed simp

theorem rename_moves_one_entry_witness:
  "fs_get (fst (rename_vault_note demo_env demo_fs ''/v'' ''a.md'' ''b.md'')) [''v'', ''a.md''] = None"
proof -
  have "snd (rename_vault_note demo_env demo_fs ''/v'' ''a.md'' ''b.md'') = Inr ()"
    "last (path_names ''a.md'') = ''a.md''" "last (path_names ''b.md'') = ''b.md''"
    by code_simp+
  moreover have "d = [''v'']" if "fs_get demo_fs (d @ [''a.md'']) = Some node" for d node
    using that by (auto simp: demo_fs_def fs_get_def append_eq_Cons_conv split: if_splits)
  ultimately show ?thesis
    using rename_moves_one_entry [OF prod.collapse [symmetric], of demo_env demo_fs "''/v''" "''a.md''" "''b.md''"] by auto
qed

end
