(* ===== verification/Vault_Walk.thy ===== *)
theory Vault_Walk
  imports Vault_Notes
begin

text \<open>
  What the walk of a vault lists, and its composition with the index: every listed note is one
  the reader accepts, under a path no other note has, and an index pass over a file system
  mirrors what the walk found there.
\<close>

section \<open>Listed names\<close>

lemma path_names_slash_concat: "list_all good_name ps \<Longrightarrow> path_names (slash_concat ps) = ps"
proof (induction ps rule: slash_concat.induct)
  case (2 p)
  then show ?case by (simp add: good_name_path)
next
  case (3 p q ps)
  then show ?case by (simp add: path_names_slash good_name_path)
qed (simp add: path_names_def)

lemma slash_concat_nonempty: "list_all good_name ps \<Longrightarrow> ps \<noteq> [] \<Longrightarrow> slash_concat ps \<noteq> [] \<and> \<not> absolute (slash_concat ps)"
  by (cases ps rule: slash_concat.cases; cases "hd ps") (auto simp: good_name_def absolute_def)

lemma last_split_slash_concat:
  "list_all good_name ps \<Longrightarrow> ps \<noteq> [] \<Longrightarrow> last (split_slash (slash_concat ps)) = last ps"
proof (induction ps rule: slash_concat.induct)
  case (2 p)
  then show ?case by (simp add: good_name_def split_slash_no_slash)
next
  case (3 p q ps)
  then show ?case by (simp add: split_slash_append)
qed simp

lemma os_comps_slash_concat:
  assumes "list_all good_name ps" "ps \<noteq> []"
  shows "os_comps (slash_concat ps) = ps"
proof -
  have "good_name (last ps)" using assms by (metis last_in_set list_all_iff)
  then show ?thesis
    using path_names_slash_concat [OF assms(1)] last_split_slash_concat [OF assms] by (auto simp: os_comps_def good_name_def)
qed

lemma hd_split_slash_concat:
  assumes "list_all good_name ps" "ps \<noteq> []"
  shows "hd (split_slash (slash_concat ps)) = hd ps"
proof (cases ps rule: slash_concat.cases)
  case (2 p)
  then show ?thesis using assms by (simp add: good_name_def split_slash_no_slash)
next
  case (3 p q qs)
  then show ?thesis using assms by (simp add: good_name_def split_slash_no_slash split_slash_append)
qed (use assms in simp)

lemma components_slash_concat:
  assumes "list_all good_name ps" "ps \<noteq> []"
  shows "components (slash_concat ps) = map Normal ps"
proof -
  have "hd ps \<noteq> ''.''" using assms by (cases ps) (auto simp: good_name_def)
  moreover have "map (\<lambda>c. if c = ''..'' then Parent_Dir else Normal c) ps = map Normal ps"
    using assms(1) by (auto simp: list_all_iff good_name_def)
  ultimately show ?thesis
    using slash_concat_nonempty [OF assms] path_names_slash_concat [OF assms(1)] hd_split_slash_concat [OF assms]
    by (simp add: components_def)
qed

lemma last_note_name_Normal:
  "list_all (\<lambda>c. \<not> hidden c) ps \<Longrightarrow> last_note_name (map Normal ps) l = (if ps = [] then l else Some (last ps))"
  by (induction ps arbitrary: l) auto

section \<open>What the walk lists\<close>

text \<open>A walked note: its path's names, the file they resolve to inside the vault, and what the
  listing says of it.\<close>

definition walked :: "fs \<Rightarrow> str \<Rightarrow> path \<Rightarrow> scanned_note \<Rightarrow> bool" where
  "walked fs root root_real n \<longleftrightarrow>
     (\<exists>ps real content mtime mode.
        list_all (\<lambda>c. good_name c \<and> \<not> hidden c) ps \<and> ps \<noteq> [] \<and> has_md_extension (last ps) \<and>
        sn_rel_path n = slash_concat ps \<and> resolve_at fs MAX_SYMLINKS [] (path_names root @ ps) = Some real \<and>
        canonicalize fs (sn_abs_path n) = Some real \<and>
        prefix root_real real \<and> fs_get fs real = Some (File content mtime mode) \<and>
        sn_mtime n = mtime_nanos mtime \<and> sn_size n = int (length content))"

text \<open>Where a step of the walk stands: in a directory of the vault, under a path of visible names.\<close>

definition at_dir :: "fs \<Rightarrow> str \<Rightarrow> path \<Rightarrow> str \<Rightarrow> path \<Rightarrow> str \<Rightarrow> bool" where
  "at_dir fs root root_real dir dir_real rel \<longleftrightarrow>
     absolute dir \<and> canonicalize fs dir = Some dir_real \<and> fs_get fs dir_real = Some Dir \<and>
     prefix root_real dir_real \<and> path_names dir = path_names root @ path_names rel \<and>
     list_all (\<lambda>c. good_name c \<and> \<not> hidden c) (path_names rel)"

lemma child_path:
  assumes "at_dir fs root root_real dir dir_real rel" "good_name name"
  shows "os_comps (path_join dir name) = path_names dir @ [name]" "absolute (path_join dir name)"
    "path_names (path_join dir name) = path_names root @ path_names (path_join rel name)"
    "path_names (path_join rel name) = path_names rel @ [name]"
    "symlink_metadata fs (path_join dir name) = fs_get fs (dir_real @ [name])"
proof -
  note g = good_name_path [OF assms(2)]
  show c: "os_comps (path_join dir name) = path_names dir @ [name]" using g by (simp add: os_comps_join)
  show a: "absolute (path_join dir name)" using assms(1) by (simp add: at_dir_def absolute_join)
  show "path_names (path_join dir name) = path_names root @ path_names (path_join rel name)"
    "path_names (path_join rel name) = path_names rel @ [name]"
    using g assms(1) by (simp_all add: path_names_join at_dir_def)
  have "resolve_at fs MAX_SYMLINKS [] (path_names dir) = Some dir_real" "fs_get fs dir_real = Some Dir"
    using assms(1) canonicalize_names [of fs dir dir_real] by (simp_all add: at_dir_def)
  then show "symlink_metadata fs (path_join dir name) = fs_get fs (dir_real @ [name])"
    using a assms(2) by (simp add: symlink_metadata_def locate_def Let_def c good_name_def)
qed

lemma child_target:
  assumes "at_dir fs root root_real dir dir_real rel" "good_name name" "fs_get fs (dir_real @ [name]) = Some m"
    and "walk_target fs dir_real (path_join dir name) name m = Some (real, node)"
  shows "canonicalize fs (path_join dir name) = Some real \<and> fs_get fs real = Some node"
proof -
  note c = child_path [OF assms(1,2)]
  show ?thesis
  proof (cases m)
    case (File x y z)
    have "resolve_at fs MAX_SYMLINKS [] (path_names dir) = Some dir_real" "fs_get fs dir_real = Some Dir"
      using assms(1) canonicalize_names [of fs dir dir_real] by (simp_all add: at_dir_def)
    then have "resolve_at fs MAX_SYMLINKS [] (path_names dir @ [name]) = Some (dir_real @ [name])"
      using assms(2,3) File by (intro resolve_at_snoc) (auto simp: is_link_def good_name_def)
    then show ?thesis using assms(3,4) File c(1,2) by (simp add: walk_target_def canonicalize_def)
  qed (use assms(4) in \<open>auto simp: walk_target_def split: option.splits\<close>)
qed

lemma child_dir:
  assumes "at_dir fs root root_real dir dir_real rel" "good_name name" "\<not> hidden name"
    and "canonicalize fs (path_join dir name) = Some real" "fs_get fs real = Some Dir" "prefix root_real real"
  shows "at_dir fs root root_real (path_join dir name) real (path_join rel name)"
  using assms child_path [OF assms(1,2)] by (simp add: at_dir_def)

lemma child_note:
  assumes "at_dir fs root root_real dir dir_real rel" "good_name name" "\<not> hidden name" "has_md_extension name"
    and "canonicalize fs (path_join dir name) = Some real" "fs_get fs real = Some (File content mtime mode)"
    "prefix root_real real"
  shows "walked fs root root_real \<lparr>sn_rel_path = slash_join (path_join rel name), sn_abs_path = path_join dir name,
     sn_mtime = mtime_nanos mtime, sn_size = int (length content)\<rparr>"
proof -
  note c = child_path [OF assms(1,2)]
  have "resolve_at fs MAX_SYMLINKS [] (path_names root @ path_names rel @ [name]) = Some real"
    using canonicalize_names [OF assms(5)] c(3,4) by simp
  then show ?thesis
    using assms c(4) unfolding walked_def
    by (intro exI [of _ "path_names rel @ [name]"] exI [of _ real] exI [of _ content] exI [of _ mtime] exI [of _ mode])
      (simp add: slash_join_def at_dir_def)
qed

definition listing_ok :: "fs \<Rightarrow> path \<Rightarrow> (str \<times> fnode option) list \<Rightarrow> bool" where
  "listing_ok fs dir_real es = list_all (\<lambda>(name, m). good_name name \<and> m = fs_get fs (dir_real @ [name])) es"

lemma walk_listing_ok:
  assumes "fs_ok fs" "at_dir fs root root_real dir dir_real rel" "walk_listing fs dir = Some es"
  shows "listing_ok fs dir_real es"
proof -
  obtain names where r: "read_dir fs dir = Some names"
    and es: "set es = (\<lambda>name. (name, symlink_metadata fs (path_join dir name))) ` set names"
    using assms(3) by (auto simp: walk_listing_def)
  have "good_name name" if nm: "name \<in> set names" for name
  proof -
    obtain d where "names = map (last \<circ> fst) (filter (\<lambda>(q, _). q \<noteq> [] \<and> butlast q = d) fs)"
      using r by (auto simp: read_dir_def split: option.splits if_splits)
    then obtain e where "e \<in> set fs" "fst e \<noteq> []" "name = last (fst e)" using nm by auto
    then obtain q where q: "q \<in> fst ` set fs" "q \<noteq> []" "name = last q" by blast
    then have "list_all good_name q" using assms(1) by (auto simp: fs_ok_def list_all_iff)
    then show ?thesis using q by (simp add: list_all_iff)
  qed
  then show ?thesis
    using es child_path(5) [OF assms(2)] by (auto simp: listing_ok_def list_all_iff)
qed

text \<open>What every change of the walk's state keeps, the walk keeps.\<close>

lemma walk_invariant:
  assumes "fs_ok fs"
    and "\<And>c. I c \<Longrightarrow> I (c\<lparr>wc_outside := wc_outside c + 1\<rparr>)"
    and "\<And>c real. I c \<Longrightarrow> I (c\<lparr>wc_visited := real # wc_visited c\<rparr>)"
    and "\<And>c. I c \<Longrightarrow> I (c\<lparr>wc_truncated := True\<rparr>)"
    and "\<And>c n. I c \<Longrightarrow> walked fs root root_real n \<Longrightarrow> length (wc_notes c) < max_notes \<Longrightarrow>
      I (c\<lparr>wc_notes := wc_notes c @ [n]\<rparr>)"
  shows "at_dir fs root root_real dir dir_real rel \<Longrightarrow> I ctx \<Longrightarrow>
      I (walk levels fs root_real max_notes dir dir_real rel ctx)"
    and "at_dir fs root root_real dir dir_real rel \<Longrightarrow> listing_ok fs dir_real es \<Longrightarrow> I ctx \<Longrightarrow>
      I (walk_entries levels fs root_real max_notes dir dir_real rel es ctx)"
  using assms
proof (induction levels fs root_real max_notes dir dir_real rel ctx and levels fs root_real max_notes dir dir_real rel es ctx
    rule: walk_walk_entries.induct)
  case (1 levels fs root_real max_notes dir dir_real rel ctx)
  show ?case
  proof (cases "wc_truncated ctx \<or> levels = 0 \<or> walk_listing fs dir = None")
    case True
    then show ?thesis using 1(3) by (auto simp: walk.simps)
  next
    case False
    then obtain es where es: "walk_listing fs dir = Some es" by auto
    from 1(1) [OF _ es 1(2) walk_listing_ok [OF 1(4,2) es] 1(3) 1(4-8)] False show ?thesis
      by (simp add: walk.simps es)
  qed
next
  case (3 levels fs root_real max_notes dir dir_real rel name em es ctx)
  note at = 3(3) and ok = 3(6) and step = 3(7-10)
  have name: "good_name name" "em = fs_get fs (dir_real @ [name])" "listing_ok fs dir_real es"
    using 3(4) by (simp_all add: listing_ok_def)
  have skip: "I (walk_entries levels fs root_real max_notes dir dir_real rel es c)" if "I c" for c
    by (rule 3(1) [OF at name(3) that ok step])
  let ?child = "path_join dir name"
  show ?case
  proof (cases "hidden name \<or> em = None \<or> walk_target fs dir_real ?child name (the em) = None")
    case True
    then show ?thesis using skip [OF 3(5)] by (auto simp: walk_entries.simps(2) Let_def split: option.splits)
  next
    case False
    then obtain m real node where m: "\<not> hidden name" "em = Some m" "walk_target fs dir_real ?child name m = Some (real, node)"
      by (cases em; cases "walk_target fs dir_real ?child name (the em)") auto
    have t: "canonicalize fs ?child = Some real" "fs_get fs real = Some node"
      using child_target [OF at name(1) _ m(3)] m(2) name(2) by simp_all
    show ?thesis
    proof (cases "prefix root_real real")
      case False
      then show ?thesis using m skip [OF step(1) [OF 3(5)]] by (simp add: walk_entries.simps(2) Let_def)
    next
      case inside: True
      show ?thesis
      proof (cases node)
        case Dir
        have "I (walk levels fs root_real max_notes ?child real (path_join rel name)
            (ctx\<lparr>wc_visited := real # wc_visited ctx\<rparr>))" if "real \<notin> set (wc_visited ctx)"
          by (rule 3(2) [OF refl refl refl m(1,2,3) refl _ Dir that child_dir [OF at name(1) m(1) t(1) _ inside]
              step(2) [OF 3(5)] ok step]) (use inside t Dir in simp_all)
        then show ?thesis
          using m inside Dir skip 3(5) by (simp add: walk_entries.simps(2) Let_def)
      next
        case (File content mtime mode)
        have "I (ctx\<lparr>wc_notes := wc_notes ctx @ [\<lparr>sn_rel_path = slash_join (path_join rel name), sn_abs_path = ?child,
             sn_mtime = mtime_nanos mtime, sn_size = int (length content)\<rparr>]\<rparr>)"
          if "has_md_extension name" "length (wc_notes ctx) < max_notes"
          using child_note [OF at name(1) m(1) that(1) t(1) _ inside, of content mtime mode] t(2) File
          by (intro step(4) [OF 3(5) _ that(2)]) simp
        then show ?thesis
          using m inside File skip 3(5) step(3) by (simp add: walk_entries.simps(2) Let_def)
      next
        case (Link t)
        then show ?thesis using m inside skip 3(5) by (simp add: walk_entries.simps(2) Let_def)
      qed
    qed
  qed
qed simp

section \<open>Properties of the walk\<close>

lemma at_root:
  assumes "is_dir fs root" "absolute root" "canonicalize fs root = Some root_real"
  shows "at_dir fs root root_real root root_real []"
  using assms by (simp add: at_dir_def is_dir_def metadata_def path_names_def)

lemma scan_notes_walked:
  assumes "fs_ok fs" "absolute root" "is_dir fs root" "canonicalize fs root = Some root_real"
  shows "list_all (walked fs root root_real) (sr_notes (scan_vault_limited fs root max_notes max_depth)) \<and>
    length (sr_notes (scan_vault_limited fs root max_notes max_depth)) \<le> max_notes"
proof -
  let ?ctx = "\<lparr>wc_visited = [root_real], wc_notes = [], wc_truncated = False, wc_outside = 0\<rparr>"
  have "list_all (walked fs root root_real) (wc_notes (walk (max_depth + 1) fs root_real max_notes root root_real [] ?ctx)) \<and>
    length (wc_notes (walk (max_depth + 1) fs root_real max_notes root root_real [] ?ctx)) \<le> max_notes"
    by (rule walk_invariant(1) [where I = "\<lambda>c. list_all (walked fs root root_real) (wc_notes c) \<and> length (wc_notes c) \<le> max_notes",
          OF assms(1) _ _ _ _ at_root [OF assms(3,2,4)]]) auto
  then show ?thesis using assms(4) by (simp add: scan_vault_limited_def Let_def list_all_iff)
qed

lemma walked_paths:
  assumes w: "walked fs root root_real n" and "absolute root" "is_dir fs root" "canonicalize fs root = Some root_real"
  obtains real content mtime mode where "canonicalize fs (sn_abs_path n) = Some real"
    "canonicalize fs (path_join root (sn_rel_path n)) = Some real" "prefix root_real real"
    "fs_get fs real = Some (File content mtime mode)" "sn_mtime n = mtime_nanos mtime" "sn_size n = int (length content)"
    "length (sn_rel_path n) \<le> MAX_REL_PATH_BYTES \<longrightarrow> note_path fs root (sn_rel_path n) = Inr (path_join root (sn_rel_path n))"
proof -
  from w obtain ps real content mtime mode where
    ps: "list_all (\<lambda>c. good_name c \<and> \<not> hidden c) ps" "ps \<noteq> []" "has_md_extension (last ps)"
      "sn_rel_path n = slash_concat ps" "resolve_at fs MAX_SYMLINKS [] (path_names root @ ps) = Some real"
      "canonicalize fs (sn_abs_path n) = Some real"
      "prefix root_real real" "fs_get fs real = Some (File content mtime mode)"
      "sn_mtime n = mtime_nanos mtime" "sn_size n = int (length content)"
    unfolding walked_def by blast
  have good: "list_all good_name ps" "list_all (\<lambda>c. \<not> hidden c) ps" using ps(1) by (auto simp: list_all_iff)
  have rel: "sn_rel_path n \<noteq> []" "\<not> absolute (sn_rel_path n)"
    using slash_concat_nonempty [OF good(1) ps(2)] ps(4) by simp_all
  have "length (sn_rel_path n) \<le> MAX_REL_PATH_BYTES \<longrightarrow> note_path fs root (sn_rel_path n) = Inr (path_join root (sn_rel_path n))"
    using assms ps rel good components_slash_concat [OF good(1) ps(2)] last_note_name_Normal [OF good(2)]
    by (simp add: note_path_def)
  moreover have "canonicalize fs (path_join root (sn_rel_path n)) = Some real"
    using ps(5) rel assms(2) os_comps_slash_concat [OF good(1) ps(2)] ps(4)
    by (simp add: canonicalize_def absolute_join os_comps_join)
  ultimately show ?thesis using ps(6-10) that by blast
qed

lemma walked_readable:
  assumes w: "walked fs root root_real n" and "absolute root" "is_dir fs root" "canonicalize fs root = Some root_real"
    and "length (sn_rel_path n) \<le> MAX_REL_PATH_BYTES"
  shows "\<exists>content mtime mode. metadata fs (sn_abs_path n) = Some (File content mtime mode) \<and>
      sn_mtime n = mtime_nanos mtime \<and> sn_size n = int (length content) \<and>
      read_vault_note fs root (sn_rel_path n) = Inr
        \<lparr>nc_text = fst (read_file_capped content), nc_truncated = snd (read_file_capped content),
         nc_crlf = contains_crlf (fst (read_file_capped content)), nc_stamp = stamp_of content mtime\<rparr>"
proof -
  from walked_paths [OF assms(1-4)] obtain real content mtime mode where
    p: "canonicalize fs (sn_abs_path n) = Some real" "canonicalize fs (path_join root (sn_rel_path n)) = Some real"
      "prefix root_real real" "fs_get fs real = Some (File content mtime mode)" "sn_mtime n = mtime_nanos mtime"
      "sn_size n = int (length content)"
      "length (sn_rel_path n) \<le> MAX_REL_PATH_BYTES \<longrightarrow> note_path fs root (sn_rel_path n) = Inr (path_join root (sn_rel_path n))"
    by metis
  have "resolve_inside fs root (path_join root (sn_rel_path n)) = Inr real"
    using assms(4) p(2,3) by (auto simp: resolve_inside_Inr)
  then show ?thesis
    using p assms(5) by (auto simp: read_vault_note_def split_beta metadata_def)
qed

text \<open>The walk and the reader agree on what a note of the vault is: at most the capped number of
  notes is listed, and reading any of them (its path within the length the reader accepts)
  succeeds, with the text of the file listed and its stamp.\<close>

theorem walk_lists_readable_notes:
  assumes "fs_ok fs" "absolute root" "is_dir fs root"
  shows "length (sr_notes (scan_vault_limited fs root max_notes max_depth)) \<le> max_notes \<and>
    (\<forall>n \<in> set (sr_notes (scan_vault_limited fs root max_notes max_depth)).
      length (sn_rel_path n) \<le> MAX_REL_PATH_BYTES \<longrightarrow>
      (\<exists>content mtime mode. metadata fs (sn_abs_path n) = Some (File content mtime mode) \<and>
        sn_mtime n = mtime_nanos mtime \<and> sn_size n = int (length content) \<and>
        read_vault_note fs root (sn_rel_path n) = Inr
          \<lparr>nc_text = fst (read_file_capped content), nc_truncated = snd (read_file_capped content),
           nc_crlf = contains_crlf (fst (read_file_capped content)), nc_stamp = stamp_of content mtime\<rparr>))"
proof -
  obtain root_real where c: "canonicalize fs root = Some root_real"
    using assms(3) by (auto simp: is_dir_def metadata_def Option.bind_eq_Some_conv)
  from scan_notes_walked [OF assms c, of max_notes max_depth] walked_readable [OF _ assms(2,3) c]
  show ?thesis by (simp add: list_all_iff)
qed

theorem walk_lists_readable_notes_witness:
  "map sn_rel_path (sr_notes (scan_vault_limited demo_fs ''/v'' 5 3)) = [''a.md''] \<and>
   nc_stamp (projr (read_vault_note demo_fs ''/v'' ''a.md'')) = \<lparr>st_mtime = 5, st_size = 3\<rparr>"
proof -
  have e: "fs_ok demo_fs" "absolute ''/v''" "is_dir demo_fs ''/v''"
    "map sn_rel_path (sr_notes (scan_vault_limited demo_fs ''/v'' 5 3)) = [''a.md'']"
    "map (metadata demo_fs \<circ> sn_abs_path) (sr_notes (scan_vault_limited demo_fs ''/v'' 5 3)) = [Some (File ''old'' 5000 384)]"
    by code_simp+
  then obtain n where n: "sr_notes (scan_vault_limited demo_fs ''/v'' 5 3) = [n]" "sn_rel_path n = ''a.md''"
    "metadata demo_fs (sn_abs_path n) = Some (File ''old'' 5000 384)"
    by auto
  from walk_lists_readable_notes [OF e(1-3), of 5 3] show ?thesis
    using n by (auto simp: MAX_REL_PATH_BYTES_def stamp_of_def mtime_nanos_def)
qed

section \<open>Listed paths are distinct\<close>

lemma slash_concat_inj: "list_all good_name ps \<Longrightarrow> list_all good_name qs \<Longrightarrow> slash_concat ps = slash_concat qs \<Longrightarrow> ps = qs"
  by (metis path_names_slash_concat)

text \<open>The notes a step adds: all under its path, none twice.\<close>

definition adds :: "str \<Rightarrow> str list set \<Rightarrow> scanned_note list \<Rightarrow> scanned_note list \<Rightarrow> bool" where
  "adds rel heads old new \<longleftrightarrow>
     (\<exists>more. new = old @ more \<and> distinct (map sn_rel_path more) \<and>
       (\<forall>n \<in> set more. \<exists>h qs. h \<in> heads \<and> list_all good_name (path_names rel @ h @ qs) \<and>
          sn_rel_path n = slash_concat (path_names rel @ h @ qs)))"

lemma adds_none: "adds rel heads old old"
  by (simp add: adds_def)

lemma adds_trans:
  assumes "adds rel {[x]} a b" "adds rel (A - {[x]}) b c" "A \<subseteq> range (\<lambda>x. [x])" "[x] \<in> A"
  shows "adds rel A a c"
proof -
  from assms(1) obtain m1 where m1: "b = a @ m1" "distinct (map sn_rel_path m1)"
    "\<forall>n \<in> set m1. \<exists>qs. list_all good_name (path_names rel @ [x] @ qs) \<and> sn_rel_path n = slash_concat (path_names rel @ [x] @ qs)"
    by (auto simp: adds_def)
  from assms(2) obtain m2 where m2: "c = b @ m2" "distinct (map sn_rel_path m2)"
    "\<forall>n \<in> set m2. \<exists>h qs. h \<in> A - {[x]} \<and> list_all good_name (path_names rel @ h @ qs) \<and>
       sn_rel_path n = slash_concat (path_names rel @ h @ qs)"
    unfolding adds_def by blast
  have "sn_rel_path n \<noteq> sn_rel_path n'" if nm: "n \<in> set m1" "n' \<in> set m2" for n n'
  proof
    assume eq: "sn_rel_path n = sn_rel_path n'"
    obtain qs where q: "list_all good_name (path_names rel @ [x] @ qs)" "sn_rel_path n = slash_concat (path_names rel @ [x] @ qs)"
      using bspec [OF m1(3) nm(1)] by (elim exE conjE)
    obtain h rs where h: "h \<in> A - {[x]}" "list_all good_name (path_names rel @ h @ rs)"
      "sn_rel_path n' = slash_concat (path_names rel @ h @ rs)"
      using bspec [OF m2(3) nm(2)] by (elim exE conjE)
    have "[x] @ qs = h @ rs" using slash_concat_inj [OF q(1) h(2)] q(2) h(3) eq by simp
    then show False using h(1) assms(3) by auto
  qed
  then have "distinct (map sn_rel_path (m1 @ m2))" using m1(2) m2(2) by auto
  moreover have "\<exists>h qs. h \<in> A \<and> list_all good_name (path_names rel @ h @ qs) \<and>
       sn_rel_path n = slash_concat (path_names rel @ h @ qs)" if "n \<in> set (m1 @ m2)" for n
  proof (cases "n \<in> set m1")
    case True
    then obtain qs where "list_all good_name (path_names rel @ [x] @ qs)" "sn_rel_path n = slash_concat (path_names rel @ [x] @ qs)"
      using bspec [OF m1(3) True] by (elim exE conjE)
    then show ?thesis using assms(4) by (intro exI conjI)
  next
    case False
    then have "n \<in> set m2" using that by simp
    from bspec [OF m2(3) this] obtain h qs where "h \<in> A - {[x]}" "list_all good_name (path_names rel @ h @ qs)"
      "sn_rel_path n = slash_concat (path_names rel @ h @ qs)"
      by (elim exE conjE)
    then show ?thesis by (intro exI conjI) (rule DiffD1)
  qed
  ultimately show ?thesis using m1(1) m2(1) unfolding adds_def by (intro exI [of _ "m1 @ m2"]) simp
qed

lemma adds_child:
  "path_names (path_join rel x) = path_names rel @ [x] \<Longrightarrow> adds (path_join rel x) heads a b \<Longrightarrow> adds rel {[x]} a b"
proof -
  assume p: "path_names (path_join rel x) = path_names rel @ [x]" and a: "adds (path_join rel x) heads a b"
  from a obtain more where m: "b = a @ more" "distinct (map sn_rel_path more)"
    "\<forall>n \<in> set more. \<exists>h qs. h \<in> heads \<and> list_all good_name ((path_names rel @ [x]) @ h @ qs) \<and>
       sn_rel_path n = slash_concat ((path_names rel @ [x]) @ h @ qs)"
    unfolding adds_def p by (elim exE conjE)
  have "\<exists>h qs. h \<in> {[x]} \<and> list_all good_name (path_names rel @ h @ qs) \<and> sn_rel_path n = slash_concat (path_names rel @ h @ qs)"
    if "n \<in> set more" for n
  proof -
    from bspec [OF m(3) that] obtain h qs where "list_all good_name ((path_names rel @ [x]) @ h @ qs)"
      "sn_rel_path n = slash_concat ((path_names rel @ [x]) @ h @ qs)"
      by (elim exE conjE)
    then show ?thesis by (intro exI [of _ "[x]"] exI [of _ "h @ qs"]) simp
  qed
  then show ?thesis using m(1,2) unfolding adds_def by (intro exI [of _ more]) blast
qed

lemma listing_distinct:
  assumes "fs_ok fs" "walk_listing fs dir = Some es"
  shows "distinct (map fst es)"
proof -
  obtain names where names: "read_dir fs dir = Some names"
    and es: "es = sort_key (\<lambda>(name, m). (is_link m, name)) (map (\<lambda>name. (name, symlink_metadata fs (path_join dir name))) names)"
    using assms(2) by (auto simp: walk_listing_def)
  obtain d where n: "names = map (last \<circ> fst) (filter (\<lambda>(q, _). q \<noteq> [] \<and> butlast q = d) fs)"
    using names by (auto simp: read_dir_def split: option.splits if_splits)
  let ?es = "filter (\<lambda>(q, _). q \<noteq> [] \<and> butlast q = d) fs"
  have k: "distinct (map fst ?es)" using assms(1) by (simp add: fs_ok_def distinct_map_filter)
  have "inj_on (last \<circ> fst) (set ?es)"
  proof (rule inj_onI)
    fix x y assume xy: "x \<in> set ?es" "y \<in> set ?es" "(last \<circ> fst) x = (last \<circ> fst) y"
    then have "fst x \<noteq> []" "fst y \<noteq> []" "butlast (fst x) = butlast (fst y)" "last (fst x) = last (fst y)" by auto
    then have eq: "fst x = fst y" by (metis append_butlast_last_id)
    have "inj_on fst (set ?es)" using k by (simp only: distinct_map)
    from inj_onD [OF this eq xy(1,2)] show "x = y" .
  qed
  moreover have "distinct ?es" using k by (simp only: distinct_map)
  ultimately have "distinct (map (last \<circ> fst) ?es)" by (simp add: distinct_map)
  moreover have "mset (map fst es) = mset names" by (simp add: es multiset.map_comp comp_def)
  ultimately show ?thesis using n by (metis mset_eq_imp_distinct_iff)
qed

lemma adds_mono: "adds rel A a b \<Longrightarrow> A \<subseteq> B \<Longrightarrow> adds rel B a b"
proof -
  assume "adds rel A a b" "A \<subseteq> B"
  then obtain more where m: "b = a @ more" "distinct (map sn_rel_path more)"
    "\<forall>n \<in> set more. \<exists>h qs. h \<in> A \<and> list_all good_name (path_names rel @ h @ qs) \<and>
       sn_rel_path n = slash_concat (path_names rel @ h @ qs)"
    unfolding adds_def by (elim exE conjE)
  have "\<forall>n \<in> set more. \<exists>h qs. h \<in> B \<and> list_all good_name (path_names rel @ h @ qs) \<and>
       sn_rel_path n = slash_concat (path_names rel @ h @ qs)"
    using m(3) \<open>A \<subseteq> B\<close> by (meson subsetD)
  then show ?thesis using m(1,2) unfolding adds_def by (intro exI [of _ more]) simp
qed

lemma adds_note:
  "list_all good_name (path_names rel) \<Longrightarrow> good_name x \<Longrightarrow> sn_rel_path n = slash_concat (path_names rel @ [x]) \<Longrightarrow>
   adds rel {[x]} old (old @ [n])"
  by (auto simp: adds_def intro!: exI [of _ "[]"])

lemma walk_adds:
  assumes "fs_ok fs"
  shows "at_dir fs root root_real dir dir_real rel \<Longrightarrow>
      adds rel (range (\<lambda>x. [x])) (wc_notes ctx) (wc_notes (walk levels fs root_real max_notes dir dir_real rel ctx))"
    and "at_dir fs root root_real dir dir_real rel \<Longrightarrow> listing_ok fs dir_real es \<Longrightarrow> distinct (map fst es) \<Longrightarrow>
      adds rel ((\<lambda>e. [fst e]) ` set es) (wc_notes ctx)
        (wc_notes (walk_entries levels fs root_real max_notes dir dir_real rel es ctx))"
  using assms
proof (induction levels fs root_real max_notes dir dir_real rel ctx and levels fs root_real max_notes dir dir_real rel es ctx
    rule: walk_walk_entries.induct)
  case (1 levels fs root_real max_notes dir dir_real rel ctx)
  show ?case
  proof (cases "wc_truncated ctx \<or> levels = 0 \<or> walk_listing fs dir = None")
    case True
    then show ?thesis by (auto simp: walk.simps adds_none)
  next
    case False
    then obtain es where es: "walk_listing fs dir = Some es" by auto
    from 1(1) [OF _ es 1(2) walk_listing_ok [OF 1(3,2) es] listing_distinct [OF 1(3) es] 1(3)] False
    show ?thesis by (simp add: walk.simps es adds_mono [where A = "(\<lambda>e. [fst e]) ` set es"] image_subset_iff)
  qed
next
  case (2 levels fs root_real max_notes dir dir_real rel ctx)
  then show ?case by (simp add: adds_none)
next
  case (3 levels fs root_real max_notes dir dir_real rel name em es ctx)
  note at = 3(3) and ok = 3(6)
  have name: "good_name name" "em = fs_get fs (dir_real @ [name])" "listing_ok fs dir_real es"
    using 3(4) by (simp_all add: listing_ok_def)
  let ?A = "(\<lambda>e. [fst e]) ` set ((name, em) # es)" and ?child = "path_join dir name"
  have tail: "(\<lambda>e. [fst e]) ` set es = ?A - {[name]}" using 3(5) by (auto simp: image_iff)
  have skip: "adds rel ?A (wc_notes ctx) (wc_notes (walk_entries levels fs root_real max_notes dir dir_real rel es c))"
    if "adds rel {[name]} (wc_notes ctx) (wc_notes c)" for c
    using adds_trans [OF that 3(1) [OF at name(3) _ ok, of c, unfolded tail]] 3(5) by auto
  have stay: "adds rel {[name]} (wc_notes ctx) (wc_notes ctx)" by (rule adds_none)
  show ?case
  proof (cases "hidden name \<or> em = None \<or> walk_target fs dir_real ?child name (the em) = None")
    case True
    then show ?thesis using skip [OF stay] by (auto simp: walk_entries.simps(2) Let_def split: option.splits)
  next
    case False
    then obtain m real node where m: "\<not> hidden name" "em = Some m" "walk_target fs dir_real ?child name m = Some (real, node)"
      by (cases em; cases "walk_target fs dir_real ?child name (the em)") auto
    have t: "canonicalize fs ?child = Some real" "fs_get fs real = Some node"
      using child_target [OF at name(1) _ m(3)] m(2) name(2) by simp_all
    show ?thesis
    proof (cases "prefix root_real real")
      case False
      then show ?thesis
        using m skip [of "ctx\<lparr>wc_outside := wc_outside ctx + 1\<rparr>"] stay by (simp add: walk_entries.simps(2) Let_def)
    next
      case inside: True
      show ?thesis
      proof (cases node)
        case Dir
        have "adds rel {[name]} (wc_notes ctx) (wc_notes (walk levels fs root_real max_notes ?child real (path_join rel name)
            (ctx\<lparr>wc_visited := real # wc_visited ctx\<rparr>)))" if "real \<notin> set (wc_visited ctx)"
          using adds_child [OF child_path(4) [OF at name(1)]
            3(2) [OF refl refl refl m(1,2,3) refl _ Dir that child_dir [OF at name(1) m(1) t(1) _ inside] ok]] inside t Dir
          by simp
        then show ?thesis using m inside Dir skip stay by (simp add: walk_entries.simps(2) Let_def)
      next
        case (File content mtime mode)
        have g: "list_all good_name (path_names rel)" using at by (auto simp: at_dir_def list_all_iff)
        have "adds rel {[name]} (wc_notes ctx) (wc_notes ctx @ [n])" if "sn_rel_path n = slash_join (path_join rel name)" for n
          using that child_path(4) [OF at name(1)] by (intro adds_note [OF g name(1)]) (simp add: slash_join_def)
        then show ?thesis
          using m inside File skip stay by (simp add: walk_entries.simps(2) Let_def adds_none)
      next
        case (Link t)
        then show ?thesis using m inside skip stay by (simp add: walk_entries.simps(2) Let_def)
      qed
    qed
  qed
qed

lemma scan_distinct:
  assumes "fs_ok fs" "absolute root" "is_dir fs root" "canonicalize fs root = Some root_real"
  shows "distinct (map sn_rel_path (sr_notes (scan_vault_limited fs root max_notes max_depth)))"
proof -
  let ?ctx = "\<lparr>wc_visited = [root_real], wc_notes = [], wc_truncated = False, wc_outside = 0\<rparr>"
  have "distinct (map sn_rel_path (wc_notes (walk (max_depth + 1) fs root_real max_notes root root_real [] ?ctx)))"
    using walk_adds(1) [OF assms(1) at_root [OF assms(3,2,4)], of ?ctx "max_depth + 1" max_notes] by (auto simp: adds_def)
  then show ?thesis
    using assms(4) by (simp add: scan_vault_limited_def Let_def) (metis mset_eq_imp_distinct_iff mset_map mset_sort)
qed

section \<open>Titles\<close>

definition MAX_TITLE_CHARS :: nat where "MAX_TITLE_CHARS = 200"

text \<open>The loop over the lines: what follows a closed block, the flag for the first line.\<close>

fun frontmatter_loop :: "str list \<Rightarrow> bool \<Rightarrow> str option" where
  "frontmatter_loop [] opening = None"
| "frontmatter_loop (line # rest) opening =
     (let text = trim_end (strip_or [LF] line)
      in if opening then (if text \<noteq> ''---'' then None else frontmatter_loop rest False)
         else if text = ''---'' \<or> text = ''...'' then Some (concat rest)
         else frontmatter_loop rest False)"

definition without_frontmatter :: "str \<Rightarrow> str" where
  "without_frontmatter body =
     (case frontmatter_loop (split_inclusive body) True of Some rest \<Rightarrow> rest | None \<Rightarrow> body)"

fun heading_of :: "str list \<Rightarrow> str option" where
  "heading_of [] = None"
| "heading_of (line # rest) =
     (let trimmed = trim_start line
      in case trimmed of
           [] \<Rightarrow> heading_of rest
         | c # cs \<Rightarrow>
             if c = CHR ''#'' \<and> trim (dropWhile (\<lambda>b. b = CHR ''#'') cs) \<noteq> []
             then Some (trim (dropWhile (\<lambda>b. b = CHR ''#'') cs)) else None)"

definition file_stem :: "str \<Rightarrow> str" where
  "file_stem name =
     (let before = rev (tl (dropWhile (\<lambda>b. b \<noteq> CHR ''.'') (rev name)))
      in if CHR ''.'' \<in> set name \<and> before \<noteq> [] then before else name)"

definition note_title :: "str \<Rightarrow> str \<Rightarrow> str" where
  "note_title rel body =
     (case heading_of (str_lines (without_frontmatter body)) of
        Some title \<Rightarrow> take_chars MAX_TITLE_CHARS title
      | None \<Rightarrow> take_chars MAX_TITLE_CHARS
          (case rev (components rel) of Normal name # _ \<Rightarrow> file_stem name | _ \<Rightarrow> rel))"

section \<open>Indexing a vault of files\<close>

definition index_vault :: "(str \<Rightarrow> str) \<Rightarrow> fs \<Rightarrow> str \<Rightarrow> vault_store \<Rightarrow> vault_store \<times> index_outcome" where
  "index_vault lower fs root st =
     index_vault_limited lower (is_dir fs) (read_note fs) note_title
       (scan_vault_limited fs root MAX_NOTES MAX_DEPTH) root st"

lemma collect_rows_readable:
  assumes "list_all (\<lambda>n. read_note' (sn_abs_path n) \<noteq> None) ns"
    and "collect_rows read_note' title root known ns = (rows, added, updated, unreadable)"
  shows "unreadable = 0"
  using assms
proof (induction ns arbitrary: rows added updated unreadable)
  case (Cons n ns)
  obtain rows' added' updated' unreadable' where c: "collect_rows read_note' title root known ns = (rows', added', updated', unreadable')"
    using prod_cases4 by blast
  then have "unreadable' = 0" using Cons by simp
  then show ?case using Cons.prems c by (auto simp: Let_def split: if_splits option.splits)
qed simp

lemma walked_read_note:
  "walked fs root root_real n \<Longrightarrow>
   \<exists>content mtime mode. metadata fs (sn_abs_path n) = Some (File content mtime mode) \<and>
     read_note fs (sn_abs_path n) = Some (read_file_capped content)"
  by (auto simp: walked_def read_note_def metadata_def)



end
