(* ===== verification/Vault_Rename.thy ===== *)
theory Vault_Rename
  imports Vault_Walk
begin

text \<open>
  The reference update after a rename (\<open>rewrite_links\<close> in \<open>crates/gpty-core/src/vault.rs\<close>): the
  mentions that resolved to the note under its old name are respelled in every note, by the
  preview only counted.  The environment of the write to the note at position \<open>k\<close> of the walk is
  \<open>E k\<close>.
\<close>

section \<open>One body\<close>

definition unspellable :: "str \<Rightarrow> note_error" where
  "unspellable new_rel = Bad_Path (new_rel @ '': its name cannot be written as a [[link]] target'')"

text \<open>The loop over the links of a body: the text so far, the position copied up to and the number
  of mentions respelled.\<close>

fun respell_loop :: "(str \<Rightarrow> str) \<Rightarrow> note_index \<Rightarrow> str \<Rightarrow> str \<Rightarrow> str \<Rightarrow> link list \<Rightarrow> str option \<Rightarrow> nat \<Rightarrow> nat
    \<Rightarrow> note_error + str option \<times> nat \<times> nat" where
  "respell_loop lower ix old_rel new_rel body [] out cursor mentions = Inr (out, cursor, mentions)"
| "respell_loop lower ix old_rel new_rel body (l # ls) out cursor mentions =
     (if resolve lower ix (lk_target l) \<noteq> Resolved old_rel
      then respell_loop lower ix old_rel new_rel body ls out cursor mentions
      else (case retarget (lk_target l) new_rel of
          None \<Rightarrow> Inl (unspellable new_rel)
        | Some spelled \<Rightarrow>
            if spelled = lk_target l
            then respell_loop lower ix old_rel new_rel body ls out cursor mentions
            else (let target_start = lk_start l + 2
                  in respell_loop lower ix old_rel new_rel body ls
                       (Some ((case out of Some text \<Rightarrow> text | None \<Rightarrow> []) @ take (target_start - cursor) (drop cursor body) @ spelled))
                       (target_start + length (lk_target l)) (mentions + 1))))"

text \<open>The new body and its number of mentions, if it changes.\<close>

definition respell_body :: "(str \<Rightarrow> str) \<Rightarrow> note_index \<Rightarrow> str \<Rightarrow> str \<Rightarrow> str
    \<Rightarrow> note_error + (str \<times> nat) option" where
  "respell_body lower ix old_rel new_rel body =
     (case respell_loop lower ix old_rel new_rel body (parse_links body) None 0 0 of
        Inl e \<Rightarrow> Inl e
      | Inr (None, _, _) \<Rightarrow> Inr None
      | Inr (Some text, cursor, mentions) \<Rightarrow> Inr (Some (text @ drop cursor body, mentions)))"

section \<open>The pass\<close>

record renamed_rewrite =
  rr_text :: str
  rr_crlf :: bool
  rr_stamp :: note_stamp

record rewrite_result =
  rw_files :: nat
  rw_mentions :: nat
  rw_skipped :: nat
  rw_truncated :: bool
  rw_renamed :: "renamed_rewrite option"

text \<open>What happens to a changed body: skipped when it was cut at the cap, counted in a preview,
  otherwise written if the file can still be stamped.\<close>

definition rewrite_changed :: "note_env \<Rightarrow> bool \<Rightarrow> str \<Rightarrow> str \<Rightarrow> scanned_note \<Rightarrow> str \<Rightarrow> nat \<Rightarrow> bool
    \<Rightarrow> fs \<Rightarrow> rewrite_result \<Rightarrow> fs \<times> rewrite_result" where
  "rewrite_changed E doit root new_rel n text mentions body_cut fs res =
     (if body_cut then (fs, res\<lparr>rw_skipped := rw_skipped res + 1\<rparr>)
      else if \<not> doit
      then (fs, res\<lparr>rw_files := rw_files res + 1, rw_mentions := rw_mentions res + mentions\<rparr>)
      else (case metadata fs (sn_abs_path n) of
          None \<Rightarrow> (fs, res\<lparr>rw_skipped := rw_skipped res + 1\<rparr>)
        | Some node \<Rightarrow>
            (let stamp = (case node of File c m _ \<Rightarrow> stamp_of c m | _ \<Rightarrow> \<lparr>st_mtime = 0, st_size = 0\<rparr>)
             in case write_vault_note E fs root (sn_rel_path n) text (Some stamp) of
                  (fs', Inr st) \<Rightarrow>
                    (fs', res\<lparr>rw_files := rw_files res + 1, rw_mentions := rw_mentions res + mentions,
                       rw_renamed := (if sn_rel_path n = new_rel
                         then Some \<lparr>rr_text = text, rr_crlf = contains_crlf text, rr_stamp = st\<rparr>
                         else rw_renamed res)\<rparr>)
                | (fs', Inl _) \<Rightarrow> (fs', res\<lparr>rw_skipped := rw_skipped res + 1\<rparr>))))"

fun rewrite_notes :: "(nat \<Rightarrow> note_env) \<Rightarrow> (str \<Rightarrow> str) \<Rightarrow> note_index \<Rightarrow> bool \<Rightarrow> bool \<Rightarrow> str \<Rightarrow> str \<Rightarrow> str \<Rightarrow> nat
    \<Rightarrow> scanned_note list \<Rightarrow> fs \<Rightarrow> rewrite_result \<Rightarrow> fs \<times> (note_error + rewrite_result)" where
  "rewrite_notes E lower ix doit include_renamed root old_rel new_rel k [] fs res = (fs, Inr res)"
| "rewrite_notes E lower ix doit include_renamed root old_rel new_rel k (n # ns) fs res =
     (if sn_rel_path n = new_rel \<and> \<not> include_renamed
      then rewrite_notes E lower ix doit include_renamed root old_rel new_rel (k + 1) ns fs res
      else (case read_note fs (sn_abs_path n) of
          None \<Rightarrow> rewrite_notes E lower ix doit include_renamed root old_rel new_rel (k + 1) ns fs res
        | Some (body, body_cut) \<Rightarrow>
            (case respell_body lower ix old_rel new_rel body of
               Inl e \<Rightarrow> (fs, Inl e)
             | Inr None \<Rightarrow> rewrite_notes E lower ix doit include_renamed root old_rel new_rel (k + 1) ns fs res
             | Inr (Some (text, mentions)) \<Rightarrow>
                 (case rewrite_changed (E k) doit root new_rel n text mentions body_cut fs res of
                    (fs', res') \<Rightarrow>
                      rewrite_notes E lower ix doit include_renamed root old_rel new_rel (k + 1) ns fs' res'))))"

definition rewrite_links :: "(nat \<Rightarrow> note_env) \<Rightarrow> (str \<Rightarrow> str) \<Rightarrow> fs \<Rightarrow> str \<Rightarrow> str \<Rightarrow> str \<Rightarrow> bool \<Rightarrow> bool
    \<Rightarrow> fs \<times> (note_error + rewrite_result)" where
  "rewrite_links E lower fs root old_rel new_rel doit include_renamed =
     (if \<not> absolute root \<or> \<not> is_dir fs root then (fs, Inl (Bad_Vault root))
      else (case note_path fs root old_rel of
          Inl e \<Rightarrow> (fs, Inl e)
        | Inr _ \<Rightarrow>
            (case note_path fs root new_rel of
               Inl e \<Rightarrow> (fs, Inl e)
             | Inr _ \<Rightarrow>
                 if retarget ''note'' new_rel = None then (fs, Inl (unspellable new_rel))
                 else (let scan = scan_vault fs root; paths = map sn_rel_path (sr_notes scan)
                       in if old_rel \<in> set paths then (fs, Inl Note_Exists)
                          else if new_rel \<notin> set paths then (fs, Inl Note_Not_Found)
                          else rewrite_notes E lower
                                 (index_new lower (map (\<lambda>p. if p = new_rel then old_rel else p) paths))
                                 doit include_renamed root old_rel new_rel 0 (sr_notes scan) fs
                                 \<lparr>rw_files = 0, rw_mentions = 0, rw_skipped = 0,
                                  rw_truncated = sr_truncated scan, rw_renamed = None\<rparr>))))"

definition preview_link_rewrite :: "(nat \<Rightarrow> note_env) \<Rightarrow> (str \<Rightarrow> str) \<Rightarrow> fs \<Rightarrow> str \<Rightarrow> str \<Rightarrow> str \<Rightarrow> bool
    \<Rightarrow> fs \<times> (note_error + rewrite_result)" where
  "preview_link_rewrite E lower fs root old_rel new_rel include_renamed =
     rewrite_links E lower fs root old_rel new_rel False include_renamed"

definition rewrite_links_after_rename :: "(nat \<Rightarrow> note_env) \<Rightarrow> (str \<Rightarrow> str) \<Rightarrow> fs \<Rightarrow> str \<Rightarrow> str \<Rightarrow> str \<Rightarrow> bool
    \<Rightarrow> fs \<times> (note_error + rewrite_result)" where
  "rewrite_links_after_rename E lower fs root old_rel new_rel include_renamed =
     rewrite_links E lower fs root old_rel new_rel True include_renamed"

section \<open>What the loop computes\<close>

text \<open>Replacing spans of a text: \<open>(start, length, replacement)\<close>, in order.\<close>

fun splice_edits :: "str \<Rightarrow> nat \<Rightarrow> (nat \<times> nat \<times> str) list \<Rightarrow> str" where
  "splice_edits body pos [] = drop pos body"
| "splice_edits body pos ((start, len, new) # es) =
     take (start - pos) (drop pos body) @ new @ splice_edits body (start + len) es"

text \<open>The mentions to respell: those that resolved to the old name and are spelled differently now.\<close>

definition edit_of :: "(str \<Rightarrow> str) \<Rightarrow> note_index \<Rightarrow> str \<Rightarrow> str \<Rightarrow> link \<Rightarrow> (nat \<times> nat \<times> str) option" where
  "edit_of lower ix old_rel new_rel l =
     (if resolve lower ix (lk_target l) = Resolved old_rel then
        (case retarget (lk_target l) new_rel of
           Some spelled \<Rightarrow> if spelled = lk_target l then None
             else Some (lk_start l + 2, length (lk_target l), spelled)
         | None \<Rightarrow> None)
      else None)"

definition edits :: "(str \<Rightarrow> str) \<Rightarrow> note_index \<Rightarrow> str \<Rightarrow> str \<Rightarrow> link list \<Rightarrow> (nat \<times> nat \<times> str) list" where
  "edits lower ix old_rel new_rel ls = List.map_filter (edit_of lower ix old_rel new_rel) ls"

definition spellable :: "(str \<Rightarrow> str) \<Rightarrow> note_index \<Rightarrow> str \<Rightarrow> str \<Rightarrow> link list \<Rightarrow> bool" where
  "spellable lower ix old_rel new_rel ls =
     list_all (\<lambda>l. resolve lower ix (lk_target l) = Resolved old_rel \<longrightarrow> retarget (lk_target l) new_rel \<noteq> None) ls"

lemma edits_simps [simp]:
  "edits lower ix old_rel new_rel [] = []"
  "edits lower ix old_rel new_rel (l # ls) =
     (case edit_of lower ix old_rel new_rel l of Some e \<Rightarrow> e # edits lower ix old_rel new_rel ls
      | None \<Rightarrow> edits lower ix old_rel new_rel ls)"
  by (simp_all add: edits_def List.map_filter_simps split: option.splits)

lemma respell_loop_fails:
  "\<not> spellable lower ix old_rel new_rel ls \<Longrightarrow>
   respell_loop lower ix old_rel new_rel body ls out cursor mentions = Inl (unspellable new_rel)"
  by (induction ls arbitrary: out cursor mentions) (auto simp: spellable_def Let_def split: option.splits)

lemma respell_loop_skip:
  "edit_of lower ix old_rel new_rel l = None \<Longrightarrow> spellable lower ix old_rel new_rel (l # ls) \<Longrightarrow>
   respell_loop lower ix old_rel new_rel body (l # ls) out cursor mentions =
   respell_loop lower ix old_rel new_rel body ls out cursor mentions"
  by (auto simp: edit_of_def spellable_def split: if_splits option.splits)

lemma respell_loop_none:
  "spellable lower ix old_rel new_rel ls \<Longrightarrow> edits lower ix old_rel new_rel ls = [] \<Longrightarrow>
   respell_loop lower ix old_rel new_rel body ls out cursor mentions = Inr (out, cursor, mentions)"
proof (induction ls)
  case (Cons l ls)
  then have "edit_of lower ix old_rel new_rel l = None" by (auto split: option.splits)
  then show ?case
    using Cons respell_loop_skip [of lower ix old_rel new_rel l ls body out cursor mentions]
    by (simp del: respell_loop.simps add: spellable_def)
qed simp

lemma respell_loop_splice:
  "spellable lower ix old_rel new_rel ls \<Longrightarrow> edits lower ix old_rel new_rel ls \<noteq> [] \<Longrightarrow>
   \<exists>text cursor'. respell_loop lower ix old_rel new_rel body ls out cursor mentions =
       Inr (Some text, cursor', mentions + length (edits lower ix old_rel new_rel ls)) \<and>
     text @ drop cursor' body =
       (case out of Some t \<Rightarrow> t | None \<Rightarrow> []) @ splice_edits body cursor (edits lower ix old_rel new_rel ls)"
proof (induction ls arbitrary: out cursor mentions)
  case (Cons l ls)
  have sp: "spellable lower ix old_rel new_rel ls" using Cons(2) by (simp add: spellable_def)
  show ?case
  proof (cases "edit_of lower ix old_rel new_rel l")
    case None
    then show ?thesis
      using Cons(1) [OF sp] Cons(3) unfolding respell_loop_skip [OF None Cons(2)] by simp
  next
    case (Some e)
    then obtain spelled where e: "e = (lk_start l + 2, length (lk_target l), spelled)"
      "resolve lower ix (lk_target l) = Resolved old_rel" "retarget (lk_target l) new_rel = Some spelled" "spelled \<noteq> lk_target l"
      by (auto simp: edit_of_def split: if_splits option.splits)
    let ?out = "Some ((case out of Some t \<Rightarrow> t | None \<Rightarrow> []) @ take (lk_start l + 2 - cursor) (drop cursor body) @ spelled)"
    let ?cursor = "lk_start l + 2 + length (lk_target l)"
    have step: "respell_loop lower ix old_rel new_rel body (l # ls) out cursor mentions =
        respell_loop lower ix old_rel new_rel body ls ?out ?cursor (mentions + 1)"
      using e by (simp add: Let_def)
    show ?thesis
    proof (cases "edits lower ix old_rel new_rel ls = []")
      case True
      then show ?thesis unfolding step using respell_loop_none [OF sp True] Some e(1) by simp
    next
      case False
      from Cons(1) [OF sp False, of ?out ?cursor "mentions + 1"] show ?thesis unfolding step using Some e(1) by auto
    qed
  qed
qed simp

lemma link_from_target: "link_from content number n = Some l \<Longrightarrow> prefix (lk_target l) content"
  by (auto simp: link_from_def Let_def split_once_Some split: option.splits prod.splits if_splits)

lemma target_span:
  assumes "link_at body l"
  shows "take (length (lk_target l)) (drop (lk_start l + 2) body) = lk_target l"
    "lk_start l + 2 + length (lk_target l) \<le> lk_end l"
proof -
  let ?content = "take (lk_end l - lk_start l - 4) (drop (lk_start l + 2) body)"
  have "prefix (lk_target (l\<lparr>lk_start := 0, lk_end := 0\<rparr>)) ?content"
    using assms by (intro link_from_target) (auto simp: link_at_def Let_def)
  then have p: "prefix (lk_target l) ?content" by simp
  then obtain r where r: "?content = lk_target l @ r" by (auto simp: prefix_def)
  then have len: "length (lk_target l) \<le> lk_end l - lk_start l - 4"
    by (metis length_append length_take min.bounded_iff nat_le_iff_add)
  have "take (length (lk_target l)) ?content = lk_target l" using r by simp
  then show "take (length (lk_target l)) (drop (lk_start l + 2) body) = lk_target l"
    using len by (simp add: min_absorb1)
  have "lk_start l + 4 \<le> lk_end l" using assms by (simp add: link_at_def)
  then show "lk_start l + 2 + length (lk_target l) \<le> lk_end l" using len by linarith
qed

text \<open>Edits that replace targets, in order and without overlap.\<close>

fun edits_fit :: "str \<Rightarrow> nat \<Rightarrow> (nat \<times> nat \<times> str) list \<Rightarrow> bool" where
  "edits_fit body pos [] = True"
| "edits_fit body pos ((start, len, new) # es) \<longleftrightarrow>
     pos \<le> start \<and> start + len \<le> length body \<and> edits_fit body (start + len) es"

lemma edits_fit_mono: "edits_fit body pos es \<Longrightarrow> pos' \<le> pos \<Longrightarrow> edits_fit body pos' es"
  by (cases es) auto

lemma chain_edits_fit: "chain body n pos ls \<Longrightarrow> edits_fit body pos (edits lower ix old_rel new_rel ls)"
proof (induction ls arbitrary: n pos)
  case (Cons l ls)
  then have l: "pos \<le> lk_start l" "link_at body l" "chain body (n + 1) (lk_end l) ls" by simp_all
  note span = target_span [OF l(2)] and ih = Cons(1) [OF l(3)]
  have e: "lk_end l \<le> length body" "lk_start l \<le> lk_end l" using l(2) by (simp_all add: link_at_def)
  show ?case
    using l span e edits_fit_mono [OF ih, of "lk_start l + 2 + length (lk_target l)"] edits_fit_mono [OF ih, of pos]
    by (auto simp: edit_of_def split: option.splits)
qed simp

lemma chain_edits_new:
  "chain body n pos ls \<Longrightarrow>
   list_all (\<lambda>(start, len, new). take len (drop start body) \<noteq> new) (edits lower ix old_rel new_rel ls)"
proof (induction ls arbitrary: n pos)
  case (Cons l ls)
  have "link_at body l" "list_all (\<lambda>(start, len, new). take len (drop start body) \<noteq> new) (edits lower ix old_rel new_rel ls)"
    using Cons(2) Cons(1) [of "n + 1" "lk_end l"] by simp_all
  then show ?case using target_span(1) [of body l] by (auto simp: edit_of_def split: option.splits)
qed simp

section \<open>Properties\<close>

text \<open>C19: Respelling is an exact edit of the body.  It fails only for a mention of the renamed note
  that the new name cannot be spelled for, it changes nothing when no mention needs it, and
  otherwise the new body is the old one with exactly the targets of those mentions replaced,
  in order, every other byte kept; the number of mentions counts the replacements.\<close>

theorem respell_is_an_exact_edit:
  "case respell_body lower ix old_rel new_rel body of
     Inl e \<Rightarrow> e = unspellable new_rel \<and> \<not> spellable lower ix old_rel new_rel (parse_links body)
   | Inr None \<Rightarrow> edits lower ix old_rel new_rel (parse_links body) = []
   | Inr (Some (text, mentions)) \<Rightarrow>
       (let es = edits lower ix old_rel new_rel (parse_links body)
        in edits_fit body 0 es \<and> list_all (\<lambda>(start, len, new). take len (drop start body) \<noteq> new) es \<and>
           text = splice_edits body 0 es \<and> mentions = length es \<and> 0 < mentions)"
proof -
  have fit: "edits_fit body 0 (edits lower ix old_rel new_rel (parse_links body))"
    and new: "list_all (\<lambda>(start, len, new). take len (drop start body) \<noteq> new) (edits lower ix old_rel new_rel (parse_links body))"
    by (rule chain_edits_fit [OF parse_links_chain], rule chain_edits_new [OF parse_links_chain])
  show ?thesis
  proof (cases "spellable lower ix old_rel new_rel (parse_links body)")
    case False
    then show ?thesis using respell_loop_fails [OF False] by (simp add: respell_body_def)
  next
    case sp: True
    show ?thesis
    proof (cases "edits lower ix old_rel new_rel (parse_links body) = []")
      case True
      then show ?thesis using respell_loop_none [OF sp] by (simp add: respell_body_def)
    next
      case False
      from respell_loop_splice [OF sp False, of body None 0 0] show ?thesis
        using False fit new by (auto simp: respell_body_def Let_def)
    qed
  qed
qed

lemma no_tmp_iff: "no_tmp E fs \<longleftrightarrow> (\<forall>d. fs_get fs (tmp_path E (d @ [x :: str])) = None)"
proof
  assume "no_tmp E fs"
  then show "\<forall>d. fs_get fs (tmp_path E (d @ [x])) = None" using no_tmp_get by blast
next
  assume none: "\<forall>d. fs_get fs (tmp_path E (d @ [x])) = None"
  have "last p \<noteq> ''.gpty-note-'' @ ne_suffix E @ ''.tmp''" if "(p, n) \<in> set fs" "p \<noteq> []" for p n
  proof
    assume "last p = ''.gpty-note-'' @ ne_suffix E @ ''.tmp''"
    then have "p = tmp_path E (butlast p @ [x])" using that(2) append_butlast_last_id [of p] by (simp add: tmp_path_def)
    then have "fs_get fs p = None" using none by metis
    then show False using that by (auto simp: fs_get_def map_of_eq_None_iff image_iff split: if_splits)
  qed
  then show "no_tmp E fs" by (fastforce simp: no_tmp_def list_all_iff)
qed

lemma same_kind_None: "same_kind x y \<Longrightarrow> x = None \<longleftrightarrow> y = None"
  by (cases "(x, y)" rule: same_kind.cases) auto

lemma no_tmp_cong: "no_tmp E fs \<Longrightarrow> same_shape fs fs' \<Longrightarrow> no_tmp E fs'"
  unfolding no_tmp_iff [of _ _ "[]"] same_shape_def by (metis same_kind_None)

text \<open>What the pass may do to the file system: only files under \<open>rr\<close> change, and of a file only its
  text and time.\<close>

definition rewritten :: "path \<Rightarrow> fs \<Rightarrow> fs \<Rightarrow> bool" where
  "rewritten rr fs fs' \<longleftrightarrow> (\<forall>p. fs_get fs' p = fs_get fs p \<or>
     prefix rr p \<and> (\<exists>c t c' t' mode. fs_get fs p = Some (File c t mode) \<and> fs_get fs' p = Some (File c' t' mode)))"

lemma rewritten_refl [simp]: "rewritten rr fs fs" by (simp add: rewritten_def)

lemma rewritten_trans: "rewritten rr fs fs' \<Longrightarrow> rewritten rr fs' fs'' \<Longrightarrow> rewritten rr fs fs''"
  unfolding rewritten_def by (smt (verit, ccfv_threshold) fnode.inject(1) option.inject)

lemma rewritten_same_shape: "rewritten rr fs fs' \<Longrightarrow> same_shape fs fs'"
  unfolding rewritten_def same_shape_def by (metis same_kind_refl same_kind.simps(1))

lemma rewrite_changed_rewritten:
  assumes "no_tmp E fs" "canonicalize fs root = Some rr" "rewrite_changed E doit root new_rel n text mentions body_cut fs res = (fs', res')"
  shows "rewritten rr fs fs'"
proof (cases "fs' = fs")
  case False
  then obtain expected r where w: "write_vault_note E fs root (sn_rel_path n) text expected = (fs', r)"
    using assms(3) by (auto simp: rewrite_changed_def Let_def split: if_splits option.splits prod.splits sum.splits)
  show ?thesis
  proof (cases r)
    case (Inl e)
    then have "fs_get fs' = fs_get fs" using write_vault_note_spec [OF assms(1) w] by simp
    then show ?thesis by (simp add: rewritten_def)
  next
    case (Inr st)
    then show ?thesis
      using write_vault_note_spec [OF assms(1) w] assms(2) by (auto simp: rewritten_def split: if_splits)
  qed
qed simp

lemma rewrite_notes_rewritten:
  assumes "\<And>k. no_tmp (E k) fs" "canonicalize fs root = Some rr"
    "rewrite_notes E lower ix doit include_renamed root old_rel new_rel k ns fs res = (fs', r)"
  shows "rewritten rr fs fs'"
  using assms
proof (induction ns arbitrary: k fs res)
  case (Cons n ns)
  let ?skip = "rewrite_notes E lower ix doit include_renamed root old_rel new_rel (k + 1) ns fs res = (fs', r)"
  show ?case
  proof (cases "?skip \<or> fs' = fs")
    case True
    then show ?thesis using Cons(1) [OF Cons(2,3)] by auto
  next
    case False
    then obtain new mentions body_cut fs1 res1 where
      c: "rewrite_changed (E k) doit root new_rel n new mentions body_cut fs res = (fs1, res1)"
      and rest: "rewrite_notes E lower ix doit include_renamed root old_rel new_rel (k + 1) ns fs1 res1 = (fs', r)"
      using Cons(4) by (auto split: if_splits option.splits prod.splits sum.splits)
    have one: "rewritten rr fs fs1" by (rule rewrite_changed_rewritten [OF Cons(2,3) c])
    note shape = rewritten_same_shape [OF one]
    have "rewritten rr fs1 fs'"
      by (rule Cons(1) [OF _ _ rest]) (use no_tmp_cong [OF Cons(2) shape] canonicalize_cong [OF shape] Cons(3) in auto)
    with one show ?thesis by (rule rewritten_trans)
  qed
qed simp

text \<open>The reference update never leaves the vault and never adds, removes or changes the kind or
  mode of anything: whatever it answers, an entry that differs afterwards is a file inside the
  vault, and a file still, with the mode it had.\<close>

theorem rewrite_pass_stays_inside:
  assumes "\<And>k. no_tmp (E k) fs" "canonicalize fs root = Some rr"
    "rewrite_links E lower fs root old_rel new_rel doit include_renamed = (fs', r)"
  shows "fs_get fs' p = fs_get fs p \<or>
    prefix rr p \<and> (\<exists>c t c' t' mode. fs_get fs p = Some (File c t mode) \<and> fs_get fs' p = Some (File c' t' mode))"
proof -
  have "rewritten rr fs fs'"
    using assms(3) rewrite_notes_rewritten [OF assms(1,2)]
    by (auto simp: rewrite_links_def Let_def split: if_splits sum.splits)
  then show ?thesis by (simp add: rewritten_def)
qed

text \<open>A vault after the note \<open>x/old.md\<close> was moved to \<open>y/new.md\<close>, and one after it was moved to a
  directory whose name has a \<open>#\<close>.\<close>

definition moved_fs :: "str \<Rightarrow> fs" where
  "moved_fs dir = [([''v''], Dir), ([''v'', ''a.md''], File (''See [[old]]'' @ [LF]) 5000 420),
     ([''v'', ''b.md''], File (''[[x/old|it]]'' @ [LF]) 5000 420), ([''v'', dir], Dir),
     ([''v'', dir, ''new.md''], File [] 5000 420)]"

definition pass_env :: "nat \<Rightarrow> note_env" where "pass_env k = demo_env"

lemma moved_run:
  "fs_get (fst (rewrite_links pass_env id (moved_fs ''y'') ''/v'' ''x/old.md'' ''y/new.md'' True False)) [''v'', ''b.md''] =
     Some (File (''[[y/new|it]]'' @ [LF]) 7000 420)"
  by code_simp

theorem rewrite_pass_stays_inside_witness:
  "fs_get (fst (rewrite_links pass_env id (moved_fs ''y'') ''/v'' ''x/old.md'' ''y/new.md'' True False)) [''v'', ''b.md''] =
     Some (File (''[[y/new|it]]'' @ [LF]) 7000 420) \<and> prefix [''v''] [''v'', ''b.md'']"
proof -
  have "no_tmp (pass_env k) (moved_fs ''y'')" for k unfolding pass_env_def by code_simp
  moreover have "canonicalize (moved_fs ''y'') ''/v'' = Some [''v'']"
    "fs_get (moved_fs ''y'') [''v'', ''b.md''] = Some (File (''[[x/old|it]]'' @ [LF]) 5000 420)" by code_simp+
  ultimately show ?thesis
    using rewrite_pass_stays_inside [OF _ _ prod.collapse [symmetric], of pass_env "moved_fs ''y''" "''/v''" "[''v'']"
      id "''x/old.md''" "''y/new.md''" True False "[''v'', ''b.md'']"]
    by (auto simp: moved_run)
qed

text \<open>A new name that cannot be written as a link target does not refuse the whole pass.  The
  check beforehand tries only a bare target, which needs the stem; a mention spelled as a path
  needs the directory too, and when that cannot be spelled the pass stops where it meets the
  mention, answers the refusal, and leaves the notes it had rewritten before.\<close>

theorem refused_pass_leaves_rewritten_notes:
  "snd (rewrite_links_after_rename pass_env id (moved_fs ''y#z'') ''/v'' ''x/old.md'' ''y#z/new.md'' False) =
     Inl (unspellable ''y#z/new.md'') \<and>
   fs_get (moved_fs ''y#z'') [''v'', ''a.md''] = Some (File (''See [[old]]'' @ [LF]) 5000 420) \<and>
   fs_get (fst (rewrite_links_after_rename pass_env id (moved_fs ''y#z'') ''/v'' ''x/old.md'' ''y#z/new.md'' False))
     [''v'', ''a.md''] = Some (File (''See [[new]]'' @ [LF]) 7000 420)"
  by code_simp

definition accent_fs :: fs where
  "accent_fs = [([''v''], Dir), ([''v'', ''a.md''], File (''[[old]] caf'' @ [CHR 0xC3, CHR 0xA9]) 5000 420),
     ([''v'', ''new.md''], File [] 5000 420)]"

text \<open>The pass does not keep every other byte of a note.  A body is written back as it was read,
  and a complete final character of several bytes reads as a replacement character, so a note
  that ends in one loses it when a mention in it is respelled.\<close>

theorem rewrite_replaces_final_character:
  "map_option rw_skipped (case snd (rewrite_links_after_rename pass_env id accent_fs ''/v'' ''old.md'' ''new.md'' False) of
     Inl _ \<Rightarrow> None | Inr res \<Rightarrow> Some res) = Some 0 \<and>
   fs_get (fst (rewrite_links_after_rename pass_env id accent_fs ''/v'' ''old.md'' ''new.md'' False)) [''v'', ''a.md''] =
     Some (File (''[[new]] caf'' @ [CHR 0xEF, CHR 0xBF, CHR 0xBD]) 7000 420)"
  by code_simp

section \<open>Preview and apply\<close>

lemma preview_writes_nothing: "fst (preview_link_rewrite E lower fs root old_rel new_rel include_renamed) = fs"
proof -
  have "fst (rewrite_notes E lower ix False include_renamed root old_rel new_rel k ns fs res) = fs" for ix k ns res
    by (induction ns arbitrary: k res) (auto simp: rewrite_changed_def split: option.splits sum.splits prod.splits)
  then show ?thesis by (auto simp: preview_link_rewrite_def rewrite_links_def Let_def split: sum.splits)
qed

text \<open>The same answer as to what is refused and how many notes need a change.\<close>

fun same_candidates :: "note_error + rewrite_result \<Rightarrow> note_error + rewrite_result \<Rightarrow> bool" where
  "same_candidates (Inl e) (Inl e') \<longleftrightarrow> e = e'"
| "same_candidates (Inr a) (Inr b) \<longleftrightarrow>
     rw_files a + rw_skipped a = rw_files b + rw_skipped b \<and> rw_truncated a = rw_truncated b"
| "same_candidates _ _ \<longleftrightarrow> False"

lemma rewrite_changed_counts:
  "rewrite_changed E doit root new_rel n text mentions body_cut fs res = (fs', res') \<Longrightarrow>
   rw_files res' + rw_skipped res' = rw_files res + rw_skipped res + 1 \<and> rw_truncated res' = rw_truncated res"
  by (auto simp: rewrite_changed_def Let_def split: if_splits option.splits prod.splits sum.splits)

text \<open>Notes read as in \<open>fs\<close> whose files are all different.\<close>

definition apart :: "fs \<Rightarrow> str \<Rightarrow> fs \<Rightarrow> scanned_note list \<Rightarrow> bool" where
  "apart fs root fs1 ns \<longleftrightarrow> distinct (map (canonicalize fs1 \<circ> sn_abs_path) ns) \<and>
     list_all (\<lambda>n. canonicalize fs1 (path_join root (sn_rel_path n)) = canonicalize fs1 (sn_abs_path n) \<and>
       read_note fs1 (sn_abs_path n) = read_note fs (sn_abs_path n)) ns"

lemma apart_step:
  assumes "no_tmp E fs1" "apart fs root fs1 (n # ns)"
    "rewrite_changed E doit root new_rel n text mentions body_cut fs1 res = (fs2, res2)"
  shows "apart fs root fs2 ns \<and> same_shape fs1 fs2"
proof (cases "fs_get fs2 = fs_get fs1")
  case True
  then have "same_shape fs1 fs2" by (simp add: same_shape_def)
  then show ?thesis
    using assms(2) True canonicalize_cong [of fs1 fs2]
    by (simp add: apart_def read_note_def metadata_def comp_def)
next
  case False
  then obtain expected r where w: "write_vault_note E fs1 root (sn_rel_path n) text expected = (fs2, r)"
    using assms(3) by (auto simp: rewrite_changed_def Let_def split: if_splits option.splits prod.splits sum.splits)
  obtain st where r: "r = Inr st" using False write_vault_note_spec [OF assms(1) w] by (cases r) auto
  then obtain real old mtime mode where real: "canonicalize fs1 (path_join root (sn_rel_path n)) = Some real"
    "fs_get fs1 real = Some (File old mtime mode)" "fs_get fs2 = (fs_get fs1)(real \<mapsto> File text (ne_now E) mode)"
    using write_vault_note_spec [OF assms(1) w] by auto
  have shape: "same_shape fs1 fs2" using real by (simp add: same_shape_def)
  have "canonicalize fs1 (sn_abs_path n') \<noteq> Some real" if "n' \<in> set ns" for n'
    using assms(2) that real(1) by (fastforce simp: apart_def image_iff)
  then have "read_note fs2 (sn_abs_path n') = read_note fs1 (sn_abs_path n')" if "n' \<in> set ns" for n'
    using that real(3) canonicalize_cong [OF shape]
    by (auto simp: read_note_def metadata_def split: Option.bind_split)
  then show ?thesis
    using assms(2) shape canonicalize_cong [OF shape] by (simp add: apart_def list_all_iff comp_def)
qed

lemma rewrite_notes_agree:
  assumes "\<And>k. no_tmp (E k) fs1" "apart fs root fs1 ns"
    "rw_files a + rw_skipped a = rw_files b + rw_skipped b" "rw_truncated a = rw_truncated b"
  shows "same_candidates (snd (rewrite_notes E lower ix True include_renamed root old_rel new_rel k ns fs1 a))
    (snd (rewrite_notes E' lower ix False include_renamed root old_rel new_rel k' ns fs b))"
  using assms
proof (induction ns arbitrary: k k' fs1 a b)
  case (Cons n ns)
  have read: "read_note fs1 (sn_abs_path n) = read_note fs (sn_abs_path n)" and rest: "apart fs root fs1 ns"
    using Cons(3) by (simp_all add: apart_def)
  note skip = Cons(1) [OF Cons(2) rest Cons(4,5)]
  show ?case
  proof (cases "sn_rel_path n = new_rel \<and> \<not> include_renamed \<or> read_note fs (sn_abs_path n) = None")
    case True
    then show ?thesis using skip read by auto
  next
    case False
    then obtain body body_cut where b: "read_note fs (sn_abs_path n) = Some (body, body_cut)"
      and cand: "(sn_rel_path n = new_rel \<and> \<not> include_renamed) = False" by auto
    have read1: "read_note fs1 (sn_abs_path n) = Some (body, body_cut)" using read b by simp
    show ?thesis
    proof (cases "respell_body lower ix old_rel new_rel body")
      case (Inl e)
      then show ?thesis unfolding rewrite_notes.simps cand b read1 by simp
    next
      case (Inr o')
      show ?thesis
      proof (cases o')
        case None
        then show ?thesis unfolding rewrite_notes.simps cand b read1 using Inr skip by simp
      next
        case (Some p)
        obtain new mentions where p: "p = (new, mentions)" by (cases p)
        obtain fs2 a2 where c: "rewrite_changed (E k) True root new_rel n new mentions body_cut fs1 a = (fs2, a2)"
          by (cases "rewrite_changed (E k) True root new_rel n new mentions body_cut fs1 a")
        obtain fs3 b2 where d: "rewrite_changed (E' k') False root new_rel n new mentions body_cut fs b = (fs3, b2)"
          by (cases "rewrite_changed (E' k') False root new_rel n new mentions body_cut fs b")
        have same: "fs3 = fs" using d by (auto simp: rewrite_changed_def split: if_splits)
        note step = apart_step [OF Cons(2,3) c]
        have "same_candidates (snd (rewrite_notes E lower ix True include_renamed root old_rel new_rel (k + 1) ns fs2 a2))
          (snd (rewrite_notes E' lower ix False include_renamed root old_rel new_rel (k' + 1) ns fs b2))"
          by (rule Cons(1)) (use step no_tmp_cong [OF Cons(2)] rewrite_changed_counts [OF c] rewrite_changed_counts [OF d]
            Cons(4,5) in auto)
        then show ?thesis unfolding rewrite_notes.simps cand b read1 using Inr Some p c d same by simp
      qed
    qed
  qed
qed simp

text \<open>The preview and the apply agree on the candidates: on the same vault, as long as no file is
  listed under two names, both refuse with the same error or both count the same number of notes
  as updated or skipped, and the preview changes no file.\<close>

theorem preview_agrees_with_apply:
  assumes "\<And>k. no_tmp (E k) fs" "fs_ok fs"
    and "distinct (map (canonicalize fs \<circ> sn_abs_path) (sr_notes (scan_vault fs root)))"
  shows "same_candidates (snd (rewrite_links_after_rename E lower fs root old_rel new_rel include_renamed))
      (snd (preview_link_rewrite E' lower fs root old_rel new_rel include_renamed)) \<and>
    fst (preview_link_rewrite E' lower fs root old_rel new_rel include_renamed) = fs"
proof (cases "absolute root \<and> is_dir fs root")
  case False
  then show ?thesis
    using preview_writes_nothing
    by (auto simp: rewrite_links_after_rename_def preview_link_rewrite_def rewrite_links_def)
next
  case True
  then obtain rr where rr: "canonicalize fs root = Some rr"
    by (auto simp: is_dir_def metadata_def Option.bind_eq_Some_conv)
  have "list_all (walked fs root rr) (sr_notes (scan_vault fs root))"
    using scan_notes_walked [OF assms(2) _ _ rr] True by (simp add: scan_vault_def)
  moreover have "canonicalize fs (path_join root (sn_rel_path n)) = canonicalize fs (sn_abs_path n)"
    if "walked fs root rr n" for n
    by (rule walked_paths [OF that _ _ rr]) (use True in simp_all)
  ultimately have "list_all (\<lambda>n. canonicalize fs (path_join root (sn_rel_path n)) = canonicalize fs (sn_abs_path n))
      (sr_notes (scan_vault fs root))"
    by (simp add: list_all_iff)
  then have "apart fs root fs (sr_notes (scan_vault fs root))"
    using assms(3) by (simp add: apart_def list_all_iff)
  note agree = rewrite_notes_agree [OF assms(1) this]
  show ?thesis
    using agree preview_writes_nothing
    by (auto simp: rewrite_links_after_rename_def preview_link_rewrite_def rewrite_links_def Let_def
        split: sum.splits if_splits)
qed

theorem preview_agrees_with_apply_witness:
  "map_sum id rw_files (snd (preview_link_rewrite pass_env id (moved_fs ''y'') ''/v'' ''x/old.md'' ''y/new.md'' False)) = Inr 2 \<and>
   same_candidates (snd (rewrite_links_after_rename pass_env id (moved_fs ''y'') ''/v'' ''x/old.md'' ''y/new.md'' False))
     (snd (preview_link_rewrite pass_env id (moved_fs ''y'') ''/v'' ''x/old.md'' ''y/new.md'' False))"
proof -
  have "no_tmp (pass_env k) (moved_fs ''y'')" for k unfolding pass_env_def by code_simp
  moreover have "fs_ok (moved_fs ''y'')"
    "distinct (map (canonicalize (moved_fs ''y'') \<circ> sn_abs_path) (sr_notes (scan_vault (moved_fs ''y'') ''/v'')))"
    "map_sum id rw_files (snd (preview_link_rewrite pass_env id (moved_fs ''y'') ''/v'' ''x/old.md'' ''y/new.md'' False)) = Inr 2"
    by code_simp+
  ultimately show ?thesis
    using preview_agrees_with_apply [of pass_env "moved_fs ''y''" "''/v''" id "''x/old.md''" "''y/new.md''" False pass_env]
    by simp
qed

end
