(* ===== verification/File_Calls.thy ===== *)
theory File_Calls
  imports File_System
begin

text \<open>
  More calls of \<open>std::fs\<close>, those whose kind of error the sources look at: \<open>fs::read\<close>,
  \<open>fs::metadata\<close> and \<open>fs::create_dir_all\<close>; and what a file in a directory is after it was
  replaced by renaming another over it.
\<close>

section \<open>Why a path does not resolve\<close>

function resolve_err :: "fs \<Rightarrow> nat \<Rightarrow> path \<Rightarrow> str list \<Rightarrow> io_error + path" where
  "resolve_err fs n acc [] = Inr acc"
| "resolve_err fs n acc (c # cs) =
     (if fs_get fs acc \<noteq> Some Dir then Inl Io_Other
      else if c = ''.'' then resolve_err fs n acc cs
      else if c = ''..'' then resolve_err fs n (butlast acc) cs
      else (case fs_get fs (acc @ [c]) of
          None \<Rightarrow> Inl Io_Not_Found
        | Some (Link t) \<Rightarrow>
            (if n = 0 then Inl Io_Other
             else if t = [] then Inl Io_Not_Found
             else resolve_err fs (n - 1) (if absolute t then [] else acc) (os_comps t @ cs))
        | Some _ \<Rightarrow> resolve_err fs n (acc @ [c]) cs))"
  by pat_completeness auto

termination
  by (relation "measures [\<lambda>(fs, n, acc, cs). n, \<lambda>(fs, n, acc, cs). length cs]") auto

declare resolve_err.simps(2) [simp del]

lemma resolve_err_Inr: "resolve_err fs n acc cs = Inr p \<longleftrightarrow> resolve_at fs n acc cs = Some p"
proof (induction fs n acc cs rule: resolve_at.induct)
  case (2 fs n acc c cs)
  then show ?case
    by (cases "fs_get fs (acc @ [c])"; cases "the (fs_get fs (acc @ [c]))")
      (simp_all add: resolve_at.simps(2) [of fs n acc] resolve_err.simps(2) [of fs n acc])
qed simp

definition stat :: "fs \<Rightarrow> str \<Rightarrow> io_error + fnode" where
  \<comment> \<open>\<open>fs::metadata\<close> with its error\<close>
  "stat fs s =
     (if \<not> absolute s then Inl Io_Other
      else (case resolve_err fs MAX_SYMLINKS [] (os_comps s) of
          Inl e \<Rightarrow> Inl e
        | Inr p \<Rightarrow> (case fs_get fs p of Some node \<Rightarrow> Inr node | None \<Rightarrow> Inl Io_Not_Found)))"

lemma stat_Inr: "stat fs s = Inr node \<longleftrightarrow> metadata fs s = Some node"
  by (cases "resolve_err fs MAX_SYMLINKS [] (os_comps s)")
    (auto simp: stat_def metadata_def canonicalize_def resolve_err_Inr [symmetric] Option.bind_eq_Some_conv split: option.splits)

definition read_file :: "fs \<Rightarrow> str \<Rightarrow> io_error + bytes" where
  "read_file fs s =
     (case stat fs s of Inl e \<Rightarrow> Inl e | Inr (File content _ _) \<Rightarrow> Inr content | Inr _ \<Rightarrow> Inl Io_Other)"

lemma read_file_Inr: "read_file fs s = Inr content \<longleftrightarrow> (\<exists>t m. metadata fs s = Some (File content t m))"
  unfolding read_file_def stat_Inr [symmetric] by (auto split: sum.splits fnode.splits)

text \<open>Only what the entries are matters.\<close>

lemma resolve_err_get: "fs_get fs' = fs_get fs \<Longrightarrow> resolve_err fs' n acc cs = resolve_err fs n acc cs"
proof (induction fs n acc cs rule: resolve_err.induct)
  case (2 fs n acc c cs)
  then show ?case
    by (cases "fs_get fs (acc @ [c])"; cases "the (fs_get fs (acc @ [c]))")
      (simp_all add: resolve_err.simps(2) [of fs n acc] resolve_err.simps(2) [of fs' n acc])
qed simp

lemma resolve_at_get: "fs_get fs' = fs_get fs \<Longrightarrow> resolve_at fs' n acc cs = resolve_at fs n acc cs"
  by (rule resolve_at_cong) simp

lemma read_file_get: "fs_get fs' = fs_get fs \<Longrightarrow> read_file fs' s = read_file fs s"
  by (simp add: read_file_def stat_def resolve_err_get [of fs' fs] cong: sum.case_cong)

lemma is_dir_get: "fs_get fs' = fs_get fs \<Longrightarrow> is_dir fs' s = is_dir fs s"
  by (simp add: is_dir_def metadata_def canonicalize_def resolve_at_get [of fs' fs])

lemma symlink_metadata_get: "fs_get fs' = fs_get fs \<Longrightarrow> symlink_metadata fs' s = symlink_metadata fs s"
  by (simp add: symlink_metadata_def locate_def Let_def resolve_at_get [of fs' fs] cong: option.case_cong)

section \<open>Directories\<close>

definition names_are_dir :: "fs \<Rightarrow> str list \<Rightarrow> bool" where
  "names_are_dir fs cs = (case resolve_at fs MAX_SYMLINKS [] cs of Some p \<Rightarrow> fs_get fs p = Some Dir | None \<Rightarrow> False)"

definition make_dir :: "fs \<Rightarrow> str list \<Rightarrow> str \<Rightarrow> io_error + fs" where
  "make_dir fs parent c =
     (case resolve_err fs MAX_SYMLINKS [] parent of
        Inl e \<Rightarrow> Inl e
      | Inr p \<Rightarrow>
          if fs_get fs p \<noteq> Some Dir then Inl Io_Other
          else if c \<in> {''.'', ''..''} \<or> fs_get fs (p @ [c]) \<noteq> None then Inl Io_Already_Exists
          else Inr (fs_put (p @ [c]) Dir fs))"

text \<open>Every ancestor in turn, unless it is a directory already; those made before a failure stay.\<close>

fun make_dirs :: "fs \<Rightarrow> str list \<Rightarrow> str list \<Rightarrow> fs \<times> (io_error + unit)" where
  "make_dirs fs before [] = (fs, Inr ())"
| "make_dirs fs before (c # cs) =
     (if names_are_dir fs (before @ [c]) then make_dirs fs (before @ [c]) cs
      else (case make_dir fs before c of Inl e \<Rightarrow> (fs, Inl e) | Inr fs' \<Rightarrow> make_dirs fs' (before @ [c]) cs))"

definition create_dir_all :: "fs \<Rightarrow> str \<Rightarrow> fs \<times> (io_error + unit)" where
  "create_dir_all fs s = (if \<not> absolute s then (fs, Inl Io_Other) else make_dirs fs [] (path_names s))"

lemma make_dirs_exist: "names_are_dir fs (before @ cs) \<Longrightarrow> make_dirs fs before cs = (fs, Inr ())"
proof (induction cs arbitrary: before)
  case (Cons c cs)
  then obtain q where q: "resolves fs MAX_SYMLINKS [] ((before @ [c]) @ cs) q" "fs_get fs q = Some Dir"
    by (auto simp: names_are_dir_def resolve_at_iff [symmetric] split: option.splits)
  then obtain m p where p: "resolves fs MAX_SYMLINKS [] (before @ [c]) p" "resolves fs m p cs q"
    using resolves_append by metis
  have "fs_get fs p = Some Dir"
    using p(2) q(2) by (cases cs) (auto elim!: resolves_ConsE resolves_NilE)
  then have "names_are_dir fs (before @ [c])" using p(1) by (simp add: names_are_dir_def resolve_at_iff [symmetric])
  then show ?case using Cons by simp
qed simp

lemma create_dir_all_exists: "is_dir fs s \<Longrightarrow> create_dir_all fs s = (fs, Inr ())"
  by (auto simp: is_dir_def metadata_def Option.bind_eq_Some_conv create_dir_all_def names_are_dir_def
      intro!: make_dirs_exist dest: canonicalize_names)
    (auto simp: canonicalize_def split: if_splits)

section \<open>A file replaced\<close>

text \<open>A path to a directory resolves without regard to the files.\<close>

lemma resolve_at_dirs:
  assumes "\<And>p. fs_get fs p = Some Dir \<or> is_link (fs_get fs p) \<Longrightarrow> fs_get fs' p = fs_get fs p"
    and "resolve_at fs n acc cs = Some q" "fs_get fs q = Some Dir"
  shows "resolve_at fs' n acc cs = Some q"
proof -
  have "resolves fs n acc cs q \<Longrightarrow> fs_get fs q = Some Dir \<Longrightarrow> resolves fs' n acc cs q"
  proof (induction rule: resolves.induct)
    case (follow acc c t n cs q)
    then show ?case by (intro resolves.follow) (auto simp: assms(1) is_link_def)
  next
    case (enter acc c n cs q)
    have "fs_get fs (acc @ [c]) = Some Dir"
      using enter(6,8) by (cases cs) (auto elim!: resolves_ConsE resolves_NilE)
    then show ?case using enter by (intro resolves.enter) (auto simp: assms(1))
  qed (auto intro: resolves.intros simp: assms(1))
  then show ?thesis using assms(2,3) by (simp add: resolve_at_iff)
qed

text \<open>Where a name in a directory is, and what is read there.\<close>

lemma locate_in_dir:
  assumes "is_dir fs dir" "good_name name"
  obtains d where "locate fs (path_join dir name) = Some (d @ [name])"
    "resolve_at fs MAX_SYMLINKS [] (path_names dir) = Some d" "fs_get fs d = Some Dir" "absolute dir"
proof -
  obtain d where d: "canonicalize fs dir = Some d" "fs_get fs d = Some Dir"
    using assms(1) by (auto simp: is_dir_def metadata_def Option.bind_eq_Some_conv)
  have a: "absolute dir" using d(1) by (simp add: canonicalize_def split: if_splits)
  have r: "resolve_at fs MAX_SYMLINKS [] (path_names dir) = Some d" by (rule canonicalize_names [OF d(1)])
  have "os_comps (path_join dir name) = path_names dir @ [name]"
    using good_name_path [OF assms(2)] by (simp add: os_comps_join)
  then have "locate fs (path_join dir name) = Some (d @ [name])"
    using r d(2) a assms(2) by (simp add: locate_def Let_def absolute_join good_name_def)
  then show ?thesis using that r d(2) a by blast
qed

lemma read_in_dir:
  assumes "resolve_at fs MAX_SYMLINKS [] (path_names dir) = Some d" "fs_get fs d = Some Dir" "absolute dir"
    "good_name name" "\<not> is_link (fs_get fs (d @ [name]))"
  shows "read_file fs (path_join dir name) =
    (case fs_get fs (d @ [name]) of None \<Rightarrow> Inl Io_Not_Found | Some (File content _ _) \<Rightarrow> Inr content | _ \<Rightarrow> Inl Io_Other)"
proof -
  have step: "resolves fs n acc cs q \<Longrightarrow> fs_get fs q = Some Dir \<Longrightarrow> \<not> is_link (fs_get fs (q @ [name])) \<Longrightarrow>
      resolve_err fs n acc (cs @ [name]) =
        (case fs_get fs (q @ [name]) of None \<Rightarrow> Inl Io_Not_Found | Some _ \<Rightarrow> Inr (q @ [name]))" for n acc cs q
  proof (induction rule: resolves.induct)
    case (at_end n acc)
    then show ?case
      using assms(4) by (auto simp: resolve_err.simps(2) good_name_def is_link_def split: option.splits fnode.splits)
  next
    case (enter acc c n cs q)
    then show ?case
      by (auto simp: resolve_err.simps(2) [of _ _ _ c] is_link_def split: option.splits fnode.splits)
  qed (simp_all add: resolve_err.simps(2))
  have "os_comps (path_join dir name) = path_names dir @ [name]"
    using good_name_path [OF assms(4)] by (simp add: os_comps_join)
  then have "resolve_err fs MAX_SYMLINKS [] (os_comps (path_join dir name)) =
      (case fs_get fs (d @ [name]) of None \<Rightarrow> Inl Io_Not_Found | Some _ \<Rightarrow> Inr (d @ [name]))"
    using step assms(1,2,5) by (simp add: resolve_at_iff)
  then show ?thesis
    using assms(3) by (auto simp: read_file_def stat_def absolute_join split: option.splits fnode.splits)
qed

text \<open>A change that only touches files and links of one directory's own names leaves the others
  readable as before; in particular a file put at \<open>name\<close> is what is read there.\<close>

lemma read_after_put:
  assumes "is_dir fs dir" "good_name name" "\<not> is_link (symlink_metadata fs (path_join dir name))"
    and "locate fs (path_join dir name) = Some q" "fs_get fs q \<noteq> Some Dir"
    and "fs_get fs' = (fs_get fs)(q \<mapsto> File content t m)"
  shows "is_dir fs' dir" "read_file fs' (path_join dir name) = Inr content"
    "\<not> is_link (symlink_metadata fs' (path_join dir name))"
proof -
  obtain d where d: "locate fs (path_join dir name) = Some (d @ [name])"
    "resolve_at fs MAX_SYMLINKS [] (path_names dir) = Some d" "fs_get fs d = Some Dir" "absolute dir"
    by (rule locate_in_dir [OF assms(1,2)])
  have q: "q = d @ [name]" using d(1) assms(4) by simp
  have nl: "\<not> is_link (fs_get fs q)" using assms(3,4) by (simp add: symlink_metadata_def)
  have keep: "fs_get fs' p = fs_get fs p" if "fs_get fs p = Some Dir \<or> is_link (fs_get fs p)" for p
    using that assms(5,6) nl by auto
  have dir': "resolve_at fs' MAX_SYMLINKS [] cs = Some d" if "resolve_at fs MAX_SYMLINKS [] cs = Some d" for cs
    by (rule resolve_at_dirs [OF keep that d(3)])
  have g': "fs_get fs' d = Some Dir" using keep d(3) by auto
  have "canonicalize fs dir = Some d"
  proof -
    obtain e where e: "canonicalize fs dir = Some e" using assms(1) by (auto simp: is_dir_def metadata_def Option.bind_eq_Some_conv)
    then show ?thesis using canonicalize_names [OF e] d(2) by simp
  qed
  then have "canonicalize fs' dir = Some d" using dir' by (auto simp: canonicalize_def split: if_splits)
  then show isd: "is_dir fs' dir" using g' by (simp add: is_dir_def metadata_def)
  have "\<not> is_link (fs_get fs' (d @ [name]))" using assms(6) q by (simp add: is_link_def)
  then show "read_file fs' (path_join dir name) = Inr content"
    using read_in_dir [OF dir' [OF d(2)] g' d(4) assms(2)] assms(6) q by simp
  obtain d' where d': "locate fs' (path_join dir name) = Some (d' @ [name])" "resolve_at fs' MAX_SYMLINKS [] (path_names dir) = Some d'"
    by (rule locate_in_dir [OF isd assms(2)])
  then have "d' = d" using dir' [OF d(2)] by simp
  then show "\<not> is_link (symlink_metadata fs' (path_join dir name))"
    using d'(1) assms(6) q by (simp add: symlink_metadata_def is_link_def)
qed

section \<open>A file replaced by a temporary sibling\<close>

text \<open>A directory ready for the replacement of \<open>name\<close> through \<open>tmp\<close>: it exists, \<open>name\<close> is not a link
  or a directory, and \<open>tmp\<close> is free.\<close>

definition replaceable :: "fs \<Rightarrow> str \<Rightarrow> str \<Rightarrow> str \<Rightarrow> bool" where
  "replaceable fs dir name tmp \<longleftrightarrow> is_dir fs dir \<and> \<not> is_link (symlink_metadata fs (path_join dir name)) \<and>
     symlink_metadata fs (path_join dir name) \<noteq> Some Dir \<and> symlink_metadata fs (path_join dir tmp) = None"

lemma is_dir_put_new:
  assumes "is_dir fs dir" "fs_get fs e = None"
  shows "is_dir (fs_put e node fs) dir"
proof -
  have keep: "\<And>p x. fs_get fs p = Some x \<Longrightarrow> fs_get (fs_put e node fs) p = Some x"
    using assms(2) by (auto simp: fs_get_put)
  obtain d where d: "canonicalize fs dir = Some d" "fs_get fs d = Some Dir"
    using assms(1) by (auto simp: is_dir_def metadata_def Option.bind_eq_Some_conv)
  then have "resolve_at fs MAX_SYMLINKS [] (os_comps dir) = Some d" "absolute dir"
    by (simp_all add: canonicalize_def split: if_splits)
  then have "canonicalize (fs_put e node fs) dir = Some d"
    using resolve_at_mono [OF keep] by (simp add: canonicalize_def)
  then show ?thesis using keep [OF d(2)] by (simp add: is_dir_def metadata_def)
qed

lemma replaceable_tmp:
  assumes "replaceable fs dir name tmp" "good_name name" "good_name tmp" "name \<noteq> tmp"
  obtains d fs1 where "create_new fs (path_join dir tmp) node = Inr fs1" "fs1 = fs_put (d @ [tmp]) node fs"
    "locate fs (path_join dir name) = Some (d @ [name])" "fs_get fs (d @ [tmp]) = None"
    "locate fs1 (path_join dir tmp) = Some (d @ [tmp])" "locate fs1 (path_join dir name) = Some (d @ [name])"
    "fs_get fs (d @ [name]) \<noteq> Some Dir"
proof -
  have dir: "is_dir fs dir" using assms(1) by (simp add: replaceable_def)
  obtain d where d: "locate fs (path_join dir name) = Some (d @ [name])"
    "resolve_at fs MAX_SYMLINKS [] (path_names dir) = Some d"
    using locate_in_dir [OF dir assms(2)] by metis
  obtain d' where "locate fs (path_join dir tmp) = Some (d' @ [tmp])" "resolve_at fs MAX_SYMLINKS [] (path_names dir) = Some d'"
    using locate_in_dir [OF dir assms(3)] by metis
  then have t: "locate fs (path_join dir tmp) = Some (d @ [tmp])" using d(2) by simp
  then have free: "fs_get fs (d @ [tmp]) = None" using assms(1) by (simp add: replaceable_def symlink_metadata_def)
  let ?fs1 = "fs_put (d @ [tmp]) node fs"
  have keep: "\<And>p x. fs_get fs p = Some x \<Longrightarrow> fs_get ?fs1 p = Some x" using free by (auto simp: fs_get_put)
  have r1: "resolve_at ?fs1 MAX_SYMLINKS [] (path_names dir) = Some d" by (rule resolve_at_mono [OF keep d(2)])
  have dir1: "is_dir ?fs1 dir" by (rule is_dir_put_new [OF dir free])
  have "locate ?fs1 (path_join dir n) = Some (d @ [n])" if "good_name n" for n
    using locate_in_dir [OF dir1 that] r1 by (metis option.inject)
  moreover have "create_new fs (path_join dir tmp) node = Inr ?fs1" using t free by (simp add: create_new_def)
  moreover have "fs_get fs (d @ [name]) \<noteq> Some Dir" using assms(1) d(1) by (simp add: replaceable_def symlink_metadata_def)
  ultimately show ?thesis using that d(1) free assms(2,3) by blast
qed

text \<open>Undone, nothing has changed; carried through, the file holds the new content.\<close>

lemma replace_undone:
  assumes "fs_get fs e = None" "e \<noteq> []"
  shows "fs_get (fs_del e (fs_put e node fs)) = fs_get fs"
  using assms by (auto simp: fs_get_del fs_get_put fun_eq_iff)

lemma replace_done:
  assumes "replaceable fs dir name tmp" "good_name name" "good_name tmp" "name \<noteq> tmp"
    and "create_new fs (path_join dir tmp) (File content t m) = Inr fs1"
    and "rename_file fs1 (path_join dir tmp) (path_join dir name) = Inr fs2"
  shows "is_dir fs2 dir" "read_file fs2 (path_join dir name) = Inr content"
    "\<not> is_link (symlink_metadata fs2 (path_join dir name))"
proof -
  obtain d fs1' where d: "create_new fs (path_join dir tmp) (File content t m) = Inr fs1'" "fs1' = fs_put (d @ [tmp]) (File content t m) fs"
    "locate fs (path_join dir name) = Some (d @ [name])" "fs_get fs (d @ [tmp]) = None"
    "locate fs1' (path_join dir tmp) = Some (d @ [tmp])" "locate fs1' (path_join dir name) = Some (d @ [name])"
    "fs_get fs (d @ [name]) \<noteq> Some Dir"
    by (rule replaceable_tmp [OF assms(1-4)])
  have fs1: "fs1' = fs1" using d(1) assms(5) by simp
  have "fs2 = fs_put (d @ [name]) (File content t m) (fs_del (d @ [tmp]) fs1)"
    using assms(4,6) d(2,5,6,7) fs1 by (auto simp: rename_file_def fs_get_put split: if_splits)
  then have get: "fs_get fs2 = (fs_get fs)(d @ [name] \<mapsto> File content t m)"
    using d(2,4) fs1 assms(4) by (auto simp: fs_get_put fs_get_del fun_eq_iff)
  have nl: "is_dir fs dir" "\<not> is_link (symlink_metadata fs (path_join dir name))" using assms(1) by (simp_all add: replaceable_def)
  show "is_dir fs2 dir" "read_file fs2 (path_join dir name) = Inr content"
    "\<not> is_link (symlink_metadata fs2 (path_join dir name))"
    by (rule read_after_put [OF nl(1) assms(2) nl(2) d(3,7) get])+
qed

lemma rename_ready:
  assumes "replaceable fs dir name tmp" "good_name name" "good_name tmp" "name \<noteq> tmp"
    and "create_new fs (path_join dir tmp) (File content t m) = Inr fs1"
  shows "\<exists>fs2. rename_file fs1 (path_join dir tmp) (path_join dir name) = Inr fs2"
    "\<exists>fs3. remove_file fs1 (path_join dir tmp) = Inr fs3 \<and> fs_get fs3 = fs_get fs"
proof -
  obtain d fs1' where d: "create_new fs (path_join dir tmp) (File content t m) = Inr fs1'" "fs1' = fs_put (d @ [tmp]) (File content t m) fs"
    "locate fs (path_join dir name) = Some (d @ [name])" "fs_get fs (d @ [tmp]) = None"
    "locate fs1' (path_join dir tmp) = Some (d @ [tmp])" "locate fs1' (path_join dir name) = Some (d @ [name])"
    "fs_get fs (d @ [name]) \<noteq> Some Dir"
    by (rule replaceable_tmp [OF assms(1-4)])
  have fs1: "fs1' = fs1" using d(1) assms(5) by simp
  show "\<exists>fs2. rename_file fs1 (path_join dir tmp) (path_join dir name) = Inr fs2"
    using d fs1 assms(4) by (auto simp: rename_file_def fs_get_put)
  show "\<exists>fs3. remove_file fs1 (path_join dir tmp) = Inr fs3 \<and> fs_get fs3 = fs_get fs"
    using d fs1 replace_undone [OF d(4)] by (auto simp: remove_file_def fs_get_put)
qed

end
