(* ===== verification/Rust_Results.thy ===== *)
theory Rust_Results
  imports Rust_Strings
begin

text \<open>
  Rust's \<open>Result\<close> as a sum whose left side is the error: the \<open>?\<close> operator, a loop that stops at
  its first error, and the number and string operations the validators share.
\<close>

section \<open>Results\<close>

definition and_then :: "'e + 'a \<Rightarrow> ('a \<Rightarrow> 'e + 'b) \<Rightarrow> 'e + 'b" where
  "and_then r f = (case r of Inl e \<Rightarrow> Inl e | Inr x \<Rightarrow> f x)"

lemma and_then_simps [simp]: "and_then (Inl e) f = Inl e" "and_then (Inr x) f = f x"
  by (simp_all add: and_then_def)

lemma and_then_Inr [simp]: "and_then r f = Inr y \<longleftrightarrow> (\<exists>x. r = Inr x \<and> f x = Inr y)"
  by (cases r) auto

lemma and_then_assoc: "and_then (and_then r f) g = and_then r (\<lambda>x. and_then (f x) g)"
  by (cases r) auto

lemma Inr_case_option [simp]:
  "(case x of None \<Rightarrow> Inl e | Some v \<Rightarrow> f v) = Inr y \<longleftrightarrow> (\<exists>v. x = Some v \<and> f v = Inr y)"
  by (cases x) auto

lemma Inr_if [simp]: "(if b then Inl e else r) = Inr y \<longleftrightarrow> \<not> b \<and> r = Inr y"
  by simp

text \<open>\<open>Result::map_err\<close> and \<open>Option::ok_or\<close>\<close>

definition map_err :: "('e \<Rightarrow> 'f) \<Rightarrow> 'e + 'a \<Rightarrow> 'f + 'a" where
  "map_err f r = (case r of Inl e \<Rightarrow> Inl (f e) | Inr x \<Rightarrow> Inr x)"

definition ok_or :: "'a option \<Rightarrow> 'e \<Rightarrow> 'e + 'a" where
  "ok_or x e = (case x of Some a \<Rightarrow> Inr a | None \<Rightarrow> Inl e)"

lemma map_err_simps [simp]: "map_err f (Inr x) = Inr x" "map_err f (Inl e) = Inl (f e)"
  by (simp_all add: map_err_def)

lemma map_err_Inr [simp]: "map_err f r = Inr x \<longleftrightarrow> r = Inr x"
  by (cases r) auto

lemma ok_or_simps [simp]: "ok_or (Some a) e = Inr a" "ok_or None e = Inl e"
  by (simp_all add: ok_or_def)

lemma ok_or_Inr [simp]: "ok_or x e = Inr a \<longleftrightarrow> x = Some a"
  by (cases x) auto

text \<open>The loop \<open>for (i, item) in items.iter().enumerate()\<close> that pushes one result per item.\<close>

fun each :: "(nat \<Rightarrow> 'a \<Rightarrow> 'e + 'b) \<Rightarrow> nat \<Rightarrow> 'a list \<Rightarrow> 'e + 'b list" where
  "each f i [] = Inr []"
| "each f i (x # xs) = and_then (f i x) (\<lambda>y. and_then (each f (i + 1) xs) (\<lambda>ys. Inr (y # ys)))"

lemma each_Inr: "each f i xs = Inr ys \<Longrightarrow> list_all2 (\<lambda>x y. \<exists>j. f j x = Inr y) xs ys"
  by (induction f i xs arbitrary: ys rule: each.induct) auto

lemma each_length: "each f i xs = Inr ys \<Longrightarrow> length ys = length xs"
  by (drule each_Inr) (simp add: list_all2_lengthD)

lemma each_all:
  assumes "each f i xs = Inr ys" and "\<And>j x y. f j x = Inr y \<Longrightarrow> P y"
  shows "list_all P ys"
proof -
  have "list_all2 (\<lambda>x y. \<exists>j. f j x = Inr y) xs ys" by (rule each_Inr [OF assms(1)])
  then show ?thesis by (induction rule: list_all2_induct) (auto intro: assms(2))
qed

lemma each_args_all:
  assumes "each f i xs = Inr ys" and "\<And>j x y. f j x = Inr y \<Longrightarrow> P x"
  shows "list_all P xs"
proof -
  have "list_all2 (\<lambda>x y. \<exists>j. f j x = Inr y) xs ys" by (rule each_Inr [OF assms(1)])
  then show ?thesis by (induction rule: list_all2_induct) (auto intro: assms(2))
qed

lemma each_succeeds: "(\<And>j x. x \<in> set xs \<Longrightarrow> f j x = Inr (g x)) \<Longrightarrow> each f i xs = Inr (map g xs)"
  by (induction xs arbitrary: i) auto

text \<open>The first error of a list of checks.\<close>

definition all_ok :: "(nat \<Rightarrow> 'a \<Rightarrow> 'e + unit) \<Rightarrow> 'a list \<Rightarrow> 'e + unit" where
  "all_ok f xs = and_then (each f 0 xs) (\<lambda>_. Inr ())"

lemma all_ok_Inr: "all_ok f xs = Inr () \<Longrightarrow> list_all (\<lambda>x. \<exists>j. f j x = Inr ()) xs"
  by (auto simp: all_ok_def elim!: each_args_all)

lemma all_ok_succeeds: "(\<And>j x. x \<in> set xs \<Longrightarrow> f j x = Inr ()) \<Longrightarrow> all_ok f xs = Inr ()"
  using each_succeeds [of xs f "\<lambda>_. ()" 0] by (simp add: all_ok_def)

section \<open>Strings\<close>

text \<open>\<open>chars().count()\<close>, \<open>str::contains\<close> and \<open>str::split\<close> at a character.\<close>

definition char_count :: "str \<Rightarrow> nat" where
  "char_count s = length (utf8_chunks s)"

text \<open>\<open>{:<n}\<close> and \<open>{:>n}\<close> of a format.\<close>

definition pad_to :: "nat \<Rightarrow> str \<Rightarrow> str" where
  "pad_to n s = s @ replicate (n - char_count s) (CHR '' '')"

definition pad_left :: "nat \<Rightarrow> str \<Rightarrow> str" where
  "pad_left n s = replicate (n - char_count s) (CHR '' '') @ s"

lemma char_count_ascii: "ascii s \<Longrightarrow> char_count s = length s"
  by (simp add: char_count_def utf8_chunks_ascii)

definition str_contains :: "str \<Rightarrow> str \<Rightarrow> bool" where
  "str_contains s pat = list_ex (prefix pat) (suffixes s)"

fun split_on :: "byte \<Rightarrow> str \<Rightarrow> str list" where
  "split_on d [] = [[]]"
| "split_on d (a # s) =
     (if a = d then [] # split_on d s
      else (case split_on d s of [] \<Rightarrow> [[a]] | p # ps \<Rightarrow> (a # p) # ps))"

lemma split_on_not_Nil [simp]: "split_on d s \<noteq> []"
  by (induction d s rule: split_on.induct) (auto split: list.splits)

lemma split_on_none: "d \<notin> set s \<Longrightarrow> split_on d s = [s]"
  by (induction d s rule: split_on.induct) auto

lemma split_on_append: "d \<notin> set s \<Longrightarrow> split_on d (s @ d # t) = s # split_on d t"
  by (induction d s rule: split_on.induct) auto

text \<open>\<open>str::join\<close>\<close>

fun join_with :: "str \<Rightarrow> str list \<Rightarrow> str" where
  "join_with sep [] = []"
| "join_with sep [s] = s"
| "join_with sep (s # ss) = s @ sep @ join_with sep ss"

section \<open>Decimal numbers\<close>

definition is_digit :: "byte \<Rightarrow> bool" where
  "is_digit b \<longleftrightarrow> 48 \<le> code b \<and> code b \<le> 57"

definition is_lower :: "byte \<Rightarrow> bool" where
  "is_lower b \<longleftrightarrow> 97 \<le> code b \<and> code b \<le> 122"

definition digits_value :: "str \<Rightarrow> nat" where
  "digits_value s = foldl (\<lambda>n b. 10 * n + (code b - 48)) 0 s"

text \<open>\<open>parse::<u64>\<close>: digits after an optional plus sign, below \<open>2 ^ 64\<close>.\<close>

definition parse_u64 :: "str \<Rightarrow> nat option" where
  "parse_u64 s =
     (let ds = (case s of c # r \<Rightarrow> if c = CHR ''+'' then r else s | [] \<Rightarrow> [])
      in if ds = [] \<or> \<not> list_all is_digit ds then None
         else if digits_value ds < 2 ^ 64 then Some (digits_value ds) else None)"

lemma parse_u64_code [code]:
  "parse_u64 s =
     (let ds = (case s of c # r \<Rightarrow> if c = CHR ''+'' then r else s | [] \<Rightarrow> [])
      in if ds = [] \<or> \<not> list_all is_digit ds then None
         else if int (digits_value ds) < 18446744073709551616 then Some (digits_value ds) else None)"
  by (simp add: parse_u64_def Let_def)

lemma code_digit: "d < 10 \<Longrightarrow> code (digit d) = 48 + d"
  by (simp add: code_def digit_def)

lemma is_digit_digit: "d < 10 \<Longrightarrow> is_digit (digit d)"
  by (simp add: is_digit_def code_digit)

lemma dec_digits: "dec n \<noteq> [] \<and> list_all is_digit (dec n)"
  by (induction n rule: dec.induct) (subst dec.simps, auto simp: is_digit_digit)+

lemma digits_value_dec: "digits_value (dec n) = n"
proof (induction n rule: dec.induct)
  case (1 n)
  show ?case
  proof (cases "n < 10")
    case False
    then show ?thesis using 1 by (subst dec.simps) (simp add: digits_value_def code_digit)
  qed (subst dec.simps, simp add: digits_value_def code_digit)
qed

lemma parse_u64_dec: "n < 2 ^ 64 \<Longrightarrow> parse_u64 (dec n) = Some n"
proof -
  assume n: "n < 2 ^ 64"
  obtain c r where d: "dec n = c # r" using dec_digits [of n] by (cases "dec n") auto
  then have "is_digit c" using dec_digits [of n] by simp
  then have "c \<noteq> CHR ''+''" by (auto simp: is_digit_def code_def)
  then show ?thesis
    using n d dec_digits [of n] digits_value_dec [of n] by (simp add: parse_u64_def Let_def)
qed

lemma parse_u64_bound: "parse_u64 s = Some n \<Longrightarrow> n < 2 ^ 64"
  by (auto simp: parse_u64_def Let_def split: if_splits list.splits)

text \<open>Signed numbers: as text, and \<open>parse::<i64>\<close>.\<close>

definition dec_int :: "int \<Rightarrow> str" where
  "dec_int n = (if n < 0 then CHR ''-'' # dec (nat (- n)) else dec (nat n))"

definition parse_i64 :: "str \<Rightarrow> int option" where
  "parse_i64 s =
     (let neg = (case s of c # _ \<Rightarrow> c = CHR ''-'' | [] \<Rightarrow> False);
          ds = (case s of c # r \<Rightarrow> if c = CHR ''+'' \<or> c = CHR ''-'' then r else s | [] \<Rightarrow> []);
          n = int (digits_value ds)
      in if ds = [] \<or> \<not> list_all is_digit ds then None
         else if neg then (if n \<le> 2 ^ 63 then Some (- n) else None)
         else if n < 2 ^ 63 then Some n else None)"

lemma parse_i64_bound: "parse_i64 s = Some n \<Longrightarrow> - (2 ^ 63) \<le> n \<and> n < 2 ^ 63"
  by (auto simp: parse_i64_def Let_def split: if_splits)

end
