(* ===== verification/Vault_Scratch.thy ===== *)
theory Vault_Scratch
  imports Vault_Notes File_Calls Rust_Results Json
begin

text \<open>
  The recovery copies of unsaved buffers, \<open>write_scratch\<close> to \<open>ensure_private_dir\<close> of
  \<open>crates/gpty-core/src/vault.rs\<close>: one JSON file per note, named by a 64-bit hash of the vault
  and the note, replaced by renaming; and the pruning of copies nothing can reach any more.
  Locating a copy, reading it back, and that neither a write for one note nor a prune costs
  another note its copy.
\<close>

section \<open>Where a copy is\<close>

definition MAX_SCRATCH_BYTES :: nat where "MAX_SCRATCH_BYTES = MAX_NOTE_BYTES"

record scratch =
  sc_text :: str
  sc_stamp :: note_stamp

text \<open>FNV-1a, on 64 bits\<close>

definition OFFSET :: "64 word" where "OFFSET = 0xcbf29ce484222325"
definition PRIME :: "64 word" where "PRIME = 0x00000100000001b3"

definition scratch_key :: "str \<Rightarrow> str \<Rightarrow> 64 word" where
  "scratch_key root_key rel =
     fold (\<lambda>b hash. (hash XOR ucast (byte_word b)) * PRIME) (root_key @ [CHR 0x00] @ rel) OFFSET"

text \<open>\<open>{:016x}\<close>\<close>

definition hex16 :: "64 word \<Rightarrow> str" where
  "hex16 w = map (\<lambda>i. hex_digit (unat (drop_bit (4 * (15 - i)) w AND 15))) [0..<16]"

definition copy_name :: "str \<Rightarrow> str \<Rightarrow> str" where
  "copy_name root_key rel = hex16 (scratch_key root_key rel) @ ''.json''"

text \<open>A resolved path as a string, and its lossy form.\<close>

definition path_string :: "path \<Rightarrow> str" where
  "path_string p = (if p = [] then ''/'' else display p)"

definition scratch_location :: "fs \<Rightarrow> str \<Rightarrow> str \<Rightarrow> str \<Rightarrow> note_error + str \<times> str" where
  "scratch_location fs dir root rel =
     and_then (note_path fs root rel) (\<lambda>_.
     and_then (ok_or (canonicalize fs root) (Bad_Vault root)) (\<lambda>root_real.
     let root_key = from_utf8_lossy (path_string root_real)
     in Inr (root_key, path_join dir (copy_name root_key rel))))"

section \<open>Pruning\<close>

text \<open>What an operation takes from the system: that of a note operation, and when a directory was
  last modified.\<close>

record scratch_env = note_env +
  sv_dir_mtime :: "path \<Rightarrow> int"

text \<open>One hour, in nanoseconds.\<close>

definition STALE_SCRATCH_TEMP :: int where "STALE_SCRATCH_TEMP = 60 * 60 * 1000000000"

definition is_hex16 :: "str \<Rightarrow> bool" where
  "is_hex16 stem \<longleftrightarrow> length stem = 16 \<and>
     list_all (\<lambda>b. is_digit b \<or> code (CHR ''a'') \<le> code b \<and> code b \<le> code (CHR ''f'')) stem"

definition strip_prefix :: "str \<Rightarrow> str \<Rightarrow> str option" where
  "strip_prefix pre s = (if prefix pre s then Some (drop (length pre) s) else None)"

definition is_copy_name :: "str \<Rightarrow> bool" where
  "is_copy_name name = (case strip_suffix ''.json'' name of Some stem \<Rightarrow> is_hex16 stem | None \<Rightarrow> False)"

definition is_temp_name :: "str \<Rightarrow> bool" where
  "is_temp_name name =
     (case Option.bind (strip_prefix ''.gpty-scratch-'' name) (strip_suffix ''.tmp'') of
        Some stem \<Rightarrow> is_hex16 stem | None \<Rightarrow> False)"

definition temp_is_stale :: "scratch_env \<Rightarrow> fs \<Rightarrow> str \<Rightarrow> bool" where
  \<comment> \<open>a modification time in the future has no age\<close>
  "temp_is_stale E fs p =
     (case canonicalize fs p of
        None \<Rightarrow> False
      | Some q \<Rightarrow>
          (case fs_get fs q of
             Some (File _ modified _) \<Rightarrow> STALE_SCRATCH_TEMP < ne_now E - modified
           | Some Dir \<Rightarrow> STALE_SCRATCH_TEMP < ne_now E - sv_dir_mtime E q
           | _ \<Rightarrow> False))"

definition copy_is_orphaned :: "json_text \<Rightarrow> fs \<Rightarrow> str \<Rightarrow> bool" where
  "copy_is_orphaned J fs p =
     (case read_file fs p of
        Inl _ \<Rightarrow> False
      | Inr bs \<Rightarrow>
          (case from_text J bs of
             None \<Rightarrow> False
           | Some rec \<Rightarrow>
               (case Option.bind (jget rec ''vault'') jstr of
                  None \<Rightarrow> False
                | Some vault \<Rightarrow>
                    if \<not> absolute vault then False
                    else (case stat fs vault of
                        Inr node \<Rightarrow> node \<noteq> Dir
                      | Inl Io_Not_Found \<Rightarrow> True
                      | Inl _ \<Rightarrow> False))))"

definition remove_stale :: "fs \<Rightarrow> str \<Rightarrow> fs" where
  "remove_stale fs p = (case remove_file fs p of Inr fs' \<Rightarrow> fs' | Inl _ \<Rightarrow> fs)"

definition prune_entry :: "json_text \<Rightarrow> scratch_env \<Rightarrow> str \<Rightarrow> str \<Rightarrow> fs \<Rightarrow> fs" where
  "prune_entry J E dir name fs =
     (let p = path_join dir name
      in if \<not> utf8_valid name then fs
         else if (if is_copy_name name then copy_is_orphaned J fs p
                  else if is_temp_name name then temp_is_stale E fs p else False)
         then remove_stale fs p else fs)"

definition prune_scratch :: "json_text \<Rightarrow> scratch_env \<Rightarrow> str \<Rightarrow> fs \<Rightarrow> fs" where
  "prune_scratch J E dir fs =
     (case read_dir fs dir of None \<Rightarrow> fs | Some entries \<Rightarrow> fold (prune_entry J E dir) entries fs)"

section \<open>Writing, reading and clearing\<close>

text \<open>Where \<open>fs::write\<close> lands: like resolution, but the last name may be missing.\<close>

function resolve_create :: "fs \<Rightarrow> nat \<Rightarrow> path \<Rightarrow> str list \<Rightarrow> path option" where
  "resolve_create fs n acc [] = Some acc"
| "resolve_create fs n acc (c # cs) =
     (if fs_get fs acc \<noteq> Some Dir then None
      else if c = ''.'' then resolve_create fs n acc cs
      else if c = ''..'' then resolve_create fs n (butlast acc) cs
      else (case fs_get fs (acc @ [c]) of
          None \<Rightarrow> if cs = [] then Some (acc @ [c]) else None
        | Some (Link t) \<Rightarrow>
            (if n = 0 \<or> t = [] then None
             else resolve_create fs (n - 1) (if absolute t then [] else acc) (os_comps t @ cs))
        | Some _ \<Rightarrow> resolve_create fs n (acc @ [c]) cs))"
  by pat_completeness auto

termination
  by (relation "measures [\<lambda>(fs, n, acc, cs). n, \<lambda>(fs, n, acc, cs). length cs]") auto

declare resolve_create.simps(2) [simp del]

text \<open>\<open>fs::write\<close>: the file is created or emptied, then written.  A file that exists keeps its
  mode.\<close>

definition write_file :: "scratch_env \<Rightarrow> fs \<Rightarrow> str \<Rightarrow> bytes \<Rightarrow> fs \<times> (io_error + unit)" where
  "write_file E fs p content =
     (let bs = (if ne_write_ok E then content else []); r = (if ne_write_ok E then Inr () else Inl Io_Other)
      in if \<not> absolute p then (fs, Inl Io_Other)
         else (case resolve_create fs MAX_SYMLINKS [] (os_comps p) of
             None \<Rightarrow> (fs, Inl Io_Other)
           | Some q \<Rightarrow>
               (case fs_get fs q of
                  Some (File _ _ mode) \<Rightarrow> (fs_put q (File bs (ne_now E) mode) fs, r)
                | None \<Rightarrow> (fs_put q (File bs (ne_now E) (ne_mode E)) fs, r)
                | _ \<Rightarrow> (fs, Inl Io_Other))))"

text \<open>\<open>restrict_to_owner\<close>: the file's mode becomes 0600, if the system lets it; a link is left alone.\<close>

definition restrict_to_owner :: "scratch_env \<Rightarrow> fs \<Rightarrow> str \<Rightarrow> fs" where
  "restrict_to_owner E fs p =
     (case locate fs p of
        None \<Rightarrow> fs
      | Some q \<Rightarrow>
          (case fs_get fs q of
             Some (File content mtime _) \<Rightarrow> if ne_mode_ok E then fs_put q (File content mtime 384) fs else fs
           | _ \<Rightarrow> fs))"

definition scratch_json :: "str \<Rightarrow> str \<Rightarrow> str \<Rightarrow> note_stamp \<Rightarrow> json" where
  "scratch_json root_key rel content stamp = JObj
     [(''mtime'', JInt (st_mtime stamp)), (''path'', JStr rel), (''size'', JInt (st_size stamp)),
      (''text'', JStr content), (''vault'', JStr root_key)]"

definition scratch_tmp :: "scratch_env \<Rightarrow> str" where
  "scratch_tmp E = ''.gpty-scratch-'' @ ne_suffix E @ ''.tmp''"

text \<open>The parent of the joined path is \<open>dir\<close>; a joined path always has one.  The mode of the
  directory is not part of the model.\<close>

definition ensure_private_dir :: "scratch_env \<Rightarrow> fs \<Rightarrow> str \<Rightarrow> fs \<times> (note_error + unit)" where
  "ensure_private_dir E fs dir =
     (case create_dir_all fs dir of
        (fs', Inl _) \<Rightarrow> (fs', Inl (Note_Io (dir @ '': '' @ ne_error E)))
      | (fs', Inr _) \<Rightarrow> (fs', Inr ()))"

definition replace_copy :: "scratch_env \<Rightarrow> fs \<Rightarrow> str \<Rightarrow> str \<Rightarrow> bytes \<Rightarrow> fs \<times> (note_error + unit)" where
  \<comment> \<open>the temporary file, renamed over the copy\<close>
  "replace_copy E fs dir p content =
     (let tmp = path_join dir (scratch_tmp E)
      in case write_file E fs tmp content of
           (fs1, Inl _) \<Rightarrow> (remove_stale fs1 tmp, Inl (Note_Io (''writing '' @ tmp @ '': '' @ ne_error E)))
         | (fs1, Inr _) \<Rightarrow>
             (let fs2 = restrict_to_owner E fs1 tmp
              in case (if ne_rename_ok E then rename_file fs2 tmp p else Inl Io_Other) of
                   Inl _ \<Rightarrow> (remove_stale fs2 tmp, Inl (Note_Io (''replacing '' @ p @ '': '' @ ne_error E)))
                 | Inr fs3 \<Rightarrow> (fs3, Inr ())))"

definition write_scratch :: "json_text \<Rightarrow> scratch_env \<Rightarrow> fs \<Rightarrow> str \<Rightarrow> str \<Rightarrow> str \<Rightarrow> str \<Rightarrow> note_stamp
    \<Rightarrow> fs \<times> (note_error + unit)" where
  "write_scratch J E fs dir root rel content stamp =
     (if MAX_SCRATCH_BYTES < length content then (fs, Inl (Too_Large (length content)))
      else (let fs0 = prune_scratch J E dir fs
            in case scratch_location fs0 dir root rel of
                 Inl e \<Rightarrow> (fs0, Inl e)
               | Inr (root_key, p) \<Rightarrow>
                   (case ensure_private_dir E fs0 dir of
                      (fs1, Inl e) \<Rightarrow> (fs1, Inl e)
                    | (fs1, Inr _) \<Rightarrow>
                        replace_copy E fs1 dir p (to_text J (scratch_json root_key rel content stamp)))))"

definition int_of_field :: "json \<Rightarrow> str \<Rightarrow> int" where
  "int_of_field document name = unwrap_or (Option.bind (jget document name) ji64) 0"

text \<open>What a file holds for one note: nothing unless its record names the note.\<close>

definition copy_text :: "json_text \<Rightarrow> str \<Rightarrow> str \<Rightarrow> bytes \<Rightarrow> scratch option" where
  "copy_text J root_key rel bs =
     (case from_text J bs of
        None \<Rightarrow> None
      | Some document \<Rightarrow>
          if Option.bind (jget document ''vault'') jstr \<noteq> Some root_key \<or>
             Option.bind (jget document ''path'') jstr \<noteq> Some rel then None
          else (case Option.bind (jget document ''text'') jstr of
              None \<Rightarrow> None
            | Some content \<Rightarrow> Some \<lparr>sc_text = content,
                sc_stamp = \<lparr>st_mtime = int_of_field document ''mtime'', st_size = int_of_field document ''size''\<rparr>\<rparr>))"

definition read_scratch :: "json_text \<Rightarrow> fs \<Rightarrow> str \<Rightarrow> str \<Rightarrow> str \<Rightarrow> note_error + scratch option" where
  "read_scratch J fs dir root rel =
     and_then (scratch_location fs dir root rel) (\<lambda>(root_key, p).
       case read_file fs p of
         Inl _ \<Rightarrow> Inr None
       | Inr bs \<Rightarrow> Inr (copy_text J root_key rel bs))"

definition clear_scratch :: "scratch_env \<Rightarrow> fs \<Rightarrow> str \<Rightarrow> str \<Rightarrow> str \<Rightarrow> fs \<times> (note_error + unit)" where
  "clear_scratch E fs dir root rel =
     (case scratch_location fs dir root rel of
        Inl e \<Rightarrow> (fs, Inl e)
      | Inr (_, p) \<Rightarrow>
          (case remove_file fs p of
             Inr fs' \<Rightarrow> (fs', Inr ())
           | Inl Io_Not_Found \<Rightarrow> (fs, Inr ())
           | Inl _ \<Rightarrow> (fs, Inl (Note_Io (''removing '' @ p @ '': '' @ ne_error E)))))"

section \<open>The names\<close>

lemma hex_digit_chars:
  "i < 16 \<Longrightarrow> is_digit (hex_digit i) \<or> code (CHR ''a'') \<le> code (hex_digit i) \<and> code (hex_digit i) \<le> code (CHR ''f'')"
  by (auto simp: hex_digit_def is_digit_def code_def)

lemma hex16_chars: "is_hex16 (hex16 w)"
proof -
  have "unat (x AND 15) < 16" for x :: "64 word"
  proof -
    have "x AND 15 = take_bit 4 x" by (simp add: take_bit_eq_mask mask_eq_exp_minus_1)
    then show ?thesis by (simp add: unsigned_take_bit_eq take_bit_nat_def)
  qed
  then show ?thesis using hex_digit_chars by (auto simp: is_hex16_def hex16_def list_all_iff)
qed

lemma is_hex16_names:
  assumes "is_hex16 stem"
  shows "CHR ''/'' \<notin> set stem" "CHR ''.'' \<notin> set stem" "stem \<noteq> []"
  using assms by (auto simp: is_hex16_def list_all_iff is_digit_def code_def)

lemma copy_name_is_copy_name: "is_copy_name (copy_name root_key rel)"
  using hex16_chars by (simp add: is_copy_name_def copy_name_def strip_suffix_def)

lemma is_copy_nameE:
  assumes "is_copy_name name"
  obtains stem where "name = stem @ ''.json''" "is_hex16 stem"
  using assms by (auto simp: is_copy_name_def strip_suffix_Some split: option.splits)

lemma is_temp_nameE:
  assumes "is_temp_name name"
  obtains stem where "name = ''.gpty-scratch-'' @ stem @ ''.tmp''" "is_hex16 stem"
proof -
  obtain rest where "strip_prefix ''.gpty-scratch-'' name = Some rest"
    and r: "case strip_suffix ''.tmp'' rest of Some stem \<Rightarrow> is_hex16 stem | None \<Rightarrow> False"
    using assms by (auto simp: is_temp_name_def Option.bind_eq_Some_conv split: option.splits)
  then have "name = ''.gpty-scratch-'' @ rest" by (auto simp: strip_prefix_def prefix_def split: if_splits)
  moreover obtain stem where "rest = stem @ ''.tmp''" "is_hex16 stem"
    using r by (auto simp: strip_suffix_Some split: option.splits)
  ultimately show ?thesis using that by simp
qed

lemma copy_name_good: "is_copy_name name \<Longrightarrow> good_name name \<and> hd name \<noteq> CHR ''.''"
  by (erule is_copy_nameE) (use is_hex16_names hd_in_set in \<open>fastforce simp: good_name_def hd_append\<close>)

lemma temp_name_good: "is_temp_name name \<Longrightarrow> good_name name"
  by (erule is_temp_nameE) (auto simp: good_name_def dest: is_hex16_names)

lemma scratch_tmp_good: "CHR ''/'' \<notin> set (ne_suffix E) \<Longrightarrow> good_name (scratch_tmp E) \<and> hd (scratch_tmp E) = CHR ''.''"
  by (auto simp: good_name_def scratch_tmp_def)

section \<open>Files come and go in one directory\<close>

definition plain :: "fnode option \<Rightarrow> bool" where
  "plain x = (case x of None \<Rightarrow> True | Some (File _ _ _) \<Rightarrow> True | _ \<Rightarrow> False)"

lemma plain_simps [simp]: "plain None" "plain (Some (File a b c))" "\<not> plain (Some Dir)" "\<not> plain (Some (Link t))"
  by (simp_all add: plain_def)

definition tidied :: "path \<Rightarrow> fs \<Rightarrow> fs \<Rightarrow> bool" where
  "tidied d fs fs' \<longleftrightarrow>
     (\<forall>p. fs_get fs' p = fs_get fs p \<or> (\<exists>name. p = d @ [name]) \<and> plain (fs_get fs p) \<and> plain (fs_get fs' p))"

lemma tidied_refl [simp]: "tidied d fs fs"
  by (simp add: tidied_def)

lemma tidied_sym: "tidied d fs fs' \<Longrightarrow> tidied d fs' fs"
  unfolding tidied_def by metis

lemma tidied_trans [trans]:
  assumes "tidied d fs fs1" "tidied d fs1 fs2"
  shows "tidied d fs fs2"
  unfolding tidied_def
proof
  fix p
  show "fs_get fs2 p = fs_get fs p \<or> (\<exists>name. p = d @ [name]) \<and> plain (fs_get fs p) \<and> plain (fs_get fs2 p)"
    using assms [unfolded tidied_def] by metis
qed

lemma tidied_put: "plain (fs_get fs (d @ [name])) \<Longrightarrow> tidied d fs (fs_put (d @ [name]) (File a b c) fs)"
  by (auto simp: tidied_def fs_get_put)

lemma tidied_del: "plain (fs_get fs (d @ [name])) \<Longrightarrow> tidied d fs (fs_del (d @ [name]) fs)"
  by (auto simp: tidied_def fs_get_del)

lemma tidied_keeps:
  assumes "tidied d fs fs'" "\<not> plain (fs_get fs p)"
  shows "fs_get fs' p = fs_get fs p"
  using assms by (auto simp: tidied_def)

lemma tidied_dir: "tidied d fs fs' \<Longrightarrow> fs_get fs p = Some Dir \<longleftrightarrow> fs_get fs' p = Some Dir"
  by (metis plain_simps(3) tidied_keeps tidied_sym)

lemma tidied_resolve:
  assumes "tidied d fs fs'" "resolve_at fs n acc cs = Some q" "fs_get fs q = Some Dir"
  shows "resolve_at fs' n acc cs = Some q"
proof (rule resolve_at_dirs [OF _ assms(2,3)])
  fix p assume "fs_get fs p = Some Dir \<or> is_link (fs_get fs p)"
  then have "\<not> plain (fs_get fs p)" by (auto simp: is_link_def plain_def split: option.splits fnode.splits)
  then show "fs_get fs' p = fs_get fs p" by (rule tidied_keeps [OF assms(1)])
qed

lemma tidied_canonicalize:
  assumes "tidied d fs fs'" "canonicalize fs s = Some q" "fs_get fs q = Some Dir"
  shows "canonicalize fs' s = Some q" "fs_get fs' q = Some Dir"
  using assms tidied_resolve tidied_dir by (auto simp: canonicalize_def split: if_splits)

lemma is_dir_canonical: "is_dir fs s \<longleftrightarrow> (\<exists>q. canonicalize fs s = Some q \<and> fs_get fs q = Some Dir)"
  by (auto simp: is_dir_def metadata_def Option.bind_eq_Some_conv)

lemma tidied_is_dir:
  assumes "tidied d fs fs'"
  shows "is_dir fs' s = is_dir fs s"
proof -
  have "is_dir b s" if "tidied d a b" "is_dir a s" for a b
    using that(2) tidied_canonicalize [OF that(1)] unfolding is_dir_canonical by blast
  then show ?thesis using assms tidied_sym [OF assms] by blast
qed

lemma tidied_location: "tidied d fs fs' \<Longrightarrow> scratch_location fs' dir root rel = scratch_location fs dir root rel"
proof (cases "is_dir fs root")
  case True
  assume t: "tidied d fs fs'"
  obtain q where "canonicalize fs root = Some q" "fs_get fs q = Some Dir"
    using True by (auto simp: is_dir_canonical)
  then have "canonicalize fs' root = canonicalize fs root" using tidied_canonicalize [OF t] by simp
  then show ?thesis using tidied_is_dir [OF t] by (simp add: scratch_location_def note_path_def)
next
  case False
  assume t: "tidied d fs fs'"
  show ?thesis using False tidied_is_dir [OF t] by (simp add: scratch_location_def note_path_def)
qed

section \<open>The directory of the copies\<close>

definition scratch_dir :: "fs \<Rightarrow> str \<Rightarrow> path \<Rightarrow> bool" where
  "scratch_dir fs dir d \<longleftrightarrow>
     canonicalize fs dir = Some d \<and> fs_get fs d = Some Dir \<and> (\<forall>name. \<not> is_link (fs_get fs (d @ [name])))"

definition links_free :: "fs \<Rightarrow> str \<Rightarrow> bool" where
  "links_free fs dir =
     (case canonicalize fs dir of
        None \<Rightarrow> True
      | Some d \<Rightarrow> list_all (\<lambda>(p, node). butlast p = d \<longrightarrow> \<not> is_link (Some node)) fs)"

lemma links_free_dir:
  assumes "links_free fs dir" "is_dir fs dir"
  obtains d where "scratch_dir fs dir d"
proof -
  obtain d where d: "canonicalize fs dir = Some d" "fs_get fs d = Some Dir" using assms(2) by (auto simp: is_dir_canonical)
  have "\<not> is_link (fs_get fs (d @ [name]))" for name
    using assms(1) d(1)
    by (auto simp: links_free_def fs_get_def list_all_iff is_link_def split: option.splits fnode.splits dest!: map_of_SomeD)
  then show ?thesis using that d by (simp add: scratch_dir_def)
qed

lemma not_link_cases: "\<not> is_link x \<Longrightarrow> x = Some Dir \<or> plain x"
  by (auto simp: is_link_def plain_def split: option.splits fnode.splits)

lemma tidied_scratch_dir:
  assumes "tidied d fs fs'" "scratch_dir fs dir d"
  shows "scratch_dir fs' dir d"
proof -
  have "\<not> is_link (fs_get fs' (d @ [name]))" for name
  proof -
    have "fs_get fs' (d @ [name]) = fs_get fs (d @ [name]) \<or> plain (fs_get fs' (d @ [name]))"
      using assms(1) by (auto simp: tidied_def)
    moreover have "\<not> is_link x" if "plain x" for x using that by (auto simp: is_link_def plain_def split: option.splits fnode.splits)
    ultimately show ?thesis using assms(2) by (auto simp: scratch_dir_def)
  qed
  then show ?thesis using assms(2) tidied_canonicalize [OF assms(1)] by (auto simp: scratch_dir_def)
qed

lemma scratch_dir_paths:
  assumes "scratch_dir fs dir d" "good_name name"
  shows "locate fs (path_join dir name) = Some (d @ [name])"
    "read_file fs (path_join dir name) =
       (case fs_get fs (d @ [name]) of None \<Rightarrow> Inl Io_Not_Found | Some (File content _ _) \<Rightarrow> Inr content | _ \<Rightarrow> Inl Io_Other)"
    "absolute dir" "os_comps (path_join dir name) = path_names dir @ [name]"
    "resolve_at fs MAX_SYMLINKS [] (path_names dir) = Some d"
proof -
  have c: "canonicalize fs dir = Some d" and g: "fs_get fs d = Some Dir" and nl: "\<not> is_link (fs_get fs (d @ [name]))"
    using assms(1) by (simp_all add: scratch_dir_def)
  show r: "resolve_at fs MAX_SYMLINKS [] (path_names dir) = Some d" by (rule canonicalize_names [OF c])
  show a: "absolute dir" using c by (simp add: canonicalize_def split: if_splits)
  show "os_comps (path_join dir name) = path_names dir @ [name]"
    using good_name_path [OF assms(2)] by (simp add: os_comps_join)
  have "is_dir fs dir" using c g by (simp add: is_dir_canonical)
  then obtain d' where "locate fs (path_join dir name) = Some (d' @ [name])"
    "resolve_at fs MAX_SYMLINKS [] (path_names dir) = Some d'"
    by (rule locate_in_dir [OF _ assms(2)])
  then show "locate fs (path_join dir name) = Some (d @ [name])" using r by simp
  show "read_file fs (path_join dir name) =
       (case fs_get fs (d @ [name]) of None \<Rightarrow> Inl Io_Not_Found | Some (File content _ _) \<Rightarrow> Inr content | _ \<Rightarrow> Inl Io_Other)"
    by (rule read_in_dir [OF r g a assms(2) nl])
qed

text \<open>What a note's copy reads as, by the entry that holds it.\<close>

definition entry_text :: "json_text \<Rightarrow> str \<Rightarrow> str \<Rightarrow> fnode option \<Rightarrow> scratch option" where
  "entry_text J root_key rel x = (case x of Some (File bs _ _) \<Rightarrow> copy_text J root_key rel bs | _ \<Rightarrow> None)"

lemma scratch_location_Inr:
  "scratch_location fs dir root rel = Inr (root_key, p) \<longleftrightarrow>
   (\<exists>q rr. note_path fs root rel = Inr q \<and> canonicalize fs root = Some rr \<and>
      root_key = from_utf8_lossy (path_string rr) \<and> p = path_join dir (copy_name root_key rel))"
  by (auto simp: scratch_location_def Let_def)

lemma read_scratch_entry:
  assumes "scratch_dir fs dir d" "scratch_location fs dir root rel = Inr (root_key, p)"
  shows "read_scratch J fs dir root rel = Inr (entry_text J root_key rel (fs_get fs (d @ [copy_name root_key rel])))"
proof -
  have p: "p = path_join dir (copy_name root_key rel)" using assms(2) by (auto simp: scratch_location_Inr)
  have "good_name (copy_name root_key rel)" using copy_name_good copy_name_is_copy_name by blast
  from scratch_dir_paths(2) [OF assms(1) this] show ?thesis
    using assms(2) by (auto simp: read_scratch_def entry_text_def p split: option.splits fnode.splits)
qed

lemma remove_stale_cases:
  assumes "scratch_dir fs dir d" "good_name name"
  shows "remove_stale fs (path_join dir name) =
    (if plain (fs_get fs (d @ [name])) \<and> fs_get fs (d @ [name]) \<noteq> None then fs_del (d @ [name]) fs else fs)"
  using scratch_dir_paths(1) [OF assms] assms(1)
  by (auto simp: remove_stale_def remove_file_def scratch_dir_def is_link_def plain_def split: option.splits fnode.splits)

lemma remove_stale_tidied:
  assumes "scratch_dir fs dir d" "good_name name"
  shows "tidied d fs (remove_stale fs (path_join dir name))"
  using tidied_del [of fs d name] by (simp add: remove_stale_cases [OF assms])

section \<open>A prune\<close>

text \<open>A prune removes files of the directory with its own names, and only those whose record or age
  says so.\<close>

definition prunable :: "json_text \<Rightarrow> scratch_env \<Rightarrow> fs \<Rightarrow> str \<Rightarrow> str \<Rightarrow> bool" where
  "prunable J E fs dir name \<longleftrightarrow>
     is_copy_name name \<and> copy_is_orphaned J fs (path_join dir name) \<or> is_temp_name name"

lemma prune_entry_cases:
  "prune_entry J E dir name fs = fs \<or>
   prune_entry J E dir name fs = remove_stale fs (path_join dir name) \<and> prunable J E fs dir name"
  by (auto simp: prune_entry_def prunable_def Let_def)

lemma prune_entry_spec:
  assumes "scratch_dir fs dir d"
  shows "tidied d fs (prune_entry J E dir name fs)"
    "fs_get (prune_entry J E dir name fs) (d @ [n]) = fs_get fs (d @ [n]) \<or>
     fs_get (prune_entry J E dir name fs) (d @ [n]) = None \<and> n = name \<and> prunable J E fs dir n"
proof -
  have good: "good_name name" if "prunable J E fs dir name"
    using that copy_name_good temp_name_good by (auto simp: prunable_def)
  show "tidied d fs (prune_entry J E dir name fs)"
    using prune_entry_cases [of J E dir name fs] remove_stale_tidied [OF assms good] by auto
  show "fs_get (prune_entry J E dir name fs) (d @ [n]) = fs_get fs (d @ [n]) \<or>
     fs_get (prune_entry J E dir name fs) (d @ [n]) = None \<and> n = name \<and> prunable J E fs dir n"
    using prune_entry_cases [of J E dir name fs] remove_stale_cases [OF assms good] by (auto simp: fs_get_del split: if_splits)
qed

text \<open>A canonical directory resolves to itself.\<close>

lemma absolute_path_string: "absolute (path_string p)"
  by (cases p) (simp_all add: path_string_def display_def absolute_def)

lemma path_names_display: "list_all good_name p \<Longrightarrow> path_names (display p) = p"
proof (induction p)
  case Nil
  then show ?case by (simp add: display_def path_names_def)
next
  case (Cons c p)
  have "path_names (display (c # p)) = path_names c @ path_names (display p)"
    by (cases p) (simp_all add: display_def path_names_def split_slash_append)
  then show ?case using Cons good_name_path by simp
qed

lemma os_comps_path_string:
  assumes "list_all good_name p"
  shows "os_comps (path_string p) = p @ (if p = [] then [''.''] else [])"
proof (cases p rule: rev_cases)
  case Nil
  then show ?thesis by (simp add: path_string_def os_comps_def path_names_def)
next
  case (snoc q c)
  have "display p = display q @ CHR ''/'' # c" by (simp add: snoc display_def)
  then have "last (split_slash (display p)) = c"
    using assms by (simp add: snoc split_slash_append split_slash_no_slash good_name_def)
  then show ?thesis
    using assms path_names_display [OF assms] by (auto simp: snoc path_string_def os_comps_def good_name_def)
qed

lemma resolve_real: "fs_ok fs \<Longrightarrow> fs_get fs p = Some Dir \<Longrightarrow> resolve_at fs n [] p = Some p"
proof (induction p rule: rev_induct)
  case (snoc c p)
  have "fs_get fs p = Some Dir" using fs_ok_parent [OF snoc(2,3)] by simp
  moreover have "good_name c" using fs_ok_names [OF snoc(2,3)] by simp
  ultimately show ?case using snoc by (intro resolve_at_snoc) (auto simp: good_name_def is_link_def)
qed simp

lemma canonicalize_real:
  assumes "fs_ok fs" "fs_get fs p = Some Dir"
  shows "canonicalize fs (path_string p) = Some p"
  using resolve_real [OF assms] os_comps_path_string [OF fs_ok_names [OF assms]] absolute_path_string
  by (auto simp: canonicalize_def resolve_at.simps(2))

text \<open>So the copy of a note whose vault is there survives.\<close>

lemma live_copy_not_prunable:
  assumes "scratch_dir fs dir d" "canonicalize fs root_key = Some rr" "fs_get fs rr = Some Dir"
    and "entry_text J root_key rel (fs_get fs (d @ [copy_name root_key rel])) = Some s"
  shows "\<not> prunable J E fs dir (copy_name root_key rel)"
proof -
  let ?n = "copy_name root_key rel"
  have good: "good_name ?n" "hd ?n \<noteq> CHR ''.''" using copy_name_good [OF copy_name_is_copy_name] by auto
  then have t: "\<not> is_temp_name ?n" by (auto elim: is_temp_nameE)
  obtain bs a b where e: "fs_get fs (d @ [?n]) = Some (File bs a b)" "copy_text J root_key rel bs = Some s"
    using assms(4) by (auto simp: entry_text_def split: option.splits fnode.splits)
  then obtain document where doc: "from_text J bs = Some document" "Option.bind (jget document ''vault'') jstr = Some root_key"
    by (auto simp: copy_text_def split: option.splits if_splits)
  have "read_file fs (path_join dir ?n) = Inr bs" using scratch_dir_paths(2) [OF assms(1) good(1)] e(1) by simp
  moreover have "stat fs root_key = Inr Dir" unfolding stat_Inr metadata_def using assms(2,3) by simp
  ultimately have "\<not> copy_is_orphaned J fs (path_join dir ?n)" using doc by (simp add: copy_is_orphaned_def)
  then show ?thesis using t by (simp add: prunable_def)
qed

lemma prune_entries_text:
  assumes "scratch_dir fs dir d" "canonicalize fs root_key = Some rr" "fs_get fs rr = Some Dir"
  shows "tidied d fs (fold (prune_entry J E dir) names fs)"
    "entry_text J root_key rel (fs_get (fold (prune_entry J E dir) names fs) (d @ [copy_name root_key rel])) =
     entry_text J root_key rel (fs_get fs (d @ [copy_name root_key rel]))"
proof -
  let ?n = "copy_name root_key rel"
  have "tidied d fs (fold (prune_entry J E dir) names fs) \<and>
    entry_text J root_key rel (fs_get (fold (prune_entry J E dir) names fs) (d @ [?n])) =
    entry_text J root_key rel (fs_get fs (d @ [?n]))"
    using assms
  proof (induction names arbitrary: fs)
    case (Cons name names)
    let ?fs1 = "prune_entry J E dir name fs"
    have t: "tidied d fs ?fs1" by (rule prune_entry_spec(1) [OF Cons(2)])
    have "entry_text J root_key rel (fs_get ?fs1 (d @ [?n])) = entry_text J root_key rel (fs_get fs (d @ [?n]))"
      using prune_entry_spec(2) [OF Cons(2), of J E name ?n] live_copy_not_prunable [OF Cons(2-4)]
      by (cases "entry_text J root_key rel (fs_get fs (d @ [?n]))") (auto simp: entry_text_def)
    then show ?case
      using Cons(1) [OF tidied_scratch_dir [OF t Cons(2)] tidied_canonicalize [OF t Cons(3,4)]] tidied_trans [OF t] by simp
  qed simp
  then show "tidied d fs (fold (prune_entry J E dir) names fs)"
    "entry_text J root_key rel (fs_get (fold (prune_entry J E dir) names fs) (d @ [?n])) =
     entry_text J root_key rel (fs_get fs (d @ [?n]))" by blast+
qed

lemma prune_scratch_tidied:
  assumes "scratch_dir fs dir d"
  shows "tidied d fs (prune_scratch J E dir fs)"
proof -
  have "tidied d fs (fold (prune_entry J E dir) names fs)" for names
    using assms
  proof (induction names arbitrary: fs)
    case (Cons name names)
    then show ?case
      using prune_entry_spec(1) [OF Cons(2)] tidied_scratch_dir tidied_trans by (metis fold_simps(2))
  qed simp
  then show ?thesis by (simp add: prune_scratch_def split: option.split)
qed

lemma prune_scratch_text:
  assumes "fs_ok fs" "is_dir fs dir" "links_free fs dir" "canonicalize fs root = Some rr" "utf8_valid (path_string rr)"
  shows "read_scratch J (prune_scratch J E dir fs) dir root rel = read_scratch J fs dir root rel"
proof -
  obtain d where d: "scratch_dir fs dir d" by (rule links_free_dir [OF assms(3,2)])
  have t: "tidied d fs (prune_scratch J E dir fs)" by (rule prune_scratch_tidied [OF d])
  show ?thesis
  proof (cases "scratch_location fs dir root rel")
    case (Inl e)
    then show ?thesis using tidied_location [OF t] by (simp add: read_scratch_def)
  next
    case (Inr kp)
    obtain root_key p where loc: "scratch_location fs dir root rel = Inr (root_key, p)" using Inr by (cases kp) simp
    then have k: "root_key = path_string rr" and "is_dir fs root"
      using assms(4,5) note_path_Inr(3) by (auto simp: scratch_location_Inr from_utf8_lossy_valid)
    then have "fs_get fs rr = Some Dir" using assms(4) by (simp add: is_dir_canonical)
    then have c: "canonicalize fs root_key = Some rr" "fs_get fs rr = Some Dir" using canonicalize_real [OF assms(1)] k by simp_all
    show ?thesis
      using read_scratch_entry [OF d loc] read_scratch_entry [OF tidied_scratch_dir [OF t d], of root rel root_key p]
        prune_entries_text(2) [OF d c, of J rel E] tidied_location [OF t] loc
      by (auto simp: prune_scratch_def split: option.splits)
  qed
qed

text \<open>A prune costs no live note its copy: in a file system whose recovery directory holds no
  links, for every note of a vault that is there and whose path is text, what the recovery copy
  reads as is the same before and after.\<close>

theorem prune_keeps_live_copies:
  assumes "fs_ok fs" "is_dir fs dir" "links_free fs dir" "canonicalize fs root = Some rr" "utf8_valid (path_string rr)"
  shows "read_scratch J (prune_scratch J E dir fs) dir root rel = read_scratch J fs dir root rel"
  by (rule prune_scratch_text [OF assms])

section \<open>A write\<close>

lemma resolve_create_in_dir:
  assumes "resolve_at fs n acc cs = Some d" "fs_get fs d = Some Dir" "good_name name" "\<not> is_link (fs_get fs (d @ [name]))"
  shows "resolve_create fs n acc (cs @ [name]) = Some (d @ [name])"
proof -
  have "resolves fs n acc cs q \<Longrightarrow> fs_get fs q = Some Dir \<and> \<not> is_link (fs_get fs (q @ [name])) \<Longrightarrow>
      resolve_create fs n acc (cs @ [name]) = Some (q @ [name])" for n acc cs q
  proof (induction rule: resolves.induct)
    case (at_end n acc)
    then show ?case
      using assms(3) by (auto simp: resolve_create.simps(2) good_name_def is_link_def split: option.splits fnode.splits)
  next
    case (enter acc c n cs q)
    then show ?case
      by (auto simp: resolve_create.simps(2) [of _ _ _ c] is_link_def split: option.splits fnode.splits)
  qed (simp_all add: resolve_create.simps(2))
  then show ?thesis using assms by (simp add: resolve_at_iff)
qed

lemma write_file_in_dir:
  assumes "scratch_dir fs dir d" "good_name name" "write_file E fs (path_join dir name) content = (fs', r)"
  shows "r = Inr () \<and> ne_write_ok E \<and> (\<exists>t m. fs' = fs_put (d @ [name]) (File content t m) fs) \<and> plain (fs_get fs (d @ [name])) \<or>
    (\<exists>e. r = Inl e) \<and> (fs' = fs \<or> plain (fs_get fs (d @ [name])) \<and> (\<exists>t m. fs' = fs_put (d @ [name]) (File [] t m) fs))"
proof -
  note paths = scratch_dir_paths [OF assms(1,2)]
  have nl: "\<not> is_link (fs_get fs (d @ [name]))" and g: "fs_get fs d = Some Dir" using assms(1) by (simp_all add: scratch_dir_def)
  have "resolve_create fs MAX_SYMLINKS [] (os_comps (path_join dir name)) = Some (d @ [name])"
    using resolve_create_in_dir [OF paths(5) g assms(2) nl] paths(4) by simp
  then show ?thesis
    using assms(3) nl absolute_join [OF paths(3)]
    by (auto simp: write_file_def Let_def is_link_def split: option.splits fnode.splits if_splits)
qed

lemma restrict_in_dir:
  assumes "scratch_dir fs dir d" "good_name name" "fs_get fs (d @ [name]) = Some (File content t m)"
  shows "\<exists>m'. fs_get (restrict_to_owner E fs (path_join dir name)) = (fs_get fs)(d @ [name] \<mapsto> File content t m')"
  using scratch_dir_paths(1) [OF assms(1,2)] assms(3)
  by (auto simp: restrict_to_owner_def fs_get_put fun_eq_iff)

lemma tidied_gets:
  assumes "fs_get fs' = (fs_get fs)(d @ [name] := x)" "plain (fs_get fs (d @ [name]))" "plain x"
  shows "tidied d fs fs'"
  using assms by (auto simp: tidied_def)

text \<open>Only the copy's name and the temporary one change; either the copy is replaced, or it is as it
  was.\<close>

definition copy_replaced :: "path \<Rightarrow> str \<Rightarrow> str \<Rightarrow> bytes \<Rightarrow> fs \<Rightarrow> fs \<Rightarrow> bool \<Rightarrow> bool" where
  "copy_replaced d name tmp content fs fs' ok \<longleftrightarrow> tidied d fs fs' \<and>
     (\<forall>n. n \<noteq> name \<and> n \<noteq> tmp \<longrightarrow> fs_get fs' (d @ [n]) = fs_get fs (d @ [n])) \<and>
     (if ok then \<exists>t m. fs_get fs' (d @ [name]) = Some (File content t m)
      else fs_get fs' (d @ [name]) = fs_get fs (d @ [name]))"

lemma undone_copy:
  assumes "scratch_dir fs1 dir d" "good_name tmp" "name \<noteq> tmp" "tidied d fs fs1"
    and "\<And>n. n \<noteq> tmp \<Longrightarrow> fs_get fs1 (d @ [n]) = fs_get fs (d @ [n])"
  shows "copy_replaced d name tmp content fs (remove_stale fs1 (path_join dir tmp)) False"
  using assms(3,5) tidied_trans [OF assms(4) remove_stale_tidied [OF assms(1,2)]] remove_stale_cases [OF assms(1,2)]
  by (auto simp: copy_replaced_def fs_get_del)

lemma replace_copy_spec:
  assumes "scratch_dir fs dir d" "good_name name" "good_name (scratch_tmp E)" "name \<noteq> scratch_tmp E"
    and "replace_copy E fs dir (path_join dir name) content = (fs', r)"
  shows "copy_replaced d name (scratch_tmp E) content fs fs' (r = Inr ())"
proof -
  let ?t = "d @ [scratch_tmp E]" and ?q = "d @ [name]" and ?tmp = "path_join dir (scratch_tmp E)"
  obtain fs1 w where w: "write_file E fs ?tmp content = (fs1, w)" by fastforce
  show ?thesis
  proof (cases w)
    case (Inl e)
    then have r: "fs' = remove_stale fs1 ?tmp" "r \<noteq> Inr ()" using w assms(5) by (auto simp: replace_copy_def Let_def)
    have "fs1 = fs \<or> plain (fs_get fs ?t) \<and> (\<exists>t m. fs1 = fs_put ?t (File [] t m) fs)"
      using write_file_in_dir [OF assms(1,3) w] Inl by auto
    then have t1: "tidied d fs fs1" and k1: "\<And>n. n \<noteq> scratch_tmp E \<Longrightarrow> fs_get fs1 (d @ [n]) = fs_get fs (d @ [n])"
      using tidied_put by (auto simp: fs_get_put)
    show ?thesis
      using undone_copy [OF tidied_scratch_dir [OF t1 assms(1)] assms(3,4) t1 k1] r by simp
  next
    case (Inr u)
    then obtain t m where f1: "fs1 = fs_put ?t (File content t m) fs" and p: "plain (fs_get fs ?t)"
      using write_file_in_dir [OF assms(1,3) w] by auto
    have sd1: "scratch_dir fs1 dir d" using tidied_scratch_dir [OF tidied_put assms(1)] p by (simp add: f1)
    have "fs_get fs1 ?t = Some (File content t m)" by (simp add: f1 fs_get_put)
    then obtain m' where g2: "fs_get (restrict_to_owner E fs1 ?tmp) = (fs_get fs1)(?t \<mapsto> File content t m')"
      using restrict_in_dir [OF sd1 assms(3)] by blast
    let ?fs2 = "restrict_to_owner E fs1 ?tmp"
    have gets: "fs_get ?fs2 = (fs_get fs)(?t \<mapsto> File content t m')" using g2 by (simp add: f1 fs_get_put fun_eq_iff)
    have t2: "tidied d fs ?fs2" by (rule tidied_gets [OF gets p]) simp
    have sd2: "scratch_dir ?fs2 dir d" by (rule tidied_scratch_dir [OF t2 assms(1)])
    note loc = scratch_dir_paths(1) [OF sd2 assms(3)] scratch_dir_paths(1) [OF sd2 assms(2)]
    show ?thesis
    proof (cases "ne_rename_ok E \<and> fs_get ?fs2 ?q \<noteq> Some Dir")
      case True
      then have "fs' = fs_put ?q (File content t m') (fs_del ?t ?fs2)" "r = Inr ()"
        using w Inr loc assms(4,5) by (simp_all add: replace_copy_def Let_def rename_file_def gets)
      moreover have "plain (fs_get fs ?q)"
        using not_link_cases [of "fs_get fs ?q"] assms(1,4) True by (auto simp: scratch_dir_def gets)
      ultimately show ?thesis using p by (auto simp: copy_replaced_def tidied_def fs_get_put fs_get_del gets)
    next
      case False
      then have "(if ne_rename_ok E then rename_file ?fs2 ?tmp (path_join dir name) else Inl Io_Other) = Inl Io_Other"
        using loc assms(4) by (auto simp: rename_file_def gets)
      then have "fs' = remove_stale ?fs2 ?tmp" "r \<noteq> Inr ()"
        using w Inr assms(5) by (auto simp: replace_copy_def Let_def)
      then show ?thesis using undone_copy [OF sd2 assms(3,4) t2] by (simp add: gets)
    qed
  qed
qed

lemma copy_name_not_tmp: "CHR ''/'' \<notin> set (ne_suffix E) \<Longrightarrow> copy_name root_key rel \<noteq> scratch_tmp E"
  using copy_name_good [OF copy_name_is_copy_name] scratch_tmp_good by metis

lemma replace_copy_named:
  assumes "scratch_dir fs dir d" "CHR ''/'' \<notin> set (ne_suffix E)"
    and "replace_copy E fs dir (path_join dir (copy_name root_key rel)) content = (fs', r)"
  shows "copy_replaced d (copy_name root_key rel) (scratch_tmp E) content fs fs' (r = Inr ())"
  using replace_copy_spec [OF assms(1) _ _ copy_name_not_tmp [OF assms(2)] assms(3)]
    copy_name_good [OF copy_name_is_copy_name] scratch_tmp_good [OF assms(2)] by blast

section \<open>Directories made on the way\<close>

lemma make_dir_Inr:
  assumes "make_dir fs before c = Inr fs'"
  shows "names_are_dir fs' (before @ [c])" "fs_get fs p = Some x \<Longrightarrow> fs_get fs' p = Some x"
proof -
  obtain q where q: "resolve_at fs MAX_SYMLINKS [] before = Some q" "fs_get fs q = Some Dir" "c \<noteq> ''.''" "c \<noteq> ''..''"
    "fs_get fs (q @ [c]) = None" "fs' = fs_put (q @ [c]) Dir fs"
    using assms resolve_err_Inr by (auto simp: make_dir_def split: sum.splits if_splits)
  show keep: "fs_get fs p = Some x \<Longrightarrow> fs_get fs' p = Some x" for p x using q(5,6) by (auto simp: fs_get_put)
  have "resolve_at fs' MAX_SYMLINKS [] (before @ [c]) = Some (q @ [c])"
    using resolve_at_mono [OF keep q(1)] keep [OF q(2)] q(3,4,6)
    by (intro resolve_at_snoc) (simp_all add: fs_get_put is_link_def)
  then show "names_are_dir fs' (before @ [c])" by (simp add: names_are_dir_def q(6) fs_get_put)
qed

lemma make_dirs_spec:
  assumes "make_dirs fs before cs = (fs', r)"
  shows "fs_get fs p = Some x \<Longrightarrow> fs_get fs' p = Some x" "r = Inr () \<Longrightarrow> cs \<noteq> [] \<Longrightarrow> names_are_dir fs' (before @ cs)"
proof -
  have "(fs_get fs p = Some x \<longrightarrow> fs_get fs' p = Some x) \<and> (r = Inr () \<and> cs \<noteq> [] \<longrightarrow> names_are_dir fs' (before @ cs))"
    using assms
  proof (induction fs before cs rule: make_dirs.induct)
    case (2 fs before c cs)
    show ?case
    proof (cases "names_are_dir fs (before @ [c])")
      case True
      then show ?thesis using 2(1,3) by (cases "cs = []") auto
    next
      case False
      show ?thesis
      proof (cases "make_dir fs before c")
        case (Inr fs1)
        note made = make_dir_Inr [OF Inr]
        have "make_dirs fs1 (before @ [c]) cs = (fs', r)" using 2(3) False Inr by simp
        then show ?thesis using 2(2) [OF False Inr] made by (cases "cs = []") auto
      qed (use 2(3) False in auto)
    qed
  qed simp
  then show "fs_get fs p = Some x \<Longrightarrow> fs_get fs' p = Some x" "r = Inr () \<Longrightarrow> cs \<noteq> [] \<Longrightarrow> names_are_dir fs' (before @ cs)" by blast+
qed

lemma resolve_at_end_dot:
  assumes "resolve_at fs n acc cs = Some p" "fs_get fs p = Some Dir"
  shows "resolve_at fs n acc (cs @ [''.'']) = Some p"
proof -
  have "resolves fs n acc cs p \<Longrightarrow> fs_get fs p = Some Dir \<Longrightarrow> resolves fs n acc (cs @ [''.'']) p"
  proof (induction rule: resolves.induct)
    case (follow acc d t n cs q)
    then show ?case using resolves.follow [OF follow(1-5), of n "cs @ [''.'']"] by simp
  next
    case (enter acc d n cs q)
    then show ?case using resolves.enter [OF enter(1-5), of n "cs @ [''.'']"] by simp
  qed (auto intro!: resolves.intros)
  then show ?thesis using assms by (simp add: resolve_at_iff)
qed

lemma create_dir_all_spec:
  assumes "create_dir_all fs dir = (fs', r)"
  shows "fs_get fs p = Some x \<Longrightarrow> fs_get fs' p = Some x" "r = Inr () \<Longrightarrow> is_dir fs' dir"
proof -
  show "fs_get fs p = Some x \<Longrightarrow> fs_get fs' p = Some x"
    using assms make_dirs_spec(1) by (auto simp: create_dir_all_def split: if_splits)
  assume r: "r = Inr ()"
  then have a: "absolute dir" and m: "make_dirs fs [] (path_names dir) = (fs', Inr ())"
    using assms by (auto simp: create_dir_all_def split: if_splits)
  have "names_are_dir fs' (path_names dir)"
    using make_dirs_spec(2) [OF m] by (cases "path_names dir = []") (auto simp: names_are_dir_def)
  then obtain q where "resolve_at fs' MAX_SYMLINKS [] (path_names dir) = Some q" "fs_get fs' q = Some Dir"
    by (auto simp: names_are_dir_def split: option.splits)
  then show "is_dir fs' dir" using a resolve_at_end_dot by (auto simp: is_dir_canonical canonicalize_def os_comps_def)
qed

lemma location_mono:
  assumes "\<And>p x. fs_get fs p = Some x \<Longrightarrow> fs_get fs' p = Some x" "scratch_location fs dir root rel = Inr kp"
  shows "scratch_location fs' dir root rel = Inr kp"
proof -
  obtain k p where kp: "kp = (k, p)" by (cases kp)
  obtain q rr where q: "note_path fs root rel = Inr q" "canonicalize fs root = Some rr"
    "k = from_utf8_lossy (path_string rr)" "p = path_join dir (copy_name k rel)"
    using assms(2) unfolding kp scratch_location_Inr by blast
  have c: "canonicalize fs' root = Some rr"
    using q(2) resolve_at_mono [OF assms(1)] by (simp add: canonicalize_def split: if_splits)
  moreover have "fs_get fs rr = Some Dir" using note_path_Inr(3) [OF q(1)] q(2) by (simp add: is_dir_canonical)
  ultimately have "is_dir fs' root" using assms(1) by (simp add: is_dir_canonical)
  then have "note_path fs' root rel = note_path fs root rel" using note_path_Inr(3) [OF q(1)] by (simp add: note_path_def)
  then show ?thesis using q c unfolding kp scratch_location_Inr by auto
qed

section \<open>What is written is what is read\<close>

definition stamp_ok :: "note_stamp \<Rightarrow> bool" where
  "stamp_ok s \<longleftrightarrow> - (2 ^ 63) \<le> st_mtime s \<and> st_mtime s < 2 ^ 63 \<and> - (2 ^ 63) \<le> st_size s \<and> st_size s < 2 ^ 63"

lemma copy_text_written:
  assumes "json_text_law J" "stamp_ok stamp"
  shows "copy_text J key2 rel2 (to_text J (scratch_json root_key rel content stamp)) =
    (if key2 = root_key \<and> rel2 = rel then Some \<lparr>sc_text = content, sc_stamp = stamp\<rparr> else None)"
proof -
  have "serde_value (scratch_json root_key rel content stamp)"
    using assms(2) by (simp add: scratch_json_def stamp_ok_def)
  then have "from_text J (to_text J (scratch_json root_key rel content stamp)) = Some (scratch_json root_key rel content stamp)"
    using assms(1) by (simp add: json_text_law_def)
  then show ?thesis
    using assms(2) by (auto simp: copy_text_def scratch_json_def int_of_field_def stamp_ok_def)
qed

lemma write_scratch_steps:
  assumes "write_scratch J E fs dir root rel content stamp = (fs', r)"
  obtains "fs' = fs" "r \<noteq> Inr ()"
  | "fs' = prune_scratch J E dir fs" "r \<noteq> Inr ()"
  | e where "fs' = fst (create_dir_all (prune_scratch J E dir fs) dir)" "r = Inl e"
      "snd (create_dir_all (prune_scratch J E dir fs) dir) \<noteq> Inr ()"
  | root_key p fs1 where "scratch_location (prune_scratch J E dir fs) dir root rel = Inr (root_key, p)"
      "create_dir_all (prune_scratch J E dir fs) dir = (fs1, Inr ())"
      "replace_copy E fs1 dir p (to_text J (scratch_json root_key rel content stamp)) = (fs', r)"
  using assms
  by (auto simp: write_scratch_def Let_def ensure_private_dir_def split: if_splits sum.splits prod.splits)

lemma written_copy:
  assumes "json_text_law J" "stamp_ok stamp" "CHR ''/'' \<notin> set (ne_suffix E)"
    and "links_free (fst (create_dir_all fs dir)) dir"
    and "write_scratch J E fs dir root rel content stamp = (fs', Inr ())"
  obtains d root_key p where "scratch_dir fs' dir d" "scratch_location fs' dir root rel = Inr (root_key, p)"
    "\<exists>t m. fs_get fs' (d @ [copy_name root_key rel]) =
       Some (File (to_text J (scratch_json root_key rel content stamp)) t m)"
proof -
  let ?fs0 = "prune_scratch J E dir fs"
  obtain root_key p fs1 where w: "scratch_location ?fs0 dir root rel = Inr (root_key, p)"
    "create_dir_all ?fs0 dir = (fs1, Inr ())"
    "replace_copy E fs1 dir p (to_text J (scratch_json root_key rel content stamp)) = (fs', Inr ())"
    by (rule write_scratch_steps [OF assms(5)]) auto
  have "\<exists>d. scratch_dir fs1 dir d"
  proof (cases "is_dir fs dir")
    case True
    then obtain d where d: "scratch_dir fs dir d"
      using assms(4) links_free_dir by (auto simp: create_dir_all_exists)
    note t = prune_scratch_tidied [OF d, of J E]
    have "fs1 = ?fs0" using w(2) create_dir_all_exists [of ?fs0 dir] tidied_is_dir [OF t] True by simp
    then show ?thesis using tidied_scratch_dir [OF t d] by blast
  next
    case False
    then have "?fs0 = fs" by (auto simp: prune_scratch_def read_dir_def is_dir_canonical split: option.splits)
    then show ?thesis using w(2) create_dir_all_spec(2) [OF w(2)] assms(4) by (auto elim!: links_free_dir)
  qed
  then obtain d where d: "scratch_dir fs1 dir d" ..
  have p: "p = path_join dir (copy_name root_key rel)" using w(1) by (auto simp: scratch_location_Inr)
  have rep: "copy_replaced d (copy_name root_key rel) (scratch_tmp E) (to_text J (scratch_json root_key rel content stamp)) fs1 fs' True"
    using replace_copy_named [OF d assms(3) w(3) [unfolded p]] by simp
  then have t: "tidied d fs1 fs'" by (simp add: copy_replaced_def)
  have "scratch_location fs1 dir root rel = Inr (root_key, p)"
    by (rule location_mono [OF create_dir_all_spec(1) [OF w(2)] w(1)])
  then show ?thesis
    using that [OF tidied_scratch_dir [OF t d]] tidied_location [OF t] rep by (auto simp: copy_replaced_def)
qed

text \<open>A recovery copy that was written is read back: after a write that succeeded, into a directory
  that holds no links once it is there, reading the same note's copy answers exactly the text and
  the stamp that were written.\<close>

theorem scratch_roundtrip:
  assumes "json_text_law J" "stamp_ok stamp" "CHR ''/'' \<notin> set (ne_suffix E)"
    and "links_free (fst (create_dir_all fs dir)) dir"
    and "write_scratch J E fs dir root rel content stamp = (fs', Inr ())"
  shows "read_scratch J fs' dir root rel = Inr (Some \<lparr>sc_text = content, sc_stamp = stamp\<rparr>)"
proof -
  obtain d root_key p where w: "scratch_dir fs' dir d" "scratch_location fs' dir root rel = Inr (root_key, p)"
    "\<exists>t m. fs_get fs' (d @ [copy_name root_key rel]) =
       Some (File (to_text J (scratch_json root_key rel content stamp)) t m)"
    by (rule written_copy [OF assms])
  then show ?thesis
    using read_scratch_entry [OF w(1,2)] copy_text_written [OF assms(1,2)] by (auto simp: entry_text_def)
qed

definition demo_scratch_env :: scratch_env where
  "demo_scratch_env = \<lparr>ne_suffix = ''00000000000000ff'', ne_now = 7, ne_mode = 420, ne_write_ok = True, ne_mode_ok = True,
     ne_rename_ok = True, ne_error = [], sv_dir_mtime = (\<lambda>_. 0)\<rparr>"

definition demo_scratch_fs :: fs where "demo_scratch_fs = [([''s''], Dir), ([''v''], Dir)]"

definition demo_stamp :: note_stamp where "demo_stamp = \<lparr>st_mtime = 3, st_size = 5\<rparr>"

lemma demo_prune: "prune_scratch J demo_scratch_env ''/s'' demo_scratch_fs = demo_scratch_fs"
proof -
  have "read_dir demo_scratch_fs ''/s'' = Some []" by code_simp
  then show ?thesis by (simp add: prune_scratch_def)
qed

lemma demo_scratch_location:
  "scratch_location demo_scratch_fs ''/s'' ''/v'' ''a.md'' = Inr (''/v'', path_join ''/s'' (copy_name ''/v'' ''a.md''))"
  by code_simp

lemma demo_scratch_write:
  "snd (write_scratch J demo_scratch_env demo_scratch_fs ''/s'' ''/v'' ''a.md'' ''x'' demo_stamp) = Inr ()"
proof -
  have "snd (replace_copy demo_scratch_env demo_scratch_fs ''/s'' (path_join ''/s'' (copy_name ''/v'' ''a.md'')) bs) = Inr ()" for bs
    by code_simp
  moreover have "is_dir demo_scratch_fs ''/s''" by code_simp
  moreover have "\<not> MAX_SCRATCH_BYTES < length ''x''" by (simp add: MAX_SCRATCH_BYTES_def MAX_NOTE_BYTES_def)
  ultimately show ?thesis
    by (simp add: write_scratch_def demo_prune demo_scratch_location ensure_private_dir_def create_dir_all_exists Let_def)
qed

theorem scratch_roundtrip_witness:
  "read_scratch unary_text
     (fst (write_scratch unary_text demo_scratch_env demo_scratch_fs ''/s'' ''/v'' ''a.md'' ''x'' demo_stamp)) ''/s'' ''/v'' ''a.md''
   = Inr (Some \<lparr>sc_text = ''x'', sc_stamp = demo_stamp\<rparr>)"
proof (rule scratch_roundtrip [OF unary_text_law])
  show "stamp_ok demo_stamp" by (simp add: stamp_ok_def demo_stamp_def)
  show "CHR ''/'' \<notin> set (ne_suffix demo_scratch_env)" by (simp add: demo_scratch_env_def)
  have "is_dir demo_scratch_fs ''/s''" by code_simp
  moreover have "links_free demo_scratch_fs ''/s''" by code_simp
  ultimately show "links_free (fst (create_dir_all demo_scratch_fs ''/s'')) ''/s''" by (simp add: create_dir_all_exists)
  show "write_scratch unary_text demo_scratch_env demo_scratch_fs ''/s'' ''/v'' ''a.md'' ''x'' demo_stamp =
    (fst (write_scratch unary_text demo_scratch_env demo_scratch_fs ''/s'' ''/v'' ''a.md'' ''x'' demo_stamp), Inr ())"
    using demo_scratch_write [of unary_text] by (metis prod.collapse)
qed

theorem prune_keeps_live_copies_witness:
  "read_scratch unary_text (prune_scratch unary_text demo_scratch_env ''/s'' demo_scratch_fs) ''/s'' ''/v'' ''a.md'' =
   read_scratch unary_text demo_scratch_fs ''/s'' ''/v'' ''a.md''"
proof (rule prune_keeps_live_copies)
  show "fs_ok demo_scratch_fs" by code_simp
  show "is_dir demo_scratch_fs ''/s''" by code_simp
  show "links_free demo_scratch_fs ''/s''" by code_simp
  show "canonicalize demo_scratch_fs ''/v'' = Some [''v'']" by code_simp
  show "utf8_valid (path_string [''v''])" by code_simp
qed

text \<open>Writing the copy of one note leaves the others' alone: whatever the write's outcome, another
  note's copy reads as before - unless the two notes' hashes are the same, and then it reads as
  absent, never as the other note's text.\<close>

theorem write_scratch_isolated:
  assumes "json_text_law J" "stamp_ok stamp" "CHR ''/'' \<notin> set (ne_suffix E)"
    and "fs_ok fs" "is_dir fs dir" "links_free fs dir"
    and "canonicalize fs root = Some rr" "utf8_valid (path_string rr)"
    and "canonicalize fs root' = Some rr'" "utf8_valid (path_string rr')"
    and "(path_string rr, rel) \<noteq> (path_string rr', rel')"
    and "write_scratch J E fs dir root rel content stamp = (fs', r)"
  shows "read_scratch J fs' dir root' rel' = read_scratch J fs dir root' rel' \<or>
    read_scratch J fs' dir root' rel' = Inr None \<and> copy_name (path_string rr) rel = copy_name (path_string rr') rel'"
proof -
  let ?fs0 = "prune_scratch J E dir fs" and ?n = "copy_name (path_string rr) rel" and ?n' = "copy_name (path_string rr') rel'"
  obtain d where d: "scratch_dir fs dir d" by (rule links_free_dir [OF assms(6,5)])
  have t0: "tidied d fs ?fs0" by (rule prune_scratch_tidied [OF d])
  have d0: "scratch_dir ?fs0 dir d" by (rule tidied_scratch_dir [OF t0 d])
  have same0: "read_scratch J ?fs0 dir root' rel' = read_scratch J fs dir root' rel'"
    by (rule prune_scratch_text [OF assms(4-6,9,10)])
  have c0: "create_dir_all ?fs0 dir = (?fs0, Inr ())"
    using create_dir_all_exists tidied_is_dir [OF t0] assms(5) by simp
  show ?thesis
  proof (rule write_scratch_steps [OF assms(12)])
    fix root_key p fs1
    assume w: "scratch_location ?fs0 dir root rel = Inr (root_key, p)" "create_dir_all ?fs0 dir = (fs1, Inr ())"
      "replace_copy E fs1 dir p (to_text J (scratch_json root_key rel content stamp)) = (fs', r)"
    have k: "root_key = path_string rr" "p = path_join dir ?n" "fs1 = ?fs0"
      using w(1,2) c0 tidied_location [OF t0] assms(7,8) by (auto simp: scratch_location_Inr from_utf8_lossy_valid)
    have rep: "copy_replaced d ?n (scratch_tmp E) (to_text J (scratch_json (path_string rr) rel content stamp)) ?fs0 fs' (r = Inr ())"
      using replace_copy_named [OF d0 assms(3)] w(3) by (simp add: k)
    then have t1: "tidied d ?fs0 fs'" by (simp add: copy_replaced_def)
    show ?thesis
    proof (cases "scratch_location ?fs0 dir root' rel'")
      case (Inl e)
      then show ?thesis using same0 tidied_location [OF t1] by (simp add: read_scratch_def)
    next
      case (Inr kp)
      then have "scratch_location ?fs0 dir root' rel' = Inr (path_string rr', path_join dir ?n')"
        using tidied_location [OF t0] assms(9,10) by (cases kp) (auto simp: scratch_location_Inr from_utf8_lossy_valid)
      note reads = read_scratch_entry [OF d0 this] read_scratch_entry [OF tidied_scratch_dir [OF t1 d0] this [folded tidied_location [OF t1]]]
      have ne: "?n' \<noteq> scratch_tmp E" using copy_name_not_tmp [OF assms(3)] .
      show ?thesis
      proof (cases "?n = ?n' \<and> r = Inr ()")
        case True
        then obtain t m where "fs_get fs' (d @ [?n']) = Some (File (to_text J (scratch_json (path_string rr) rel content stamp)) t m)"
          using rep by (auto simp: copy_replaced_def)
        moreover have "copy_text J (path_string rr') rel' (to_text J (scratch_json (path_string rr) rel content stamp)) = None"
          using copy_text_written [OF assms(1,2)] assms(11) by auto
        ultimately have "read_scratch J fs' dir root' rel' = Inr None" using reads(2) by (simp add: entry_text_def)
        then show ?thesis using True by blast
      next
        case False
        then have "fs_get fs' (d @ [?n']) = fs_get ?fs0 (d @ [?n'])"
          using rep ne by (cases "?n' = ?n") (auto simp: copy_replaced_def)
        then show ?thesis using reads same0 by simp
      qed
    qed
  qed (use same0 c0 in auto)
qed

text \<open>Two notes of one vault, the first of them with a copy already.\<close>

theorem write_scratch_isolated_witness:
  "\<exists>fs'. write_scratch unary_text demo_scratch_env demo_scratch_fs ''/s'' ''/v'' ''a.md'' ''x'' demo_stamp = (fs', Inr ()) \<and>
     (read_scratch unary_text fs' ''/s'' ''/v'' ''b.md'' = read_scratch unary_text demo_scratch_fs ''/s'' ''/v'' ''b.md'' \<or>
      read_scratch unary_text fs' ''/s'' ''/v'' ''b.md'' = Inr None \<and> copy_name ''/v'' ''a.md'' = copy_name ''/v'' ''b.md'')"
proof -
  have ps: "path_string [''v''] = ''/v''" by code_simp
  obtain fs' where w: "write_scratch unary_text demo_scratch_env demo_scratch_fs ''/s'' ''/v'' ''a.md'' ''x'' demo_stamp = (fs', Inr ())"
    using demo_scratch_write [of unary_text] by (metis prod.collapse)
  have "read_scratch unary_text fs' ''/s'' ''/v'' ''b.md'' = read_scratch unary_text demo_scratch_fs ''/s'' ''/v'' ''b.md'' \<or>
      read_scratch unary_text fs' ''/s'' ''/v'' ''b.md'' = Inr None \<and>
      copy_name (path_string [''v'']) ''a.md'' = copy_name (path_string [''v'']) ''b.md''"
  proof (rule write_scratch_isolated [OF unary_text_law _ _ _ _ _ _ _ _ _ _ w])
    show "stamp_ok demo_stamp" by (simp add: stamp_ok_def demo_stamp_def)
    show "CHR ''/'' \<notin> set (ne_suffix demo_scratch_env)" by (simp add: demo_scratch_env_def)
    show "fs_ok demo_scratch_fs" by code_simp
    show "is_dir demo_scratch_fs ''/s''" by code_simp
    show "links_free demo_scratch_fs ''/s''" by code_simp
    show "canonicalize demo_scratch_fs ''/v'' = Some [''v'']" by code_simp
    then show "canonicalize demo_scratch_fs ''/v'' = Some [''v'']" .
    show "utf8_valid (path_string [''v''])" by code_simp
    then show "utf8_valid (path_string [''v''])" .
    show "(path_string [''v''], ''a.md'') \<noteq> (path_string [''v''], ''b.md'')" by simp
  qed
  then show ?thesis using w unfolding ps by blast
qed

section \<open>A vault whose path is not text\<close>

text \<open>Files gone.\<close>

definition shrunk :: "fs \<Rightarrow> fs \<Rightarrow> bool" where
  "shrunk fs fs' \<longleftrightarrow> (\<forall>p. fs_get fs' p = fs_get fs p \<or> plain (fs_get fs p) \<and> fs_get fs' p = None)"

lemma shrunk_trans: "shrunk fs fs1 \<Longrightarrow> shrunk fs1 fs2 \<Longrightarrow> shrunk fs fs2"
  unfolding shrunk_def by metis

lemma shrunk_not_found:
  "shrunk fs fs' \<Longrightarrow> resolve_err fs n acc cs = Inl Io_Not_Found \<Longrightarrow> resolve_err fs' n acc cs = Inl Io_Not_Found"
proof (induction fs n acc cs rule: resolve_err.induct)
  case (2 fs n acc c cs)
  note shr = 2(6) [unfolded shrunk_def, rule_format]
  have d: "fs_get fs acc = Some Dir" using 2(7) by (simp add: resolve_err.simps(2) [of fs] split: if_splits)
  then have d': "fs_get fs' acc = Some Dir" using shr [of acc] by auto
  consider "c = ''.''" | "c = ''..''" | "c \<noteq> ''.''" "c \<noteq> ''..''" "fs_get fs' (acc @ [c]) = None"
    | x where "c \<noteq> ''.''" "c \<noteq> ''..''" "fs_get fs' (acc @ [c]) = Some x" "fs_get fs (acc @ [c]) = Some x"
    using shr [of "acc @ [c]"] by (cases "fs_get fs' (acc @ [c])"; cases "c = ''.''"; cases "c = ''..''") auto
  then show ?case
  proof cases
    case 4
    then show ?thesis
      using 2(3-7) d d' by (cases x) (auto simp: resolve_err.simps(2) [of fs] resolve_err.simps(2) [of fs'] split: if_splits)
  qed (use 2(1,2,6,7) d d' in \<open>auto simp: resolve_err.simps(2) [of fs] resolve_err.simps(2) [of fs']\<close>)
qed simp

lemma prune_entry_shrunk:
  assumes "scratch_dir fs dir d"
  shows "shrunk fs (prune_entry J E dir name fs)"
proof -
  have "good_name name" if "prunable J E fs dir name"
    using that copy_name_good temp_name_good by (auto simp: prunable_def)
  then show ?thesis
    using prune_entry_cases [of J E dir name fs] remove_stale_cases [OF assms]
    by (auto simp: shrunk_def fs_get_del split: if_splits)
qed

text \<open>A copy whose record names a path that is not there goes.\<close>

lemma orphan_pruned:
  assumes "scratch_dir fs dir d" "resolve_err fs MAX_SYMLINKS [] (os_comps root_key) = Inl Io_Not_Found" "absolute root_key"
    and "\<And>bs a b. fs_get fs (d @ [copy_name root_key rel]) = Some (File bs a b) \<Longrightarrow> copy_text J root_key rel bs \<noteq> None"
    and "plain (fs_get fs (d @ [copy_name root_key rel]))"
  shows "fs_get (prune_entry J E dir (copy_name root_key rel) fs) (d @ [copy_name root_key rel]) = None"
proof (cases "fs_get fs (d @ [copy_name root_key rel])")
  case (Some node)
  let ?n = "copy_name root_key rel"
  obtain bs a b where node: "node = File bs a b" using assms(5) Some by (cases node) auto
  have good: "good_name ?n" using copy_name_good copy_name_is_copy_name by blast
  have "ascii ?n"
    using hex16_chars [of "scratch_key root_key rel"]
    by (auto simp: ascii_def copy_name_def is_hex16_def list_all_iff is_digit_def code_def)
  then have "utf8_valid ?n" by (rule ascii_valid)
  obtain document where doc: "from_text J bs = Some document" "Option.bind (jget document ''vault'') jstr = Some root_key"
    using assms(4) [of bs a b] Some node by (auto simp: copy_text_def split: option.splits if_splits)
  have "read_file fs (path_join dir ?n) = Inr bs" using scratch_dir_paths(2) [OF assms(1) good] Some node by simp
  moreover have "stat fs root_key = Inl Io_Not_Found" using assms(2,3) by (simp add: stat_def)
  ultimately have "copy_is_orphaned J fs (path_join dir ?n)" using doc assms(3) by (simp add: copy_is_orphaned_def)
  then have "prune_entry J E dir ?n fs = remove_stale fs (path_join dir ?n)"
    using copy_name_is_copy_name \<open>utf8_valid ?n\<close> by (simp add: prune_entry_def)
  then show ?thesis using remove_stale_cases [OF assms(1) good] Some node by (simp add: fs_get_del)
next
  case None
  then show ?thesis using prune_entry_spec(2) [OF assms(1)] by metis
qed

lemma prune_drops_orphan:
  assumes "scratch_dir fs dir d" "resolve_err fs MAX_SYMLINKS [] (os_comps root_key) = Inl Io_Not_Found" "absolute root_key"
    and "\<And>bs a b. fs_get fs (d @ [copy_name root_key rel]) = Some (File bs a b) \<Longrightarrow> copy_text J root_key rel bs \<noteq> None"
    and "plain (fs_get fs (d @ [copy_name root_key rel]))"
    and "fs_get fs (d @ [copy_name root_key rel]) = None \<or> copy_name root_key rel \<in> set names"
  shows "fs_get (fold (prune_entry J E dir) names fs) (d @ [copy_name root_key rel]) = None"
  using assms
proof (induction names arbitrary: fs)
  case (Cons name names)
  let ?n = "copy_name root_key rel" and ?fs1 = "prune_entry J E dir name fs"
  have shr: "shrunk fs ?fs1" by (rule prune_entry_shrunk [OF Cons(2)])
  have sd: "scratch_dir ?fs1 dir d" by (rule tidied_scratch_dir [OF prune_entry_spec(1) [OF Cons(2)] Cons(2)])
  have e: "fs_get ?fs1 (d @ [?n]) = fs_get fs (d @ [?n]) \<or> fs_get ?fs1 (d @ [?n]) = None"
    using shr by (auto simp: shrunk_def)
  have "fs_get ?fs1 (d @ [?n]) = None \<or> ?n \<in> set names"
    using orphan_pruned [OF Cons(2-6), where E = E] Cons(7) e by auto
  moreover have "\<And>bs a b. fs_get ?fs1 (d @ [?n]) = Some (File bs a b) \<Longrightarrow> copy_text J root_key rel bs \<noteq> None"
    using e Cons(5) by (metis option.distinct(1))
  moreover have "plain (fs_get ?fs1 (d @ [?n]))" using e Cons(6) by auto
  ultimately show ?case using Cons(1) [OF sd shrunk_not_found [OF shr Cons(3)] Cons(4)] by simp
qed simp

lemma absolute_lossy: "absolute s \<Longrightarrow> absolute (from_utf8_lossy s)"
  by (cases s) (auto simp: absolute_def from_utf8_lossy_def utf8_head_def code_def)

text \<open>A vault whose path is not text loses its copies: the record names the vault by a lossy
  string, and when nothing is there, the very copy that reads back fine - the vault is a
  directory all along - is taken for the remains of a vault that went away, and the next prune
  removes it.\<close>

theorem lossy_root_loses_copy:
  assumes "json_text_law J" "stamp_ok stamp" "CHR ''/'' \<notin> set (ne_suffix E)"
    and "links_free (fst (create_dir_all fs dir)) dir"
    and "write_scratch J E fs dir root rel content stamp = (fs', Inr ())"
    and "canonicalize fs' root = Some rr"
    and "resolve_err fs' MAX_SYMLINKS [] (os_comps (from_utf8_lossy (path_string rr))) = Inl Io_Not_Found"
  shows "is_dir fs' root \<and> read_scratch J fs' dir root rel = Inr (Some \<lparr>sc_text = content, sc_stamp = stamp\<rparr>) \<and>
    read_scratch J (prune_scratch J E' dir fs') dir root rel = Inr None"
proof (intro conjI)
  obtain d root_key p t m where w: "scratch_dir fs' dir d" "scratch_location fs' dir root rel = Inr (root_key, p)"
    "fs_get fs' (d @ [copy_name root_key rel]) = Some (File (to_text J (scratch_json root_key rel content stamp)) t m)"
    using written_copy [OF assms(1-5)] by metis
  have k: "root_key = from_utf8_lossy (path_string rr)" and "is_dir fs' root"
    using w(2) assms(6) note_path_Inr(3) by (auto simp: scratch_location_Inr)
  show "is_dir fs' root" by fact
  note decoded = copy_text_written [OF assms(1,2), of root_key rel root_key rel content]
  show "read_scratch J fs' dir root rel = Inr (Some \<lparr>sc_text = content, sc_stamp = stamp\<rparr>)"
    using read_scratch_entry [OF w(1,2)] w(3) decoded by (simp add: entry_text_def)
  let ?n = "copy_name root_key rel"
  have c: "canonicalize fs' dir = Some d" "fs_get fs' d = Some Dir" using w(1) by (simp_all add: scratch_dir_def)
  have "(d @ [?n], File (to_text J (scratch_json root_key rel content stamp)) t m) \<in> set fs'"
    using w(3) by (auto simp: fs_get_def dest: map_of_SomeD)
  then have "?n \<in> set (map (last \<circ> fst) (filter (\<lambda>(q, _). q \<noteq> [] \<and> butlast q = d) fs'))" by force
  then have "fs_get (prune_scratch J E' dir fs') (d @ [?n]) = None"
    using prune_drops_orphan [OF w(1) assms(7) [folded k], where J = J and rel = rel and E = E'] w(3) decoded k absolute_lossy [OF absolute_path_string] c
    by (simp add: prune_scratch_def read_dir_def)
  moreover have t: "tidied d fs' (prune_scratch J E' dir fs')" by (rule prune_scratch_tidied [OF w(1)])
  ultimately show "read_scratch J (prune_scratch J E' dir fs') dir root rel = Inr None"
    using read_scratch_entry [OF tidied_scratch_dir [OF t w(1)], of root rel root_key p] tidied_location [OF t] w(2)
    by (simp add: entry_text_def)
qed

definition lossy_fs :: fs where
  "lossy_fs = [([''s''], Dir), ([''v''], Link (CHR ''/'' # [CHR 0xFF])), ([[CHR 0xFF]], Dir)]"

lemma lossy_scratch_write:
  "snd (write_scratch J demo_scratch_env lossy_fs ''/s'' ''/v'' ''a.md'' ''x'' demo_stamp) = Inr () \<and>
   (\<exists>bs. fst (write_scratch J demo_scratch_env lossy_fs ''/s'' ''/v'' ''a.md'' ''x'' demo_stamp) =
      ([''s'', copy_name (CHR ''/'' # replacement) ''a.md''], File bs 7 384) # lossy_fs)"
proof -
  let ?n = "copy_name (CHR ''/'' # replacement) ''a.md''"
  have "read_dir lossy_fs ''/s'' = Some []" by code_simp
  then have p: "prune_scratch J demo_scratch_env ''/s'' lossy_fs = lossy_fs" by (simp add: prune_scratch_def)
  have l: "scratch_location lossy_fs ''/s'' ''/v'' ''a.md'' = Inr (CHR ''/'' # replacement, path_join ''/s'' ?n)"
    by code_simp
  have r: "replace_copy demo_scratch_env lossy_fs ''/s'' (path_join ''/s'' ?n) bs = (([''s'', ?n], File bs 7 384) # lossy_fs, Inr ())" for bs
    by code_simp
  have "is_dir lossy_fs ''/s''" by code_simp
  moreover have "\<not> MAX_SCRATCH_BYTES < length ''x''" by (simp add: MAX_SCRATCH_BYTES_def MAX_NOTE_BYTES_def)
  ultimately show ?thesis
    by (simp add: write_scratch_def p l r ensure_private_dir_def create_dir_all_exists Let_def)
qed

theorem lossy_root_loses_copy_witness:
  "\<exists>fs'. write_scratch unary_text demo_scratch_env lossy_fs ''/s'' ''/v'' ''a.md'' ''x'' demo_stamp = (fs', Inr ()) \<and>
     is_dir fs' ''/v'' \<and> read_scratch unary_text fs' ''/s'' ''/v'' ''a.md'' = Inr (Some \<lparr>sc_text = ''x'', sc_stamp = demo_stamp\<rparr>) \<and>
     read_scratch unary_text (prune_scratch unary_text demo_scratch_env ''/s'' fs') ''/s'' ''/v'' ''a.md'' = Inr None"
proof -
  let ?fs' = "fst (write_scratch unary_text demo_scratch_env lossy_fs ''/s'' ''/v'' ''a.md'' ''x'' demo_stamp)"
  obtain bs where bs: "?fs' = ([''s'', copy_name (CHR ''/'' # replacement) ''a.md''], File bs 7 384) # lossy_fs"
    using lossy_scratch_write [of unary_text] by blast
  have w: "write_scratch unary_text demo_scratch_env lossy_fs ''/s'' ''/v'' ''a.md'' ''x'' demo_stamp = (?fs', Inr ())"
    using lossy_scratch_write [of unary_text] by (metis prod.collapse)
  have "is_dir ?fs' ''/v'' \<and> read_scratch unary_text ?fs' ''/s'' ''/v'' ''a.md'' = Inr (Some \<lparr>sc_text = ''x'', sc_stamp = demo_stamp\<rparr>) \<and>
     read_scratch unary_text (prune_scratch unary_text demo_scratch_env ''/s'' ?fs') ''/s'' ''/v'' ''a.md'' = Inr None"
  proof (rule lossy_root_loses_copy [OF unary_text_law _ _ _ w])
    show "stamp_ok demo_stamp" by (simp add: stamp_ok_def demo_stamp_def)
    show "CHR ''/'' \<notin> set (ne_suffix demo_scratch_env)" by (simp add: demo_scratch_env_def)
    have "is_dir lossy_fs ''/s''" by code_simp
    moreover have "links_free lossy_fs ''/s''" by code_simp
    ultimately show "links_free (fst (create_dir_all lossy_fs ''/s'')) ''/s''" by (simp add: create_dir_all_exists)
    show "canonicalize ?fs' ''/v'' = Some [[CHR 0xFF]]" unfolding bs by code_simp
    show "resolve_err ?fs' MAX_SYMLINKS [] (os_comps (from_utf8_lossy (path_string [[CHR 0xFF]]))) = Inl Io_Not_Found"
      unfolding bs by code_simp
  qed
  then show ?thesis using w by blast
qed

section \<open>Clearing\<close>

text \<open>A clear that succeeds leaves no copy of the note, and clearing a note that has none succeeds.\<close>

lemma clear_scratch_spec:
  assumes "scratch_dir fs dir d" "clear_scratch E fs dir root rel = (fs', r)"
  shows "r = Inr () \<Longrightarrow> read_scratch J fs' dir root rel = Inr None" "r \<noteq> Inr () \<Longrightarrow> fs' = fs"
proof -
  have good: "good_name (copy_name k rel)" for k using copy_name_good copy_name_is_copy_name by blast
  show "r \<noteq> Inr () \<Longrightarrow> fs' = fs"
    using assms(2) by (auto simp: clear_scratch_def split: sum.splits io_error.splits)
  assume r: "r = Inr ()"
  then obtain root_key p where l: "scratch_location fs dir root rel = Inr (root_key, p)"
    using assms(2) by (auto simp: clear_scratch_def split: sum.splits)
  then have p: "p = path_join dir (copy_name root_key rel)" by (auto simp: scratch_location_Inr)
  have loc: "locate fs p = Some (d @ [copy_name root_key rel])" unfolding p by (rule scratch_dir_paths(1) [OF assms(1) good])
  have "fs' = remove_stale fs p"
    using assms(2) r l by (auto simp: clear_scratch_def remove_stale_def split: sum.splits io_error.splits)
  then have f: "fs' = remove_stale fs (path_join dir (copy_name root_key rel))" using p by simp
  have t: "tidied d fs fs'" unfolding f by (rule remove_stale_tidied [OF assms(1) good])
  have "\<not> plain (fs_get fs' (d @ [copy_name root_key rel])) \<or> fs_get fs' (d @ [copy_name root_key rel]) = None"
    using remove_stale_cases [OF assms(1) good, of root_key] by (auto simp: f fs_get_del)
  then have "entry_text J root_key rel (fs_get fs' (d @ [copy_name root_key rel])) = None"
    by (auto simp: entry_text_def split: option.splits fnode.splits)
  then show "read_scratch J fs' dir root rel = Inr None"
    using read_scratch_entry [OF tidied_scratch_dir [OF t assms(1)], of root rel root_key p] tidied_location [OF t] l by simp
qed

end
