(* ===== verification/Plugin_Manifest.thy ===== *)
theory Plugin_Manifest
  imports Rust_Results Concepts
begin

text \<open>
  The plugin manifest validator, \<open>crates/gpty-cli/src/plugin_manifest.rs\<close>.  The TOML parser is
  a parameter; its values are a datatype here, a table the list of its entries in the order the
  parser iterates them.  The names of the published commands (\<open>schema::mcp_tool_names\<close>, read off
  the argument parser at run time) are the parameter \<open>tools\<close>, and the regex crate and JSON text
  are those of \<open>Concepts\<close>.
\<close>

section \<open>TOML values\<close>

datatype toml =
    TStr str
  | TInt int
  | TFloat "64 word"
  | TBool bool
  | TDatetime str
  | TArr "toml list"
  | TTab "(str \<times> toml) list"

type_synonym table = "(str \<times> toml) list"

fun tstr :: "toml \<Rightarrow> str option" where
  "tstr (TStr s) = Some s"
| "tstr _ = None"

fun tint :: "toml \<Rightarrow> int option" where
  "tint (TInt n) = Some n"
| "tint _ = None"

fun tbool :: "toml \<Rightarrow> bool option" where
  "tbool (TBool b) = Some b"
| "tbool _ = None"

fun tarr :: "toml \<Rightarrow> toml list option" where
  "tarr (TArr xs) = Some xs"
| "tarr _ = None"

fun ttab :: "toml \<Rightarrow> table option" where
  "ttab (TTab kvs) = Some kvs"
| "ttab _ = None"

lemma toml_Some [simp]:
  "tstr v = Some s \<longleftrightarrow> v = TStr s" "tint v = Some n \<longleftrightarrow> v = TInt n" "tbool v = Some b \<longleftrightarrow> v = TBool b"
  "tarr v = Some xs \<longleftrightarrow> v = TArr xs" "ttab v = Some kvs \<longleftrightarrow> v = TTab kvs"
  by (cases v; auto)+

section \<open>Caps and vocabularies\<close>

definition MANIFEST_MAX_ACTIONS :: nat where "MANIFEST_MAX_ACTIONS = 64"
definition MAX_EVENTS :: nat where "MAX_EVENTS = 64"
definition MAX_LINK_HANDLERS :: nat where "MAX_LINK_HANDLERS = 16"
definition MAX_PROFILES :: nat where "MAX_PROFILES = 64"
definition MAX_PROFILE_TILES :: nat where "MAX_PROFILE_TILES = 64"
definition MANIFEST_MAX_CONCEPTS :: nat where "MANIFEST_MAX_CONCEPTS = 128"
definition MAX_CONCEPT_NAME_LEN :: nat where "MAX_CONCEPT_NAME_LEN = 256"
definition MAX_CONCEPT_TRIGGER_LEN :: nat where "MAX_CONCEPT_TRIGGER_LEN = 1024"
definition MAX_NAME_LEN :: nat where "MAX_NAME_LEN = 64"
definition MAX_ID_PART_LEN :: nat where "MAX_ID_PART_LEN = 63"
definition MAX_SPEC_NAME_LEN :: nat where "MAX_SPEC_NAME_LEN = 32"
definition MAX_SCHEME_LEN :: nat where "MAX_SCHEME_LEN = 32"
definition MAX_ARG_VALUE_LEN :: nat where "MAX_ARG_VALUE_LEN = 1024"
definition MAX_ACTION_ARGS :: nat where "MAX_ACTION_ARGS = 32"
definition MAX_ACTION_ARG_KEY_LEN :: nat where "MAX_ACTION_ARG_KEY_LEN = 32"
definition MAX_ARGV_ENTRIES :: nat where "MAX_ARGV_ENTRIES = 32"
definition MAX_ARGV_CHARS :: nat where "MAX_ARGV_CHARS = 4096"
definition GRID :: int where "GRID = 60"
definition PANE_MAX_ROWS :: int where "PANE_MAX_ROWS = 500"
definition PANE_MAX_COLS :: int where "PANE_MAX_COLS = 2000"

definition pane_types :: "str list" where
  "pane_types = map pane_type_as_str pane_type_ALL"

definition PLATFORMS :: "str list" where
  "PLATFORMS = [''linux'', ''macos'', ''windows'']"

definition EVENT_TYPES :: "str list" where
  "EVENT_TYPES = [''pane.spawned'', ''pane.killed'', ''concept.matched'', ''state.declared'', ''session.bound'',
     ''agent.started'', ''turn.started'', ''tool.call'', ''thinking.delta'']"

definition CONCEPT_KEYS :: "str list" where
  "CONCEPT_KEYS = [''name'', ''trigger'', ''enabled'', ''conditions'', ''capture_mode'', ''stop_timeout_ms'',
     ''stop_on_input'', ''actions'']"

definition CONCEPT_MODES :: "str list" where
  "CONCEPT_MODES = [''single_line'']"

section \<open>The parsed manifest\<close>

text \<open>A validation error is its message.\<close>

definition error_at :: "str \<Rightarrow> str \<Rightarrow> str" where
  "error_at p what = p @ '': '' @ what"

abbreviation AT_MOST :: str where
  \<comment> \<open>the sign for less or equal\<close>
  "AT_MOST \<equiv> [CHR 0xE2, CHR 0x89, CHR 0xA4]"

record semver =
  sv_major :: nat
  sv_minor :: nat
  sv_patch :: nat

definition semver_display :: "semver \<Rightarrow> str" where
  "semver_display v = dec (sv_major v) @ ''.'' @ dec (sv_minor v) @ ''.'' @ dec (sv_patch v)"

definition semver_parse :: "str \<Rightarrow> semver option" where
  "semver_parse s =
     (case split_on (CHR ''.'') s of
        [a, b, c] \<Rightarrow>
          (case (parse_u64 a, parse_u64 b, parse_u64 c) of
             (Some x, Some y, Some z) \<Rightarrow> Some \<lparr>sv_major = x, sv_minor = y, sv_patch = z\<rparr>
           | _ \<Rightarrow> None)
      | _ \<Rightarrow> None)"

datatype platform = Linux | Macos | Windows

definition platform_parse :: "str \<Rightarrow> platform option" where
  "platform_parse s =
     (if s = ''linux'' then Some Linux
      else if s = ''macos'' then Some Macos
      else if s = ''windows'' then Some Windows
      else None)"

record action_spec =
  as_name :: str
  as_command :: str
  as_args :: "(str \<times> str) list"

record event_spec =
  es_name :: str
  es_kind :: str

record link_handler_spec =
  lh_scheme :: str
  lh_command :: "str list"

record profile_spec =
  ps_name :: str
  ps_tiles :: "toml list"

record manifest =
  mf_id :: str
  mf_name :: str
  mf_version :: semver
  mf_min_version :: semver
  mf_platforms :: "platform list"
  mf_build :: "str list"
  mf_startup :: "str list"
  mf_actions :: "action_spec list"
  mf_events :: "event_spec list"
  mf_link_handlers :: "link_handler_spec list"
  mf_concepts :: "toml list"
  mf_profiles :: "profile_spec list"

section \<open>Identifier shapes\<close>

definition id_part :: "str \<Rightarrow> bool" where
  "id_part s = list_all (\<lambda>c. is_lower c \<or> is_digit c \<or> c = CHR ''-'') s"

definition valid_plugin_id :: "str \<Rightarrow> bool" where
  "valid_plugin_id i =
     (case split_once (CHR ''/'') i of
        None \<Rightarrow> False
      | Some (owner, name) \<Rightarrow>
          owner \<noteq> [] \<and> name \<noteq> [] \<and> length owner \<le> MAX_ID_PART_LEN \<and> length name \<le> MAX_ID_PART_LEN \<and>
          id_part owner \<and> id_part name)"

definition starts_lower :: "str \<Rightarrow> bool" where
  "starts_lower s = (case s of b # _ \<Rightarrow> is_lower b | [] \<Rightarrow> False)"

definition valid_spec_name :: "str \<Rightarrow> bool" where
  "valid_spec_name s \<longleftrightarrow> s \<noteq> [] \<and> length s \<le> MAX_SPEC_NAME_LEN \<and> starts_lower s \<and>
     list_all (\<lambda>c. is_lower c \<or> is_digit c \<or> c = CHR ''_'' \<or> c = CHR ''-'') s"

definition valid_arg_key :: "str \<Rightarrow> bool" where
  "valid_arg_key s \<longleftrightarrow> s \<noteq> [] \<and> length s \<le> MAX_ACTION_ARG_KEY_LEN \<and> starts_lower s \<and>
     list_all (\<lambda>c. is_lower c \<or> is_digit c \<or> c = CHR ''_'' \<or> c = CHR ''-'') s"

definition valid_scheme :: "str \<Rightarrow> bool" where
  "valid_scheme s \<longleftrightarrow> s \<noteq> [] \<and> length s \<le> MAX_SCHEME_LEN \<and> starts_lower s \<and>
     list_all (\<lambda>c. is_lower c \<or> is_digit c \<or> c = CHR ''+'' \<or> c = CHR ''.'' \<or> c = CHR ''-'') s"

section \<open>Fields\<close>

definition required_string :: "table \<Rightarrow> str \<Rightarrow> str \<Rightarrow> str + str" where
  "required_string tab key p =
     (case map_of tab key of
        Some (TStr s) \<Rightarrow> Inr s
      | Some _ \<Rightarrow> Inl (error_at p (''`'' @ key @ ''` must be a string''))
      | None \<Rightarrow> Inl (error_at p (''missing required key `'' @ key @ ''`'')))"

definition reject_unknown_keys :: "table \<Rightarrow> str list \<Rightarrow> str \<Rightarrow> str + unit" where
  "reject_unknown_keys tab known p =
     (case find (\<lambda>k. k \<notin> set known) (map fst tab) of
        Some k \<Rightarrow> Inl (error_at p (''unknown key `'' @ k @ ''`''))
      | None \<Rightarrow> Inr ())"

definition spec_name :: "table \<Rightarrow> str \<Rightarrow> str + str" where
  "spec_name tab p =
     and_then (required_string tab ''name'' p) (\<lambda>name.
       if \<not> valid_spec_name name then Inl (error_at (p @ ''.name'') ''must match [a-z][a-z0-9_-]{0,31}'') else Inr name)"

definition int_field :: "table \<Rightarrow> str \<Rightarrow> int \<Rightarrow> str \<Rightarrow> str + int" where
  "int_field tab key default_value p =
     (case map_of tab key of
        None \<Rightarrow> Inr default_value
      | Some (TInt v) \<Rightarrow> Inr v
      | Some _ \<Rightarrow> Inl (error_at p ''must be an integer''))"

definition parse_semver_field :: "table \<Rightarrow> str \<Rightarrow> str + semver" where
  "parse_semver_field tab key =
     and_then (required_string tab key ''manifest'') (\<lambda>s.
       case semver_parse s of
         Some v \<Rightarrow> Inr v
       | None \<Rightarrow> Inl (error_at (''manifest.'' @ key)
           (''`'' @ key @ ''` must be a semantic version `X.Y.Z` (got `'' @ s @ ''`)'')))"

text \<open>\<open>path[i]\<close>\<close>

definition index_path :: "str \<Rightarrow> nat \<Rightarrow> str" where
  "index_path p i = p @ ''['' @ dec i @ '']''"

fun platforms_loop :: "nat \<Rightarrow> toml list \<Rightarrow> platform list \<Rightarrow> str + platform list" where
  "platforms_loop i [] out = Inr out"
| "platforms_loop i (item # items) out =
     (case tstr item of
        None \<Rightarrow> Inl (error_at (index_path ''manifest.platforms'' i) ''must be a string'')
      | Some s \<Rightarrow>
          (case platform_parse s of
             None \<Rightarrow> Inl (error_at (index_path ''manifest.platforms'' i)
               (''unknown platform `'' @ s @ ''` (use one of: '' @ join_with '', '' PLATFORMS @ '')''))
           | Some p \<Rightarrow> platforms_loop (i + 1) items (if p \<in> set out then out else out @ [p])))"

definition parse_platforms :: "table \<Rightarrow> str + platform list" where
  "parse_platforms tab =
     (case map_of tab ''platforms'' of
        None \<Rightarrow> Inr [Linux, Macos, Windows]
      | Some v \<Rightarrow>
          (case tarr v of
             None \<Rightarrow> Inl (error_at ''manifest.platforms'' ''must be an array of strings'')
           | Some items \<Rightarrow> platforms_loop 0 items []))"

definition argv_entry :: "str \<Rightarrow> nat \<Rightarrow> toml \<Rightarrow> str + str" where
  "argv_entry p i item =
     (case tstr item of
        None \<Rightarrow> Inl (error_at (index_path p i) ''must be a string'')
      | Some s \<Rightarrow>
          if s = [] \<or> MAX_ARG_VALUE_LEN < char_count s \<or> str_contains s replacement
          then Inl (error_at (index_path p i)
            (''must be 1-'' @ dec MAX_ARG_VALUE_LEN @ '' characters without U+FFFD''))
          else Inr s)"

definition validate_argv :: "toml \<Rightarrow> str \<Rightarrow> str + str list" where
  "validate_argv v p =
     (case tarr v of
        None \<Rightarrow> Inl (error_at p ''must be an array of strings (argv, never a shell string)'')
      | Some items \<Rightarrow>
          if MAX_ARGV_ENTRIES < length items
          then Inl (error_at p (''at most '' @ dec MAX_ARGV_ENTRIES @ '' entries''))
          else and_then (each (argv_entry p) 0 items) (\<lambda>out.
            if MAX_ARGV_CHARS < sum_list (map char_count out)
            then Inl (error_at p (''at most '' @ dec MAX_ARGV_CHARS @ '' characters in total''))
            else Inr out))"

definition parse_argv :: "table \<Rightarrow> str \<Rightarrow> str \<Rightarrow> str + str list" where
  "parse_argv tab key p = (case map_of tab key of None \<Rightarrow> Inr [] | Some v \<Rightarrow> validate_argv v p)"

text \<open>The shape all the sections share: absent means empty, otherwise an array of tables of at
  most \<open>limit\<close> entries.\<close>

definition section_of :: "table \<Rightarrow> str \<Rightarrow> nat \<Rightarrow> str \<Rightarrow> (nat \<Rightarrow> toml \<Rightarrow> str + 'a) \<Rightarrow> str + 'a list" where
  "section_of tab key limit suffix' f =
     (case map_of tab key of
        None \<Rightarrow> Inr []
      | Some v \<Rightarrow>
          (case tarr v of
             None \<Rightarrow> Inl (error_at (''manifest.'' @ key) ''must be an array of tables'')
           | Some items \<Rightarrow>
               if limit < length items
               then Inl (error_at (''manifest.'' @ key) (''at most '' @ dec limit @ '' entries'' @ suffix'))
               else each f 0 items))"

section \<open>Actions, events and link handlers\<close>

definition action_arg :: "str \<Rightarrow> nat \<Rightarrow> str \<times> toml \<Rightarrow> str + str \<times> str" where
  "action_arg p i kv =
     (case kv of (key, v) \<Rightarrow>
        let at = p @ ''.args.'' @ key
        in if \<not> valid_arg_key key
           then Inl (error_at at (''keys must match [a-z][a-z0-9_-]* ('' @ AT_MOST @ ''32 chars)''))
           else (case tstr v of
               None \<Rightarrow> Inl (error_at at ''values must be strings'')
             | Some s \<Rightarrow>
                 if MAX_ARG_VALUE_LEN < char_count s
                 then Inl (error_at at (''values are at most '' @ dec MAX_ARG_VALUE_LEN @ '' characters''))
                 else Inr (key, s)))"

definition parse_action_args :: "table \<Rightarrow> str \<Rightarrow> str + (str \<times> str) list" where
  "parse_action_args entry p =
     (case map_of entry ''args'' of
        None \<Rightarrow> Inr []
      | Some v \<Rightarrow>
          (case ttab v of
             None \<Rightarrow> Inl (error_at (p @ ''.args'') ''must be a table of string values'')
           | Some args \<Rightarrow>
               if MAX_ACTION_ARGS < length args
               then Inl (error_at (p @ ''.args'') (''at most '' @ dec MAX_ACTION_ARGS @ '' entries''))
               else each (action_arg p) 0 args))"

definition parse_action :: "str list \<Rightarrow> nat \<Rightarrow> toml \<Rightarrow> str + action_spec" where
  "parse_action tools i item =
     (let p = index_path ''manifest.actions'' i
      in case ttab item of
           None \<Rightarrow> Inl (error_at p ''must be a table'')
         | Some entry \<Rightarrow>
             and_then (reject_unknown_keys entry [''name'', ''command'', ''args''] p) (\<lambda>_.
             and_then (spec_name entry p) (\<lambda>name.
             and_then (required_string entry ''command'' p) (\<lambda>command.
             if command \<notin> set tools
             then Inl (error_at (p @ ''.command'')
               (''`'' @ command @ ''` is not a published gpty CLI command (see `gpty mcp` tool list)''))
             else and_then (parse_action_args entry p) (\<lambda>args.
               Inr \<lparr>as_name = name, as_command = command, as_args = args\<rparr>)))))"

definition parse_manifest_actions :: "str list \<Rightarrow> table \<Rightarrow> str + action_spec list" where
  "parse_manifest_actions tools tab = section_of tab ''actions'' MANIFEST_MAX_ACTIONS [] (parse_action tools)"

definition parse_event :: "nat \<Rightarrow> toml \<Rightarrow> str + event_spec" where
  "parse_event i item =
     (let p = index_path ''manifest.events'' i
      in case ttab item of
           None \<Rightarrow> Inl (error_at p ''must be a table'')
         | Some entry \<Rightarrow>
             and_then (reject_unknown_keys entry [''name'', ''type''] p) (\<lambda>_.
             and_then (spec_name entry p) (\<lambda>name.
             and_then (required_string entry ''type'' p) (\<lambda>kind.
             if kind \<notin> set EVENT_TYPES
             then Inl (error_at (p @ ''.type'') (''`'' @ kind @ ''` is not an event gpty emits (see EVENT_TYPES)''))
             else Inr \<lparr>es_name = name, es_kind = kind\<rparr>))))"

definition parse_events :: "table \<Rightarrow> str + event_spec list" where
  "parse_events tab = section_of tab ''events'' MAX_EVENTS [] parse_event"

definition parse_link_handler :: "nat \<Rightarrow> toml \<Rightarrow> str + link_handler_spec" where
  "parse_link_handler i item =
     (let p = index_path ''manifest.link_handlers'' i
      in case ttab item of
           None \<Rightarrow> Inl (error_at p ''must be a table'')
         | Some entry \<Rightarrow>
             and_then (reject_unknown_keys entry [''scheme'', ''command''] p) (\<lambda>_.
             and_then (required_string entry ''scheme'' p) (\<lambda>scheme.
             if \<not> valid_scheme scheme
             then Inl (error_at (p @ ''.scheme'')
               (''must be a URL scheme ([a-z][a-z0-9+.-]*, '' @ AT_MOST @ dec MAX_SCHEME_LEN @ '' chars)''))
             else (case map_of entry ''command'' of
                 None \<Rightarrow> Inl (error_at p ''missing required key `command`'')
               | Some v \<Rightarrow> and_then (validate_argv v (p @ ''.command'')) (\<lambda>command.
                   Inr \<lparr>lh_scheme = scheme, lh_command = command\<rparr>)))))"

definition parse_link_handlers :: "table \<Rightarrow> str + link_handler_spec list" where
  "parse_link_handlers tab = section_of tab ''link_handlers'' MAX_LINK_HANDLERS [] parse_link_handler"

section \<open>Concepts\<close>

text \<open>A check of an optional key.\<close>

definition optional_key :: "table \<Rightarrow> str \<Rightarrow> (toml \<Rightarrow> str + unit) \<Rightarrow> str + unit" where
  "optional_key entry key f = (case map_of entry key of None \<Rightarrow> Inr () | Some v \<Rightarrow> f v)"

definition bool_key :: "str \<Rightarrow> toml \<Rightarrow> str + unit" where
  "bool_key p v = (if tbool v = None then Inl (error_at p ''must be a boolean'') else Inr ())"

definition timeout_key :: "str \<Rightarrow> toml \<Rightarrow> str + unit" where
  "timeout_key p v =
     (case tint v of
        None \<Rightarrow> Inl (error_at p ''must be an integer'')
      | Some ms \<Rightarrow> if ms < 1 \<or> 600000 < ms then Inl (error_at p ''must be 1-600000'') else Inr ())"

definition mode_key :: "str \<Rightarrow> toml \<Rightarrow> str + unit" where
  "mode_key p v =
     (case tstr v of
        None \<Rightarrow> Inl (error_at p ''must be a string'')
      | Some mode \<Rightarrow>
          if mode \<notin> set CONCEPT_MODES
          then Inl (error_at p (''must be '' @ [CHR 0x22] @ ''single_line'' @ [CHR 0x22] @ '' or absent (absent captures)''))
          else Inr ())"

definition condition_entry :: "str \<Rightarrow> nat \<Rightarrow> toml \<Rightarrow> str + unit" where
  "condition_entry p i item =
     (case tstr item of
        None \<Rightarrow> Inl (error_at (index_path p i) ''must be a string'')
      | Some s \<Rightarrow> if s = [] \<or> 1024 < char_count s then Inl (error_at (index_path p i) ''must be 1-1024 characters'') else Inr ())"

definition conditions_key :: "str \<Rightarrow> toml \<Rightarrow> str + unit" where
  "conditions_key p v =
     (case tarr v of
        None \<Rightarrow> Inl (error_at p ''must be an array of strings'')
      | Some items \<Rightarrow> if 8 < length items then Inl (error_at p ''at most 8 entries'') else all_ok (condition_entry p) items)"

definition target_entry :: "str \<Rightarrow> nat \<Rightarrow> toml \<Rightarrow> str + unit" where
  "target_entry p i item =
     (case ttab item of
        None \<Rightarrow> Inl (error_at (index_path p i) ''must be a table'')
      | Some a \<Rightarrow>
          and_then (reject_unknown_keys a [''target''] (index_path p i)) (\<lambda>_.
          and_then (required_string a ''target'' (index_path p i)) (\<lambda>target.
          if target = [] \<or> 64 < char_count target
          then Inl (error_at (index_path p i @ ''.target'') ''must be 1-64 characters'') else Inr ())))"

definition actions_key :: "str \<Rightarrow> toml \<Rightarrow> str + unit" where
  "actions_key p v =
     (case tarr v of
        None \<Rightarrow> Inl (error_at p ''must be an array of tables'')
      | Some items \<Rightarrow> if 32 < length items then Inl (error_at p ''at most 32 entries'') else all_ok (target_entry p) items)"

definition validate_concept_entry :: "table \<Rightarrow> str \<Rightarrow> str + unit" where
  "validate_concept_entry entry p =
     and_then (reject_unknown_keys entry CONCEPT_KEYS p) (\<lambda>_.
     and_then (required_string entry ''name'' p) (\<lambda>name.
     if name = [] \<or> MAX_CONCEPT_NAME_LEN < char_count name
     then Inl (error_at (p @ ''.name'') (''must be 1-'' @ dec MAX_CONCEPT_NAME_LEN @ '' characters''))
     else and_then (required_string entry ''trigger'' p) (\<lambda>trigger.
     if trigger = [] \<or> MAX_CONCEPT_TRIGGER_LEN < char_count trigger
     then Inl (error_at (p @ ''.trigger'') (''must be 1-'' @ dec MAX_CONCEPT_TRIGGER_LEN @ '' characters''))
     else and_then (optional_key entry ''enabled'' (bool_key (p @ ''.enabled''))) (\<lambda>_.
     and_then (optional_key entry ''stop_on_input'' (bool_key (p @ ''.stop_on_input''))) (\<lambda>_.
     and_then (optional_key entry ''stop_timeout_ms'' (timeout_key (p @ ''.stop_timeout_ms''))) (\<lambda>_.
     and_then (optional_key entry ''capture_mode'' (mode_key (p @ ''.capture_mode''))) (\<lambda>_.
     and_then (optional_key entry ''conditions'' (conditions_key (p @ ''.conditions''))) (\<lambda>_.
     optional_key entry ''actions'' (actions_key (p @ ''.actions''))))))))))"

text \<open>\<open>serde_json\<close>'s reading of a TOML value: a number that is not finite is null, a date and time
  the object its serializer makes.\<close>

fun toml_json :: "toml \<Rightarrow> json" where
  "toml_json (TStr s) = JStr s"
| "toml_json (TInt n) = JInt n"
| "toml_json (TFloat w) = (if finite_bits w then JFloat w else JNull)"
| "toml_json (TBool b) = JBool b"
| "toml_json (TDatetime s) = JObj [(''$__toml_private_datetime'', JStr s)]"
| "toml_json (TArr xs) = JArr (map toml_json xs)"
| "toml_json (TTab kvs) = JObj (map (\<lambda>(k, v). (k, toml_json v)) kvs)"

definition concept_entry :: "nat \<Rightarrow> toml \<Rightarrow> str + str" where
  \<comment> \<open>one iteration of the loop: the name of a valid entry\<close>
  "concept_entry i item =
     (let p = index_path ''manifest.concepts'' i
      in case ttab item of
           None \<Rightarrow> Inl (error_at p ''must be a table'')
         | Some entry \<Rightarrow>
             and_then (validate_concept_entry entry p) (\<lambda>_.
               Inr (case map_of entry ''name'' of Some v \<Rightarrow> unwrap_or (tstr v) [] | None \<Rightarrow> [])))"

definition parse_concepts :: "json_text \<Rightarrow> ('r, 's) regex_api \<Rightarrow> table \<Rightarrow> str + toml list" where
  "parse_concepts J R tab =
     (case map_of tab ''concepts'' of
        None \<Rightarrow> Inr []
      | Some v \<Rightarrow>
          (case tarr v of
             None \<Rightarrow> Inl (error_at ''manifest.concepts'' ''must be an array of tables'')
           | Some items \<Rightarrow>
               if MANIFEST_MAX_CONCEPTS < length items
               then Inl (error_at ''manifest.concepts''
                 (''at most '' @ dec MANIFEST_MAX_CONCEPTS @ '' entries (the engine'' @ [CHR 0x27] @ ''s cap)''))
               else and_then (each concept_entry 0 items) (\<lambda>names.
                 let parsed = concepts_from_json (from_text J) R (to_text J (JArr (map toml_json items)))
                 in if length parsed \<noteq> length items
                    then Inl (''manifest.concepts: the engine rejected '' @ dec (length items - length parsed) @ '' of '' @
                      dec (length items) @
                      '' entries (a trigger or condition the Rust `regex` engine cannot compile)'')
                    else (case find (\<lambda>(entry, c). entry \<noteq> c_name c) (zip names parsed) of
                        Some (entry, _) \<Rightarrow>
                          Inl (''manifest.concepts: entry `'' @ entry @ ''` was not accepted by the engine as `'' @ entry @ ''`'')
                      | None \<Rightarrow> Inr items))))"

section \<open>Profiles\<close>

definition range_key :: "int \<Rightarrow> str \<Rightarrow> toml \<Rightarrow> str + unit" where
  "range_key hi p v =
     (case tint v of
        None \<Rightarrow> Inl (error_at p ''must be an integer'')
      | Some n \<Rightarrow> if n < 1 \<or> hi < n then Inl (error_at p (''must be 1-'' @ dec (nat hi))) else Inr ())"

definition attachment_key :: "str \<Rightarrow> toml \<Rightarrow> str + unit" where
  "attachment_key p v =
     (case tstr v of
        None \<Rightarrow> Inl (error_at p ''must be a string'')
      | Some i \<Rightarrow> if \<not> valid_spec_name i then Inl (error_at p ''must match [a-z][a-z0-9_-]{0,31}'') else Inr ())"

definition tile_type :: "table \<Rightarrow> str" where
  "tile_type settings = (case map_of settings ''type'' of Some v \<Rightarrow> unwrap_or (tstr v) ''terminal'' | None \<Rightarrow> ''terminal'')"

definition validate_settings :: "table \<Rightarrow> str \<Rightarrow> str + unit" where
  "validate_settings settings p =
     (if tile_type settings = ''observer''
      then Inl (error_at (p @ ''.settings.type'') ''`observer` is legacy; author `inspector` or `reasoning`'')
      else if tile_type settings \<notin> set pane_types
      then Inl (error_at (p @ ''.settings.type'')
        (''unknown pane type `'' @ tile_type settings @ ''` (use one of: '' @ join_with '', '' pane_types @ '')''))
      else and_then (optional_key settings ''rows'' (range_key PANE_MAX_ROWS (p @ ''.settings.rows''))) (\<lambda>_.
        and_then (optional_key settings ''cols'' (range_key PANE_MAX_COLS (p @ ''.settings.cols''))) (\<lambda>_.
        optional_key settings ''attachment_id'' (attachment_key (p @ ''.settings.attachment_id'')))))"

definition validate_geometry :: "table \<Rightarrow> str \<Rightarrow> str + unit" where
  "validate_geometry td p =
     and_then (int_field td ''col'' 0 (p @ ''.col'')) (\<lambda>col.
     and_then (int_field td ''row'' 0 (p @ ''.row'')) (\<lambda>row.
     and_then (int_field td ''cspan'' GRID (p @ ''.cspan'')) (\<lambda>cspan.
     and_then (int_field td ''rspan'' GRID (p @ ''.rspan'')) (\<lambda>rspan.
     if \<not> (0 \<le> col \<and> col < GRID) \<or> \<not> (0 \<le> row \<and> row < GRID)
     then Inl (error_at p (''col/row must be 0-'' @ dec (nat (GRID - 1))))
     else if \<not> (1 \<le> cspan \<and> cspan \<le> GRID) \<or> \<not> (1 \<le> rspan \<and> rspan \<le> GRID)
     then Inl (error_at p (''cspan/rspan must be 1-'' @ dec (nat GRID)))
     else if GRID < col + cspan \<or> GRID < row + rspan
     then Inl (error_at p ''the tile must fit inside the grid'')
     else Inr ()))))"

definition validate_tile :: "str \<Rightarrow> nat \<Rightarrow> toml \<Rightarrow> str + unit" where
  "validate_tile path j tile =
     (let p = index_path (path @ ''.tiles'') j
      in case ttab tile of
           None \<Rightarrow> Inl (error_at p ''must be a table'')
         | Some td \<Rightarrow>
             (case map_of td ''settings'' of
                None \<Rightarrow> Inl (error_at p ''missing required key `settings`'')
              | Some v \<Rightarrow>
                  (case ttab v of
                     None \<Rightarrow> Inl (error_at p ''`settings` must be a table'')
                   | Some settings \<Rightarrow> and_then (validate_settings settings p) (\<lambda>_. validate_geometry td p))))"

definition parse_profile :: "nat \<Rightarrow> toml \<Rightarrow> str + profile_spec" where
  "parse_profile i item =
     (let p = index_path ''manifest.profiles'' i
      in case ttab item of
           None \<Rightarrow> Inl (error_at p ''must be a table'')
         | Some entry \<Rightarrow>
             and_then (reject_unknown_keys entry [''name'', ''tiles''] p) (\<lambda>_.
             and_then (required_string entry ''name'' p) (\<lambda>name.
             if name = [] \<or> MAX_NAME_LEN < char_count name
             then Inl (error_at (p @ ''.name'') (''must be 1-'' @ dec MAX_NAME_LEN @ '' characters''))
             else (case map_of entry ''tiles'' of
                 None \<Rightarrow> Inl (error_at p ''missing required key `tiles`'')
               | Some v \<Rightarrow>
                   (case tarr v of
                      None \<Rightarrow> Inl (error_at (p @ ''.tiles'') ''must be an array of tables'')
                    | Some tiles \<Rightarrow>
                        if MAX_PROFILE_TILES < length tiles
                        then Inl (error_at (p @ ''.tiles'') (''at most '' @ dec MAX_PROFILE_TILES @ '' entries''))
                        else and_then (all_ok (validate_tile p) tiles) (\<lambda>_.
                          Inr \<lparr>ps_name = name, ps_tiles = tiles\<rparr>))))))"

definition parse_profiles :: "table \<Rightarrow> str + profile_spec list" where
  "parse_profiles tab = section_of tab ''profiles'' MAX_PROFILES [] parse_profile"

section \<open>The manifest\<close>

definition MANIFEST_KEYS :: "str list" where
  "MANIFEST_KEYS = [''id'', ''name'', ''version'', ''min_gpty_version'', ''platforms'', ''build'', ''startup'',
     ''actions'', ''events'', ''link_handlers'', ''concepts'', ''profiles'']"

definition validate :: "json_text \<Rightarrow> ('r, 's) regex_api \<Rightarrow> str list \<Rightarrow> table \<Rightarrow> str + manifest" where
  "validate J R tools tab =
     and_then (reject_unknown_keys tab MANIFEST_KEYS ''manifest'') (\<lambda>_.
     and_then (required_string tab ''id'' ''manifest'') (\<lambda>id'.
     if \<not> valid_plugin_id id'
     then Inl (error_at ''manifest.id'' ''must be `owner/name` ([a-z0-9-] parts, 1-63 chars each)'')
     else and_then (required_string tab ''name'' ''manifest'') (\<lambda>name.
     if name = [] \<or> MAX_NAME_LEN < char_count name
     then Inl (error_at ''manifest.name'' (''must be 1-'' @ dec MAX_NAME_LEN @ '' characters''))
     else and_then (parse_semver_field tab ''version'') (\<lambda>version.
     and_then (parse_semver_field tab ''min_gpty_version'') (\<lambda>min_version.
     and_then (parse_platforms tab) (\<lambda>platforms.
     and_then (parse_argv tab ''build'' ''manifest.build'') (\<lambda>build.
     and_then (parse_argv tab ''startup'' ''manifest.startup'') (\<lambda>startup.
     and_then (parse_manifest_actions tools tab) (\<lambda>actions.
     and_then (parse_events tab) (\<lambda>events.
     and_then (parse_link_handlers tab) (\<lambda>link_handlers.
     and_then (parse_concepts J R tab) (\<lambda>concepts.
     and_then (parse_profiles tab) (\<lambda>profiles.
     Inr \<lparr>mf_id = id', mf_name = name, mf_version = version, mf_min_version = min_version,
       mf_platforms = platforms, mf_build = build, mf_startup = startup, mf_actions = actions,
       mf_events = events, mf_link_handlers = link_handlers, mf_concepts = concepts,
       mf_profiles = profiles\<rparr>)))))))))))))"

definition parse_manifest :: "(str \<Rightarrow> str + table) \<Rightarrow> json_text \<Rightarrow> ('r, 's) regex_api \<Rightarrow> str list \<Rightarrow> str \<Rightarrow> str + manifest" where
  \<comment> \<open>the first parameter is the TOML parser\<close>
  "parse_manifest toml_parse J R tools src =
     (case toml_parse src of
        Inl e \<Rightarrow> Inl (''manifest is not valid TOML: '' @ e)
      | Inr tab \<Rightarrow> validate J R tools tab)"

section \<open>What a valid manifest is\<close>

definition argv_ok :: "str list \<Rightarrow> bool" where
  "argv_ok args \<longleftrightarrow> length args \<le> MAX_ARGV_ENTRIES \<and> sum_list (map char_count args) \<le> MAX_ARGV_CHARS \<and>
     list_all (\<lambda>s. s \<noteq> [] \<and> char_count s \<le> MAX_ARG_VALUE_LEN \<and> \<not> str_contains s replacement) args"

definition action_ok :: "str list \<Rightarrow> action_spec \<Rightarrow> bool" where
  "action_ok tools a \<longleftrightarrow> valid_spec_name (as_name a) \<and> as_command a \<in> set tools \<and>
     length (as_args a) \<le> MAX_ACTION_ARGS \<and>
     list_all (\<lambda>(k, v). valid_arg_key k \<and> char_count v \<le> MAX_ARG_VALUE_LEN) (as_args a)"

text \<open>A tile is a table whose settings name a pane type and whose cell lies in the grid.\<close>

definition cell_value :: "table \<Rightarrow> str \<Rightarrow> int \<Rightarrow> int" where
  "cell_value td key d = (case map_of td key of Some (TInt v) \<Rightarrow> v | _ \<Rightarrow> d)"

definition in_grid :: "table \<Rightarrow> bool" where
  "in_grid td \<longleftrightarrow>
     0 \<le> cell_value td ''col'' 0 \<and> 1 \<le> cell_value td ''cspan'' GRID \<and>
     cell_value td ''col'' 0 + cell_value td ''cspan'' GRID \<le> GRID \<and>
     0 \<le> cell_value td ''row'' 0 \<and> 1 \<le> cell_value td ''rspan'' GRID \<and>
     cell_value td ''row'' 0 + cell_value td ''rspan'' GRID \<le> GRID"

definition tile_ok :: "toml \<Rightarrow> bool" where
  "tile_ok tile \<longleftrightarrow> (\<exists>td settings. tile = TTab td \<and> map_of td ''settings'' = Some (TTab settings) \<and>
     (\<exists>t \<in> set pane_type_ALL. tile_type settings = pane_type_as_str t) \<and> in_grid td)"

definition profile_ok :: "profile_spec \<Rightarrow> bool" where
  "profile_ok p \<longleftrightarrow> ps_name p \<noteq> [] \<and> char_count (ps_name p) \<le> MAX_NAME_LEN \<and>
     length (ps_tiles p) \<le> MAX_PROFILE_TILES \<and> list_all tile_ok (ps_tiles p)"

definition semver_ok :: "semver \<Rightarrow> bool" where
  "semver_ok v \<longleftrightarrow> sv_major v < 2 ^ 64 \<and> sv_minor v < 2 ^ 64 \<and> sv_patch v < 2 ^ 64"

definition manifest_ok :: "str list \<Rightarrow> manifest \<Rightarrow> bool" where
  "manifest_ok tools m \<longleftrightarrow>
     valid_plugin_id (mf_id m) \<and> mf_name m \<noteq> [] \<and> char_count (mf_name m) \<le> MAX_NAME_LEN \<and>
     semver_ok (mf_version m) \<and> semver_ok (mf_min_version m) \<and> distinct (mf_platforms m) \<and>
     argv_ok (mf_build m) \<and> argv_ok (mf_startup m) \<and>
     length (mf_actions m) \<le> MANIFEST_MAX_ACTIONS \<and> list_all (action_ok tools) (mf_actions m) \<and>
     length (mf_events m) \<le> MAX_EVENTS \<and>
     list_all (\<lambda>e. valid_spec_name (es_name e) \<and> es_kind e \<in> set EVENT_TYPES) (mf_events m) \<and>
     length (mf_link_handlers m) \<le> MAX_LINK_HANDLERS \<and>
     list_all (\<lambda>h. valid_scheme (lh_scheme h) \<and> argv_ok (lh_command h)) (mf_link_handlers m) \<and>
     length (mf_concepts m) \<le> MANIFEST_MAX_CONCEPTS \<and>
     length (mf_profiles m) \<le> MAX_PROFILES \<and> list_all profile_ok (mf_profiles m)"

section \<open>Each part is well-formed\<close>

lemma required_string_Inr [simp]: "required_string tab key p = Inr s \<longleftrightarrow> map_of tab key = Some (TStr s)"
  by (cases "map_of tab key"; cases "the (map_of tab key)") (auto simp: required_string_def)

lemma int_field_Inr: "int_field tab key d p = Inr n \<Longrightarrow> cell_value tab key d = n"
  by (cases "map_of tab key"; cases "the (map_of tab key)") (auto simp: int_field_def cell_value_def)

lemma semver_parse_ok: "semver_parse s = Some v \<Longrightarrow> semver_ok v"
  by (auto simp: semver_parse_def semver_ok_def split: list.splits option.splits dest!: parse_u64_bound)

lemma semver_field_ok: "parse_semver_field tab key = Inr v \<Longrightarrow> semver_ok v"
  by (auto simp: parse_semver_field_def semver_parse_ok split: option.splits)

lemma platforms_loop_distinct: "platforms_loop i items out = Inr ps \<Longrightarrow> distinct out \<Longrightarrow> distinct ps"
  by (induction i items out rule: platforms_loop.induct) (auto split: option.splits if_splits)

lemma parse_platforms_distinct: "parse_platforms tab = Inr ps \<Longrightarrow> distinct ps"
  by (auto simp: parse_platforms_def platforms_loop_distinct split: option.splits)

lemma argv_entry_Inr: "argv_entry p i item = Inr s \<Longrightarrow>
    s \<noteq> [] \<and> char_count s \<le> MAX_ARG_VALUE_LEN \<and> \<not> str_contains s replacement"
  by (auto simp: argv_entry_def not_less)

lemma validate_argv_ok: "validate_argv v p = Inr args \<Longrightarrow> argv_ok args"
  by (auto simp: validate_argv_def argv_ok_def not_less dest: each_length intro: each_all [OF _ argv_entry_Inr])

lemma parse_argv_ok: "parse_argv tab key p = Inr args \<Longrightarrow> argv_ok args"
  by (auto simp: parse_argv_def validate_argv_ok split: option.splits) (simp add: argv_ok_def)

lemma section_ok:
  assumes "section_of tab key limit s f = Inr xs" and "\<And>i item x. f i item = Inr x \<Longrightarrow> P x"
  shows "length xs \<le> limit \<and> list_all P xs"
  using assms(1) each_all [OF _ assms(2)] each_length
  by (fastforce simp: section_of_def split: option.splits if_splits)

lemma action_arg_ok: "action_arg p i kv = Inr (k, v) \<Longrightarrow> valid_arg_key k \<and> char_count v \<le> MAX_ARG_VALUE_LEN"
  by (auto simp: action_arg_def Let_def not_less split: prod.splits)

lemma action_args_ok:
  assumes "parse_action_args entry p = Inr args"
  shows "length args \<le> MAX_ACTION_ARGS \<and> list_all (\<lambda>(k, v). valid_arg_key k \<and> char_count v \<le> MAX_ARG_VALUE_LEN) args"
proof (cases "map_of entry ''args''")
  case None
  then show ?thesis using assms by (simp add: parse_action_args_def)
next
  case (Some v)
  then obtain kvs where kvs: "length kvs \<le> MAX_ACTION_ARGS" "each (action_arg p) 0 kvs = Inr args"
    using assms that by (auto simp: parse_action_args_def not_less)
  have "list_all (\<lambda>(k, v). valid_arg_key k \<and> char_count v \<le> MAX_ARG_VALUE_LEN) args"
    by (rule each_all [OF kvs(2)]) (auto dest: action_arg_ok)
  then show ?thesis using kvs each_length [OF kvs(2)] by simp
qed

lemma spec_name_Inr: "spec_name tab p = Inr s \<Longrightarrow> valid_spec_name s"
  by (auto simp: spec_name_def)

lemma parse_action_ok: "parse_action tools i item = Inr a \<Longrightarrow> action_ok tools a"
  by (auto simp: parse_action_def Let_def action_ok_def spec_name_Inr dest!: action_args_ok)

lemma parse_event_ok: "parse_event i item = Inr e \<Longrightarrow> valid_spec_name (es_name e) \<and> es_kind e \<in> set EVENT_TYPES"
  by (auto simp: parse_event_def Let_def spec_name_Inr)

lemma parse_link_handler_ok: "parse_link_handler i item = Inr h \<Longrightarrow> valid_scheme (lh_scheme h) \<and> argv_ok (lh_command h)"
  by (auto simp: parse_link_handler_def Let_def validate_argv_ok)

lemma geometry_ok: "validate_geometry td p = Inr () \<Longrightarrow> in_grid td"
  by (auto simp: validate_geometry_def in_grid_def dest!: int_field_Inr)

lemma settings_ok: "validate_settings settings p = Inr () \<Longrightarrow> \<exists>t \<in> set pane_type_ALL. tile_type settings = pane_type_as_str t"
  by (auto simp: validate_settings_def pane_types_def)

lemma validate_tile_ok: "validate_tile path j tile = Inr () \<Longrightarrow> tile_ok tile"
  by (auto simp: validate_tile_def tile_ok_def Let_def geometry_ok settings_ok)

lemma tiles_ok: "all_ok (validate_tile p) tiles = Inr () \<Longrightarrow> list_all tile_ok tiles"
  by (drule all_ok_Inr) (auto simp: list_all_iff dest: validate_tile_ok)

lemma parse_profile_ok: "parse_profile i item = Inr p \<Longrightarrow> profile_ok p"
  by (auto simp: parse_profile_def profile_ok_def Let_def not_less dest: tiles_ok)

lemma parse_concepts_Inr:
  assumes "parse_concepts J R tab = Inr items"
  shows "length items \<le> MANIFEST_MAX_CONCEPTS \<and>
    (items = [] \<or> length (concepts_from_json (from_text J) R (to_text J (JArr (map toml_json items)))) = length items)"
  using assms by (auto simp: parse_concepts_def Let_def split: option.splits if_splits)


text \<open>A manifest with one of everything, its values as the TOML parser would give them.\<close>

definition demo_manifest :: table where
  "demo_manifest =
     [(''id'', TStr ''acme/tools''), (''name'', TStr ''Tools''), (''version'', TStr ''1.2.3''),
      (''min_gpty_version'', TStr ''0.1.0''), (''platforms'', TArr [TStr ''linux'', TStr ''linux'']),
      (''build'', TArr [TStr ''make'']),
      (''actions'', TArr [TTab [(''name'', TStr ''go''), (''command'', TStr ''pane_run''),
         (''args'', TTab [(''text'', TStr ''ls'')])]]),
      (''events'', TArr [TTab [(''name'', TStr ''seen''), (''type'', TStr ''pane.spawned'')]]),
      (''link_handlers'', TArr [TTab [(''scheme'', TStr ''x-acme''), (''command'', TArr [TStr ''open''])]]),
      (''concepts'', TArr [TTab [(''name'', TStr ''err''), (''trigger'', TStr ''error'')]]),
      (''profiles'', TArr [TTab [(''name'', TStr ''Dev''),
         (''tiles'', TArr [TTab [(''settings'', TTab [(''type'', TStr ''wiki'')]), (''col'', TInt 30), (''cspan'', TInt 30)]])]])]"

text \<open>A stand-in for JSON text that knows one document.\<close>

definition one_text :: "json \<Rightarrow> json_text" where
  "one_text v = \<lparr>to_text = (\<lambda>_. []), from_text = (\<lambda>_. Some v)\<rparr>"

definition demo_concepts :: json where
  "demo_concepts = JArr [JObj [(''name'', JStr ''err''), (''trigger'', JStr ''error'')]]"

lemma clamp_stop_code [code_unfold]:
  "clamp 1 MAX_STOP_TIMEOUT_MS x = (if 600000 < int x then MAX_STOP_TIMEOUT_MS else max 1 x)"
  by (auto simp: clamp_def MAX_STOP_TIMEOUT_MS_def)

lemma demo_run:
  "map_sum id mf_platforms (parse_manifest (\<lambda>_. Inr demo_manifest) (one_text demo_concepts) literal_regex [''pane_run''] []) =
     Inr [Linux]"
  by code_simp


section \<open>The engine's view of a concept\<close>

lemma jget_toml [simp]: "jget (toml_json (TTab kvs)) k = map_option toml_json (map_of kvs k)"
  by (simp add: map_of_map)

lemma map_filter_complete:
  "length (List.map_filter f xs) = length xs \<Longrightarrow> map f xs = map Some (List.map_filter f xs)"
proof (induction xs)
  case (Cons x xs)
  have "length (List.map_filter f xs) \<le> length xs" by (simp add: List.map_filter_def)
  then show ?case using Cons by (auto simp: map_filter_simps split: option.splits)
qed (simp add: map_filter_simps)

lemma map_filter_length: "length (List.map_filter f xs) \<le> length xs"
  by (simp add: List.map_filter_def)

text \<open>The engine loads what the manifest declares: given that JSON text reads back, loading the
  concepts of a parsed manifest yields one concept per entry, in order, none dropped.\<close>

theorem manifest_concepts_load:
  assumes "parse_manifest toml_parse J R tools src = Inr m"
    and "from_text J (to_text J (JArr (map toml_json (mf_concepts m)))) = Some (JArr (map toml_json (mf_concepts m)))"
  shows "map (\<lambda>entry. concept_of_item R (toml_json entry)) (mf_concepts m) =
    map Some (concepts_from_json (from_text J) R (to_text J (JArr (map toml_json (mf_concepts m)))))"
proof -
  obtain tab where "parse_concepts J R tab = Inr (mf_concepts m)"
    using assms(1) by (auto simp: parse_manifest_def validate_def split: sum.splits)
  from parse_concepts_Inr [OF this] have
    c: "length (mf_concepts m) \<le> MAX_CONCEPTS"
      "mf_concepts m = [] \<or> length (concepts_from_json (from_text J) R (to_text J (JArr (map toml_json (mf_concepts m))))) =
         length (mf_concepts m)"
    by (simp_all add: MAX_CONCEPTS_def MANIFEST_MAX_CONCEPTS_def)
  let ?items = "map toml_json (mf_concepts m)"
  have "length (List.map_filter (concept_of_item R) ?items) \<le> MAX_CONCEPTS"
    using map_filter_length [of "concept_of_item R" ?items] c(1) by simp
  then have load: "concepts_from_json (from_text J) R (to_text J (JArr ?items)) = List.map_filter (concept_of_item R) ?items"
    using concepts_loop_filter [of "[]" R ?items] assms(2) by (simp add: concepts_from_json_def)
  then have "length (List.map_filter (concept_of_item R) ?items) = length ?items"
    using c(2) by (auto simp: map_filter_simps)
  from map_filter_complete [OF this] show ?thesis unfolding load by (simp add: comp_def)
qed

theorem manifest_concepts_load_witness:
  "map c_name (concepts_from_json (from_text (one_text demo_concepts)) literal_regex []) = [''err'']"
proof -
  obtain m where m: "parse_manifest (\<lambda>_. Inr demo_manifest) (one_text demo_concepts) literal_regex [''pane_run''] [] = Inr m"
    using demo_run
    by (cases "parse_manifest (\<lambda>_. Inr demo_manifest) (one_text demo_concepts) literal_regex [''pane_run''] []") auto
  have c: "map_sum id (\<lambda>m. map toml_json (mf_concepts m))
      (parse_manifest (\<lambda>_. Inr demo_manifest) (one_text demo_concepts) literal_regex [''pane_run''] []) =
      Inr [JObj [(''name'', JStr ''err''), (''trigger'', JStr ''error'')]]"
    "map_option c_name (concept_of_item literal_regex (JObj [(''name'', JStr ''err''), (''trigger'', JStr ''error'')])) = Some ''err''"
    by code_simp+
  then have items: "map toml_json (mf_concepts m) = [JObj [(''name'', JStr ''err''), (''trigger'', JStr ''error'')]]"
    using m by simp
  then obtain e where e: "mf_concepts m = [e]" "toml_json e = JObj [(''name'', JStr ''err''), (''trigger'', JStr ''error'')]"
    by auto
  have "from_text (one_text demo_concepts) (to_text (one_text demo_concepts) (JArr (map toml_json (mf_concepts m)))) =
      Some (JArr (map toml_json (mf_concepts m)))"
    by (simp add: items one_text_def demo_concepts_def)
  from manifest_concepts_load [OF m this] show ?thesis
    using c(2) e by (auto simp: one_text_def)
qed

text \<open>For ASCII entries the validator and the engine agree: an entry the validator accepts, whose
  patterns the regex crate compiles, is loaded by the engine under its name, with every
  condition, and with exactly the stop timeout it states - nothing is dropped or clamped.\<close>

theorem valid_ascii_concept_loads:
  assumes "validate_concept_entry entry p = Inr ()"
    and "map_of entry ''name'' = Some (TStr name)" "ascii name"
    and "map_of entry ''trigger'' = Some (TStr trigger)" "ascii trigger" "re_new R trigger = Inr re"
    and "map_of entry ''conditions'' = Some (TArr (map TStr conds))"
    and "list_all (\<lambda>s. ascii s \<and> (\<exists>r. re_new R s = Inr r)) conds"
    and "map_of entry ''stop_timeout_ms'' = Some (TInt ms)"
  shows "\<exists>c. concept_of_item R (toml_json (TTab entry)) = Some c \<and> c_name c = name \<and> c_trigger_regex c = re \<and>
    map Inr (c_conditions c) = map (re_new R) conds \<and>
    (case c_capture_mode c of Until_Stop t _ \<Rightarrow> int t = ms | Single_Line \<Rightarrow> True)"
proof -
  have v: "name \<noteq> []" "length name \<le> 256" "trigger \<noteq> []" "length trigger \<le> MAX_TRIGGER_LEN"
    using assms(1-5) by (auto simp: validate_concept_entry_def char_count_ascii MAX_CONCEPT_NAME_LEN_def
        MAX_CONCEPT_TRIGGER_LEN_def MAX_TRIGGER_LEN_def not_less)
  have ms: "1 \<le> ms" "ms \<le> 600000"
    using assms(1,9) by (auto simp: validate_concept_entry_def optional_key_def timeout_key_def)
  have conds: "length conds \<le> MAX_CONDITIONS" "list_all (\<lambda>s. s \<noteq> [] \<and> length s \<le> MAX_TRIGGER_LEN) conds"
  proof -
    have c: "length conds \<le> 8" "all_ok (condition_entry (p @ ''.conditions'')) (map TStr conds) = Inr ()"
      using assms(1,7) by (auto simp: validate_concept_entry_def optional_key_def conditions_key_def not_less)
    then show "length conds \<le> MAX_CONDITIONS" by (simp add: MAX_CONDITIONS_def)
    have "list_all (\<lambda>s. s \<noteq> [] \<and> char_count s \<le> 1024) conds"
      using all_ok_Inr [OF c(2)] by (auto simp: list_all_iff condition_entry_def)
    then show "list_all (\<lambda>s. s \<noteq> [] \<and> length s \<le> MAX_TRIGGER_LEN) conds"
      using assms(8) by (auto simp: list_all_iff char_count_ascii MAX_TRIGGER_LEN_def)
  qed
  have compile: "\<exists>res. compile_conditions R (map JStr cs) = Inr res \<and> map Inr res = map (re_new R) cs"
    if "list_all (\<lambda>s. s \<noteq> [] \<and> length s \<le> MAX_TRIGGER_LEN) cs" "list_all (\<lambda>s. \<exists>r. re_new R s = Inr r) cs" for cs
    using that by (induction cs) (auto simp: compile_pattern_def)
  have "list_all (\<lambda>s. \<exists>r. re_new R s = Inr r) conds" using assms(8) by (auto simp: list_all_iff)
  from compile [OF conds(2) this] obtain res where
    res: "compile_conditions R (map JStr conds) = Inr res" "map Inr res = map (re_new R) conds" by blast
  have parse: "parse_conditions R (Some (JArr (map JStr conds))) = Inr res"
    using res(1) conds(1) by (simp add: parse_conditions_def)
  have arr: "toml_json (TArr (map TStr conds)) = JArr (map JStr conds)" by simp
  have ts: "unwrap_or (ju64 (jindex (toml_json (TTab entry)) ''stop_timeout_ms'')) 300 = nat ms"
    using ms assms(9) by (simp add: jindex_def del: toml_json.simps(7))
  have clamp: "int (clamp 1 MAX_STOP_TIMEOUT_MS (nat ms)) = ms"
    using ms by (simp add: clamp_def MAX_STOP_TIMEOUT_MS_def)
  show ?thesis
    using v assms(2,4,6,7) parse res(2) ts clamp arr
    by (subst concept_of_item_eq [where nm = name and trigger = trigger and cs = "JArr (map JStr conds)"])
      (simp_all del: toml_json.simps(7))
qed

theorem valid_ascii_concept_loads_witness:
  "\<exists>c. concept_of_item literal_regex (toml_json (TTab [(''name'', TStr ''err''), (''trigger'', TStr ''error''),
       (''conditions'', TArr [TStr ''fatal'']), (''stop_timeout_ms'', TInt 900)])) = Some c \<and>
     c_conditions c = [''fatal'']"
proof -
  let ?entry = "[(''name'', TStr ''err''), (''trigger'', TStr ''error''),
     (''conditions'', TArr [TStr ''fatal'']), (''stop_timeout_ms'', TInt 900)]"
  have e: "validate_concept_entry ?entry [] = Inr ()" "ascii ''err''" "ascii ''error''" "ascii ''fatal''" by code_simp+
  have "map_of ?entry ''conditions'' = Some (TArr (map TStr [''fatal'']))" by simp
  from valid_ascii_concept_loads [OF e(1) _ e(2) _ e(3) _ this, of literal_regex "''error''" 900] show ?thesis
    using e(4) by (auto simp: literal_regex_def)
qed

text \<open>Outside ASCII they do not agree: the validator counts characters where the engine counts
  bytes.  A name of 129 two-byte characters is accepted by the validator and dropped by the
  engine, and the manifest is refused with a message that blames a pattern.\<close>

theorem concept_caps_disagree:
  "let entry = [(''name'', TStr (concat (replicate 129 [CHR 0xC3, CHR 0xA9]))), (''trigger'', TStr ''x'')];
       item = toml_json (TTab entry)
   in validate_concept_entry entry p = Inr () \<and> concept_of_item literal_regex item = None \<and>
      parse_concepts (one_text (JArr [item])) literal_regex [(''concepts'', TArr [TTab entry])] =
        Inl ''manifest.concepts: the engine rejected 1 of 1 entries (a trigger or condition the Rust `regex` engine cannot compile)''"
  by code_simp

section \<open>Versions\<close>

text \<open>A version written out is read back.\<close>

theorem semver_roundtrip:
  assumes "semver_ok v"
  shows "semver_parse (semver_display v) = Some v"
proof -
  have "CHR ''.'' \<notin> set (dec n)" for n
    using dec_digits [of n] by (auto simp: list_all_iff is_digit_def code_def)
  then show ?thesis
    using assms by (simp add: semver_parse_def semver_display_def split_on_append split_on_none parse_u64_dec semver_ok_def)
qed

theorem semver_roundtrip_witness:
  "semver_parse (semver_display \<lparr>sv_major = 0, sv_minor = 12, sv_patch = 3\<rparr>) = Some \<lparr>sv_major = 0, sv_minor = 12, sv_patch = 3\<rparr>"
  by (rule semver_roundtrip) (simp add: semver_ok_def)

end
