(* ===== verification/Plugin_Store.thy ===== *)
theory Plugin_Store
  imports Plugin_Manifest File_Calls
begin

text \<open>
  The installed-plugin record store, \<open>crates/gpty-cli/src/plugin_store.rs\<close>: the records of
  \<open>plugins.json\<close> in the state directory \<open>dir\<close>, read strictly and replaced whole.  What the system
  does at one call - the random suffix, the clock, whether a write or a rename fails and with
  which text - is the environment.
\<close>

section \<open>Records\<close>

definition MAX_PLUGINS :: nat where "MAX_PLUGINS = 256"
definition MIN_REVISION_LEN :: nat where "MIN_REVISION_LEN = 7"
definition MAX_REVISION_LEN :: nat where "MAX_REVISION_LEN = 64"
definition STORE_MAX_ID_LEN :: nat where "STORE_MAX_ID_LEN = 127"
definition MAX_PROFILE_RECORDS :: nat where "MAX_PROFILE_RECORDS = 64"
definition STORE_MAX_PROFILE_TILES :: nat where "STORE_MAX_PROFILE_TILES = 64"
definition MAX_PROFILE_NAME_LEN :: nat where "MAX_PROFILE_NAME_LEN = MAX_NAME_LEN"
definition MAX_CONCEPT_RECORDS :: nat where "MAX_CONCEPT_RECORDS = MANIFEST_MAX_CONCEPTS"

record plugin_profile =
  pp_name :: str
  pp_tiles :: "json list"

record plugin_record =
  pr_id :: str
  pr_revision :: str
  pr_enabled :: bool
  pr_installed_at :: nat
  pr_profiles :: "plugin_profile list"
  pr_concepts :: "json list"

record store_env =
  se_suffix :: str         \<comment> \<open>the 16 hexadecimal digits of the temporary name\<close>
  se_now :: int            \<comment> \<open>nanoseconds since the epoch\<close>
  se_write_ok :: bool
  se_rename_ok :: bool
  se_error :: str

definition now_secs :: "store_env \<Rightarrow> nat" where
  "now_secs E = nat (se_now E) div 1000000000"

section \<open>Checks\<close>

definition validate_id :: "str \<Rightarrow> str + unit" where
  "validate_id i =
     (if valid_plugin_id i \<and> length i \<le> STORE_MAX_ID_LEN then Inr ()
      else Inl (''invalid plugin id `'' @ i @ ''` (must be `owner/name`)''))"

definition validate_revision :: "str \<Rightarrow> str + unit" where
  "validate_revision r =
     (if MIN_REVISION_LEN \<le> length r \<and> length r \<le> MAX_REVISION_LEN \<and>
         list_all (\<lambda>c. is_lower c \<or> is_digit c \<or> c = CHR ''.'' \<or> c = CHR ''_'' \<or> c = CHR ''-'') r
      then Inr ()
      else Inl (''invalid revision `'' @ r @ ''` ('' @ dec MIN_REVISION_LEN @ ''-'' @ dec MAX_REVISION_LEN @
        '' chars of [a-z0-9._-])''))"

definition check_tile :: "nat \<Rightarrow> json \<Rightarrow> str + unit" where
  "check_tile i tile = (if jobj tile = None then Inl (''tile '' @ dec i @ '' is not an object'') else Inr ())"

definition check_profile_shape :: "str \<Rightarrow> json list \<Rightarrow> str + unit" where
  "check_profile_shape name tiles =
     (if char_count name = 0 \<or> MAX_PROFILE_NAME_LEN < char_count name
      then Inl (''`name` must be 1-'' @ dec MAX_PROFILE_NAME_LEN @ '' characters'')
      else if STORE_MAX_PROFILE_TILES < length tiles
      then Inl (''more than '' @ dec STORE_MAX_PROFILE_TILES @ '' tiles'')
      else all_ok check_tile tiles)"

definition unknown_key :: "(str \<times> json) list \<Rightarrow> str list \<Rightarrow> str + unit" where
  "unknown_key tab known =
     (case find (\<lambda>k. k \<notin> set known) (map fst tab) of
        Some k \<Rightarrow> Inl (''unknown key `'' @ k @ ''`'')
      | None \<Rightarrow> Inr ())"

definition check_concept_shape :: "json \<Rightarrow> str + unit" where
  "check_concept_shape entry =
     and_then (ok_or (jobj entry) ''is not an object'') (\<lambda>tab.
     and_then (unknown_key tab CONCEPT_KEYS) (\<lambda>_.
     and_then (ok_or (Option.bind (map_of tab ''name'') jstr) ''missing string `name`'') (\<lambda>name.
     if char_count name = 0 \<or> MAX_CONCEPT_NAME_LEN < char_count name
     then Inl (''`name` must be 1-'' @ dec MAX_CONCEPT_NAME_LEN @ '' characters'')
     else and_then (ok_or (Option.bind (map_of tab ''trigger'') jstr) ''missing string `trigger`'') (\<lambda>trigger.
     if char_count trigger = 0 \<or> MAX_CONCEPT_TRIGGER_LEN < char_count trigger
     then Inl (''`trigger` must be 1-'' @ dec MAX_CONCEPT_TRIGGER_LEN @ '' characters'')
     else Inr ()))))"

definition validate_profiles :: "plugin_profile list \<Rightarrow> str + unit" where
  "validate_profiles ps =
     (if MAX_PROFILE_RECORDS < length ps
      then Inl (''at most '' @ dec MAX_PROFILE_RECORDS @ '' profiles per plugin'')
      else all_ok (\<lambda>_ p. map_err (\<lambda>what. ''invalid profile `'' @ pp_name p @ ''`: '' @ what)
        (check_profile_shape (pp_name p) (pp_tiles p))) ps)"

definition validate_concepts :: "json list \<Rightarrow> str + unit" where
  "validate_concepts cs =
     (if MAX_CONCEPT_RECORDS < length cs
      then Inl (''at most '' @ dec MAX_CONCEPT_RECORDS @ '' concepts per plugin'')
      else all_ok (\<lambda>i c. map_err (\<lambda>what. ''concept '' @ dec i @ '': '' @ what) (check_concept_shape c)) cs)"

section \<open>Reading\<close>

definition parse_profile_record :: "nat \<Rightarrow> json \<Rightarrow> str + plugin_profile" where
  "parse_profile_record i entry =
     (let p = ''profile '' @ dec i
      in and_then (ok_or (jobj entry) (p @ '' is not an object'')) (\<lambda>tab.
         and_then (map_err (\<lambda>what. p @ '': '' @ what) (unknown_key tab [''name'', ''tiles''])) (\<lambda>_.
         and_then (ok_or (Option.bind (map_of tab ''name'') jstr) (p @ '': missing string `name`'')) (\<lambda>name.
         and_then (ok_or (Option.bind (map_of tab ''tiles'') jarr) (p @ '': missing array `tiles`'')) (\<lambda>tiles.
         and_then (map_err (\<lambda>what. p @ '': '' @ what) (check_profile_shape name tiles)) (\<lambda>_.
         Inr \<lparr>pp_name = name, pp_tiles = tiles\<rparr>))))))"

definition parse_record_profiles :: "json \<Rightarrow> str + plugin_profile list" where
  "parse_record_profiles v =
     and_then (ok_or (jarr v) ''`profiles` is not an array'') (\<lambda>entries.
     if MAX_PROFILE_RECORDS < length entries
     then Inl (''more than '' @ dec MAX_PROFILE_RECORDS @ '' profiles'')
     else each parse_profile_record 0 entries)"

definition parse_record_concepts :: "json \<Rightarrow> str + json list" where
  "parse_record_concepts v =
     and_then (ok_or (jarr v) ''`concepts` is not an array'') (\<lambda>entries.
     if MAX_CONCEPT_RECORDS < length entries
     then Inl (''more than '' @ dec MAX_CONCEPT_RECORDS @ '' concepts'')
     else and_then (all_ok (\<lambda>i c. map_err (\<lambda>what. ''concept '' @ dec i @ '': '' @ what) (check_concept_shape c)) entries)
       (\<lambda>_. Inr entries))"

definition RECORD_KEYS :: "str list" where
  "RECORD_KEYS = [''id'', ''revision'', ''enabled'', ''installed_at'', ''profiles'', ''concepts'']"

definition parse_record :: "json \<Rightarrow> str + plugin_record" where
  "parse_record entry =
     and_then (ok_or (jobj entry) ''not an object'') (\<lambda>tab.
     and_then (unknown_key tab RECORD_KEYS) (\<lambda>_.
     and_then (ok_or (Option.bind (map_of tab ''id'') jstr) ''missing string `id`'') (\<lambda>i.
     and_then (validate_id i) (\<lambda>_.
     and_then (ok_or (Option.bind (map_of tab ''revision'') jstr) ''missing string `revision`'') (\<lambda>r.
     and_then (validate_revision r) (\<lambda>_.
     and_then (ok_or (Option.bind (map_of tab ''enabled'') jbool) ''missing boolean `enabled`'') (\<lambda>on.
     and_then (ok_or (Option.bind (map_of tab ''installed_at'') ju64) ''missing integer `installed_at`'') (\<lambda>t.
     and_then (case map_of tab ''profiles'' of Some v \<Rightarrow> parse_record_profiles v | None \<Rightarrow> Inr []) (\<lambda>ps.
     and_then (case map_of tab ''concepts'' of Some v \<Rightarrow> parse_record_concepts v | None \<Rightarrow> Inr []) (\<lambda>cs.
     Inr \<lparr>pr_id = i, pr_revision = r, pr_enabled = on, pr_installed_at = t, pr_profiles = ps,
       pr_concepts = cs\<rparr>))))))))))"

definition store_path :: "str \<Rightarrow> str" where
  "store_path dir = path_join dir ''plugins.json''"

definition corrupt :: "str \<Rightarrow> str \<Rightarrow> str" where
  "corrupt p what = p @ '' is corrupt: '' @ what"

definition records :: "json_text \<Rightarrow> store_env \<Rightarrow> fs \<Rightarrow> str \<Rightarrow> str + plugin_record list" where
  "records J E fs dir =
     (let p = store_path dir
      in case read_file fs p of
           Inl Io_Not_Found \<Rightarrow> Inr []
         | Inl _ \<Rightarrow> Inl (p @ '': '' @ se_error E)
         | Inr bs \<Rightarrow>
             and_then (ok_or (from_text J bs) (corrupt p (se_error E))) (\<lambda>root.
             and_then (ok_or (Option.bind (jget root ''plugins'') jarr) (corrupt p ''no `plugins` array'')) (\<lambda>entries.
             if MAX_PLUGINS < length entries
             then Inl (corrupt p (''more than '' @ dec MAX_PLUGINS @ '' records''))
             else each (\<lambda>i entry. map_err (\<lambda>what. corrupt p (''record '' @ dec i @ '': '' @ what)) (parse_record entry))
               0 entries)))"

definition record_of :: "json_text \<Rightarrow> store_env \<Rightarrow> fs \<Rightarrow> str \<Rightarrow> str \<Rightarrow> str + plugin_record option" where
  "record_of J E fs dir i = and_then (records J E fs dir) (\<lambda>rs. Inr (find (\<lambda>r. pr_id r = i) rs))"

section \<open>Writing\<close>

text \<open>The document the serializer makes of the records; its objects list their keys in order.\<close>

definition profile_json :: "plugin_profile \<Rightarrow> json" where
  "profile_json p = JObj [(''name'', JStr (pp_name p)), (''tiles'', JArr (pp_tiles p))]"

definition record_json :: "plugin_record \<Rightarrow> json" where
  "record_json r = JObj
     [(''concepts'', JArr (pr_concepts r)), (''enabled'', JBool (pr_enabled r)), (''id'', JStr (pr_id r)),
      (''installed_at'', JInt (int (pr_installed_at r))), (''profiles'', JArr (map profile_json (pr_profiles r))),
      (''revision'', JStr (pr_revision r))]"

definition store_json :: "plugin_record list \<Rightarrow> json" where
  "store_json rs = JObj [(''plugins'', JArr (map record_json rs))]"

definition store_tmp :: "store_env \<Rightarrow> str" where
  "store_tmp E = ''plugins.json.tmp-'' @ se_suffix E"

definition write_new_file :: "store_env \<Rightarrow> fs \<Rightarrow> str \<Rightarrow> bytes \<Rightarrow> fs \<times> (str + unit)" where
  "write_new_file E fs p bs =
     (case create_new fs p (File (if se_write_ok E then bs else []) (se_now E) 384) of
        Inl _ \<Rightarrow> (fs, Inl (p @ '': '' @ se_error E))
      | Inr fs' \<Rightarrow> (fs', if se_write_ok E then Inr () else Inl (p @ '': '' @ se_error E)))"

definition write_records :: "json_text \<Rightarrow> store_env \<Rightarrow> fs \<Rightarrow> str \<Rightarrow> plugin_record list \<Rightarrow> fs \<times> (str + unit)" where
  "write_records J E fs dir rs =
     (case create_dir_all fs dir of
        (fs0, Inl _) \<Rightarrow> (fs0, Inl (dir @ '': '' @ se_error E))
      | (fs0, Inr _) \<Rightarrow>
          (let bs = to_text J (store_json rs) @ [LF]; tmp = path_join dir (store_tmp E);
               (fs2, result) = (case write_new_file E fs0 tmp bs of
                   (fs1, Inl e) \<Rightarrow> (fs1, Inl e)
                 | (fs1, Inr _) \<Rightarrow>
                     (case (if se_rename_ok E then rename_file fs1 tmp (store_path dir) else Inl Io_Other) of
                        Inl _ \<Rightarrow> (fs1, Inl (store_path dir @ '': '' @ se_error E))
                      | Inr fs2 \<Rightarrow> (fs2, Inr ())))
           in case result of
                Inl e \<Rightarrow> (case remove_file fs2 tmp of Inr fs3 \<Rightarrow> fs3 | Inl _ \<Rightarrow> fs2, Inl e)
              | Inr _ \<Rightarrow> (fs2, Inr ())))"

text \<open>The first record of an id, replaced.\<close>

fun update_first :: "(plugin_record \<Rightarrow> plugin_record) \<Rightarrow> str \<Rightarrow> plugin_record list \<Rightarrow> plugin_record list option" where
  "update_first f i [] = None"
| "update_first f i (r # rs) =
     (if pr_id r = i then Some (f r # rs) else map_option (Cons r) (update_first f i rs))"

definition upsert_records :: "store_env \<Rightarrow> str \<Rightarrow> str \<Rightarrow> plugin_profile list \<Rightarrow> json list \<Rightarrow> plugin_record list
    \<Rightarrow> str + plugin_record list" where
  "upsert_records E i revision profiles concepts rs =
     (case update_first (\<lambda>r. r\<lparr>pr_revision := revision, pr_installed_at := now_secs E, pr_profiles := profiles,
          pr_concepts := concepts\<rparr>) i rs of
        Some rs' \<Rightarrow> Inr rs'
      | None \<Rightarrow>
          if MAX_PLUGINS \<le> length rs then Inl (''at most '' @ dec MAX_PLUGINS @ '' plugins can be installed'')
          else Inr (rs @ [\<lparr>pr_id = i, pr_revision = revision, pr_enabled = True, pr_installed_at = now_secs E,
            pr_profiles = profiles, pr_concepts = concepts\<rparr>]))"

definition upsert :: "json_text \<Rightarrow> store_env \<Rightarrow> fs \<Rightarrow> str \<Rightarrow> str \<Rightarrow> str \<Rightarrow> plugin_profile list \<Rightarrow> json list
    \<Rightarrow> fs \<times> (str + plugin_record)" where
  "upsert J E fs dir i revision profiles concepts =
     (case and_then (validate_id i) (\<lambda>_. and_then (validate_revision revision) (\<lambda>_.
        and_then (validate_profiles profiles) (\<lambda>_. and_then (validate_concepts concepts) (\<lambda>_.
        and_then (records J E fs dir) (upsert_records E i revision profiles concepts))))) of
        Inl e \<Rightarrow> (fs, Inl e)
      | Inr rs \<Rightarrow>
          (case write_records J E fs dir rs of
             (fs', Inl e) \<Rightarrow> (fs', Inl e)
           | (fs', Inr _) \<Rightarrow> (fs', Inr (the (find (\<lambda>r. pr_id r = i) rs)))))"

definition remove :: "json_text \<Rightarrow> store_env \<Rightarrow> fs \<Rightarrow> str \<Rightarrow> str \<Rightarrow> fs \<times> (str + bool)" where
  "remove J E fs dir i =
     (case and_then (validate_id i) (\<lambda>_. records J E fs dir) of
        Inl e \<Rightarrow> (fs, Inl e)
      | Inr rs \<Rightarrow>
          (let rs' = filter (\<lambda>r. pr_id r \<noteq> i) rs
           in if length rs' = length rs then (fs, Inr False)
              else (case write_records J E fs dir rs' of
                  (fs', Inl e) \<Rightarrow> (fs', Inl e)
                | (fs', Inr _) \<Rightarrow> (fs', Inr True))))"

definition set_enabled :: "json_text \<Rightarrow> store_env \<Rightarrow> fs \<Rightarrow> str \<Rightarrow> str \<Rightarrow> bool \<Rightarrow> fs \<times> (str + plugin_record option)" where
  "set_enabled J E fs dir i on =
     (case and_then (validate_id i) (\<lambda>_. records J E fs dir) of
        Inl e \<Rightarrow> (fs, Inl e)
      | Inr rs \<Rightarrow>
          (case update_first (\<lambda>r. r\<lparr>pr_enabled := on\<rparr>) i rs of
             None \<Rightarrow> (fs, Inr None)
           | Some rs' \<Rightarrow>
               (case write_records J E fs dir rs' of
                  (fs', Inl e) \<Rightarrow> (fs', Inl e)
                | (fs', Inr _) \<Rightarrow> (fs', Inr (find (\<lambda>r. pr_id r = i) rs')))))"

section \<open>Where a plugin lives\<close>

text \<open>The directories of a plugin, under the data and the state directory.\<close>

definition content_dir :: "str \<Rightarrow> str \<Rightarrow> str + str" where
  "content_dir data i = and_then (validate_id i) (\<lambda>_. Inr (path_join (path_join data ''plugins'') i))"

definition staging_root :: "str \<Rightarrow> str" where
  "staging_root data = path_join data ''staging''"

definition runtime_dir :: "str \<Rightarrow> str \<Rightarrow> str + str" where
  "runtime_dir st i = and_then (validate_id i) (\<lambda>_. Inr (path_join (path_join st ''plugins'') i))"

definition logs_dir :: "str \<Rightarrow> str \<Rightarrow> str + str" where
  "logs_dir st i = and_then (runtime_dir st i) (\<lambda>d. Inr (path_join d ''logs''))"

section \<open>The reader accepts what the writer writes\<close>

definition profile_record_ok :: "plugin_profile \<Rightarrow> bool" where
  "profile_record_ok p \<longleftrightarrow> check_profile_shape (pp_name p) (pp_tiles p) = Inr () \<and> list_all serde_value (pp_tiles p)"

definition record_ok :: "plugin_record \<Rightarrow> bool" where
  "record_ok r \<longleftrightarrow> validate_id (pr_id r) = Inr () \<and> validate_revision (pr_revision r) = Inr () \<and>
     pr_installed_at r < 2 ^ 64 \<and>
     length (pr_profiles r) \<le> MAX_PROFILE_RECORDS \<and> list_all profile_record_ok (pr_profiles r) \<and>
     length (pr_concepts r) \<le> MAX_CONCEPT_RECORDS \<and>
     list_all (\<lambda>c. check_concept_shape c = Inr () \<and> serde_value c) (pr_concepts r)"

lemma parse_profile_written:
  "profile_record_ok p \<Longrightarrow> parse_profile_record i (profile_json p) = Inr p"
  by (simp add: parse_profile_record_def profile_json_def profile_record_ok_def unknown_key_def)

lemma parse_profiles_written:
  assumes "length ps \<le> MAX_PROFILE_RECORDS" "list_all profile_record_ok ps"
  shows "parse_record_profiles (JArr (map profile_json ps)) = Inr ps"
proof -
  have "each parse_profile_record i (map profile_json ps) = Inr ps" for i
    using assms(2) by (induction ps arbitrary: i) (simp_all add: parse_profile_written)
  then show ?thesis using assms(1) by (simp add: parse_record_profiles_def)
qed

lemma parse_concepts_written:
  "length cs \<le> MAX_CONCEPT_RECORDS \<Longrightarrow> list_all (\<lambda>c. check_concept_shape c = Inr ()) cs \<Longrightarrow>
   parse_record_concepts (JArr cs) = Inr cs"
  by (simp add: parse_record_concepts_def) (auto simp: list_all_iff intro!: exI all_ok_succeeds)

lemma parse_record_written: "record_ok r \<Longrightarrow> parse_record (record_json r) = Inr r"
  by (auto simp: record_ok_def parse_record_def record_json_def unknown_key_def RECORD_KEYS_def
      parse_profiles_written parse_concepts_written list_all_iff)

lemma serde_store: "list_all record_ok rs \<Longrightarrow> serde_value (store_json rs)"
  by (auto simp: store_json_def record_json_def profile_json_def record_ok_def profile_record_ok_def list_all_iff)

section \<open>What is read is well-formed\<close>

lemma serde_get: "serde_value v \<Longrightarrow> jget v k = Some x \<Longrightarrow> serde_value x"
  by (cases v) (force dest: map_of_SomeD)+

lemma all_ok_at: "all_ok f xs = Inr () \<Longrightarrow> x \<in> set xs \<Longrightarrow> \<exists>i. f i x = Inr ()"
  by (drule all_ok_Inr) (simp add: list_all_iff)

lemma parse_profile_record_ok:
  "parse_profile_record i entry = Inr p \<Longrightarrow> serde_value entry \<Longrightarrow> profile_record_ok p"
proof -
  assume a: "parse_profile_record i entry = Inr p" "serde_value entry"
  then obtain tab where t: "entry = JObj tab" "map_of tab ''tiles'' = Some (JArr (pp_tiles p))"
    "check_profile_shape (pp_name p) (pp_tiles p) = Inr ()"
    by (auto simp: parse_profile_record_def Let_def Option.bind_eq_Some_conv)
  then show ?thesis
    using serde_get [OF a(2), of "''tiles''"] by (simp add: profile_record_ok_def list_all_iff)
qed

lemma parse_record_profiles_ok:
  assumes "parse_record_profiles v = Inr ps" "serde_value v"
  shows "length ps \<le> MAX_PROFILE_RECORDS \<and> list_all profile_record_ok ps"
proof -
  obtain entries where e: "v = JArr entries" "length entries \<le> MAX_PROFILE_RECORDS" "each parse_profile_record 0 entries = Inr ps"
    using assms(1) by (auto simp: parse_record_profiles_def not_less)
  have "list_all2 (\<lambda>x y. \<exists>j. parse_profile_record j x = Inr y) entries ps" by (rule each_Inr [OF e(3)])
  moreover have "\<forall>x \<in> set entries. serde_value x" using assms(2) e(1) by simp
  ultimately have "list_all profile_record_ok ps"
    by (induction rule: list_all2_induct) (auto intro: parse_profile_record_ok)
  then show ?thesis using e(2) each_length [OF e(3)] by simp
qed

lemma parse_record_concepts_ok:
  assumes "parse_record_concepts v = Inr cs" "serde_value v"
  shows "length cs \<le> MAX_CONCEPT_RECORDS \<and> list_all (\<lambda>c. check_concept_shape c = Inr () \<and> serde_value c) cs"
  using assms by (auto simp: parse_record_concepts_def not_less list_all_iff dest!: all_ok_at)

lemma parse_record_ok:
  assumes "parse_record entry = Inr r" "serde_value entry"
  shows "record_ok r"
proof -
  obtain tab ps cs where t: "entry = JObj tab" and
    r: "validate_id (pr_id r) = Inr ()" "validate_revision (pr_revision r) = Inr ()" "pr_profiles r = ps" "pr_concepts r = cs" and
    time: "Option.bind (map_of tab ''installed_at'') ju64 = Some (pr_installed_at r)" and
    ps: "(case map_of tab ''profiles'' of Some v \<Rightarrow> parse_record_profiles v | None \<Rightarrow> Inr []) = Inr ps" and
    cs: "(case map_of tab ''concepts'' of Some v \<Rightarrow> parse_record_concepts v | None \<Rightarrow> Inr []) = Inr cs"
    using assms(1) by (auto simp: parse_record_def)
  have v: "serde_value v" if "map_of tab k = Some v" for k v
    using serde_get [OF assms(2), of k v] that t by simp
  have "pr_installed_at r < 2 ^ 64" using time by (auto simp: Option.bind_eq_Some_conv dest: ju64_bound)
  moreover have "length ps \<le> MAX_PROFILE_RECORDS \<and> list_all profile_record_ok ps"
    using ps v parse_record_profiles_ok by (auto split: option.splits)
  moreover have "length cs \<le> MAX_CONCEPT_RECORDS \<and> list_all (\<lambda>c. check_concept_shape c = Inr () \<and> serde_value c) cs"
    using cs v parse_record_concepts_ok by (auto split: option.splits)
  ultimately show ?thesis using r by (simp add: record_ok_def)
qed

lemma records_ok:
  assumes "json_text_law J" "records J E fs dir = Inr rs"
  shows "length rs \<le> MAX_PLUGINS \<and> list_all record_ok rs"
proof (cases "read_file fs (store_path dir)")
  case (Inl e)
  then show ?thesis using assms(2) by (cases e) (auto simp: records_def Let_def)
next
  case (Inr bs)
  then obtain root entries where e: "from_text J bs = Some root" "jget root ''plugins'' = Some (JArr entries)"
    "length entries \<le> MAX_PLUGINS"
    "each (\<lambda>i entry. map_err (\<lambda>what. corrupt (store_path dir) (''record '' @ dec i @ '': '' @ what)) (parse_record entry)) 0 entries = Inr rs"
    using assms(2) by (auto simp: records_def Let_def Option.bind_eq_Some_conv not_less)
  have "serde_value root" using assms(1) e(1) by (auto simp: json_text_law_def)
  then have "serde_value (JArr entries)" using e(2) by (rule serde_get)
  then have "\<forall>x \<in> set entries. serde_value x" by simp
  with each_Inr [OF e(4)] have "list_all record_ok rs"
    by (induction rule: list_all2_induct) (auto intro: parse_record_ok)
  then show ?thesis using e(3) each_length [OF e(4)] by simp
qed

lemma records_written:
  assumes "json_text_law J" "length rs \<le> MAX_PLUGINS" "list_all record_ok rs"
    and "read_file fs (store_path dir) = Inr (to_text J (store_json rs) @ [LF])"
  shows "records J E fs dir = Inr rs"
proof -
  have parse: "from_text J (to_text J (store_json rs) @ [LF]) = Some (store_json rs)"
    using assms(1) serde_store [OF assms(3)] by (simp add: json_text_law_def)
  have "each (\<lambda>i entry. map_err (f i) (parse_record entry)) k (map record_json rs) = Inr rs" for f k
    using assms(3) by (induction rs arbitrary: k) (simp_all add: parse_record_written)
  then show ?thesis
    using assms(2,4) parse by (simp add: records_def store_json_def)
qed

section \<open>Replacing the file\<close>

definition store_ready :: "store_env \<Rightarrow> fs \<Rightarrow> str \<Rightarrow> bool" where
  "store_ready E fs dir \<longleftrightarrow> replaceable fs dir ''plugins.json'' (store_tmp E) \<and> CHR ''/'' \<notin> set (se_suffix E)"

lemma store_names:
  assumes "store_ready E fs dir"
  shows "good_name ''plugins.json''" "good_name (store_tmp E)" "''plugins.json'' \<noteq> store_tmp E"
  using assms by (auto simp: store_ready_def good_name_def store_tmp_def)

lemma write_records_spec:
  assumes "store_ready E fs dir" "write_records J E fs dir rs = (fs', r)"
  shows "is_dir fs' dir \<and> \<not> is_link (symlink_metadata fs' (store_path dir)) \<and>
    read_file fs' (store_path dir) =
      (case r of Inl _ \<Rightarrow> read_file fs (store_path dir) | Inr _ \<Rightarrow> Inr (to_text J (store_json rs) @ [LF]))"
proof -
  note names = store_names [OF assms(1)]
  have ready: "replaceable fs dir ''plugins.json'' (store_tmp E)" and dir: "is_dir fs dir"
    and nl: "\<not> is_link (symlink_metadata fs (store_path dir))"
    using assms(1) by (simp_all add: store_ready_def replaceable_def store_path_def)
  let ?tmp = "path_join dir (store_tmp E)" and ?bs = "to_text J (store_json rs) @ [LF]"
  let ?content = "if se_write_ok E then ?bs else []"
  obtain fs1 where c: "create_new fs ?tmp (File ?content (se_now E) 384) = Inr fs1"
    by (rule replaceable_tmp [OF ready names])
  note rn = rename_ready [OF ready names c]
  obtain fs3 where rm: "remove_file fs1 ?tmp = Inr fs3" "fs_get fs3 = fs_get fs" using rn(2) by blast
  have same: "is_dir fs3 dir \<and> \<not> is_link (symlink_metadata fs3 (store_path dir)) \<and>
      read_file fs3 (store_path dir) = read_file fs (store_path dir)"
    using dir nl is_dir_get [OF rm(2)] symlink_metadata_get [OF rm(2)] read_file_get [OF rm(2)] by simp
  show ?thesis
  proof (cases "se_write_ok E \<and> se_rename_ok E")
    case False
    then have "fs' = fs3 \<and> (\<exists>e. r = Inl e)"
      using assms(2) create_dir_all_exists [OF dir] c rm(1)
      by (auto simp: write_records_def write_new_file_def Let_def split: if_splits)
    then show ?thesis using same by auto
  next
    case True
    then obtain fs2 where ren: "rename_file fs1 ?tmp (store_path dir) = Inr fs2" using rn(1) by (auto simp: store_path_def)
    then have "fs' = fs2 \<and> r = Inr ()"
      using assms(2) create_dir_all_exists [OF dir] c True
      by (auto simp: write_records_def write_new_file_def Let_def)
    then show ?thesis
      using replace_done [OF ready names c ren [unfolded store_path_def]] True by (simp add: store_path_def)
  qed
qed

lemma write_records_succeeds:
  assumes "store_ready E fs dir" "se_write_ok E" "se_rename_ok E"
  shows "snd (write_records J E fs dir rs) = Inr ()"
proof -
  note names = store_names [OF assms(1)]
  have ready: "replaceable fs dir ''plugins.json'' (store_tmp E)" and dir: "is_dir fs dir"
    using assms(1) by (simp_all add: store_ready_def replaceable_def)
  obtain fs1 where c: "create_new fs (path_join dir (store_tmp E)) (File (to_text J (store_json rs) @ [LF]) (se_now E) 384) = Inr fs1"
    by (rule replaceable_tmp [OF ready names])
  then show ?thesis
    using create_dir_all_exists [OF dir] rename_ready(1) [OF ready names c] assms(2,3)
    by (auto simp: write_records_def write_new_file_def store_path_def Let_def)
qed

section \<open>The store refines a map\<close>

datatype store_op =
    Upsert str str "plugin_profile list" "json list"
  | Remove str
  | Set_Enabled str bool

fun run_op :: "json_text \<Rightarrow> store_env \<Rightarrow> fs \<Rightarrow> str \<Rightarrow> store_op \<Rightarrow> fs \<times> (str + unit)" where
  "run_op J E fs dir (Upsert i revision profiles concepts) =
     (case upsert J E fs dir i revision profiles concepts of (fs', r) \<Rightarrow> (fs', map_sum id (\<lambda>_. ()) r))"
| "run_op J E fs dir (Remove i) = (case remove J E fs dir i of (fs', r) \<Rightarrow> (fs', map_sum id (\<lambda>_. ()) r))"
| "run_op J E fs dir (Set_Enabled i on) = (case set_enabled J E fs dir i on of (fs', r) \<Rightarrow> (fs', map_sum id (\<lambda>_. ()) r))"

text \<open>The abstract store: a finite map from plugin ids to records.  A plugin installed again keeps
  its enabled flag.\<close>

fun spec_op :: "store_env \<Rightarrow> store_op \<Rightarrow> (str \<Rightarrow> plugin_record option) \<Rightarrow> str \<Rightarrow> plugin_record option" where
  "spec_op E (Upsert i revision profiles concepts) m =
     m(i \<mapsto> \<lparr>pr_id = i, pr_revision = revision,
       pr_enabled = (case m i of Some r \<Rightarrow> pr_enabled r | None \<Rightarrow> True),
       pr_installed_at = now_secs E, pr_profiles = profiles, pr_concepts = concepts\<rparr>)"
| "spec_op E (Remove i) m = m(i := None)"
| "spec_op E (Set_Enabled i on) m = m(i := map_option (\<lambda>r. r\<lparr>pr_enabled := on\<rparr>) (m i))"

text \<open>The map a list of records stands for: a later record of the same id is not seen.\<close>

definition store_map :: "plugin_record list \<Rightarrow> str \<Rightarrow> plugin_record option" where
  "store_map rs i = find (\<lambda>r. pr_id r = i) rs"

definition installed :: "json_text \<Rightarrow> store_env \<Rightarrow> fs \<Rightarrow> str \<Rightarrow> (str \<Rightarrow> plugin_record option) option" where
  "installed J E fs dir = (case records J E fs dir of Inl _ \<Rightarrow> None | Inr rs \<Rightarrow> Some (store_map rs))"

text \<open>The values an operation is given come from the serializer.\<close>

fun op_values_ok :: "store_op \<Rightarrow> bool" where
  "op_values_ok (Upsert i revision profiles concepts) \<longleftrightarrow>
     list_all (\<lambda>p. list_all serde_value (pp_tiles p)) profiles \<and> list_all serde_value concepts"
| "op_values_ok _ \<longleftrightarrow> True"

lemma update_first_None: "update_first f i rs = None \<longleftrightarrow> store_map rs i = None"
  by (induction rs) (auto simp: store_map_def)

lemma update_first_Some:
  assumes "update_first f i rs = Some rs'" "\<And>r. pr_id (f r) = pr_id r"
  shows "store_map rs' = (store_map rs)(i := map_option f (store_map rs i)) \<and> length rs' = length rs \<and>
    (list_all P rs \<longrightarrow> (\<forall>r. P r \<longrightarrow> P (f r)) \<longrightarrow> list_all P rs')"
  using assms(1)
proof (induction rs arbitrary: rs')
  case (Cons r rs)
  show ?case
  proof (cases "pr_id r = i")
    case True
    then show ?thesis using Cons.prems assms(2) by (auto simp: store_map_def fun_eq_iff)
  next
    case False
    then obtain rs1 where rs1: "update_first f i rs = Some rs1" "rs' = r # rs1" using Cons.prems by auto
    then have "store_map rs' = (\<lambda>j. if pr_id r = j then Some r else store_map rs1 j)" by (auto simp: store_map_def fun_eq_iff)
    then show ?thesis using Cons.IH [OF rs1(1)] False rs1(2) by (auto simp: store_map_def fun_eq_iff)
  qed
qed simp

lemma store_map_remove: "store_map (filter (\<lambda>r. pr_id r \<noteq> i) rs) = (store_map rs)(i := None)"
  by (induction rs) (auto simp: store_map_def fun_eq_iff)

lemma store_map_append: "store_map (rs @ [r]) = (\<lambda>i. case store_map rs i of Some x \<Rightarrow> Some x | None \<Rightarrow> if pr_id r = i then Some r else None)"
  by (induction rs) (auto simp: store_map_def fun_eq_iff)

lemma validate_profiles_Inr:
  assumes "validate_profiles ps = Inr ()" "list_all (\<lambda>p. list_all serde_value (pp_tiles p)) ps"
  shows "length ps \<le> MAX_PROFILE_RECORDS \<and> list_all profile_record_ok ps"
  using assms by (auto simp: validate_profiles_def not_less profile_record_ok_def list_all_iff dest!: all_ok_at)

lemma validate_concepts_Inr:
  assumes "validate_concepts cs = Inr ()" "list_all serde_value cs"
  shows "length cs \<le> MAX_CONCEPT_RECORDS \<and> list_all (\<lambda>c. check_concept_shape c = Inr () \<and> serde_value c) cs"
  using assms by (auto simp: validate_concepts_def not_less list_all_iff dest!: all_ok_at)

text \<open>The pure part of an operation: the records it writes, if it writes any.\<close>

lemma upsert_records_spec:
  assumes "upsert_records E i revision profiles concepts rs = Inr rs'"
    and "length rs \<le> MAX_PLUGINS" "list_all record_ok rs" "now_secs E < 2 ^ 64"
    and "validate_id i = Inr ()" "validate_revision revision = Inr ()"
    and "length profiles \<le> MAX_PROFILE_RECORDS \<and> list_all profile_record_ok profiles"
    and "length concepts \<le> MAX_CONCEPT_RECORDS \<and> list_all (\<lambda>c. check_concept_shape c = Inr () \<and> serde_value c) concepts"
  shows "store_map rs' = spec_op E (Upsert i revision profiles concepts) (store_map rs) \<and>
    length rs' \<le> MAX_PLUGINS \<and> list_all record_ok rs'"
proof -
  let ?f = "\<lambda>r. r\<lparr>pr_revision := revision, pr_installed_at := now_secs E, pr_profiles := profiles, pr_concepts := concepts\<rparr>"
  have ok: "record_ok r \<Longrightarrow> record_ok (?f r)" for r using assms(4,6-8) by (simp add: record_ok_def)
  have id_of: "pr_id r = j" if "store_map rs j = Some r" for r j using that by (auto simp: store_map_def find_Some_iff)
  show ?thesis
  proof (cases "update_first ?f i rs")
    case (Some rs1)
    then have r1: "rs' = rs1" using assms(1) by (simp add: upsert_records_def)
    obtain old where old: "store_map rs i = Some old" using Some update_first_None [of ?f i rs] by auto
    have "?f old = \<lparr>pr_id = i, pr_revision = revision, pr_enabled = pr_enabled old, pr_installed_at = now_secs E,
        pr_profiles = profiles, pr_concepts = concepts\<rparr>"
      using id_of [OF old] by (cases old) simp
    then show ?thesis
      using update_first_Some [OF Some, where P = record_ok] ok assms(2,3) old r1 by simp
  next
    case None
    then have new: "store_map rs i = None" "length rs < MAX_PLUGINS"
      "rs' = rs @ [\<lparr>pr_id = i, pr_revision = revision, pr_enabled = True, pr_installed_at = now_secs E,
         pr_profiles = profiles, pr_concepts = concepts\<rparr>]"
      using assms(1) update_first_None [of ?f i rs] by (auto simp: upsert_records_def split: if_splits)
    moreover have "record_ok \<lparr>pr_id = i, pr_revision = revision, pr_enabled = True, pr_installed_at = now_secs E,
         pr_profiles = profiles, pr_concepts = concepts\<rparr>"
      using assms(4-8) by (simp add: record_ok_def)
    ultimately show ?thesis using assms(3) by (auto simp: store_map_append fun_eq_iff split: option.splits)
  qed
qed

text \<open>Every operation either leaves the file system alone or writes such records; what it does to the
  map then follows from the write.\<close>

lemma installed_written:
  assumes "json_text_law J" "store_ready E fs dir" "write_records J E fs dir rs' = (fs', r)"
    and "records J E fs dir = Inr rs" "length rs' \<le> MAX_PLUGINS" "list_all record_ok rs'"
  shows "installed J E fs' dir = Some (case r of Inr _ \<Rightarrow> store_map rs' | Inl _ \<Rightarrow> store_map rs)"
proof (cases r)
  case (Inl e)
  then have "read_file fs' (store_path dir) = read_file fs (store_path dir)"
    using write_records_spec [OF assms(2,3)] by simp
  then have "records J E fs' dir = records J E fs dir" by (simp add: records_def)
  then show ?thesis using Inl assms(4) by (simp add: installed_def)
next
  case (Inr u)
  then have "read_file fs' (store_path dir) = Inr (to_text J (store_json rs') @ [LF])"
    using write_records_spec [OF assms(2,3)] by simp
  from records_written [OF assms(1,5,6) this] show ?thesis using Inr by (simp add: installed_def)
qed

lemma upsert_refines:
  assumes "json_text_law J" "store_ready E fs dir" "now_secs E < 2 ^ 64" "records J E fs dir = Inr rs"
    and "op_values_ok (Upsert i revision profiles concepts)" "upsert J E fs dir i revision profiles concepts = (fs', r)"
  shows "installed J E fs' dir =
    Some (case r of Inr _ \<Rightarrow> spec_op E (Upsert i revision profiles concepts) (store_map rs) | Inl _ \<Rightarrow> store_map rs)"
proof -
  let ?checked = "and_then (validate_id i) (\<lambda>_. and_then (validate_revision revision) (\<lambda>_.
      and_then (validate_profiles profiles) (\<lambda>_. and_then (validate_concepts concepts) (\<lambda>_.
      and_then (records J E fs dir) (upsert_records E i revision profiles concepts)))))"
  show ?thesis
  proof (cases ?checked)
    case (Inl e)
    then have "fs' = fs \<and> r = Inl e" using assms(6) by (simp add: upsert_def)
    then show ?thesis using assms(4) by (simp add: installed_def)
  next
    case (Inr rs')
    then have new: "store_map rs' = spec_op E (Upsert i revision profiles concepts) (store_map rs) \<and>
        length rs' \<le> MAX_PLUGINS \<and> list_all record_ok rs'"
      using records_ok [OF assms(1,4)] assms(3-5) validate_profiles_Inr validate_concepts_Inr
      by (intro upsert_records_spec) auto
    obtain fs1 r1 where w: "write_records J E fs dir rs' = (fs1, r1)" by fastforce
    show ?thesis
      using installed_written [OF assms(1,2) w assms(4)] new assms(6) Inr w by (cases r1) (auto simp: upsert_def)
  qed
qed

lemma remove_refines:
  assumes "json_text_law J" "store_ready E fs dir" "records J E fs dir = Inr rs" "remove J E fs dir i = (fs', r)"
  shows "installed J E fs' dir = Some (case r of Inr _ \<Rightarrow> (store_map rs)(i := None) | Inl _ \<Rightarrow> store_map rs)"
proof (cases "validate_id i")
  case (Inl e)
  then have "fs' = fs \<and> r = Inl e" using assms(4) by (simp add: remove_def)
  then show ?thesis using assms(3) by (simp add: installed_def)
next
  case (Inr u)
  let ?rs' = "filter (\<lambda>r. pr_id r \<noteq> i) rs"
  show ?thesis
  proof (cases "length ?rs' = length rs")
    case True
    then have "?rs' = rs" by (metis filter_id_conv length_filter_less linorder_neq_iff)
    then have "store_map rs = (store_map rs)(i := None)" using store_map_remove [of i rs] by simp
    moreover have "fs' = fs \<and> r = Inr False" using assms(3,4) Inr True by (simp add: remove_def)
    ultimately show ?thesis using assms(3) by (simp add: installed_def)
  next
    case False
    obtain fs1 r1 where w: "write_records J E fs dir ?rs' = (fs1, r1)" by fastforce
    have "length ?rs' \<le> MAX_PLUGINS" "list_all record_ok ?rs'"
      using records_ok [OF assms(1,3)] le_trans [OF length_filter_le] by (auto simp: list_all_iff)
    from installed_written [OF assms(1,2) w assms(3) this] show ?thesis
      using assms(3,4) Inr False w by (cases r1) (auto simp: remove_def store_map_remove)
  qed
qed

lemma set_enabled_refines:
  assumes "json_text_law J" "store_ready E fs dir" "records J E fs dir = Inr rs" "set_enabled J E fs dir i on = (fs', r)"
  shows "installed J E fs' dir =
    Some (case r of Inr _ \<Rightarrow> spec_op E (Set_Enabled i on) (store_map rs) | Inl _ \<Rightarrow> store_map rs)"
proof (cases "validate_id i")
  case (Inl e)
  then have "fs' = fs \<and> r = Inl e" using assms(4) by (simp add: set_enabled_def)
  then show ?thesis using assms(3) by (simp add: installed_def)
next
  case (Inr u)
  let ?f = "\<lambda>r. r\<lparr>pr_enabled := on\<rparr>"
  show ?thesis
  proof (cases "update_first ?f i rs")
    case None
    then have "spec_op E (Set_Enabled i on) (store_map rs) = store_map rs"
      using update_first_None [of ?f i rs] by auto
    moreover have "fs' = fs \<and> r = Inr None" using assms(3,4) Inr None by (simp add: set_enabled_def)
    ultimately show ?thesis using assms(3) by (simp add: installed_def)
  next
    case (Some rs')
    have u: "store_map rs' = spec_op E (Set_Enabled i on) (store_map rs) \<and> length rs' = length rs \<and> list_all record_ok rs'"
      using update_first_Some [OF Some, where P = record_ok] records_ok [OF assms(1,3)] by (simp add: record_ok_def)
    obtain fs1 r1 where w: "write_records J E fs dir rs' = (fs1, r1)" by fastforce
    show ?thesis
      using installed_written [OF assms(1,2) w assms(3)] u records_ok [OF assms(1,3)] assms(3,4) Inr Some w
      by (cases r1) (auto simp: set_enabled_def)
  qed
qed


definition store_fs :: fs where "store_fs = [([''s''], Dir)]"

definition demo_store_env :: store_env where
  "demo_store_env = \<lparr>se_suffix = ''00ff'', se_now = 9000000000, se_write_ok = True, se_rename_ok = True, se_error = []\<rparr>"


end
