(* ===== verification/Plugin_Review.thy ===== *)
theory Plugin_Review
  imports Plugin_Store
begin

text \<open>
  What \<open>gpty plugin install\<close> decides before it touches anything, the pure half of
  \<open>crates/gpty-cli/src/commands/plugin.rs\<close>: the install target and its git arguments, the gates,
  the records made of a manifest, and the summary the user reviews - the programs it shows and
  the plan keys the approval records.
\<close>

section \<open>The install target\<close>

record install_target =
  it_owner :: str
  it_repo :: str
  it_ref :: "str option"

definition target_id :: "install_target \<Rightarrow> str" where
  "target_id t = it_owner t @ ''/'' @ it_repo t"

definition clone_url :: "install_target \<Rightarrow> str" where
  "clone_url t = ''https://github.com/'' @ it_owner t @ ''/'' @ it_repo t"

definition is_alphanumeric :: "byte \<Rightarrow> bool" where
  "is_alphanumeric b \<longleftrightarrow> is_lower b \<or> is_digit b \<or> (65 \<le> code b \<and> code b \<le> 90)"

text \<open>An error is its chain of messages, the outermost context first.\<close>

type_synonym failure = "str list"

definition validate_ref_name :: "str \<Rightarrow> failure + unit" where
  "validate_ref_name r =
     (if r \<noteq> [] \<and> length r \<le> 128 \<and> hd r \<notin> {CHR ''-'', CHR ''.''} \<and> \<not> str_contains r ''..'' \<and>
         list_all (\<lambda>c. is_alphanumeric c \<or> c \<in> {CHR ''.'', CHR ''_'', CHR ''/'', CHR ''-''}) r
      then Inr ()
      else Inl [''invalid ref `'' @ r @ ''` (letters, digits, `._/-`, no leading `-` or `.`, no `..`)''])"

definition parse_target :: "str \<Rightarrow> failure + install_target" where
  "parse_target target =
     and_then (case split_once (CHR 0x40) target of
         Some (i, r) \<Rightarrow> and_then (validate_ref_name r) (\<lambda>_. Inr (i, Some r))
       | None \<Rightarrow> Inr (target, None)) (\<lambda>(id_part, ref_part).
     case split_once (CHR ''/'') id_part of
       None \<Rightarrow> Inl [''invalid plugin target `'' @ target @ ''` (expected `owner/repo` or `owner/repo'' @ [CHR 0x40] @ ''ref`)'']
     | Some (owner, repo) \<Rightarrow>
         if \<not> valid_plugin_id (owner @ ''/'' @ repo)
         then Inl [''invalid plugin target `'' @ target @ ''` (owner and repo must match [a-z0-9-], 1-63 chars)'']
         else Inr \<lparr>it_owner = owner, it_repo = repo, it_ref = ref_part\<rparr>)"

section \<open>The gates\<close>

definition current_platform :: "str \<Rightarrow> failure + platform" where
  \<comment> \<open>of \<open>std::env::consts::OS\<close>\<close>
  "current_platform os =
     (if os = ''linux'' then Inr Linux
      else if os = ''macos'' then Inr Macos
      else if os = ''windows'' then Inr Windows
      else Inl [''unsupported platform `'' @ os @ ''`''])"

definition semver_less :: "semver \<Rightarrow> semver \<Rightarrow> bool" where
  "semver_less v w \<longleftrightarrow> sv_major v < sv_major w \<or>
     sv_major v = sv_major w \<and> (sv_minor v < sv_minor w \<or> sv_minor v = sv_minor w \<and> sv_patch v < sv_patch w)"

fun platform_debug :: "platform \<Rightarrow> str" where
  "platform_debug Linux = ''Linux''"
| "platform_debug Macos = ''Macos''"
| "platform_debug Windows = ''Windows''"

text \<open>\<open>current\<close> is the version the crate was built as.\<close>

definition check_gates :: "semver \<Rightarrow> manifest \<Rightarrow> install_target \<Rightarrow> platform \<Rightarrow> failure + unit" where
  "check_gates current m target platform =
     (if mf_id m \<noteq> target_id target
      then Inl [''manifest id `'' @ mf_id m @ ''` does not match the install target `'' @ target_id target @ ''`'']
      else if platform \<notin> set (mf_platforms m)
      then Inl [''plugin `'' @ mf_id m @ ''` does not support this platform (declared: ['' @
        join_with '', '' (map platform_debug (mf_platforms m)) @ ''])'']
      else if semver_less current (mf_min_version m)
      then Inl [''plugin `'' @ mf_id m @ ''` requires gpty >= '' @ semver_display (mf_min_version m) @ '', this CLI is '' @
        semver_display current]
      else Inr ())"

section \<open>The records of a manifest\<close>

definition profile_records :: "manifest \<Rightarrow> plugin_profile list" where
  "profile_records m = map (\<lambda>p. \<lparr>pp_name = ps_name p, pp_tiles = map toml_json (ps_tiles p)\<rparr>) (mf_profiles m)"

definition concept_records :: "manifest \<Rightarrow> json list" where
  "concept_records m = map toml_json (mf_concepts m)"

section \<open>The review\<close>

definition short :: "str \<Rightarrow> nat \<Rightarrow> str" where
  "short s limit = concat (take limit (filter (\<lambda>c. \<not> is_control c) (chars s)))"

definition MAX_PROFILE_PROGRAMS :: nat where "MAX_PROFILE_PROGRAMS = 8"
definition MAX_PROGRAM_LEN :: nat where "MAX_PROGRAM_LEN = 64"
definition MAX_PLAN_KEY_LEN :: nat where "MAX_PLAN_KEY_LEN = 8192"
definition MAX_CONCEPT_TARGETS :: nat where "MAX_CONCEPT_TARGETS = 8"

text \<open>\<open>toml::Value::get\<close>\<close>

definition tget :: "toml \<Rightarrow> str \<Rightarrow> toml option" where
  "tget v key = Option.bind (ttab v) (\<lambda>tab. map_of tab key)"

text \<open>The loop that lists distinct values and stops at a limit.\<close>

fun list_distinct :: "('a \<Rightarrow> str option) \<Rightarrow> nat \<Rightarrow> 'a list \<Rightarrow> str list \<Rightarrow> str list" where
  "list_distinct f limit [] out = out"
| "list_distinct f limit (x # xs) out =
     (case f x of
        None \<Rightarrow> list_distinct f limit xs out
      | Some s \<Rightarrow>
          if s = [] \<or> s \<in> set out then list_distinct f limit xs out
          else if limit \<le> length (out @ [s]) then out @ [s]
          else list_distinct f limit xs (out @ [s]))"

definition tile_command :: "toml \<Rightarrow> str option" where
  "tile_command tile =
     map_option (\<lambda>c. short c MAX_PROGRAM_LEN)
       (Option.bind (tget tile ''settings'') (\<lambda>settings. Option.bind (tget settings ''command'') tstr))"

definition profile_programs :: "profile_spec \<Rightarrow> str list" where
  "profile_programs p = list_distinct tile_command MAX_PROFILE_PROGRAMS (ps_tiles p) []"

definition or_else :: "'a option \<Rightarrow> 'a option \<Rightarrow> 'a option" where
  "or_else x y = (case x of Some a \<Rightarrow> Some a | None \<Rightarrow> y)"

text \<open>What a tile would run: the program, when there is one, then the string arguments.\<close>

definition plan_parts :: "toml \<Rightarrow> str list" where
  "plan_parts tile =
     (let settings = tget tile ''settings'';
          program = unwrap_or (Option.bind
            (or_else (Option.bind settings (\<lambda>s. tget s ''command''))
            (or_else (Option.bind settings (\<lambda>s. tget s ''shell'')) (tget tile ''shell''))) tstr) [];
          args = (case Option.bind (Option.bind settings (\<lambda>s. tget s ''shell_args'')) tarr of
              Some args \<Rightarrow> List.map_filter tstr args | None \<Rightarrow> [])
      in (if program \<noteq> [] then [program] else []) @ args)"

fun plan_keys_loop :: "toml list \<Rightarrow> str list \<Rightarrow> str list" where
  "plan_keys_loop [] keys = keys"
| "plan_keys_loop (tile # tiles) keys =
     (if plan_parts tile = [] then plan_keys_loop tiles keys
      else let key = join_with [CHR 0x1F] (plan_parts tile)
           in if MAX_PLAN_KEY_LEN < char_count key \<or> key \<in> set keys then plan_keys_loop tiles keys
              else plan_keys_loop tiles (keys @ [key]))"

definition profile_plan_keys :: "toml list \<Rightarrow> str list" where
  "profile_plan_keys tiles = plan_keys_loop tiles []"

definition action_target :: "toml \<Rightarrow> str option" where
  "action_target a = map_option (\<lambda>t. short t MAX_PROGRAM_LEN) (Option.bind (tget a ''target'') tstr)"

definition concept_review_entry :: "toml \<Rightarrow> json" where
  "concept_review_entry concept = JObj
     [(''enabled'', JBool (unwrap_or (Option.bind (tget concept ''enabled'') tbool) True)),
      (''name'', JStr (short (unwrap_or (Option.bind (tget concept ''name'') tstr) []) MAX_CONCEPT_NAME_LEN)),
      (''notify_only'', JBool (Option.bind (tget concept ''capture_mode'') tstr = Some ''single_line'')),
      (''targets'', JArr (map JStr (case Option.bind (tget concept ''actions'') tarr of
          Some actions \<Rightarrow> list_distinct action_target MAX_CONCEPT_TARGETS actions []
        | None \<Rightarrow> [])))]"

text \<open>\<open>collect::<serde_json::Map>\<close>: keys in order, a later value of a key in place of an earlier.\<close>

fun map_insert :: "str \<Rightarrow> json \<Rightarrow> (str \<times> json) list \<Rightarrow> (str \<times> json) list" where
  "map_insert k v [] = [(k, v)]"
| "map_insert k v ((k', v') # kvs) =
     (if k < k' then (k, v) # (k', v') # kvs
      else if k = k' then (k, v) # kvs
      else (k', v') # map_insert k v kvs)"

definition action_summary :: "action_spec \<Rightarrow> json" where
  "action_summary a = JObj
     [(''args'', JObj (fold (\<lambda>(k, v). map_insert k (JStr v)) (as_args a) [])),
      (''command'', JStr (as_command a)), (''name'', JStr (as_name a))]"

definition profile_summary :: "profile_spec \<Rightarrow> json" where
  "profile_summary p = JObj
     [(''name'', JStr (ps_name p)), (''plans'', JArr (map JStr (profile_plan_keys (ps_tiles p)))),
      (''programs'', JArr (map JStr (profile_programs p))), (''tiles'', JInt (int (length (ps_tiles p))))]"

definition review_summary :: "manifest \<Rightarrow> install_target \<Rightarrow> str \<Rightarrow> json" where
  "review_summary m target revision = JObj
     [(''actions'', JArr (map action_summary (mf_actions m))),
      (''build'', JArr (map JStr (mf_build m))),
      (''concepts'', JArr (map concept_review_entry (mf_concepts m))),
      (''events'', JArr (map (\<lambda>e. JObj [(''name'', JStr (es_name e)), (''type'', JStr (es_kind e))]) (mf_events m))),
      (''id'', JStr (mf_id m)),
      (''link_handlers'', JArr (map (\<lambda>h. JObj [(''command'', JArr (map JStr (lh_command h))), (''scheme'', JStr (lh_scheme h))])
         (mf_link_handlers m))),
      (''name'', JStr (mf_name m)),
      (''profiles'', JArr (map profile_summary (mf_profiles m))),
      (''requested_ref'', JStr (unwrap_or (it_ref target) ''default branch'')),
      (''revision'', JStr revision),
      (''source'', JStr (''github.com/'' @ it_owner target @ ''/'' @ it_repo target)),
      (''startup'', JArr (map JStr (mf_startup m))),
      (''version'', JStr (semver_display (mf_version m)))]"

section \<open>Running an action\<close>

definition action_argv :: "action_spec \<Rightarrow> str list" where
  "action_argv a = as_command a # concat (map (\<lambda>(k, v). [''--'' @ k, v]) (as_args a))"

section \<open>Targets\<close>

lemma valid_id_parts:
  "valid_plugin_id (owner @ CHR ''/'' # repo) \<Longrightarrow> CHR ''/'' \<notin> set owner \<Longrightarrow>
   owner \<noteq> [] \<and> repo \<noteq> [] \<and> id_part owner \<and> id_part repo"
  using split_once_Some [of "CHR ''/''" "owner @ CHR ''/'' # repo" owner repo]
  by (simp add: valid_plugin_id_def)

lemma id_part_chars: "id_part s \<Longrightarrow> CHR ''/'' \<notin> set s \<and> CHR 0x40 \<notin> set s"
  by (auto simp: id_part_def list_all_iff is_lower_def is_digit_def code_def)

definition target_ok :: "install_target \<Rightarrow> bool" where
  "target_ok t \<longleftrightarrow> valid_plugin_id (target_id t) \<and> id_part (it_owner t) \<and> id_part (it_repo t) \<and>
     (case it_ref t of Some r \<Rightarrow> validate_ref_name r = Inr () | None \<Rightarrow> True)"

definition spell_target :: "install_target \<Rightarrow> str" where
  "spell_target t = target_id t @ (case it_ref t of Some r \<Rightarrow> CHR 0x40 # r | None \<Rightarrow> [])"

lemma parse_target_Some:
  assumes "parse_target s = Inr t"
  shows "target_ok t \<and> s = spell_target t"
proof -
  obtain i r where split: "(case split_once (CHR 0x40) s of
         Some (i, r) \<Rightarrow> and_then (validate_ref_name r) (\<lambda>_. Inr (i, Some r)) | None \<Rightarrow> Inr (s, None)) = Inr (i, r)"
    and rest: "(case split_once (CHR ''/'') i of None \<Rightarrow> Inl x
       | Some (owner, repo) \<Rightarrow> if \<not> valid_plugin_id (owner @ ''/'' @ repo) then Inl y
           else Inr \<lparr>it_owner = owner, it_repo = repo, it_ref = r\<rparr>) = Inr t" for x y
    using assms by (auto simp: parse_target_def split: option.splits prod.splits if_splits)
  have s: "s = i @ (case r of Some r \<Rightarrow> CHR 0x40 # r | None \<Rightarrow> [])"
    "case r of Some r \<Rightarrow> validate_ref_name r = Inr () | None \<Rightarrow> True"
    using split by (auto simp: split_once_Some split: option.splits prod.splits)
  obtain owner repo where i: "split_once (CHR ''/'') i = Some (owner, repo)" "valid_plugin_id (owner @ ''/'' @ repo)"
    "t = \<lparr>it_owner = owner, it_repo = repo, it_ref = r\<rparr>"
    using rest [of undefined undefined] by (auto split: option.splits prod.splits if_splits)
  then have "i = owner @ CHR ''/'' # repo" "CHR ''/'' \<notin> set owner" by (simp_all add: split_once_Some)
  then show ?thesis
    using s i valid_id_parts [of owner repo] by (auto simp: target_ok_def spell_target_def target_id_def)
qed

text \<open>Install targets are exactly the strings \<open>owner/repo\<close> and \<open>owner/repo@ref\<close> whose id is a valid
  plugin id and whose ref is admissible: such a string parses to its parts, and nothing else
  parses.\<close>

theorem parse_target_exact:
  "parse_target s = Inr t \<longleftrightarrow> target_ok t \<and> s = spell_target t"
proof
  assume "target_ok t \<and> s = spell_target t"
  then have ok: "valid_plugin_id (target_id t)" "id_part (it_owner t)" "id_part (it_repo t)"
    "case it_ref t of Some r \<Rightarrow> validate_ref_name r = Inr () | None \<Rightarrow> True" "s = spell_target t"
    by (simp_all add: target_ok_def)
  have at: "CHR 0x40 \<notin> set (target_id t)" "split_once (CHR ''/'') (target_id t) = Some (it_owner t, it_repo t)"
    using id_part_chars [OF ok(2)] id_part_chars [OF ok(3)] by (auto simp: target_id_def split_once_Some)
  show "parse_target s = Inr t"
  proof (cases "it_ref t")
    case None
    then have "split_once (CHR 0x40) s = None" "s = target_id t" using at(1) ok(5) by (simp_all add: spell_target_def split_once_None)
    then show ?thesis using at(2) ok(1) None by (simp add: parse_target_def target_id_def)
  next
    case (Some r)
    then have "split_once (CHR 0x40) s = Some (target_id t, r)" using at(1) ok(5) by (simp add: spell_target_def split_once_Some)
    then show ?thesis using at(2) ok(1,4) Some by (simp add: parse_target_def target_id_def)
  qed
qed (rule parse_target_Some)

text \<open>A ref is never taken for an option, and never climbs.\<close>

lemma ref_is_no_option: "validate_ref_name r = Inr () \<Longrightarrow> r \<noteq> [] \<and> hd r \<noteq> CHR ''-'' \<and> \<not> str_contains r ''..''"
  by (auto simp: validate_ref_name_def split: if_splits)

section \<open>What the manifest declares can be stored\<close>

lemma toml_json_tab: "jobj (toml_json (TTab tab)) = Some (map (\<lambda>(k, v). (k, toml_json v)) tab)"
  by simp

lemma map_of_toml_json: "map_of (map (\<lambda>(k, v). (k, toml_json v)) tab) k = map_option toml_json (map_of tab k)"
  by (induction tab) auto

lemma concept_entry_storable:
  assumes "concept_entry i item = Inr name"
  shows "check_concept_shape (toml_json item) = Inr ()"
proof -
  let ?p = "index_path ''manifest.concepts'' i"
  obtain entry where e: "item = TTab entry" "validate_concept_entry entry ?p = Inr ()"
    using assms by (cases item) (auto simp: concept_entry_def Let_def)
  from e(2) obtain nm trigger where v: "reject_unknown_keys entry CONCEPT_KEYS ?p = Inr ()"
    "map_of entry ''name'' = Some (TStr nm)" "nm \<noteq> []" "char_count nm \<le> MAX_CONCEPT_NAME_LEN"
    "map_of entry ''trigger'' = Some (TStr trigger)" "trigger \<noteq> []" "char_count trigger \<le> MAX_CONCEPT_TRIGGER_LEN"
    by (auto simp: validate_concept_entry_def not_less)
  have count: "char_count x \<noteq> 0" if "x \<noteq> []" for x
    using that by (cases x) (auto simp: char_count_def split: prod.splits)
  have "unknown_key (map (\<lambda>(k, v). (k, toml_json v)) entry) CONCEPT_KEYS = Inr ()"
    using v(1) by (auto simp: unknown_key_def reject_unknown_keys_def find_None_iff split: option.splits)
  then show ?thesis
    using v(2-7) count unfolding e(1)
    by (simp add: check_concept_shape_def map_of_toml_json not_less del: toml_json.simps(7) add: toml_json_tab)
qed

lemma profile_storable: "profile_ok p \<Longrightarrow> check_profile_shape (ps_name p) (map toml_json (ps_tiles p)) = Inr ()"
proof -
  assume ok: "profile_ok p"
  have count: "char_count (ps_name p) \<noteq> 0"
    using ok by (cases "ps_name p") (auto simp: profile_ok_def char_count_def split: prod.splits)
  have "all_ok check_tile (map toml_json (ps_tiles p)) = Inr ()"
    using ok by (intro all_ok_succeeds) (auto simp: profile_ok_def list_all_iff tile_ok_def check_tile_def)
  then show ?thesis
    using ok count by (simp add: check_profile_shape_def profile_ok_def MAX_PROFILE_NAME_LEN_def STORE_MAX_PROFILE_TILES_def
        MAX_PROFILE_TILES_def not_less)
qed

lemma valid_id_storable: "valid_plugin_id i \<Longrightarrow> validate_id i = Inr ()"
  by (auto simp: validate_id_def valid_plugin_id_def STORE_MAX_ID_LEN_def MAX_ID_PART_LEN_def split_once_Some split: option.splits)

text \<open>What the validator lets through the store takes: for a parsed manifest the checks the store
  makes of the id, of every profile record and of every concept record all pass, so an accepted
  install is never refused for its content.\<close>

theorem parsed_manifest_is_storable:
  assumes "parse_manifest toml_parse J R tools src = Inr m"
  shows "validate_id (mf_id m) = Inr () \<and> validate_profiles (profile_records m) = Inr () \<and>
    validate_concepts (concept_records m) = Inr ()"
proof -
  obtain tab where v: "parse_concepts J R tab = Inr (mf_concepts m)" "valid_plugin_id (mf_id m)"
    "parse_profiles tab = Inr (mf_profiles m)"
    using assms by (auto simp: parse_manifest_def validate_def split: sum.splits)
  have "length (mf_profiles m) \<le> MAX_PROFILES \<and> list_all profile_ok (mf_profiles m)"
    by (rule section_ok [OF v(3) [unfolded parse_profiles_def] parse_profile_ok])
  then have "validate_profiles (profile_records m) = Inr ()"
    by (auto simp: validate_profiles_def profile_records_def MAX_PROFILE_RECORDS_def MAX_PROFILES_def list_all_iff profile_storable
        intro!: all_ok_succeeds)
  moreover have "validate_concepts (concept_records m) = Inr ()"
  proof -
    have "mf_concepts m = [] \<or> (\<exists>names. each concept_entry 0 (mf_concepts m) = Inr names)"
      using v(1) by (auto simp: parse_concepts_def Let_def split: option.splits if_splits)
    then have "list_all (\<lambda>c. check_concept_shape (toml_json c) = Inr ()) (mf_concepts m)"
      using each_args_all [OF _ concept_entry_storable] by auto
    then show ?thesis
      using parse_concepts_Inr [OF v(1)]
      by (auto simp: validate_concepts_def concept_records_def MAX_CONCEPT_RECORDS_def list_all_iff intro!: all_ok_succeeds)
  qed
  ultimately show ?thesis using valid_id_storable [OF v(2)] by simp
qed

theorem parsed_manifest_is_storable_witness:
  "\<exists>m. parse_manifest (\<lambda>_. Inr demo_manifest) (one_text demo_concepts) literal_regex [''pane_run''] [] = Inr m \<and>
     profile_records m \<noteq> [] \<and> concept_records m \<noteq> [] \<and> validate_id (mf_id m) = Inr () \<and>
     validate_profiles (profile_records m) = Inr () \<and> validate_concepts (concept_records m) = Inr ()"
proof -
  obtain m where m: "parse_manifest (\<lambda>_. Inr demo_manifest) (one_text demo_concepts) literal_regex [''pane_run''] [] = Inr m"
    using demo_run
    by (cases "parse_manifest (\<lambda>_. Inr demo_manifest) (one_text demo_concepts) literal_regex [''pane_run''] []") auto
  have "map_sum id (\<lambda>m. (length (profile_records m), length (concept_records m)))
      (parse_manifest (\<lambda>_. Inr demo_manifest) (one_text demo_concepts) literal_regex [''pane_run''] []) = Inr (1, 1)"
    by code_simp
  then have "profile_records m \<noteq> []" "concept_records m \<noteq> []" using m by auto
  then show ?thesis using m parsed_manifest_is_storable [OF m] by blast
qed

section \<open>What the approval covers\<close>

text \<open>The key of a tile, when it has one an approval can hold.\<close>

definition tile_key :: "toml \<Rightarrow> str option" where
  "tile_key tile =
     (let key = join_with [CHR 0x1F] (plan_parts tile)
      in if plan_parts tile = [] \<or> MAX_PLAN_KEY_LEN < char_count key then None else Some key)"

lemma plan_keys_loop_spec:
  "distinct keys \<Longrightarrow> distinct (plan_keys_loop tiles keys) \<and>
   set (plan_keys_loop tiles keys) = set keys \<union> {key. \<exists>tile \<in> set tiles. tile_key tile = Some key}"
proof (induction tiles keys rule: plan_keys_loop.induct)
  case (2 tile tiles keys)
  then show ?case by (auto simp: Let_def tile_key_def split: if_splits)
qed auto

text \<open>The approval covers exactly the profile: the plan keys are the keys of its tiles, each
  once - no tile that would run something is left out, however many there are, and nothing is
  in the list that no tile runs.\<close>

theorem plan_keys_cover:
  "distinct (profile_plan_keys tiles) \<and>
   set (profile_plan_keys tiles) = {key. \<exists>tile \<in> set tiles. tile_key tile = Some key}"
  using plan_keys_loop_spec [of "[]" tiles] by (simp add: profile_plan_keys_def)

text \<open>A key says what runs, as long as no part of it contains the separator.\<close>

lemma split_join_on:
  "ss \<noteq> [] \<Longrightarrow> list_all (\<lambda>s. d \<notin> set s) ss \<Longrightarrow> split_on d (join_with [d] ss) = ss"
proof (induction "[d]" ss rule: join_with.induct)
  case (3 s s' ss)
  then show ?case by (simp add: split_on_append)
qed (auto simp: split_on_none)

lemma plan_key_exact:
  assumes "tile_key a = Some key" "tile_key b = Some key"
    and "list_all (\<lambda>s. CHR 0x1F \<notin> set s) (plan_parts a @ plan_parts b)"
  shows "plan_parts a = plan_parts b"
proof -
  have "split_on (CHR 0x1F) key = plan_parts a" "split_on (CHR 0x1F) key = plan_parts b"
    using assms split_join_on [of "plan_parts a" "CHR 0x1F"] split_join_on [of "plan_parts b" "CHR 0x1F"]
    by (auto simp: tile_key_def Let_def split: if_splits)
  then show ?thesis by simp
qed

section \<open>What the review shows\<close>

lemma list_distinct_spec:
  "distinct out \<Longrightarrow> distinct (list_distinct f limit xs out) \<and>
   set (list_distinct f limit xs out) \<subseteq> set out \<union> {s. s \<noteq> [] \<and> (\<exists>x \<in> set xs. f x = Some s)} \<and>
   (length (list_distinct f limit xs out) < limit \<longrightarrow>
      {s. s \<noteq> [] \<and> (\<exists>x \<in> set xs. f x = Some s)} \<subseteq> set (list_distinct f limit xs out)) \<and>
   set out \<subseteq> set (list_distinct f limit xs out)"
proof (induction f limit xs out rule: list_distinct.induct)
  case (2 f limit x xs out)
  show ?case
  proof (cases "f x")
    case None
    then show ?thesis using 2 by auto
  next
    case (Some s)
    show ?thesis
    proof (cases "s = [] \<or> s \<in> set out")
      case True
      then show ?thesis using 2(2) [OF Some True 2(4)] Some by auto
    next
      case False
      show ?thesis
      proof (cases "limit \<le> length (out @ [s])")
        case True
        then show ?thesis using False Some 2(4) by auto
      next
        case lt: False
        have "distinct (out @ [s])" using False 2(4) by simp
        from 2(3) [OF Some False lt this] show ?thesis using False Some lt by auto
      qed
    qed
  qed
qed simp

lemma short_chars: "\<exists>cs. short s limit = concat cs \<and> length cs \<le> limit \<and> list_all (\<lambda>c. \<not> is_control c) cs"
  by (rule exI [of _ "take limit (filter (\<lambda>c. \<not> is_control c) (chars s))"])
    (auto simp: short_def list_all_iff dest: in_set_takeD)

text \<open>The review does not show every program it has the user approve.  A tile that names its program
  under \<open>shell\<close> passes the validator; the approval records it, but the profile's program list,
  which the dialog prints as what the profile starts, is empty.\<close>

theorem review_hides_shell_programs:
  assumes "program \<noteq> []" "char_count program \<le> MAX_PLAN_KEY_LEN"
  shows "\<exists>tile. validate_tile path j tile = Inr () \<and>
    profile_programs \<lparr>ps_name = name, ps_tiles = [tile]\<rparr> = [] \<and> profile_plan_keys [tile] = [program]"
proof (intro exI conjI)
  let ?tile = "TTab [(''settings'', TTab [(''shell'', TStr program)])]"
  have t: "''terminal'' \<in> set pane_types" "''terminal'' \<noteq> ''observer''" by code_simp+
  then show "validate_tile path j ?tile = Inr ()"
    by (simp add: validate_tile_def validate_settings_def tile_type_def optional_key_def validate_geometry_def
        int_field_def GRID_def Let_def)
  show "profile_programs \<lparr>ps_name = name, ps_tiles = [?tile]\<rparr> = []"
    by (simp add: profile_programs_def tile_command_def tget_def)
  have "plan_parts ?tile = [program]" using assms(1) by (simp add: plan_parts_def tget_def or_else_def Let_def)
  then show "profile_plan_keys [?tile] = [program]" using assms(2) by (simp add: profile_plan_keys_def)
qed

theorem review_hides_shell_programs_witness:
  "\<exists>tile. validate_tile [] 0 tile = Inr () \<and> profile_programs \<lparr>ps_name = ''Dev'', ps_tiles = [tile]\<rparr> = [] \<and>
     profile_plan_keys [tile] = [''rm'']"
proof (rule review_hides_shell_programs)
  show "''rm'' \<noteq> []" by simp
  have "char_count ''rm'' = 2" by code_simp
  then show "char_count ''rm'' \<le> MAX_PLAN_KEY_LEN" by (simp add: MAX_PLAN_KEY_LEN_def)
qed

text \<open>Nor does a list that was cut at its limit say so: the ninth program of a profile is approved
  unseen.  Below the limit the list is complete for the programs named as commands.\<close>

lemma programs_below_limit:
  assumes "length (profile_programs p) < MAX_PROFILE_PROGRAMS" "tile \<in> set (ps_tiles p)" "tile_command tile = Some c" "c \<noteq> []"
  shows "c \<in> set (profile_programs p)"
  using list_distinct_spec [of "[]" tile_command MAX_PROFILE_PROGRAMS "ps_tiles p"] assms
  by (auto simp: profile_programs_def)

end
