(* ===== verification/File_Trees.thy ===== *)
theory File_Trees
  imports File_Calls
begin

text \<open>
  Calls of \<open>std::fs\<close> on whole directories: \<open>fs::rename\<close> of any entry and \<open>fs::remove_dir_all\<close>, and
  what they leave of the rest.
\<close>

section \<open>Renaming and removing trees\<close>

definition move_tree :: "path \<Rightarrow> path \<Rightarrow> fs \<Rightarrow> fs" where
  "move_tree p q fs =
     map (\<lambda>(r, node). (if prefix p r then q @ drop (length p) r else r, node)) (filter (\<lambda>e. \<not> prefix q (fst e)) fs)"

definition rename_entry :: "fs \<Rightarrow> str \<Rightarrow> str \<Rightarrow> io_error + fs" where
  "rename_entry fs s d =
     (case (locate fs s, locate fs d) of
        (Some p, Some q) \<Rightarrow>
          (case fs_get fs p of
             None \<Rightarrow> Inl Io_Not_Found
           | Some node \<Rightarrow>
               if p = q then Inr fs
               else if prefix p q \<or> prefix q p then Inl Io_Other
               else (case fs_get fs q of
                   None \<Rightarrow> Inr (move_tree p q fs)
                 | Some Dir \<Rightarrow>
                     if node = Dir \<and> list_all (\<lambda>(r, _). \<not> strict_prefix q r) fs then Inr (move_tree p q fs) else Inl Io_Other
                 | Some _ \<Rightarrow> if node = Dir then Inl Io_Other else Inr (move_tree p q fs)))
      | _ \<Rightarrow> Inl Io_Not_Found)"

definition remove_tree :: "path \<Rightarrow> fs \<Rightarrow> fs" where
  "remove_tree p fs = filter (\<lambda>e. \<not> prefix p (fst e)) fs"

text \<open>A link is removed, not followed; a removal that can start is taken to finish.\<close>

definition remove_dir_all :: "fs \<Rightarrow> str \<Rightarrow> io_error + fs" where
  "remove_dir_all fs s =
     (case locate fs s of
        None \<Rightarrow> Inl Io_Not_Found
      | Some p \<Rightarrow>
          (case fs_get fs p of
             None \<Rightarrow> Inl Io_Not_Found
           | Some Dir \<Rightarrow> Inr (remove_tree p fs)
           | Some (Link _) \<Rightarrow> Inr (fs_del p fs)
           | Some (File _ _ _) \<Rightarrow> Inl Io_Other))"

text \<open>\<open>Path::parent\<close> of an absolute path without a slash at its end.\<close>

definition parent_dir :: "str \<Rightarrow> str" where
  "parent_dir s = (let q = rev (tl (dropWhile (\<lambda>c. c \<noteq> CHR ''/'') (rev s))) in if q = [] then ''/'' else q)"

section \<open>Entries afterwards\<close>

lemma fs_get_remove_tree: "p \<noteq> [] \<Longrightarrow> fs_get (remove_tree p fs) q = (if prefix p q then None else fs_get fs q)"
proof -
  have "map_of (filter (\<lambda>e. \<not> prefix p (fst e)) fs) q = (if prefix p q then None else map_of fs q)"
    by (induction fs) auto
  then show "p \<noteq> [] \<Longrightarrow> fs_get (remove_tree p fs) q = (if prefix p q then None else fs_get fs q)"
    by (auto simp: fs_get_def remove_tree_def)
qed

lemma map_of_move:
  assumes "\<not> prefix p q" "\<not> prefix q p"
  shows "map_of (move_tree p q fs) r =
    (if prefix q r then map_of fs (p @ drop (length q) r) else if prefix p r then None else map_of fs r)"
proof (induction fs)
  case (Cons e fs)
  obtain s node where e: "e = (s, node)" by (cases e)
  have sw: "prefix q r \<Longrightarrow> (q @ drop (length p) s = r \<and> prefix p s) = (s = p @ drop (length q) r)"
    by (auto simp: prefix_def)
  have np: "\<not> prefix q (p @ t)" for t using assms by (metis prefix_same_cases prefixI)
  have nq: "\<not> prefix p (q @ t)" for t using assms by (metis prefix_same_cases prefixI)
  consider "prefix q s" | "prefix p s" | "\<not> prefix q s" "\<not> prefix p s" by blast
  then show ?case
  proof cases
    case 1
    then have "p @ t \<noteq> s" for t using np by metis
    moreover from this have "s \<noteq> p @ t" for t by metis
    ultimately show ?thesis using 1 Cons unfolding e by (auto simp: move_tree_def)
  next
    case 2
    then have "\<not> prefix q s" using np by (auto simp: prefix_def)
    moreover have "q @ t \<noteq> s" for t using 2 nq by metis
    moreover from this have "s \<noteq> q @ t" for t by metis
    ultimately show ?thesis using 2 Cons sw unfolding e by (auto simp: move_tree_def)
  next
    case 3
    then have "p @ t \<noteq> s" for t by auto
    moreover from this have "s \<noteq> p @ t" for t by metis
    ultimately show ?thesis using 3 Cons unfolding e by (auto simp: move_tree_def)
  qed
qed (simp add: move_tree_def)

lemma fs_get_move:
  assumes "\<not> prefix p q" "\<not> prefix q p"
  shows "fs_get (move_tree p q fs) r =
    (if prefix q r then fs_get fs (p @ drop (length q) r) else if prefix p r then None else fs_get fs r)"
  using map_of_move [OF assms, of fs r] assms by (auto simp: fs_get_def)

text \<open>A directory is found where it was when only what is below an unused name changes.\<close>

definition same_outside :: "path \<Rightarrow> fs \<Rightarrow> fs \<Rightarrow> bool" where
  "same_outside p fs fs' \<longleftrightarrow> (\<forall>q. \<not> prefix p q \<longrightarrow> fs_get fs' q = fs_get fs q)"

definition free_below :: "path \<Rightarrow> fs \<Rightarrow> bool" where
  "free_below p fs \<longleftrightarrow> (\<forall>q. prefix p q \<longrightarrow> fs_get fs q = None)"

lemma same_outside_refl [simp]: "same_outside p fs fs"
  by (simp add: same_outside_def)

lemma same_outside_trans [trans]: "same_outside p fs fs1 \<Longrightarrow> same_outside p fs1 fs2 \<Longrightarrow> same_outside p fs fs2"
  by (simp add: same_outside_def)

lemma locate_outside:
  assumes "free_below p fs" "same_outside p fs fs'" "locate fs s = Some q"
  shows "locate fs' s = Some q"
proof -
  obtain d where d: "resolve_at fs MAX_SYMLINKS [] (butlast (os_comps s)) = Some d" "fs_get fs d = Some Dir"
    "q = d @ [last (os_comps s)]" "absolute s" "os_comps s \<noteq> []" "last (os_comps s) \<notin> {''.'', ''..''}"
    using assms(3) by (auto simp: locate_def Let_def split: if_splits option.splits)
  have keep: "fs_get fs' r = fs_get fs r" if "fs_get fs r = Some Dir \<or> is_link (fs_get fs r)" for r
    using that assms(1,2) by (auto simp: free_below_def same_outside_def is_link_def)
  have "resolve_at fs' MAX_SYMLINKS [] (butlast (os_comps s)) = Some d"
    by (rule resolve_at_dirs [OF keep d(1,2)])
  then show ?thesis using d keep [of d] by (simp add: locate_def Let_def)
qed

lemma fs_ok_put:
  assumes "fs_ok fs" "p \<noteq> []" "list_all good_name p" "fs_get fs (butlast p) = Some Dir" "node = Dir \<or> fs_get fs p = None"
  shows "fs_ok (fs_put p node fs)"
proof -
  have keep: "fs_get (fs_put p node fs) q = Some Dir" if "fs_get fs q = Some Dir" for q
    using that assms(5) by (auto simp: fs_get_put)
  have "distinct (map fst (filter f fs))" for f
    using assms(1) by (simp add: fs_ok_def distinct_map_filter)
  then have "distinct (map fst (fs_put p node fs))" by (auto simp: fs_put_def)
  moreover have "q \<noteq> [] \<and> list_all good_name q \<and> fs_get (fs_put p node fs) (butlast q) = Some Dir"
    if "(q, x) \<in> set (fs_put p node fs)" for q x
  proof (cases "q = p")
    case False
    then have "(q, x) \<in> set fs" using that by (auto simp: fs_put_def)
    then show ?thesis using assms(1) keep by (auto simp: fs_ok_def list_all_iff)
  qed (use assms keep in simp)
  ultimately show ?thesis unfolding fs_ok_def list_all_iff by (auto simp del: list_all_iff)
qed

section \<open>Paths without links\<close>

text \<open>A directory reached through directories only is where its names say.\<close>

definition dirs_to :: "fs \<Rightarrow> path \<Rightarrow> bool" where
  "dirs_to fs p \<longleftrightarrow> (\<forall>r. prefix r p \<longrightarrow> fs_get fs r = Some Dir)"

lemma dirs_to_snoc: "dirs_to fs (p @ [c]) \<longleftrightarrow> dirs_to fs p \<and> fs_get fs (p @ [c]) = Some Dir"
  by (auto simp: dirs_to_def)

lemma dirs_to_Dir: "dirs_to fs p \<Longrightarrow> fs_get fs p = Some Dir"
  by (simp add: dirs_to_def)

lemma fs_ok_dirs_to: "fs_ok fs \<Longrightarrow> fs_get fs p = Some Dir \<Longrightarrow> dirs_to fs p"
proof (induction p rule: rev_induct)
  case (snoc c p)
  then show ?case using fs_ok_parent [of fs "p @ [c]"] by (simp add: dirs_to_snoc)
qed (simp add: dirs_to_def)

lemma resolve_plain: "dirs_to fs p \<Longrightarrow> list_all good_name p \<Longrightarrow> resolve_at fs n [] p = Some p"
proof (induction p rule: rev_induct)
  case (snoc c p)
  then have "resolve_at fs n [] p = Some p" "fs_get fs (p @ [c]) = Some Dir" "fs_get fs p = Some Dir" "good_name c"
    by (simp_all add: dirs_to_snoc dirs_to_Dir)
  then show ?case by (intro resolve_at_snoc) (auto simp: is_link_def good_name_def)
qed simp

lemma locate_plain:
  assumes "absolute s" "os_comps s = p @ [c]" "list_all good_name (p @ [c])" "dirs_to fs p"
  shows "locate fs s = Some (p @ [c])"
  using assms resolve_plain [OF assms(4)] by (simp add: locate_def dirs_to_Dir good_name_def)

lemma metadata_plain:
  assumes "absolute s" "os_comps s = p @ [c]" "list_all good_name (p @ [c])" "dirs_to fs p" "\<not> is_link (fs_get fs (p @ [c]))"
  shows "metadata fs s = fs_get fs (p @ [c])"
proof -
  have p: "resolve_at fs MAX_SYMLINKS [] p = Some p" and c: "c \<noteq> ''.''" "c \<noteq> ''..''"
    using resolve_plain assms(3,4) by (simp_all add: good_name_def)
  show ?thesis
  proof (cases "fs_get fs (p @ [c])")
    case None
    then have "resolve_at fs MAX_SYMLINKS [] (p @ [c]) = None"
      using resolve_at_snocD [OF _ p assms(5) c] by (metis not_None_eq)
    then show ?thesis using None assms(1,2) by (simp add: metadata_def canonicalize_def)
  next
    case (Some node)
    then have "resolve_at fs MAX_SYMLINKS [] (p @ [c]) = Some (p @ [c])"
      using resolve_at_snoc [OF p dirs_to_Dir [OF assms(4)] _ assms(5) c] by simp
    then show ?thesis using assms(1,2) by (simp add: metadata_def canonicalize_def)
  qed
qed

text \<open>What making the directories of a path adds.\<close>

definition grown :: "path \<Rightarrow> fs \<Rightarrow> fs \<Rightarrow> bool" where
  "grown d fs fs' \<longleftrightarrow> (\<forall>p. fs_get fs' p = fs_get fs p \<or> fs_get fs p = None \<and> fs_get fs' p = Some Dir \<and> prefix p d)"

definition no_links_to :: "fs \<Rightarrow> path \<Rightarrow> bool" where
  "no_links_to fs p \<longleftrightarrow> (\<forall>r. prefix r p \<longrightarrow> \<not> is_link (fs_get fs r))"

lemma is_link_Dir: "\<not> is_link (Some Dir)"
  by (simp add: is_link_def)

lemma grown_no_links: "grown d fs fs' \<Longrightarrow> no_links_to fs p \<Longrightarrow> no_links_to fs' p"
  by (auto simp: grown_def no_links_to_def) (metis (no_types) is_link_Dir)

lemma make_dirs_plain:
  assumes "fs_ok fs" "list_all good_name (before @ cs)" "dirs_to fs before" "no_links_to fs (before @ cs)"
    and "make_dirs fs before cs = (fs', r)"
  shows "fs_ok fs' \<and> grown (before @ cs) fs fs' \<and> (r = Inr () \<longrightarrow> dirs_to fs' (before @ cs))"
  using assms
proof (induction cs arbitrary: fs before)
  case Nil
  then show ?case by (auto simp: grown_def)
next
  case (Cons c cs)
  let ?q = "before @ [c]"
  have good: "good_name c" "list_all good_name before" and nl: "\<not> is_link (fs_get fs ?q)"
    using Cons.prems(2,4) by (auto simp: no_links_to_def)
  have b: "resolve_at fs MAX_SYMLINKS [] before = Some before" by (rule resolve_plain [OF Cons.prems(3) good(2)])
  have c: "c \<noteq> ''.''" "c \<noteq> ''..''" using good(1) by (auto simp: good_name_def)
  have there: "names_are_dir fs ?q \<longleftrightarrow> fs_get fs ?q = Some Dir"
    using resolve_at_snocD [OF _ b nl c] resolve_plain [of fs ?q MAX_SYMLINKS] Cons.prems(3) good
    by (auto simp: names_are_dir_def dirs_to_snoc split: option.splits)
  show ?case
  proof (cases "fs_get fs ?q = Some Dir")
    case True
    then have "dirs_to fs ?q" using Cons.prems(3) by (simp add: dirs_to_snoc)
    then show ?thesis using Cons.IH [of fs ?q] Cons.prems True there by simp
  next
    case False
    have m: "make_dir fs before c = (if fs_get fs ?q \<noteq> None then Inl Io_Already_Exists else Inr (fs_put ?q Dir fs))"
      using b c Cons.prems(3) by (simp add: make_dir_def resolve_err_Inr [THEN iffD2, OF b] dirs_to_Dir)
    show ?thesis
    proof (cases "fs_get fs ?q")
      case None
      let ?f = "fs_put ?q Dir fs"
      have g: "fs_get ?f = (fs_get fs)(?q \<mapsto> Dir)" by (auto simp: fs_get_put)
      have "fs_ok ?f" using Cons.prems(1,3) good None by (intro fs_ok_put) (auto simp: dirs_to_Dir)
      moreover have "dirs_to ?f ?q" using Cons.prems(3) unfolding dirs_to_snoc by (auto simp: dirs_to_def g)
      moreover have "no_links_to ?f (?q @ cs)" using Cons.prems(4) by (auto simp: no_links_to_def g is_link_def)
      moreover have "make_dirs ?f ?q cs = (fs', r)" using Cons.prems(5) False there m None by simp
      ultimately have "fs_ok fs' \<and> grown (?q @ cs) ?f fs' \<and> (r = Inr () \<longrightarrow> dirs_to fs' (?q @ cs))"
        using Cons.prems(2) by (intro Cons.IH) simp_all
      moreover have "grown (?q @ cs) fs fs'" if "grown (?q @ cs) ?f fs'"
        unfolding grown_def
      proof
        fix p
        show "fs_get fs' p = fs_get fs p \<or> fs_get fs p = None \<and> fs_get fs' p = Some Dir \<and> prefix p (?q @ cs)"
          using that None by (cases "p = ?q") (auto simp: grown_def g dest: spec [of _ p])
      qed
      ultimately show ?thesis by simp
    qed (use Cons.prems(1,5) False there m in \<open>auto simp: grown_def\<close>)
  qed
qed

lemma fs_ok_free:
  assumes "fs_ok fs" "fs_get fs p = None"
  shows "free_below p fs"
proof -
  have "fs_get fs (p @ t) = None" for t
  proof (induction t rule: rev_induct)
    case (snoc c t)
    then show ?case using fs_ok_parent [OF assms(1), of "(p @ t) @ [c]"]
      by (cases "fs_get fs (p @ t @ [c])") (simp_all add: butlast_append)
  qed (use assms(2) in simp)
  then show ?thesis by (auto simp: free_below_def prefix_def)
qed

text \<open>A directory renamed to a free name, neither below the other.\<close>

lemma rename_entry_free:
  assumes "locate fs s = Some p" "locate fs d = Some q" "fs_get fs p = Some node" "fs_get fs q = None"
    and "\<not> prefix p q" "\<not> prefix q p"
  shows "rename_entry fs s d = Inr (move_tree p q fs)"
  using assms by (auto simp: rename_entry_def)

lemma dirs_to_move:
  assumes "\<not> prefix p q" "\<not> prefix q p" "\<not> prefix p r" "\<not> prefix q r" "dirs_to fs r"
  shows "dirs_to (move_tree p q fs) r"
  unfolding dirs_to_def
proof (intro allI impI)
  fix t assume "prefix t r"
  then have "\<not> prefix p t" "\<not> prefix q t" "fs_get fs t = Some Dir"
    using assms(3-5) prefix_order.trans by (auto simp: dirs_to_def)
  then show "fs_get (move_tree p q fs) t = Some Dir" by (simp add: fs_get_move [OF assms(1,2)])
qed

end
