(* ===== verification/Plugin_Install.thy ===== *)
theory Plugin_Install
  imports Plugin_Review File_Trees Ipc_Server
begin

text \<open>
  The workflow of \<open>gpty plugin\<close>, the other half of \<open>crates/gpty-cli/src/commands/plugin.rs\<close>:
  staging a clone, the review, the move into place, the record; uninstalling, enabling, running
  and validating.  The git program, the control socket, the daemon and the children an action
  starts are parameters; the file system is the model's, and what the system supplies - names,
  clock, directories, whether a rename succeeds - is the environment.
\<close>

section \<open>Steps that may fail\<close>

type_synonym 'a io = "fs \<Rightarrow> fs \<times> (failure + 'a)"

definition then_io :: "'a io \<Rightarrow> ('a \<Rightarrow> 'b io) \<Rightarrow> 'b io" where
  "then_io m k fs = (case m fs of (fs', Inl e) \<Rightarrow> (fs', Inl e) | (fs', Inr x) \<Rightarrow> k x fs')"

definition pure_io :: "failure + 'a \<Rightarrow> 'a io" where
  "pure_io r fs = (fs, r)"

lemma then_io_cases:
  assumes "then_io m k fs = (fs', r)"
  obtains e where "m fs = (fs', Inl e)" "r = Inl e" | x fs1 where "m fs = (fs1, Inr x)" "k x fs1 = (fs', r)"
  using assms by (cases "m fs"; cases "snd (m fs)") (auto simp: then_io_def)

record install_env =
  pe_staging :: str                      \<comment> \<open>the digits of the staging directory's name\<close>
  pe_old :: str                          \<comment> \<open>those of the name an old version is moved to\<close>
  pe_rename_ok :: "nat \<Rightarrow> bool"         \<comment> \<open>whether the renames of a move succeed, in order\<close>
  pe_error :: str
  pe_store :: store_env
  pe_data :: "str option"                \<comment> \<open>the per-user data directory\<close>
  pe_state :: "str option"               \<comment> \<open>the per-user state directory\<close>
  pe_os :: str
  pe_current :: semver
  pe_bin :: "str option"                 \<comment> \<open>\<open>GPTY_BIN_PATH\<close>\<close>
  pe_exe :: "str option"                 \<comment> \<open>the current executable\<close>
  pe_mode :: nat

text \<open>What a command prints to its standard output.\<close>

datatype cli_output = Out_Json json | Out_Lines "str list"

definition print_result :: "bool \<Rightarrow> json \<Rightarrow> str \<Rightarrow> cli_output" where
  "print_result as_json value human = (if as_json then Out_Json value else Out_Lines [human])"

definition NO_DIR :: str where
  "NO_DIR = ''no per-user directory is available (set HOME or the XDG variables)''"

definition data_dir :: "install_env \<Rightarrow> failure + str" where
  "data_dir E = ok_or (pe_data E) [NO_DIR]"

definition content_root :: "install_env \<Rightarrow> failure + str" where
  "content_root E = and_then (data_dir E) (\<lambda>d. Inr (path_join d ''plugins''))"

definition content_of :: "install_env \<Rightarrow> str \<Rightarrow> failure + str" where
  "content_of E i = and_then (data_dir E) (\<lambda>d. map_err (\<lambda>e. [e]) (content_dir d i))"

definition runtime_of :: "install_env \<Rightarrow> str \<Rightarrow> failure + str" where
  "runtime_of E i = and_then (ok_or (pe_state E) [NO_DIR]) (\<lambda>d. map_err (\<lambda>e. [e]) (runtime_dir d i))"

definition logs_of :: "install_env \<Rightarrow> str \<Rightarrow> failure + str" where
  "logs_of E i = and_then (ok_or (pe_state E) [NO_DIR]) (\<lambda>d. map_err (\<lambda>e. [e]) (logs_dir d i))"

text \<open>\<open>PluginStore::open\<close>: the directory of the store.\<close>

definition plugin_store_open :: "install_env \<Rightarrow> failure + str" where
  "plugin_store_open E = ok_or (pe_state E)
     [''no per-user state directory is available (set HOME or XDG_STATE_HOME)'']"

definition create_dirs :: "install_env \<Rightarrow> str list \<Rightarrow> str \<Rightarrow> unit io" where
  \<comment> \<open>\<open>create_dir_all\<close> with a context\<close>
  "create_dirs E context_text p fs =
     (case create_dir_all fs p of (fs', Inl _) \<Rightarrow> (fs', Inl (context_text @ [pe_error E])) | (fs', Inr _) \<Rightarrow> (fs', Inr ()))"

section \<open>Git\<close>

record git_output =
  go_success :: bool
  go_stdout :: bytes
  go_stderr :: bytes

type_synonym git_tool = "str list \<Rightarrow> fs \<Rightarrow> fs \<times> (str + git_output)"

definition git_failed :: "str list \<Rightarrow> git_output \<Rightarrow> failure" where
  "git_failed args out = [''git '' @ join_with '' '' args @ '' failed: '' @ trim (from_utf8_lossy (go_stderr out))]"

definition git :: "git_tool \<Rightarrow> str list \<Rightarrow> unit io" where
  "git G args fs =
     (case G args fs of
        (fs', Inl e) \<Rightarrow> (fs', Inl [''spawning git'', e])
      | (fs', Inr out) \<Rightarrow> (fs', if go_success out then Inr () else Inl (git_failed args out)))"

definition git_in :: "git_tool \<Rightarrow> str \<Rightarrow> str list \<Rightarrow> unit io" where
  "git_in G dir args fs =
     (case G (''-C'' # dir # args) fs of
        (fs', Inl e) \<Rightarrow> (fs', Inl [''spawning git'', e])
      | (fs', Inr out) \<Rightarrow> (fs', if go_success out then Inr () else Inl (git_failed args out)))"

definition git_in_out :: "git_tool \<Rightarrow> str \<Rightarrow> str list \<Rightarrow> str io" where
  "git_in_out G dir args fs =
     (case G (''-C'' # dir # args) fs of
        (fs', Inl e) \<Rightarrow> (fs', Inl [''spawning git'', e])
      | (fs', Inr out) \<Rightarrow> (fs', if go_success out then Inr (trim (from_utf8_lossy (go_stdout out)))
          else Inl (git_failed args out)))"

section \<open>Reading manifests\<close>

definition MANIFEST_FILENAME :: str where "MANIFEST_FILENAME = ''gpty-plugin.toml''"
definition MAX_MANIFEST_BYTES :: nat where "MAX_MANIFEST_BYTES = 64 * 1024"

lemma manifest_cap_code [code_unfold]: "MAX_MANIFEST_BYTES < length bs \<longleftrightarrow> 65536 < int (length bs)"
  by (auto simp: MAX_MANIFEST_BYTES_def)

definition read_manifest_text :: "install_env \<Rightarrow> fs \<Rightarrow> str \<Rightarrow> failure + str" where
  "read_manifest_text E fs p =
     (case read_file fs p of
        Inl _ \<Rightarrow> Inl [''reading '' @ p, pe_error E]
      | Inr bs \<Rightarrow>
          if MAX_MANIFEST_BYTES < length bs
          then Inl [p @ '' is '' @ dec (length bs) @ '' bytes; manifests are at most '' @ dec MAX_MANIFEST_BYTES]
          else if \<not> utf8_valid bs then Inl [p @ '' is not UTF-8'', pe_error E]
          else Inr bs)"

text \<open>\<open>parse\<close> is \<open>parse_manifest\<close> with its parameters.\<close>

definition read_manifest :: "(str \<Rightarrow> str + manifest) \<Rightarrow> install_env \<Rightarrow> fs \<Rightarrow> str \<Rightarrow> failure + manifest" where
  "read_manifest parse E fs dir =
     (let p = path_join dir MANIFEST_FILENAME
      in and_then (read_manifest_text E fs p) (\<lambda>src. map_err (\<lambda>e. [p @ '': '' @ e]) (parse src)))"

definition resolve_manifest_path :: "install_env \<Rightarrow> fs \<Rightarrow> str \<Rightarrow> failure + str" where
  "resolve_manifest_path E fs p =
     (case stat fs p of
        Inl _ \<Rightarrow> Inl [p @ '': not a readable file or directory'', pe_error E]
      | Inr node \<Rightarrow> Inr (if node = Dir then path_join p MANIFEST_FILENAME else p))"

definition validate_manifest :: "(str \<Rightarrow> str + manifest) \<Rightarrow> install_env \<Rightarrow> fs \<Rightarrow> str \<Rightarrow> str + manifest" where
  "validate_manifest parse E fs p =
     and_then (map_err (join_with '': '') (resolve_manifest_path E fs p)) (\<lambda>q.
     and_then (map_err (join_with '': '') (read_manifest_text E fs q)) (\<lambda>src.
     map_err (\<lambda>e. q @ '': '' @ e) (parse src)))"

definition validate_command :: "(str \<Rightarrow> str + manifest) \<Rightarrow> install_env \<Rightarrow> fs \<Rightarrow> str \<Rightarrow> bool \<Rightarrow> cli_output list \<times> (failure + unit)" where
  \<comment> \<open>\<open>validate\<close>: what it prints, and its outcome\<close>
  "validate_command parse E fs p as_json =
     (case validate_manifest parse E fs p of
        Inr m \<Rightarrow> ([print_result as_json
            (JObj [(''id'', JStr (mf_id m)), (''name'', JStr (mf_name m)), (''ok'', JBool True),
               (''version'', JStr (semver_display (mf_version m)))])
            (''plugin ok: '' @ mf_id m @ '' '' @ semver_display (mf_version m) @ '' ('' @
               dec (length (mf_profiles m)) @ '' profiles, '' @ dec (length (mf_actions m)) @ '' actions, '' @
               dec (length (mf_events m)) @ '' events, '' @ dec (length (mf_concepts m)) @ '' concepts, '' @
               dec (length (mf_link_handlers m)) @ '' link handlers)'')], Inr ())
      | Inl diagnostic \<Rightarrow>
          (if as_json then [Out_Json (JObj [(''errors'', JArr [JStr diagnostic]), (''ok'', JBool False)])] else [],
           Inl [diagnostic]))"

definition short_rev :: "str \<Rightarrow> str" where
  "short_rev r = take_chars 12 r"

section \<open>The review\<close>

definition REVIEW_TIMEOUT :: int where "REVIEW_TIMEOUT = 300 * 1000"

text \<open>The control socket: a time-out in milliseconds, a method and its parameters.\<close>

type_synonym client = "int \<Rightarrow> str \<Rightarrow> json \<Rightarrow> str + response"

definition review_install :: "(str \<Rightarrow> json \<Rightarrow> str + response) \<Rightarrow> json \<Rightarrow> failure + bool" where
  "review_install call summary =
     (case call ''pluginInstall'' summary of
        Inl e \<Rightarrow> Inl [e]
      | Inr resp \<Rightarrow>
          (case rs_error resp of
             Some err \<Rightarrow> Inl [''plugin review failed: '' @ re_message err @ '' ('' @ dec_int (re_code err) @ '')'']
           | None \<Rightarrow>
               (case Option.bind (Option.bind (rs_result resp) (\<lambda>v. jget v ''accepted'')) jbool of
                  Some verdict \<Rightarrow> Inr verdict
                | None \<Rightarrow> Inl [''plugin review returned no verdict''])))"

section \<open>The move into place\<close>

definition rename_as :: "install_env \<Rightarrow> nat \<Rightarrow> str \<Rightarrow> str \<Rightarrow> fs \<Rightarrow> io_error + fs" where
  "rename_as E n s d fs = (if pe_rename_ok E n then rename_entry fs s d else Inl Io_Other)"

text \<open>The destination is free, or it is moved aside for the new content and moved back if that does
  not take its place.\<close>

definition swap_in :: "install_env \<Rightarrow> str \<Rightarrow> str \<Rightarrow> str \<Rightarrow> unit io" where
  "swap_in E staging dest old fs =
     (if metadata fs dest = None
      then (case rename_as E 0 staging dest fs of
          Inr fs' \<Rightarrow> (fs', Inr ())
        | Inl _ \<Rightarrow> (fs, Inl [''moving '' @ staging @ '' into '' @ dest, pe_error E]))
      else (case rename_as E 1 dest old fs of
          Inl _ \<Rightarrow> (fs, Inl [''moving '' @ dest @ '' aside'', pe_error E])
        | Inr fs1 \<Rightarrow>
            (case rename_as E 2 staging dest fs1 of
               Inr fs2 \<Rightarrow> (case remove_dir_all fs2 old of Inr fs3 \<Rightarrow> fs3 | Inl _ \<Rightarrow> fs2, Inr ())
             | Inl _ \<Rightarrow> (case rename_as E 3 old dest fs1 of Inr fs2 \<Rightarrow> fs2 | Inl _ \<Rightarrow> fs1,
                 Inl [''moving '' @ staging @ '' into '' @ dest, pe_error E]))))"

definition old_name :: "install_env \<Rightarrow> str \<Rightarrow> str" where
  "old_name E i = ''.old-'' @ map (\<lambda>c. if c = CHR ''/'' then CHR ''-'' else c) i @ ''-'' @ pe_old E"

definition move_staged_into :: "install_env \<Rightarrow> str \<Rightarrow> str \<Rightarrow> str \<Rightarrow> unit io" where
  "move_staged_into E root staging i =
     then_io (create_dirs E [''creating '' @ root] root) (\<lambda>_.
     let dest = path_join root i
     in then_io (create_dirs E [''creating '' @ parent_dir dest] (parent_dir dest)) (\<lambda>_.
        swap_in E staging dest (path_join root (old_name E i))))"

definition move_into_place :: "install_env \<Rightarrow> str \<Rightarrow> str \<Rightarrow> unit io" where
  "move_into_place E staging i = then_io (pure_io (content_root E)) (\<lambda>root. move_staged_into E root staging i)"

section \<open>Install\<close>

fun make_runtime_dirs :: "install_env \<Rightarrow> str \<Rightarrow> str list \<Rightarrow> unit io" where
  "make_runtime_dirs E i [] = pure_io (Inr ())"
| "make_runtime_dirs E i (sub # subs) =
     then_io (pure_io (runtime_of E i)) (\<lambda>d.
     then_io (create_dirs E [] (path_join d sub)) (\<lambda>_. make_runtime_dirs E i subs))"

definition clone_ref :: "git_tool \<Rightarrow> install_target \<Rightarrow> str \<Rightarrow> unit io" where
  "clone_ref G target staging =
     then_io (git G [''clone'', ''--quiet'', clone_url target, staging]) (\<lambda>_.
     case it_ref target of
       None \<Rightarrow> pure_io (Inr ())
     | Some r \<Rightarrow>
         then_io (git_in G staging [''fetch'', ''--quiet'', ''origin'', r]) (\<lambda>_.
         git_in G staging [''checkout'', ''--quiet'', ''--detach'', ''FETCH_HEAD'']))"

text \<open>Up to the move: the same content already there, or the manifest and revision moved into
  place.\<close>

definition already_message :: "str \<Rightarrow> str \<Rightarrow> cli_output" where
  "already_message i revision = Out_Lines [''`'' @ i @ ''` is already installed at revision '' @ short_rev revision]"

datatype staged = Already cli_output | Moved manifest str str

definition inspect_clone :: "git_tool \<Rightarrow> (str \<Rightarrow> str + manifest) \<Rightarrow> install_env \<Rightarrow> install_target \<Rightarrow> platform \<Rightarrow> str
    \<Rightarrow> (manifest \<times> str) io" where
  \<comment> \<open>the clone, its revision and its manifest, through the gates\<close>
  "inspect_clone G parse E target platform staging =
     then_io (clone_ref G target staging) (\<lambda>_.
     then_io (git_in_out G staging [''rev-parse'', ''HEAD'']) (\<lambda>revision.
     then_io (pure_io (if length revision < MIN_REVISION_LEN
         then Inl [''git returned an unusable revision `'' @ revision @ ''`''] else Inr ())) (\<lambda>_.
     then_io (\<lambda>fs. (fs, read_manifest parse E fs staging)) (\<lambda>m.
     then_io (pure_io (check_gates (pe_current E) m target platform)) (\<lambda>_.
     pure_io (Inr (m, revision)))))))"

definition stage_plugin :: "git_tool \<Rightarrow> client \<Rightarrow> (int \<Rightarrow> failure + unit) \<Rightarrow> (str \<Rightarrow> str + manifest) \<Rightarrow> json_text \<Rightarrow> install_env
    \<Rightarrow> install_target \<Rightarrow> platform \<Rightarrow> int \<Rightarrow> bool \<Rightarrow> str \<Rightarrow> staged io" where
  "stage_plugin G call daemon parse J E target platform timeout no_daemon staging =
     then_io (inspect_clone G parse E target platform staging) (\<lambda>(m, revision).
     then_io (pure_io (plugin_store_open E)) (\<lambda>dir.
     then_io (\<lambda>fs. (fs, map_err (\<lambda>e. [e]) (record_of J (pe_store E) fs dir (mf_id m)))) (\<lambda>existing.
     if (case existing of Some rec \<Rightarrow> pr_revision rec = revision | None \<Rightarrow> False)
     then pure_io (Inr (Already (already_message (mf_id m) revision)))
     else
       then_io (pure_io (if no_daemon then Inr () else daemon timeout)) (\<lambda>_.
       then_io (pure_io (review_install (call (max REVIEW_TIMEOUT timeout)) (review_summary m target revision))) (\<lambda>accepted.
       if \<not> accepted then pure_io (Inl [''install declined''])
       else
         then_io (make_runtime_dirs E (mf_id m) [''config'', ''state'', ''logs'']) (\<lambda>_.
         then_io (move_into_place E staging (mf_id m)) (\<lambda>_.
         pure_io (Inr (Moved m revision dir)))))))))"

definition record_plugin :: "json_text \<Rightarrow> install_env \<Rightarrow> bool \<Rightarrow> manifest \<Rightarrow> str \<Rightarrow> str \<Rightarrow> cli_output io" where
  "record_plugin J E as_json m revision dir fs =
     (case upsert J (pe_store E) fs dir (mf_id m) revision (profile_records m) (concept_records m) of
        (fs', Inl e) \<Rightarrow> (fs', Inl [e])
      | (fs', Inr rec) \<Rightarrow> (fs', Inr (print_result as_json
          (JObj [(''enabled'', JBool (pr_enabled rec)), (''id'', JStr (pr_id rec)), (''name'', JStr (mf_name m)),
             (''revision'', JStr (pr_revision rec)), (''version'', JStr (semver_display (mf_version m)))])
          (''installed `'' @ mf_name m @ ''` '' @ mf_id m @ '' at revision '' @ short_rev revision))))"

text \<open>The guard: the staging directory goes on every way out, until it is disarmed.\<close>

definition drop_guard :: "str \<Rightarrow> fs \<Rightarrow> fs" where
  "drop_guard staging fs = (case remove_dir_all fs staging of Inr fs' \<Rightarrow> fs' | Inl _ \<Rightarrow> fs)"

definition staging_dir :: "install_env \<Rightarrow> str \<Rightarrow> str" where
  "staging_dir E data = path_join (staging_root data) (''staging-'' @ pe_staging E)"

definition install_staged :: "git_tool \<Rightarrow> client \<Rightarrow> (int \<Rightarrow> failure + unit) \<Rightarrow> (str \<Rightarrow> str + manifest) \<Rightarrow> json_text \<Rightarrow> install_env
    \<Rightarrow> install_target \<Rightarrow> platform \<Rightarrow> int \<Rightarrow> bool \<Rightarrow> bool \<Rightarrow> str \<Rightarrow> cli_output io" where
  \<comment> \<open>with the guard armed\<close>
  "install_staged G call daemon parse J E target platform timeout as_json no_daemon staging fs =
     (case (if \<not> utf8_valid staging then (fs, Inl [''staging path is not UTF-8''])
            else stage_plugin G call daemon parse J E target platform timeout no_daemon staging fs) of
        (fs', Inl e) \<Rightarrow> (drop_guard staging fs', Inl e)
      | (fs', Inr (Already out)) \<Rightarrow> (drop_guard staging fs', Inr out)
      | (fs', Inr (Moved m revision dir)) \<Rightarrow> record_plugin J E as_json m revision dir fs')"

definition install :: "git_tool \<Rightarrow> client \<Rightarrow> (int \<Rightarrow> failure + unit) \<Rightarrow> (str \<Rightarrow> str + manifest) \<Rightarrow> json_text \<Rightarrow> install_env
    \<Rightarrow> str \<Rightarrow> int \<Rightarrow> bool \<Rightarrow> bool \<Rightarrow> cli_output io" where
  "install G call daemon parse J E target timeout as_json no_daemon =
     then_io (pure_io (parse_target target)) (\<lambda>target.
     then_io (pure_io (current_platform (pe_os E))) (\<lambda>platform.
     then_io (pure_io (data_dir E)) (\<lambda>data.
     then_io (create_dirs E [''creating '' @ staging_root data] (staging_root data)) (\<lambda>_.
     install_staged G call daemon parse J E target platform timeout as_json no_daemon (staging_dir E data)))))"

section \<open>The other commands\<close>

definition list_plugins :: "json_text \<Rightarrow> install_env \<Rightarrow> fs \<Rightarrow> bool \<Rightarrow> failure + cli_output" where
  "list_plugins J E fs as_json =
     and_then (plugin_store_open E) (\<lambda>dir.
     and_then (map_err (\<lambda>e. [e]) (records J (pe_store E) fs dir)) (\<lambda>rs.
     Inr (if as_json then Out_Json (store_json rs)
          else if rs = [] then Out_Lines [''No plugins installed.'']
          else Out_Lines (map (\<lambda>r. pad_to 10 (if pr_enabled r then ''enabled'' else ''disabled'') @ '' '' @ pr_id r @
            ''  '' @ [CHR 0x40] @ short_rev (pr_revision r)) rs))))"

definition set_enabled_command :: "json_text \<Rightarrow> install_env \<Rightarrow> str \<Rightarrow> bool \<Rightarrow> bool \<Rightarrow> cli_output io" where
  "set_enabled_command J E i on as_json fs =
     (case plugin_store_open E of
        Inl e \<Rightarrow> (fs, Inl e)
      | Inr dir \<Rightarrow>
          (case set_enabled J (pe_store E) fs dir i on of
             (fs', Inl e) \<Rightarrow> (fs', Inl [e])
           | (fs', Inr None) \<Rightarrow> (fs', Inl [''plugin `'' @ i @ ''` is not installed''])
           | (fs', Inr (Some rec)) \<Rightarrow> (fs', Inr (print_result as_json
               (JObj [(''enabled'', JBool (pr_enabled rec)), (''id'', JStr (pr_id rec))])
               ((if on then ''enabled'' else ''disabled'') @ '' `'' @ pr_id rec @ ''`'')))))"

definition remove_content :: "fs \<Rightarrow> str \<Rightarrow> fs" where
  "remove_content fs dir = (case remove_dir_all fs dir of Inr fs' \<Rightarrow> fs' | Inl _ \<Rightarrow> fs)"

definition uninstall :: "json_text \<Rightarrow> install_env \<Rightarrow> str \<Rightarrow> bool \<Rightarrow> cli_output io" where
  \<comment> \<open>a directory that could not be removed is only warned of\<close>
  "uninstall J E i as_json fs =
     (case plugin_store_open E of
        Inl e \<Rightarrow> (fs, Inl e)
      | Inr dir \<Rightarrow>
          (case remove J (pe_store E) fs dir i of
             (fs', Inl e) \<Rightarrow> (fs', Inl [e])
           | (fs', Inr removed) \<Rightarrow>
               if \<not> removed then (fs', Inl [''plugin `'' @ i @ ''` is not installed''])
               else (case and_then (content_of E i) (\<lambda>c. and_then (runtime_of E i) (\<lambda>r. Inr [c, r])) of
                   Inl e \<Rightarrow> (fs', Inl e)
                 | Inr dirs \<Rightarrow> (fold (\<lambda>d f. remove_content f d) dirs fs', Inr (print_result as_json
                     (JObj [(''id'', JStr i), (''removed'', JBool True)]) (''removed `'' @ i @ ''`''))))))"

text \<open>The newest log of a plugin, its last lines.\<close>

definition logs :: "install_env \<Rightarrow> fs \<Rightarrow> str \<Rightarrow> nat \<Rightarrow> failure + cli_output" where
  "logs E fs i lines =
     and_then (logs_of E i) (\<lambda>dir.
     and_then (case read_dir fs dir of
         Some names \<Rightarrow> Inr (filter (\<lambda>p. case metadata fs p of Some (File _ _ _) \<Rightarrow> True | _ \<Rightarrow> False) (map (path_join dir) names))
       | None \<Rightarrow> if stat fs dir = Inl Io_Not_Found then Inr [] else Inl [dir @ '': '' @ pe_error E]) (\<lambda>files.
     let files = sort files
     in if files = [] then Inr (Out_Lines [''No logs for `'' @ i @ ''` yet.''])
        else (let newest = last files; name_of = (\<lambda>p. from_utf8_lossy (last (path_names p)))
              in case read_file fs newest of
                   Inl _ \<Rightarrow> Inl [''reading '' @ newest, pe_error E]
                 | Inr bs \<Rightarrow>
                     if \<not> utf8_valid bs then Inl [''reading '' @ newest, pe_error E]
                     else Inr (Out_Lines ([''logs for `'' @ i @ ''`:''] @ map (\<lambda>p. ''  '' @ name_of p) files @
                       [''--- '' @ name_of newest @ '' ---''] @ rev (take lines (rev (str_lines bs))))))))"

text \<open>A child: the program, its arguments and the file its output is appended to; its exit code, or
  why it could not be started.\<close>

type_synonym spawner = "str \<Rightarrow> str list \<Rightarrow> str \<Rightarrow> fs \<Rightarrow> fs \<times> (str + int option)"

definition open_log :: "install_env \<Rightarrow> str \<Rightarrow> unit io" where
  "open_log E p fs =
     (case stat fs p of
        Inr (File _ _ _) \<Rightarrow> (fs, Inr ())
      | Inl Io_Not_Found \<Rightarrow>
          (case create_new fs p (File [] (se_now (pe_store E)) (pe_mode E)) of
             Inr fs' \<Rightarrow> (fs', Inr ())
           | Inl _ \<Rightarrow> (fs, Inl [''opening '' @ p, pe_error E]))
      | _ \<Rightarrow> (fs, Inl [''opening '' @ p, pe_error E]))"

text \<open>\<open>{:010}\<close>\<close>

definition dec10 :: "nat \<Rightarrow> str" where
  "dec10 n = replicate (10 - length (dec n)) (CHR ''0'') @ dec n"

definition program_of :: "install_env \<Rightarrow> failure + str" where
  \<comment> \<open>the current executable is asked for even when the variable is set\<close>
  "program_of E =
     and_then (ok_or (pe_exe E) [''no current executable'', pe_error E]) (\<lambda>exe.
     Inr (case pe_bin E of Some b \<Rightarrow> if b \<noteq> [] then b else exe | None \<Rightarrow> exe))"

text \<open>What \<open>run\<close> decides before it starts anything: the action of an installed, enabled plugin.\<close>

definition find_action :: "(str \<Rightarrow> str + manifest) \<Rightarrow> json_text \<Rightarrow> install_env \<Rightarrow> str \<Rightarrow> str \<Rightarrow> fs \<Rightarrow> failure + action_spec" where
  "find_action parse J E i name fs =
     and_then (plugin_store_open E) (\<lambda>dir.
     and_then (map_err (\<lambda>e. [e]) (record_of J (pe_store E) fs dir i)) (\<lambda>found.
     and_then (ok_or found [''plugin `'' @ i @ ''` is not installed'']) (\<lambda>rec.
     if \<not> pr_enabled rec
     then Inl [''plugin `'' @ i @ ''` is disabled (run `gpty plugin enable '' @ i @ ''` first)'']
     else
       and_then (content_of E i) (\<lambda>content.
       and_then (read_manifest parse E fs content) (\<lambda>m.
       ok_or (find (\<lambda>a. as_name a = name) (mf_actions m)) [''plugin `'' @ i @ ''` has no action `'' @ name @ ''`''])))))"

definition run_action :: "spawner \<Rightarrow> (int option \<Rightarrow> str) \<Rightarrow> (str \<Rightarrow> str + manifest) \<Rightarrow> json_text \<Rightarrow> install_env \<Rightarrow> str \<Rightarrow> str \<Rightarrow> bool
    \<Rightarrow> fs \<Rightarrow> fs \<times> cli_output list \<times> (failure + unit)" where
  \<comment> \<open>the second parameter is how the system words an exit status\<close>
  "run_action spawn status_text parse J E i name as_json fs =
     (case then_io (\<lambda>fs. (fs, find_action parse J E i name fs)) (\<lambda>spec.
         then_io (pure_io (program_of E)) (\<lambda>bin.
         then_io (pure_io (logs_of E i)) (\<lambda>logs_dir.
         then_io (create_dirs E [''creating '' @ logs_dir] logs_dir) (\<lambda>_.
         let log_path = path_join logs_dir (name @ ''-'' @ dec10 (now_secs (pe_store E)) @ ''.log'')
         in then_io (open_log E log_path) (\<lambda>_ fs.
            case spawn bin (action_argv spec) log_path fs of
              (fs', Inl e) \<Rightarrow> (fs', Inl [''spawning '' @ bin, e])
            | (fs', Inr status) \<Rightarrow> (fs', Inr (status, log_path))))))) fs of
        (fs', Inl e) \<Rightarrow> (fs', [], Inl e)
      | (fs', Inr (status, log_path)) \<Rightarrow>
          (let text_of = (case read_file fs' log_path of Inr bs \<Rightarrow> if utf8_valid bs then bs else [] | Inl _ \<Rightarrow> []);
               ok = (status = Some 0)
           in (fs',
               [if as_json then Out_Json (JObj
                   [(''exit_code'', (case status of Some n \<Rightarrow> JInt n | None \<Rightarrow> JNull)), (''log'', JStr (from_utf8_lossy log_path)),
                    (''output'', JStr text_of), (''success'', JBool ok)])
                else Out_Lines [text_of]],
               if ok then Inr () else Inl [''`'' @ name @ ''` exited with '' @ status_text status])))"

text \<open>An admin action that changed the store tells a running GUI; whether it hears is ignored.\<close>

definition notify_store_changed :: "str \<Rightarrow> str \<Rightarrow> failure + unit \<Rightarrow> (str \<times> json) list \<times> (failure + unit)" where
  "notify_store_changed action i result =
     (case result of
        Inl e \<Rightarrow> ([], Inl e)
      | Inr _ \<Rightarrow> ([(''pluginsChanged'', JObj [(''action'', JStr action), (''id'', JStr i)])], Inr ()))"

section \<open>Steps that keep an invariant\<close>

definition keeps :: "(fs \<Rightarrow> bool) \<Rightarrow> ('a \<Rightarrow> bool) \<Rightarrow> 'a io \<Rightarrow> bool" where
  "keeps P Q m \<longleftrightarrow> (\<forall>fs fs' r. P fs \<and> m fs = (fs', r) \<longrightarrow> P fs' \<and> (\<forall>x. r = Inr x \<longrightarrow> Q x))"

named_theorems keeps_intros

lemma keeps_pure [keeps_intros]: "(\<And>x. r = Inr x \<Longrightarrow> Q x) \<Longrightarrow> keeps P Q (pure_io r)"
  by (simp add: keeps_def pure_io_def)

lemma keeps_read [keeps_intros]: "(\<And>fs x. f fs = Inr x \<Longrightarrow> Q x) \<Longrightarrow> keeps P Q (\<lambda>fs. (fs, f fs))"
  by (auto simp: keeps_def)

lemma keeps_then:
  assumes "keeps P R m" "\<And>x. R x \<Longrightarrow> keeps P Q (k x)"
  shows "keeps P Q (then_io m k)"
  unfolding keeps_def
proof (intro allI impI)
  fix fs fs' r assume a: "P fs \<and> then_io m k fs = (fs', r)"
  then have "then_io m k fs = (fs', r)" by simp
  then show "P fs' \<and> (\<forall>x. r = Inr x \<longrightarrow> Q x)"
  proof (cases rule: then_io_cases)
    case (1 e)
    then show ?thesis using a assms(1) unfolding keeps_def by blast
  next
    case (2 x fs1)
    then have "P fs1" "R x" using a assms(1) unfolding keeps_def by blast+
    then show ?thesis using 2(2) assms(2) unfolding keeps_def by blast
  qed
qed

lemma keepsD: "keeps P Q m \<Longrightarrow> P fs \<Longrightarrow> m fs = (fs', r) \<Longrightarrow> P fs'"
  "keeps P Q m \<Longrightarrow> P fs \<Longrightarrow> m fs = (fs', Inr x) \<Longrightarrow> Q x"
  unfolding keeps_def by blast+

section \<open>Without a verdict nothing happens\<close>

text \<open>What git is taken to do: it works below the directory it is given, leaves the file system well
  formed, and what it makes there is a directory.\<close>

definition git_law :: "git_tool \<Rightarrow> path \<Rightarrow> bool" where
  "git_law G sp \<longleftrightarrow> (\<forall>args fs fs' r. G args fs = (fs', r) \<longrightarrow> same_outside sp fs fs' \<and>
     (fs_ok fs \<longrightarrow> fs_ok fs') \<and> (fs_get fs sp \<in> {None, Some Dir} \<longrightarrow> fs_get fs' sp \<in> {None, Some Dir}))"

definition only_staged :: "path \<Rightarrow> fs \<Rightarrow> fs \<Rightarrow> bool" where
  "only_staged sp fs0 fs \<longleftrightarrow> same_outside sp fs0 fs \<and> fs_ok fs \<and> fs_get fs sp \<in> {None, Some Dir}"

lemma git_only_staged:
  assumes "git_law G sp"
  shows "only_staged sp fs0 fs \<Longrightarrow> G args fs = (fs', r) \<Longrightarrow> only_staged sp fs0 fs'"
  using assms same_outside_trans unfolding git_law_def only_staged_def by metis

lemma keeps_git [keeps_intros]:
  assumes "git_law G sp"
  shows "keeps (only_staged sp fs0) (\<lambda>_. True) (git G args)"
    "keeps (only_staged sp fs0) (\<lambda>_. True) (git_in G dir args)"
    "keeps (only_staged sp fs0) (\<lambda>_. True) (git_in_out G dir args)"
  using git_only_staged [OF assms, of fs0]
  by (fastforce simp: keeps_def git_def git_in_def git_in_out_def split: prod.splits sum.splits)+

lemma keeps_clone:
  assumes "git_law G sp"
  shows "keeps (only_staged sp fs0) (\<lambda>_. True) (clone_ref G target staging)"
  unfolding clone_ref_def
  by (intro keeps_then [OF keeps_git(1) [OF assms]]; cases "it_ref target")
    (auto intro!: keeps_intros keeps_then [OF keeps_git(2) [OF assms]] assms)

lemma keeps_inspect:
  assumes "git_law G sp"
  shows "keeps (only_staged sp fs0) (\<lambda>_. True) (inspect_clone G parse E target platform staging)"
  unfolding inspect_clone_def
  by (rule keeps_then [OF keeps_clone [OF assms]], rule keeps_then [OF keeps_git(3) [OF assms]])
    (rule keeps_then [where R = "\<lambda>_. True"], (rule keeps_intros, simp)+)+

lemma refused_stage:
  assumes "git_law G sp" "\<forall>summary. review_install (call (max REVIEW_TIMEOUT timeout)) summary \<noteq> Inr True"
  shows "keeps (only_staged sp fs0) (\<lambda>s. \<exists>i rev. s = Already (already_message i rev))
    (stage_plugin G call daemon parse J E target platform timeout no_daemon staging)"
proof -
  have refuse: "keeps P Q (then_io (pure_io (review_install (call (max REVIEW_TIMEOUT timeout)) summary))
      (\<lambda>accepted. if \<not> accepted then pure_io (Inl e) else k))" for P Q summary e and k :: "staged io"
    using assms(2) by (intro keeps_then [where R = "\<lambda>b. \<not> b"]) (auto intro!: keeps_pure)
  show ?thesis
    unfolding stage_plugin_def
    apply (rule keeps_then [OF keeps_inspect [OF assms(1)]], clarify)
    apply (rule keeps_then [where R = "\<lambda>_. True"], rule keeps_pure, simp)
    apply (rule keeps_then [where R = "\<lambda>_. True"], rule keeps_read, simp)
    subgoal by (split if_split) (auto intro!: keeps_pure keeps_then [where R = "\<lambda>_. True", OF keeps_pure] refuse)
    done
qed

lemma only_staged_dropped:
  assumes "only_staged sp fs0 fs" "free_below sp fs0" "locate fs0 staging = Some sp"
  shows "fs_get (drop_guard staging fs) = fs_get fs0"
proof -
  have sp: "sp \<noteq> []" using assms(3) by (auto simp: locate_def Let_def split: if_splits option.splits)
  have l: "locate fs staging = Some sp"
    by (rule locate_outside [OF assms(2) _ assms(3)]) (use assms(1) in \<open>simp add: only_staged_def\<close>)
  have same: "fs_get fs q = fs_get fs0 q" if "\<not> prefix sp q" for q
    using that assms(1) by (simp add: only_staged_def same_outside_def)
  show ?thesis
  proof (cases "fs_get fs sp")
    case None
    have "free_below sp fs" using assms(1) None by (intro fs_ok_free) (simp add: only_staged_def)
    then have "fs_get fs q = fs_get fs0 q" for q
      using same assms(2) by (cases "prefix sp q") (auto simp: free_below_def)
    then show ?thesis using None l by (auto simp: drop_guard_def remove_dir_all_def)
  next
    case (Some node)
    then have "node = Dir" using assms(1) by (auto simp: only_staged_def)
    then show ?thesis
      using Some l sp same assms(2) by (auto simp: drop_guard_def remove_dir_all_def fs_get_remove_tree free_below_def)
  qed
qed

lemma refused_install:
  assumes G: "git_law G sp"
    and dir: "pe_data E = Some data" "create_dir_all fs (staging_root data) = (fs1, Inr ())" "fs_ok fs1"
    and sp: "locate fs1 (staging_dir E data) = Some sp" "free_below sp fs1"
    and no: "\<forall>summary. review_install (call (max REVIEW_TIMEOUT timeout)) summary \<noteq> Inr True"
    and run: "install G call daemon parse J E target timeout as_json no_daemon fs = (fs', r)"
  shows "(fs' = fs \<or> fs_get fs' = fs_get fs1) \<and> (\<forall>out. r = Inr out \<longrightarrow> (\<exists>i rev. out = already_message i rev))"
proof (cases "parse_target target")
  case (Inr t)
  show ?thesis
  proof (cases "current_platform (pe_os E)")
    case os: (Inr platform)
    let ?st = "staging_dir E data"
    let ?stage = "stage_plugin G call daemon parse J E t platform timeout no_daemon ?st"
    have inst: "install_staged G call daemon parse J E t platform timeout as_json no_daemon ?st fs1 = (fs', r)"
      using run Inr os dir(1,2)
      by (simp add: install_def then_io_def pure_io_def data_dir_def ok_or_def create_dirs_def)
    have start: "only_staged sp fs1 fs1"
      using dir(3) sp(2) by (simp add: only_staged_def free_below_def)
    show ?thesis
    proof (cases "utf8_valid ?st")
      case False
      then show ?thesis
        using inst only_staged_dropped [OF start sp(2,1)] by (auto simp: install_staged_def)
    next
      case True
      obtain fs2 x where x: "?stage fs1 = (fs2, x)" by fastforce
      have k: "keeps (only_staged sp fs1) (\<lambda>s. \<exists>i rev. s = Already (already_message i rev)) ?stage"
        using G no by (rule refused_stage)
      have "fs_get (drop_guard ?st fs2) = fs_get fs1"
        by (rule only_staged_dropped [OF keepsD(1) [OF k start x] sp(2,1)])
      moreover have "\<exists>i rev. s = Already (already_message i rev)" if "x = Inr s" for s
        using keepsD(2) [OF k start] x that by blast
      ultimately show ?thesis
        using inst True x by (cases x) (fastforce simp: install_staged_def)+
    qed
  qed (use run Inr in \<open>auto simp: install_def then_io_def pure_io_def\<close>)
qed (use run in \<open>auto simp: install_def then_io_def pure_io_def\<close>)

text \<open>C22: C0 (safety).  Nothing is installed without the user's consent: whatever the repository holds
  and whatever git makes of it, when the review does not answer with an accepting verdict - it
  declines, times out, fails or is not there - then after \<open>install\<close> every entry of the file system
  is what it was before (but for the staging root, which may have been created), and the only
  success it reports is that this very revision was already installed.  The one thing relied on is
  that git writes below the directory it is given, a name nothing else uses.\<close>

theorem refused_install_leaves_no_trace:
  assumes "git_law G sp"
    and "pe_data E = Some data" "create_dir_all fs (staging_root data) = (fs1, Inr ())" "fs_ok fs1"
    and "locate fs1 (staging_dir E data) = Some sp" "free_below sp fs1"
    and "\<forall>summary. review_install (call (max REVIEW_TIMEOUT timeout)) summary \<noteq> Inr True"
    and "install G call daemon parse J E target timeout as_json no_daemon fs = (fs', r)"
  shows "(fs' = fs \<or> fs_get fs' = fs_get fs1) \<and> (\<forall>out. r = Inr out \<longrightarrow> (\<exists>i rev. out = already_message i rev))"
  using assms by (rule refused_install)

text \<open>A clone that holds a manifest, and a dialog that declines.\<close>

definition demo_clone :: path where
  "demo_clone = [''d'', ''staging'', ''staging-0'']"

definition demo_git :: git_tool where
  "demo_git args fs =
     (if hd args = ''clone'' \<and> fs_get fs [''d'', ''staging''] = Some Dir \<and> fs_get fs demo_clone = None \<and>
         fs_get fs (demo_clone @ [MANIFEST_FILENAME]) = None
      then (fs_put (demo_clone @ [MANIFEST_FILENAME]) (File ''x'' 0 0) (fs_put demo_clone Dir fs),
            Inr \<lparr>go_success = True, go_stdout = [], go_stderr = []\<rparr>)
      else (fs, Inr \<lparr>go_success = True, go_stdout = ''0123456789abcdef'', go_stderr = []\<rparr>))"

lemma demo_git_law: "git_law demo_git demo_clone"
  unfolding git_law_def
proof (intro allI impI)
  fix args fs fs' r assume g: "demo_git args fs = (fs', r)"
  have names: "list_all good_name demo_clone" "list_all good_name (demo_clone @ [MANIFEST_FILENAME])" by code_simp+
  have [simp]: "demo_clone \<noteq> []" "butlast demo_clone = [''d'', ''staging'']" by (simp_all add: demo_clone_def)
  show "same_outside demo_clone fs fs' \<and> (fs_ok fs \<longrightarrow> fs_ok fs') \<and>
      (fs_get fs demo_clone \<in> {None, Some Dir} \<longrightarrow> fs_get fs' demo_clone \<in> {None, Some Dir})"
  proof (cases "fs' = fs")
    case False
    then have c: "fs_get fs [''d'', ''staging''] = Some Dir" "fs_get fs (demo_clone @ [MANIFEST_FILENAME]) = None"
      "fs' = fs_put (demo_clone @ [MANIFEST_FILENAME]) (File ''x'' 0 0) (fs_put demo_clone Dir fs)"
      using g by (auto simp: demo_git_def split: if_splits)
    moreover have "fs_ok fs'" if "fs_ok fs"
      unfolding c(3) using that c(1,2) names
      by (intro fs_ok_put) (auto simp: fs_get_put butlast_append)
    ultimately show ?thesis
      by (auto simp: same_outside_def fs_get_put prefix_def)
  qed simp
qed

definition demo_env :: install_env where
  "demo_env = \<lparr>pe_staging = ''0'', pe_old = ''1'', pe_rename_ok = (\<lambda>_. True), pe_error = ''os error'',
     pe_store = \<lparr>se_suffix = ''2'', se_now = 0, se_write_ok = True, se_rename_ok = True, se_error = []\<rparr>,
     pe_data = Some ''/d'', pe_state = Some ''/s'', pe_os = ''linux'', pe_current = \<lparr>sv_major = 1, sv_minor = 0, sv_patch = 0\<rparr>,
     pe_bin = None, pe_exe = Some ''/gpty'', pe_mode = 0\<rparr>"

definition tiny_manifest :: manifest where
  "tiny_manifest = \<lparr>mf_id = ''acme/tools'', mf_name = ''T'', mf_version = pe_current demo_env, mf_min_version = pe_current demo_env,
     mf_platforms = [Linux], mf_build = [], mf_startup = [], mf_actions = [], mf_events = [], mf_link_handlers = [],
     mf_concepts = [], mf_profiles = []\<rparr>"

definition answering :: "bool \<Rightarrow> client" where
  "answering b n method params = Inr \<lparr>rs_jsonrpc = ''2.0'', rs_id = 1, rs_result = Some (JObj [(''accepted'', JBool b)]), rs_error = None\<rparr>"

definition demo_disk :: fs where
  "demo_disk = [([''d''], Dir), ([''s''], Dir)]"

abbreviation demo_install :: "bool \<Rightarrow> fs \<times> (failure + cli_output)" where
  "demo_install accept \<equiv> install demo_git (answering accept) (\<lambda>_. Inr ()) (\<lambda>_. Inr tiny_manifest) unary_text demo_env
     ''acme/tools'' 0 False False demo_disk"

theorem refused_install_leaves_no_trace_witness:
  "(fst (demo_install False) = demo_disk \<or> fs_get (fst (demo_install False)) = fs_get (fs_put [''d'', ''staging''] Dir demo_disk)) \<and>
     snd (demo_install False) = Inl [''install declined'']"
proof -
  have made: "create_dir_all demo_disk (staging_root ''/d'') = (fs_put [''d'', ''staging''] Dir demo_disk, Inr ())" by code_simp
  have ok: "fs_ok (fs_put [''d'', ''staging''] Dir demo_disk)" by code_simp
  have at: "locate (fs_put [''d'', ''staging''] Dir demo_disk) (staging_dir demo_env ''/d'') = Some demo_clone" by code_simp
  have free: "free_below demo_clone (fs_put [''d'', ''staging''] Dir demo_disk)"
    by (auto simp: free_below_def demo_clone_def demo_disk_def fs_put_def fs_get_def prefix_def)
  have no: "\<forall>summary. review_install (answering False (max REVIEW_TIMEOUT 0)) summary \<noteq> Inr True"
    by (simp add: review_install_def answering_def)
  have "snd (demo_install False) = Inl [''install declined'']" by code_simp
  moreover have "pe_data demo_env = Some ''/d''" by (simp add: demo_env_def)
  note refused_install_leaves_no_trace [where call = "answering False" and timeout = 0, OF demo_git_law this made ok at free no]
  from this [OF prod.collapse [symmetric]]
  have "fst (demo_install False) = demo_disk \<or> fs_get (fst (demo_install False)) = fs_get (fs_put [''d'', ''staging''] Dir demo_disk)"
    by (rule conjunct1)
  ultimately show ?thesis by simp
qed

section \<open>The move\<close>

text \<open>An entry's place: the string that names it, below directories only.\<close>

definition placed :: "fs \<Rightarrow> str \<Rightarrow> path \<Rightarrow> bool" where
  "placed fs s p \<longleftrightarrow> absolute s \<and> os_comps s = p \<and> p \<noteq> [] \<and> list_all good_name p \<and> dirs_to fs (butlast p)"

lemma placed_locate: "placed fs s p \<Longrightarrow> locate fs s = Some p"
  using locate_plain [of s "butlast p" "last p" fs] by (simp add: placed_def)

lemma placed_metadata: "placed fs s p \<Longrightarrow> \<not> is_link (fs_get fs p) \<Longrightarrow> metadata fs s = fs_get fs p"
  using metadata_plain [of s "butlast p" "last p" fs] by (simp add: placed_def)

lemma placed_move:
  assumes "placed fs s r" "\<not> prefix p q" "\<not> prefix q p" "\<not> strict_prefix p r" "\<not> strict_prefix q r"
  shows "placed (move_tree p q fs) s r"
proof -
  have "strict_prefix x r" if "prefix x (butlast r)" for x
    using that assms(1) by (cases r rule: rev_cases) (auto simp: placed_def strict_prefix_def)
  then show ?thesis using assms by (auto simp: placed_def intro!: dirs_to_move)
qed

definition apart :: "path \<Rightarrow> path \<Rightarrow> bool" where
  "apart p q \<longleftrightarrow> \<not> prefix p q \<and> \<not> prefix q p"

lemma apartD: "apart p q \<Longrightarrow> \<not> prefix p q" "apart p q \<Longrightarrow> \<not> prefix q p"
  "apart p q \<Longrightarrow> \<not> strict_prefix p q" "apart p q \<Longrightarrow> \<not> strict_prefix q p" "apart p q \<Longrightarrow> \<not> prefix p (q @ t)"
  "apart p q \<Longrightarrow> \<not> prefix q (p @ t)"
  unfolding apart_def by (auto simp: strict_prefix_def prefix_append dest: prefix_same_cases prefixI)

lemma swap_in_spec:
  assumes at: "placed fs staging s" "placed fs dest q" "placed fs old b"
    and ap: "apart s q" "apart s b" "apart q b"
    and entries: "fs_get fs s = Some Dir" "fs_get fs q \<in> {None, Some Dir}" "fs_get fs b = None"
    and run: "swap_in E staging dest old fs = (fs', r)"
  shows "if fs_get fs q = None
    then (if pe_rename_ok E 0 then r = Inr () \<and> fs' = move_tree s q fs else isl r \<and> fs' = fs)
    else if \<not> pe_rename_ok E 1 then isl r \<and> fs' = fs
    else if pe_rename_ok E 2 then r = Inr () \<and> fs' = remove_tree b (move_tree s q (move_tree q b fs))
    else isl r \<and> fs' = (if pe_rename_ok E 3 then move_tree b q (move_tree q b fs) else move_tree q b fs)"
proof -
  let ?f1 = "move_tree q b fs" let ?f2 = "move_tree s q ?f1"
  note l = at [THEN placed_locate] and a = apartD [OF ap(1)] apartD [OF ap(2)] apartD [OF ap(3)]
  have m: "metadata fs dest = fs_get fs q" using at(2) entries(2) by (intro placed_metadata) (auto simp: is_link_def)
  have at1: "placed ?f1 staging s" "placed ?f1 dest q" "placed ?f1 old b"
    using at a by (auto intro!: placed_move simp: strict_prefix_def)
  have g1: "fs_get ?f1 s = Some Dir" "fs_get ?f1 q = None" "fs_get ?f1 b = fs_get fs q"
    using entries(1) a by (simp_all add: fs_get_move)
  have r0: "rename_entry fs staging dest = Inr (move_tree s q fs)" if "fs_get fs q = None"
    using l entries(1) that a by (intro rename_entry_free) auto
  have r1: "rename_entry fs dest old = Inr ?f1" if "fs_get fs q = Some Dir"
    using l entries(3) that a by (intro rename_entry_free) auto
  have r2: "rename_entry ?f1 staging dest = Inr ?f2"
    using at1 [THEN placed_locate] g1 a by (intro rename_entry_free) auto
  have r3: "rename_entry ?f1 old dest = Inr (move_tree b q ?f1)" if "fs_get fs q = Some Dir"
    using at1 [THEN placed_locate] g1 a that by (intro rename_entry_free) auto
  have "placed ?f2 old b" using at1 a by (auto intro!: placed_move)
  moreover have "fs_get ?f2 b = fs_get fs q" using g1(3) a by (simp add: fs_get_move)
  ultimately have "remove_dir_all ?f2 old = Inr (remove_tree b ?f2)" if "fs_get fs q = Some Dir"
    using that by (simp add: remove_dir_all_def placed_locate)
  then show ?thesis
    using run entries(2) r0 r1 r2 r3 by (auto simp: swap_in_def m rename_as_def split: if_splits)
qed

lemma valid_id_path:
  assumes "valid_plugin_id i"
  obtains a b where "i = a @ CHR ''/'' # b" "good_name a" "good_name b" "path_names i = [a, b]" "os_comps i = [a, b]"
    "\<not> absolute i" "i \<noteq> []" "a \<noteq> old_name E i" "CHR ''/'' \<notin> set a" "CHR ''/'' \<notin> set b"
proof -
  obtain a b where s: "split_once (CHR ''/'') i = Some (a, b)" and ab: "a \<noteq> []" "b \<noteq> []" "id_part a" "id_part b"
    using assms by (auto simp: valid_plugin_id_def split: option.splits)
  have i: "i = a @ CHR ''/'' # b" using s by (simp add: split_once_Some)
  have chars: "c \<noteq> CHR ''/'' \<and> c \<noteq> CHR ''.''" if "c \<in> set a \<union> set b" for c
    using that ab(3,4) by (auto simp: id_part_def list_all_iff is_lower_def is_digit_def code_def)
  moreover from this have "CHR ''.'' \<notin> set a" "CHR ''.'' \<notin> set b" by auto
  ultimately have good: "good_name a" "good_name b" using ab(1,2) by (auto simp: good_name_def)
  have names: "path_names i = [a, b]" using i good by (simp add: path_names_slash good_name_path)
  moreover have "os_comps i = [a, b]"
    using names good_name_path [OF good(2)] chars split_slash_append [of a b] ab(2)
    by (auto simp: os_comps_def i split_slash_no_slash)
  moreover have "\<not> absolute i" using i ab(1) chars by (cases a) (auto simp: absolute_def)
  moreover have "a \<noteq> old_name E i" using chars [of "CHR ''.''"] by (auto simp: old_name_def)
  ultimately show ?thesis using that i good ab chars by blast
qed

lemma parent_dir_join: "CHR ''/'' \<notin> set b \<Longrightarrow> x \<noteq> [] \<Longrightarrow> parent_dir (x @ CHR ''/'' # b) = x"
proof -
  assume a: "CHR ''/'' \<notin> set b" "x \<noteq> []"
  then have "dropWhile (\<lambda>c. c \<noteq> CHR ''/'') (rev b) = []" by auto
  then show ?thesis using a(2) by (simp add: parent_dir_def dropWhile_append Let_def)
qed

lemma create_dirs_plain:
  assumes "fs_ok fs" "absolute s" "list_all good_name (path_names s)" "no_links_to fs (path_names s)" "create_dirs E c s fs = (fs', r)"
  shows "fs_ok fs' \<and> grown (path_names s) fs fs' \<and> (r = Inr () \<longrightarrow> dirs_to fs' (path_names s))"
proof -
  obtain x where m: "make_dirs fs [] (path_names s) = (fs', x)" and r: "r = Inr () \<Longrightarrow> x = Inr ()"
    using assms(2,5) by (auto simp: create_dirs_def create_dir_all_def split: prod.splits sum.splits)
  have "fs_ok fs' \<and> grown ([] @ path_names s) fs fs' \<and> (x = Inr () \<longrightarrow> dirs_to fs' ([] @ path_names s))"
    by (rule make_dirs_plain [OF _ _ _ _ m]) (use assms in \<open>simp_all add: dirs_to_def\<close>)
  then show ?thesis using r by simp
qed

lemma grown_wider: "grown d fs fs' \<Longrightarrow> prefix d d' \<Longrightarrow> grown d' fs fs'"
  unfolding grown_def by (meson prefix_order.trans)

lemma grown_trans: "grown d fs fs1 \<Longrightarrow> grown d fs1 fs2 \<Longrightarrow> grown d fs fs2"
  unfolding grown_def by metis

lemma grown_get: "grown d fs fs' \<Longrightarrow> \<not> prefix p d \<Longrightarrow> fs_get fs' p = fs_get fs p"
  unfolding grown_def by metis

lemma placedI:
  assumes "absolute dir" "path_names dir = d" "list_all good_name (d @ cs)" "\<not> absolute rel" "rel \<noteq> []" "os_comps rel = cs"
    "cs \<noteq> []" "dirs_to fs (butlast (d @ cs))"
  shows "placed fs (path_join dir rel) (d @ cs)"
  using assms by (simp add: placed_def absolute_join os_comps_join)

text \<open>The places of an install: the clone, its destination and the name an old version is moved to.\<close>

definition clone_at :: "install_env \<Rightarrow> str \<Rightarrow> path" where
  "clone_at E data = path_names data @ [''staging'', ''staging-'' @ pe_staging E]"

definition content_at :: "str \<Rightarrow> str \<Rightarrow> path" where
  "content_at data i = path_names data @ ''plugins'' # path_names i"

definition old_at :: "install_env \<Rightarrow> str \<Rightarrow> str \<Rightarrow> path" where
  "old_at E data i = path_names data @ [''plugins'', old_name E i]"

lemma apart_append [simp]: "apart (p @ x) (p @ y) = apart x y"
  by (simp add: apart_def)

lemma apart_Cons: "apart (a # x) (b # y) \<longleftrightarrow> (a \<noteq> b \<or> apart x y)"
  by (auto simp: apart_def)

lemma places_apart:
  assumes "valid_plugin_id i"
  shows "apart (clone_at E data) (content_at data i)" "apart (clone_at E data) (old_at E data i)"
    "apart (content_at data i) (old_at E data i)"
proof -
  obtain a b where "path_names i = [a, b]" "a \<noteq> old_name E i" by (rule valid_id_path [OF assms, where E = E])
  then show "apart (clone_at E data) (content_at data i)" "apart (clone_at E data) (old_at E data i)"
    "apart (content_at data i) (old_at E data i)"
    by (simp_all add: clone_at_def content_at_def old_at_def apart_Cons)
qed

lemma move_prepared:
  assumes ok: "fs_ok fs" and data: "absolute data" "list_all good_name (path_names data)"
    and names: "CHR ''/'' \<notin> set (pe_staging E)" "CHR ''/'' \<notin> set (pe_old E)" "valid_plugin_id i"
    and clone: "fs_get fs (clone_at E data) = Some Dir"
    and links: "no_links_to fs (content_at data i)"
    and run: "move_staged_into E (path_join data ''plugins'') (staging_dir E data) i fs = (fs', r)"
  shows "\<exists>fs1 old dest. grown (butlast (content_at data i)) fs fs1 \<and> (isl r \<and> fs' = fs1 \<or>
    swap_in E (staging_dir E data) dest old fs1 = (fs', r) \<and> placed fs1 (staging_dir E data) (clone_at E data) \<and>
    placed fs1 dest (content_at data i) \<and> placed fs1 old (old_at E data i))"
proof -
  obtain a b where i: "i = a @ CHR ''/'' # b" "good_name a" "good_name b" "path_names i = [a, b]" "os_comps i = [a, b]"
    "\<not> absolute i" "i \<noteq> []" "CHR ''/'' \<notin> set a" "CHR ''/'' \<notin> set b"
    by (rule valid_id_path [OF names(3)])
  let ?root = "path_join data ''plugins''" let ?D = "path_names data @ [''plugins'']"
  let ?dest = "path_join ?root i" let ?old = "path_join ?root (old_name E i)"
  have lit: "good_name ''plugins''" "good_name ''staging''" by (simp_all add: good_name_def)
  have on: "good_name (old_name E i)" using names(2) by (auto simp: old_name_def good_name_def)
  have sn: "good_name (''staging-'' @ pe_staging E)" using names(1) by (auto simp: good_name_def)
  have root: "absolute ?root" "path_names ?root = ?D" "list_all good_name ?D"
    using data good_name_path [OF lit(1)] lit by (simp_all add: absolute_join path_names_join)
  have "?dest = (?root @ CHR ''/'' # a) @ CHR ''/'' # b"
    using i(6) by (auto simp: path_join_def [of _ i] i(1)) (auto simp: path_join_def absolute_def)
  then have par: "parent_dir ?dest = ?root @ CHR ''/'' # a" using parent_dir_join [OF i(9), of "?root @ CHR ''/'' # a"] by simp
  have par': "absolute (?root @ CHR ''/'' # a)" "path_names (?root @ CHR ''/'' # a) = ?D @ [a]"
    using root i(2) by (auto simp: absolute_def path_names_slash good_name_path split: list.splits)
  have q: "content_at data i = ?D @ [a, b]" using i(4) by (simp add: content_at_def)
  have links': "no_links_to fs (?D @ [a])" "no_links_to fs ?D"
    using links prefix_order.trans [of _ "?D @ [a]" "?D @ [a, b]"] prefix_order.trans [of _ ?D "?D @ [a, b]"]
    unfolding q no_links_to_def by simp_all
  obtain f0 r0 where c0: "create_dirs E [''creating '' @ ?root] ?root fs = (f0, r0)" by fastforce
  note p0 = create_dirs_plain [OF ok root(1), unfolded root(2), OF root(3) links'(2) c0]
  have g0: "grown (?D @ [a]) fs f0"
    using p0 grown_wider [of ?D fs f0 "?D @ [a]"] by simp
  show ?thesis
  proof (cases r0)
    case Inl
    then show ?thesis using run c0 g0 by (auto simp: move_staged_into_def then_io_def Let_def q butlast_append)
  next
    case (Inr u)
    obtain f1 r1 where c1: "create_dirs E [''creating '' @ parent_dir ?dest] (parent_dir ?dest) f0 = (f1, r1)" by fastforce
    have nl0: "no_links_to f0 (?D @ [a])" by (rule grown_no_links [OF g0 links'(1)])
    note p1 = create_dirs_plain [OF conjunct1 [OF p0] par'(1), unfolded par'(2), OF _ nl0, of E "[''creating '' @ parent_dir ?dest]" f1 r1]
    have p1: "fs_ok f1 \<and> grown (?D @ [a]) f0 f1 \<and> (r1 = Inr () \<longrightarrow> dirs_to f1 (?D @ [a]))"
      by (rule p1) (use root(3) i(2) c1 par in simp_all)
    have g1: "grown (?D @ [a]) fs f1"
      using grown_trans [OF g0] p1 by simp
    show ?thesis
    proof (cases r1)
      case r1: Inl
      then show ?thesis using run c0 c1 Inr g1 by (auto simp: move_staged_into_def then_io_def Let_def q butlast_append)
    next
      case r1: (Inr u')
      then have d1: "dirs_to f1 (?D @ [a])" using p1 by simp
      have "fs_get f1 (clone_at E data) = Some Dir"
        using grown_get [OF g1] clone by (simp add: clone_at_def)
      then have "fs_get f1 (butlast (clone_at E data)) = Some Dir" using p1 by (intro fs_ok_parent) simp_all
      then have "dirs_to f1 (butlast (clone_at E data))" using p1 by (intro fs_ok_dirs_to) simp_all
      then have ds: "dirs_to f1 (path_names data @ [''staging''])" by (simp add: clone_at_def butlast_append)
      have dD: "dirs_to f1 ?D" using d1 prefix_order.trans [of _ ?D "?D @ [a]"] by (simp add: dirs_to_def)
      have st: "staging_dir E data = path_join (path_join data ''staging'') (''staging-'' @ pe_staging E)"
        by (simp add: staging_dir_def staging_root_def)
      have "placed f1 (staging_dir E data) ((path_names data @ [''staging'']) @ [''staging-'' @ pe_staging E])"
        unfolding st
        using data lit(2) sn ds good_name_path [OF sn] good_name_path [OF lit(2)]
        by (intro placedI) (simp_all add: absolute_join path_names_join butlast_append)
      moreover have "placed f1 ?dest (?D @ [a, b])"
        using root i d1 by (intro placedI) (simp_all add: butlast_append)
      moreover have "placed f1 ?old (?D @ [old_name E i])"
        using root on dD good_name_path [OF on] by (intro placedI) (simp_all add: butlast_append)
      moreover have "swap_in E (staging_dir E data) ?dest ?old f1 = (fs', r)"
        using run c0 c1 Inr r1 by (simp add: move_staged_into_def then_io_def Let_def)
      ultimately show ?thesis using g1 by (auto simp: q butlast_append clone_at_def old_at_def)
    qed
  qed
qed

text \<open>A directory with all that is below it.\<close>

definition tree_at :: "fs \<Rightarrow> path \<Rightarrow> path \<Rightarrow> fnode option" where
  "tree_at fs p t = fs_get fs (p @ t)"

lemma apart_sym: "apart p q \<Longrightarrow> apart q p"
  by (simp add: apart_def)

lemma tree_move:
  assumes "apart p q"
  shows "tree_at (move_tree p q fs) q = tree_at fs p" "tree_at (move_tree p q fs) p = (\<lambda>_. None)"
    "apart p r \<Longrightarrow> apart q r \<Longrightarrow> tree_at (move_tree p q fs) r = tree_at fs r"
    "\<not> prefix p x \<Longrightarrow> \<not> prefix q x \<Longrightarrow> fs_get (move_tree p q fs) x = fs_get fs x"
  using assms apartD [of p r] apartD [of q r] apartD [of p q]
  by (auto simp: tree_at_def fs_get_move fun_eq_iff)

lemma tree_remove:
  assumes "p \<noteq> []"
  shows "tree_at (remove_tree p fs) p = (\<lambda>_. None)" "apart p r \<Longrightarrow> tree_at (remove_tree p fs) r = tree_at fs r"
    "\<not> prefix p x \<Longrightarrow> fs_get (remove_tree p fs) x = fs_get fs x"
  using assms apartD [of p r] by (auto simp: tree_at_def fs_get_remove_tree fun_eq_iff)

lemma free_tree: "fs_ok fs \<Longrightarrow> fs_get fs p = None \<Longrightarrow> tree_at fs p = (\<lambda>_. None)"
  using fs_ok_free [of fs p] by (auto simp: free_below_def tree_at_def fun_eq_iff)

text \<open>What a swap does, in terms of the three trees \<open>s\<close>, \<open>q\<close> and \<open>b\<close>.\<close>

definition swapped :: "fs \<Rightarrow> fs \<Rightarrow> path \<Rightarrow> path \<Rightarrow> path \<Rightarrow> bool" where
  "swapped fs fs' s q b \<longleftrightarrow> tree_at fs' q = tree_at fs s \<and> tree_at fs' s = (\<lambda>_. None) \<and> tree_at fs' b = (\<lambda>_. None)"

definition kept :: "install_env \<Rightarrow> fs \<Rightarrow> fs \<Rightarrow> path \<Rightarrow> path \<Rightarrow> path \<Rightarrow> bool" where
  "kept E fs fs' s q b \<longleftrightarrow> tree_at fs' s = tree_at fs s \<and>
     (tree_at fs' q = tree_at fs q \<or> \<not> pe_rename_ok E 2 \<and> \<not> pe_rename_ok E 3 \<and> tree_at fs' b = tree_at fs q)"

lemma swap_in_trees:
  assumes at: "placed fs staging s" "placed fs dest q" "placed fs old b"
    and ap: "apart s q" "apart s b" "apart q b"
    and entries: "fs_get fs s = Some Dir" "fs_get fs q \<in> {None, Some Dir}" "tree_at fs b = (\<lambda>_. None)"
    and run: "swap_in E staging dest old fs = (fs', r)"
  shows "(if isl r then kept E fs fs' s q b else swapped fs fs' s q b) \<and>
    (\<forall>x. \<not> prefix s x \<and> \<not> prefix q x \<and> \<not> prefix b x \<longrightarrow> fs_get fs' x = fs_get fs x)"
proof -
  have "tree_at fs b [] = None" using entries(3) by simp
  then have b: "fs_get fs b = None" by (simp add: tree_at_def)
  note spec = swap_in_spec [OF at ap entries(1,2) b run]
  have nb: "b \<noteq> []" using at(3) by (simp add: placed_def)
  note ap' = ap ap [THEN apart_sym]
  let ?f1 = "move_tree q b fs"
  consider "isl r" "fs' = fs" | "isl r" "fs' = ?f1" "\<not> pe_rename_ok E 2" "\<not> pe_rename_ok E 3"
    | "isl r" "fs' = move_tree b q ?f1" | "\<not> isl r" "fs' = move_tree s q fs"
    | "\<not> isl r" "fs' = remove_tree b (move_tree s q ?f1)"
    using spec by (auto split: if_splits)
  then show ?thesis
  proof cases
    case 2
    then show ?thesis using ap' by (simp add: kept_def tree_move)
  next
    case 3
    then show ?thesis using ap' by (simp add: kept_def tree_move)
  next
    case 4
    then show ?thesis using ap' entries(3) by (simp add: swapped_def tree_move)
  next
    case 5
    then show ?thesis using ap' nb by (simp add: swapped_def tree_move tree_remove)
  qed (simp add: kept_def)
qed

text \<open>The content moved, or all of it is where it was - or, when a second rename has failed after the
  first, under the name the old version was moved to.  \<open>created\<close> are the directories on the way.\<close>

definition created :: "path \<Rightarrow> fs \<Rightarrow> fs \<Rightarrow> path \<Rightarrow> bool" where
  "created q fs fs' x \<longleftrightarrow> fs_get fs x = None \<and> fs_get fs' x = Some Dir \<and> strict_prefix x q"

lemma move_trees:
  assumes ok: "fs_ok fs" and E: "pe_data E = Some data"
    and data: "absolute data" "list_all good_name (path_names data)"
    and names: "CHR ''/'' \<notin> set (pe_staging E)" "CHR ''/'' \<notin> set (pe_old E)" "valid_plugin_id i"
    and clone: "fs_get fs (clone_at E data) = Some Dir"
    and dest: "no_links_to fs (content_at data i)" "fs_get fs (content_at data i) \<in> {None, Some Dir}"
    and old: "fs_get fs (old_at E data i) = None"
    and run: "move_into_place E (staging_dir E data) i fs = (fs', r)"
  shows "(if isl r then kept E fs fs' (clone_at E data) (content_at data i) (old_at E data i)
      else swapped fs fs' (clone_at E data) (content_at data i) (old_at E data i)) \<and>
    (\<forall>x. \<not> prefix (clone_at E data) x \<and> \<not> prefix (content_at data i) x \<and> \<not> prefix (old_at E data i) x \<longrightarrow>
      fs_get fs' x = fs_get fs x \<or> created (content_at data i) fs fs' x)"
proof -
  let ?s = "clone_at E data" let ?q = "content_at data i" let ?b = "old_at E data i"
  have run': "move_staged_into E (path_join data ''plugins'') (staging_dir E data) i fs = (fs', r)"
    using run E by (simp add: move_into_place_def content_root_def data_dir_def then_io_def pure_io_def ok_or_def)
  obtain f1 oldn destn where g: "grown (butlast ?q) fs f1"
    and f1: "isl r \<and> fs' = f1 \<or> swap_in E (staging_dir E data) destn oldn f1 = (fs', r) \<and>
      placed f1 (staging_dir E data) ?s \<and> placed f1 destn ?q \<and> placed f1 oldn ?b"
    using move_prepared [OF ok data names clone dest(1) run'] by blast
  note ap = places_apart [OF names(3), where E = E and data = data]
  obtain a c where i: "path_names i = [a, c]" "a \<noteq> old_name E i" by (rule valid_id_path [OF names(3), where E = E])
  have bq: "butlast ?q = path_names data @ [''plugins'', a]" by (simp add: content_at_def i butlast_append)
  have same: "tree_at f1 ?s = tree_at fs ?s" "tree_at f1 ?q = tree_at fs ?q" "tree_at f1 ?b = tree_at fs ?b"
    using grown_get [OF g [unfolded bq]] i(2) i(2) [symmetric] by (auto simp: fun_eq_iff tree_at_def clone_at_def content_at_def old_at_def i)
  then have root: "fs_get f1 ?s = fs_get fs ?s" "fs_get f1 ?q = fs_get fs ?q"
    by (metis append.right_neutral tree_at_def)+
  have made: "fs_get f1 x = fs_get fs x \<or> created ?q fs f1 x" for x
  proof -
    have "strict_prefix x ?q" if "prefix x (butlast ?q)"
      using that prefix_order.trans [of x "butlast ?q" ?q] by (auto simp: strict_prefix_def content_at_def i butlast_append dest: prefix_length_le)
    then show ?thesis using g unfolding grown_def created_def by blast
  qed
  show ?thesis
  proof (cases "isl r \<and> fs' = f1")
    case True
    then show ?thesis using same made by (auto simp: kept_def)
  next
    case False
    then have s: "swap_in E (staging_dir E data) destn oldn f1 = (fs', r)"
      "placed f1 (staging_dir E data) ?s" "placed f1 destn ?q" "placed f1 oldn ?b" using f1 by blast+
    have "tree_at f1 ?b = (\<lambda>_. None)" using same(3) free_tree [OF ok old] by simp
    note t = swap_in_trees [OF s(2-4) ap clone [folded root(1)] dest(2) [folded root(2)] this s(1)]
    then show ?thesis
      using made by (auto simp: kept_def swapped_def same created_def split: if_splits)
  qed
qed

text \<open>C23: C0 (safety).  Moving a reviewed clone into place is all or nothing: if \<open>move_into_place\<close> reports
  success, the plugin's content directory holds exactly what the clone held and the clone and the
  old version are gone; if it fails, the clone is still there and the installed version is where it
  was, or - when the rename of the new content and the rename that should undo the first both fail -
  complete under the name it was moved to.  Nothing else in the file system changes but for the
  directories on the way to the content, which may be new.\<close>

theorem move_is_all_or_nothing:
  assumes "fs_ok fs" "pe_data E = Some data" "absolute data" "list_all good_name (path_names data)"
    and "CHR ''/'' \<notin> set (pe_staging E)" "CHR ''/'' \<notin> set (pe_old E)" "valid_plugin_id i"
    and "fs_get fs (clone_at E data) = Some Dir"
    and "no_links_to fs (content_at data i)" "fs_get fs (content_at data i) \<in> {None, Some Dir}"
    and "fs_get fs (old_at E data i) = None"
    and "move_into_place E (staging_dir E data) i fs = (fs', r)"
  shows "(if isl r then kept E fs fs' (clone_at E data) (content_at data i) (old_at E data i)
      else swapped fs fs' (clone_at E data) (content_at data i) (old_at E data i)) \<and>
    (\<forall>x. \<not> prefix (clone_at E data) x \<and> \<not> prefix (content_at data i) x \<and> \<not> prefix (old_at E data i) x \<longrightarrow>
      fs_get fs' x = fs_get fs x \<or> created (content_at data i) fs fs' x)"
  using assms by (rule move_trees)

definition upgrade_disk :: fs where
  "upgrade_disk = [([''d''], Dir), ([''d'', ''staging''], Dir), ([''d'', ''staging'', ''staging-0''], Dir),
     ([''d'', ''staging'', ''staging-0'', ''new''], File ''n'' 0 0), ([''d'', ''plugins''], Dir), ([''d'', ''plugins'', ''acme''], Dir),
     ([''d'', ''plugins'', ''acme'', ''tools''], Dir), ([''d'', ''plugins'', ''acme'', ''tools'', ''was''], File ''w'' 0 0)]"

abbreviation "upgrade \<equiv> move_into_place demo_env (staging_dir demo_env ''/d'') ''acme/tools'' upgrade_disk"

theorem move_is_all_or_nothing_witness:
  "swapped upgrade_disk (fst upgrade) (clone_at demo_env ''/d'') (content_at ''/d'' ''acme/tools'') (old_at demo_env ''/d'' ''acme/tools'') \<and>
     fs_get upgrade_disk [''d'', ''staging'', ''staging-0'', ''new''] = Some (File ''n'' 0 0)"
proof -
  have ok: "fs_ok upgrade_disk" by code_simp
  have E: "pe_data demo_env = Some ''/d''" by (simp add: demo_env_def)
  have data: "absolute ''/d''" "list_all good_name (path_names ''/d'')" by code_simp+
  have names: "CHR ''/'' \<notin> set (pe_staging demo_env)" "CHR ''/'' \<notin> set (pe_old demo_env)" "valid_plugin_id ''acme/tools''"
    by code_simp+
  have clone: "fs_get upgrade_disk (clone_at demo_env ''/d'') = Some Dir" by code_simp
  have at: "content_at ''/d'' ''acme/tools'' = [''d'', ''plugins'', ''acme'', ''tools'']" by code_simp
  have links: "no_links_to upgrade_disk (content_at ''/d'' ''acme/tools'')"
    by (simp add: no_links_to_def at upgrade_disk_def fs_get_def is_link_def)
  have dest: "fs_get upgrade_disk (content_at ''/d'' ''acme/tools'') \<in> {None, Some Dir}" by code_simp
  have old: "fs_get upgrade_disk (old_at demo_env ''/d'' ''acme/tools'') = None" by code_simp
  have r: "\<not> isl (snd upgrade)" by code_simp
  note move_is_all_or_nothing [OF ok E data names clone links dest old prod.collapse [symmetric]]
  from this [THEN conjunct1] r have "swapped upgrade_disk (fst upgrade) (clone_at demo_env ''/d'') (content_at ''/d'' ''acme/tools'')
      (old_at demo_env ''/d'' ''acme/tools'')" by simp
  moreover have "fs_get upgrade_disk [''d'', ''staging'', ''staging-0'', ''new''] = Some (File ''n'' 0 0)" by code_simp
  ultimately show ?thesis by (rule conjI)
qed

end
