(* ===== verification/Media_Probe.thy ===== *)
theory Media_Probe
  imports File_Calls Rust_Results
begin

text \<open>
  Opening a media file: \<open>crates/gpty-media/src/error.rs\<close>, \<open>lib.rs\<close> and \<open>probe.rs\<close>.  The path gate,
  the allowlists, time stamps, and the choice of the streams that are played.  What FFmpeg reports
  of a file - its container, its streams, whether a decoder can be made - is an argument, as is the
  wording of system errors and of \<open>{:?}\<close>.
\<close>

section \<open>Errors\<close>

datatype media_error_code =
  Bad_Path | Unsupported_Container | Unsupported_Codec | Too_Large | Open_Failed | Decode_Failed | Seek_Failed
  | Session_Closed | Io_Failed

fun error_code_str :: "media_error_code \<Rightarrow> str" where
  "error_code_str Bad_Path = ''bad_path''"
| "error_code_str Unsupported_Container = ''unsupported_container''"
| "error_code_str Unsupported_Codec = ''unsupported_codec''"
| "error_code_str Too_Large = ''too_large''"
| "error_code_str Open_Failed = ''open_failed''"
| "error_code_str Decode_Failed = ''decode_failed''"
| "error_code_str Seek_Failed = ''seek_failed''"
| "error_code_str Session_Closed = ''closed''"
| "error_code_str Io_Failed = ''io_error''"

record media_error =
  me_code :: media_error_code
  me_message :: str

definition media_err :: "media_error_code \<Rightarrow> str \<Rightarrow> media_error" where
  "media_err c m = \<lparr>me_code = c, me_message = m\<rparr>"

definition closed_error :: media_error where
  "closed_error = media_err Session_Closed ''media session is closed''"

definition error_display :: "media_error \<Rightarrow> str" where
  "error_display e = error_code_str (me_code e) @ '': '' @ me_message e"

section \<open>Limits and allowlists\<close>

definition MAX_VIDEO_DIMENSION :: int where "MAX_VIDEO_DIMENSION = 4096"
definition MAX_FRAME_BYTES :: int where "MAX_FRAME_BYTES = 34 * 1024 * 1024"
definition MAX_STREAMS :: nat where "MAX_STREAMS = 16"
definition MAX_CHANNELS :: int where "MAX_CHANNELS = 8"
definition MIN_SAMPLE_RATE :: int where "MIN_SAMPLE_RATE = 8000"
definition MAX_SAMPLE_RATE :: int where "MAX_SAMPLE_RATE = 192000"
definition MAX_AUDIO_FRAME_SAMPLES :: int where "MAX_AUDIO_FRAME_SAMPLES = MAX_SAMPLE_RATE"
definition MAX_PATH_BYTES :: int where "MAX_PATH_BYTES = 4096"

definition ALLOWED_DEMUXERS :: "str list" where
  "ALLOWED_DEMUXERS = [''mov'', ''matroska'', ''ogg'', ''wav'', ''flac'', ''mp3'', ''aac'', ''avi'', ''mpegts'']"

definition ALLOWED_VIDEO_CODECS :: "str list" where
  "ALLOWED_VIDEO_CODECS = [''h264'', ''hevc'', ''vp8'', ''vp9'', ''av1'', ''theora'', ''mpeg2video'', ''mpeg4'']"

definition ALLOWED_AUDIO_CODECS :: "str list" where
  "ALLOWED_AUDIO_CODECS = [''aac'', ''mp3'', ''opus'', ''vorbis'', ''flac'', ''alac'', ''ac3'']"

definition video_codec_allowed :: "str \<Rightarrow> bool" where
  "video_codec_allowed name \<longleftrightarrow> name \<in> set ALLOWED_VIDEO_CODECS"

definition audio_codec_allowed :: "str \<Rightarrow> bool" where
  "audio_codec_allowed name \<longleftrightarrow> name \<in> set ALLOWED_AUDIO_CODECS \<or> prefix ''pcm_'' name"

section \<open>The path gate\<close>

definition validate_path :: "(str \<Rightarrow> str) \<Rightarrow> (io_error \<Rightarrow> str) \<Rightarrow> fs \<Rightarrow> str \<Rightarrow> media_error + str" where
  "validate_path debug why fs p =
     (let s = trim p
      in if s = [] then Inl (media_err Bad_Path ''empty path'')
         else if MAX_PATH_BYTES < int (length s) then Inl (media_err Bad_Path ''path is too long'')
         else if str_contains s ''://'' \<or> prefix ''res:'' s \<or> prefix ''user:'' s
         then Inl (media_err Bad_Path ''only local files are supported'')
         else if \<not> absolute s then Inl (media_err Bad_Path ''path must be absolute'')
         else (case stat fs s of
             Inl e \<Rightarrow> Inl (media_err Bad_Path (''cannot stat '' @ debug s @ '': '' @ why e))
           | Inr (File _ _ _) \<Rightarrow> Inr s
           | Inr _ \<Rightarrow> Inl (media_err Bad_Path ''not a regular file'')))"

section \<open>Time stamps\<close>

text \<open>A stream time stamp, in microseconds.  The product is taken in 128 bits.\<close>

definition timestamp_to_us :: "int \<Rightarrow> int \<Rightarrow> int \<Rightarrow> int" where
  "timestamp_to_us ts num den =
     (if ts \<le> 0 \<or> num \<le> 0 \<or> den \<le> 0 then 0
      else max 0 (min (2 ^ 63 - 1) (ts * num * 1000000 div den)))"

section \<open>Streams\<close>

datatype stream_kind = Video_Stream | Audio_Stream

text \<open>What FFmpeg reports of a stream: no kind for subtitles and data; whether a decoder exists for its
  codec, and why its context or its decoder could not be made.\<close>

record av_stream =
  av_index :: nat
  av_kind :: "stream_kind option"
  av_decoder :: bool
  av_codec :: str
  av_width :: int
  av_height :: int
  av_rate :: int
  av_channels :: int
  av_attached :: bool
  av_context_error :: "str option"
  av_open_error :: "str option"
  av_time_base :: "int \<times> int"
  av_frame_rate :: "int \<times> int"

record stream_info =
  si_index :: nat
  si_kind :: stream_kind
  si_codec :: str
  si_width :: int
  si_height :: int
  si_rate :: int
  si_channels :: int

record video_info =
  vi_codec :: str
  vi_width :: int
  vi_height :: int
  vi_frame_rate :: "int \<times> int"

record audio_info =
  ai_codec :: str
  ai_rate :: int
  ai_channels :: int

record media_info =
  mi_container :: str
  mi_duration :: "int option"
  mi_streams :: "stream_info list"
  mi_video :: "video_info option"
  mi_audio :: "audio_info option"

text \<open>The stream that is played: its index and time base.\<close>

record opened =
  op_info :: media_info
  op_video :: "(nat \<times> (int \<times> int)) option"
  op_audio :: "(nat \<times> (int \<times> int)) option"

definition deci :: "int \<Rightarrow> str" where
  "deci n = dec (nat n)"

definition info_of :: "stream_kind \<Rightarrow> av_stream \<Rightarrow> stream_info" where
  "info_of k s = \<lparr>si_index = av_index s, si_kind = k, si_codec = av_codec s, si_width = av_width s, si_height = av_height s,
     si_rate = av_rate s, si_channels = min (av_channels s) 65535\<rparr>"

definition candidate :: "bool \<Rightarrow> bool \<Rightarrow> opened \<Rightarrow> stream_kind \<Rightarrow> av_stream \<Rightarrow> bool" where
  "candidate want_video want_audio st k s =
     (case k of Video_Stream \<Rightarrow> want_video \<and> op_video st = None \<and> \<not> av_attached s
      | Audio_Stream \<Rightarrow> want_audio \<and> op_audio st = None)"

definition check_stream :: "(str \<Rightarrow> str) \<Rightarrow> stream_kind \<Rightarrow> av_stream \<Rightarrow> media_error + unit" where
  "check_stream debug k s =
     (if \<not> (case k of Video_Stream \<Rightarrow> video_codec_allowed (av_codec s) | Audio_Stream \<Rightarrow> audio_codec_allowed (av_codec s))
      then Inl (media_err Unsupported_Codec (''codec '' @ debug (av_codec s) @ '' is not in the media allowlist''))
      else if k = Video_Stream \<and> (av_width s = 0 \<or> av_height s = 0 \<or> MAX_VIDEO_DIMENSION < av_width s \<or> MAX_VIDEO_DIMENSION < av_height s)
      then Inl (media_err Too_Large (''video stream '' @ dec (av_index s) @ '' is '' @ deci (av_width s) @ ''x'' @ deci (av_height s) @
        ''; the cap is '' @ deci MAX_VIDEO_DIMENSION @ '' per side''))
      else if k = Audio_Stream \<and> (av_channels s = 0 \<or> MAX_CHANNELS < av_channels s \<or> av_rate s = 0 \<or> MAX_SAMPLE_RATE < av_rate s)
      then Inl (media_err Too_Large (''audio stream '' @ dec (av_index s) @ '' is '' @ deci (av_rate s) @ '' Hz '' @
        [CHR 0xC3, CHR 0x97] @ '' '' @ deci (av_channels s) @ '' channels''))
      else Inr ())"

definition open_stream :: "stream_kind \<Rightarrow> av_stream \<Rightarrow> opened \<Rightarrow> media_error + opened" where
  "open_stream k s st =
     (let what = (case k of Video_Stream \<Rightarrow> ''video'' | Audio_Stream \<Rightarrow> ''audio'')
      in case av_context_error s of
           Some e \<Rightarrow> Inl (media_err Open_Failed (''cannot read '' @ what @ '' parameters: '' @ e))
         | None \<Rightarrow>
             (case av_open_error s of
                Some e \<Rightarrow> Inl (media_err Open_Failed (''cannot open '' @ what @ '' decoder: '' @ e))
              | None \<Rightarrow> Inr
                  (case k of
                     Video_Stream \<Rightarrow> st\<lparr>op_info := (op_info st)\<lparr>mi_video := Some \<lparr>vi_codec = av_codec s, vi_width = av_width s,
                         vi_height = av_height s, vi_frame_rate = (max 0 (fst (av_frame_rate s)), max 1 (snd (av_frame_rate s)))\<rparr>\<rparr>,
                       op_video := Some (av_index s, av_time_base s)\<rparr>
                   | Audio_Stream \<Rightarrow> st\<lparr>op_info := (op_info st)\<lparr>mi_audio := Some \<lparr>ai_codec = av_codec s, ai_rate = av_rate s,
                         ai_channels = av_channels s\<rparr>\<rparr>,
                       op_audio := Some (av_index s, av_time_base s)\<rparr>)))"

definition add_stream :: "(str \<Rightarrow> str) \<Rightarrow> bool \<Rightarrow> bool \<Rightarrow> av_stream \<Rightarrow> opened \<Rightarrow> media_error + opened" where
  "add_stream debug want_video want_audio s st =
     (case av_kind s of
        None \<Rightarrow> Inr st
      | Some k \<Rightarrow>
          if \<not> av_decoder s then Inr st
          else (let st1 = st\<lparr>op_info := (op_info st)\<lparr>mi_streams := mi_streams (op_info st) @ [info_of k s]\<rparr>\<rparr>
                in if \<not> candidate want_video want_audio st k s then Inr st1
                   else and_then (check_stream debug k s) (\<lambda>_. open_stream k s st1)))"

fun add_streams :: "(str \<Rightarrow> str) \<Rightarrow> bool \<Rightarrow> bool \<Rightarrow> av_stream list \<Rightarrow> opened \<Rightarrow> media_error + opened" where
  "add_streams debug want_video want_audio [] st = Inr st"
| "add_streams debug want_video want_audio (s # ss) st =
     and_then (add_stream debug want_video want_audio s st) (add_streams debug want_video want_audio ss)"

text \<open>What FFmpeg answers of the opened file: its container's names, its duration and its streams.\<close>

record av_report =
  rep_container :: str
  rep_duration :: int
  rep_streams :: "av_stream list"

definition container_of :: "str \<Rightarrow> str option" where
  "container_of raw = find (\<lambda>name. name \<in> set ALLOWED_DEMUXERS) (map trim (split_on (CHR '','') raw))"

definition no_streams :: "str \<Rightarrow> int \<Rightarrow> opened" where
  "no_streams container duration =
     \<lparr>op_info = \<lparr>mi_container = container, mi_duration = (if 0 < duration then Some duration else None),
        mi_streams = [], mi_video = None, mi_audio = None\<rparr>, op_video = None, op_audio = None\<rparr>"

definition open_input :: "(str \<Rightarrow> str) \<Rightarrow> (io_error \<Rightarrow> str) \<Rightarrow> (fs \<Rightarrow> str \<Rightarrow> media_error + av_report) \<Rightarrow> fs \<Rightarrow> str \<Rightarrow> bool \<Rightarrow> bool
    \<Rightarrow> media_error + opened" where
  "open_input debug why av fs p want_video want_audio =
     and_then (validate_path debug why fs p) (\<lambda>file.
     and_then (av fs file) (\<lambda>rep.
     and_then (ok_or (container_of (rep_container rep))
       (media_err Unsupported_Container (''container '' @ debug (rep_container rep) @ '' is not in the media allowlist''))) (\<lambda>container.
     and_then (add_streams debug want_video want_audio (take MAX_STREAMS (rep_streams rep))
       (no_streams container (rep_duration rep))) (\<lambda>st.
     if op_video st = None \<and> op_audio st = None
     then Inl (media_err Unsupported_Codec ''no decodable stream of the requested kind'') else Inr st))))"

definition probe :: "(str \<Rightarrow> str) \<Rightarrow> (io_error \<Rightarrow> str) \<Rightarrow> (fs \<Rightarrow> str \<Rightarrow> media_error + av_report) \<Rightarrow> fs \<Rightarrow> str \<Rightarrow> media_error + media_info" where
  "probe debug why av fs p = and_then (open_input debug why av fs p True True) (\<lambda>st. Inr (op_info st))"

section \<open>What is opened\<close>

definition playable :: "stream_kind \<Rightarrow> av_stream \<Rightarrow> bool" where
  "playable k s \<longleftrightarrow> av_kind s = Some k \<and> av_decoder s \<and> av_context_error s = None \<and> av_open_error s = None \<and>
     (case k of
        Video_Stream \<Rightarrow> \<not> av_attached s \<and> video_codec_allowed (av_codec s) \<and> av_width s \<noteq> 0 \<and> av_height s \<noteq> 0 \<and>
          av_width s \<le> MAX_VIDEO_DIMENSION \<and> av_height s \<le> MAX_VIDEO_DIMENSION
      | Audio_Stream \<Rightarrow> audio_codec_allowed (av_codec s) \<and> av_channels s \<noteq> 0 \<and> av_channels s \<le> MAX_CHANNELS \<and>
          av_rate s \<noteq> 0 \<and> av_rate s \<le> MAX_SAMPLE_RATE)"

text \<open>The stream played is the first one a decoder exists for, and it is within every limit.\<close>

definition eligible :: "stream_kind \<Rightarrow> av_stream \<Rightarrow> bool" where
  "eligible k s \<longleftrightarrow> av_kind s = Some k \<and> av_decoder s \<and> (k = Video_Stream \<longrightarrow> \<not> av_attached s)"

definition chosen :: "bool \<Rightarrow> stream_kind \<Rightarrow> av_stream list \<Rightarrow> (nat \<times> (int \<times> int)) option \<Rightarrow> bool" where
  "chosen want k ss c \<longleftrightarrow>
     (case (if want then find (eligible k) ss else None) of
        None \<Rightarrow> c = None
      | Some s \<Rightarrow> c = Some (av_index s, av_time_base s) \<and> playable k s)"

lemma add_streams_chosen:
  assumes "add_streams debug want_video want_audio ss st = Inr st'"
    and "chosen want_video Video_Stream before (op_video st)" "chosen want_audio Audio_Stream before (op_audio st)"
  shows "chosen want_video Video_Stream (before @ ss) (op_video st') \<and> chosen want_audio Audio_Stream (before @ ss) (op_audio st') \<and>
    length (mi_streams (op_info st')) \<le> length (mi_streams (op_info st)) + length ss \<and>
    mi_container (op_info st') = mi_container (op_info st)"
  using assms
proof (induction debug want_video want_audio ss st arbitrary: before rule: add_streams.induct)
  case (2 debug want_video want_audio s ss st)
  then obtain st1 where s: "add_stream debug want_video want_audio s st = Inr st1"
    and ss: "add_streams debug want_video want_audio ss st1 = Inr st'" by auto
  have find_app: "find P (xs @ [y]) = (case find P xs of None \<Rightarrow> if P y then Some y else None | Some x \<Rightarrow> Some x)" for P xs and y :: av_stream
    by (induction xs) auto
  have "chosen want_video Video_Stream (before @ [s]) (op_video st1) \<and> chosen want_audio Audio_Stream (before @ [s]) (op_audio st1) \<and>
    length (mi_streams (op_info st1)) \<le> length (mi_streams (op_info st)) + 1 \<and> mi_container (op_info st1) = mi_container (op_info st)"
    using s 2(3,4)
    by (auto simp: add_stream_def chosen_def find_app eligible_def playable_def candidate_def check_stream_def open_stream_def Let_def
        split: option.splits if_splits stream_kind.splits)
  then show ?case using 2(1) [of st1 "before @ [s]"] ss by fastforce
qed simp

text \<open>A file that opens is one of the containers on the list; of each kind asked for, the stream
  that is played is the first of the file that is not cover art and has a decoder, its codec is on
  the list and its dimensions, rate and channels are within the limits; nothing is played of a kind
  that was not asked for, and something is played.\<close>

theorem opened_input_within_limits:
  assumes "open_input debug why av fs p want_video want_audio = Inr st"
  shows "\<exists>file rep. validate_path debug why fs p = Inr file \<and> av fs file = Inr rep \<and>
    mi_container (op_info st) \<in> set ALLOWED_DEMUXERS \<and> length (mi_streams (op_info st)) \<le> MAX_STREAMS \<and>
    chosen want_video Video_Stream (take MAX_STREAMS (rep_streams rep)) (op_video st) \<and>
    chosen want_audio Audio_Stream (take MAX_STREAMS (rep_streams rep)) (op_audio st) \<and>
    (op_video st \<noteq> None \<or> op_audio st \<noteq> None)"
proof -
  obtain q rep container where f: "validate_path debug why fs p = Inr q" "av fs q = Inr rep"
    and c: "container_of (rep_container rep) = Some container"
    and a: "add_streams debug want_video want_audio (take MAX_STREAMS (rep_streams rep)) (no_streams container (rep_duration rep)) = Inr st"
    and some: "op_video st \<noteq> None \<or> op_audio st \<noteq> None"
    using assms by (fastforce simp: open_input_def split: if_splits)
  have "container \<in> set ALLOWED_DEMUXERS"
    using c by (auto simp: container_of_def find_Some_iff)
  moreover have "chosen w k [] None" for w k by (simp add: chosen_def)
  ultimately show ?thesis
    using f some add_streams_chosen [OF a, of "[]"] by (auto simp: no_streams_def)
qed

definition demo_stream :: av_stream where
  "demo_stream = \<lparr>av_index = 0, av_kind = Some Video_Stream, av_decoder = True, av_codec = ''av1'', av_width = 640, av_height = 480,
     av_rate = 0, av_channels = 0, av_attached = False, av_context_error = None, av_open_error = None, av_time_base = (1, 1000),
     av_frame_rate = (30, 1)\<rparr>"

definition demo_av :: "fs \<Rightarrow> str \<Rightarrow> media_error + av_report" where
  "demo_av _ _ = Inr \<lparr>rep_container = ''mkv, matroska'', rep_duration = 5,
     rep_streams = [demo_stream\<lparr>av_attached := True\<rparr>, demo_stream\<lparr>av_index := 1\<rparr>]\<rparr>"

theorem opened_input_within_limits_witness:
  "\<exists>st. open_input id (\<lambda>_. []) demo_av [([''a''], File [] 0 0)] '' /a '' True False = Inr st \<and>
     op_video st = Some (1, (1, 1000)) \<and> op_audio st = None \<and> mi_container (op_info st) \<in> set ALLOWED_DEMUXERS"
proof -
  have run: "map_sum id (\<lambda>st. (op_video st, op_audio st)) (open_input id (\<lambda>_. []) demo_av [([''a''], File [] 0 0)] '' /a '' True False) =
      Inr (Some (1, (1, 1000)), None)" by code_simp
  then obtain st where st: "open_input id (\<lambda>_. []) demo_av [([''a''], File [] 0 0)] '' /a '' True False = Inr st"
    by (cases "open_input id (\<lambda>_. []) demo_av [([''a''], File [] 0 0)] '' /a '' True False") auto
  then have "op_video st = Some (1, (1, 1000)) \<and> op_audio st = None" using run by simp
  moreover have "mi_container (op_info st) \<in> set ALLOWED_DEMUXERS" using opened_input_within_limits [OF st] by blast
  ultimately show ?thesis using st by blast
qed

section \<open>Lemmas on time stamps\<close>

text \<open>The 128-bit product does not overflow, whatever a file claims, and the order of time stamps is
  kept.\<close>

lemma timestamp_product:
  fixes ts num :: int
  assumes "0 < ts" "ts < 2 ^ 63" "0 < num" "num < 2 ^ 31"
  shows "ts * num * 1000000 < 2 ^ 127"
proof -
  have "ts * num \<le> 2 ^ 63 * 2 ^ 31" using assms by (intro mult_mono) simp_all
  then have "ts * num * 1000000 \<le> 2 ^ 63 * 2 ^ 31 * 1000000" by (rule mult_right_mono) simp
  also have "\<dots> < 2 ^ 127" by simp
  finally show ?thesis .
qed

lemma timestamp_mono: "ts \<le> ts' \<Longrightarrow> timestamp_to_us ts num den \<le> timestamp_to_us ts' num den"
proof -
  assume le: "ts \<le> ts'"
  show ?thesis
  proof (cases "ts \<le> 0 \<or> num \<le> 0 \<or> den \<le> 0")
    case True
    then show ?thesis by (auto simp: timestamp_to_us_def)
  next
    case False
    then have "ts * num * 1000000 div den \<le> ts' * num * 1000000 div den"
      using le by (intro zdiv_mono1) (simp_all add: mult_right_mono)
    then show ?thesis using False le by (simp add: timestamp_to_us_def)
  qed
qed

end
