(* ===== verification/Media_Frames.thy ===== *)
theory Media_Frames
  imports Media_Probe
begin

text \<open>
  The configuration of a media session and the pure part of its worker, from
  \<open>crates/gpty-media/src/session.rs\<close>: the packing of a scaled picture into rows, and the audio
  pipeline that cuts resampled sound into chunks.  The scaler and the resampler are FFmpeg's: what
  they answer comes with the decoded frame.  So does the rounding of the floating-point scale.
\<close>

section \<open>Configuration\<close>

record open_config =
  oc_path :: str
  oc_rate :: int
  oc_channels :: int
  oc_max_width :: int
  oc_max_height :: int
  oc_video :: bool
  oc_audio :: bool

definition new_config :: "str \<Rightarrow> open_config" where
  "new_config p = \<lparr>oc_path = p, oc_rate = 48000, oc_channels = 2, oc_max_width = 0, oc_max_height = 0, oc_video = True, oc_audio = True\<rparr>"

definition config_validate :: "open_config \<Rightarrow> media_error + unit" where
  "config_validate c =
     (if \<not> (MIN_SAMPLE_RATE \<le> oc_rate c \<and> oc_rate c \<le> MAX_SAMPLE_RATE)
      then Inl (media_err Too_Large (''sample rate '' @ deci (oc_rate c) @ '' is outside '' @ deci MIN_SAMPLE_RATE @ ''..='' @ deci MAX_SAMPLE_RATE))
      else if oc_channels c = 0 \<or> MAX_CHANNELS < oc_channels c
      then Inl (media_err Too_Large (''channel count '' @ deci (oc_channels c) @ '' is outside 1..='' @ deci MAX_CHANNELS))
      else if MAX_VIDEO_DIMENSION < oc_max_width c \<or> MAX_VIDEO_DIMENSION < oc_max_height c
      then Inl (media_err Too_Large (''requested frame box '' @ deci (oc_max_width c) @ ''x'' @ deci (oc_max_height c) @ '' exceeds '' @ deci MAX_VIDEO_DIMENSION))
      else if \<not> oc_video c \<and> \<not> oc_audio c
      then Inl (media_err Unsupported_Codec ''the session must request video or audio'')
      else Inr ())"

section \<open>Pictures\<close>

record video_frame =
  vf_width :: int
  vf_height :: int
  vf_pts :: int
  vf_key :: bool
  vf_data :: bytes

text \<open>A decoded picture: its time stamp in microseconds, its size, and what the scaler makes of it for
  an output size - why it could not be made, why it failed, or the scaled data and its stride.\<close>

datatype scaled = No_Scaler str | Scale_Failed str | Scaled bytes nat

record decoded_video =
  dv_pts :: "int option"
  dv_width :: int
  dv_height :: int
  dv_scaled :: "int \<Rightarrow> int \<Rightarrow> scaled"

text \<open>The rows of the output without the padding of the stride.\<close>

fun pack_rows :: "bytes \<Rightarrow> nat \<Rightarrow> nat \<Rightarrow> nat \<Rightarrow> nat \<Rightarrow> media_error + bytes" where
  "pack_rows data stride row y 0 = Inr []"
| "pack_rows data stride row y (Suc n) =
     (let start = y * stride
      in if length data < start + row then Inl (media_err Decode_Failed ''scaled frame is shorter than its stride'')
         else and_then (pack_rows data stride row (y + 1) n) (\<lambda>rest. Inr (take row (drop start data) @ rest)))"

definition fit_frame :: "(int \<Rightarrow> int \<Rightarrow> int \<Rightarrow> int \<Rightarrow> int \<times> int) \<Rightarrow> int \<Rightarrow> int \<Rightarrow> int \<Rightarrow> int \<Rightarrow> int \<times> int" where
  \<comment> \<open>the first parameter scales a size to a box in floating point and rounds it\<close>
  "fit_frame rounded w h max_w max_h =
     (if max_w = 0 \<or> max_h = 0 then (w, h)
      else if w \<le> max_w \<and> h \<le> max_h then (w, h)
      else (let (w', h') = rounded w h max_w max_h in (max 1 w', max 1 h')))"

definition convert :: "(int \<Rightarrow> int \<Rightarrow> int \<Rightarrow> int \<Rightarrow> int \<times> int) \<Rightarrow> int \<Rightarrow> int \<Rightarrow> decoded_video \<Rightarrow> media_error + (int \<times> int \<times> bytes)" where
  "convert rounded max_w max_h d =
     (if dv_width d = 0 \<or> dv_height d = 0 then Inl (media_err Decode_Failed ''decoded a zero-sized frame'')
      else if MAX_VIDEO_DIMENSION < dv_width d \<or> MAX_VIDEO_DIMENSION < dv_height d
      then Inl (media_err Too_Large (''decoded frame '' @ deci (dv_width d) @ ''x'' @ deci (dv_height d) @ '' exceeds the '' @
        deci MAX_VIDEO_DIMENSION @ '' per-side cap''))
      else (let (w, h) = fit_frame rounded (dv_width d) (dv_height d) max_w max_h
            in if MAX_FRAME_BYTES < w * h * 4
               then Inl (media_err Too_Large (''decoded frame '' @ deci w @ ''x'' @ deci h @ '' exceeds the frame cap''))
               else (case dv_scaled d w h of
                   No_Scaler e \<Rightarrow> Inl (media_err Decode_Failed (''cannot create scaler: '' @ e))
                 | Scale_Failed e \<Rightarrow> Inl (media_err Decode_Failed (''scale failed: '' @ e))
                 | Scaled data stride \<Rightarrow>
                     and_then (pack_rows data stride (nat w * 4) 0 (nat h)) (\<lambda>packed. Inr (w, h, packed)))))"

section \<open>Sound\<close>

text \<open>A sample is the four bytes of its \<open>f32\<close>.\<close>

type_synonym sample = bytes

record audio_chunk =
  ac_rate :: int
  ac_channels :: int
  ac_pts :: int
  ac_data :: "sample list"

definition AUDIO_CHUNK_FRAMES :: nat where "AUDIO_CHUNK_FRAMES = 2048"

definition chunk_frames :: "audio_chunk \<Rightarrow> nat" where
  "chunk_frames c = (if ac_channels c = 0 then 0 else length (ac_data c) div nat (ac_channels c))"

text \<open>A decoded frame of sound: its time stamp, rate, channels, format and number of samples, and what
  the resampler answers - the number of samples it made and their bytes.\<close>

record decoded_audio =
  da_pts :: "int option"
  da_rate :: int
  da_channels :: int
  da_format :: nat
  da_samples :: int
  da_context :: "str option"               \<comment> \<open>why no resampler could be made, if one is needed\<close>
  da_run :: "str + (nat \<times> bytes)"

record audio_pipeline =
  ap_rate :: int
  ap_channels :: int
  ap_source :: "(nat \<times> int \<times> int) option"  \<comment> \<open>what the resampler was made for, if there is one\<close>
  ap_acc :: "sample list"
  ap_acc_pts :: int
  ap_next_pts :: int

definition new_pipeline :: "int \<Rightarrow> int \<Rightarrow> audio_pipeline" where
  "new_pipeline rate channels = \<lparr>ap_rate = rate, ap_channels = channels, ap_source = None, ap_acc = [], ap_acc_pts = 0, ap_next_pts = 0\<rparr>"

definition pipeline_reset :: "audio_pipeline \<Rightarrow> audio_pipeline" where
  "pipeline_reset p = p\<lparr>ap_acc := [], ap_source := None, ap_acc_pts := 0, ap_next_pts := 0\<rparr>"

fun as_chunks4 :: "bytes \<Rightarrow> sample list" where
  "as_chunks4 (a # b # c # d # bs) = [a, b, c, d] # as_chunks4 bs"
| "as_chunks4 _ = []"

text \<open>The samples of an output buffer: whole frames only.\<close>

definition output_samples :: "audio_pipeline \<Rightarrow> nat \<Rightarrow> bytes \<Rightarrow> sample list" where
  "output_samples p samples data =
     (let channels = nat (ap_channels p);
          usable = min (samples * channels * 4) (length data);
          complete = usable - usable mod (channels * 4)
      in as_chunks4 (take complete data))"

text \<open>Full chunks, as long as there are any; the channel count is at least 1.\<close>

function full_chunks :: "nat \<Rightarrow> int \<Rightarrow> int \<Rightarrow> int \<Rightarrow> sample list \<Rightarrow> audio_chunk list \<times> sample list \<times> int" where
  "full_chunks n rate channels pts acc =
     (if n = 0 \<or> length acc < n then ([], acc, pts)
      else (let (cs, acc', pts') = full_chunks n rate channels (pts + int AUDIO_CHUNK_FRAMES * 1000000 div rate) (drop n acc)
            in (\<lparr>ac_rate = rate, ac_channels = channels, ac_pts = pts, ac_data = take n acc\<rparr> # cs, acc', pts')))"
  by pat_completeness auto
termination
  by (relation "measure (\<lambda>(n, _, _, _, acc). length acc)") auto

declare full_chunks.simps [simp del]

definition take_full_chunks :: "audio_pipeline \<Rightarrow> audio_chunk list \<times> audio_pipeline" where
  "take_full_chunks p =
     (let (cs, acc, pts) = full_chunks (AUDIO_CHUNK_FRAMES * nat (ap_channels p)) (ap_rate p) (ap_channels p) (ap_acc_pts p) (ap_acc p)
      in (cs, p\<lparr>ap_acc := acc, ap_acc_pts := pts\<rparr>))"

definition push_frame :: "decoded_audio \<Rightarrow> audio_pipeline \<Rightarrow> media_error + (audio_chunk list \<times> audio_pipeline)" where
  "push_frame d p =
     (if da_rate d = 0 then Inl (media_err Decode_Failed ''audio frame has no sample rate'')
      else
        (let p1 = (case da_pts d of Some t \<Rightarrow> p\<lparr>ap_next_pts := t\<rparr> | None \<Rightarrow> p);
             source = (da_format d, da_rate d, max 1 (da_channels d));
             requested = da_samples d * ap_rate p div da_rate d
         in if MAX_CHANNELS < da_channels d
            then Inl (media_err Too_Large (''decoded audio frame has '' @ deci (da_channels d) @ '' channels; the cap is '' @ deci MAX_CHANNELS))
            else if ap_source p \<noteq> Some source \<and> da_context d \<noteq> None
            then Inl (media_err Decode_Failed (''cannot create resampler: '' @ the (da_context d)))
            else if MAX_AUDIO_FRAME_SAMPLES < requested
            then Inl (media_err Too_Large (''resampling a '' @ deci (da_samples d) @ ''-sample '' @ deci (da_rate d) @ '' Hz frame to '' @
              deci (ap_rate p) @ '' Hz needs '' @ deci requested @ '' samples per channel; the cap is '' @ deci MAX_AUDIO_FRAME_SAMPLES))
            else (case da_run d of
                Inl e \<Rightarrow> Inl (media_err Decode_Failed (''resample failed: '' @ e))
              | Inr (samples, data) \<Rightarrow>
                  (let p2 = p1\<lparr>ap_source := Some source, ap_acc_pts := (if ap_acc p1 = [] then ap_next_pts p1 else ap_acc_pts p1),
                         ap_acc := ap_acc p1 @ output_samples p1 samples data,
                         ap_next_pts := ap_next_pts p1 + int samples * 1000000 div da_rate d\<rparr>
                   in Inr (take_full_chunks p2)))))"

text \<open>At the end: what the resampler still held, as long as it answers something, then all that is left.\<close>

fun drain_resampler :: "(str + (nat \<times> bytes)) list \<Rightarrow> audio_pipeline \<Rightarrow> media_error + audio_pipeline" where
  "drain_resampler [] p = Inr p"
| "drain_resampler (Inl e # _) p = Inl (media_err Decode_Failed (''resample flush failed: '' @ e))"
| "drain_resampler (Inr (samples, data) # outs) p = drain_resampler outs (p\<lparr>ap_acc := ap_acc p @ output_samples p samples data\<rparr>)"

definition pipeline_flush :: "(str + (nat \<times> bytes)) list \<Rightarrow> audio_pipeline \<Rightarrow> media_error + (audio_chunk list \<times> audio_pipeline)" where
  "pipeline_flush outs p =
     and_then (if ap_source p = None then Inr p else drain_resampler outs p) (\<lambda>p1.
     let (cs, p2) = take_full_chunks p1
     in Inr (if ap_acc p2 = [] then (cs, p2)
        else (cs @ [\<lparr>ac_rate = ap_rate p2, ac_channels = ap_channels p2, ac_pts = ap_acc_pts p2, ac_data = ap_acc p2\<rparr>],
              p2\<lparr>ap_acc := []\<rparr>)))"

section \<open>What is packed\<close>

lemma pack_rows_length: "pack_rows data stride row y n = Inr packed \<Longrightarrow> length packed = n * row"
  by (induction n arbitrary: y packed) (auto simp: Let_def split: if_splits)

lemma pack_rows_nth:
  assumes "pack_rows data stride row y n = Inr packed" "i < n" "j < row"
  shows "packed ! (i * row + j) = data ! ((y + i) * stride + j)"
  using assms
proof (induction n arbitrary: y packed i)
  case (Suc n)
  then obtain rest where r: "pack_rows data stride row (y + 1) n = Inr rest" "y * stride + row \<le> length data"
    "packed = take row (drop (y * stride) data) @ rest"
    by (auto simp: Let_def split: if_splits)
  show ?case
  proof (cases i)
    case 0
    then show ?thesis using r Suc(4) by (simp add: nth_append)
  next
    case (Suc k)
    then have "rest ! (k * row + j) = data ! ((y + 1 + k) * stride + j)"
      using Suc.IH [OF r(1), of k] Suc.prems(2,3) by simp
    then show ?thesis using r(2,3) Suc by (simp add: nth_append)
  qed
qed simp

text \<open>A picture that is handed on is exactly as large as its dimensions say and within the frame
  cap, and pixel byte \<open>j\<close> of row \<open>i\<close> is that byte of the scaled picture's row \<open>i\<close>.\<close>

theorem converted_frame_exact:
  assumes "convert rounded max_w max_h d = Inr (w, h, packed)"
  shows "length packed = nat h * (nat w * 4) \<and> w * h * 4 \<le> MAX_FRAME_BYTES \<and>
    (\<exists>data stride. dv_scaled d w h = Scaled data stride \<and>
      (\<forall>i < nat h. \<forall>j < nat w * 4. packed ! (i * (nat w * 4) + j) = data ! (i * stride + j)))"
proof -
  obtain data stride where c: "w * h * 4 \<le> MAX_FRAME_BYTES" "dv_scaled d w h = Scaled data stride"
    "pack_rows data stride (nat w * 4) 0 (nat h) = Inr packed"
    using assms by (auto simp: convert_def Let_def split: if_splits prod.splits scaled.splits)
  then show ?thesis using pack_rows_length [OF c(3)] pack_rows_nth [OF c(3)] by auto
qed

theorem converted_frame_exact_witness:
  "convert (\<lambda>w h mw mh. (1, 2)) 1 2 \<lparr>dv_pts = None, dv_width = 2, dv_height = 4, dv_scaled = \<lambda>w h. Scaled ''abcd--efgh--'' 6\<rparr> =
     Inr (1, 2, ''abcdefgh'') \<and> ''abcdefgh'' ! (1 * (nat 1 * 4) + 2) = CHR ''g''"
proof -
  have run: "convert (\<lambda>w h mw mh. (1, 2)) 1 2 \<lparr>dv_pts = None, dv_width = 2, dv_height = 4, dv_scaled = \<lambda>w h. Scaled ''abcd--efgh--'' 6\<rparr> =
      Inr (1, 2, ''abcdefgh'')" by code_simp
  obtain data stride where at: "Scaled ''abcd--efgh--'' 6 = Scaled data stride"
    "\<forall>i < nat 2. \<forall>j < nat 1 * 4. ''abcdefgh'' ! (i * (nat 1 * 4) + j) = data ! (i * stride + j)"
    using converted_frame_exact [OF run] by auto
  have "''abcdefgh'' ! (1 * (nat 1 * 4) + 2) = data ! (1 * stride + 2)"
    by (rule at(2) [rule_format]) simp_all
  then show ?thesis using run at(1) by simp
qed

section \<open>What is heard\<close>

lemma full_chunks_spec:
  assumes "full_chunks n rate channels pts acc = (cs, acc', pts')" "0 < n"
  shows "concat (map ac_data cs) @ acc' = acc \<and> length acc' < n \<and>
    list_all (\<lambda>c. length (ac_data c) = n \<and> ac_rate c = rate \<and> ac_channels c = channels) cs"
  using assms
proof (induction n rate channels pts acc arbitrary: cs acc' pts' rule: full_chunks.induct)
  case (1 n rate channels pts acc)
  show ?case
  proof (cases "length acc < n")
    case True
    then show ?thesis using 1(2,3) by (simp add: full_chunks.simps)
  next
    case False
    let ?pts = "pts + int AUDIO_CHUNK_FRAMES * 1000000 div rate"
    obtain cs1 where r: "full_chunks n rate channels ?pts (drop n acc) = (cs1, acc', pts')"
      "cs = \<lparr>ac_rate = rate, ac_channels = channels, ac_pts = pts, ac_data = take n acc\<rparr> # cs1"
      using 1(2,3) False by (auto simp: full_chunks.simps [of n rate channels pts acc] split: prod.splits)
    then show ?thesis using 1(1) [OF _ r(1)] 1(3) False by simp
  qed
qed

text \<open>The chunks of one take are evenly spaced.\<close>

lemma full_chunks_pts:
  assumes "full_chunks n rate channels pts acc = (cs, acc', pts')" "i < length cs"
  shows "ac_pts (cs ! i) = pts + int i * (int AUDIO_CHUNK_FRAMES * 1000000 div rate)"
  using assms
proof (induction n rate channels pts acc arbitrary: cs acc' pts' i rule: full_chunks.induct)
  case (1 n rate channels pts acc)
  then have nn: "\<not> (n = 0 \<or> length acc < n)" by (cases "n = 0 \<or> length acc < n") (simp_all add: full_chunks.simps [of n rate channels pts acc])
  let ?pts = "pts + int AUDIO_CHUNK_FRAMES * 1000000 div rate"
  obtain cs1 where r: "full_chunks n rate channels ?pts (drop n acc) = (cs1, acc', pts')"
    "cs = \<lparr>ac_rate = rate, ac_channels = channels, ac_pts = pts, ac_data = take n acc\<rparr> # cs1"
    using 1(2) nn by (auto simp: full_chunks.simps [of n rate channels pts acc] split: prod.splits)
  then show ?case using 1(1) [OF nn r(1)] 1(3) by (cases i) (auto simp: algebra_simps)
qed

lemma take_full_chunks_spec:
  assumes "take_full_chunks p = (cs, p')" "0 < ap_channels p"
  shows "concat (map ac_data cs) @ ap_acc p' = ap_acc p \<and> length (ap_acc p') < AUDIO_CHUNK_FRAMES * nat (ap_channels p) \<and>
    list_all (\<lambda>c. chunk_frames c = AUDIO_CHUNK_FRAMES) cs \<and> ap_channels p' = ap_channels p \<and> ap_source p' = ap_source p"
proof -
  obtain acc pts where f: "full_chunks (AUDIO_CHUNK_FRAMES * nat (ap_channels p)) (ap_rate p) (ap_channels p) (ap_acc_pts p) (ap_acc p) = (cs, acc, pts)"
    "p' = p\<lparr>ap_acc := acc, ap_acc_pts := pts\<rparr>"
    using assms(1) by (auto simp: take_full_chunks_def split: prod.splits)
  have "0 < AUDIO_CHUNK_FRAMES * nat (ap_channels p)" using assms(2) by (simp add: AUDIO_CHUNK_FRAMES_def)
  note s = full_chunks_spec [OF f(1) this]
  have "list_all (\<lambda>c. chunk_frames c = AUDIO_CHUNK_FRAMES) cs"
    by (rule list.pred_mono_strong [OF conjunct2 [OF conjunct2 [OF s]]]) (use assms(2) in \<open>auto simp: chunk_frames_def\<close>)
  then show ?thesis using s f(2) by simp
qed

text \<open>The samples a frame, and the resampler at the end, contribute.\<close>

definition frame_samples :: "audio_pipeline \<Rightarrow> decoded_audio \<Rightarrow> sample list" where
  "frame_samples p d = (case da_run d of Inr (n, data) \<Rightarrow> output_samples p n data | Inl _ \<Rightarrow> [])"

lemma output_samples_cong: "ap_channels p = ap_channels p' \<Longrightarrow> output_samples p n data = output_samples p' n data"
  by (simp add: output_samples_def)

lemma push_frame_spec:
  assumes "push_frame d p = Inr (cs, p')" "0 < ap_channels p"
  shows "concat (map ac_data cs) @ ap_acc p' = ap_acc p @ frame_samples p d \<and> ap_channels p' = ap_channels p \<and>
    list_all (\<lambda>c. chunk_frames c = AUDIO_CHUNK_FRAMES) cs \<and> ap_source p' \<noteq> None"
proof -
  let ?p1 = "case da_pts d of Some t \<Rightarrow> p\<lparr>ap_next_pts := t\<rparr> | None \<Rightarrow> p"
  have p1: "ap_acc ?p1 = ap_acc p" "ap_channels ?p1 = ap_channels p" by (auto split: option.splits)
  obtain n data p2 where r: "da_run d = Inr (n, data)" "take_full_chunks p2 = (cs, p')"
    "ap_acc p2 = ap_acc p @ output_samples ?p1 n data" "ap_channels p2 = ap_channels p" "ap_source p2 \<noteq> None"
    using assms(1) p1 by (auto simp: push_frame_def Let_def split: if_splits sum.splits)
  then show ?thesis
    using take_full_chunks_spec [OF r(2)] assms(2) output_samples_cong [OF p1(2)] by (simp add: frame_samples_def)
qed

fun push_all :: "decoded_audio list \<Rightarrow> audio_pipeline \<Rightarrow> media_error + (audio_chunk list \<times> audio_pipeline)" where
  "push_all [] p = Inr ([], p)"
| "push_all (d # ds) p = and_then (push_frame d p) (\<lambda>(cs, p'). and_then (push_all ds p') (\<lambda>(cs', q). Inr (cs @ cs', q)))"

lemma frame_samples_cong: "ap_channels p = ap_channels p' \<Longrightarrow> frame_samples p d = frame_samples p' d"
  by (auto simp: frame_samples_def output_samples_def split: sum.splits)

lemma push_all_spec:
  assumes "push_all ds p = Inr (cs, p')" "0 < ap_channels p"
  shows "concat (map ac_data cs) @ ap_acc p' = ap_acc p @ concat (map (frame_samples p) ds) \<and> ap_channels p' = ap_channels p \<and>
    list_all (\<lambda>c. chunk_frames c = AUDIO_CHUNK_FRAMES) cs \<and> (ds \<noteq> [] \<longrightarrow> ap_source p' \<noteq> None)"
  using assms
proof (induction ds p arbitrary: cs rule: push_all.induct)
  case (2 d ds p)
  then obtain cs1 p1 cs2 where r: "push_frame d p = Inr (cs1, p1)" "push_all ds p1 = Inr (cs2, p')" "cs = cs1 @ cs2"
    by auto
  note f = push_frame_spec [OF r(1) 2(3)]
  have "0 < ap_channels p1" using f 2(3) by simp
  note g = 2(1) [OF r(2) this]
  have eq: "map (frame_samples p1) ds = map (frame_samples p) ds" using f by (simp add: frame_samples_cong [of p1 p])
  have "concat (map ac_data cs) @ ap_acc p' = concat (map ac_data cs1) @ (concat (map ac_data cs2) @ ap_acc p')"
    by (simp add: r(3))
  also have "\<dots> = (concat (map ac_data cs1) @ ap_acc p1) @ concat (map (frame_samples p1) ds)" using g by simp
  also have "\<dots> = ap_acc p @ concat (map (frame_samples p) (d # ds))" unfolding eq using f by simp
  finally have data: "concat (map ac_data cs) @ ap_acc p' = ap_acc p @ concat (map (frame_samples p) (d # ds))" .
  have "ap_source p' \<noteq> None" using g f r(2) by (cases ds) auto
  then show ?case using data f g r(3) by simp
qed simp

lemma drain_resampler_spec:
  "drain_resampler outs p = Inr p' \<Longrightarrow> ap_channels p' = ap_channels p \<and>
   ap_acc p' = ap_acc p @ concat (map (\<lambda>x. case x of Inr (n, data) \<Rightarrow> output_samples p n data | Inl _ \<Rightarrow> []) outs)"
proof (induction outs p rule: drain_resampler.induct)
  case (3 n data outs p)
  then show ?case
    using output_samples_cong [of "p\<lparr>ap_acc := ap_acc p @ output_samples p n data\<rparr>" p]
    by (auto cong: sum.case_cong)
qed auto

text \<open>C26: No sound is lost or repeated between the resampler and the caller: the chunks made while
  frames are pushed, and those made when the stream ends, hold the samples the pipeline already had
  and then every sample the resampler answered, in order; every chunk but the last is full; nothing
  is left behind.\<close>

theorem sound_is_lossless:
  assumes "0 < ap_channels p" "push_all ds p = Inr (cs, p')" "pipeline_flush outs p' = Inr (cs', p'')" "ds \<noteq> []"
  shows "concat (map ac_data (cs @ cs')) = ap_acc p @ concat (map (frame_samples p) ds) @
      concat (map (\<lambda>x. case x of Inr (n, data) \<Rightarrow> output_samples p n data | Inl _ \<Rightarrow> []) outs) \<and>
    list_all (\<lambda>c. chunk_frames c = AUDIO_CHUNK_FRAMES) (butlast (cs @ cs')) \<and> ap_acc p'' = []"
proof -
  note a = push_all_spec [OF assms(2,1)]
  have ch: "ap_channels p' = ap_channels p" "ap_source p' \<noteq> None" using a assms(4) by simp_all
  obtain p1 cs1 p2 where f: "drain_resampler outs p' = Inr p1" "take_full_chunks p1 = (cs1, p2)"
    and cs': "(cs', p'') = (if ap_acc p2 = [] then (cs1, p2)
       else (cs1 @ [\<lparr>ac_rate = ap_rate p2, ac_channels = ap_channels p2, ac_pts = ap_acc_pts p2, ac_data = ap_acc p2\<rparr>], p2\<lparr>ap_acc := []\<rparr>))"
  proof -
    obtain p1 where 1: "drain_resampler outs p' = Inr p1" using assms(3) ch(2) by (auto simp: pipeline_flush_def)
    obtain cs1 p2 where 2: "take_full_chunks p1 = (cs1, p2)" by fastforce
    show ?thesis using that [OF 1 2] assms(3) ch(2) 1 2 by (auto simp: pipeline_flush_def)
  qed
  note d = drain_resampler_spec [OF f(1)]
  have "0 < ap_channels p1" using d ch assms(1) by simp
  note t = take_full_chunks_spec [OF f(2) this]
  have outs: "output_samples p' = output_samples p" using output_samples_cong [OF ch(1)] by (auto simp: fun_eq_iff)
  have data: "concat (map ac_data cs') = ap_acc p1" "ap_acc p'' = []"
    using cs' t by (auto split: if_splits)
  have "concat (map ac_data (cs @ cs')) = (concat (map ac_data cs) @ ap_acc p') @
      concat (map (\<lambda>x. case x of Inr (n, data) \<Rightarrow> output_samples p n data | Inl _ \<Rightarrow> []) outs)"
    using data(1) d unfolding outs by simp
  moreover have "list_all (\<lambda>c. chunk_frames c = AUDIO_CHUNK_FRAMES) (butlast (cs @ cs'))"
    using cs' t a by (auto split: if_splits simp: butlast_append list_all_iff dest: in_set_butlastD)
  ultimately show ?thesis using a data(2) by simp
qed

definition demo_sound :: "nat \<Rightarrow> decoded_audio" where
  "demo_sound n = \<lparr>da_pts = None, da_rate = 44100, da_channels = 1, da_format = 8, da_samples = 1, da_context = None,
     da_run = Inr (n, ''abcdefgh'')\<rparr>"

theorem sound_is_lossless_witness:
  "\<exists>cs p cs' q. push_all [demo_sound 2, demo_sound 1] (new_pipeline 48000 1) = Inr (cs, p) \<and>
     pipeline_flush [Inr (1, ''wxyz'')] p = Inr (cs', q) \<and>
     concat (map ac_data (cs @ cs')) = [''abcd'', ''efgh'', ''abcd'', ''wxyz'']"
proof -
  let ?p = "new_pipeline 48000 1"
  obtain cs p where push: "push_all [demo_sound 2, demo_sound 1] ?p = Inr (cs, p)"
  proof (cases "push_all [demo_sound 2, demo_sound 1] ?p")
    case Inl
    moreover have "\<not> isl (push_all [demo_sound 2, demo_sound 1] ?p)" by code_simp
    ultimately show ?thesis by simp
  next
    case (Inr x)
    then show ?thesis using that by (cases x) simp
  qed
  obtain cs' p' where flush: "pipeline_flush [Inr (1, ''wxyz'')] p = Inr (cs', p')"
    by (cases "pipeline_flush [Inr (1, ''wxyz'')] p") (auto simp: pipeline_flush_def split: if_splits prod.splits)
  have "0 < ap_channels ?p" by (simp add: new_pipeline_def)
  note l = sound_is_lossless [OF this push flush, THEN conjunct1]
  have "concat (map (frame_samples ?p) [demo_sound 2, demo_sound 1]) = [''abcd'', ''efgh'', ''abcd'']"
    "output_samples ?p 1 ''wxyz'' = [''wxyz'']" "ap_acc ?p = []" by code_simp+
  then have "concat (map ac_data (cs @ cs')) = [''abcd'', ''efgh'', ''abcd'', ''wxyz'']" using l by simp
  then show ?thesis using push flush by blast
qed

text \<open>The clock that dates sound without time stamps counts samples at the caller's rate in units of
  the file's: a second of 44.1 kHz sound, resampled to 48 kHz, advances it by 1.088 seconds.\<close>

lemma clock_counts_at_the_source_rate:
  assumes "push_frame d p = Inr (cs, p')" "da_pts d = None" "da_run d = Inr (n, data)"
  shows "ap_next_pts p' = ap_next_pts p + int n * 1000000 div da_rate d"
  using assms by (auto simp: push_frame_def take_full_chunks_def Let_def split: if_splits prod.splits)

end
