(* ===== verification/Media_Session.thy ===== *)
theory Media_Session
  imports Media_Frames
begin

text \<open>
  A media session, \<open>crates/gpty-media/src/session.rs\<close>: the decode thread, the bounded queues and the
  status it shares with the caller, as a state and one function per step of either side.  Steps of
  the two interleave; what FFmpeg answers to a read, a seek or a decode call is part of the step that
  makes the call, and a call that never returns is a step that is never taken.  \<open>Worker_Gone\<close> is the
  thread after its function returned; the queues survive it.
\<close>

section \<open>State\<close>

datatype session_state = Opening | Playing | Finished | Failed

fun session_state_str :: "session_state \<Rightarrow> str" where
  "session_state_str Opening = ''opening''"
| "session_state_str Playing = ''playing''"
| "session_state_str Finished = ''finished''"
| "session_state_str Failed = ''failed''"

definition VIDEO_QUEUE_FRAMES :: nat where "VIDEO_QUEUE_FRAMES = 2"
definition AUDIO_QUEUE_CHUNKS :: nat where "AUDIO_QUEUE_CHUNKS = 16"
definition COMMAND_QUEUE :: nat where "COMMAND_QUEUE = 8"

datatype command = Seek_To int nat | Stop_Worker

text \<open>What is left to do for the packet that was read: frames the decoder answered, frames and chunks
  that wait for room in their queue, a failed call.  At the end of the file both streams are drain_work
  before an error counts, and then the resampler is.\<close>

datatype work =
    Show_Video decoded_video "int option" bool
  | Queue_Video nat video_frame
  | Play_Audio decoded_audio
  | Queue_Audio nat audio_chunk
  | Broken media_error

datatype mode = In_Packet | At_End "media_error option" "(str + (nat \<times> bytes)) list option"

datatype worker = Starting | Looping | Taking | Reading | Working "work list list" mode | Waiting | Worker_Gone

text \<open>The caller, between calls or within one; a poll holds the epoch it read, whether no seek was in
  flight, how much more it may take and what it has taken.\<close>

datatype caller =
    Idle
  | Seeking int nat
  | Polling_Video nat bool nat "(nat \<times> video_frame) list"
  | Polling_Audio nat bool nat "(nat \<times> audio_chunk) list"

record session =
  ms_config :: open_config
  ms_stop :: bool
  ms_dropped :: bool                            \<comment> \<open>the caller's ends of the queues are gone\<close>
  ms_pending :: nat
  ms_epoch :: nat
  ms_state :: session_state
  ms_position :: int
  ms_info :: "media_info option"
  ms_error :: "media_error option"
  ms_commands :: "command list"
  ms_video :: "(nat \<times> video_frame) list"
  ms_audio :: "(nat \<times> audio_chunk) list"
  ms_worker :: worker
  ms_last_pts :: int
  ms_vskip :: "int option"
  ms_askip :: "int option"
  ms_pipe :: audio_pipeline
  ms_caller :: caller

text \<open>Where the worker is, when it has nothing at hand.\<close>

definition worker_is :: "worker \<Rightarrow> session \<Rightarrow> bool" where
  "worker_is w s =
     (case (w, ms_worker s) of
        (Starting, Starting) \<Rightarrow> True | (Looping, Looping) \<Rightarrow> True | (Taking, Taking) \<Rightarrow> True | (Reading, Reading) \<Rightarrow> True
      | (Waiting, Waiting) \<Rightarrow> True | (Worker_Gone, Worker_Gone) \<Rightarrow> True | _ \<Rightarrow> False)"

lemma worker_is_iff [simp]:
  "worker_is Starting s \<longleftrightarrow> ms_worker s = Starting" "worker_is Looping s \<longleftrightarrow> ms_worker s = Looping"
  "worker_is Taking s \<longleftrightarrow> ms_worker s = Taking" "worker_is Reading s \<longleftrightarrow> ms_worker s = Reading"
  "worker_is Waiting s \<longleftrightarrow> ms_worker s = Waiting" "worker_is Worker_Gone s \<longleftrightarrow> ms_worker s = Worker_Gone"
  by (simp_all add: worker_is_def split: worker.splits)

definition new_session :: "open_config \<Rightarrow> session" where
  "new_session c =
     \<lparr>ms_config = c, ms_stop = False, ms_dropped = False, ms_pending = 0, ms_epoch = 0, ms_state = Opening, ms_position = 0,
      ms_info = None, ms_error = None, ms_commands = [], ms_video = [], ms_audio = [], ms_worker = Starting, ms_last_pts = 0,
      ms_vskip = None, ms_askip = None, ms_pipe = new_pipeline (oc_rate c) (oc_channels c), ms_caller = Idle\<rparr>"

definition session_start :: "(str \<Rightarrow> str) \<Rightarrow> (io_error \<Rightarrow> str) \<Rightarrow> fs \<Rightarrow> open_config \<Rightarrow> media_error + session" where
  "session_start debug why fs c =
     and_then (config_validate c) (\<lambda>_.
     and_then (validate_path debug why fs (oc_path c)) (\<lambda>_. Inr (new_session c)))"

section \<open>The shared status\<close>

definition set_ready :: "media_info \<Rightarrow> session \<Rightarrow> session" where
  "set_ready i s = s\<lparr>ms_state := Playing, ms_info := Some i\<rparr>"

definition set_position :: "int \<Rightarrow> session \<Rightarrow> session" where
  "set_position p s = s\<lparr>ms_position := max (ms_position s) p\<rparr>"

definition session_finish :: "session \<Rightarrow> session" where
  "session_finish s = s\<lparr>ms_state := Finished\<rparr>"

definition begin_seek :: "session \<Rightarrow> nat \<times> session" where
  "begin_seek s = (ms_pending s + 1, s\<lparr>ms_pending := ms_pending s + 1\<rparr>)"

definition abandon_seek :: "nat \<Rightarrow> session \<Rightarrow> session" where
  "abandon_seek serial s = (if ms_pending s = serial then s\<lparr>ms_pending := serial - 1\<rparr> else s)"

definition settled :: "session \<Rightarrow> nat \<Rightarrow> bool" where
  "settled s e \<longleftrightarrow> ms_pending s = e"

definition set_playing :: "session \<Rightarrow> session" where
  "set_playing s = s\<lparr>ms_state := Playing, ms_error := None\<rparr>"

definition session_fail :: "media_error \<Rightarrow> session \<Rightarrow> session" where
  "session_fail e s = s\<lparr>ms_state := Failed, ms_error := Some e\<rparr>"

record session_status =
  st_state :: session_state
  st_position :: int
  st_duration :: "int option"
  st_info :: "media_info option"
  st_error :: "media_error option"

definition status :: "session \<Rightarrow> session_status" where
  "status s = \<lparr>st_state = ms_state s, st_position = ms_position s, st_duration = Option.bind (ms_info s) mi_duration,
     st_info = ms_info s, st_error = ms_error s\<rparr>"

section \<open>The worker\<close>

definition leave :: "session \<Rightarrow> session" where
  "leave s = s\<lparr>ms_worker := Worker_Gone\<rparr>"

definition worker_start :: "media_error + media_info \<Rightarrow> bool \<Rightarrow> session \<Rightarrow> session" where
  \<comment> \<open>what opening answers, and whether the caller still listens for it\<close>
  "worker_start opened listening s =
     (case opened of
        Inl e \<Rightarrow> leave (session_fail e s)
      | Inr i \<Rightarrow> (let s1 = set_ready i s in if listening then s1\<lparr>ms_worker := Looping\<rparr> else leave s1))"

text \<open>A seek FFmpeg refused, or one that was applied.\<close>

definition seek_error :: "int \<Rightarrow> str \<Rightarrow> media_error" where
  "seek_error p e = media_err Seek_Failed (''seek to '' @ deci p @ '' '' @ [CHR 0xC2, CHR 0xB5] @ ''s failed: '' @ e)"

definition apply_seek :: "int \<Rightarrow> nat \<Rightarrow> session \<Rightarrow> session" where
  "apply_seek p serial s =
     (set_position p (s\<lparr>ms_pipe := pipeline_reset (ms_pipe s), ms_epoch := serial\<rparr>))
       \<lparr>ms_last_pts := p, ms_vskip := Some p, ms_askip := Some p\<rparr>"

definition take_command :: "str option \<Rightarrow> session \<Rightarrow> session" where
  "take_command refused s =
     (case ms_commands s of
        [] \<Rightarrow> s\<lparr>ms_worker := Reading\<rparr>
      | Stop_Worker # cs \<Rightarrow> leave (s\<lparr>ms_commands := cs\<rparr>)
      | Seek_To p serial # cs \<Rightarrow>
          (let s1 = s\<lparr>ms_commands := cs\<rparr>
           in case refused of
                Some e \<Rightarrow> (session_fail (seek_error p e) s1)\<lparr>ms_worker := Waiting\<rparr>
              | None \<Rightarrow> apply_seek p serial s1))"

definition wait_command :: "str option \<Rightarrow> session \<Rightarrow> session" where
  "wait_command refused s =
     (if ms_stop s then leave s
      else (case ms_commands s of
          [] \<Rightarrow> if ms_dropped s then leave s else s
        | Stop_Worker # cs \<Rightarrow> leave (s\<lparr>ms_commands := cs\<rparr>)
        | Seek_To p serial # cs \<Rightarrow>
            (let s1 = s\<lparr>ms_commands := cs\<rparr>
             in case refused of
                  Some e \<Rightarrow> leave (session_fail (seek_error p e) s1)
                | None \<Rightarrow> (apply_seek p serial (set_playing s1))\<lparr>ms_worker := Looping\<rparr>)))"

text \<open>What the decoder answers until it wants more input, or fails.\<close>

record 'f drain =
  dr_frames :: "'f list"
  dr_error :: "str option"

datatype send_result = Send_Ok | Send_Again | Send_Error str

definition drain_work :: "('f \<Rightarrow> work) \<Rightarrow> str \<Rightarrow> 'f drain \<Rightarrow> work list" where
  "drain_work w what d =
     map w (dr_frames d) @ (case dr_error d of Some e \<Rightarrow> [Broken (media_err Decode_Failed (what @ '' decode failed: '' @ e))] | None \<Rightarrow> [])"

definition decode_packet :: "('f \<Rightarrow> work) \<Rightarrow> str \<Rightarrow> send_result \<Rightarrow> 'f drain \<Rightarrow> str option \<Rightarrow> 'f drain \<Rightarrow> work list" where
  \<comment> \<open>a decoder that is full is drain_work and sent the packet again\<close>
  "decode_packet w what first d1 again d2 =
     (case first of
        Send_Ok \<Rightarrow> drain_work w what d2
      | Send_Error e \<Rightarrow> [Broken (media_err Decode_Failed (''send packet failed: '' @ e))]
      | Send_Again \<Rightarrow> drain_work w what d1 @ (case again of
            Some e \<Rightarrow> [Broken (media_err Decode_Failed (''send packet failed: '' @ e))]
          | None \<Rightarrow> drain_work w what d2))"

datatype packet_read =
    Video_Packet "int option" bool send_result "decoded_video drain" "str option" "decoded_video drain"
  | Audio_Packet send_result "decoded_audio drain" "str option" "decoded_audio drain"
  | Other_Packet
  | End_Of_File "decoded_video drain" "decoded_audio drain" "(str + (nat \<times> bytes)) list"
  | Read_Failed str

definition read_packet :: "packet_read \<Rightarrow> session \<Rightarrow> session" where
  "read_packet r s =
     (case r of
        Video_Packet pts key first d1 again d2 \<Rightarrow>
          s\<lparr>ms_worker := Working [decode_packet (\<lambda>d. Show_Video d pts key) ''video'' first d1 again d2] In_Packet\<rparr>
      | Audio_Packet first d1 again d2 \<Rightarrow> s\<lparr>ms_worker := Working [decode_packet Play_Audio ''audio'' first d1 again d2] In_Packet\<rparr>
      | Other_Packet \<Rightarrow> s\<lparr>ms_worker := Working [] In_Packet\<rparr>
      | End_Of_File v a rest \<Rightarrow>
          s\<lparr>ms_worker := Working [drain_work (\<lambda>d. Show_Video d None False) ''video'' v, drain_work Play_Audio ''audio'' a] (At_End None (Some rest))\<rparr>
      | Read_Failed e \<Rightarrow> leave (session_fail (media_err Decode_Failed (''read failed: '' @ e)) s))"

text \<open>A value for a full queue waits, and gives up when the session stops.\<close>

datatype send_outcome = Sent | Gave_Up | Blocked

definition send_bounded :: "session \<Rightarrow> nat \<Rightarrow> nat \<Rightarrow> send_outcome" where
  "send_bounded s room used =
     (if ms_dropped s then Gave_Up else if used < room then Sent else if ms_stop s then Gave_Up else Blocked)"

text \<open>One piece of work: an error, or what it leaves to do; nothing while a queue is full.\<close>

definition do_work :: "(int \<Rightarrow> int \<Rightarrow> int \<Rightarrow> int \<Rightarrow> int \<times> int) \<Rightarrow> work \<Rightarrow> session \<Rightarrow> (session \<times> (media_error + work list)) option" where
  "do_work rounded w s =
     (case w of
        Show_Video d packet_pts key \<Rightarrow>
          (let pts = (case dv_pts d of Some t \<Rightarrow> t | None \<Rightarrow> (case packet_pts of Some t \<Rightarrow> t | None \<Rightarrow> ms_last_pts s));
               s1 = s\<lparr>ms_last_pts := pts\<rparr>
           in Some (if (case ms_vskip s of Some t \<Rightarrow> pts < t | None \<Rightarrow> False) then (s1, Inr [])
              else (s1\<lparr>ms_vskip := None\<rparr>,
                (case convert rounded (oc_max_width (ms_config s)) (oc_max_height (ms_config s)) d of
                   Inl e \<Rightarrow> Inl e
                 | Inr (w, h, data) \<Rightarrow>
                     Inr [Queue_Video (ms_epoch s) \<lparr>vf_width = w, vf_height = h, vf_pts = pts, vf_key = key, vf_data = data\<rparr>]))))
      | Queue_Video e f \<Rightarrow>
          (case send_bounded s VIDEO_QUEUE_FRAMES (length (ms_video s)) of
             Sent \<Rightarrow> Some (set_position (vf_pts f) (s\<lparr>ms_video := ms_video s @ [(e, f)]\<rparr>), Inr [])
           | Gave_Up \<Rightarrow> Some (s, Inl closed_error)
           | Blocked \<Rightarrow> None)
      | Play_Audio d \<Rightarrow>
          Some (if (case ms_askip s of
                Some t \<Rightarrow> (case da_pts d of Some p \<Rightarrow> p | None \<Rightarrow> t) + da_samples d * 1000000 div max 1 (da_rate d) < t
              | None \<Rightarrow> False) then (s, Inr [])
            else (case push_frame d (ms_pipe s) of
                Inl e \<Rightarrow> (s\<lparr>ms_askip := None\<rparr>, Inl e)
              | Inr (cs, p) \<Rightarrow> (s\<lparr>ms_askip := None, ms_pipe := p\<rparr>, Inr (map (Queue_Audio (ms_epoch s)) cs))))
      | Queue_Audio e c \<Rightarrow>
          (case send_bounded s AUDIO_QUEUE_CHUNKS (length (ms_audio s)) of
             Sent \<Rightarrow> Some (s\<lparr>ms_audio := ms_audio s @ [(e, c)]\<rparr>, Inr [])
           | Gave_Up \<Rightarrow> Some (s, Inl closed_error)
           | Blocked \<Rightarrow> None)
      | Broken e \<Rightarrow> Some (s, Inl e))"

definition work_step :: "(int \<Rightarrow> int \<Rightarrow> int \<Rightarrow> int \<Rightarrow> int \<times> int) \<Rightarrow> session \<Rightarrow> session option" where
  "work_step rounded s =
     (case ms_worker s of
        Working ((w # ws) # gs) m \<Rightarrow>
          map_option (\<lambda>(s1, r). (case r of
              Inr ws' \<Rightarrow> s1\<lparr>ms_worker := Working ((ws' @ ws) # gs) m\<rparr>
            | Inl e \<Rightarrow> (case m of
                  In_Packet \<Rightarrow> leave (session_fail e s1)
                | At_End _ rest \<Rightarrow> s1\<lparr>ms_worker := Working gs (At_End (Some e) rest)\<rparr>))) (do_work rounded w s)
      | Working ([] # gs) m \<Rightarrow> Some (s\<lparr>ms_worker := Working gs m\<rparr>)
      | Working [] In_Packet \<Rightarrow> Some (s\<lparr>ms_worker := Looping\<rparr>)
      | Working [] (At_End None (Some rest)) \<Rightarrow>
          (case pipeline_flush rest (ms_pipe s) of
             Inl e \<Rightarrow> Some (s\<lparr>ms_worker := Working [] (At_End (Some e) None)\<rparr>)
           | Inr (cs, p) \<Rightarrow> Some (s\<lparr>ms_pipe := p, ms_worker := Working [map (Queue_Audio (ms_epoch s)) cs] (At_End None None)\<rparr>))
      | Working [] (At_End None None) \<Rightarrow> Some ((session_finish s)\<lparr>ms_worker := Waiting\<rparr>)
      | Working [] (At_End (Some e) _) \<Rightarrow> Some (leave (session_fail e s))
      | _ \<Rightarrow> None)"

section \<open>The caller\<close>

definition seek_begin :: "int \<Rightarrow> session \<Rightarrow> session" where
  "seek_begin p s =
     (if ms_stop s then s else let (serial, s1) = begin_seek s in s1\<lparr>ms_caller := Seeking p serial\<rparr>)"

definition seek_try :: "bool \<Rightarrow> session \<Rightarrow> session" where
  \<comment> \<open>whether the deadline has passed; a worker that is gone has dropped its end\<close>
  "seek_try expired s =
     (case ms_caller s of
        Seeking p serial \<Rightarrow>
          if worker_is Worker_Gone s then (abandon_seek serial s)\<lparr>ms_caller := Idle\<rparr>
          else if length (ms_commands s) < COMMAND_QUEUE
          then s\<lparr>ms_commands := ms_commands s @ [Seek_To p serial], ms_caller := Idle\<rparr>
          else if expired then (abandon_seek serial s)\<lparr>ms_caller := Idle\<rparr> else s
      | _ \<Rightarrow> s)"

definition poll_video_begin :: "nat \<Rightarrow> session \<Rightarrow> session" where
  "poll_video_begin n s = s\<lparr>ms_caller := Polling_Video (ms_epoch s) (settled s (ms_epoch s)) n []\<rparr>"

definition poll_video_next :: "session \<Rightarrow> session" where
  "poll_video_next s =
     (case ms_caller s of
        Polling_Video e now (Suc n) taken \<Rightarrow>
          (case ms_video s of
             q # qs \<Rightarrow> s\<lparr>ms_video := qs, ms_caller := Polling_Video e now n (if now \<and> fst q = e then taken @ [q] else taken)\<rparr>
           | [] \<Rightarrow> s\<lparr>ms_caller := Polling_Video e now 0 taken\<rparr>)
      | _ \<Rightarrow> s)"

definition poll_audio_begin :: "nat \<Rightarrow> session \<Rightarrow> session" where
  "poll_audio_begin n s = s\<lparr>ms_caller := Polling_Audio (ms_epoch s) (settled s (ms_epoch s)) n []\<rparr>"

definition poll_audio_next :: "session \<Rightarrow> session" where
  "poll_audio_next s =
     (case ms_caller s of
        Polling_Audio e now (Suc n) taken \<Rightarrow>
          (case ms_audio s of
             q # qs \<Rightarrow> s\<lparr>ms_audio := qs, ms_caller := Polling_Audio e now n (if now \<and> fst q = e then taken @ [q] else taken)\<rparr>
           | [] \<Rightarrow> s\<lparr>ms_caller := Polling_Audio e now 0 taken\<rparr>)
      | _ \<Rightarrow> s)"

text \<open>A poll that can take no more is over; its frames are the second components of what it took.\<close>

definition poll_done :: "session \<Rightarrow> bool" where
  "poll_done s \<longleftrightarrow> (case ms_caller s of Polling_Video _ _ n _ \<Rightarrow> n = 0 | Polling_Audio _ _ n _ \<Rightarrow> n = 0 | _ \<Rightarrow> False)"

definition stop_session :: "session \<Rightarrow> session" where
  \<comment> \<open>the flag, and a command that wakes the worker if there is room for it; the join follows\<close>
  "stop_session s =
     (if \<not> worker_is Worker_Gone s \<and> length (ms_commands s) < COMMAND_QUEUE
      then s\<lparr>ms_stop := True, ms_commands := ms_commands s @ [Stop_Worker]\<rparr> else s\<lparr>ms_stop := True\<rparr>)"

section \<open>Steps\<close>

datatype session_action =
    Worker_Opens "media_error + media_info" bool
  | Worker_Loops
  | Worker_Takes "str option"
  | Worker_Reads packet_read
  | Worker_Works
  | Worker_Waits "str option"
  | Worker_Panics
  | Caller_Seeks int
  | Caller_Tries bool
  | Caller_Polls_Video nat
  | Caller_Polls_Audio nat
  | Caller_Takes
  | Caller_Returns
  | Caller_Stops
  | Caller_Drops

definition do_action :: "(int \<Rightarrow> int \<Rightarrow> int \<Rightarrow> int \<Rightarrow> int \<times> int) \<Rightarrow> session_action \<Rightarrow> session \<Rightarrow> session option" where
  "do_action rounded a s =
     (case a of
        Worker_Opens opened listening \<Rightarrow> if worker_is Starting s then Some (worker_start opened listening s) else None
      | Worker_Loops \<Rightarrow> if worker_is Looping s then Some (if ms_stop s then leave s else s\<lparr>ms_worker := Taking\<rparr>) else None
      | Worker_Takes refused \<Rightarrow> if worker_is Taking s then Some (take_command refused s) else None
      | Worker_Reads r \<Rightarrow> if worker_is Reading s then Some (read_packet r s) else None
      | Worker_Works \<Rightarrow> work_step rounded s
      | Worker_Waits refused \<Rightarrow> if worker_is Waiting s then Some (wait_command refused s) else None
      | Worker_Panics \<Rightarrow> if \<not> worker_is Worker_Gone s
          then Some (leave (session_fail (media_err Decode_Failed ''decode worker panicked'') s)) else None
      | Caller_Seeks p \<Rightarrow> if ms_caller s = Idle \<and> \<not> ms_dropped s then Some (seek_begin p s) else None
      | Caller_Tries expired \<Rightarrow> (case ms_caller s of Seeking _ _ \<Rightarrow> Some (seek_try expired s) | _ \<Rightarrow> None)
      | Caller_Polls_Video n \<Rightarrow> if ms_caller s = Idle \<and> \<not> ms_dropped s then Some (poll_video_begin n s) else None
      | Caller_Polls_Audio n \<Rightarrow> if ms_caller s = Idle \<and> \<not> ms_dropped s then Some (poll_audio_begin n s) else None
      | Caller_Takes \<Rightarrow>
          (case ms_caller s of
             Polling_Video _ _ (Suc _) _ \<Rightarrow> Some (poll_video_next s)
           | Polling_Audio _ _ (Suc _) _ \<Rightarrow> Some (poll_audio_next s)
           | _ \<Rightarrow> None)
      | Caller_Returns \<Rightarrow> if poll_done s then Some (s\<lparr>ms_caller := Idle\<rparr>) else None
      | Caller_Stops \<Rightarrow> if ms_caller s = Idle then Some (stop_session s) else None
      | Caller_Drops \<Rightarrow> if ms_caller s = Idle \<and> ms_stop s then Some (s\<lparr>ms_dropped := True\<rparr>) else None)"

fun run_actions :: "(int \<Rightarrow> int \<Rightarrow> int \<Rightarrow> int \<Rightarrow> int \<times> int) \<Rightarrow> session_action list \<Rightarrow> session \<Rightarrow> session option" where
  "run_actions rounded [] s = Some s"
| "run_actions rounded (a # as) s = Option.bind (do_action rounded a s) (run_actions rounded as)"

inductive reachable :: "(int \<Rightarrow> int \<Rightarrow> int \<Rightarrow> int \<Rightarrow> int \<times> int) \<Rightarrow> open_config \<Rightarrow> session \<Rightarrow> bool" for rounded c where
  initial: "reachable rounded c (new_session c)"
| step: "reachable rounded c s \<Longrightarrow> do_action rounded a s = Some s' \<Longrightarrow> reachable rounded c s'"

section \<open>Invariants\<close>

definition serials :: "command list \<Rightarrow> nat list" where
  "serials cs = List.map_filter (\<lambda>c. case c of Seek_To _ k \<Rightarrow> Some k | Stop_Worker \<Rightarrow> None) cs"

lemma serials_simps [simp]:
  "serials [] = []" "serials (Seek_To p k # cs) = k # serials cs" "serials (Stop_Worker # cs) = serials cs"
  "serials (cs @ ds) = serials cs @ serials ds"
  by (simp_all add: serials_def List.map_filter_def)

text \<open>The queues are bounded.\<close>

definition queues_ok :: "session \<Rightarrow> bool" where
  "queues_ok s \<longleftrightarrow> length (ms_video s) \<le> VIDEO_QUEUE_FRAMES \<and> length (ms_audio s) \<le> AUDIO_QUEUE_CHUNKS \<and>
     length (ms_commands s) \<le> COMMAND_QUEUE"

text \<open>The seeks under way are numbered upwards from the one that was applied, and none is above the last
  that was issued.\<close>

definition seeks_ok :: "session \<Rightarrow> bool" where
  "seeks_ok s \<longleftrightarrow> sorted_wrt (<) (ms_epoch s # serials (ms_commands s)) \<and>
     (\<forall>k \<in> set (ms_epoch s # serials (ms_commands s)). k \<le> ms_pending s)"

text \<open>What is queued was queued under the epoch it carries.\<close>

definition work_tagged :: "nat \<Rightarrow> work \<Rightarrow> bool" where
  "work_tagged e w = (case w of Queue_Video k _ \<Rightarrow> k = e | Queue_Audio k _ \<Rightarrow> k = e | _ \<Rightarrow> True)"

definition worker_tagged :: "nat \<Rightarrow> worker \<Rightarrow> bool" where
  "worker_tagged e w = (case w of Working gs _ \<Rightarrow> \<forall>g \<in> set gs. \<forall>x \<in> set g. work_tagged e x | _ \<Rightarrow> True)"

definition tags_ok :: "session \<Rightarrow> bool" where
  "tags_ok s \<longleftrightarrow> list_all (\<lambda>q. fst q \<le> ms_epoch s) (ms_video s) \<and> list_all (\<lambda>q. fst q \<le> ms_epoch s) (ms_audio s) \<and>
     worker_tagged (ms_epoch s) (ms_worker s)"

text \<open>What a poll has taken belongs to the last seek that was issued; a seek that is being issued is the
  last.\<close>

definition caller_ok :: "nat \<Rightarrow> nat \<Rightarrow> nat list \<Rightarrow> caller \<Rightarrow> bool" where
  "caller_ok e p ks c =
     (case c of
        Idle \<Rightarrow> True
      | Seeking _ k \<Rightarrow> k = p \<and> (\<forall>j \<in> set (e # ks). j < k)
      | Polling_Video x now _ taken \<Rightarrow> x \<le> e \<and> (now \<longrightarrow> x = p) \<and> list_all (\<lambda>q. now \<and> fst q = x) taken
      | Polling_Audio x now _ taken \<Rightarrow> x \<le> e \<and> (now \<longrightarrow> x = p) \<and> list_all (\<lambda>q. now \<and> fst q = x) taken)"

lemma caller_ok_simps [simp]:
  "caller_ok e p ks Idle" "caller_ok e p ks (Seeking t k) \<longleftrightarrow> k = p \<and> (\<forall>j \<in> set (e # ks). j < k)"
  "caller_ok e p ks (Polling_Video x now n taken) \<longleftrightarrow> x \<le> e \<and> (now \<longrightarrow> x = p) \<and> list_all (\<lambda>q. now \<and> fst q = x) taken"
  "caller_ok e p ks (Polling_Audio x now n taken2) \<longleftrightarrow> x \<le> e \<and> (now \<longrightarrow> x = p) \<and> list_all (\<lambda>q. now \<and> fst q = x) taken2"
  by (simp_all add: caller_ok_def)

lemma caller_ok_applied: "caller_ok e p (k # ks) c \<Longrightarrow> e < k \<Longrightarrow> caller_ok k p ks c"
  by (cases c) auto

lemma caller_ok_stop: "caller_ok e p ks c \<Longrightarrow> c = Idle \<Longrightarrow> caller_ok e' p' ks' c"
  by simp

definition session_ok :: "session \<Rightarrow> bool" where
  "session_ok s \<longleftrightarrow> queues_ok s \<and> seeks_ok s \<and> tags_ok s \<and>
     caller_ok (ms_epoch s) (ms_pending s) (serials (ms_commands s)) (ms_caller s)"

lemmas session_ok_defs = session_ok_def queues_ok_def seeks_ok_def tags_ok_def

lemmas status_defs = set_ready_def set_position_def session_finish_def set_playing_def session_fail_def leave_def

lemma untagged_drain_work: "(\<And>f. work_tagged e (w f)) \<Longrightarrow> x \<in> set (drain_work w what d) \<Longrightarrow> work_tagged e x"
  by (auto simp: drain_work_def work_tagged_def split: option.splits)

lemma untagged_packet: "(\<And>f. work_tagged e (w f)) \<Longrightarrow> x \<in> set (decode_packet w what first d1 again d2) \<Longrightarrow> work_tagged e x"
  by (auto simp: decode_packet_def work_tagged_def dest!: untagged_drain_work [of e w, rotated] split: send_result.splits option.splits)

text \<open>Most fields do not matter.\<close>

lemma ok_status [simp]:
  "session_ok (s\<lparr>ms_state := st\<rparr>) = session_ok s" "session_ok (s\<lparr>ms_error := er\<rparr>) = session_ok s"
  "session_ok (s\<lparr>ms_info := mi\<rparr>) = session_ok s" "session_ok (s\<lparr>ms_position := p\<rparr>) = session_ok s"
  "session_ok (s\<lparr>ms_last_pts := p\<rparr>) = session_ok s" "session_ok (s\<lparr>ms_vskip := sk\<rparr>) = session_ok s"
  "session_ok (s\<lparr>ms_askip := sk\<rparr>) = session_ok s" "session_ok (s\<lparr>ms_pipe := ap\<rparr>) = session_ok s"
  "session_ok (s\<lparr>ms_stop := b\<rparr>) = session_ok s" "session_ok (s\<lparr>ms_dropped := b\<rparr>) = session_ok s"
  by (simp_all add: session_ok_defs)

lemma worker_tagged_simps [simp]:
  "worker_tagged e Starting" "worker_tagged e Looping" "worker_tagged e Taking" "worker_tagged e Reading" "worker_tagged e Waiting"
  "worker_tagged e Worker_Gone" "worker_tagged e (Working gs m) = (\<forall>g \<in> set gs. \<forall>x \<in> set g. work_tagged e x)"
  by (simp_all add: worker_tagged_def)

lemma ok_tagged: "session_ok s \<Longrightarrow> worker_tagged (ms_epoch s) (ms_worker s)"
  by (simp add: session_ok_def tags_ok_def)

lemma ok_worker: "session_ok s \<Longrightarrow> worker_tagged (ms_epoch s) w \<Longrightarrow> session_ok (s\<lparr>ms_worker := w\<rparr>)"
  by (simp add: session_ok_defs)

lemma ok_taken: "session_ok s \<Longrightarrow> ms_commands s = c # cs \<Longrightarrow> session_ok (s\<lparr>ms_commands := cs\<rparr>)"
  by (cases c; cases "ms_caller s") (auto simp: session_ok_defs)

lemma ok_leave: "session_ok s \<Longrightarrow> session_ok (leave s)"
  by (simp add: leave_def ok_worker)

lemma ok_applied:
  assumes "session_ok s" "ms_commands s = Seek_To p k # cs" "ms_worker s \<in> {Taking, Waiting}"
  shows "session_ok (apply_seek p k (s\<lparr>ms_commands := cs\<rparr>))"
proof -
  have k: "ms_epoch s < k" "k \<le> ms_pending s" "caller_ok k (ms_pending s) (serials cs) (ms_caller s)"
    using assms(1,2) by (auto simp: session_ok_defs intro: caller_ok_applied)
  have w: "worker_tagged k (ms_worker s)" using assms(3) by auto
  have "list_all (\<lambda>q. fst q \<le> k) (ms_video s)" "list_all (\<lambda>q. fst q \<le> k) (ms_audio s)"
    using assms(1) k(1) by (auto simp: session_ok_defs elim!: list.pred_mono_strong)
  note w = w this
  have "session_ok (s\<lparr>ms_commands := cs, ms_pipe := pipeline_reset (ms_pipe s), ms_epoch := k\<rparr>)"
    using assms(1,2) k w by (auto simp: session_ok_defs)
  then show ?thesis by (simp add: apply_seek_def set_position_def)
qed

lemma start_ok: "session_ok s \<Longrightarrow> session_ok (worker_start opened listening s)"
  by (auto simp: worker_start_def Let_def set_ready_def session_fail_def intro!: ok_leave ok_worker split: sum.splits)

lemma loop_ok: "session_ok s \<Longrightarrow> session_ok (if ms_stop s then leave s else s\<lparr>ms_worker := Taking\<rparr>)"
  by (simp add: ok_leave ok_worker)

lemma take_ok:
  assumes "session_ok s" "ms_worker s = Taking"
  shows "session_ok (take_command refused s)"
  using assms ok_applied [OF assms(1)]
  by (auto simp: take_command_def Let_def session_fail_def intro!: ok_worker ok_leave intro: ok_taken split: list.splits command.splits option.splits)

lemma wait_ok:
  assumes "session_ok s" "ms_worker s = Waiting"
  shows "session_ok (wait_command refused s)"
proof -
  have eq: "apply_seek p k (set_playing s1) = set_playing (apply_seek p k s1)" for p k s1
    by (simp add: apply_seek_def set_position_def set_playing_def)
  have played: "session_ok (set_playing s1) = session_ok s1" for s1 by (simp add: set_playing_def)
  show ?thesis
    using assms ok_applied [OF assms(1)]
    by (auto simp: wait_command_def Let_def session_fail_def eq played intro!: ok_worker ok_leave intro: ok_taken
        split: list.splits command.splits option.splits)
qed

lemma read_ok: "session_ok s \<Longrightarrow> session_ok (read_packet r s)"
  by (cases r)
    (auto simp: read_packet_def session_fail_def work_tagged_def intro!: ok_worker ok_leave
      dest!: untagged_packet [rotated] untagged_drain_work [rotated])

lemma work_ok:
  assumes "session_ok s" "do_work rounded w s = Some (s', r)" "work_tagged (ms_epoch s) w"
  shows "session_ok s' \<and> ms_epoch s' = ms_epoch s \<and> (\<forall>ws. r = Inr ws \<longrightarrow> (\<forall>x \<in> set ws. work_tagged (ms_epoch s) x))"
proof (cases w)
  case (Show_Video d pts key)
  then show ?thesis
    using assms(1,2) by (auto simp: do_work_def Let_def work_tagged_def split: if_splits sum.splits)
next
  case (Queue_Video e f)
  have "session_ok (set_position t (s\<lparr>ms_video := ms_video s @ [(e, f)]\<rparr>))" if "length (ms_video s) < VIDEO_QUEUE_FRAMES" for t
    using assms(1,3) that Queue_Video by (auto simp: set_position_def session_ok_defs work_tagged_def)
  then show ?thesis
    using assms(1,2) Queue_Video
    by (auto simp: do_work_def send_bounded_def set_position_def split: if_splits send_outcome.splits)
next
  case (Play_Audio d)
  then show ?thesis
    using assms(1,2) by (auto simp: do_work_def work_tagged_def split: if_splits sum.splits)
next
  case (Queue_Audio e c)
  have "session_ok (s\<lparr>ms_audio := ms_audio s @ [(e, c)]\<rparr>)" if "length (ms_audio s) < AUDIO_QUEUE_CHUNKS"
    using assms(1,3) that Queue_Audio by (auto simp: session_ok_defs work_tagged_def)
  then show ?thesis
    using assms(1,2) Queue_Audio
    by (auto simp: do_work_def send_bounded_def split: if_splits send_outcome.splits)
next
  case (Broken e)
  then show ?thesis using assms(1,2) by (auto simp: do_work_def)
qed

lemma work_step_ok:
  assumes "session_ok s" "work_step rounded s = Some s'"
  shows "session_ok s'"
proof -
  obtain gs m where w: "ms_worker s = Working gs m"
    using assms(2) by (cases "ms_worker s") (simp_all add: work_step_def)
  have tagged: "\<forall>g \<in> set gs. \<forall>x \<in> set g. work_tagged (ms_epoch s) x" using ok_tagged [OF assms(1)] w by simp
  show ?thesis
  proof (cases gs)
    case Nil
    show ?thesis
    proof (cases m)
      case In_Packet
      then show ?thesis using assms w Nil by (auto simp: work_step_def intro!: ok_worker)
    next
      case (At_End er rest)
      have flushed: "session_ok (s\<lparr>ms_pipe := p, ms_worker := Working [map (Queue_Audio (ms_epoch s)) cs] (At_End None None)\<rparr>)" for p cs
        using assms(1) by (intro ok_worker) (auto simp: work_tagged_def)
      show ?thesis
        using assms w Nil At_End flushed
        by (auto simp: work_step_def session_finish_def session_fail_def intro: flushed intro!: ok_worker ok_leave
            split: option.splits sum.splits) (simp add: work_tagged_def)
    qed
  next
    case (Cons g gs')
    show ?thesis
    proof (cases g)
      case Nil
      then show ?thesis using assms w Cons tagged by (auto simp: work_step_def intro!: ok_worker)
    next
      case g: (Cons x ws)
      obtain s1 r where d: "do_work rounded x s = Some (s1, r)"
        using assms(2) w Cons g by (cases "do_work rounded x s") (auto simp: work_step_def)
      have "work_tagged (ms_epoch s) x" using tagged Cons g by simp
      note ok = work_ok [OF assms(1) d this]
      show ?thesis
      proof (cases r)
        case (Inr ws')
        then have "s' = s1\<lparr>ms_worker := Working ((ws' @ ws) # gs') m\<rparr>"
          using assms(2) w Cons g d by (simp add: work_step_def)
        then show ?thesis using ok Inr tagged Cons g by (auto intro!: ok_worker)
      next
        case (Inl e)
        then have "s' = (case m of In_Packet \<Rightarrow> leave (session_fail e s1)
            | At_End _ rest \<Rightarrow> s1\<lparr>ms_worker := Working gs' (At_End (Some e) rest)\<rparr>)"
          using assms(2) w Cons g d by (simp add: work_step_def)
        then show ?thesis using ok tagged Cons by (auto simp: session_fail_def intro!: ok_worker ok_leave split: mode.splits)
      qed
    qed
  qed
qed

lemma seek_ok:
  assumes "session_ok s" "ms_caller s = Idle"
  shows "session_ok (seek_begin p s)"
  using assms by (auto simp: seek_begin_def begin_seek_def session_ok_defs less_Suc_eq_le)

lemma try_ok:
  assumes "session_ok s"
  shows "session_ok (seek_try expired s)"
proof (cases "ms_caller s")
  case (Seeking p k)
  have "session_ok ((abandon_seek k s)\<lparr>ms_caller := Idle\<rparr>)"
    using assms Seeking by (auto simp: abandon_seek_def session_ok_defs)
  moreover have "session_ok (s\<lparr>ms_commands := ms_commands s @ [Seek_To p k], ms_caller := Idle\<rparr>)" if "length (ms_commands s) < COMMAND_QUEUE"
    using assms Seeking that by (auto simp: session_ok_defs sorted_wrt_append)
  ultimately show ?thesis using assms Seeking by (auto simp: seek_try_def)
qed (use assms in \<open>simp_all add: seek_try_def\<close>)

lemma poll_video_ok:
  "session_ok s \<Longrightarrow> ms_caller s = Idle \<Longrightarrow> session_ok (poll_video_begin n s)"
  "session_ok s \<Longrightarrow> session_ok (poll_video_next s)"
  by (auto simp: poll_video_begin_def poll_video_next_def settled_def session_ok_defs split: caller.splits nat.splits list.splits)

lemma poll_audio_ok:
  "session_ok s \<Longrightarrow> ms_caller s = Idle \<Longrightarrow> session_ok (poll_audio_begin n s)"
  "session_ok s \<Longrightarrow> session_ok (poll_audio_next s)"
  by (auto simp: poll_audio_begin_def poll_audio_next_def settled_def session_ok_defs split: caller.splits nat.splits list.splits)

lemma stop_ok: "session_ok s \<Longrightarrow> ms_caller s = Idle \<Longrightarrow> session_ok (stop_session s)"
  by (auto simp: stop_session_def session_ok_defs)

lemma ok_idle: "session_ok s \<Longrightarrow> session_ok (s\<lparr>ms_caller := Idle\<rparr>)"
  by (simp add: session_ok_defs)

lemma step_ok:
  assumes "session_ok s" "do_action rounded a s = Some s'"
  shows "session_ok s'"
proof (cases a)
  case Caller_Takes
  then show ?thesis
    using assms poll_video_ok(2) poll_audio_ok(2) by (auto simp: do_action_def split: caller.splits nat.splits)
next
  case Caller_Returns
  then show ?thesis using assms ok_idle by (auto simp: do_action_def split: if_splits)
next
  case (Caller_Tries expired)
  then show ?thesis using assms try_ok by (auto simp: do_action_def split: caller.splits)
qed (use assms in \<open>auto simp: do_action_def session_fail_def start_ok loop_ok take_ok read_ok work_step_ok wait_ok seek_ok
       poll_video_ok poll_audio_ok stop_ok intro!: ok_leave ok_worker split: if_splits\<close>)

lemma reachable_ok: "reachable rounded c s \<Longrightarrow> session_ok s"
proof (induction rule: reachable.induct)
  case initial
  then show ?case by (simp add: new_session_def session_ok_defs)
qed (rule step_ok)

section \<open>What the caller sees\<close>

lemma taken_current:
  assumes "session_ok s" "x \<le> ms_epoch s" "now \<longrightarrow> x = ms_pending s" "list_all (\<lambda>q. now \<and> fst q = x) taken"
  shows "fst ` set taken \<subseteq> {ms_pending s} \<and> (ms_epoch s \<noteq> ms_pending s \<longrightarrow> fst ` set taken = {})"
  using assms by (cases taken) (auto simp: session_ok_defs list_all_iff)

text \<open>The seeks that what a poll has taken so far belongs to.\<close>

definition taken_serials :: "session \<Rightarrow> nat set" where
  "taken_serials s =
     (case ms_caller s of
        Polling_Video _ _ _ taken \<Rightarrow> fst ` set taken
      | Polling_Audio _ _ _ taken \<Rightarrow> fst ` set taken
      | _ \<Rightarrow> {})"

text \<open>C24: After a seek was issued no frame of the timeline it replaces is shown: whatever the worker,
  the decoder and the caller do and in whatever order, every frame and every chunk that a poll hands
  out was queued under the very last seek that was issued, after the worker had applied it; and while
  a seek is in flight a poll hands out nothing.  The queues, and the seeks that wait, are bounded
  throughout.\<close>

theorem polls_are_current:
  assumes "reachable rounded c s"
  shows "taken_serials s \<subseteq> {ms_pending s} \<and> (ms_epoch s \<noteq> ms_pending s \<longrightarrow> taken_serials s = {}) \<and>
    length (ms_video s) \<le> 2 \<and> length (ms_audio s) \<le> 16 \<and> length (ms_commands s) \<le> 8"
proof -
  have ok: "session_ok s" by (rule reachable_ok [OF assms])
  then have "length (ms_video s) \<le> 2 \<and> length (ms_audio s) \<le> 16 \<and> length (ms_commands s) \<le> 8"
    by (simp add: session_ok_defs VIDEO_QUEUE_FRAMES_def AUDIO_QUEUE_CHUNKS_def COMMAND_QUEUE_def)
  moreover have "taken_serials s \<subseteq> {ms_pending s} \<and> (ms_epoch s \<noteq> ms_pending s \<longrightarrow> taken_serials s = {})"
  proof (cases "ms_caller s")
    case (Polling_Video x now n taken)
    then have "x \<le> ms_epoch s" "now \<longrightarrow> x = ms_pending s" "list_all (\<lambda>q. now \<and> fst q = x) taken"
      using ok by (simp_all add: session_ok_def)
    from taken_current [OF ok this] show ?thesis using Polling_Video by (simp add: taken_serials_def)
  next
    case (Polling_Audio x now n taken)
    then have "x \<le> ms_epoch s" "now \<longrightarrow> x = ms_pending s" "list_all (\<lambda>q. now \<and> fst q = x) taken"
      using ok by (simp_all add: session_ok_def)
    from taken_current [OF ok this] show ?thesis using Polling_Audio by (simp add: taken_serials_def)
  qed (simp_all add: taken_serials_def)
  ultimately show ?thesis by blast
qed

lemma run_reachable: "reachable rounded c s \<Longrightarrow> run_actions rounded as s = Some s' \<Longrightarrow> reachable rounded c s'"
  by (induction as arbitrary: s) (auto simp: Option.bind_eq_Some_conv intro: reachable.step)

text \<open>A stream of one-pixel pictures: one is shown, the caller seeks, the next is shown.\<close>

definition pixel_at :: "int \<Rightarrow> packet_read" where
  "pixel_at t =
     (let d = \<lparr>dr_frames = [\<lparr>dv_pts = Some t, dv_width = 1, dv_height = 1, dv_scaled = \<lambda>w h. Scaled ''rgba'' 4\<rparr>], dr_error = None\<rparr>
      in Video_Packet None True Send_Ok d None d)"

definition demo_info :: media_info where
  "demo_info = \<lparr>mi_container = ''matroska'', mi_duration = None, mi_streams = [], mi_video = None, mi_audio = None\<rparr>"

definition show_pixel :: "int \<Rightarrow> session_action list" where
  "show_pixel t = [Worker_Loops, Worker_Takes None, Worker_Reads (pixel_at t), Worker_Works, Worker_Works, Worker_Works, Worker_Works]"

definition seek_run :: "session_action list" where
  "seek_run = Worker_Opens (Inr demo_info) True # show_pixel 0 @
     [Caller_Seeks 5, Caller_Tries False, Worker_Loops, Worker_Takes None, Worker_Takes None, Worker_Reads (pixel_at 7),
      Worker_Works, Worker_Works, Caller_Polls_Video 4, Caller_Takes, Caller_Takes]"

theorem polls_are_current_witness:
  "\<exists>s. reachable (\<lambda>w h mw mh. (w, h)) (new_config ''/a'') s \<and> taken_serials s = {1} \<and> ms_pending s = 1 \<and> ms_video s = []"
proof -
  have run: "map_option (\<lambda>s. (ms_caller s, ms_pending s, ms_video s))
      (run_actions (\<lambda>w h mw mh. (w, h)) seek_run (new_session (new_config ''/a''))) =
    Some (Polling_Video 1 True 2 [(1, \<lparr>vf_width = 1, vf_height = 1, vf_pts = 7, vf_key = True, vf_data = ''rgba''\<rparr>)], 1, [])"
    by code_simp
  then obtain s where s: "run_actions (\<lambda>w h mw mh. (w, h)) seek_run (new_session (new_config ''/a'')) = Some s"
    "ms_caller s = Polling_Video 1 True 2 [(1, \<lparr>vf_width = 1, vf_height = 1, vf_pts = 7, vf_key = True, vf_data = ''rgba''\<rparr>)]"
    "ms_pending s = 1" "ms_video s = []" by auto
  have r: "reachable (\<lambda>w h mw mh. (w, h)) (new_config ''/a'') s" by (rule run_reachable [OF reachable.initial s(1)])
  have "taken_serials s \<subseteq> {1}" using polls_are_current [OF r] s(3) by simp
  then show ?thesis using r s by (auto simp: taken_serials_def)
qed

section \<open>The worker gets on\<close>

definition is_source :: "work \<Rightarrow> bool" where
  "is_source w = (case w of Show_Video _ _ _ \<Rightarrow> True | Play_Audio _ \<Rightarrow> True | _ \<Rightarrow> False)"

fun worker_rank :: "worker \<Rightarrow> nat" where
  "worker_rank Worker_Gone = 0"
| "worker_rank Waiting = 1"
| "worker_rank Looping = 2"
| "worker_rank (Working _ _) = 3"
| "worker_rank Reading = 4"
| "worker_rank Taking = 5"
| "worker_rank Starting = 6"

fun left_to_do :: "worker \<Rightarrow> nat \<times> nat \<times> nat" where
  "left_to_do (Working gs m) =
     ((case m of At_End _ (Some _) \<Rightarrow> 1 | _ \<Rightarrow> 0), length (filter is_source (concat gs)), length (concat gs) + length gs)"
| "left_to_do _ = (0, 0, 0)"

definition worker_order :: "(session \<times> session) set" where
  "worker_order = measures [worker_rank \<circ> ms_worker, length \<circ> ms_commands, fst \<circ> left_to_do \<circ> ms_worker,
     fst \<circ> snd \<circ> left_to_do \<circ> ms_worker, snd \<circ> snd \<circ> left_to_do \<circ> ms_worker]"

lemma wf_worker_order: "wf worker_order"
  by (simp add: worker_order_def)

lemma work_sources:
  assumes "do_work rounded w s = Some (s', r)"
  shows "ms_worker s' = ms_worker s \<and> ms_commands s' = ms_commands s \<and>
    (\<forall>ws. r = Inr ws \<longrightarrow> (if is_source w then filter is_source ws = [] else ws = []))"
  using assms
  by (cases w) (auto simp: do_work_def is_source_def Let_def set_position_def filter_map o_def split: if_splits sum.splits send_outcome.splits)

lemma work_step_decreases:
  assumes "work_step rounded s = Some s'"
  shows "(s', s) \<in> worker_order"
proof -
  obtain gs m where w: "ms_worker s = Working gs m"
    using assms by (cases "ms_worker s") (simp_all add: work_step_def)
  show ?thesis
  proof (cases gs)
    case Nil
    then show ?thesis
      using assms w by (auto simp: work_step_def worker_order_def session_fail_def session_finish_def leave_def split: mode.splits option.splits sum.splits)
  next
    case (Cons g gs')
    show ?thesis
    proof (cases g)
      case Nil
      then show ?thesis using assms w Cons by (auto simp: work_step_def worker_order_def)
    next
      case g: (Cons x ws)
      obtain s1 r where d: "do_work rounded x s = Some (s1, r)"
        using assms w Cons g by (cases "do_work rounded x s") (auto simp: work_step_def)
      note t = work_sources [OF d]
      show ?thesis
      proof (cases r)
        case (Inr ws')
        then have "s' = s1\<lparr>ms_worker := Working ((ws' @ ws) # gs') m\<rparr>"
          using assms w Cons g d by (simp add: work_step_def)
        then show ?thesis using t Inr w Cons g by (cases "is_source x") (auto simp: worker_order_def)
      next
        case (Inl e)
        then have s': "s' = (case m of In_Packet \<Rightarrow> leave (session_fail e s1)
            | At_End _ rest \<Rightarrow> s1\<lparr>ms_worker := Working gs' (At_End (Some e) rest)\<rparr>)"
          using assms w Cons g d by (simp add: work_step_def)
        show ?thesis
        proof (cases m)
          case In_Packet
          then show ?thesis using s' t w Cons by (simp add: worker_order_def leave_def session_fail_def)
        next
          case (At_End er rest)
          then have "s' = s1\<lparr>ms_worker := Working gs' (At_End (Some e) rest)\<rparr>" using s' by simp
          then show ?thesis using t w Cons g At_End by (auto simp: worker_order_def split: option.splits)
        qed
      qed
    qed
  qed
qed

lemma work_enabled:
  assumes "ms_worker s = Working gs m"
    and "ms_stop s \<or> length (ms_video s) < VIDEO_QUEUE_FRAMES \<and> length (ms_audio s) < AUDIO_QUEUE_CHUNKS"
  shows "\<exists>s'. work_step rounded s = Some s'"
proof -
  have f: "do_work rounded w s \<noteq> None" for w
    using assms(2) by (cases w) (auto simp: do_work_def send_bounded_def Let_def)
  show ?thesis
  proof (cases gs)
    case Nil
    then show ?thesis using assms(1) by (cases m) (auto simp: work_step_def split: option.splits sum.splits)
  next
    case (Cons g gs')
    then show ?thesis
    proof (cases g)
      case (Cons x ws)
      obtain y where "do_work rounded x s = Some y" using f [of x] by (cases "do_work rounded x s") auto
      then show ?thesis using assms(1) \<open>gs = g # gs'\<close> Cons by (simp add: work_step_def split_beta)
    qed (use assms(1) in \<open>simp add: work_step_def\<close>)
  qed
qed

definition worker_action :: "session_action \<Rightarrow> bool" where
  "worker_action a = (case a of Worker_Opens _ _ \<Rightarrow> True | Worker_Loops \<Rightarrow> True | Worker_Takes _ \<Rightarrow> True | Worker_Reads _ \<Rightarrow> True
     | Worker_Works \<Rightarrow> True | Worker_Waits _ \<Rightarrow> True | Worker_Panics \<Rightarrow> True | _ \<Rightarrow> False)"

lemma stopped_step_decreases:
  assumes "ms_stop s" "worker_action a" "do_action rounded a s = Some s'"
  shows "(s', s) \<in> worker_order"
proof (cases a)
  case (Worker_Opens opened listening)
  then show ?thesis
    using assms by (auto simp: do_action_def worker_start_def worker_order_def leave_def session_fail_def set_ready_def Let_def
        split: if_splits sum.splits)
next
  case (Worker_Takes refused)
  then show ?thesis
    using assms by (auto simp: do_action_def take_command_def worker_order_def leave_def session_fail_def apply_seek_def set_position_def Let_def
        split: if_splits list.splits command.splits option.splits)
next
  case (Worker_Reads r)
  then show ?thesis
    using assms by (cases r) (auto simp: do_action_def read_packet_def worker_order_def leave_def session_fail_def split: if_splits)
next
  case Worker_Works
  then show ?thesis using assms by (simp add: do_action_def work_step_decreases)
next
  case Worker_Panics
  then show ?thesis
    using assms by (cases "ms_worker s") (auto simp: do_action_def worker_order_def leave_def session_fail_def split: if_splits)
qed (use assms in \<open>auto simp: do_action_def worker_action_def wait_command_def worker_order_def leave_def split: if_splits\<close>)

lemma stopped_step_enabled:
  assumes "ms_stop s" "ms_worker s \<noteq> Worker_Gone"
  shows "\<exists>a s'. worker_action a \<and> a \<noteq> Worker_Panics \<and> do_action rounded a s = Some s'"
proof (cases "ms_worker s")
  case Starting
  then show ?thesis by (intro exI [of _ "Worker_Opens (Inl closed_error) True"]) (simp add: do_action_def worker_action_def)
next
  case Looping
  then show ?thesis by (intro exI [of _ Worker_Loops]) (simp add: do_action_def worker_action_def)
next
  case Taking
  then show ?thesis by (intro exI [of _ "Worker_Takes None"]) (simp add: do_action_def worker_action_def)
next
  case Reading
  then show ?thesis by (intro exI [of _ "Worker_Reads Other_Packet"]) (simp add: do_action_def worker_action_def)
next
  case (Working gs m)
  then show ?thesis using work_enabled [OF Working, of rounded] assms(1)
    by (intro exI [of _ Worker_Works]) (auto simp: do_action_def worker_action_def)
next
  case Waiting
  then show ?thesis by (intro exI [of _ "Worker_Waits None"]) (simp add: do_action_def worker_action_def)
qed (use assms in simp)

text \<open>C25: A close ends.  Once the stop flag is set the worker takes only finitely many more steps of its
  own, whatever FFmpeg answers to the calls it makes meanwhile and even if nobody polls; and as long
  as it has not left it has a step to take, so it never waits for the caller.\<close>

theorem stop_ends_the_worker:
  "wf {(s', s). ms_stop s \<and> (\<exists>a. worker_action a \<and> do_action rounded a s = Some s')} \<and>
   (\<forall>s. ms_stop s \<longrightarrow> ms_worker s \<noteq> Worker_Gone \<longrightarrow>
      (\<exists>a s'. worker_action a \<and> a \<noteq> Worker_Panics \<and> do_action rounded a s = Some s'))"
proof
  have "{(s', s). ms_stop s \<and> (\<exists>a. worker_action a \<and> do_action rounded a s = Some s')} \<subseteq> worker_order"
    using stopped_step_decreases by blast
  then show "wf {(s', s). ms_stop s \<and> (\<exists>a. worker_action a \<and> do_action rounded a s = Some s')}"
    by (rule wf_subset [OF wf_worker_order])
qed (use stopped_step_enabled in blast)

theorem stop_ends_the_worker_witness:
  "\<exists>s a s'. reachable (\<lambda>w h mw mh. (w, h)) (new_config ''/a'') s \<and> ms_stop s \<and>
     do_action (\<lambda>w h mw mh. (w, h)) a s = Some s' \<and> worker_action a \<and> a \<noteq> Worker_Panics"
proof -
  let ?s = "stop_session (new_session (new_config ''/a''))"
  have "do_action (\<lambda>w h mw mh. (w, h)) Caller_Stops (new_session (new_config ''/a'')) = Some ?s"
    by (simp add: do_action_def new_session_def)
  then have r: "reachable (\<lambda>w h mw mh. (w, h)) (new_config ''/a'') ?s" by (rule reachable.step [OF reachable.initial])
  have "ms_stop ?s" "ms_worker ?s \<noteq> Worker_Gone" by (simp_all add: stop_session_def new_session_def)
  then show ?thesis using r stop_ends_the_worker [THEN conjunct2] by blast
qed

text \<open>While the caller polls, a seek is not starved: work on a packet comes to an end, and the worker
  returns to its commands or waits for them.\<close>

lemma work_ends:
  "wf {(s', s). \<exists>v a. work_step rounded (s\<lparr>ms_video := v, ms_audio := a\<rparr>) = Some s'}"
proof (rule wf_subset [OF wf_worker_order], clarify)
  fix s s' :: session and v a
  assume "work_step rounded (s\<lparr>ms_video := v, ms_audio := a\<rparr>) = Some s'"
  from work_step_decreases [OF this] show "(s', s) \<in> worker_order" by (simp add: worker_order_def)
qed

section \<open>Where the status falls short\<close>

lemma do_work_position: "do_work rounded w s = Some (s', r) \<Longrightarrow> ms_position s \<le> ms_position s'"
  by (cases w) (auto simp: do_work_def set_position_def Let_def split: if_splits sum.splits send_outcome.splits)

lemma work_step_position:
  assumes "work_step rounded s = Some s'"
  shows "ms_position s \<le> ms_position s'"
proof (cases "\<exists>w ws gs m. ms_worker s = Working ((w # ws) # gs) m")
  case True
  then obtain w ws gs m where w: "ms_worker s = Working ((w # ws) # gs) m" by blast
  obtain s1 r where d: "do_work rounded w s = Some (s1, r)"
    using assms w by (cases "do_work rounded w s") (auto simp: work_step_def)
  then have "ms_position s' = ms_position s1"
    using assms w by (cases r; cases m) (auto simp: work_step_def leave_def session_fail_def)
  then show ?thesis using do_work_position [OF d] by simp
next
  case False
  then show ?thesis
    using assms by (auto simp: work_step_def leave_def session_fail_def session_finish_def split: worker.splits list.splits mode.splits option.splits sum.splits)
qed

lemma position_grows:
  assumes "do_action rounded a s = Some s'"
  shows "ms_position s \<le> ms_position s'"
  using assms work_step_position
  by (cases a)
    (auto simp: do_action_def worker_start_def take_command_def wait_command_def read_packet_def seek_begin_def begin_seek_def
      seek_try_def abandon_seek_def poll_video_begin_def poll_video_next_def poll_audio_begin_def poll_audio_next_def
      stop_session_def apply_seek_def set_position_def set_playing_def set_ready_def session_fail_def leave_def Let_def
      split: if_splits sum.splits list.splits command.splits option.splits packet_read.splits caller.splits nat.splits)

text \<open>The position a session reports never goes back: in every run it only grows, so
  after the worker has applied a seek to an earlier position the status still reports the furthest
  one that was reached.\<close>

theorem position_never_goes_back:
  assumes "reachable rounded c s" "ms_worker s = Taking" "ms_commands s = Seek_To p k # cs" "p < st_position (status s)"
    and "do_action rounded (Worker_Takes None) s = Some s'" "run_actions rounded as s' = Some s''"
  shows "ms_epoch s' = k \<and> ms_last_pts s' = p \<and> p < st_position (status s'')"
proof -
  have s': "s' = apply_seek p k (s\<lparr>ms_commands := cs\<rparr>)"
    using assms(2,3,5) by (simp add: do_action_def take_command_def)
  have run: "ms_position t \<le> ms_position t'" if "run_actions rounded bs t = Some t'" for bs t t'
    using that
  proof (induction bs arbitrary: t)
    case (Cons b bs)
    then obtain u where "do_action rounded b t = Some u" "run_actions rounded bs u = Some t'"
      by (auto simp: Option.bind_eq_Some_conv)
    then show ?case using Cons.IH position_grows by fastforce
  qed simp
  have "p < ms_position s'" using assms(4) s' by (simp add: status_def apply_seek_def set_position_def)
  also have "\<dots> \<le> ms_position s''" by (rule run [OF assms(6)])
  finally show ?thesis using s' by (simp add: status_def apply_seek_def set_position_def)
qed

definition back_run :: "session_action list" where
  "back_run = Worker_Opens (Inr demo_info) True # show_pixel 9 @ [Worker_Loops, Caller_Seeks 2, Caller_Tries False]"

theorem position_never_goes_back_witness:
  "\<exists>s s'. reachable (\<lambda>w h mw mh. (w, h)) (new_config ''/a'') s \<and>
     do_action (\<lambda>w h mw mh. (w, h)) (Worker_Takes None) s = Some s' \<and> ms_last_pts s' = 2 \<and> 2 < st_position (status s')"
proof -
  have run: "map_option (\<lambda>s. (worker_is Taking s, ms_commands s, st_position (status s)))
      (run_actions (\<lambda>w h mw mh. (w, h)) back_run (new_session (new_config ''/a''))) = Some (True, [Seek_To 2 1], 9)"
    by code_simp
  then obtain s where s: "run_actions (\<lambda>w h mw mh. (w, h)) back_run (new_session (new_config ''/a'')) = Some s"
    "ms_worker s = Taking" "ms_commands s = [Seek_To 2 1]" "st_position (status s) = 9"
    by auto
  have r: "reachable (\<lambda>w h mw mh. (w, h)) (new_config ''/a'') s" by (rule run_reachable [OF reachable.initial s(1)])
  obtain s' where s': "do_action (\<lambda>w h mw mh. (w, h)) (Worker_Takes None) s = Some s'"
    using s(2) by (simp add: do_action_def)
  have "ms_last_pts s' = 2 \<and> 2 < st_position (status s')"
    using position_never_goes_back [OF r s(2,3) _ s', of "[]" s'] s(4) by simp
  then show ?thesis using r s' by blast
qed

text \<open>A poll that starts while a seek is in flight throws away whatever it finds, on the
  assumption that it belongs to the timeline being replaced.  If the worker applies the seek and
  queues a frame while the poll runs, that frame - the first at the new position, carrying the epoch
  of the seek - is thrown away with the rest: no seek is in flight any more, the frame is current,
  and no later poll will find it.\<close>

definition race_run :: "session_action list" where
  "race_run = [Worker_Opens (Inr demo_info) True, Caller_Seeks 5, Caller_Tries False, Caller_Polls_Video 4,
     Worker_Loops, Worker_Takes None, Worker_Takes None, Worker_Reads (pixel_at 7), Worker_Works, Worker_Works]"

theorem poll_drops_the_frame_sought:
  "\<exists>s s' f. reachable (\<lambda>w h mw mh. (w, h)) (new_config ''/a'') s \<and> do_action (\<lambda>w h mw mh. (w, h)) Caller_Takes s = Some s' \<and>
     ms_epoch s = ms_pending s \<and> ms_video s = [(ms_pending s, f)] \<and> vf_pts f = 7 \<and> ms_video s' = [] \<and> taken_serials s' = {}"
proof -
  have run: "map_option (\<lambda>s. (ms_caller s, ms_epoch s, ms_pending s, map (\<lambda>(e, f). (e, vf_pts f)) (ms_video s)))
      (run_actions (\<lambda>w h mw mh. (w, h)) race_run (new_session (new_config ''/a''))) = Some (Polling_Video 0 False 4 [], 1, 1, [(1, 7)])"
    by code_simp
  then obtain s where s: "run_actions (\<lambda>w h mw mh. (w, h)) race_run (new_session (new_config ''/a'')) = Some s"
    "ms_caller s = Polling_Video 0 False 4 []" "ms_epoch s = 1" "ms_pending s = 1" "map (\<lambda>(e, f). (e, vf_pts f)) (ms_video s) = [(1, 7)]"
    by auto
  then obtain f where f: "ms_video s = [(1, f)]" "vf_pts f = 7" by auto
  have r: "reachable (\<lambda>w h mw mh. (w, h)) (new_config ''/a'') s" by (rule run_reachable [OF reachable.initial s(1)])
  have "do_action (\<lambda>w h mw mh. (w, h)) Caller_Takes s = Some (s\<lparr>ms_video := [], ms_caller := Polling_Video 0 False 3 []\<rparr>)"
    using s(2) f(1) by (simp add: do_action_def poll_video_next_def numeral_eq_Suc)
  then show ?thesis using r s f by (force simp: taken_serials_def)
qed

end
