(* ===== verification/Gui_Bridge.thy ===== *)
theory Gui_Bridge
  imports Ipc_Server
begin

text \<open>
  The bridge between the control socket and the user interface, \<open>crates/gpty-gdext/src/ipc.rs\<close>: a
  handler queues its request for the interface, which polls the queue once a frame, and waits for the
  answer on a channel of its own.  Handlers run on the threads of the socket server, the interface on
  its own; the model interleaves their steps, one per section that holds a lock or awaits.  Ids and
  times (in milliseconds) do not reach their width.  The JSON text is a parameter.
\<close>

section \<open>Requests and their deadlines\<close>

record ipc_request =
  iq_id :: nat
  iq_method :: str
  iq_params :: str
  iq_deadline :: int

definition GDS_RESPONSE_TIMEOUT :: int where "GDS_RESPONSE_TIMEOUT = 5 * 1000"
definition PLUGIN_REVIEW_TIMEOUT :: int where "PLUGIN_REVIEW_TIMEOUT = 300 * 1000"
definition PANE_WAIT_TIMEOUT :: int where "PANE_WAIT_TIMEOUT = 70 * 1000"
definition DISPATCH_SLACK :: int where "DISPATCH_SLACK = 5 * 1000"

definition fallback_timeout :: "str \<Rightarrow> int" where
  "fallback_timeout m =
     (if m = ''paneWait'' then PANE_WAIT_TIMEOUT
      else if m = ''pluginInstall'' then PLUGIN_REVIEW_TIMEOUT
      else GDS_RESPONSE_TIMEOUT)"

definition dispatch_timeout :: "str \<Rightarrow> int" where
  "dispatch_timeout m = fallback_timeout m + DISPATCH_SLACK"

record request_doc =
  rd_id :: nat
  rd_method :: str
  rd_params :: str
  rd_timeout :: int

definition request_document_at :: "ipc_request \<Rightarrow> int \<Rightarrow> request_doc" where
  "request_document_at r now =
     \<lparr>rd_id = iq_id r, rd_method = iq_method r, rd_params = iq_params r, rd_timeout = max 0 (iq_deadline r - now)\<rparr>"

text \<open>The first parameter reads a JSON value, the second an error object.\<close>

definition handler_outcome :: "(str \<Rightarrow> json option) \<Rightarrow> (str \<Rightarrow> rpc_err option) \<Rightarrow> bool \<Rightarrow> str \<Rightarrow> rpc_err + json" where
  "handler_outcome parse parse_error success result =
     (if success then Inr (unwrap_or (parse result) JNull)
      else (case parse_error result of
          Some e \<Rightarrow> Inl e
        | None \<Rightarrow> Inl (rpc_err_new SERVER_ERROR result)))"

definition channel_closed_error :: rpc_err where
  "channel_closed_error = rpc_err_new SERVER_ERROR ''internal error: response channel closed''"

definition gui_timeout_error :: rpc_err where
  "gui_timeout_error = rpc_err_new SERVER_ERROR ''timeout waiting for GUI response''"

section \<open>The state\<close>

text \<open>One call of a handler: it has its id, its request is queued, its sender is registered, it waits on
  the channel until a deadline, it has given up, or it has answered.  The channel is what it waits on.\<close>

datatype channel = Silent | Sent_Answer bool str | Sender_Dropped

datatype call_phase = Numbered | Queued | Registered channel | Awaiting int channel | Elapsed | Answered "rpc_err + json"

record gui_call =
  gc_method :: str
  gc_params :: str
  gc_timeout :: int
  gc_arrived :: int                             \<comment> \<open>when the handler was called\<close>
  gc_phase :: call_phase

text \<open>\<open>PENDING_REQUESTS\<close>, and \<open>PENDING_RESPONSES\<close> as the map from an id to the call that holds the
  other end of the channel; besides, what the interface was handed and which of its answers were
  taken.\<close>

record bridge =
  br_next :: nat
  br_queue :: "ipc_request list"
  br_responses :: "nat \<rightharpoonup> nat"
  br_calls :: "nat \<rightharpoonup> gui_call"
  br_now :: int
  br_handed :: "request_doc list"
  br_taken :: "(nat \<times> bool \<times> str) list"

definition new_bridge :: bridge where
  "new_bridge = \<lparr>br_next = 0, br_queue = [], br_responses = Map.empty, br_calls = Map.empty, br_now = 0, br_handed = [], br_taken = []\<rparr>"

definition phase_of :: "bridge \<Rightarrow> nat \<Rightarrow> call_phase option" where
  "phase_of b i = map_option gc_phase (br_calls b i)"

definition set_phase :: "nat \<Rightarrow> call_phase \<Rightarrow> bridge \<Rightarrow> bridge" where
  "set_phase i p b =
     (case br_calls b i of Some c \<Rightarrow> b\<lparr>br_calls := (br_calls b)(i \<mapsto> c\<lparr>gc_phase := p\<rparr>)\<rparr> | None \<Rightarrow> b)"

section \<open>The handler\<close>

definition call_arrives :: "str \<Rightarrow> str \<Rightarrow> int \<Rightarrow> bridge \<Rightarrow> bridge" where
  "call_arrives m params t b =
     (let i = br_next b + 1
      in b\<lparr>br_next := i, br_calls := (br_calls b)(i \<mapsto> \<lparr>gc_method = m, gc_params = params, gc_timeout = t, gc_arrived = br_now b, gc_phase = Numbered\<rparr>)\<rparr>)"

definition call_queues :: "nat \<Rightarrow> gui_call \<Rightarrow> bridge \<Rightarrow> bridge" where
  "call_queues i c b =
     set_phase i Queued (b\<lparr>br_queue := br_queue b @
       [\<lparr>iq_id = i, iq_method = gc_method c, iq_params = gc_params c, iq_deadline = br_now b + gc_timeout c\<rparr>]\<rparr>)"

definition call_registers :: "nat \<Rightarrow> bridge \<Rightarrow> bridge" where
  "call_registers i b = set_phase i (Registered Silent) (b\<lparr>br_responses := (br_responses b)(i \<mapsto> i)\<rparr>)"

definition call_waits :: "nat \<Rightarrow> gui_call \<Rightarrow> channel \<Rightarrow> bridge \<Rightarrow> bridge" where
  "call_waits i c ch b = set_phase i (Awaiting (br_now b + gc_timeout c) ch) b"

text \<open>What the wait ends with: the channel is looked at before the timer.\<close>

definition call_wakes :: "(str \<Rightarrow> json option) \<Rightarrow> (str \<Rightarrow> rpc_err option) \<Rightarrow> nat \<Rightarrow> int \<Rightarrow> channel \<Rightarrow> bridge \<Rightarrow> bridge option" where
  "call_wakes parse parse_error i deadline ch b =
     (case ch of
        Sent_Answer success result \<Rightarrow> Some (set_phase i (Answered (handler_outcome parse parse_error success result)) b)
      | Sender_Dropped \<Rightarrow> Some (set_phase i (Answered (Inl channel_closed_error)) b)
      | Silent \<Rightarrow> if deadline \<le> br_now b then Some (set_phase i Elapsed b) else None)"

definition call_cleans :: "nat \<Rightarrow> bridge \<Rightarrow> bridge" where
  "call_cleans i b =
     set_phase i (Answered (Inl gui_timeout_error))
       (b\<lparr>br_responses := (br_responses b)(i := None), br_queue := filter (\<lambda>r. iq_id r \<noteq> i) (br_queue b)\<rparr>)"

section \<open>The interface\<close>

definition drain_requests :: "bridge \<Rightarrow> ipc_request list \<times> bridge" where
  "drain_requests b = (br_queue b, b\<lparr>br_queue := []\<rparr>)"

definition gui_drains :: "bridge \<Rightarrow> bridge" where
  "gui_drains b =
     (let (reqs, b1) = drain_requests b
      in b1\<lparr>br_handed := br_handed b1 @ map (\<lambda>r. request_document_at r (br_now b1)) reqs\<rparr>)"

text \<open>Sending on a channel: its call gets the answer if it is still listening.\<close>

definition send_on :: "nat \<Rightarrow> bool \<Rightarrow> str \<Rightarrow> bridge \<Rightarrow> bridge" where
  "send_on k success result b =
     (case phase_of b k of
        Some (Registered Silent) \<Rightarrow> (set_phase k (Registered (Sent_Answer success result)) b)\<lparr>br_taken := br_taken b @ [(k, success, result)]\<rparr>
      | Some (Awaiting d Silent) \<Rightarrow> (set_phase k (Awaiting d (Sent_Answer success result)) b)\<lparr>br_taken := br_taken b @ [(k, success, result)]\<rparr>
      | _ \<Rightarrow> b)"

definition complete_response :: "nat \<Rightarrow> bool \<Rightarrow> str \<Rightarrow> bridge \<Rightarrow> bridge" where
  "complete_response i success result b =
     (case br_responses b i of
        Some k \<Rightarrow> send_on k success result (b\<lparr>br_responses := (br_responses b)(i := None)\<rparr>)
      | None \<Rightarrow> b)"

section \<open>Steps\<close>

datatype bridge_action =
    Call_Arrives str str
  | Call_Goes_On nat
  | Gui_Drains
  | Gui_Answers nat bool str
  | Time_Passes int

text \<open>A call takes its next step.\<close>

definition call_step :: "(str \<Rightarrow> json option) \<Rightarrow> (str \<Rightarrow> rpc_err option) \<Rightarrow> nat \<Rightarrow> gui_call \<Rightarrow> bridge \<Rightarrow> bridge option" where
  "call_step parse parse_error i c b =
     (case gc_phase c of
        Numbered \<Rightarrow> Some (call_queues i c b)
      | Queued \<Rightarrow> Some (call_registers i b)
      | Registered ch \<Rightarrow> Some (call_waits i c ch b)
      | Awaiting d ch \<Rightarrow> call_wakes parse parse_error i d ch b
      | Elapsed \<Rightarrow> Some (call_cleans i b)
      | Answered _ \<Rightarrow> None)"

text \<open>The interface answers only requests it was handed.\<close>

definition bridge_step :: "(str \<Rightarrow> json option) \<Rightarrow> (str \<Rightarrow> rpc_err option) \<Rightarrow> bridge_action \<Rightarrow> bridge \<Rightarrow> bridge option" where
  "bridge_step parse parse_error a b =
     (case a of
        Call_Arrives m params \<Rightarrow> Some (call_arrives m params (fallback_timeout m) b)
      | Call_Goes_On i \<Rightarrow> (case br_calls b i of Some c \<Rightarrow> call_step parse parse_error i c b | None \<Rightarrow> None)
      | Gui_Drains \<Rightarrow> Some (gui_drains b)
      | Gui_Answers i success result \<Rightarrow>
          if i \<in> set (map rd_id (br_handed b)) then Some (complete_response i success result b) else None
      | Time_Passes n \<Rightarrow> if 0 \<le> n then Some (b\<lparr>br_now := br_now b + n\<rparr>) else None)"

fun bridge_run :: "(str \<Rightarrow> json option) \<Rightarrow> (str \<Rightarrow> rpc_err option) \<Rightarrow> bridge_action list \<Rightarrow> bridge \<Rightarrow> bridge option" where
  "bridge_run parse parse_error [] b = Some b"
| "bridge_run parse parse_error (a # as) b = Option.bind (bridge_step parse parse_error a b) (bridge_run parse parse_error as)"

inductive bridge_reachable :: "(str \<Rightarrow> json option) \<Rightarrow> (str \<Rightarrow> rpc_err option) \<Rightarrow> bridge \<Rightarrow> bool" for parse parse_error where
  start: "bridge_reachable parse parse_error new_bridge"
| step: "bridge_reachable parse parse_error b \<Longrightarrow> bridge_step parse parse_error a b = Some b' \<Longrightarrow> bridge_reachable parse parse_error b'"

lemma bridge_run_reachable:
  "bridge_reachable parse parse_error b \<Longrightarrow> bridge_run parse parse_error as b = Some b' \<Longrightarrow> bridge_reachable parse parse_error b'"
  by (induction as arbitrary: b) (auto simp: Option.bind_eq_Some_conv intro: bridge_reachable.step)

section \<open>Invariants\<close>

definition queued_ids :: "bridge \<Rightarrow> nat set" where "queued_ids b = iq_id ` set (br_queue b)"
definition handed_ids :: "bridge \<Rightarrow> nat set" where "handed_ids b = rd_id ` set (br_handed b)"
definition taken_ids :: "bridge \<Rightarrow> nat set" where "taken_ids b = fst ` set (br_taken b)"

definition call_ok :: "(str \<Rightarrow> json option) \<Rightarrow> (str \<Rightarrow> rpc_err option) \<Rightarrow> bridge \<Rightarrow> nat \<Rightarrow> gui_call \<Rightarrow> bool" where
  "call_ok parse parse_error b i c \<longleftrightarrow>
     (case gc_phase c of
        Numbered \<Rightarrow> i \<notin> queued_ids b \<and> i \<notin> handed_ids b \<and> br_responses b i = None \<and> gc_arrived c \<le> br_now b
      | Queued \<Rightarrow> i \<notin> taken_ids b \<and> br_responses b i = None \<and> gc_arrived c \<le> br_now b
      | Registered ch \<Rightarrow> gc_arrived c \<le> br_now b \<and>
          (case ch of
             Silent \<Rightarrow> i \<notin> taken_ids b \<and> br_responses b i = Some i
           | Sent_Answer s r \<Rightarrow> (i, s, r) \<in> set (br_taken b) \<and> br_responses b i = None
           | Sender_Dropped \<Rightarrow> False)
      | Awaiting d ch \<Rightarrow> gc_arrived c + gc_timeout c \<le> d \<and>
          (case ch of
             Silent \<Rightarrow> i \<notin> taken_ids b \<and> br_responses b i = Some i
           | Sent_Answer s r \<Rightarrow> (i, s, r) \<in> set (br_taken b) \<and> br_responses b i = None
           | Sender_Dropped \<Rightarrow> False)
      | Elapsed \<Rightarrow> i \<notin> taken_ids b \<and> gc_arrived c + gc_timeout c \<le> br_now b
      | Answered r \<Rightarrow> i \<notin> queued_ids b \<and> br_responses b i = None \<and>
          (r = Inl gui_timeout_error \<and> i \<notin> taken_ids b \<and> gc_arrived c + gc_timeout c \<le> br_now b \<or>
           (\<exists>s t. (i, s, t) \<in> set (br_taken b) \<and> r = handler_outcome parse parse_error s t)))"

definition bridge_ok :: "(str \<Rightarrow> json option) \<Rightarrow> (str \<Rightarrow> rpc_err option) \<Rightarrow> bridge \<Rightarrow> bool" where
  "bridge_ok parse parse_error b \<longleftrightarrow>
     (\<forall>i c. br_calls b i = Some c \<longrightarrow> call_ok parse parse_error b i c) \<and>
     (\<forall>i > br_next b. br_calls b i = None) \<and>
     (\<forall>i. br_calls b i = None \<longrightarrow> i \<notin> queued_ids b \<and> i \<notin> handed_ids b) \<and>
     (\<forall>i k. br_responses b i = Some k \<longrightarrow> k = i \<and> br_calls b i \<noteq> None) \<and>
     distinct (map iq_id (br_queue b)) \<and> queued_ids b \<inter> handed_ids b = {} \<and>
     taken_ids b \<subseteq> handed_ids b \<and> distinct (map fst (br_taken b))"

lemma bridge_ok_new: "bridge_ok parse parse_error new_bridge"
  by (simp add: bridge_ok_def new_bridge_def queued_ids_def handed_ids_def taken_ids_def)

lemma set_phase_fields [simp]:
  "br_next (set_phase i p b) = br_next b" "br_queue (set_phase i p b) = br_queue b" "br_responses (set_phase i p b) = br_responses b"
  "br_now (set_phase i p b) = br_now b" "br_handed (set_phase i p b) = br_handed b" "br_taken (set_phase i p b) = br_taken b"
  by (simp_all add: set_phase_def split: option.splits)

lemma set_phase_calls:
  "br_calls b i = Some c \<Longrightarrow> br_calls (set_phase i p b) = (br_calls b)(i \<mapsto> c\<lparr>gc_phase := p\<rparr>)"
  by (simp add: set_phase_def)

text \<open>One call's step changes what the invariant says of it, and of no other call.\<close>

lemma bridge_ok_call:
  assumes "bridge_ok parse parse_error b" "br_calls b i = Some c"
    and "br_calls b' = (br_calls b)(i \<mapsto> c')" "br_next b' = br_next b" "call_ok parse parse_error b' i c'"
    and "\<And>j d. j \<noteq> i \<Longrightarrow> call_ok parse parse_error b j d \<Longrightarrow> call_ok parse parse_error b' j d"
    and "queued_ids b' \<subseteq> insert i (queued_ids b)" "handed_ids b' = handed_ids b"
    and "\<And>j k. br_responses b' j = Some k \<Longrightarrow> br_responses b j = Some k \<or> j = i \<and> k = i"
    and "distinct (map iq_id (br_queue b'))" "queued_ids b' \<inter> handed_ids b' = {}"
    and "taken_ids b' \<subseteq> handed_ids b'" "distinct (map fst (br_taken b'))"
  shows "bridge_ok parse parse_error b'"
proof -
  have "\<forall>j d. br_calls b' j = Some d \<longrightarrow> call_ok parse parse_error b' j d"
    using assms(1,2,3,5,6) by (auto simp: bridge_ok_def)
  moreover have "\<forall>j > br_next b'. br_calls b' j = None" using assms(1-4) by (auto simp: bridge_ok_def)
  moreover have "\<forall>j. br_calls b' j = None \<longrightarrow> j \<notin> queued_ids b' \<and> j \<notin> handed_ids b'"
    using assms(1-3,7,8) by (auto simp: bridge_ok_def split: if_splits)
  moreover have "\<forall>j k. br_responses b' j = Some k \<longrightarrow> k = j \<and> br_calls b' j \<noteq> None"
    using assms(1,3,9) by (fastforce simp: bridge_ok_def)
  ultimately show ?thesis using assms(10-13) by (simp add: bridge_ok_def)
qed

lemmas bridge_ids = queued_ids_def handed_ids_def taken_ids_def

lemma call_ok_calls [simp]: "call_ok parse parse_error (b\<lparr>br_calls := cs\<rparr>) i c = call_ok parse parse_error b i c"
  by (simp add: call_ok_def bridge_ids split: call_phase.split channel.split)

lemma call_step_ok:
  assumes ok: "bridge_ok parse parse_error b" and c: "br_calls b i = Some c" and st: "call_step parse parse_error i c b = Some b'"
  shows "bridge_ok parse parse_error b'"
proof -
  have this_ok: "call_ok parse parse_error b i c" using ok c by (simp add: bridge_ok_def)
  have taken: "taken_ids b \<subseteq> handed_ids b" "queued_ids b \<inter> handed_ids b = {}" "distinct (map iq_id (br_queue b))" "distinct (map fst (br_taken b))"
    using ok by (auto simp: bridge_ok_def)
  show ?thesis
  proof (cases "gc_phase c")
    case Numbered
    let ?r = "\<lparr>iq_id = i, iq_method = gc_method c, iq_params = gc_params c, iq_deadline = br_now b + gc_timeout c\<rparr>"
    have b': "b' = set_phase i Queued (b\<lparr>br_queue := br_queue b @ [?r]\<rparr>)"
      using st Numbered by (simp add: call_step_def call_queues_def)
    have "i \<notin> taken_ids b" using this_ok Numbered taken(1) by (auto simp: call_ok_def)
    then show ?thesis
      by (intro bridge_ok_call [OF ok c, where c' = "c\<lparr>gc_phase := Queued\<rparr>"])
        (use b' this_ok Numbered taken c in \<open>auto simp: set_phase_def call_ok_def bridge_ids split: call_phase.splits channel.splits\<close>)
  next
    case Queued
    have b': "b' = set_phase i (Registered Silent) (b\<lparr>br_responses := (br_responses b)(i \<mapsto> i)\<rparr>)"
      using st Queued by (simp add: call_step_def call_registers_def)
    show ?thesis
      by (rule bridge_ok_call [OF ok c, where c' = "c\<lparr>gc_phase := Registered Silent\<rparr>"])
        (use b' this_ok Queued taken c in \<open>auto simp: set_phase_def call_ok_def bridge_ids split: call_phase.splits channel.splits if_splits\<close>)
  next
    case (Registered ch)
    have b': "b' = set_phase i (Awaiting (br_now b + gc_timeout c) ch) b"
      using st Registered by (simp add: call_step_def call_waits_def)
    show ?thesis
      by (rule bridge_ok_call [OF ok c, where c' = "c\<lparr>gc_phase := Awaiting (br_now b + gc_timeout c) ch\<rparr>"])
        (use b' this_ok Registered taken c in \<open>auto simp: set_phase_def call_ok_def bridge_ids split: call_phase.splits channel.splits\<close>)
  next
    case (Awaiting d ch)
    define p where "p = (case ch of Sent_Answer success result \<Rightarrow> Answered (handler_outcome parse parse_error success result)
      | Sender_Dropped \<Rightarrow> Answered (Inl channel_closed_error) | Silent \<Rightarrow> Elapsed)"
    have b': "b' = set_phase i p b" "ch = Silent \<Longrightarrow> d \<le> br_now b"
      using st Awaiting by (auto simp: call_step_def call_wakes_def p_def split: channel.splits if_splits)
    have "i \<notin> queued_ids b" if "(i, s, r) \<in> set (br_taken b)" for s r
      using taken(1,2) that by (force simp: taken_ids_def)
    then have "call_ok parse parse_error b i (c\<lparr>gc_phase := p\<rparr>)"
      using this_ok Awaiting b'(2) by (auto simp: call_ok_def p_def split: channel.splits)
    then show ?thesis
      by (intro bridge_ok_call [OF ok c, where c' = "c\<lparr>gc_phase := p\<rparr>"])
        (use b'(1) c taken in \<open>auto simp: set_phase_def bridge_ids\<close>)
  next
    case Elapsed
    have b': "b' = set_phase i (Answered (Inl gui_timeout_error))
        (b\<lparr>br_responses := (br_responses b)(i := None), br_queue := filter (\<lambda>r. iq_id r \<noteq> i) (br_queue b)\<rparr>)"
      using st Elapsed by (simp add: call_step_def call_cleans_def)
    show ?thesis
      by (rule bridge_ok_call [OF ok c, where c' = "c\<lparr>gc_phase := Answered (Inl gui_timeout_error)\<rparr>"])
        (use b' this_ok Elapsed c taken in \<open>auto simp: set_phase_def call_ok_def bridge_ids distinct_map_filter split: call_phase.splits channel.splits if_splits\<close>)
  next
    case (Answered r)
    then show ?thesis using st by (simp add: call_step_def)
  qed
qed

lemma call_ok_later: "call_ok parse parse_error b i c \<Longrightarrow> 0 \<le> n \<Longrightarrow> call_ok parse parse_error (b\<lparr>br_now := br_now b + n\<rparr>) i c"
  by (auto simp: call_ok_def bridge_ids split: call_phase.splits channel.splits)

lemma call_ok_drained: "call_ok parse parse_error b i c \<Longrightarrow> call_ok parse parse_error (gui_drains b) i c"
  by (auto simp: call_ok_def bridge_ids gui_drains_def drain_requests_def request_document_at_def split: call_phase.splits channel.splits)

lemma gui_drains_fields [simp]:
  "queued_ids (gui_drains b) = {}" "handed_ids (gui_drains b) = handed_ids b \<union> queued_ids b" "taken_ids (gui_drains b) = taken_ids b"
  "br_queue (gui_drains b) = []" "br_taken (gui_drains b) = br_taken b" "br_responses (gui_drains b) = br_responses b"
  "br_calls (gui_drains b) = br_calls b" "br_next (gui_drains b) = br_next b"
  by (auto simp: bridge_ids gui_drains_def drain_requests_def request_document_at_def image_Un image_image)

lemma complete_response_ok:
  assumes ok: "bridge_ok parse parse_error b" and i: "i \<in> handed_ids b"
  shows "bridge_ok parse parse_error (complete_response i success result b)"
proof (cases "br_responses b i")
  case (Some k)
  then obtain c where k: "k = i" and c: "br_calls b i = Some c" using ok by (fastforce simp: bridge_ok_def)
  have this_ok: "call_ok parse parse_error b i c" using ok c by (simp add: bridge_ok_def)
  have taken: "taken_ids b \<subseteq> handed_ids b" "queued_ids b \<inter> handed_ids b = {}" "distinct (map iq_id (br_queue b))" "distinct (map fst (br_taken b))"
    using ok by (auto simp: bridge_ok_def)
  let ?b1 = "b\<lparr>br_responses := (br_responses b)(i := None)\<rparr>"
  have b': "complete_response i success result b = send_on i success result ?b1"
    using Some k by (simp add: complete_response_def)
  have ph: "phase_of ?b1 i = Some (gc_phase c)" using c by (simp add: phase_of_def)
  consider "gc_phase c = Registered Silent" | d where "gc_phase c = Awaiting d Silent" | "gc_phase c = Elapsed"
    using this_ok Some by (cases "gc_phase c") (auto simp: call_ok_def split: channel.splits)
  then show ?thesis
  proof cases
    case 1
    then have "complete_response i success result b =
        (set_phase i (Registered (Sent_Answer success result)) ?b1)\<lparr>br_taken := br_taken b @ [(i, success, result)]\<rparr>"
      using b' ph by (simp add: send_on_def)
    then show ?thesis
      by (intro bridge_ok_call [OF ok c, where c' = "c\<lparr>gc_phase := Registered (Sent_Answer success result)\<rparr>"])
        (use this_ok taken c i 1 in \<open>auto simp: set_phase_def call_ok_def bridge_ids split: call_phase.splits channel.splits if_splits\<close>)
  next
    case (2 d)
    then have "complete_response i success result b =
        (set_phase i (Awaiting d (Sent_Answer success result)) ?b1)\<lparr>br_taken := br_taken b @ [(i, success, result)]\<rparr>"
      using b' ph by (simp add: send_on_def)
    then show ?thesis
      by (intro bridge_ok_call [OF ok c, where c' = "c\<lparr>gc_phase := Awaiting d (Sent_Answer success result)\<rparr>"])
        (use this_ok taken c i 2 in \<open>auto simp: set_phase_def call_ok_def bridge_ids split: call_phase.splits channel.splits if_splits\<close>)
  next
    case 3
    then have "complete_response i success result b = ?b1" using b' ph by (simp add: send_on_def)
    then show ?thesis
      by (intro bridge_ok_call [OF ok c, where c' = c])
        (use this_ok taken c i 3 in \<open>auto simp: call_ok_def bridge_ids split: call_phase.splits channel.splits if_splits\<close>)
  qed
qed (use ok in \<open>simp add: complete_response_def\<close>)

lemma bridge_step_ok:
  assumes ok: "bridge_ok parse parse_error b" and st: "bridge_step parse parse_error a b = Some b'"
  shows "bridge_ok parse parse_error b'"
proof (cases a)
  case (Call_Arrives m params)
  let ?i = "br_next b + 1"
  have new: "br_calls b ?i = None" using ok by (simp add: bridge_ok_def)
  then have r: "br_responses b ?i = None" using ok by (cases "br_responses b ?i") (fastforce simp: bridge_ok_def)+
  have b': "b' = b\<lparr>br_next := ?i, br_calls := (br_calls b)(?i \<mapsto>
      \<lparr>gc_method = m, gc_params = params, gc_timeout = fallback_timeout m, gc_arrived = br_now b, gc_phase = Numbered\<rparr>)\<rparr>"
    using st Call_Arrives by (simp add: bridge_step_def call_arrives_def Let_def)
  have other: "call_ok parse parse_error b' j d" if "call_ok parse parse_error b j d" for j d
    using that b' by (auto simp: call_ok_def bridge_ids split: call_phase.splits channel.splits)
  have ids: "queued_ids b' = queued_ids b" "handed_ids b' = handed_ids b" "taken_ids b' = taken_ids b" using b' by (simp_all add: bridge_ids)
  have "call_ok parse parse_error b' ?i
      \<lparr>gc_method = m, gc_params = params, gc_timeout = fallback_timeout m, gc_arrived = br_now b, gc_phase = Numbered\<rparr>"
    using new r ok b' ids by (auto simp: call_ok_def bridge_ok_def)
  then show ?thesis using ok other b' ids new by (auto simp: bridge_ok_def)
next
  case (Call_Goes_On i)
  then show ?thesis using st call_step_ok [OF ok] by (auto simp: bridge_step_def split: option.splits)
next
  case Gui_Drains
  then have "b' = gui_drains b" using st by (simp add: bridge_step_def)
  then show ?thesis using ok call_ok_drained by (auto simp: bridge_ok_def)
next
  case (Gui_Answers i s r)
  then show ?thesis using st complete_response_ok [OF ok] by (auto simp: bridge_step_def handed_ids_def split: if_splits)
next
  case (Time_Passes n)
  then have "0 \<le> n" "b' = b\<lparr>br_now := br_now b + n\<rparr>" using st by (auto simp: bridge_step_def split: if_splits)
  then show ?thesis using ok call_ok_later by (auto simp: bridge_ok_def bridge_ids)
qed

lemma bridge_reachable_ok: "bridge_reachable parse parse_error b \<Longrightarrow> bridge_ok parse parse_error b"
  by (induction rule: bridge_reachable.induct) (auto intro: bridge_ok_new bridge_step_ok)

section \<open>Answers\<close>


definition no_json :: "str \<Rightarrow> json option" where "no_json t = (if t = ''null'' then Some JNull else None)"
definition no_error :: "str \<Rightarrow> rpc_err option" where "no_error t = None"

definition answered_run :: "bridge_action list" where
  "answered_run = [Call_Arrives ''listPanes'' ''{}'', Call_Goes_On 1, Call_Goes_On 1, Call_Arrives ''newPane'' ''{}'', Call_Goes_On 2,
     Gui_Drains, Call_Goes_On 1, Call_Goes_On 2, Call_Goes_On 2, Gui_Answers 2 False ''no room'', Gui_Answers 1 True ''null'',
     Gui_Answers 1 False ''again'', Call_Goes_On 1, Call_Goes_On 2]"


text \<open>The steps a call has left.\<close>

fun steps_left :: "call_phase \<Rightarrow> nat" where
  "steps_left Numbered = 5"
| "steps_left Queued = 4"
| "steps_left (Registered _) = 3"
| "steps_left (Awaiting _ _) = 2"
| "steps_left Elapsed = 1"
| "steps_left (Answered _) = 0"

lemma call_step_phase:
  assumes "br_calls b i = Some c" "call_step parse parse_error i c b = Some b'"
  shows "\<exists>p. phase_of b' i = Some p \<and> steps_left p < steps_left (gc_phase c)"
  using assms
  by (cases "gc_phase c")
    (auto simp: call_step_def call_queues_def call_registers_def call_waits_def call_wakes_def call_cleans_def phase_of_def set_phase_def
      split: channel.splits if_splits)

text \<open>C28: Every request is answered and leaves nothing behind.  A call is over after at most five
  steps of its own, and once its time has come it always has one to take, whatever the interface
  does or fails to do; and when all calls are over, no request is queued and no channel is kept.\<close>

theorem gui_calls_end:
  assumes "bridge_reachable parse parse_error b"
  shows "(\<forall>i p. phase_of b i = Some p \<longrightarrow> steps_left p \<le> 5 \<and>
      (\<forall>b'. bridge_step parse parse_error (Call_Goes_On i) b = Some b' \<longrightarrow> (\<exists>q. phase_of b' i = Some q \<and> steps_left q < steps_left p)) \<and>
      (0 < steps_left p \<longrightarrow> (\<forall>d. p = Awaiting d Silent \<longrightarrow> d \<le> br_now b) \<longrightarrow>
        bridge_step parse parse_error (Call_Goes_On i) b \<noteq> None)) \<and>
    ((\<forall>i p. phase_of b i = Some p \<longrightarrow> steps_left p = 0) \<longrightarrow> br_queue b = [] \<and> br_responses b = Map.empty)"
proof -
  have ok: "bridge_ok parse parse_error b" by (rule bridge_reachable_ok [OF assms])
  have le: "steps_left p \<le> 5" for p by (cases p) auto
  have dec: "\<exists>q. phase_of b' i = Some q \<and> steps_left q < steps_left p"
    if "phase_of b i = Some p" "bridge_step parse parse_error (Call_Goes_On i) b = Some b'" for i p b'
    using that call_step_phase by (fastforce simp: bridge_step_def phase_of_def split: option.splits)
  have en: "bridge_step parse parse_error (Call_Goes_On i) b \<noteq> None"
    if "phase_of b i = Some p" "0 < steps_left p" "\<forall>d. p = Awaiting d Silent \<longrightarrow> d \<le> br_now b" for i p
    using that by (cases p) (auto simp: bridge_step_def phase_of_def call_step_def call_wakes_def split: channel.splits)
  have clean: "br_queue b = [] \<and> br_responses b = Map.empty" if over: "\<forall>i p. phase_of b i = Some p \<longrightarrow> steps_left p = 0"
  proof -
    have absent: "i \<notin> queued_ids b \<and> br_responses b i = None" for i
    proof (cases "br_calls b i")
      case None
      then show ?thesis using ok by (cases "br_responses b i") (fastforce simp: bridge_ok_def)+
    next
      case (Some c)
      then have "steps_left (gc_phase c) = 0" "call_ok parse parse_error b i c"
        using over ok by (auto simp: phase_of_def bridge_ok_def)
      then show ?thesis by (cases "gc_phase c") (auto simp: call_ok_def)
    qed
    have "queued_ids b = {}" using absent by auto
    then have "br_queue b = []" by (simp add: queued_ids_def)
    moreover have "br_responses b = Map.empty" by (simp add: absent fun_eq_iff)
    ultimately show ?thesis ..
  qed
  show ?thesis using le dec en clean by blast
qed

theorem gui_calls_end_witness:
  "\<exists>b. bridge_reachable no_json no_error b \<and> br_handed b \<noteq> [] \<and> br_queue b = [] \<and> br_responses b = Map.empty"
proof -
  have "map_option (\<lambda>b. (phase_of b 1, br_next b, map rd_id (br_handed b)))
      (bridge_run no_json no_error
        [Call_Arrives ''newPane'' ''{}'', Call_Goes_On 1, Gui_Drains, Call_Goes_On 1, Call_Goes_On 1, Gui_Answers 1 True ''null'', Call_Goes_On 1]
        new_bridge) = Some (Some (Answered (Inr JNull)), 1, [1])"
    by code_simp
  then obtain b where b: "bridge_run no_json no_error
        [Call_Arrives ''newPane'' ''{}'', Call_Goes_On 1, Gui_Drains, Call_Goes_On 1, Call_Goes_On 1, Gui_Answers 1 True ''null'', Call_Goes_On 1]
        new_bridge = Some b"
    "phase_of b 1 = Some (Answered (Inr JNull))" "br_next b = 1" "map rd_id (br_handed b) = [1]" by auto
  have r: "bridge_reachable no_json no_error b" by (rule bridge_run_reachable [OF bridge_reachable.start b(1)])
  have only: "i = 1" if "phase_of b i = Some p" for i p
  proof -
    have "\<forall>j > 1. br_calls b j = None" using bridge_reachable_ok [OF r] b(3) by (simp add: bridge_ok_def)
    moreover have "br_calls b 0 = None"
      using b(1) by (auto simp: bridge_step_def call_arrives_def call_step_def call_queues_def call_registers_def call_waits_def set_phase_def
        new_bridge_def gui_drains_def drain_requests_def complete_response_def send_on_def phase_of_def call_wakes_def
        split: if_splits option.splits)
    ultimately show ?thesis using that by (cases "i = 0"; cases "1 < i") (auto simp: phase_of_def)
  qed
  have "steps_left p = 0" if "phase_of b i = Some p" for i p using only [OF that] that b(2) by simp
  then have "br_queue b = [] \<and> br_responses b = Map.empty" using gui_calls_end [OF r] by blast
  then show ?thesis using r b(4) by (intro exI [of _ b]) auto
qed

text \<open>A request is in the queue before its channel is registered, so an interface that drains and
  answers it in between answers nobody: the answer is dropped, and the client waits out its budget
  and is told that no answer came.\<close>

lemma answer_before_registration_is_lost:
  "map_option (\<lambda>b. (map rd_id (br_handed b), br_taken b, phase_of b 1))
     (bridge_run no_json no_error
       [Call_Arrives ''newPane'' ''{}'', Call_Goes_On 1, Gui_Drains, Gui_Answers 1 True ''null'', Call_Goes_On 1, Call_Goes_On 1,
        Time_Passes 5000, Call_Goes_On 1, Call_Goes_On 1] new_bridge) =
   Some ([1], [], Some (Answered (Inl gui_timeout_error)))"
  by code_simp

section \<open>The server\<close>

text \<open>What the handlers that are answered here act on: \<open>SHUTDOWN_REQUESTED\<close>, \<open>STARTUP_FAILURE\<close>, \<open>STARTED\<close>.\<close>

record gui_flags =
  gf_shutdown :: bool
  gf_failure :: "str option"
  gf_started :: bool

definition take_shutdown_request :: "gui_flags \<Rightarrow> bool \<times> gui_flags" where
  "take_shutdown_request f = (gf_shutdown f, f\<lparr>gf_shutdown := False\<rparr>)"

definition take_startup_failure :: "gui_flags \<Rightarrow> str option \<times> gui_flags" where
  "take_startup_failure f = (gf_failure f, f\<lparr>gf_failure := None\<rparr>)"

definition version_handler :: "str \<Rightarrow> json \<Rightarrow> gui_flags \<Rightarrow> gui_flags \<times> (rpc_err + json) option" where
  "version_handler version params f = (f, Some (Inr (JObj [(''protocol'', JStr ''2.0''), (''version'', JStr version)])))"

definition shutdown_handler :: "json \<Rightarrow> gui_flags \<Rightarrow> gui_flags \<times> (rpc_err + json) option" where
  "shutdown_handler params f = (f\<lparr>gf_shutdown := True\<rparr>, Some (Inr (JObj [(''shutting_down'', JBool True)])))"

text \<open>Whether the server is to be started.\<close>

definition ensure_server_started :: "gui_flags \<Rightarrow> bool \<times> gui_flags" where
  "ensure_server_started f = (\<not> gf_started f, f\<lparr>gf_started := True\<rparr>)"

definition GDSCRIPT_METHODS :: "str list" where
  "GDSCRIPT_METHODS = [''newPane'', ''listPanes'', ''killPane'', ''focusPane'', ''inject'', ''paneRead'', ''paneStatus'', ''paneRun'',
     ''paneWait'', ''broadcast'', ''layoutSave'', ''layoutLoad'', ''layoutList'', ''conceptList'', ''conceptToggle'', ''vaultWeight'',
     ''pluginInstall'', ''pluginsChanged'']"

text \<open>The server with its handlers; \<open>routed\<close> is what a handler that goes through the bridge does, for a
  method and its budget.\<close>

definition gui_server :: "(str \<Rightarrow> str + request) \<Rightarrow> str option \<Rightarrow> str
    \<Rightarrow> (json \<Rightarrow> gui_flags \<Rightarrow> gui_flags \<times> (rpc_err + json) option) \<Rightarrow> (json \<Rightarrow> gui_flags \<Rightarrow> gui_flags \<times> (rpc_err + json) option)
    \<Rightarrow> (str \<Rightarrow> int \<Rightarrow> json \<Rightarrow> gui_flags \<Rightarrow> gui_flags \<times> (rpc_err + json) option) \<Rightarrow> gui_flags server" where
  "gui_server parse env version search reading routed =
     (let sv = server_new parse;
          sv1 = (case env of Some secret \<Rightarrow> if secret \<noteq> [] then set_secret secret sv else sv | None \<Rightarrow> sv);
          sv2 = register ''vaultRead'' reading (register ''vaultSearch'' search
                  (register ''shutdown'' shutdown_handler (register ''version'' (version_handler version) sv1)))
      in fold (\<lambda>m. register_with_timeout m (routed m (fallback_timeout m)) (nat (dispatch_timeout m))) GDSCRIPT_METHODS sv2)"

text \<open>The server could not start: why, for the interface, and a request to quit.\<close>

definition serve_failed :: "bool \<Rightarrow> gui_flags \<Rightarrow> gui_flags" where
  "serve_failed already_exists f =
     f\<lparr>gf_failure := Some (if already_exists
         then ''Another gPTY window is already running '' @ [CHR 0xE2, CHR 0x80, CHR 0x94] @ '' this one will close.''
         else ''gPTY could not start its control socket '' @ [CHR 0xE2, CHR 0x80, CHR 0x94] @ '' this window will close.''),
       gf_shutdown := True\<rparr>"

lemma fold_register:
  assumes "distinct ms"
  shows "sv_handlers (fold (\<lambda>m. register_with_timeout m (h m) (t m)) ms sv) m =
      (if m \<in> set ms then Some \<lparr>rh_handler = h m, rh_timeout = t m\<rparr> else sv_handlers sv m) \<and>
    sv_secret (fold (\<lambda>m. register_with_timeout m (h m) (t m)) ms sv) = sv_secret sv"
  using assms by (induction ms arbitrary: sv) (auto simp: register_with_timeout_def)

lemma gdscript_methods_distinct: "distinct GDSCRIPT_METHODS"
  by code_simp

text \<open>The server answers exactly the four methods handled here and the eighteen that go through the
  bridge; for each of these the server waits longer than its handler does, so that it is the handler
  that answers a client in time, and the wait for a pane outlives the minute a client may ask for.
  An empty secret is none.\<close>

theorem gui_server_outlives_its_handlers:
  "dom (sv_handlers (gui_server parse env version search reading routed)) =
     {''version'', ''shutdown'', ''vaultSearch'', ''vaultRead''} \<union> set GDSCRIPT_METHODS \<and>
   (\<forall>m \<in> set GDSCRIPT_METHODS. \<exists>e. sv_handlers (gui_server parse env version search reading routed) m = Some e \<and>
      rh_handler e = routed m (fallback_timeout m) \<and> fallback_timeout m + 5000 = int (rh_timeout e)) \<and>
   60000 < fallback_timeout ''paneWait'' \<and>
   sv_secret (gui_server parse env version search reading routed) = (if env = Some [] then None else env)"
proof -
  let ?sv1 = "case env of Some secret \<Rightarrow> if secret \<noteq> [] then set_secret secret (server_new parse) else server_new parse | None \<Rightarrow> server_new parse"
  let ?sv2 = "register ''vaultRead'' reading (register ''vaultSearch'' search
    (register ''shutdown'' shutdown_handler (register ''version'' (version_handler version) ?sv1)))"
  let ?sv = "gui_server parse env version search reading routed"
  have secret: "sv_secret ?sv2 = (if env = Some [] then None else env)" and local: "dom (sv_handlers ?sv2) =
      {''version'', ''shutdown'', ''vaultSearch'', ''vaultRead''}"
    by (auto simp: register_def register_with_timeout_def set_secret_def server_new_def split: option.splits)
  have h: "sv_handlers ?sv m = (if m \<in> set GDSCRIPT_METHODS
      then Some \<lparr>rh_handler = routed m (fallback_timeout m), rh_timeout = nat (dispatch_timeout m)\<rparr> else sv_handlers ?sv2 m)"
    "sv_secret ?sv = sv_secret ?sv2" for m
    by (simp_all add: gui_server_def Let_def fold_register [OF gdscript_methods_distinct])
  have t: "fallback_timeout m + 5000 = int (nat (dispatch_timeout m))" for m
    by (simp add: dispatch_timeout_def fallback_timeout_def DISPATCH_SLACK_def GDS_RESPONSE_TIMEOUT_def PLUGIN_REVIEW_TIMEOUT_def PANE_WAIT_TIMEOUT_def)
  have "dom (sv_handlers ?sv) = dom (sv_handlers ?sv2) \<union> set GDSCRIPT_METHODS" by (auto simp: h(1) dom_def)
  moreover have "60000 < fallback_timeout ''paneWait''" by (simp add: fallback_timeout_def PANE_WAIT_TIMEOUT_def)
  ultimately show ?thesis using h t secret local by simp
qed

end
