(* ===== verification/Ai_Text.thy ===== *)
theory Ai_Text
  imports Rust_Results
begin

text \<open>
  What the AI backends read from a child and write to it as text: one bounded line of its standard
  output (\<open>crates/gpty-ai/src/frame.rs\<close>), its standard error made fit to log (\<open>logtext.rs\<close>), and the
  message a prompt is made of (\<open>prompt.rs\<close>).  A reader is the list of buffers it will fill, an empty
  one meaning the end, or the error it will fail with.
\<close>

section \<open>Characters\<close>

definition is_char_boundary :: "str \<Rightarrow> nat \<Rightarrow> bool" where
  "is_char_boundary s n \<longleftrightarrow> n = 0 \<or> n = length s \<or> n < length s \<and> \<not> cont (s ! n)"

primrec boundary_back :: "str \<Rightarrow> nat \<Rightarrow> nat" where
  "boundary_back s 0 = 0"
| "boundary_back s (Suc n) = (if is_char_boundary s (Suc n) then Suc n else boundary_back s n)"

lemma boundary_back_le: "boundary_back s n \<le> n"
  by (induction n) auto

lemma boundary_back_boundary: "is_char_boundary s (boundary_back s n)"
  by (induction n) (auto simp: is_char_boundary_def)

lemma second_ok_cont: "second_ok a b \<Longrightarrow> cont b"
  by (auto simp: second_ok_def cont_def split: if_splits)

lemma utf8_head_cont:
  assumes "utf8_head a rest = (True, n)" "0 < i" "i < n"
  shows "cont ((a # rest) ! i)"
proof -
  have "n \<le> 4" using assms(1) by (auto simp: utf8_head_def split: if_splits list.splits)
  then consider "i = 1" | "i = 2" | "i = 3" using assms(2,3) by linarith
  then show ?thesis
  proof cases
    case 1
    then show ?thesis using assms(1,3) second_ok_cont by (auto simp: utf8_head_def split: if_splits list.splits)
  next
    case 2
    then show ?thesis using assms(1,3) by (auto simp: utf8_head_def split: if_splits list.splits)
  next
    case 3
    then show ?thesis using assms(1,3) by (auto simp: utf8_head_def split: if_splits list.splits)
  qed
qed

lemma utf8_head_take: "utf8_head a rest = (True, n) \<Longrightarrow> utf8_head a (take (n - 1) rest) = (True, n)"
  by (auto simp: utf8_head_def split: if_splits list.splits)

lemma utf8_head_consumes: "utf8_head a rest = (ok, n) \<Longrightarrow> 0 < n"
  by (auto simp: utf8_head_def split: if_splits list.splits)

lemma utf8_valid_take:
  assumes "utf8_valid s" "is_char_boundary s n" "n \<le> length s"
  shows "utf8_valid (take n s) \<and> utf8_valid (drop n s)"
  using assms
proof (induction s arbitrary: n rule: utf8_chunks.induct)
  case (2 a rest)
  obtain k where h: "utf8_head a rest = (True, k)"
    using 2(2) by (cases "utf8_head a rest") (auto simp: utf8_valid_def)
  have v: "utf8_valid (drop (k - 1) rest)" using 2(2) h by (simp add: utf8_valid_def)
  note pos = utf8_head_consumes [OF h]
  show ?case
  proof (cases "n = 0")
    case False
    have "\<not> (0 < n \<and> n < k)" using utf8_head_cont [OF h] 2(3,4) False utf8_head_len [OF h]
      by (auto simp: is_char_boundary_def)
    then have n: "k \<le> n" using False by simp
    have b: "is_char_boundary (drop (k - 1) rest) (n - k)"
      using 2(3,4) n pos utf8_head_len [OF h] by (auto simp: is_char_boundary_def nth_Cons' add.commute split: if_splits)
    have le: "n - k \<le> length (drop (k - 1) rest)" using 2(4) n pos by simp
    note ih = 2(1) [OF h [symmetric] v b le]
    have "take n (a # rest) = a # (take (k - 1) rest @ take (n - k) (drop (k - 1) rest))"
      using n pos by (cases n) (simp_all add: take_add [symmetric] Suc_diff_le)
    moreover have "utf8_head a (take (k - 1) rest @ take (n - k) (drop (k - 1) rest)) = (True, k)"
      by (rule utf8_head_append [OF utf8_head_take [OF h]])
    ultimately have "utf8_valid (take n (a # rest))" using ih utf8_head_len [OF h] by (simp add: utf8_valid_def)
    moreover have "drop n (a # rest) = drop (n - k) (drop (k - 1) rest)" using n pos by (cases n) simp_all
    ultimately show ?thesis using ih by simp
  qed (use 2(2) in \<open>simp add: utf8_valid_def\<close>)
qed (simp add: utf8_valid_def)

lemma chars_append: "utf8_valid s \<Longrightarrow> chars (s @ t) = chars s @ chars t"
  by (simp add: chars_def utf8_chunks_append)

lemma valid_append: "utf8_valid s \<Longrightarrow> utf8_valid t \<Longrightarrow> utf8_valid (s @ t)"
  by (simp add: utf8_valid_def utf8_chunks_append)

lemma concat_chars: "concat (chars s) = s"
  by (simp add: chars_def concat_utf8_chunks)

text \<open>A character on its own, and strings made of characters.\<close>

definition one_char :: "str \<Rightarrow> bool" where
  "one_char c \<longleftrightarrow> utf8_chunks c = [(True, c)]"

lemma one_char_piece: "(True, c) \<in> set (utf8_chunks s) \<Longrightarrow> one_char c"
proof (induction s rule: utf8_chunks.induct)
  case (2 a rest)
  obtain ok k where h: "utf8_head a rest = (ok, k)" by fastforce
  have "one_char (a # take (k - 1) rest)" if "ok"
    using utf8_head_take [of a rest k] utf8_head_len [of a rest k] h that by (simp add: one_char_def)
  then show ?case using 2(1) [OF h [symmetric]] 2(2) h by auto
qed simp

lemma one_char_chunk: "utf8_valid s \<Longrightarrow> c \<in> set (chars s) \<Longrightarrow> one_char c"
  by (auto simp: chars_def utf8_valid_def list_all_iff intro!: one_char_piece)

lemma chars_concat:
  assumes "list_all one_char cs"
  shows "utf8_valid (concat cs) \<and> chars (concat cs) = cs"
  using assms
proof (induction cs)
  case (Cons c cs)
  then have c: "utf8_valid c" "chars c = [c]" by (auto simp: one_char_def utf8_valid_def chars_def)
  then show ?case using Cons by (simp add: chars_append valid_append)
qed (simp add: utf8_valid_def chars_def)

lemma one_char_ascii: "code b < 0x80 \<Longrightarrow> one_char [b]"
  by (simp add: one_char_def utf8_head_def)

text \<open>A prefix up to a boundary is whole characters.\<close>

lemma chars_take:
  assumes "utf8_valid s" "n \<le> length s"
  shows "utf8_valid (take (boundary_back s n) s) \<and> set (chars (take (boundary_back s n) s)) \<subseteq> set (chars s)"
proof -
  have v: "utf8_valid (take (boundary_back s n) s)"
    using utf8_valid_take [OF assms(1) boundary_back_boundary] boundary_back_le [of s n] assms(2) by simp
  have "chars s = chars (take (boundary_back s n) s) @ chars (drop (boundary_back s n) s)"
    using chars_append [OF v, of "drop (boundary_back s n) s"] by simp
  then show ?thesis using v by auto
qed

section \<open>Standard error\<close>

definition AI_MAX_LINE_BYTES :: nat where "AI_MAX_LINE_BYTES = 2048"
definition MAX_TAIL_LINES :: nat where "MAX_TAIL_LINES = 20"
definition TRUNCATED :: str where "TRUNCATED = '' [truncated]''"

definition bounded_line :: "str \<Rightarrow> str" where
  "bounded_line t =
     (if length t \<le> AI_MAX_LINE_BYTES then t
      else take (boundary_back t (AI_MAX_LINE_BYTES - length TRUNCATED)) t @ TRUNCATED)"

text \<open>Escape sequences, after their \<open>ESC\<close>.\<close>

definition csi_final :: "str \<Rightarrow> bool" where
  "csi_final c \<longleftrightarrow> (case c of [b] \<Rightarrow> 0x40 \<le> code b \<and> code b \<le> 0x7E | _ \<Rightarrow> False)"

fun skip_csi :: "str list \<Rightarrow> str list" where
  "skip_csi [] = []"
| "skip_csi (c # cs) = (if csi_final c then cs else skip_csi cs)"

fun skip_osc :: "str list \<Rightarrow> str list" where
  "skip_osc [] = []"
| "skip_osc (c # cs) =
     (if c = [BEL] then cs
      else if c = [ESC] then (case cs of d # ds \<Rightarrow> if d = [BACKSLASH] then ds else cs | [] \<Rightarrow> [])
      else skip_osc cs)"

definition skip_escape :: "str list \<Rightarrow> str list" where
  "skip_escape cs =
     (case cs of
        [] \<Rightarrow> []
      | c # ds \<Rightarrow> if c = ''['' then skip_csi ds else if c = '']'' then skip_osc ds else ds)"

lemma skip_csi_suffix: "suffix (skip_csi cs) cs"
  by (induction cs) (auto intro: suffix_ConsI)

lemma skip_osc_suffix: "suffix (skip_osc cs) cs"
proof (induction cs)
  case (Cons c cs)
  then show ?case by (cases cs) (simp_all add: suffix_Cons)
qed simp

lemma skip_escape_suffix: "suffix (skip_escape cs) cs"
  using skip_csi_suffix skip_osc_suffix by (cases cs) (auto simp: skip_escape_def intro: suffix_ConsI)

function sanitize_chars :: "str list \<Rightarrow> str list" where
  "sanitize_chars [] = []"
| "sanitize_chars (c # cs) =
     (if c = [ESC] then sanitize_chars (skip_escape cs)
      else if c = [CHR 0x09] then c # sanitize_chars cs
      else if is_control c then sanitize_chars cs
      else c # sanitize_chars cs)"
  by pat_completeness auto
termination
  by (relation "measure length") (auto simp: less_Suc_eq_le suffix_length_le [OF skip_escape_suffix])

definition sanitize :: "str \<Rightarrow> str" where
  "sanitize line = bounded_line (concat (sanitize_chars (chars line)))"

text \<open>The tail of the lines, for a failure message.\<close>

definition tail_push :: "str \<Rightarrow> str list \<Rightarrow> str list" where
  "tail_push line ls = (if length ls = MAX_TAIL_LINES then tl ls else ls) @ [line]"

interpretation stderr_tail: drop_oldest tail_push MAX_TAIL_LINES
  by unfold_locales (auto simp: tail_push_def MAX_TAIL_LINES_def)

definition tail_summary :: "str list \<Rightarrow> str" where
  "tail_summary ls = join_with '' | '' ls"

text \<open>One buffer read from the pipe.\<close>

definition drain_chunk :: "bytes \<Rightarrow> str list \<Rightarrow> str list" where
  "drain_chunk buffer ls = fold tail_push (map sanitize (str_lines (from_utf8_lossy buffer))) ls"

fun spawn_drain :: "(str + bytes) list \<Rightarrow> str list \<Rightarrow> str list" where
  "spawn_drain [] ls = ls"
| "spawn_drain (Inl e # _) ls = ls"
| "spawn_drain (Inr buffer # rest) ls = (if buffer = [] then ls else spawn_drain rest (drain_chunk buffer ls))"

section \<open>What is kept of standard error\<close>

lemma sanitize_chars_from: "c \<in> set (sanitize_chars cs) \<Longrightarrow> c \<in> set cs \<and> (is_control c \<longrightarrow> c = [CHR 0x09])"
proof (induction cs rule: sanitize_chars.induct)
  case (2 d cs)
  then show ?case using set_mono_suffix [OF skip_escape_suffix [of cs]] by (auto split: if_splits)
qed simp

definition line_clean :: "str \<Rightarrow> bool" where
  "line_clean s \<longleftrightarrow> utf8_valid s \<and> length s \<le> AI_MAX_LINE_BYTES \<and> (\<forall>c \<in> set (chars s). is_control c \<longrightarrow> c = [CHR 0x09])"

lemma sanitize_clean:
  assumes "utf8_valid line"
  shows "line_clean (sanitize line)"
proof -
  let ?cs = "sanitize_chars (chars line)"
  have "list_all one_char ?cs"
    using one_char_chunk [OF assms] sanitize_chars_from [of _ "chars line"] by (auto simp: list_all_iff)
  note t = chars_concat [OF this]
  have ctl: "is_control c \<longrightarrow> c = [CHR 0x09]" if "c \<in> set ?cs" for c
    using sanitize_chars_from that by blast
  have tr: "utf8_valid TRUNCATED" "chars TRUNCATED = map (\<lambda>b. [b]) TRUNCATED" "\<forall>c \<in> set (chars TRUNCATED). \<not> is_control c"
    by code_simp+
  show ?thesis
  proof (cases "length (concat ?cs) \<le> AI_MAX_LINE_BYTES")
    case True
    then show ?thesis using t ctl by (simp add: sanitize_def bounded_line_def line_clean_def)
  next
    case False
    let ?n = "AI_MAX_LINE_BYTES - length TRUNCATED"
    have le: "?n \<le> length (concat ?cs)" using False by simp
    note p = chars_take [OF conjunct1 [OF t] le]
    have "length TRUNCATED \<le> AI_MAX_LINE_BYTES" by (simp add: TRUNCATED_def AI_MAX_LINE_BYTES_def)
    then have "boundary_back (concat ?cs) ?n + length TRUNCATED \<le> AI_MAX_LINE_BYTES"
      using boundary_back_le [of "concat ?cs" ?n] by linarith
    then show ?thesis
      using False p t tr ctl by (auto simp: sanitize_def bounded_line_def line_clean_def valid_append chars_append)
  qed
qed

lemma utf8_valid_lossy: "utf8_valid (from_utf8_lossy bs)"
proof -
  have "one_char replacement" by code_simp
  then have "list_all one_char (map (\<lambda>(ok, c). if ok then c else replacement) (utf8_chunks bs))"
    by (auto simp: list_all_iff one_char_piece)
  from chars_concat [OF this] show ?thesis by (simp add: from_utf8_lossy_def)
qed

lemma utf8_valid_ascii_split:
  assumes "utf8_valid (s @ b # t)" "code b < 0x80"
  shows "utf8_valid s \<and> utf8_valid t"
proof -
  have "is_char_boundary (s @ b # t) (length s)" using assms(2) by (simp add: is_char_boundary_def cont_def)
  from utf8_valid_take [OF assms(1) this] have "utf8_valid s" "utf8_valid (b # t)" by simp_all
  moreover from this(2) have "utf8_valid t" using assms(2) by (simp add: utf8_valid_def utf8_head_def)
  ultimately show ?thesis by simp
qed

lemma split_inclusive_valid: "utf8_valid s \<Longrightarrow> list_all utf8_valid (split_inclusive s)"
proof (induction "length s" arbitrary: s rule: less_induct)
  case less
  show ?case
  proof (cases "LF \<in> set s")
    case True
    then obtain l r where s: "s = l @ LF # r" "LF \<notin> set l" by (meson split_list_first)
    have "split_inclusive (l @ LF # r) = (l @ [LF]) # split_inclusive r"
      using s(2) by (induction l) auto
    moreover have v: "utf8_valid l" "utf8_valid r"
      using utf8_valid_ascii_split [of l LF r] less(2) s(1) by (simp_all add: code_def)
    moreover have "list_all utf8_valid (split_inclusive r)" using less(1) [of r] v s(1) by simp
    moreover have "utf8_valid [LF]" by code_simp
    ultimately show ?thesis using s(1) by (simp add: valid_append)
  next
    case False
    then have "split_inclusive s = (if s = [] then [] else [s])" by (induction s) (auto split: if_splits)
    then show ?thesis using less(2) by simp
  qed
qed

lemma str_lines_valid:
  assumes "utf8_valid s"
  shows "list_all utf8_valid (str_lines s)"
proof -
  have "utf8_valid (case strip_suffix [LF] l of None \<Rightarrow> l | Some l' \<Rightarrow> strip_or [CR] l')" if "utf8_valid l" for l
  proof (cases "strip_suffix [LF] l")
    case (Some l')
    then have "utf8_valid l'" using that utf8_valid_ascii_split [of l' LF "[]"] by (simp add: strip_suffix_Some code_def)
    moreover have "utf8_valid p" if "l' = p @ [CR]" for p
      using that \<open>utf8_valid l'\<close> utf8_valid_ascii_split [of p CR "[]"] by (simp add: code_def)
    ultimately have "utf8_valid (strip_or [CR] l')" by (auto simp: strip_or_def strip_suffix_Some split: option.split)
    then show ?thesis using Some by simp
  qed (use that in simp)
  then show ?thesis using split_inclusive_valid [OF assms] by (auto simp: str_lines_def list_all_iff)
qed

text \<open>The buffers read before the pipe ends or fails, and their lines.\<close>

definition until_end :: "(str + bytes) list \<Rightarrow> bytes list" where
  "until_end bufs = map projr (takeWhile (\<lambda>r. case r of Inr b \<Rightarrow> b \<noteq> [] | Inl _ \<Rightarrow> False) bufs)"

definition stderr_lines :: "bytes \<Rightarrow> str list" where
  "stderr_lines buffer = map sanitize (str_lines (from_utf8_lossy buffer))"

lemma spawn_drain_lines:
  "length ls \<le> MAX_TAIL_LINES \<Longrightarrow> spawn_drain bufs ls = last_n MAX_TAIL_LINES (ls @ concat (map stderr_lines (until_end bufs)))"
proof (induction bufs ls rule: spawn_drain.induct)
  case (3 buffer rest ls)
  have d: "drain_chunk buffer ls = last_n MAX_TAIL_LINES (ls @ stderr_lines buffer)"
    using stderr_tail.fold_push [OF 3(2)] by (simp add: drain_chunk_def stderr_lines_def)
  show ?case
  proof (cases "buffer = []")
    case False
    then have "spawn_drain rest (drain_chunk buffer ls) =
        last_n MAX_TAIL_LINES (drain_chunk buffer ls @ concat (map stderr_lines (until_end rest)))"
      using 3(1) d by (simp add: length_last_n)
    then show ?thesis using False d by (simp add: until_end_def last_n_last_n_append)
  qed (use 3(2) in \<open>simp add: until_end_def\<close>)
qed (simp_all add: until_end_def)

text \<open>What a backend's child writes to its standard error, in whatever bytes and pieces, is kept as
  the last twenty of its lines, and of every line nothing reaches a log or a message but valid text
  of at most 2048 bytes without any control character except the tab.\<close>

theorem stderr_tail_is_clean:
  "spawn_drain bufs [] = last_n 20 (concat (map stderr_lines (until_end bufs))) \<and>
   list_all line_clean (concat (map stderr_lines (until_end bufs)))"
proof -
  have "list_all line_clean (stderr_lines b)" for b
    using str_lines_valid [OF utf8_valid_lossy [of b]] sanitize_clean by (auto simp: stderr_lines_def list_all_iff)
  then show ?thesis
    using spawn_drain_lines [of "[]" bufs] by (auto simp: MAX_TAIL_LINES_def list_all_iff)
qed

section \<open>Frames\<close>

definition frame_error :: "nat \<Rightarrow> str \<Rightarrow> str" where
  "frame_error limit label = label @ '' backend frame exceeds '' @ dec limit @ '' bytes''"

text \<open>The line without its end, as text; the error is what the decoder says of it.\<close>

definition frame_text :: "(bytes \<Rightarrow> str) \<Rightarrow> str \<Rightarrow> bytes \<Rightarrow> str + str option" where
  "frame_text why label line =
     (if line = [] then Inr None
      else (let l = (case strip_suffix [LF] line of Some l' \<Rightarrow> strip_or [CR] l' | None \<Rightarrow> line)
            in if utf8_valid l then Inr (Some l) else Inl (label @ '' backend frame not UTF-8: '' @ why l)))"

fun read_frame_loop :: "(bytes \<Rightarrow> str) \<Rightarrow> nat \<Rightarrow> str \<Rightarrow> bytes \<Rightarrow> (str + bytes) list \<Rightarrow> (str + str option) \<times> (str + bytes) list" where
  "read_frame_loop why limit label line [] = (frame_text why label line, [])"
| "read_frame_loop why limit label line (Inl e # cs) = (Inl (label @ '' backend read: '' @ e), cs)"
| "read_frame_loop why limit label line (Inr chunk # cs) =
     (if chunk = [] then (frame_text why label line, cs)
      else (case split_once LF chunk of
          Some (l, r) \<Rightarrow>
            (let rest = (if r = [] then cs else Inr r # cs)
             in if limit < length (line @ l) then (Inl (frame_error limit label), rest)
                else (frame_text why label (line @ l @ [LF]), rest))
        | None \<Rightarrow>
            if limit < length (line @ chunk) then (Inl (frame_error limit label), cs)
            else read_frame_loop why limit label (line @ chunk) cs))"

definition read_frame :: "(bytes \<Rightarrow> str) \<Rightarrow> nat \<Rightarrow> str \<Rightarrow> (str + bytes) list \<Rightarrow> (str + str option) \<times> (str + bytes) list" where
  "read_frame why limit label cs = read_frame_loop why limit label [] cs"

text \<open>The frames of a whole stream: the lines, each without its end, the first that is too long or is
  not text refused.\<close>

definition stream_frame :: "(bytes \<Rightarrow> str) \<Rightarrow> nat \<Rightarrow> str \<Rightarrow> bytes \<Rightarrow> (str + str option) \<times> bytes" where
  "stream_frame why limit label bs =
     (case split_once LF bs of
        Some (l, r) \<Rightarrow> (if limit < length l then Inl (frame_error limit label) else frame_text why label (l @ [LF]), r)
      | None \<Rightarrow> (if limit < length bs then Inl (frame_error limit label) else frame_text why label bs, []))"

lemma split_once_append: "LF \<notin> set xs \<Longrightarrow> split_once LF (xs @ ys) = map_option (\<lambda>(l, r). (xs @ l, r)) (split_once LF ys)"
  by (induction xs) (auto simp: option.map_comp o_def case_prod_unfold option.map_ident)

lemma split_once_at: "LF \<notin> set l \<Longrightarrow> split_once LF (l @ LF # r) = Some (l, r)"
  by (simp add: split_once_Some)

lemma read_frame_loop_stream:
  assumes "LF \<notin> set line" "length line \<le> limit" "\<forall>c \<in> set cs. c \<noteq> []"
  shows "fst (read_frame_loop why limit label line (map Inr cs)) = fst (stream_frame why limit label (line @ concat cs)) \<and>
    (isl (fst (stream_frame why limit label (line @ concat cs))) \<or>
     (\<exists>ds. snd (read_frame_loop why limit label line (map Inr cs)) = map Inr ds \<and> (\<forall>c \<in> set ds. c \<noteq> []) \<and>
       concat ds = snd (stream_frame why limit label (line @ concat cs))))"
  using assms
proof (induction cs arbitrary: line)
  case Nil
  then have "split_once LF line = None" by (simp add: split_once_None)
  then show ?case using Nil(2) by (simp add: stream_frame_def)
next
  case (Cons chunk cs)
  show ?case
  proof (cases "split_once LF chunk")
    case None
    then have no: "LF \<notin> set (line @ chunk)" using Cons.prems(1) by (simp add: split_once_None)
    show ?thesis
    proof (cases "limit < length (line @ chunk)")
      case True
      have "fst (stream_frame why limit label (line @ chunk @ concat cs)) = Inl (frame_error limit label)"
        using True split_once_append [OF no, of "concat cs"] by (cases "split_once LF (concat cs)") (auto simp: stream_frame_def)
      then show ?thesis using None True Cons.prems(3) by simp
    next
      case False
      then show ?thesis using None Cons.IH [OF no] Cons.prems(3) by simp
    qed
  next
    case (Some x)
    then obtain l r where x: "x = (l, r)" "chunk = l @ LF # r" "LF \<notin> set l" by (cases x) (simp add: split_once_Some)
    have sp: "split_once LF (line @ chunk @ concat cs) = Some (line @ l, r @ concat cs)"
      using x(2,3) Cons.prems(1) split_once_at [of "line @ l" "r @ concat cs"] by simp
    let ?ds = "if r = [] then cs else r # cs"
    have ds: "(if r = [] then map Inr cs else Inr r # map Inr cs) = map Inr ?ds" "\<forall>c \<in> set ?ds. c \<noteq> []" "concat ?ds = r @ concat cs"
      using Cons.prems(3) by auto
    have "chunk \<noteq> []" using x(2) by simp
    then have lp: "read_frame_loop why limit label line (map Inr (chunk # cs)) =
        (if limit < length (line @ l) then Inl (frame_error limit label) else frame_text why label (line @ l @ [LF]), map Inr ?ds)"
      using Some x(1) ds(1) by (simp add: Let_def)
    have st: "stream_frame why limit label (line @ concat (chunk # cs)) =
        (if limit < length (line @ l) then Inl (frame_error limit label) else frame_text why label (line @ l @ [LF]), r @ concat cs)"
      by (simp only: stream_frame_def concat.simps sp option.case prod.case append_assoc)
    show ?thesis unfolding lp st fst_conv snd_conv
      by (intro conjI disjI2 exI [of _ ?ds]) (rule refl ds(2) ds(3))+
  qed
qed

text \<open>Reading a frame does not depend on how the child's output arrives: from any buffers it answers
  the next line of the stream, without its newline and carriage return, and leaves exactly the rest;
  a line is refused exactly when it is longer than the limit, or is not text, and an unfinished last
  line is a frame.\<close>

theorem frames_are_lines:
  assumes "\<forall>c \<in> set cs. c \<noteq> []" "read_frame why limit label (map Inr cs) = (r, rest)"
  shows "r = fst (stream_frame why limit label (concat cs)) \<and>
    (isl r \<or> (\<exists>ds. rest = map Inr ds \<and> (\<forall>c \<in> set ds. c \<noteq> []) \<and> concat ds = snd (stream_frame why limit label (concat cs))))"
  using read_frame_loop_stream [of "[]" limit cs why label] assms by (auto simp: read_frame_def)

theorem frames_are_lines_witness:
  "read_frame (\<lambda>_. []) 8 ''omp'' (map Inr [''fir'', ''st'' @ [CR], LF # ''sec'']) = (Inr (Some ''first''), map Inr [''sec'']) \<and>
   fst (stream_frame (\<lambda>_. []) 8 ''omp'' (''first'' @ [CR, LF] @ ''sec'')) = Inr (Some ''first'')"
proof -
  have run: "read_frame (\<lambda>_. []) 8 ''omp'' (map Inr [''fir'', ''st'' @ [CR], LF # ''sec'']) = (Inr (Some ''first''), map Inr [''sec''])"
    by code_simp
  show ?thesis using frames_are_lines [OF _ run] run by simp
qed

section \<open>Prompts\<close>

definition AI_MAX_CAPTURE_BYTES :: nat where "AI_MAX_CAPTURE_BYTES = 64 * 1024"

definition DEFAULT_INSPECTOR_SYSTEM_PROMPT :: str where
  "DEFAULT_INSPECTOR_SYSTEM_PROMPT = ''You are gpty'' @ [CHR 0x27] @ ''s Inspector. You receive captured terminal output from a concept trigger or a user prompt. Summarize what happened, call out errors or next steps, and reply in concise Markdown. Do not invent files or commands that are not supported by the capture. Do not request secrets.''"

definition truncation_marker :: str where
  "truncation_marker = [LF, LF] @ ''[truncated]''"

definition truncate_utf8 :: "str \<Rightarrow> nat \<Rightarrow> str" where
  "truncate_utf8 s n =
     (if length s \<le> n then s
      else if n < length truncation_marker then take n truncation_marker
      else take (boundary_back s (min (n - length truncation_marker) (length s))) s @ truncation_marker)"

text \<open>The pieces between the characters that are not a backtick.  (A character of several bytes leaves
  several empty pieces here and one there, which no maximum sees.)\<close>

fun tick_runs :: "str \<Rightarrow> str list" where
  "tick_runs [] = [[]]"
| "tick_runs (c # s) =
     (if c \<noteq> CHR 0x60 then [] # tick_runs s
      else (case tick_runs s of [] \<Rightarrow> [[c]] | r # rs \<Rightarrow> (c # r) # rs))"

definition MIN_FENCE :: nat where "MIN_FENCE = 3"
definition MAX_FENCE :: nat where "MAX_FENCE = 32"

definition capture_fence :: "str \<Rightarrow> str" where
  "capture_fence s =
     (let longest = fold max (map length (tick_runs s)) 0
      in replicate (min MAX_FENCE (max MIN_FENCE (longest + 1))) (CHR 0x60))"

definition single_line :: "str \<Rightarrow> str" where
  "single_line s = trim (concat (map (\<lambda>c. if is_control c then '' '' else c) (chars s)))"

text \<open>The backends (\<open>types.rs\<close>) and what a prompt is made of.\<close>

datatype backend_kind = Mock | Omp | Cli

record observation =
  ob_backend :: backend_kind
  ob_capture :: str
  ob_concept :: str
  ob_source :: str
  ob_system :: str
  ob_cwd :: str
  ob_model :: str

definition build_user_message :: "observation \<Rightarrow> str" where
  "build_user_message r =
     (let capture = truncate_utf8 (ob_capture r) AI_MAX_CAPTURE_BYTES;
          fence = capture_fence capture
      in join_with [LF]
           ((if ob_concept r \<noteq> [] then [''Concept: '' @ single_line (ob_concept r)] else []) @
            (if ob_source r \<noteq> [] then [''Source pane: '' @ single_line (ob_source r)] else []) @
            [''Captured output:'', fence @ ''text'', capture, fence]))"

definition resolve_system_prompt :: "observation \<Rightarrow> str" where
  "resolve_system_prompt r =
     (let t = trim (ob_system r)
      in if t = [] then DEFAULT_INSPECTOR_SYSTEM_PROMPT else truncate_utf8 t (8 * 1024))"

section \<open>The fence holds\<close>

lemma truncate_utf8_length: "length (truncate_utf8 s n) \<le> n"
proof (cases "length s \<le> n \<or> n < length truncation_marker")
  case False
  let ?m = "min (n - length truncation_marker) (length s)"
  have "boundary_back s ?m \<le> n - length truncation_marker" using boundary_back_le [of s ?m] by simp
  moreover have "length truncation_marker \<le> n" using False by simp
  moreover have "length (take (boundary_back s ?m) s) \<le> boundary_back s ?m" by simp
  ultimately have "length (take (boundary_back s ?m) s) + length truncation_marker \<le> n" by linarith
  then show ?thesis using False by (simp add: truncate_utf8_def)
qed (auto simp: truncate_utf8_def)

lemma truncate_utf8_valid:
  assumes "utf8_valid s"
  shows "utf8_valid (truncate_utf8 s n)"
proof -
  have "utf8_valid (take (boundary_back s (min (n - length truncation_marker) (length s))) s)"
    using chars_take [OF assms, of "min (n - length truncation_marker) (length s)"] by simp
  moreover have "ascii truncation_marker" by code_simp
  then have "utf8_valid truncation_marker" "utf8_valid (take n truncation_marker)"
    by (auto intro!: ascii_valid simp: ascii_def list_all_iff dest!: in_set_takeD [of _ n truncation_marker])
  ultimately show ?thesis unfolding truncate_utf8_def using assms valid_append by presburger
qed

lemma str_contains_sublist: "str_contains s p \<longleftrightarrow> sublist p s"
  by (auto simp: str_contains_def list_ex_iff sublist_altdef')

lemma tick_runs_ticks:
  "\<exists>r rs. tick_runs s = r # rs \<and> prefix r s \<and> (\<forall>q \<in> set (r # rs). sublist q s \<and> q = replicate (length q) (CHR 0x60))"
proof (induction s)
  case (Cons c s)
  then obtain r rs where r: "tick_runs s = r # rs" "prefix r s" "\<forall>q \<in> set (r # rs). sublist q s \<and> q = replicate (length q) (CHR 0x60)"
    by blast
  have up: "sublist q (c # s)" if "sublist q s" for q using that by (rule sublist_Cons_right [THEN iffD2, OF disjI2])
  show ?case
  proof (cases "c = CHR 0x60")
    case True
    have "sublist (c # r) (c # s)" using r(2) by (simp add: prefix_imp_sublist)
    moreover have "c # r = replicate (length (c # r)) (CHR 0x60)" using r(3) True by simp
    ultimately show ?thesis using True r up by auto
  next
    case False
    then show ?thesis using r up by auto
  qed
qed simp

lemma tick_runs_covers:
  "sublist (replicate n (CHR 0x60)) s \<Longrightarrow> \<exists>q \<in> set (tick_runs s). n \<le> length q"
proof (induction s)
  case (Cons c s)
  obtain r rs where r: "tick_runs s = r # rs" using tick_runs_ticks by blast
  have front: "\<exists>r rs. tick_runs (replicate m (CHR 0x60) @ u) = r # rs \<and> m \<le> length r" for m u
  proof (induction m)
    case 0
    obtain r rs where "tick_runs u = r # rs" using tick_runs_ticks by blast
    then show ?case by simp
  qed auto
  show ?case
  proof (cases "sublist (replicate n (CHR 0x60)) s")
    case True
    then obtain q where "q \<in> set (tick_runs s)" "n \<le> length q" using Cons.IH by blast
    then show ?thesis using r by (auto intro: le_SucI)
  next
    case False
    then have "prefix (replicate n (CHR 0x60)) (c # s)" using Cons.prems by (simp add: sublist_Cons_right)
    then obtain u where "c # s = replicate n (CHR 0x60) @ u" by (auto simp: prefix_def)
    then show ?thesis using front [of n u] by fastforce
  qed
qed simp

lemma capture_fence_safe:
  assumes "\<not> str_contains s (replicate 32 (CHR 0x60))"
  shows "\<not> str_contains s (capture_fence s) \<and> set (capture_fence s) = {CHR 0x60} \<and> 3 \<le> length (capture_fence s)"
proof -
  define longest where "longest = fold max (map length (tick_runs s)) 0"
  have fence: "capture_fence s = replicate (min 32 (max 3 (longest + 1))) (CHR 0x60)"
    by (simp add: capture_fence_def longest_def MIN_FENCE_def MAX_FENCE_def)
  have mx: "longest = Max (set (0 # map length (tick_runs s)))" by (simp add: longest_def Max.set_eq_fold [symmetric])
  have ge: "length q \<le> longest" if "q \<in> set (tick_runs s)" for q
    unfolding mx by (rule Max_ge) (use that in auto)
  have "longest \<in> set (0 # map length (tick_runs s))" unfolding mx by (rule Max_in) auto
  then have "longest < 32"
  proof (cases "longest = 0")
    case False
    then obtain q where q: "q \<in> set (tick_runs s)" "longest = length q"
      using \<open>longest \<in> set (0 # map length (tick_runs s))\<close> by auto
    then have "sublist (replicate longest (CHR 0x60)) s" using tick_runs_ticks [of s] by auto
    moreover have "sublist (replicate 32 (CHR 0x60)) (replicate longest (CHR 0x60))" if "32 \<le> longest"
      using that by (metis le_Suc_ex replicate_add sublist_append_rightI)
    ultimately show ?thesis using assms by (meson not_le str_contains_sublist sublist_order.order_trans)
  qed simp
  then have "longest < min 32 (max 3 (longest + 1))" by linarith
  then have "\<not> str_contains s (capture_fence s)"
    using tick_runs_covers ge unfolding fence str_contains_sublist by (meson not_le order_trans)
  then show ?thesis by (auto simp: fence)
qed

lemma one_char_newline: "one_char c \<Longrightarrow> LF \<in> set c \<Longrightarrow> c = [LF]"
proof -
  assume one: "one_char c" and lf: "LF \<in> set c"
  obtain a rest where c: "c = a # rest" using lf by (cases c) auto
  obtain n where h: "utf8_head a rest = (True, n)" "take (n - 1) rest = rest"
    using one c by (cases "utf8_head a rest") (auto simp: one_char_def)
  obtain i where i: "i < length c" "c ! i = LF" using lf by (auto simp: in_set_conv_nth)
  have "length rest \<le> n - 1" using h(2) by (metis length_take min.cobounded2)
  then have len: "length c \<le> n" using c utf8_head_consumes [OF h(1)] by simp
  have "\<not> cont LF" by code_simp
  then have "i = 0" using utf8_head_cont [OF h(1), of i] i len c by (metis less_le_trans neq0_conv)
  then have "a = LF" using i c by simp
  then have "n = 1" using h(1) by (simp add: utf8_head_def code_def)
  then show ?thesis using h(2) c \<open>a = LF\<close> by simp
qed

lemma set_strip_with: "set (strip_with w1 w2 w3 s) \<subseteq> set s"
  by (rule set_mono_suffix [OF suffix_strip_with])

lemma set_trim: "set (trim s) \<subseteq> set s"
proof -
  have "set (trim_end u) \<subseteq> set u" for u
    using set_strip_with [of ws1 "\<lambda>b a. ws2 a b" "\<lambda>c b a. ws3 a b c" "rev u"] by (simp add: trim_end_def)
  then show ?thesis using set_strip_with [of ws1 ws2 ws3 s] unfolding trim_def trim_start_def by blast
qed

lemma single_line_no_newline:
  assumes "utf8_valid s"
  shows "LF \<notin> set (single_line s)"
proof -
  have "LF \<notin> set (if is_control c then '' '' else c)" if "c \<in> set (chars s)" for c
  proof -
    have "is_control [LF]" by code_simp
    then show ?thesis using one_char_newline [OF one_char_chunk [OF assms that]] by auto
  qed
  then have "LF \<notin> set (concat (map (\<lambda>c. if is_control c then '' '' else c) (chars s)))" by (simp only: set_concat set_map) blast
  then show ?thesis using set_trim unfolding single_line_def by blast
qed

text \<open>C29: What a program printed stays quoted.  In the message of a prompt the captured output, cut to
  64 KiB, stands between two equal fences of at least three backticks that do not occur in it, as long
  as it holds no run of 32 of them; and the name of the concept and of the pane make one line each,
  whatever they contain.\<close>

theorem capture_stays_quoted:
  assumes "utf8_valid (ob_concept r)" "utf8_valid (ob_source r)"
    and "\<not> str_contains (truncate_utf8 (ob_capture r) AI_MAX_CAPTURE_BYTES) (replicate 32 (CHR 0x60))"
  shows "\<exists>header fence capture. build_user_message r = header @ fence @ ''text'' @ [LF] @ capture @ [LF] @ fence \<and>
    capture = truncate_utf8 (ob_capture r) AI_MAX_CAPTURE_BYTES \<and> length capture \<le> AI_MAX_CAPTURE_BYTES \<and>
    \<not> str_contains capture fence \<and> set fence = {CHR 0x60} \<and> 3 \<le> length fence \<and>
    length (filter (\<lambda>b. b = LF) header) = 1 + (if ob_concept r = [] then 0 else 1) + (if ob_source r = [] then 0 else 1)"
proof -
  let ?capture = "truncate_utf8 (ob_capture r) AI_MAX_CAPTURE_BYTES"
  let ?concept = "if ob_concept r \<noteq> [] then ''Concept: '' @ single_line (ob_concept r) @ [LF] else []"
  let ?source = "if ob_source r \<noteq> [] then ''Source pane: '' @ single_line (ob_source r) @ [LF] else []"
  let ?header = "?concept @ ?source @ ''Captured output:'' @ [LF]"
  have "build_user_message r = ?header @ capture_fence ?capture @ ''text'' @ [LF] @ ?capture @ [LF] @ capture_fence ?capture"
    by (simp add: build_user_message_def Let_def)
  note message = this
  have none: "filter (\<lambda>b. b = LF) (single_line s) = []" if "utf8_valid s" for s
    using single_line_no_newline [OF that] by (auto simp: filter_empty_conv)
  have lines: "length (filter (\<lambda>b. b = LF) ?header) = 1 + (if ob_concept r = [] then 0 else 1) + (if ob_source r = [] then 0 else 1)"
    using none [OF assms(1)] none [OF assms(2)] by simp
  show ?thesis
    by (rule exI [of _ ?header], rule exI [of _ "capture_fence ?capture"], rule exI [of _ ?capture])
      (intro conjI message refl truncate_utf8_length lines capture_fence_safe [OF assms(3), THEN conjunct1]
        capture_fence_safe [OF assms(3), THEN conjunct2, THEN conjunct1] capture_fence_safe [OF assms(3), THEN conjunct2, THEN conjunct2])
qed

theorem capture_stays_quoted_witness:
  "\<exists>fence. build_user_message \<lparr>ob_backend = Omp, ob_capture = ''a```b'', ob_concept = ''x'' @ [LF] @ ''y'', ob_source = [], ob_system = [], ob_cwd = [], ob_model = []\<rparr> =
      ''Concept: x y'' @ [LF] @ ''Captured output:'' @ [LF] @ fence @ ''text'' @ [LF] @ ''a```b'' @ [LF] @ fence \<and>
    \<not> str_contains ''a```b'' fence"
proof -
  let ?r = "\<lparr>ob_backend = Omp, ob_capture = ''a```b'', ob_concept = ''x'' @ [LF] @ ''y'', ob_source = [], ob_system = [], ob_cwd = [], ob_model = []\<rparr>"
  have c: "truncate_utf8 (ob_capture ?r) AI_MAX_CAPTURE_BYTES = ''a```b''" by (simp add: truncate_utf8_def AI_MAX_CAPTURE_BYTES_def)
  have "capture_fence ''a```b'' = ''````''" "single_line (''x'' @ [LF] @ ''y'') = ''x y''" by code_simp+
  then have run: "build_user_message ?r = ''Concept: x y'' @ [LF] @ ''Captured output:'' @ [LF] @ ''````'' @ ''text'' @ [LF] @ ''a```b'' @ [LF] @ ''````''"
    using c by (simp add: build_user_message_def Let_def)
  have "utf8_valid (ob_concept ?r)" "utf8_valid (ob_source ?r)" "\<not> str_contains ''a```b'' (replicate 32 (CHR 0x60))" by code_simp+
  then obtain header fence capture where f: "build_user_message ?r = header @ fence @ ''text'' @ [LF] @ capture @ [LF] @ fence"
    "capture = ''a```b''" "\<not> str_contains capture fence" "set fence = {CHR 0x60}"
    using capture_stays_quoted [of ?r] c by auto
  have "\<not> str_contains ''a```b'' ''````''" by code_simp
  then show ?thesis using run by blast
qed

text \<open>A run of 32 backticks in the output is as long as the longest fence, and closes it.\<close>

lemma long_run_closes_the_fence:
  "capture_fence (replicate 32 (CHR 0x60)) = replicate 32 (CHR 0x60)"
  by code_simp

end
