(* ===== verification/Ai_Rpc.thy ===== *)
theory Ai_Rpc
  imports Ai_Text Json
begin

text \<open>
  The frames of the OMP backend, \<open>crates/gpty-ai/src/omp.rs\<close>: JSON values, one a line, of which a long
  one is cut into \<open>rpc_chunk\<close> frames that carry its text in base64.  The decoder is a state and one
  function per frame, the errors are their messages; a \<open>usize\<close> has 64 bits.  Reading JSON text is a
  parameter.
\<close>

unbundle bit_operations_syntax

definition MAX_REASSEMBLED_FRAME_BYTES :: nat where "MAX_REASSEMBLED_FRAME_BYTES = 64 * 1024 * 1024"
definition MAX_CHUNKS :: nat where "MAX_CHUNKS = 4096"

section \<open>Base64\<close>

definition between :: "byte \<Rightarrow> byte \<Rightarrow> byte \<Rightarrow> bool" where
  "between l h b \<longleftrightarrow> code l \<le> code b \<and> code b \<le> code h"

definition base64_value :: "byte \<Rightarrow> str + 8 word" where
  "base64_value b =
     (if between (CHR ''A'') (CHR ''Z'') b then Inr (byte_word b - byte_word (CHR ''A''))
      else if between (CHR ''a'') (CHR ''z'') b then Inr (byte_word b - byte_word (CHR ''a'') + 26)
      else if between (CHR ''0'') (CHR ''9'') b then Inr (byte_word b - byte_word (CHR ''0'') + 52)
      else if b = CHR ''+'' then Inr 62
      else if b = CHR ''/'' then Inr 63
      else Inl ''invalid rpc_chunk base64 character'')"

definition word_byte :: "8 word \<Rightarrow> byte" where
  "word_byte w = char_of (unat w)"

text \<open>One group of four: the bytes it adds.\<close>

definition decode_group :: "byte \<Rightarrow> byte \<Rightarrow> byte \<Rightarrow> byte \<Rightarrow> nat \<Rightarrow> str + bytes" where
  "decode_group w x y z room =
     and_then (base64_value w) (\<lambda>a.
     and_then (base64_value x) (\<lambda>b.
     let c_pad = (y = CHR ''=''); d_pad = (z = CHR ''='')
     in if c_pad \<and> \<not> d_pad then Inl ''invalid rpc_chunk base64 padding''
        else and_then (if c_pad then Inr 0 else base64_value y) (\<lambda>c.
             and_then (if d_pad then Inr 0 else base64_value z) (\<lambda>d.
             if room < 1 + (if c_pad then 0 else 1) + (if d_pad then 0 else 1)
             then Inl ''rpc_chunk decoded beyond advertised byteLength''
             else Inr ([word_byte (push_bit 2 a OR drop_bit 4 b)] @
                       (if c_pad then [] else [word_byte (push_bit 4 b OR drop_bit 2 c)]) @
                       (if d_pad then [] else [word_byte (push_bit 6 c OR d)]))))))"

text \<open>The bytes so far, also when it fails, and the error.\<close>

fun decode_groups :: "nat \<Rightarrow> str \<Rightarrow> bytes \<Rightarrow> bytes \<times> str option" where
  "decode_groups limit (w # x # y # z # rest) out =
     (case decode_group w x y z (limit - length out) of
        Inl e \<Rightarrow> (out, Some e)
      | Inr bs \<Rightarrow> decode_groups limit rest (out @ bs))"
| "decode_groups limit _ out = (out, None)"

definition decode_base64_into :: "str \<Rightarrow> bytes \<Rightarrow> nat \<Rightarrow> bytes \<times> str option" where
  "decode_base64_into input out limit =
     (if length input mod 4 \<noteq> 0 then (out, Some ''invalid rpc_chunk base64'') else decode_groups limit input out)"

section \<open>Chunks\<close>

record pending_chunks =
  pc_id :: str
  pc_count :: nat
  pc_length :: nat
  pc_next :: nat
  pc_bytes :: bytes

definition required_str :: "json \<Rightarrow> str \<Rightarrow> str + str" where
  "required_str v k = ok_or (Option.bind (jget v k) jstr) (''rpc_chunk missing '' @ k)"

definition required_usize :: "json \<Rightarrow> str \<Rightarrow> str + nat" where
  "required_usize v k = ok_or (Option.bind (jget v k) ju64) (''rpc_chunk missing '' @ k)"

text \<open>The type of a frame, and one more chunk for a sequence under way.\<close>

definition frame_type :: "json \<Rightarrow> str option" where
  "frame_type v = Option.bind (jget v ''type'') jstr"

definition push_rpc_chunk :: "(str \<Rightarrow> str + json) \<Rightarrow> str \<Rightarrow> nat \<Rightarrow> nat \<Rightarrow> nat \<Rightarrow> str \<Rightarrow> pending_chunks
    \<Rightarrow> (str + json option) \<times> pending_chunks option" where
  "push_rpc_chunk parse cid index count len data p =
     (if pc_id p \<noteq> cid \<or> pc_count p \<noteq> count \<or> pc_length p \<noteq> len \<or> pc_next p \<noteq> index
      then (Inl ''invalid or interleaved OMP rpc_chunk sequence'', None)
      else
        (case decode_base64_into data (pc_bytes p) (pc_length p) of
           (bytes, Some e) \<Rightarrow> (Inl e, Some (p\<lparr>pc_bytes := bytes\<rparr>))
         | (bytes, None) \<Rightarrow>
             if pc_next p + 1 \<noteq> pc_count p then (Inr None, Some (p\<lparr>pc_bytes := bytes, pc_next := pc_next p + 1\<rparr>))
             else if length bytes \<noteq> pc_length p then (Inl ''OMP rpc_chunk byteLength mismatch'', None)
             else if \<not> utf8_valid bytes then (Inl ''OMP rpc_chunk payload is not UTF-8'', None)
             else (case parse bytes of
                     Inl e \<Rightarrow> (Inl (''invalid reassembled RPC JSON: '' @ e), None)
                   | Inr v \<Rightarrow> (Inr (Some v), None))))"

definition rpc_push :: "(str \<Rightarrow> str + json) \<Rightarrow> json \<Rightarrow> pending_chunks option \<Rightarrow> (str + json option) \<times> pending_chunks option" where
  "rpc_push parse frame pending =
     (if frame_type frame \<noteq> Some ''rpc_chunk'' then
        (case pending of
           Some _ \<Rightarrow> (Inl ''OMP rpc_chunk sequence was interrupted'', pending)
         | None \<Rightarrow> (Inr (Some frame), None))
      else
        (case and_then (required_str frame ''chunkId'') (\<lambda>cid.
              and_then (required_usize frame ''index'') (\<lambda>index.
              and_then (required_usize frame ''count'') (\<lambda>count.
              and_then (required_usize frame ''byteLength'') (\<lambda>len.
              and_then (required_str frame ''data'') (\<lambda>data.
              if count = 0 \<or> MAX_CHUNKS < count \<or> len = 0 \<or> MAX_REASSEMBLED_FRAME_BYTES < len \<or> count \<le> index
              then Inl ''invalid or oversized OMP rpc_chunk metadata''
              else Inr (cid, index, count, len, data)))))) of
           Inl e \<Rightarrow> (Inl e, pending)
         | Inr (cid, index, count, len, data) \<Rightarrow>
             (case pending of
                Some p \<Rightarrow> push_rpc_chunk parse cid index count len data p
              | None \<Rightarrow>
                  if index \<noteq> 0 then (Inl ''OMP rpc_chunk sequence did not start at index 0'', None)
                  else push_rpc_chunk parse cid index count len data
                         \<lparr>pc_id = cid, pc_count = count, pc_length = len, pc_next = 0, pc_bytes = []\<rparr>)))"

section \<open>What is decoded\<close>

text \<open>The encoding, as the other side writes it.\<close>

definition base64_char :: "8 word \<Rightarrow> byte" where
  "base64_char w = (''ABCDEFGHIJKLMNOPQRSTUVWXYZabcdefghijklmnopqrstuvwxyz0123456789+/'' ! unat w)"

fun base64_encode :: "bytes \<Rightarrow> str" where
  "base64_encode [] = []"
| "base64_encode [x] =
     (let a = byte_word x
      in [base64_char (drop_bit 2 a), base64_char (push_bit 4 (take_bit 2 a)), CHR ''='', CHR ''=''])"
| "base64_encode [x, y] =
     (let a = byte_word x; b = byte_word y
      in [base64_char (drop_bit 2 a), base64_char (push_bit 4 (take_bit 2 a) OR drop_bit 4 b),
          base64_char (push_bit 2 (take_bit 4 b)), CHR ''=''])"
| "base64_encode (x # y # z # rest) =
     (let a = byte_word x; b = byte_word y; c = byte_word z
      in [base64_char (drop_bit 2 a), base64_char (push_bit 4 (take_bit 2 a) OR drop_bit 4 b),
          base64_char (push_bit 2 (take_bit 4 b) OR drop_bit 6 c), base64_char (take_bit 6 c)] @ base64_encode rest)"

lemma base64_char_value_all:
  "list_all (\<lambda>n. base64_value (base64_char (word_of_nat n)) = Inr (word_of_nat n) \<and> base64_char (word_of_nat n) \<noteq> CHR ''='') [0..<64]"
  by (simp add: base64_value_def base64_char_def between_def byte_word_def code_def upt_rec)

lemma base64_char_value:
  assumes "unat w < 64"
  shows "base64_value (base64_char w) = Inr w" "base64_char w \<noteq> CHR ''=''"
proof -
  have "unat w \<in> set [0..<64]" using assms by simp
  then have "base64_value (base64_char (word_of_nat (unat w))) = Inr (word_of_nat (unat w)) \<and> base64_char (word_of_nat (unat w)) \<noteq> CHR ''=''"
    using base64_char_value_all unfolding list_all_iff by blast
  then show "base64_value (base64_char w) = Inr w" "base64_char w \<noteq> CHR ''=''" by simp_all
qed

lemma word_byte_word [simp]: "word_byte (byte_word b) = b"
  by (simp add: word_byte_def byte_word_def code_def unat_of_nat)

text \<open>The six-bit groups put together again.\<close>

lemma six_bits:
  fixes a b c :: "8 word"
  shows "unat (drop_bit 2 a) < 64" "unat (push_bit 4 (take_bit 2 a) OR drop_bit 4 b) < 64"
    "unat (push_bit 2 (take_bit 4 b) OR drop_bit 6 c) < 64" "unat (take_bit 6 c) < 64"
    "unat (push_bit 4 (take_bit 2 a)) < 64" "unat (push_bit 2 (take_bit 4 b)) < 64"
proof -
  have lt: "unat w < 64" if "take_bit 6 w = w" for w :: "8 word"
  proof -
    have "unat (take_bit 6 w) < 2 ^ 6" using take_bit_nat_less_exp [of 6 "unat w"] by (simp add: unsigned_take_bit_eq)
    then show ?thesis using that by simp
  qed
  show "unat (drop_bit 2 a) < 64" "unat (push_bit 4 (take_bit 2 a) OR drop_bit 4 b) < 64"
    "unat (push_bit 2 (take_bit 4 b) OR drop_bit 6 c) < 64" "unat (take_bit 6 c) < 64"
    "unat (push_bit 4 (take_bit 2 a)) < 64" "unat (push_bit 2 (take_bit 4 b)) < 64"
    by (rule lt, rule bit_word_eqI, auto simp: bit_simps dest: bit_imp_le_length)+
qed

lemma regroup:
  fixes a b c :: "8 word"
  shows "push_bit 2 (drop_bit 2 a) OR drop_bit 4 (push_bit 4 (take_bit 2 a) OR drop_bit 4 b) = a"
    "push_bit 2 (drop_bit 2 a) OR drop_bit 4 (push_bit 4 (take_bit 2 a)) = a"
    "push_bit 4 (push_bit 4 (take_bit 2 a) OR drop_bit 4 b) OR drop_bit 2 (push_bit 2 (take_bit 4 b) OR drop_bit 6 c) = b"
    "push_bit 4 (push_bit 4 (take_bit 2 a) OR drop_bit 4 b) OR drop_bit 2 (push_bit 2 (take_bit 4 b)) = b"
    "push_bit 6 (push_bit 2 (take_bit 4 b) OR drop_bit 6 c) OR take_bit 6 c = c"
proof -
  have [simp]: "Suc (Suc (n - 2)) = (if 2 \<le> n then n else 2)" "4 + (n - 4) = (if 4 \<le> n then n else 4)"
    "6 + (n - 6) = (if 6 \<le> n then n else 6)" for n :: nat by auto
  show "push_bit 2 (drop_bit 2 a) OR drop_bit 4 (push_bit 4 (take_bit 2 a) OR drop_bit 4 b) = a"
    "push_bit 2 (drop_bit 2 a) OR drop_bit 4 (push_bit 4 (take_bit 2 a)) = a"
    "push_bit 4 (push_bit 4 (take_bit 2 a) OR drop_bit 4 b) OR drop_bit 2 (push_bit 2 (take_bit 4 b) OR drop_bit 6 c) = b"
    "push_bit 4 (push_bit 4 (take_bit 2 a) OR drop_bit 4 b) OR drop_bit 2 (push_bit 2 (take_bit 4 b)) = b"
    "push_bit 6 (push_bit 2 (take_bit 4 b) OR drop_bit 6 c) OR take_bit 6 c = c"
    by (rule bit_word_eqI, auto simp: bit_simps not_le split: if_splits)+
qed

lemma regroup_low:
  fixes b c :: "8 word"
  shows "push_bit 4 (drop_bit 4 b) OR drop_bit 2 (push_bit 2 (take_bit 4 b)) = b"
    "push_bit 4 (drop_bit 4 b) OR drop_bit 2 (push_bit 2 (take_bit 4 b) OR drop_bit 6 c) = b"
    "push_bit 6 (drop_bit 6 c) OR take_bit 6 c = c"
  using regroup(3,4) [of 0 b] regroup(5) [of 0 c] by simp_all

lemma length_base64_encode: "length (base64_encode bs) mod 4 = 0"
  by (induction bs rule: base64_encode.induct) (simp_all add: Let_def)

lemma decode_encode_groups:
  "length out + length bs \<le> limit \<Longrightarrow> decode_groups limit (base64_encode bs) out = (out @ bs, None)"
proof (induction bs arbitrary: out rule: base64_encode.induct)
  case (2 x)
  then show ?case by (simp add: decode_group_def Let_def base64_char_value six_bits regroup regroup_low)
next
  case (3 x y)
  then show ?case by (simp add: decode_group_def Let_def base64_char_value six_bits regroup regroup_low)
next
  case (4 x y z rest)
  have "decode_group (base64_char (drop_bit 2 (byte_word x))) (base64_char (push_bit 4 (take_bit 2 (byte_word x)) OR drop_bit 4 (byte_word y)))
      (base64_char (push_bit 2 (take_bit 4 (byte_word y)) OR drop_bit 6 (byte_word z))) (base64_char (take_bit 6 (byte_word z)))
      (limit - length out) = Inr [x, y, z]"
    using 4(2) by (simp add: decode_group_def Let_def base64_char_value six_bits regroup regroup_low)
  then show ?case using 4(1) [OF refl refl refl, of "out @ [x, y, z]"] 4(2) by (simp add: Let_def)
qed simp

lemma base64_roundtrip:
  "length out + length bs \<le> limit \<Longrightarrow> decode_base64_into (base64_encode bs) out limit = (out @ bs, None)"
  by (simp add: decode_base64_into_def length_base64_encode decode_encode_groups)

text \<open>The frames a text is cut into, and a decoder fed with them.\<close>

definition chunk_frame :: "str \<Rightarrow> nat \<Rightarrow> nat \<Rightarrow> nat \<Rightarrow> bytes \<Rightarrow> json" where
  "chunk_frame cid count len index piece =
     JObj [(''type'', JStr ''rpc_chunk''), (''chunkId'', JStr cid), (''index'', JInt (int index)), (''count'', JInt (int count)),
       (''byteLength'', JInt (int len)), (''data'', JStr (base64_encode piece))]"

definition chunk_sequence :: "str \<Rightarrow> bytes list \<Rightarrow> json list" where
  "chunk_sequence cid pieces =
     map (\<lambda>i. chunk_frame cid (length pieces) (length (concat pieces)) i (pieces ! i)) [0..<length pieces]"

fun rpc_feed :: "(str \<Rightarrow> str + json) \<Rightarrow> json list \<Rightarrow> pending_chunks option \<Rightarrow> (str + json option) list \<times> pending_chunks option" where
  "rpc_feed parse [] p = ([], p)"
| "rpc_feed parse (f # fs) p =
     (let (r, p1) = rpc_push parse f p; (rs, p2) = rpc_feed parse fs p1 in (r # rs, p2))"

lemma rpc_push_chunk_frame:
  assumes "0 < count" "count \<le> MAX_CHUNKS" "0 < len" "len \<le> MAX_REASSEMBLED_FRAME_BYTES" "index < count"
  shows "rpc_push parse (chunk_frame cid count len index piece) (Some p) =
      push_rpc_chunk parse cid index count len (base64_encode piece) p"
    "index = 0 \<Longrightarrow> rpc_push parse (chunk_frame cid count len index piece) None =
      push_rpc_chunk parse cid index count len (base64_encode piece)
        \<lparr>pc_id = cid, pc_count = count, pc_length = len, pc_next = 0, pc_bytes = []\<rparr>"
  using assms
  by (simp_all add: rpc_push_def chunk_frame_def frame_type_def required_str_def required_usize_def
      MAX_CHUNKS_def MAX_REASSEMBLED_FRAME_BYTES_def)

lemma rpc_feed_rest:
  assumes "n = length pieces" "n \<le> MAX_CHUNKS" "text = concat pieces" "text \<noteq> []" "length text \<le> MAX_REASSEMBLED_FRAME_BYTES"
    and "utf8_valid text" "parse text = Inr v" "k < n"
  shows "rpc_feed parse (map (\<lambda>i. chunk_frame cid n (length text) i (pieces ! i)) [k..<n])
      (Some \<lparr>pc_id = cid, pc_count = n, pc_length = length text, pc_next = k, pc_bytes = concat (take k pieces)\<rparr>) =
    (replicate (n - 1 - k) (Inr None) @ [Inr (Some v)], None)"
  using assms(8)
proof (induction "n - k" arbitrary: k)
  case (Suc m)
  let ?p = "\<lparr>pc_id = cid, pc_count = n, pc_length = length text, pc_next = k, pc_bytes = concat (take k pieces)\<rparr>"
  have up: "[k..<n] = k # [Suc k..<n]" using Suc(3) by (simp add: upt_conv_Cons)
  have bytes: "concat (take k pieces) @ pieces ! k = concat (take (Suc k) pieces)"
    using Suc(3) assms(1) by (simp add: take_Suc_conv_app_nth)
  have "concat (take (Suc k) pieces) @ concat (drop (Suc k) pieces) = text"
    using assms(3) by (simp flip: concat_append)
  then have fits: "length (concat (take (Suc k) pieces)) \<le> length text" by (metis length_append le_add1)
  have dec: "decode_base64_into (base64_encode (pieces ! k)) (concat (take k pieces)) (length text) = (concat (take (Suc k) pieces), None)"
    using base64_roundtrip [of "concat (take k pieces)" "pieces ! k" "length text"] fits bytes by (metis length_append)
  have push: "rpc_push parse (chunk_frame cid n (length text) k (pieces ! k)) (Some ?p) =
      push_rpc_chunk parse cid k n (length text) (base64_encode (pieces ! k)) ?p"
    by (rule rpc_push_chunk_frame) (use assms Suc(3) in auto)
  show ?case
  proof (cases "Suc k = n")
    case True
    then have all: "concat (take (Suc k) pieces) = text" using assms(1,3) by simp
    then show ?thesis using up push dec True assms(6,7) by (simp add: push_rpc_chunk_def)
  next
    case False
    then have "Suc k < n" using Suc(3) by simp
    have "m = n - Suc k" using Suc(2) by simp
    note ih = Suc(1) [OF this \<open>Suc k < n\<close>]
    have "n - 1 - k = Suc (n - 1 - Suc k)" using \<open>Suc k < n\<close> by simp
    then show ?thesis using up push dec False ih by (simp add: push_rpc_chunk_def)
  qed
qed simp

text \<open>C30: A frame that is cut into chunks is put together again: from whatever pieces of a text, base64
  encoded and numbered, the decoder answers nothing until the last and then the value of the whole
  text, and is ready for the next frame.\<close>

theorem rpc_chunks_reassemble:
  assumes "pieces \<noteq> []" "length pieces \<le> MAX_CHUNKS" "concat pieces \<noteq> []" "length (concat pieces) \<le> MAX_REASSEMBLED_FRAME_BYTES"
    and "utf8_valid (concat pieces)" "parse (concat pieces) = Inr v"
  shows "rpc_feed parse (chunk_sequence cid pieces) None =
    (replicate (length pieces - 1) (Inr None) @ [Inr (Some v)], None)"
proof -
  let ?n = "length pieces" and ?len = "length (concat pieces)"
  let ?init = "\<lparr>pc_id = cid, pc_count = ?n, pc_length = ?len, pc_next = 0, pc_bytes = []\<rparr>"
  have n: "0 < ?n" using assms(1) by simp
  then have up: "[0..<?n] = 0 # [Suc 0..<?n]" by (simp add: upt_conv_Cons)
  have len: "0 < ?len" using assms(3) length_greater_0_conv by blast
  note p = rpc_push_chunk_frame [OF n assms(2) len assms(4) n]
  have "rpc_feed parse (chunk_sequence cid pieces) None = rpc_feed parse (chunk_sequence cid pieces) (Some ?init)"
    unfolding chunk_sequence_def up list.map rpc_feed.simps p(1) p(2) [OF refl] ..
  also have "\<dots> = (replicate (?n - 1 - 0) (Inr None) @ [Inr (Some v)], None)"
    using rpc_feed_rest [of ?n pieces "concat pieces" parse v 0 cid] assms n by (simp add: chunk_sequence_def)
  finally show ?thesis by simp
qed

definition demo_parse :: "str \<Rightarrow> str + json" where
  "demo_parse t = (if t = ''{}'' then Inr (JObj []) else if t = ''true'' then Inr (JBool True) else Inl ''expected value'')"

theorem rpc_chunks_reassemble_witness:
  "rpc_feed demo_parse (chunk_sequence ''c1'' [''tr'', ''u'', ''e'']) None = ([Inr None, Inr None, Inr (Some (JBool True))], None)"
proof -
  let ?ps = "[''tr'', ''u'', ''e'']"
  have "length ?ps \<le> MAX_CHUNKS" "length (concat ?ps) \<le> MAX_REASSEMBLED_FRAME_BYTES"
    by (simp_all add: MAX_CHUNKS_def MAX_REASSEMBLED_FRAME_BYTES_def)
  moreover have "utf8_valid (concat ?ps)" by code_simp
  moreover have "demo_parse (concat ?ps) = Inr (JBool True)" by (simp add: demo_parse_def)
  ultimately have "rpc_feed demo_parse (chunk_sequence ''c1'' ?ps) None =
      (replicate (length ?ps - 1) (Inr None) @ [Inr (Some (JBool True))], None)"
    by (intro rpc_chunks_reassemble) simp_all
  then show ?thesis by (simp add: numeral_2_eq_2)
qed

section \<open>Bounds\<close>

lemma decode_groups_bound: "length out \<le> limit \<Longrightarrow> length (fst (decode_groups limit input out)) \<le> limit"
proof (induction limit input out rule: decode_groups.induct)
  case (1 limit w x y z rest out)
  have "length bs \<le> limit - length out" if "decode_group w x y z (limit - length out) = Inr bs" for bs
    using that by (auto simp: decode_group_def Let_def split: if_splits)
  then show ?case using 1 by (fastforce split: sum.split)
qed auto

definition decoder_ok :: "pending_chunks option \<Rightarrow> bool" where
  "decoder_ok st = (case st of
     None \<Rightarrow> True
   | Some p \<Rightarrow> pc_next p < pc_count p \<and> pc_count p \<le> MAX_CHUNKS \<and> length (pc_bytes p) \<le> pc_length p \<and>
       pc_length p \<le> MAX_REASSEMBLED_FRAME_BYTES)"

lemma push_rpc_chunk_ok:
  assumes "decoder_ok (Some p)"
  shows "decoder_ok (snd (push_rpc_chunk parse cid index count len data p))"
proof -
  have "length (fst (decode_base64_into data (pc_bytes p) (pc_length p))) \<le> pc_length p"
    using assms decode_groups_bound by (simp add: decode_base64_into_def decoder_ok_def)
  then show ?thesis
    using assms
    by (auto simp: push_rpc_chunk_def decoder_ok_def split: prod.splits option.splits sum.splits if_splits)
qed

text \<open>Whatever frames a child sends, in whatever order, the decoder never holds more bytes than the
  sequence announced, at most 64 MiB, and waits for at most 4096 chunks.\<close>

theorem rpc_decoder_bounded:
  "decoder_ok (snd (rpc_feed parse frames None))"
proof -
  have step: "decoder_ok (snd (rpc_push parse f st))" if "decoder_ok st" for f st
  proof (cases "frame_type f = Some ''rpc_chunk''")
    case True
    show ?thesis
    proof (cases st)
      case None
      then show ?thesis using True
        by (auto simp: rpc_push_def decoder_ok_def [of None] intro!: push_rpc_chunk_ok split: sum.split)
          (auto simp: decoder_ok_def)
    next
      case (Some p)
      then show ?thesis using True that by (auto simp: rpc_push_def intro!: push_rpc_chunk_ok split: sum.split)
    qed
  qed (use that in \<open>auto simp: rpc_push_def split: option.split\<close>)
  have "decoder_ok (snd (rpc_feed parse frames st))" if "decoder_ok st" for st
    using that
  proof (induction frames arbitrary: st)
    case (Cons f fs)
    then show ?case using step [OF Cons.prems, of f] Cons.IH [of "snd (rpc_push parse f st)"] by (simp add: case_prod_unfold Let_def)
  qed simp
  then show ?thesis by (simp add: decoder_ok_def)
qed

text \<open>A sequence that breaks off is never given up: every frame that is not a chunk is refused and
  leaves the decoder as it is, in this turn and in all later ones.\<close>

lemma interrupted_decoder_stays:
  assumes "\<forall>f \<in> set frames. frame_type f \<noteq> Some ''rpc_chunk''"
  shows "rpc_feed parse frames (Some p) = (map (\<lambda>_. Inl ''OMP rpc_chunk sequence was interrupted'') frames, Some p)"
  using assms by (induction frames) (auto simp: rpc_push_def)

lemma broken_chunk_is_kept:
  "snd (rpc_push parse (JObj [(''type'', JStr ''rpc_chunk''), (''chunkId'', JStr ''c''), (''index'', JInt 0), (''count'', JInt 1),
     (''byteLength'', JInt 3), (''data'', JStr ''!'')]) None) \<noteq> None"
  by (simp add: rpc_push_def frame_type_def required_str_def required_usize_def push_rpc_chunk_def decode_base64_into_def
      MAX_CHUNKS_def MAX_REASSEMBLED_FRAME_BYTES_def)

end
