(* ===== verification/Host_Files.thy ===== *)
theory Host_Files
  imports File_System "HOL-Library.Word"
begin

text \<open>
  What the operating system says of a path when a program decides whether to trust it: its kind, its
  owner and its permission bits.
\<close>

unbundle bit_operations_syntax

datatype file_kind = Regular | Directory | Socket | Other_Kind

record file_answer =
  fa_kind :: file_kind
  fa_owner :: nat
  fa_mode :: "32 word"

text \<open>The permission bits \<open>0o022\<close> and \<open>0o077\<close>.\<close>

definition others_write :: "32 word" where "others_write = 18"
definition others_any :: "32 word" where "others_any = 63"

definition written_by_others :: "file_answer \<Rightarrow> bool" where
  "written_by_others m \<longleftrightarrow> bit (fa_mode m) 1 \<or> bit (fa_mode m) 4"

definition open_to_others :: "file_answer \<Rightarrow> bool" where
  "open_to_others m \<longleftrightarrow> (\<exists>n<6. bit (fa_mode m) n)"

lemma no_others_write: "fa_mode m AND others_write = 0 \<Longrightarrow> \<not> written_by_others m"
proof -
  assume "fa_mode m AND others_write = 0"
  then have "bit (fa_mode m AND others_write) 1 = False" "bit (fa_mode m AND others_write) 4 = False" by simp_all
  then show ?thesis by (simp add: others_write_def written_by_others_def bit_and_iff bit_numeral_rec)
qed

lemma no_others_any: "fa_mode m AND others_any = 0 \<Longrightarrow> \<not> open_to_others m"
proof
  assume z: "fa_mode m AND others_any = 0" and "open_to_others m"
  then obtain n where n: "n < 6" "bit (fa_mode m) n" by (auto simp: open_to_others_def)
  have "bit (63 :: 32 word) n" using n(1) by (auto simp: less_Suc_eq numeral_eq_Suc bit_numeral_rec)
  then have "bit (fa_mode m AND others_any) n" using n(2) by (simp add: others_any_def bit_and_iff)
  then show False using z by simp
qed

end
