(* ===== verification/Ai_Session.thy ===== *)
theory Ai_Session
  imports Ai_Rpc Host_Files
begin

text \<open>
  The AI sessions of the Inspector pane, \<open>crates/gpty-ai/src\<close>: the session with its bounded event queue
  (\<open>registry.rs\<close>, \<open>types.rs\<close>), what the frames of a child mean (\<open>stream.rs\<close>), and one turn of each
  backend - the local one (\<open>mock.rs\<close>), the OMP process (\<open>omp.rs\<close>) and an adapter that speaks lines of
  JSON (\<open>cli.rs\<close>) - as a function from what the child does to the events of the turn.  JSON text, what
  a spawn answers and what writing to a child answers are parameters; a turn whose input is used up is
  still waiting (\<open>None\<close>).
\<close>

section \<open>The program\<close>

definition validate_omp_binary :: "(str \<Rightarrow> file_answer option) \<Rightarrow> nat \<Rightarrow> str \<Rightarrow> bool" where
  "validate_omp_binary stat euid path \<longleftrightarrow>
     absolute path \<and> (case stat path of None \<Rightarrow> False
       | Some m \<Rightarrow> fa_kind m = Regular \<and> fa_owner m = euid \<and> fa_mode m AND others_write = 0)"

primrec which_loop :: "(str \<Rightarrow> file_answer option) \<Rightarrow> (str \<Rightarrow> str option) \<Rightarrow> str \<Rightarrow> str list \<Rightarrow> str option" where
  "which_loop stat canonical name [] = None"
| "which_loop stat canonical name (dir # dirs) =
     (let candidate = path_join dir name
      in if (case stat candidate of None \<Rightarrow> False | Some m \<Rightarrow> fa_kind m = Regular)
         then (case canonical candidate of
             Some canon \<Rightarrow> Some canon
           | None \<Rightarrow> if absolute candidate then Some candidate else which_loop stat canonical name dirs)
         else which_loop stat canonical name dirs)"

definition which :: "(str \<Rightarrow> file_answer option) \<Rightarrow> (str \<Rightarrow> str option) \<Rightarrow> str option \<Rightarrow> str \<Rightarrow> str option" where
  "which stat canonical paths name =
     Option.bind paths (\<lambda>p. which_loop stat canonical name (split_on (CHR '':'') p))"

text \<open>The variables \<open>GPTY_OMP\<close> (which counts when it is UTF-8) and \<open>PATH\<close>.\<close>

definition resolve_omp_binary :: "(str \<Rightarrow> file_answer option) \<Rightarrow> (str \<Rightarrow> str option) \<Rightarrow> nat \<Rightarrow> str option \<Rightarrow> str option \<Rightarrow> str option" where
  "resolve_omp_binary stat canonical euid named paths =
     (case (case named of Some p \<Rightarrow> if utf8_valid p then Some p else None | None \<Rightarrow> None) of
        Some p \<Rightarrow> if validate_omp_binary stat euid (trim p) then Some (trim p) else None
      | None \<Rightarrow> (case which stat canonical paths ''omp'' of
          Some p \<Rightarrow> if validate_omp_binary stat euid p then Some p else None
        | None \<Rightarrow> None))"

text \<open>Whatever the environment says, the program that is started is absolute, and a regular file of the
  user that nobody else can write.\<close>

lemma omp_binary_is_trusted:
  assumes "resolve_omp_binary stat canonical euid named paths = Some p"
  shows "absolute p \<and> (\<exists>m. stat p = Some m \<and> fa_kind m = Regular \<and> fa_owner m = euid \<and> \<not> written_by_others m)"
proof -
  have v: "validate_omp_binary stat euid p"
    using assms unfolding resolve_omp_binary_def by (auto split: option.splits if_splits)
  then show ?thesis by (auto simp: validate_omp_binary_def no_others_write split: option.splits)
qed

text \<open>A program the user named that is not fit is not replaced by one found on the path.\<close>

lemma named_program_has_no_fallback:
  "utf8_valid p \<Longrightarrow> \<not> validate_omp_binary stat euid (trim p) \<Longrightarrow> resolve_omp_binary stat canonical euid (Some p) paths = None"
  by (simp add: resolve_omp_binary_def)

section \<open>Requests and events\<close>

fun backend_str :: "backend_kind \<Rightarrow> str" where
  "backend_str Mock = ''mock''"
| "backend_str Omp = ''omp''"
| "backend_str Cli = ''cli''"

definition ascii_lower :: "str \<Rightarrow> str" where
  "ascii_lower s = map (\<lambda>b. if between (CHR ''A'') (CHR ''Z'') b then char_of (code b + 32) else b) s"

definition backend_parse :: "str \<Rightarrow> backend_kind option" where
  "backend_parse s =
     (let k = ascii_lower (trim s)
      in if k = ''mock'' then Some Mock
         else if k = ''omp'' \<or> k = ''oh-my-pi'' \<or> k = ''pi'' then Some Omp
         else if k = ''cli'' then Some Cli else None)"

record open_request =
  or_backend :: backend_kind
  or_system :: str
  or_cwd :: str
  or_model :: str
  or_command :: "str list"
  or_strip :: "str list"

record prompt_request =
  pq_capture :: str
  pq_concept :: str
  pq_source :: str

definition as_observation :: "prompt_request \<Rightarrow> open_request \<Rightarrow> observation" where
  "as_observation q c =
     \<lparr>ob_backend = or_backend c, ob_capture = pq_capture q, ob_concept = pq_concept q, ob_source = pq_source q,
      ob_system = or_system c, ob_cwd = or_cwd c, ob_model = or_model c\<rparr>"

definition strip_child_env :: "(str \<times> str) list \<Rightarrow> str list \<Rightarrow> (str \<times> str) list" where
  "strip_child_env env keys = filter (\<lambda>(k, v). k \<notin> set keys) env"

datatype ai_event =
    Started str
  | Prompt_Shown str
  | Turn_Begin
  | Thinking str
  | Answer_Started
  | Delta str
  | Status str
  | Done str
  | Failed_With str
  | Cancelled

datatype event_channel = Lifecycle | Prompt_Channel | Thinking_Channel | Answer

fun channel_of :: "ai_event \<Rightarrow> event_channel" where
  "channel_of (Prompt_Shown _) = Prompt_Channel"
| "channel_of (Thinking _) = Thinking_Channel"
| "channel_of Answer_Started = Answer"
| "channel_of (Delta _) = Answer"
| "channel_of (Done _) = Answer"
| "channel_of _ = Lifecycle"

fun is_terminal :: "ai_event \<Rightarrow> bool" where
  "is_terminal (Done _) = True"
| "is_terminal (Failed_With _) = True"
| "is_terminal Cancelled = True"
| "is_terminal _ = False"

record envelope =
  en_session :: str
  en_turn :: nat
  en_run :: str
  en_seq :: nat
  en_channel :: event_channel
  en_event :: ai_event

section \<open>The session\<close>

definition AI_MAX_QUEUED_EVENTS :: nat where "AI_MAX_QUEUED_EVENTS = 2048"

record session_queue =
  eq_events :: "envelope list"
  eq_dropped :: nat

definition queue_push :: "envelope \<Rightarrow> session_queue \<Rightarrow> session_queue" where
  "queue_push e q =
     (if length (eq_events q) = AI_MAX_QUEUED_EVENTS
      then \<lparr>eq_events = tl (eq_events q) @ [e], eq_dropped = eq_dropped q + 1\<rparr>
      else q\<lparr>eq_events := eq_events q @ [e]\<rparr>)"

definition dropped_notice :: "str \<Rightarrow> nat \<Rightarrow> nat \<Rightarrow> envelope" where
  "dropped_notice sid sequence n =
     \<lparr>en_session = sid, en_turn = 0, en_run = [], en_seq = sequence, en_channel = Lifecycle,
      en_event = Status (dec n @ '' earlier events dropped (output arrived faster than it could be read)'')\<rparr>"

text \<open>What is drained, the queue and the sequence afterwards.\<close>

definition queue_drain :: "nat \<Rightarrow> str \<Rightarrow> nat \<Rightarrow> session_queue \<Rightarrow> envelope list \<times> session_queue \<times> nat" where
  "queue_drain n sid sequence q =
     (let count = min (min (max n 1) AI_MAX_QUEUED_EVENTS) (length (eq_events q));
          out = take count (eq_events q);
          q' = \<lparr>eq_events = drop count (eq_events q), eq_dropped = 0\<rparr>
      in if 0 < eq_dropped q then (dropped_notice sid sequence (eq_dropped q) # out, q', sequence + 1)
         else (out, q', sequence))"

datatype session_command = Prompt_Command nat str prompt_request | Close_Command

record ai_session =
  as_id :: str
  as_config :: open_request
  as_queue :: session_queue
  as_sequence :: nat
  as_next_turn :: nat
  as_active :: "str option"
  as_cancelled :: "str list"                       \<comment> \<open>the runs whose signal is set\<close>
  as_commands :: "session_command list"
  as_worker_gone :: bool
  as_closed :: bool

definition fresh_session :: "str \<Rightarrow> open_request \<Rightarrow> ai_session" where
  "fresh_session sid c =
     \<lparr>as_id = sid, as_config = c, as_queue = \<lparr>eq_events = [], eq_dropped = 0\<rparr>, as_sequence = 1, as_next_turn = 1,
      as_active = None, as_cancelled = [], as_commands = [], as_worker_gone = False, as_closed = False\<rparr>"

definition session_open :: "bool \<Rightarrow> str \<Rightarrow> open_request \<Rightarrow> str + ai_session" where
  \<comment> \<open>whether the OMP program was found, and the session's number\<close>
  "session_open omp_found sid c =
     (if or_backend c = Omp \<and> \<not> omp_found then Inl ''omp backend unavailable (install Oh-My-Pi or set GPTY_OMP)''
      else if or_backend c = Cli \<and> or_command c = [] then Inl ''cli backend requires a command (Inspector pane settings)''
      else if or_cwd c \<noteq> [] \<and> \<not> absolute (or_cwd c) then Inl ''cwd must be absolute when set''
      else Inr (fresh_session sid c))"

definition emit :: "nat \<Rightarrow> str \<Rightarrow> ai_event \<Rightarrow> ai_session \<Rightarrow> ai_session" where
  "emit turn run e s =
     (let env = \<lparr>en_session = as_id s, en_turn = turn, en_run = run, en_seq = as_sequence s, en_channel = channel_of e, en_event = e\<rparr>
      in s\<lparr>as_sequence := as_sequence s + 1, as_queue := queue_push env (as_queue s),
           as_active := (if is_terminal e \<and> as_active s = Some run then None else as_active s)\<rparr>)"

definition session_prompt :: "prompt_request \<Rightarrow> ai_session \<Rightarrow> (str + nat \<times> str) \<times> ai_session" where
  "session_prompt q s =
     (if as_closed s then (Inl ''session is closed'', s)
      else if as_active s \<noteq> None then (Inl ''a turn is already running'', s)
      else
        (let turn = as_next_turn s;
             run = as_id s @ ''-'' @ dec turn;
             s1 = s\<lparr>as_next_turn := turn + 1\<rparr>
         in if as_worker_gone s then (Inl ''backend worker stopped'', s1)
            else (Inr (turn, run), s1\<lparr>as_active := Some run, as_commands := as_commands s @ [Prompt_Command turn run q]\<rparr>)))"

definition session_poll :: "nat \<Rightarrow> ai_session \<Rightarrow> envelope list \<times> ai_session" where
  "session_poll n s =
     (case queue_drain n (as_id s) (as_sequence s) (as_queue s) of
        (out, q, sequence) \<Rightarrow> (out, s\<lparr>as_queue := q, as_sequence := sequence\<rparr>))"

definition session_cancel :: "ai_session \<Rightarrow> bool \<times> ai_session" where
  "session_cancel s =
     (case as_active s of None \<Rightarrow> (False, s) | Some run \<Rightarrow> (True, s\<lparr>as_cancelled := run # as_cancelled s\<rparr>))"

definition session_close :: "ai_session \<Rightarrow> ai_session" where
  "session_close s =
     (if as_closed s then s
      else (let s1 = snd (session_cancel (s\<lparr>as_closed := True\<rparr>)) in s1\<lparr>as_commands := as_commands s1 @ [Close_Command]\<rparr>))"

definition list_backends :: "bool \<Rightarrow> (backend_kind \<times> str \<times> bool) list" where
  "list_backends omp_found =
     [(Mock, ''Mock'', True), (Omp, ''Oh-My-Pi (omp RPC)'', omp_found), (Cli, ''CLI bridge (NDJSON)'', True)]"

section \<open>The local backend\<close>

definition split_at_midpoint :: "str \<Rightarrow> str \<times> str" where
  "split_at_midpoint t = (let m = boundary_back t (length t div 2) in (take m t, drop m t))"

definition mock_summary :: "prompt_request \<Rightarrow> str \<Rightarrow> str" where
  "mock_summary q capture =
     ''## Observation'' @ [LF, LF] @ ''**Concept:** '' @ (if pq_concept q = [] then ''(none)'' else pq_concept q) @ [LF] @
     ''**Source:** '' @ (if pq_source q = [] then ''(unknown)'' else pq_source q) @ [LF, LF] @
     ''### Captured output'' @ [LF, LF] @ ''```text'' @ [LF] @ capture @ [LF] @ ''```'' @ [LF]"

text \<open>Whether the turn was cancelled when it began, and after its first half.\<close>

definition mock_turn :: "prompt_request \<Rightarrow> bool \<Rightarrow> bool \<Rightarrow> ai_event list" where
  "mock_turn q before midway =
     (if before then [Started (backend_str Mock), Cancelled]
      else
        (let capture = truncate_utf8 (pq_capture q) AI_MAX_CAPTURE_BYTES;
             summary = mock_summary q capture;
             (first, second) = split_at_midpoint summary
         in [Started (backend_str Mock), Prompt_Shown capture, Turn_Begin,
             Thinking (''Inspecting '' @ dec (length (str_lines capture)) @ '' captured lines ('' @ dec (length capture) @
               '' bytes) using a deterministic local backend.'' @ [LF]),
             Answer_Started, Delta first] @
            (if midway then [Cancelled] else [Delta second, Done summary])))"

section \<open>The events of a frame\<close>

definition jtext :: "json \<Rightarrow> str \<Rightarrow> str option" where
  "jtext v k = Option.bind (jget v k) jstr"

definition jflag :: "json \<Rightarrow> str \<Rightarrow> bool option" where
  "jflag v k = Option.bind (jget v k) jbool"

definition classify_message_update :: "json \<Rightarrow> bool \<Rightarrow> ai_event list \<times> bool" where
  "classify_message_update frame saw =
     (case jget frame ''assistantMessageEvent'' of
        None \<Rightarrow> ([], saw)
      | Some ev \<Rightarrow>
          (let kind = unwrap_or (jtext ev ''type'') [];
               delta = (case jtext ev ''delta'' of Some d \<Rightarrow> d | None \<Rightarrow> unwrap_or (jtext ev ''text'') [])
           in if delta = [] then ([], saw)
              else if kind = ''thinking_delta'' \<or> kind = ''reasoning_delta'' \<or> kind = ''thinking'' then ([Thinking delta], saw)
              else if kind = ''text_delta'' then ((if saw then [] else [Answer_Started]) @ [Delta delta], True)
              else ([], saw)))"

definition events_from_rpc_frame :: "json \<Rightarrow> bool \<Rightarrow> ai_event list \<times> bool" where
  "events_from_rpc_frame frame saw =
     (if frame_type frame = Some ''agent_start'' then ([Turn_Begin], saw)
      else if frame_type frame = Some ''message_update'' then classify_message_update frame saw
      else ([], saw))"

section \<open>The OMP process\<close>

datatype backend_error = Message str | Io_Error bool str          \<comment> \<open>whether the pipe is broken\<close>

fun error_text :: "backend_error \<Rightarrow> str" where
  "error_text (Message m) = m"
| "error_text (Io_Error _ m) = m"

fun is_child_gone :: "backend_error \<Rightarrow> bool" where
  "is_child_gone (Io_Error broken _) = broken"
| "is_child_gone (Message _) = False"

definition MAX_ASSEMBLED_ANSWER_BYTES :: nat where "MAX_ASSEMBLED_ANSWER_BYTES = 8 * 1024 * 1024"

definition omp_arguments :: "open_request \<Rightarrow> str list \<Rightarrow> str list" where
  "omp_arguments c extra =
     [''--mode'', ''rpc'', ''--no-session'', ''--no-tools'', ''--no-extensions'', ''--no-skills'', ''--no-rules'', ''--system-prompt'',
      resolve_system_prompt \<lparr>ob_backend = Omp, ob_capture = [], ob_concept = [], ob_source = [],
        ob_system = or_system c, ob_cwd = or_cwd c, ob_model = or_model c\<rparr>] @
     (if or_cwd c \<noteq> [] then [''--cwd'', or_cwd c] else []) @ (if or_model c \<noteq> [] then [''--model'', or_model c] else []) @ extra"

text \<open>The process: whether it was given up, whether it has exited, its decoder, what was written to it,
  and what the next writes will answer (nothing when they succeed).\<close>

record omp_process =
  op_dead :: bool
  op_exited :: bool
  op_decoder :: "pending_chunks option"
  op_ids :: nat
  op_written :: "json list"
  op_faults :: "backend_error option list"

definition is_dead :: "omp_process \<Rightarrow> bool" where
  "is_dead p \<longleftrightarrow> op_dead p \<or> op_exited p"

definition kill_and_wait :: "omp_process \<Rightarrow> omp_process" where
  "kill_and_wait p = p\<lparr>op_dead := True\<rparr>"

definition write_json :: "json \<Rightarrow> omp_process \<Rightarrow> omp_process \<times> (backend_error + unit)" where
  "write_json v p =
     (case op_faults p of
        Some e # fs \<Rightarrow> (p\<lparr>op_faults := fs\<rparr>, Inl e)
      | None # fs \<Rightarrow> (p\<lparr>op_faults := fs, op_written := op_written p @ [v]\<rparr>, Inr ())
      | [] \<Rightarrow> (p\<lparr>op_written := op_written p @ [v]\<rparr>, Inr ()))"

definition next_id :: "omp_process \<Rightarrow> str \<times> omp_process" where
  "next_id p = (''gpty-'' @ dec (op_ids p), p\<lparr>op_ids := op_ids p + 1\<rparr>)"

text \<open>What comes while a turn waits: a line of the child, the end of its output, a failed read, the
  signal to cancel, or the deadline.\<close>

datatype child_input = Line str | Output_Ends | Read_Fails str | Cancel_Seen | Deadline_Passed

text \<open>One line, \<open>next_frame\<close>: a frame, or nothing yet.\<close>

definition next_line :: "(str \<Rightarrow> str + json) \<Rightarrow> str \<Rightarrow> omp_process \<Rightarrow> omp_process \<times> (backend_error + json option)" where
  "next_line parse l p =
     (if trim l = [] then (p, Inr None)
      else (case parse l of
          Inl e \<Rightarrow> (p, Inl (Message (''invalid omp RPC frame: '' @ e)))
        | Inr v \<Rightarrow>
            (case rpc_push parse v (op_decoder p) of
               (Inl e, d) \<Rightarrow> (p\<lparr>op_decoder := d\<rparr>, Inl (Message e))
             | (Inr r, d) \<Rightarrow> (p\<lparr>op_decoder := d\<rparr>, Inr r))))"

definition handle_extension_ui :: "json \<Rightarrow> omp_process \<Rightarrow> omp_process \<times> (backend_error + bool)" where
  "handle_extension_ui frame p =
     (if frame_type frame \<noteq> Some ''extension_ui_request'' then (p, Inr False)
      else (case jtext frame ''id'' of
          None \<Rightarrow> (p, Inr True)
        | Some i \<Rightarrow>
            (case write_json (JObj [(''cancelled'', JBool True), (''id'', JStr i), (''type'', JStr ''extension_ui_response'')]) p of
               (p1, Inl e) \<Rightarrow> (p1, Inl e)
             | (p1, Inr _) \<Rightarrow> (p1, Inr True))))"

text \<open>Starting the program: its first frame, then, unless that was \<open>ready\<close>, whatever comes until it, and the
  request for the second version of the protocol.\<close>

fun first_frame :: "(str \<Rightarrow> str + json) \<Rightarrow> child_input list \<Rightarrow> omp_process \<Rightarrow> (omp_process \<times> child_input list \<times> (str + json)) option" where
  "first_frame parse [] p = None"
| "first_frame parse (Deadline_Passed # ins) p = Some (p, ins, Inl ''timeout waiting for omp ready'')"
| "first_frame parse (Cancel_Seen # ins) p = first_frame parse ins p"
| "first_frame parse (Output_Ends # ins) p = Some (p\<lparr>op_dead := True\<rparr>, ins, Inl ''omp stdout closed before ready'')"
| "first_frame parse (Read_Fails e # ins) p = Some (p\<lparr>op_dead := True\<rparr>, ins, Inl e)"
| "first_frame parse (Line l # ins) p =
     (case next_line parse l p of
        (p1, Inl e) \<Rightarrow> Some (p1, ins, Inl (error_text e))
      | (p1, Inr None) \<Rightarrow> first_frame parse ins p1
      | (p1, Inr (Some frame)) \<Rightarrow> Some (p1, ins, Inr frame))"

fun wait_for_type :: "(str \<Rightarrow> str + json) \<Rightarrow> str \<Rightarrow> child_input list \<Rightarrow> omp_process \<Rightarrow> (omp_process \<times> child_input list \<times> (backend_error + json)) option" where
  "wait_for_type parse wanted [] p = None"
| "wait_for_type parse wanted (Deadline_Passed # ins) p = Some (p, ins, Inl (Message (''timeout waiting for omp '' @ wanted)))"
| "wait_for_type parse wanted (Cancel_Seen # ins) p = wait_for_type parse wanted ins p"
| "wait_for_type parse wanted (Output_Ends # ins) p =
     Some (p\<lparr>op_dead := True\<rparr>, ins, Inl (Message (''omp stdout closed before '' @ wanted)))"
| "wait_for_type parse wanted (Read_Fails e # ins) p = Some (p\<lparr>op_dead := True\<rparr>, ins, Inl (Message e))"
| "wait_for_type parse wanted (Line l # ins) p =
     (case next_line parse l p of
        (p1, Inl e) \<Rightarrow> Some (p1, ins, Inl e)
      | (p1, Inr None) \<Rightarrow> wait_for_type parse wanted ins p1
      | (p1, Inr (Some frame)) \<Rightarrow>
          (case handle_extension_ui frame p1 of
             (p2, Inl e) \<Rightarrow> Some (p2, ins, Inl e)
           | (p2, Inr True) \<Rightarrow> wait_for_type parse wanted ins p2
           | (p2, Inr False) \<Rightarrow>
               if frame_type frame = Some wanted then Some (p2, ins, Inr frame) else wait_for_type parse wanted ins p2))"

definition handshake :: "(str \<Rightarrow> str + json) \<Rightarrow> child_input list \<Rightarrow> omp_process \<Rightarrow> (omp_process \<times> child_input list \<times> (str + unit)) option" where
  "handshake parse ins p =
     Option.bind (first_frame parse ins p) (\<lambda>(p1, rest, r).
       case r of
         Inl e \<Rightarrow> Some (p1, rest, Inl e)
       | Inr frame \<Rightarrow>
           Option.bind (if frame_type frame = Some ''ready'' then Some (p1, rest, Inr frame) else wait_for_type parse ''ready'' rest p1)
             (\<lambda>(p2, rest2, r2).
               case r2 of
                 Inl e \<Rightarrow> Some (p2, rest2, Inl (error_text e))
               | Inr _ \<Rightarrow>
                   (let (i, p3) = next_id p2
                    in case write_json (JObj [(''id'', JStr i), (''protocolVersion'', JInt 2), (''type'', JStr ''negotiate_protocol'')]) p3 of
                         (p4, Inl e) \<Rightarrow> Some (p4, rest2, Inl (error_text e))
                       | (p4, Inr _) \<Rightarrow> Some (p4, rest2, Inr ()))))"

definition describe_failure :: "str list \<Rightarrow> str \<Rightarrow> str" where
  \<comment> \<open>the lines of standard error that were kept\<close>
  "describe_failure tail e =
     (let detail = tail_summary tail in if detail = [] then e else e @ '' (omp stderr: '' @ detail @ '')'')"

text \<open>\<open>spawn\<close>: where the program was found, what starting it answered, and the process then.\<close>

definition omp_spawn :: "(str \<Rightarrow> str + json) \<Rightarrow> str option \<Rightarrow> str + omp_process \<Rightarrow> str list \<Rightarrow> child_input list
    \<Rightarrow> ((str + omp_process) \<times> child_input list) option" where
  "omp_spawn parse binary started tail ins =
     (case binary of
        None \<Rightarrow> Some (Inl ''omp binary not found (install Oh-My-Pi or set GPTY_OMP to an absolute path)'', ins)
      | Some b \<Rightarrow>
          (case started of
             Inl e \<Rightarrow> Some (Inl (''failed to spawn omp at '' @ b @ '': '' @ e), ins)
           | Inr p \<Rightarrow>
               map_option (\<lambda>(p1, rest, r). case r of Inl e \<Rightarrow> (Inl (describe_failure tail e), rest) | Inr _ \<Rightarrow> (Inr p1, rest))
                 (handshake parse ins p)))"

text \<open>After the request to abort: frames are read until one acknowledges it, for two seconds at most.\<close>

fun abort_wait :: "(str \<Rightarrow> str + json) \<Rightarrow> child_input list \<Rightarrow> omp_process \<Rightarrow> omp_process \<times> child_input list" where
  "abort_wait parse [] p = (kill_and_wait p, [])"
| "abort_wait parse (Line l # ins) p =
     (case next_line parse l p of
        (p1, Inl e) \<Rightarrow> (kill_and_wait p1, ins)
      | (p1, Inr None) \<Rightarrow> abort_wait parse ins p1
      | (p1, Inr (Some frame)) \<Rightarrow>
          if frame_type frame = Some ''agent_end'' \<or> frame_type frame = Some ''prompt_result'' then (p1\<lparr>op_dead := True\<rparr>, ins)
          else abort_wait parse ins p1)"
| "abort_wait parse (Cancel_Seen # ins) p = abort_wait parse ins p"
| "abort_wait parse (_ # ins) p = (kill_and_wait p, ins)"

definition abort_and_wait :: "(str \<Rightarrow> str + json) \<Rightarrow> child_input list \<Rightarrow> omp_process \<Rightarrow> omp_process \<times> child_input list" where
  "abort_and_wait parse ins p =
     (let (i, p0) = next_id p
      in case write_json (JObj [(''id'', JStr i), (''type'', JStr ''abort'')]) p0 of
           (p1, Inl e) \<Rightarrow> (kill_and_wait p1, ins)
         | (p1, Inr _) \<Rightarrow> abort_wait parse ins p1)"

text \<open>The events of one frame, with the answer assembled so far; the last component is whether it grew
  too long.\<close>

fun relay_events :: "ai_event list \<Rightarrow> str \<Rightarrow> ai_event list \<times> str \<times> bool" where
  "relay_events [] asm = ([], asm, False)"
| "relay_events (Delta t # es) asm =
     (if MAX_ASSEMBLED_ANSWER_BYTES < length asm + length t then ([], asm, True)
      else (case relay_events es (asm @ t) of (out, asm', over) \<Rightarrow> (Delta t # out, asm', over)))"
| "relay_events (e # es) asm = (case relay_events es asm of (out, asm', over) \<Rightarrow> (e # out, asm', over))"

text \<open>What a frame means for the turn: it goes on with events, it is over, or it has failed.\<close>

datatype frame_verdict = Goes_On "ai_event list" bool | Turn_Over | Turn_Fails str

definition judge_frame :: "json \<Rightarrow> bool \<Rightarrow> frame_verdict" where
  "judge_frame frame saw =
     (let t = frame_type frame
      in if t = Some ''agent_start'' \<or> t = Some ''message_update'' then
           (case events_from_rpc_frame frame saw of (evs, saw') \<Rightarrow> Goes_On evs saw')
         else if t = Some ''agent_end'' \<and> jflag frame ''willContinue'' \<noteq> Some True \<and> jflag frame ''isTerminal'' \<noteq> Some False then Turn_Over
         else if t = Some ''prompt_result'' \<and> jflag frame ''agentInvoked'' = Some False then Turn_Over
         else if t = Some ''response'' \<and> jflag frame ''success'' = Some False then
           (let cmd = unwrap_or (jtext frame ''command'') ''?''
            in if cmd = ''prompt'' \<or> cmd = ''parse''
               then Turn_Fails (''omp '' @ cmd @ '': '' @ unwrap_or (jtext frame ''error'') ''omp command failed'')
               else Goes_On [] saw)
         else Goes_On [] saw)"

type_synonym turn_result = "omp_process \<times> child_input list \<times> ai_event list \<times> (backend_error + unit)"

fun omp_loop :: "(str \<Rightarrow> str + json) \<Rightarrow> child_input list \<Rightarrow> omp_process \<Rightarrow> str \<Rightarrow> bool \<Rightarrow> ai_event list \<Rightarrow> turn_result option" where
  "omp_loop parse [] p asm saw evs = None"
| "omp_loop parse (Cancel_Seen # ins) p asm saw evs =
     (case abort_and_wait parse ins p of (p1, rest) \<Rightarrow> Some (p1, rest, evs @ [Cancelled], Inr ()))"
| "omp_loop parse (Deadline_Passed # ins) p asm saw evs =
     (case abort_and_wait parse ins p of (p1, rest) \<Rightarrow> Some (p1, rest, evs, Inl (Message ''omp prompt timed out'')))"
| "omp_loop parse (Output_Ends # ins) p asm saw evs =
     Some (p\<lparr>op_dead := True\<rparr>, ins, evs, Inl (Message ''omp stdout closed early''))"
| "omp_loop parse (Read_Fails e # ins) p asm saw evs = Some (p\<lparr>op_dead := True\<rparr>, ins, evs, Inl (Message e))"
| "omp_loop parse (Line l # ins) p asm saw evs =
     (case next_line parse l p of
        (p1, Inl e) \<Rightarrow> Some (p1, ins, evs, Inl e)
      | (p1, Inr None) \<Rightarrow> omp_loop parse ins p1 asm saw evs
      | (p1, Inr (Some frame)) \<Rightarrow>
          (case handle_extension_ui frame p1 of
             (p2, Inl e) \<Rightarrow> Some (p2, ins, evs, Inl e)
           | (p2, Inr True) \<Rightarrow> omp_loop parse ins p2 asm saw evs
           | (p2, Inr False) \<Rightarrow>
               (case judge_frame frame saw of
                  Turn_Over \<Rightarrow> Some (p2, ins, evs @ [Done asm], Inr ())
                | Turn_Fails m \<Rightarrow> Some (p2, ins, evs, Inl (Message m))
                | Goes_On new saw' \<Rightarrow>
                    (case relay_events new asm of
                       (out, asm', False) \<Rightarrow> omp_loop parse ins p2 asm' saw' (evs @ out)
                     | (out, asm', True) \<Rightarrow>
                         (case abort_and_wait parse ins p2 of
                            (p3, rest) \<Rightarrow> Some (p3, rest, evs @ out,
                              Inl (Message (''omp answer exceeds '' @ dec (MAX_ASSEMBLED_ANSWER_BYTES div (1024 * 1024)) @ '' MiB''))))))))"

definition omp_prompt :: "(str \<Rightarrow> str + json) \<Rightarrow> str \<Rightarrow> bool \<Rightarrow> child_input list \<Rightarrow> omp_process \<Rightarrow> turn_result option" where
  "omp_prompt parse message cancelled ins p =
     (if cancelled then Some (p, ins, [Cancelled], Inr ())
      else
        (let (i, p0) = next_id p
         in case write_json (JObj [(''id'', JStr i), (''message'', JStr message), (''type'', JStr ''prompt'')]) p0 of
              (p1, Inl e) \<Rightarrow> Some (p1, ins, [], Inl e)
            | (p1, Inr _) \<Rightarrow> omp_loop parse ins p1 [] False []))"

text \<open>An attempt on a process that may have failed to start.\<close>

definition omp_attempt :: "(str \<Rightarrow> str + json) \<Rightarrow> str \<Rightarrow> bool \<Rightarrow> child_input list \<Rightarrow> str + omp_process
    \<Rightarrow> ((str + omp_process) \<times> child_input list \<times> ai_event list \<times> (backend_error + unit)) option" where
  "omp_attempt parse message cancelled ins process =
     (case process of
        Inl m \<Rightarrow> Some (Inl m, ins, [], Inl (Message m))
      | Inr p \<Rightarrow> map_option (\<lambda>(p1, rest, evs, r). (Inr p1, rest, evs, r)) (omp_prompt parse message cancelled ins p))"

definition is_stale :: "str + omp_process \<Rightarrow> bool" where
  "is_stale process = (case process of Inr p \<Rightarrow> is_dead p | Inl _ \<Rightarrow> True)"

text \<open>One turn.  The parameter \<open>spawn\<close> is what starting the program answers each time; the result is the
  process, the number of starts, the rest of the input and the events of the turn.\<close>

definition omp_turn :: "(str \<Rightarrow> str + json) \<Rightarrow> (nat \<Rightarrow> str + omp_process) \<Rightarrow> open_request \<Rightarrow> prompt_request \<Rightarrow> bool \<Rightarrow> child_input list
    \<Rightarrow> (str + omp_process) \<times> nat \<Rightarrow> ((str + omp_process) \<times> nat \<times> child_input list \<times> ai_event list) option" where
  "omp_turn parse spawn c q cancelled ins st =
     (let (process, n) = (if is_stale (fst st) then (spawn (snd st), snd st + 1) else st);
          message = build_user_message (as_observation q c);
          ending = (\<lambda>(process, n, rest, evs, r). (process, n, rest,
            [Started (backend_str Omp), Prompt_Shown (truncate_utf8 (pq_capture q) 400)] @ evs @
            (case r of Inl e \<Rightarrow> [Failed_With (error_text e)] | Inr _ \<Rightarrow> [])))
      in case omp_attempt parse message cancelled ins process of
           None \<Rightarrow> None
         | Some (process1, rest, evs, r) \<Rightarrow>
             if (case r of Inl e \<Rightarrow> is_child_gone e | Inr _ \<Rightarrow> False)
             then map_option (\<lambda>(process2, rest2, evs2, r2). ending (process2, n + 1, rest2, evs @ evs2, r2))
                    (omp_attempt parse message cancelled rest (spawn n))
             else Some (ending (process1, n, rest, evs, r)))"

section \<open>The adapter\<close>

definition argv_from_string :: "str \<Rightarrow> str list" where
  "argv_from_string s = split_whitespace s"

definition cli_request :: "open_request \<Rightarrow> prompt_request \<Rightarrow> json" where
  "cli_request c q =
     JObj [(''capture'', JStr (pq_capture q)), (''concept_name'', JStr (pq_concept q)), (''model'', JStr (or_model c)),
       (''source_pane'', JStr (pq_source q)), (''system_prompt'', JStr (or_system c))]"

definition relay_frame :: "(str \<Rightarrow> str + json) \<Rightarrow> str \<Rightarrow> str + ai_event list" where
  "relay_frame parse l =
     and_then (map_err (\<lambda>e. ''cli backend frame not JSON: '' @ e) (parse l)) (\<lambda>v.
       let t = frame_type v; text = unwrap_or (jtext v ''text'') []
       in Inr (if t = Some ''thinking'' then [Thinking text]
               else if t = Some ''delta'' then [Delta text]
               else if t = Some ''done'' then [Done text]
               else if t = Some ''error'' then [Failed_With (unwrap_or (jtext v ''message'') ''cli backend error'')]
               else if t = Some ''status'' then [Status (unwrap_or (jtext v ''message'') [])]
               else []))"

text \<open>What comes while a turn of the adapter waits: a line, silence for ten seconds, a failed read, the end of
  its output with how it exited (its code unless a signal ended it, and whether it succeeded) and what
  it said on standard error, the user's cancel, and the end of the turn's budget.\<close>

datatype cli_input =
    Cli_Line str
  | Cli_Silence
  | Cli_Read_Fails str
  | Cli_Exit "str option" bool str
  | Cli_Wait_Fails str
  | Cli_Cancel
  | Cli_Budget_Spent

text \<open>The loop, in the middle of a read; whether the turn was cancelled is looked at between two lines
  only.\<close>

fun cli_loop :: "(str \<Rightarrow> str + json) \<Rightarrow> cli_input list \<Rightarrow> bool \<Rightarrow> ai_event list \<Rightarrow> (ai_event list \<times> bool \<times> (str + unit)) option" where
  "cli_loop parse [] cancelled evs = None"
| "cli_loop parse (Cli_Cancel # ins) cancelled evs = cli_loop parse ins True evs"
| "cli_loop parse (Cli_Line l # ins) cancelled evs =
     (case relay_frame parse l of
        Inl e \<Rightarrow> Some (evs, cancelled, Inl e)
      | Inr new \<Rightarrow> if cancelled then Some (evs @ new, True, Inr ()) else cli_loop parse ins False (evs @ new))"
| "cli_loop parse (Cli_Silence # ins) cancelled evs = Some (evs, cancelled, Inl ''cli backend stopped emitting frames'')"
| "cli_loop parse (Cli_Read_Fails e # ins) cancelled evs = Some (evs, cancelled, Inl e)"
| "cli_loop parse (Cli_Wait_Fails e # ins) cancelled evs = Some (evs, cancelled, Inl (''cli backend wait: '' @ e))"
| "cli_loop parse (Cli_Exit exit success detail # ins) cancelled evs =
     Some (evs, cancelled,
       if success then Inr ()
       else Inl (''cli backend exited with '' @ unwrap_or exit ''signal'' @ (if detail = [] then [] else '': '' @ detail)))"
| "cli_loop parse (Cli_Budget_Spent # ins) cancelled evs = Some (evs, cancelled, Inl ''cli backend timed out after 120s'')"

text \<open>One turn: what spawning and the first write answer, whether it was cancelled before it began.\<close>

definition cli_turn :: "(str \<Rightarrow> str + json) \<Rightarrow> open_request \<Rightarrow> prompt_request \<Rightarrow> str + (str + unit) \<Rightarrow> bool \<Rightarrow> cli_input list \<Rightarrow> ai_event list option" where
  "cli_turn parse c q spawned cancelled ins =
     (let result =
        (if or_command c = [] then Some ([], cancelled, Inl ''cli backend has no command configured (set it in Inspector pane settings)'')
         else case spawned of
           Inl e \<Rightarrow> Some ([], cancelled, Inl (''failed to spawn '' @ hd (or_command c) @ '': '' @ e))
         | Inr (Inl e) \<Rightarrow> Some ([], cancelled, Inl (''cli backend write: '' @ e))
         | Inr (Inr _) \<Rightarrow> if cancelled then Some ([], True, Inr ()) else cli_loop parse ins False [])
      in map_option (\<lambda>(evs, cancelled, r).
           [Started (backend_str Cli), Prompt_Shown (truncate_utf8 (pq_capture q) 400)] @ evs @
           (case r of Inl e \<Rightarrow> [Failed_With e] | Inr _ \<Rightarrow> if cancelled then [Cancelled] else [])) result)"

section \<open>The queue of a session\<close>

text \<open>The events of a queue are a drop-oldest queue.\<close>

definition push_event :: "envelope \<Rightarrow> envelope list \<Rightarrow> envelope list" where
  "push_event e q = eq_events (queue_push e \<lparr>eq_events = q, eq_dropped = 0\<rparr>)"

interpretation event_ring: drop_oldest push_event AI_MAX_QUEUED_EVENTS
  by unfold_locales (auto simp: push_event_def queue_push_def AI_MAX_QUEUED_EVENTS_def)

lemma eq_events_push: "eq_events (queue_push e q) = push_event e (eq_events q)"
  by (simp add: push_event_def queue_push_def)

text \<open>A run of emits and polls: what was emitted, what was handed out, and how many events the notices
  said were lost.\<close>

datatype queue_op = Emit_Event nat str ai_event | Poll_Events nat

type_synonym queue_history = "envelope list \<times> envelope list \<times> nat \<times> ai_session"

fun queue_step :: "queue_op \<Rightarrow> queue_history \<Rightarrow> queue_history" where
  "queue_step (Emit_Event turn run e) (es, ds, n, s) =
     (let s' = emit turn run e s in (es @ [last (eq_events (as_queue s'))], ds, n, s'))"
| "queue_step (Poll_Events k) (es, ds, n, s) =
     (let lost = eq_dropped (as_queue s); (out, s') = session_poll k s
      in (es, ds @ (if 0 < lost then tl out else out), n + lost, s'))"

definition history_ok :: "queue_history \<Rightarrow> bool" where
  "history_ok h = (case h of (es, ds, n, s) \<Rightarrow>
     length (eq_events (as_queue s)) \<le> AI_MAX_QUEUED_EVENTS \<and>
     length es = length ds + n + eq_dropped (as_queue s) + length (eq_events (as_queue s)) \<and>
     subseq (ds @ eq_events (as_queue s)) es)"

lemma subseq_tl: "subseq (tl xs) xs"
  by (cases xs) auto

lemma history_ok_step: "history_ok h \<Longrightarrow> history_ok (queue_step a h)"
proof -
  assume ok: "history_ok h"
  obtain es ds n s where h: "h = (es, ds, n, s)" by (cases h) auto
  let ?q = "eq_events (as_queue s)"
  have q: "length ?q \<le> AI_MAX_QUEUED_EVENTS" "subseq (ds @ ?q) es"
    "length es = length ds + n + eq_dropped (as_queue s) + length ?q" using ok h by (simp_all add: history_ok_def)
  show ?thesis
  proof (cases a)
    case (Emit_Event turn run e)
    let ?env = "\<lparr>en_session = as_id s, en_turn = turn, en_run = run, en_seq = as_sequence s, en_channel = channel_of e, en_event = e\<rparr>"
    have s': "as_queue (emit turn run e s) = queue_push ?env (as_queue s)" by (simp add: emit_def Let_def)
    have lst: "last (eq_events (queue_push ?env (as_queue s))) = ?env" by (simp add: queue_push_def)
    have "subseq (ds @ tl ?q) es"
      using q(2) by (meson list_emb_append_mono subseq_order.order_refl subseq_order.order_trans subseq_tl)
    then have "subseq ((ds @ tl ?q) @ [?env]) (es @ [?env])" "subseq ((ds @ ?q) @ [?env]) (es @ [?env])"
      using q(2) by (auto intro: list_emb_append_mono simp del: append_assoc)
    moreover have "0 < AI_MAX_QUEUED_EVENTS" by (simp add: AI_MAX_QUEUED_EVENTS_def)
    ultimately show ?thesis
      using Emit_Event h q(1,3) s' lst by (cases "length ?q = AI_MAX_QUEUED_EVENTS") (auto simp: history_ok_def Let_def queue_push_def)
  next
    case (Poll_Events k)
    then show ?thesis
      using h q by (auto simp: history_ok_def Let_def session_poll_def queue_drain_def)
  qed
qed

text \<open>No event of a session disappears unnoticed.  Whatever is emitted and polled, the events handed
  out and those that still wait are the emitted ones in order, at most 2048 wait, and the number that
  is missing is exactly what the notices announced and the next one will.\<close>

theorem event_queue_accounts:
  assumes "fold queue_step ops ([], [], 0, fresh_session sid c) = (es, ds, n, s)"
  shows "subseq (ds @ eq_events (as_queue s)) es \<and> length (eq_events (as_queue s)) \<le> 2048 \<and>
    length es = length ds + n + eq_dropped (as_queue s) + length (eq_events (as_queue s))"
proof -
  have "history_ok ([], [], 0, fresh_session sid c)" by (simp add: history_ok_def fresh_session_def)
  then have "history_ok (fold queue_step ops ([], [], 0, fresh_session sid c))"
    by (induction ops rule: rev_induct) (simp_all add: history_ok_step)
  then show ?thesis using assms by (simp add: history_ok_def AI_MAX_QUEUED_EVENTS_def)
qed

theorem event_queue_accounts_witness:
  "\<forall>c. \<exists>es ds n s. fold queue_step [Emit_Event 1 ''1-1'' Turn_Begin, Poll_Events 4, Emit_Event 1 ''1-1'' (Done [])]
      ([], [], 0, fresh_session ''1'' c) = (es, ds, n, s) \<and> length es = 2 \<and> length ds = 1 \<and> length (eq_events (as_queue s)) = 1 - n"
proof
  fix c
  let ?h = "fold queue_step [Emit_Event 1 ''1-1'' Turn_Begin, Poll_Events 4, Emit_Event 1 ''1-1'' (Done [])] ([], [], 0, fresh_session ''1'' c)"
  obtain es ds n s where h: "?h = (es, ds, n, s)" by (cases ?h) auto
  have len: "length es = 2" "length ds = 1" "eq_dropped (as_queue s) = 0"
    using h by (auto simp: emit_def session_poll_def queue_drain_def queue_push_def fresh_session_def AI_MAX_QUEUED_EVENTS_def Let_def)
  then have "length (eq_events (as_queue s)) = 1 - n" using event_queue_accounts [OF h] by simp
  then show "\<exists>es ds n s. ?h = (es, ds, n, s) \<and> length es = 2 \<and> length ds = 1 \<and> length (eq_events (as_queue s)) = 1 - n"
    using h len by blast
qed

section \<open>Turns end\<close>

abbreviation goes_on :: "ai_event list \<Rightarrow> bool" where
  "goes_on \<equiv> list_all (\<lambda>e. \<not> is_terminal e)"

definition deltas :: "ai_event list \<Rightarrow> str" where
  "deltas evs = concat (map (\<lambda>e. case e of Delta t \<Rightarrow> t | _ \<Rightarrow> []) evs)"

lemma deltas_simps [simp]:
  "deltas [] = []" "deltas (xs @ ys) = deltas xs @ deltas ys" "deltas (Delta t # evs) = t @ deltas evs"
  by (simp_all add: deltas_def)

lemma relay_events_spec:
  "relay_events es asm = (out, asm', over) \<Longrightarrow> goes_on es \<Longrightarrow> length asm \<le> MAX_ASSEMBLED_ANSWER_BYTES \<Longrightarrow>
   goes_on out \<and> asm' = asm @ deltas out \<and> length asm' \<le> MAX_ASSEMBLED_ANSWER_BYTES"
proof (induction es asm arbitrary: out asm' over rule: relay_events.induct)
  case (2 t es asm)
  show ?case
  proof (cases "MAX_ASSEMBLED_ANSWER_BYTES < length asm + length t")
    case False
    obtain o1 a1 v1 where r: "relay_events es (asm @ t) = (o1, a1, v1)" by (cases "relay_events es (asm @ t)") auto
    then show ?thesis using 2(1) [OF False r] 2(2,3) False by auto
  qed (use 2 in auto)
qed (auto simp: deltas_def split: prod.splits)

lemma judge_frame_goes_on: "judge_frame frame saw = Goes_On new saw' \<Longrightarrow> goes_on new"
  by (auto simp: judge_frame_def events_from_rpc_frame_def classify_message_update_def Let_def
      split: if_splits prod.splits option.splits)

text \<open>How a turn may end: it fails without a final event, or with one - cancelled, or done with the
  answer that was streamed.\<close>

definition ends_well :: "str \<Rightarrow> ai_event list \<Rightarrow> backend_error + unit \<Rightarrow> bool" where
  "ends_well asm added r =
     (case r of
        Inl _ \<Rightarrow> goes_on added
      | Inr _ \<Rightarrow> (\<exists>m t. added = m @ [t] \<and> goes_on m \<and>
          (t = Cancelled \<or> t = Done (asm @ deltas m) \<and> length (asm @ deltas m) \<le> MAX_ASSEMBLED_ANSWER_BYTES)))"

lemma ends_well_after:
  assumes "ends_well (asm @ deltas out) added r" "goes_on out"
  shows "ends_well asm (out @ added) r"
proof (cases r)
  case (Inr u)
  then obtain m t where "added = m @ [t]" "goes_on m"
    "t = Cancelled \<or> t = Done ((asm @ deltas out) @ deltas m) \<and> length ((asm @ deltas out) @ deltas m) \<le> MAX_ASSEMBLED_ANSWER_BYTES"
    using assms(1) by (auto simp: ends_well_def)
  then show ?thesis using Inr assms(2) by (auto simp: ends_well_def intro!: exI [of _ "out @ m"])
qed (use assms in \<open>simp add: ends_well_def\<close>)

lemma omp_loop_ends:
  assumes "omp_loop parse ins p asm saw evs = Some (p', rest, evs', res)" "length asm \<le> MAX_ASSEMBLED_ANSWER_BYTES"
  shows "\<exists>added. evs' = evs @ added \<and> ends_well asm added res"
  using assms
proof (induction parse ins p asm saw evs rule: omp_loop.induct)
  case (6 parse l ins p asm saw evs)
  obtain p1 r1 where t: "next_line parse l p = (p1, r1)" by force
  consider (err) e where "r1 = Inl e" | (none) "r1 = Inr None" | (frame) frame where "r1 = Inr (Some frame)"
    by (cases r1) auto
  then show ?case
  proof cases
    case err
    then show ?thesis using 6(4) t by (auto simp: ends_well_def)
  next
    case none
    then show ?thesis using 6(1) [OF t [symmetric] none refl] 6(4,5) t by simp
  next
    case frame
    obtain p2 u where h: "handle_extension_ui frame p1 = (p2, u)" by force
    consider (err) e where "u = Inl e" | (ui) "u = Inr True" | (other) "u = Inr False" by (cases u) auto
    then show ?thesis
    proof cases
      case err
      then show ?thesis using 6(4) t frame h by (auto simp: ends_well_def)
    next
      case ui
      then show ?thesis using 6(2) [OF t [symmetric] frame refl h [symmetric] ui] 6(4,5) t frame h by simp
    next
      case other
      show ?thesis
      proof (cases "judge_frame frame saw")
        case Turn_Over
        then show ?thesis using 6(4,5) t frame h other by (auto simp: ends_well_def)
      next
        case (Turn_Fails m)
        then show ?thesis using 6(4) t frame h other by (auto simp: ends_well_def)
      next
        case (Goes_On fresh saw')
        obtain out asm' over where r: "relay_events fresh asm = (out, asm', over)" by (cases "relay_events fresh asm") auto
        note sp = relay_events_spec [OF r judge_frame_goes_on [OF Goes_On] 6(5)]
        show ?thesis
        proof (cases over)
          case True
          then show ?thesis using 6(4) t frame h other Goes_On r sp by (auto simp: ends_well_def split: prod.splits)
        next
          case False
          then have "omp_loop parse ins p2 asm' saw' (evs @ out) = Some (p', rest, evs', res)"
            using 6(4) t frame h other Goes_On r by simp
          then have "\<exists>added. evs' = (evs @ out) @ added \<and> ends_well asm' added res"
            using 6(3) [OF t [symmetric] frame refl h [symmetric] other _ Goes_On r [symmetric] _] sp False by blast
          then obtain added where "evs' = (evs @ out) @ added" "ends_well asm' added res" by blast
          then show ?thesis using sp ends_well_after by auto
        qed
      qed
    qed
  qed
qed (auto simp: ends_well_def split: prod.splits)

lemma omp_attempt_ends:
  assumes "omp_attempt parse message cancelled ins process = Some (process', rest, evs, res)"
  shows "ends_well [] evs res"
proof (cases process)
  case (Inl m)
  then show ?thesis using assms by (auto simp: omp_attempt_def ends_well_def)
next
  case (Inr p)
  obtain p1 where p1: "omp_prompt parse message cancelled ins p = Some (p1, rest, evs, res)"
    using assms Inr by (auto simp: omp_attempt_def)
  show ?thesis
  proof (cases cancelled)
    case True
    then show ?thesis using p1 by (auto simp: omp_prompt_def ends_well_def)
  next
    case False
    obtain i p0 where n: "next_id p = (i, p0)" by force
    obtain p2 w where w: "write_json (JObj [(''id'', JStr i), (''message'', JStr message), (''type'', JStr ''prompt'')]) p0 = (p2, w)" by force
    show ?thesis
    proof (cases w)
      case (Inl e)
      then show ?thesis using p1 False n w by (auto simp: omp_prompt_def ends_well_def)
    next
      case (Inr u)
      then have "omp_loop parse ins p2 [] False [] = Some (p1, rest, evs, res)" using p1 False n w by (simp add: omp_prompt_def)
      from omp_loop_ends [OF this] show ?thesis by simp
    qed
  qed
qed

text \<open>C31: Every turn of the OMP backend ends exactly once.  Whatever the child sends, however it fails and
  whenever the user cancels, the events of a turn that is over are some that are not final and then
  one that is; when that is the answer, it is the text that was streamed last, and within 8 MiB.\<close>

theorem omp_turn_ends_once:
  assumes "omp_turn parse spawn c q cancelled ins st = Some (process, n, rest, evs)"
  shows "\<exists>mid t. evs = mid @ [t] \<and> is_terminal t \<and> goes_on mid \<and>
    (\<forall>a. t = Done a \<longrightarrow> suffix a (deltas mid) \<and> length a \<le> MAX_ASSEMBLED_ANSWER_BYTES)"
proof -
  let ?head = "[Started (backend_str Omp), Prompt_Shown (truncate_utf8 (pq_capture q) 400)]"
  have final: "\<exists>mid t. evs = mid @ [t] \<and> is_terminal t \<and> goes_on mid \<and>
      (\<forall>a. t = Done a \<longrightarrow> suffix a (deltas mid) \<and> length a \<le> MAX_ASSEMBLED_ANSWER_BYTES)"
    if that_evs: "evs = ?head @ (first @ added) @ (case res of Inl e \<Rightarrow> [Failed_With (error_text e)] | Inr _ \<Rightarrow> [])"
      and that_ends: "goes_on first" "ends_well [] added res" for first added res
  proof (cases res)
    case (Inl e)
    then show ?thesis using that_evs that_ends by (intro exI [of _ "?head @ first @ added"] exI [of _ "Failed_With (error_text e)"]) (simp add: ends_well_def)
  next
    case (Inr u)
    then obtain m t where m: "added = m @ [t]" "goes_on m" "t = Cancelled \<or> t = Done (deltas m) \<and> length (deltas m) \<le> MAX_ASSEMBLED_ANSWER_BYTES"
      using that_ends(2) by (auto simp: ends_well_def)
    then show ?thesis using that_evs that_ends(1) Inr
      by (intro exI [of _ "?head @ first @ m"] exI [of _ t]) (auto simp: suffix_def deltas_def)
  qed
  obtain process0 n0 where s: "(if is_stale (fst st) then (spawn (snd st), snd st + 1) else st) = (process0, n0)"
    by fastforce
  let ?m = "build_user_message (as_observation q c)"
  obtain p1 r1 e1 res1 where a: "omp_attempt parse ?m cancelled ins process0 = Some (p1, r1, e1, res1)"
    using assms s by (cases "omp_attempt parse ?m cancelled ins process0") (auto simp: omp_turn_def Let_def)
  note w1 = omp_attempt_ends [OF a]
  show ?thesis
  proof (cases "case res1 of Inl e \<Rightarrow> is_child_gone e | Inr _ \<Rightarrow> False")
    case True
    then have "goes_on e1" using w1 by (auto simp: ends_well_def split: sum.splits)
    obtain p2 r2 e2 res2 where b: "omp_attempt parse ?m cancelled r1 (spawn n0) = Some (p2, r2, e2, res2)"
      using assms s a True by (auto simp: omp_turn_def Let_def)
    have "evs = ?head @ (e1 @ e2) @ (case res2 of Inl e \<Rightarrow> [Failed_With (error_text e)] | Inr _ \<Rightarrow> [])"
      using assms s a True b by (auto simp: omp_turn_def Let_def)
    then show ?thesis by (rule final [OF _ \<open>goes_on e1\<close> omp_attempt_ends [OF b]])
  next
    case False
    then have "evs = ?head @ ([] @ e1) @ (case res1 of Inl e \<Rightarrow> [Failed_With (error_text e)] | Inr _ \<Rightarrow> [])"
      using assms s a by (auto simp: omp_turn_def Let_def)
    then show ?thesis by (rule final [OF _ _ w1]) simp
  qed
qed

text \<open>A turn whose deadline has come does not wait any longer.\<close>

lemma omp_loop_returns: "Deadline_Passed \<in> set ins \<Longrightarrow> omp_loop parse ins p asm saw evs \<noteq> None"
proof (induction parse ins p asm saw evs rule: omp_loop.induct)
  case (6 parse l ins p asm saw evs)
  then show ?case
    by (auto split: prod.splits sum.splits option.splits bool.splits frame_verdict.splits)
qed (auto split: prod.splits)

definition demo_frames :: "str \<Rightarrow> str + json" where
  "demo_frames l =
     (if l = ''delta'' then Inr (JObj [(''type'', JStr ''message_update''),
          (''assistantMessageEvent'', JObj [(''type'', JStr ''text_delta''), (''delta'', JStr ''hello'')])])
      else if l = ''ui'' then Inr (JObj [(''type'', JStr ''extension_ui_request''), (''id'', JStr ''7'')])
      else if l = ''end'' then Inr (JObj [(''type'', JStr ''agent_end'')])
      else if l = ''ready'' then Inr (JObj [(''type'', JStr ''ready'')])
      else if l = ''bad'' then Inr (JObj [(''type'', JStr ''rpc_chunk''), (''chunkId'', JStr ''c''), (''index'', JInt 0), (''count'', JInt 1),
          (''byteLength'', JInt 3), (''data'', JStr ''!'')])
      else Inl ''expected value'')"

definition demo_process :: omp_process where
  "demo_process = \<lparr>op_dead = False, op_exited = False, op_decoder = None, op_ids = 1, op_written = [], op_faults = []\<rparr>"

definition demo_open :: open_request where
  "demo_open = \<lparr>or_backend = Omp, or_system = [], or_cwd = [], or_model = [], or_command = [''adapter''], or_strip = []\<rparr>"

definition demo_prompt :: prompt_request where
  "demo_prompt = \<lparr>pq_capture = ''ls'', pq_concept = [], pq_source = []\<rparr>"

lemma demo_message: "build_user_message (as_observation demo_prompt demo_open) =
  ''Captured output:'' @ [LF] @ ''```text'' @ [LF] @ ''ls'' @ [LF] @ ''```''"
proof -
  have "truncate_utf8 ''ls'' AI_MAX_CAPTURE_BYTES = ''ls''" by (simp add: truncate_utf8_def AI_MAX_CAPTURE_BYTES_def)
  moreover have "capture_fence ''ls'' = ''```''" by code_simp
  ultimately show ?thesis
    by (simp add: build_user_message_def as_observation_def demo_prompt_def Let_def)
qed

lemmas omp_run_defs = omp_attempt_def omp_prompt_def next_id_def write_json_def next_line_def demo_frames_def rpc_push_def
  frame_type_def handle_extension_ui_def jtext_def jflag_def judge_frame_def events_from_rpc_frame_def classify_message_update_def
  demo_process_def is_stale_def is_dead_def

lemma trim_words [simp]: "trim ''ready'' = ''ready''" "trim ''delta'' = ''delta''" "trim ''ui'' = ''ui''" "trim ''end'' = ''end''" "trim ''bad'' = ''bad''"
  by code_simp+

lemma small_answer [simp]: "n < 100 \<Longrightarrow> \<not> MAX_ASSEMBLED_ANSWER_BYTES < n"
  by (simp add: MAX_ASSEMBLED_ANSWER_BYTES_def)

theorem omp_turn_ends_once_witness:
  "\<exists>process n evs mid. omp_turn demo_frames (\<lambda>_. Inr demo_process) demo_open demo_prompt False [Line ''delta'', Line ''end'']
      (Inr demo_process, 1) = Some (process, n, [], evs) \<and> evs = mid @ [Done ''hello''] \<and> goes_on mid \<and> suffix ''hello'' (deltas mid)"
proof -
  have "\<exists>process n. omp_turn demo_frames (\<lambda>_. Inr demo_process) demo_open demo_prompt False [Line ''delta'', Line ''end'']
      (Inr demo_process, 1) = Some (process, n, [], [Started ''omp'', Prompt_Shown (truncate_utf8 (pq_capture demo_prompt) 400)] @
        [Answer_Started, Delta ''hello''] @ [Done ''hello''])"
    unfolding omp_turn_def demo_message by (simp add: omp_run_defs Let_def)
  then obtain process n where run: "omp_turn demo_frames (\<lambda>_. Inr demo_process) demo_open demo_prompt False [Line ''delta'', Line ''end'']
      (Inr demo_process, 1) = Some (process, n, [], [Started ''omp'', Prompt_Shown (truncate_utf8 (pq_capture demo_prompt) 400)] @
        [Answer_Started, Delta ''hello''] @ [Done ''hello''])" by blast
  from omp_turn_ends_once [OF run] obtain mid t where m:
    "[Started ''omp'', Prompt_Shown (truncate_utf8 (pq_capture demo_prompt) 400)] @ [Answer_Started, Delta ''hello''] @ [Done ''hello''] = mid @ [t]"
    "goes_on mid" "\<forall>a. t = Done a \<longrightarrow> suffix a (deltas mid)" by blast
  then have "t = Done ''hello''" by (metis append_assoc append1_eq_conv)
  then show ?thesis using run m by blast
qed

text \<open>A chunk that cannot be decoded fails its turn; the process is not given up, and the sequence stays
  under way, so that the next turn fails on its first frame.\<close>

lemma broken_chunk_fails_the_next_turn:
  "\<exists>p n p' n'. omp_turn demo_frames (\<lambda>_. Inr demo_process) demo_open demo_prompt False [Line ''bad'', Line ''end'']
      (Inr demo_process, 1) = Some (p, n, [Line ''end''], [Started ''omp'', Prompt_Shown (truncate_utf8 (pq_capture demo_prompt) 400),
        Failed_With ''invalid rpc_chunk base64'']) \<and>
    omp_turn demo_frames (\<lambda>_. Inr demo_process) demo_open demo_prompt False [Line ''end''] (p, n) =
      Some (p', n', [], [Started ''omp'', Prompt_Shown (truncate_utf8 (pq_capture demo_prompt) 400),
        Failed_With ''OMP rpc_chunk sequence was interrupted''])"
  unfolding omp_turn_def demo_message
  by (simp add: omp_run_defs Let_def required_str_def required_usize_def push_rpc_chunk_def decode_base64_into_def
      MAX_CHUNKS_def MAX_REASSEMBLED_FRAME_BYTES_def)

text \<open>A pipe that breaks in the middle of a turn, when the child's question is answered, starts the turn
  anew after part of the answer was shown.\<close>

lemma retry_repeats_the_answer:
  "\<exists>p n. omp_turn demo_frames (\<lambda>_. Inr demo_process) demo_open demo_prompt False
      [Line ''delta'', Line ''ui'', Line ''delta'', Line ''end'']
      (Inr (demo_process\<lparr>op_faults := [None, Some (Io_Error True ''broken pipe'')]\<rparr>), 1) =
    Some (p, n, [], [Started ''omp'', Prompt_Shown (truncate_utf8 (pq_capture demo_prompt) 400),
      Answer_Started, Delta ''hello'', Answer_Started, Delta ''hello'', Done ''hello''])"
  unfolding omp_turn_def demo_message by (simp add: omp_run_defs Let_def)

section \<open>Starting the program\<close>

lemma first_frame_returns:
  "Deadline_Passed \<in> set ins \<Longrightarrow>
   \<exists>p' rest r. first_frame parse ins p = Some (p', rest, r) \<and> ((\<exists>f. r = Inr f) \<longrightarrow> Deadline_Passed \<in> set rest)"
  by (induction parse ins p rule: first_frame.induct) (auto split: prod.splits sum.splits option.splits)

lemma wait_for_type_returns: "Deadline_Passed \<in> set ins \<Longrightarrow> wait_for_type parse wanted ins p \<noteq> None"
proof (induction parse wanted ins p rule: wait_for_type.induct)
  case (6 parse wanted l ins p)
  then show ?case by (auto split: prod.splits sum.splits option.splits bool.splits)
qed auto

lemma next_line_written: "next_line parse l p = (p', r) \<Longrightarrow> op_written p' = op_written p"
  by (auto simp: next_line_def split: if_splits sum.splits prod.splits)

lemma handle_extension_ui_written:
  "handle_extension_ui frame p = (p', r) \<Longrightarrow>
   \<exists>vs. op_written p' = op_written p @ vs \<and> list_all (\<lambda>v. frame_type v = Some ''extension_ui_response'') vs"
  by (auto simp: handle_extension_ui_def write_json_def frame_type_def split: if_splits option.splits list.splits prod.splits sum.splits)

lemma first_frame_written: "first_frame parse ins p = Some (p', rest, r) \<Longrightarrow> op_written p' = op_written p"
  by (induction parse ins p rule: first_frame.induct)
    (auto simp: next_line_written split: prod.splits sum.splits option.splits)

lemma wait_for_type_written:
  "wait_for_type parse wanted ins p = Some (p', rest, r) \<Longrightarrow>
   \<exists>vs. op_written p' = op_written p @ vs \<and> list_all (\<lambda>v. frame_type v = Some ''extension_ui_response'') vs \<and>
     (\<forall>f. r = Inr f \<longrightarrow> frame_type f = Some wanted)"
proof (induction parse wanted ins p rule: wait_for_type.induct)
  case (6 parse wanted l ins p)
  obtain p1 r1 where l: "next_line parse l p = (p1, r1)" by force
  note w1 = next_line_written [OF l]
  consider (err) e where "r1 = Inl e" | (none) "r1 = Inr None" | (frame) f where "r1 = Inr (Some f)" by (cases r1) auto
  then show ?case
  proof cases
    case err
    then show ?thesis using 6(4) l w1 by auto
  next
    case none
    then show ?thesis using 6(1) [OF l [symmetric] none refl] 6(4) l w1 by simp
  next
    case frame
    obtain p2 u where h: "handle_extension_ui f p1 = (p2, u)" by force
    from handle_extension_ui_written [OF h] obtain vs where
      vs: "op_written p2 = op_written p1 @ vs" "list_all (\<lambda>v. frame_type v = Some ''extension_ui_response'') vs" by blast
    consider (err) e where "u = Inl e" | (ui) "u = Inr True" | (found) "u = Inr False" "frame_type f = Some wanted"
      | (other) "u = Inr False" "frame_type f \<noteq> Some wanted" by (cases u) auto
    then show ?thesis
    proof cases
      case ui
      then show ?thesis using 6(2) [OF l [symmetric] frame refl h [symmetric] ui] 6(4) l frame h vs w1 by auto
    next
      case other
      then show ?thesis using 6(3) [OF l [symmetric] frame refl h [symmetric] other(1)] 6(4) l frame h vs w1 by auto
    qed (use 6(4) l frame h vs w1 in auto)
  qed
qed auto

text \<open>The start of a backend ends, and tells the program nothing but what it must.  Once its deadline
  has come the start has returned; one that succeeded saw the program say it is ready, and wrote to
  it the refusals of its questions and, last, one request for the protocol's second version.\<close>

theorem start_negotiates_once_ready:
  assumes "Deadline_Passed \<in> set ins" "op_written p = []"
  shows "\<exists>process rest. omp_spawn parse binary (Inr p) tail ins = Some (process, rest) \<and>
    (\<forall>p'. process = Inr p' \<longrightarrow> (\<exists>vs v. op_written p' = vs @ [v] \<and> frame_type v = Some ''negotiate_protocol'' \<and>
       list_all (\<lambda>w. frame_type w = Some ''extension_ui_response'') vs))"
proof (cases binary)
  case (Some b)
  from first_frame_returns [OF assms(1)] obtain p1 rest r where
    f: "first_frame parse ins p = Some (p1, rest, r)" "\<forall>g. r = Inr g \<longrightarrow> Deadline_Passed \<in> set rest" by blast
  have w1: "op_written p1 = []" using first_frame_written [OF f(1)] assms(2) by simp
  show ?thesis
  proof (cases r)
    case (Inl e)
    then show ?thesis using Some f by (simp add: omp_spawn_def handshake_def)
  next
    case (Inr g)
    define second where "second = (if frame_type g = Some ''ready'' then Some (p1, rest, Inr g) else wait_for_type parse ''ready'' rest p1)"
    have "second \<noteq> None" using wait_for_type_returns f(2) Inr by (auto simp: second_def)
    then obtain p2 rest2 r2 where s: "second = Some (p2, rest2, r2)" by auto
    have "\<exists>vs. op_written p2 = vs \<and> list_all (\<lambda>v. frame_type v = Some ''extension_ui_response'') vs"
      using s w1 wait_for_type_written [of parse "''ready''" rest p1 p2 rest2 r2] by (auto simp: second_def split: if_splits)
    then have w2: "list_all (\<lambda>v. frame_type v = Some ''extension_ui_response'') (op_written p2)" by blast
    let ?v = "JObj [(''id'', JStr (fst (next_id p2))), (''protocolVersion'', JInt 2), (''type'', JStr ''negotiate_protocol'')]"
    obtain p4 u where w: "write_json ?v (snd (next_id p2)) = (p4, u)" by force
    have hs: "handshake parse ins p = (case r2 of Inl e \<Rightarrow> Some (p2, rest2, Inl (error_text e)) | Inr _ \<Rightarrow>
        (case u of Inl e \<Rightarrow> Some (p4, rest2, Inl (error_text e)) | Inr _ \<Rightarrow> Some (p4, rest2, Inr ())))"
      using f(1) Inr s w unfolding handshake_def second_def by (auto simp: next_id_def split: sum.splits)
    have "u = Inr () \<Longrightarrow> op_written p4 = op_written p2 @ [?v]"
      using w by (auto simp: write_json_def next_id_def split: list.splits option.splits)
    then show ?thesis
      using Some hs w2 by (cases r2; cases u) (auto simp: omp_spawn_def frame_type_def)
  qed
qed (simp add: omp_spawn_def)

theorem start_negotiates_once_ready_witness:
  "\<exists>p rest. omp_spawn demo_frames (Some ''omp'') (Inr demo_process) [] [Line ''end'', Line ''ui'', Line ''ready'', Deadline_Passed] =
      Some (Inr p, rest) \<and> length (op_written p) = 2 \<and> op_written p \<noteq> []"
proof -
  have "\<exists>p rest. omp_spawn demo_frames (Some ''omp'') (Inr demo_process) [] [Line ''end'', Line ''ui'', Line ''ready'', Deadline_Passed] =
      Some (Inr p, rest) \<and> length (op_written p) = 2"
    by (simp add: omp_spawn_def handshake_def omp_run_defs Let_def)
  moreover have "\<exists>process rest. omp_spawn demo_frames (Some ''omp'') (Inr demo_process) []
      [Line ''end'', Line ''ui'', Line ''ready'', Deadline_Passed] = Some (process, rest) \<and>
    (\<forall>p'. process = Inr p' \<longrightarrow> (\<exists>vs v. op_written p' = vs @ [v] \<and> frame_type v = Some ''negotiate_protocol'' \<and>
       list_all (\<lambda>w. frame_type w = Some ''extension_ui_response'') vs))"
    by (rule start_negotiates_once_ready) (simp_all add: demo_process_def)
  ultimately show ?thesis by fastforce
qed

text \<open>A question the program asks before anything else is never answered, though one asked later, while
  \<open>ready\<close> is waited for, is.\<close>

lemma first_question_is_not_answered:
  "\<exists>p. handshake demo_frames [Line ''ui'', Line ''ready''] demo_process = Some (p, [], Inr ()) \<and>
     op_written p = [JObj [(''id'', JStr (''gpty-'' @ dec 1)), (''protocolVersion'', JInt 2), (''type'', JStr ''negotiate_protocol'')]]"
  by (simp add: handshake_def omp_run_defs Let_def)

section \<open>Turns of the other backends\<close>

lemma split_at_midpoint_append: "fst (split_at_midpoint t) @ snd (split_at_midpoint t) = t"
  by (simp add: split_at_midpoint_def Let_def)

lemma mock_turn_ends_once:
  "\<exists>mid t. mock_turn q before midway = mid @ [t] \<and> is_terminal t \<and> goes_on mid \<and> (\<forall>a. t = Done a \<longrightarrow> deltas mid = a)"
proof (cases "before \<or> midway")
  case True
  then show ?thesis by (auto simp: mock_turn_def Let_def split: prod.split)
next
  case False
  let ?s = "mock_summary q (truncate_utf8 (pq_capture q) AI_MAX_CAPTURE_BYTES)"
  obtain a b where ab: "split_at_midpoint ?s = (a, b)" by force
  then have "a @ b = ?s" using split_at_midpoint_append [of ?s] by simp
  then show ?thesis using False ab by (simp add: mock_turn_def Let_def deltas_def)
qed

lemma relay_frame_one: "relay_frame parse l = Inr new \<Longrightarrow> length new \<le> 1"
  by (auto simp: relay_frame_def Let_def)

lemma cli_loop_spec:
  assumes "cli_loop parse ins cancelled evs = Some (evs', cancelled', res)"
  shows "prefix evs evs' \<and> (res = Inr () \<and> \<not> cancelled' \<longrightarrow> (\<exists>exit detail. Cli_Exit exit True detail \<in> set ins))"
  using assms
  by (induction parse ins cancelled evs rule: cli_loop.induct)
    (auto split: sum.splits if_splits intro: prefix_order.order_trans [OF prefixI [OF refl]])

text \<open>A turn of an adapter that is over has a final event, unless the adapter exited by itself, with
  success, and without having sent one.\<close>

theorem adapter_turn_ends:
  assumes "cli_turn parse c q spawned cancelled ins = Some evs"
  shows "(\<exists>e \<in> set evs. is_terminal e) \<or> (\<exists>exit detail. Cli_Exit exit True detail \<in> set ins)"
proof -
  let ?head = "[Started (backend_str Cli), Prompt_Shown (truncate_utf8 (pq_capture q) 400)]"
  define result where "result =
    (if or_command c = [] then Some ([], cancelled, Inl ''cli backend has no command configured (set it in Inspector pane settings)'')
     else case spawned of
       Inl e \<Rightarrow> Some ([], cancelled, Inl (''failed to spawn '' @ hd (or_command c) @ '': '' @ e))
     | Inr (Inl e) \<Rightarrow> Some ([], cancelled, Inl (''cli backend write: '' @ e))
     | Inr (Inr _) \<Rightarrow> if cancelled then Some ([], True, Inr ()) else cli_loop parse ins False [])"
  obtain evs1 can res where r: "result = Some (evs1, can, res)"
    and evs: "evs = ?head @ evs1 @ (case res of Inl e \<Rightarrow> [Failed_With e] | Inr _ \<Rightarrow> if can then [Cancelled] else [])"
    using assms unfolding cli_turn_def Let_def result_def [symmetric] by (cases result) auto
  show ?thesis
  proof (cases "res = Inr () \<and> \<not> can")
    case True
    then have "cli_loop parse ins False [] = Some (evs1, can, res)"
      using r by (auto simp: result_def split: if_splits sum.splits)
    from cli_loop_spec [OF this] True show ?thesis by blast
  next
    case False
    then show ?thesis using evs by (cases res) auto
  qed
qed

theorem adapter_turn_ends_witness:
  "\<exists>evs. cli_turn demo_frames demo_open demo_prompt (Inr (Inr ())) False [Cli_Line ''end'', Cli_Cancel, Cli_Line ''end''] = Some evs \<and>
     (\<exists>e \<in> set evs. is_terminal e)"
proof -
  have "\<exists>evs. cli_turn demo_frames demo_open demo_prompt (Inr (Inr ())) False [Cli_Line ''end'', Cli_Cancel, Cli_Line ''end''] = Some evs"
    by (simp add: cli_turn_def demo_open_def relay_frame_def demo_frames_def frame_type_def Let_def)
  then obtain evs where run: "cli_turn demo_frames demo_open demo_prompt (Inr (Inr ())) False [Cli_Line ''end'', Cli_Cancel, Cli_Line ''end''] = Some evs"
    by blast
  then show ?thesis using adapter_turn_ends [OF run] by auto
qed

lemma emit_active: "as_active (emit turn run e s) = (if is_terminal e \<and> as_active s = Some run then None else as_active s)"
  by (simp add: emit_def Let_def)

lemma emit_closed: "as_closed (emit turn run e s) = as_closed s"
  by (simp add: emit_def Let_def)

lemma emit_all_active:
  "as_active (fold (emit turn run) evs s) = (if as_active s = Some run \<and> (\<exists>e \<in> set evs. is_terminal e) then None else as_active s)"
proof (induction evs arbitrary: s)
  case Nil
  then show ?case by simp
next
  case (Cons e evs)
  show ?case unfolding fold.simps comp_apply Cons.IH emit_active
    by (cases "is_terminal e"; cases "as_active s = Some run") simp_all
qed

lemma emit_all_closed: "as_closed (fold (emit turn run) evs s) = as_closed s"
  by (induction evs arbitrary: s) (simp_all add: emit_closed)

text \<open>An adapter that exits with success but sent no final frame blocks its session: the turn is over
  and no event will come, yet the session takes it for running, and every later prompt is refused,
  whether the events are polled and the turn is cancelled or not.\<close>

theorem silent_adapter_blocks_the_session:
  assumes "session_prompt q s = (Inr (turn, run), s1)" "or_command c \<noteq> []"
  shows "\<exists>evs. cli_turn parse c q (Inr (Inr ())) False [Cli_Exit (Some ''0'') True []] = Some evs \<and>
    (let s2 = fold (emit turn run) evs s1
     in fst (session_prompt q' s2) = Inl ''a turn is already running'' \<and>
        fst (session_prompt q' (snd (session_cancel (snd (session_poll n s2))))) = Inl ''a turn is already running'')"
proof -
  let ?evs = "[Started (backend_str Cli), Prompt_Shown (truncate_utf8 (pq_capture q) 400)]"
  have evs: "cli_turn parse c q (Inr (Inr ())) False [Cli_Exit (Some ''0'') True []] = Some ?evs"
    using assms(2) by (simp add: cli_turn_def Let_def)
  have s1: "as_active s1 = Some run" "\<not> as_closed s1"
    using assms(1) by (auto simp: session_prompt_def Let_def split: if_splits)
  let ?s2 = "fold (emit turn run) ?evs s1"
  have s2: "as_active ?s2 = Some run" "\<not> as_closed ?s2"
    using s1 unfolding emit_all_active emit_all_closed by simp_all
  obtain out s3 where p: "session_poll n ?s2 = (out, s3)" by force
  then have s3: "as_active s3 = Some run" "\<not> as_closed s3"
    using s2 unfolding session_poll_def by (auto split: prod.splits)
  have "fst (session_prompt q' ?s2) = Inl ''a turn is already running''" using s2 unfolding session_prompt_def by simp
  moreover have "fst (session_prompt q' (snd (session_cancel s3))) = Inl ''a turn is already running''"
    using s3 by (simp add: session_prompt_def session_cancel_def)
  ultimately show ?thesis using evs p by (simp only: Let_def) auto
qed

theorem silent_adapter_blocks_the_session_witness:
  "\<exists>evs turn run s1. session_prompt demo_prompt (fresh_session ''1'' demo_open) = (Inr (turn, run), s1) \<and>
     cli_turn demo_frames demo_open demo_prompt (Inr (Inr ())) False [Cli_Exit (Some ''0'') True []] = Some evs \<and>
     fst (session_prompt demo_prompt (fold (emit turn run) evs s1)) = Inl ''a turn is already running''"
proof -
  obtain turn run s1 where p: "session_prompt demo_prompt (fresh_session ''1'' demo_open) = (Inr (turn, run), s1)"
    by (simp add: session_prompt_def fresh_session_def Let_def)
  have "or_command demo_open \<noteq> []" by (simp add: demo_open_def)
  from silent_adapter_blocks_the_session [OF p this, of demo_frames demo_prompt 0] show ?thesis
    using p by (auto simp: Let_def)
qed

end
