(* ===== verification/Control_Client.thy ===== *)
theory Control_Client
  imports Ipc_Server Rust_Results Host_Files
begin

text \<open>
  The client's side of the control socket: where the socket is and whether it may be trusted
  (\<open>crates/gpty-ipc/src/transport.rs\<close>, on Linux), one call over it (\<open>client.rs\<close>), and the socket a command
  uses (\<open>gpty-cli/src/main.rs\<close>).  What the operating system answers and the JSON text of requests and responses are parameters.
\<close>

section \<open>Where the socket is\<close>

text \<open>The environment (values that are UTF-8), the user, the mode a directory gets when it can be made,
  and whether a change of mode succeeds.\<close>

record host =
  ho_env :: "str \<Rightarrow> str option"
  ho_uid :: nat
  ho_create :: "str \<Rightarrow> 32 word option"
  ho_chmod :: "str \<Rightarrow> bool"

type_synonym places = "str \<Rightarrow> file_answer option"

definition is_secure_runtime_dir :: "places \<Rightarrow> str \<Rightarrow> nat \<Rightarrow> bool" where
  "is_secure_runtime_dir st path uid =
     (case st path of
        Some m \<Rightarrow> fa_kind m = Directory \<and> fa_owner m = uid \<and> fa_mode m AND others_any = 0
      | None \<Rightarrow> False)"

text \<open>One candidate: made when missing, tightened when it is the user's own, and then checked.\<close>

definition xdg_candidate :: "host \<Rightarrow> str \<Rightarrow> places \<Rightarrow> bool \<times> places" where
  "xdg_candidate h dir st =
     (case (case st dir of
              Some _ \<Rightarrow> Some st
            | None \<Rightarrow> map_option (\<lambda>mode. st(dir \<mapsto> \<lparr>fa_kind = Directory, fa_owner = ho_uid h, fa_mode = mode\<rparr>)) (ho_create h dir)) of
        None \<Rightarrow> (False, st)
      | Some st1 \<Rightarrow>
          (case st1 dir of
             None \<Rightarrow> (False, st1)
           | Some m \<Rightarrow>
               (let st2 = (if fa_owner m = ho_uid h \<and> fa_mode m AND others_any \<noteq> 0 \<and> ho_chmod h dir
                           then st1(dir \<mapsto> m\<lparr>fa_mode := 448\<rparr>) else st1)
                in (is_secure_runtime_dir st2 dir (ho_uid h), st2))))"

primrec xdg_loop :: "host \<Rightarrow> str list \<Rightarrow> places \<Rightarrow> str option \<times> places" where
  "xdg_loop h [] st = (None, st)"
| "xdg_loop h (dir # dirs) st =
     (case xdg_candidate h dir st of
        (True, st1) \<Rightarrow> (Some dir, st1)
      | (False, st1) \<Rightarrow> xdg_loop h dirs st1)"

definition xdg_dir :: "host \<Rightarrow> str \<Rightarrow> str \<Rightarrow> places \<Rightarrow> str option \<times> places" where
  "xdg_dir h env_var home_suffix st =
     xdg_loop h
       ((case ho_env h env_var of Some v \<Rightarrow> if absolute v then [path_join v ''gpty''] else [] | None \<Rightarrow> []) @
        (case ho_env h ''HOME'' of Some v \<Rightarrow> if absolute v then [path_join (path_join v home_suffix) ''gpty''] else [] | None \<Rightarrow> []))
       st"

definition private_state_dir :: "host \<Rightarrow> places \<Rightarrow> str option \<times> places" where
  "private_state_dir h st = xdg_dir h ''XDG_STATE_HOME'' ''.local/state'' st"

definition transport_data_dir :: "host \<Rightarrow> places \<Rightarrow> str option \<times> places" where
  "transport_data_dir h st = xdg_dir h ''XDG_DATA_HOME'' ''.local/share'' st"

definition shared_socket :: "nat \<Rightarrow> str" where
  "shared_socket uid = ''/tmp/gpty-'' @ dec uid @ ''.sock''"

definition fallback_socket_path :: "host \<Rightarrow> places \<Rightarrow> str \<times> places" where
  "fallback_socket_path h st =
     (case private_state_dir h st of
        (Some dir, st1) \<Rightarrow> (dir @ ''/gpty.sock'', st1)
      | (None, st1) \<Rightarrow> (shared_socket (ho_uid h), st1))"

definition default_socket_path :: "host \<Rightarrow> places \<Rightarrow> str \<times> places" where
  "default_socket_path h st =
     (case (case ho_env h ''GPTY_SOCKET'' of Some v \<Rightarrow> if v \<noteq> [] \<and> absolute v then Some v else None | None \<Rightarrow> None) of
        Some v \<Rightarrow> (v, st)
      | None \<Rightarrow>
          (case (case ho_env h ''XDG_RUNTIME_DIR'' of
                   Some dir \<Rightarrow> if absolute dir \<and> is_secure_runtime_dir st dir (ho_uid h) then Some dir else None
                 | None \<Rightarrow> None) of
             Some dir \<Rightarrow> (dir @ ''/gpty.sock'', st)
           | None \<Rightarrow>
               (let run_user = ''/run/user/'' @ dec (ho_uid h)
                in if is_secure_runtime_dir st run_user (ho_uid h) then (run_user @ ''/gpty.sock'', st)
                   else fallback_socket_path h st)))"

definition default_event_socket_path :: "host \<Rightarrow> places \<Rightarrow> str \<times> places" where
  "default_event_socket_path h st =
     (case default_socket_path h st of
        (control, st1) \<Rightarrow>
          (case strip_suffix ''.sock'' control of
             Some p \<Rightarrow> (p @ ''-events.sock'', st1)
           | None \<Rightarrow> (control @ ''-events'', st1)))"

text \<open>The kind of an I/O error, and its text.\<close>

datatype io_kind = Missing | Conn_Refused | Denied | Other_Io

type_synonym io_failure = "io_kind \<times> str"

definition validate_socket_path :: "nat \<Rightarrow> places \<Rightarrow> str \<Rightarrow> io_failure + unit" where
  "validate_socket_path uid st path =
     (if \<not> absolute path then Inl (Denied, ''refusing relative GPTY_SOCKET path'')
      else (case st path of
          None \<Rightarrow> Inr ()
        | Some m \<Rightarrow>
            if fa_kind m \<noteq> Socket then Inl (Denied, ''refusing to connect: GPTY_SOCKET is not a socket'')
            else if fa_owner m \<noteq> uid
              then Inl (Denied, ''refusing to connect: GPTY_SOCKET owned by another user (possible env hijack)'')
            else if fa_mode m AND others_any \<noteq> 0
              then Inl (Denied, ''refusing to connect: GPTY_SOCKET permissions too open (possible env hijack)'')
            else Inr ()))"

definition validate_gui_binary :: "nat \<Rightarrow> places \<Rightarrow> str \<Rightarrow> bool" where
  "validate_gui_binary uid st path \<longleftrightarrow>
     absolute path \<and>
     (case st path of None \<Rightarrow> False
      | Some m \<Rightarrow> fa_kind m = Regular \<and> fa_owner m = uid \<and> fa_mode m AND others_write = 0)"

section \<open>One call\<close>

datatype client_error =
    Connection io_failure
  | Timed_Out nat
  | Invalid_Response str
  | Rpc_Failed int str

text \<open>The text of an error; \<open>span\<close> prints a duration.\<close>

fun client_error_text :: "(nat \<Rightarrow> str) \<Rightarrow> client_error \<Rightarrow> str" where
  "client_error_text span (Connection e) = ''connection error: '' @ snd e"
| "client_error_text span (Timed_Out t) = ''request timed out after '' @ span t"
| "client_error_text span (Invalid_Response w) = ''invalid response: '' @ w"
| "client_error_text span (Rpc_Failed c m) = ''rpc error '' @ dec_int c @ '': '' @ m"

record ipc_client =
  cl_socket :: str
  cl_timeout :: nat
  cl_secret :: "str option"

definition client_new :: "host \<Rightarrow> str \<Rightarrow> nat \<Rightarrow> ipc_client" where
  "client_new h socket timeout =
     \<lparr>cl_socket = socket, cl_timeout = timeout,
      cl_secret = (case ho_env h ''GPTY_SECRET'' of Some x \<Rightarrow> if x \<noteq> [] then Some x else None | None \<Rightarrow> None)\<rparr>"

definition with_timeout :: "nat \<Rightarrow> ipc_client \<Rightarrow> ipc_client" where
  "with_timeout t c = c\<lparr>cl_timeout := t\<rparr>"

text \<open>What a step of the exchange answers: not within the time-out, or a result.  A line that is read is
  text up to and with its newline.\<close>

datatype 'a timed = Late | Answers "io_failure + 'a"

record exchange =
  ex_connect :: "unit timed"
  ex_write :: "unit timed"
  ex_read :: "str timed"

definition within :: "nat \<Rightarrow> 'a timed \<Rightarrow> client_error + 'a" where
  "within t r = (case r of Late \<Rightarrow> Inl (Timed_Out t) | Answers x \<Rightarrow> map_err Connection x)"

definition call_request :: "ipc_client \<Rightarrow> nat \<Rightarrow> str \<Rightarrow> json option \<Rightarrow> request" where
  "call_request c i mth params =
     \<lparr>rq_jsonrpc = ''2.0'', rq_id = Some i, rq_method = mth, rq_params = params, rq_secret = cl_secret c\<rparr>"

text \<open>The call numbered \<open>i\<close>: what it tried to send, and its result.\<close>

definition client_call :: "(request \<Rightarrow> str) \<Rightarrow> (str \<Rightarrow> str + response) \<Rightarrow> nat \<Rightarrow> places \<Rightarrow> ipc_client \<Rightarrow> nat
    \<Rightarrow> str \<Rightarrow> json option \<Rightarrow> exchange \<Rightarrow> str list \<times> (client_error + response)" where
  "client_call encode parse uid st c i mth params x =
     (case map_err Connection (validate_socket_path uid st (cl_socket c)) of
        Inl e \<Rightarrow> ([], Inl e)
      | Inr _ \<Rightarrow>
          (case within (cl_timeout c) (ex_connect x) of
             Inl e \<Rightarrow> ([], Inl e)
           | Inr _ \<Rightarrow>
               ([encode (call_request c i mth params) @ [LF]],
                and_then (within (cl_timeout c) (ex_write x)) (\<lambda>_.
                and_then (within (cl_timeout c) (ex_read x)) (\<lambda>l.
                  let line = trim l
                  in if line = [] then Inl (Invalid_Response ''empty response'')
                     else map_err (\<lambda>e. Invalid_Response (''failed to parse response: '' @ e)) (parse line))))))"

text \<open>The error a response carries, as a client's error; no call makes one of it by itself.\<close>

definition from_rpc_error :: "rpc_err \<Rightarrow> client_error" where
  "from_rpc_error e = Rpc_Failed (re_code e) (re_message e)"

text \<open>The socket a command uses, \<open>main\<close>: the flag, the variable, or the default.\<close>

definition cli_socket_path :: "str option \<Rightarrow> host \<Rightarrow> places \<Rightarrow> str \<times> places" where
  "cli_socket_path flag h st =
     (case flag of
        Some p \<Rightarrow> (p, st)
      | None \<Rightarrow> (case ho_env h ''GPTY_SOCKET'' of Some p \<Rightarrow> (p, st) | None \<Rightarrow> default_socket_path h st))"

section \<open>Who can be at the other end\<close>

text \<open>What makes a place private: a directory of the user that nobody else can reach.\<close>

definition private_dir :: "nat \<Rightarrow> places \<Rightarrow> str \<Rightarrow> bool" where
  "private_dir uid st dir \<longleftrightarrow>
     (\<exists>m. st dir = Some m \<and> fa_kind m = Directory \<and> fa_owner m = uid \<and> \<not> open_to_others m)"

lemma secure_is_private: "is_secure_runtime_dir st dir uid \<Longrightarrow> private_dir uid st dir"
  by (auto simp: is_secure_runtime_dir_def private_dir_def no_others_any split: option.splits)

lemma xdg_candidate_private: "xdg_candidate h dir st = (True, st1) \<Longrightarrow> private_dir (ho_uid h) st1 dir"
  by (auto simp: xdg_candidate_def Let_def intro: secure_is_private split: option.splits)

lemma xdg_loop_private: "xdg_loop h dirs st = (Some dir, st1) \<Longrightarrow> dir \<in> set dirs \<and> private_dir (ho_uid h) st1 dir"
  by (induction dirs arbitrary: st) (auto simp: xdg_candidate_private split: prod.splits bool.splits)

lemma absolute_path_join: "absolute v \<Longrightarrow> absolute (path_join v r)"
  by (cases v) (auto simp: absolute_def path_join_def split: list.splits)

lemma xdg_dir_private: "xdg_dir h v suf st = (Some dir, st1) \<Longrightarrow> absolute dir \<and> private_dir (ho_uid h) st1 dir"
  unfolding xdg_dir_def by (drule xdg_loop_private) (auto simp: absolute_path_join split: option.splits if_splits)

text \<open>The default socket is in a place of the user's own.  Unless the user named the socket, it is in a
  directory that the user owns and nobody else can reach, as the directory is when the path is
  answered; or it is the shared path of last resort, and then no such directory was to be had.\<close>

theorem default_socket_is_private:
  assumes "default_socket_path h st = (p, st1)" "ho_env h ''GPTY_SOCKET'' \<noteq> Some p"
  shows "(\<exists>dir. p = dir @ ''/gpty.sock'' \<and> absolute dir \<and> private_dir (ho_uid h) st1 dir) \<or>
    p = shared_socket (ho_uid h) \<and> fst (private_state_dir h st) = None \<and>
      \<not> is_secure_runtime_dir st (''/run/user/'' @ dec (ho_uid h)) (ho_uid h)"
proof -
  let ?run = "''/run/user/'' @ dec (ho_uid h)"
  have run: "absolute ?run" by (simp add: absolute_def)
  have named: "(case ho_env h ''GPTY_SOCKET'' of Some v \<Rightarrow> if v \<noteq> [] \<and> absolute v then Some v else None | None \<Rightarrow> None) = None"
    using assms by (auto simp: default_socket_path_def split: option.splits if_splits)
  consider (xdg) dir where "p = dir @ ''/gpty.sock''" "st1 = st" "absolute dir" "is_secure_runtime_dir st dir (ho_uid h)"
    | (user) "p = ?run @ ''/gpty.sock''" "st1 = st" "is_secure_runtime_dir st ?run (ho_uid h)"
    | (fall) "fallback_socket_path h st = (p, st1)" "\<not> is_secure_runtime_dir st ?run (ho_uid h)"
    using assms(1) unfolding default_socket_path_def named by (auto simp: Let_def split: option.splits if_splits)
  then show ?thesis
  proof cases
    case xdg
    then show ?thesis using secure_is_private by blast
  next
    case user
    then show ?thesis using run secure_is_private by blast
  next
    case fall
    then show ?thesis
      by (auto simp: fallback_socket_path_def private_state_dir_def split: prod.splits option.splits dest!: xdg_dir_private)
  qed
qed

definition demo_host :: host where
  "demo_host = \<lparr>ho_env = [''HOME'' \<mapsto> ''/home/u''], ho_uid = 7, ho_create = (\<lambda>_. Some 493), ho_chmod = (\<lambda>_. True)\<rparr>"

theorem default_socket_is_private_witness:
  "\<exists>st1. default_socket_path demo_host (\<lambda>_. None) = (''/home/u/.local/state/gpty/gpty.sock'', st1) \<and>
     private_dir 7 st1 ''/home/u/.local/state/gpty''"
proof -
  obtain st1 where p: "default_socket_path demo_host (\<lambda>_. None) = (''/home/u/.local/state/gpty/gpty.sock'', st1)"
    by (simp add: default_socket_path_def demo_host_def fallback_socket_path_def private_state_dir_def xdg_dir_def absolute_def
        path_join_def xdg_candidate_def is_secure_runtime_dir_def Let_def others_any_def)
  have "ho_env demo_host ''GPTY_SOCKET'' \<noteq> Some ''/home/u/.local/state/gpty/gpty.sock''" by (simp add: demo_host_def)
  from default_socket_is_private [OF p this] show ?thesis
    using p by (auto simp: shared_socket_def demo_host_def)
qed

text \<open>An empty variable counts as unset where the default is found, but not for a command, which then
  refuses the empty path.\<close>

lemma empty_variable_is_no_default:
  assumes "ho_env h ''GPTY_SOCKET'' = Some []"
  shows "fst (cli_socket_path None h st) = [] \<and> isl (validate_socket_path (ho_uid h) st []) \<and> fst (default_socket_path h st) \<noteq> []"
proof -
  have "fst (fallback_socket_path h st) \<noteq> []" by (auto simp: fallback_socket_path_def shared_socket_def split: prod.splits option.splits)
  then show ?thesis using assms
    by (auto simp: cli_socket_path_def validate_socket_path_def default_socket_path_def absolute_def Let_def split: option.splits)
qed

text \<open>C32: The secret of the user goes to a socket of the user's own only.  Whenever a call sends anything,
  it is the one request with the secret, and what was at the path was nothing or a socket that
  the user owns and nobody else can reach.\<close>

theorem secret_stays_home:
  assumes "client_call encode parse uid st c i mth params x = (sent, r)" "sent \<noteq> []"
  shows "sent = [encode (call_request c i mth params) @ [LF]] \<and> absolute (cl_socket c) \<and>
    (\<forall>m. st (cl_socket c) = Some m \<longrightarrow> fa_kind m = Socket \<and> fa_owner m = uid \<and> \<not> open_to_others m)"
  using assms by (auto simp: client_call_def validate_socket_path_def no_others_any split: sum.splits option.splits if_splits)

definition demo_encode :: "request \<Rightarrow> str" where "demo_encode q = rq_method q"

definition demo_client :: ipc_client where
  "demo_client = \<lparr>cl_socket = ''/run/user/7/gpty.sock'', cl_timeout = 5000, cl_secret = Some ''k''\<rparr>"

definition own_socket :: places where
  "own_socket p = (if p = ''/run/user/7/gpty.sock'' then Some \<lparr>fa_kind = Socket, fa_owner = 7, fa_mode = 384\<rparr> else None)"

theorem secret_stays_home_witness:
  "\<exists>sent r. client_call demo_encode (\<lambda>_. Inl []) 7 own_socket demo_client 1 ''version'' None
      \<lparr>ex_connect = Answers (Inr ()), ex_write = Late, ex_read = Late\<rparr> = (sent, r) \<and> sent = [''version'' @ [LF]] \<and> absolute (cl_socket demo_client)"
proof -
  let ?x = "\<lparr>ex_connect = Answers (Inr ()), ex_write = Late, ex_read = Late\<rparr>"
  obtain sent r where s: "client_call demo_encode (\<lambda>_. Inl []) 7 own_socket demo_client 1 ''version'' None ?x = (sent, r)" by force
  then have "sent \<noteq> []"
    by (auto simp: client_call_def validate_socket_path_def demo_client_def own_socket_def absolute_def within_def others_any_def)
  from secret_stays_home [OF s this] show ?thesis using s by (auto simp: demo_encode_def call_request_def)
qed

section \<open>A call and its server\<close>

text \<open>The exchange with a server whose handlers act on \<open>s\<close>, as its answer to the line sent.\<close>

definition with_server :: "'s server \<Rightarrow> 's \<Rightarrow> (response \<Rightarrow> str) \<Rightarrow> str \<Rightarrow> exchange" where
  "with_server sv s reply line =
     \<lparr>ex_connect = Answers (Inr ()), ex_write = Answers (Inr ()),
      ex_read = Answers (Inr (case fst (snd (handle_connection sv line s)) of [] \<Rightarrow> [] | r # _ \<Rightarrow> reply r @ [LF]))\<rparr>"

lemma authorized_same: "sv_secret sv = None \<or> sv_secret sv = cl_secret c \<Longrightarrow> authorized sv (call_request c i mth params)"
  by (auto simp: authorized_def call_request_def split: option.splits)



end
