(* ===== verification/Daemon.thy ===== *)
theory Daemon
  imports Control_Client
begin

text \<open>
  Finding, starting and asking about the interface, \<open>crates/gpty-cli/src/commands/daemon.rs\<close>: the probe
  of the control socket, the warning about binaries of different releases, the program to start, the
  wait for it to answer, and the commands \<open>daemon start\<close>, \<open>stop\<close> and \<open>status\<close>.  What each probe finds,
  the clock and the child are the input of the wait, round by round.
\<close>

section \<open>Probing\<close>

definition AUTH_HINT :: str where
  "AUTH_HINT = ''GUI requires GPTY_SECRET authentication; set GPTY_SECRET to match the running GUI''"

definition NO_GUI_HINT :: str where
  "NO_GUI_HINT = ''no gpty GUI is running (start one with `gpty daemon start`)''"

definition auth_denied :: "response \<Rightarrow> bool" where
  "auth_denied r = (case rs_error r of Some e \<Rightarrow> re_code e = UNAUTHORIZED | None \<Rightarrow> False)"

definition nothing_listening :: "io_failure \<Rightarrow> bool" where
  "nothing_listening e \<longleftrightarrow> fst e = Missing \<or> fst e = Conn_Refused"

fun is_not_running :: "client_error \<Rightarrow> bool" where
  "is_not_running (Connection e) = nothing_listening e"
| "is_not_running _ = False"

datatype gui_probe = Gui_Answers response | Gui_Auth | Gui_Absent | Gui_Busy | Gui_Failed str

text \<open>What one \<open>version\<close> call found.\<close>

definition probe_of :: "(nat \<Rightarrow> str) \<Rightarrow> str \<Rightarrow> client_error + response \<Rightarrow> gui_probe" where
  "probe_of span socket_path answer =
     (case answer of
        Inr r \<Rightarrow>
          if rs_error r = None then Gui_Answers r
          else if auth_denied r then Gui_Auth
          else Gui_Failed (''the gpty GUI answered the version probe with an error: '' @
            (case rs_error r of Some e \<Rightarrow> dec_int (re_code e) @ '': '' @ re_message e | None \<Rightarrow> ''unknown''))
      | Inl (Connection io) \<Rightarrow>
          if nothing_listening io then Gui_Absent else Gui_Failed (''cannot use '' @ socket_path @ '': '' @ snd io)
      | Inl (Timed_Out t) \<Rightarrow> Gui_Busy
      | Inl e \<Rightarrow> Gui_Failed (client_error_text span e))"

section \<open>Binaries of different releases\<close>

definition PROTOCOL :: str where "PROTOCOL = ''2.0''"

definition parse_version_triple :: "str \<Rightarrow> (nat \<times> nat \<times> nat) option" where
  "parse_version_triple v =
     (case split_on (CHR ''.'') v of
        [a, b, c] \<Rightarrow>
          (case (parse_u64 a, parse_u64 b, parse_u64 c) of
             (Some x, Some y, Some z) \<Rightarrow> Some (x, y, z)
           | _ \<Rightarrow> None)
      | _ \<Rightarrow> None)"

definition triple_less :: "nat \<times> nat \<times> nat \<Rightarrow> nat \<times> nat \<times> nat \<Rightarrow> bool" where
  "triple_less p q = (case (p, q) of ((a, b, c), (x, y, z)) \<Rightarrow> a < x \<or> a = x \<and> (b < y \<or> b = y \<and> c < z))"

text \<open>The dash of the messages.\<close>

definition DASH :: str where "DASH = [CHR 0xE2, CHR 0x80, CHR 0x94]"

definition stale_binary_line :: "str \<Rightarrow> str \<Rightarrow> str \<Rightarrow> str \<Rightarrow> str option" where
  "stale_binary_line cli_protocol gui_protocol cli_version gui_version =
     (if gui_protocol \<noteq> [] \<and> gui_protocol \<noteq> cli_protocol
      then Some (''the gpty CLI speaks IPC protocol '' @ cli_protocol @ '' but the running GUI speaks '' @ gui_protocol @
        ''; they are from different releases '' @ DASH @
        '' reinstall the CLI (`cargo install --path crates/gpty-cli`) or use the one shipped beside the GUI'')
      else if cli_version = [] \<or> gui_version = [] \<or> gui_version = cli_version then None
      else
        (case (parse_version_triple cli_version, parse_version_triple gui_version) of
           (Some c, Some g) \<Rightarrow>
             if triple_less c g
             then Some (''the gpty CLI (v'' @ cli_version @ '') is older than the running GUI (v'' @ gui_version @
               ''); reinstall the CLI (`cargo install --path crates/gpty-cli`) or use the one shipped beside the GUI'')
             else if triple_less g c
             then Some (''the running GUI (v'' @ gui_version @ '') is older than the gpty CLI (v'' @ cli_version @
               ''); update the GUI, or use the CLI the newer release shipped'')
             else Some (''the gpty CLI (v'' @ cli_version @ '') and the running GUI (v'' @ gui_version @
               '') report different versions; make sure both come from the same release'')
         | _ \<Rightarrow> Some (''the gpty CLI (v'' @ cli_version @ '') and the running GUI (v'' @ gui_version @
               '') report different versions; make sure both come from the same release'')))"

text \<open>What this process has seen: \<open>VERSION_OBSERVED\<close> and \<open>VERSION_WARNED\<close>.\<close>

record version_latch =
  vl_observed :: bool
  vl_warned :: bool

definition response_text :: "response \<Rightarrow> str \<Rightarrow> str option" where
  "response_text r k = Option.bind (rs_result r) (\<lambda>v. Option.bind (jget v k) jstr)"

definition note_gui_version :: "str \<Rightarrow> response \<Rightarrow> version_latch \<Rightarrow> str option \<times> version_latch" where
  "note_gui_version cli_version r l =
     (let l1 = l\<lparr>vl_observed := True\<rparr>
      in case rs_result r of
           None \<Rightarrow> (None, l1)
         | Some _ \<Rightarrow>
             (case stale_binary_line PROTOCOL (unwrap_or (response_text r ''protocol'') []) cli_version
                     (unwrap_or (response_text r ''version'') []) of
                None \<Rightarrow> (None, l1)
              | Some line \<Rightarrow>
                  if vl_warned l1 then (None, l1) else (Some (''warning: '' @ line), l1\<lparr>vl_warned := True\<rparr>)))"

text \<open>One probe: what it found, what it warned of, and the latch.\<close>

definition probe_with :: "(nat \<Rightarrow> str) \<Rightarrow> str \<Rightarrow> str \<Rightarrow> client_error + response \<Rightarrow> version_latch \<Rightarrow> gui_probe \<times> str option \<times> version_latch" where
  "probe_with span cli_version socket_path answer l =
     (let p = probe_of span socket_path answer
      in case p of
           Gui_Answers r \<Rightarrow> (case note_gui_version cli_version r l of (w, l1) \<Rightarrow> (p, w, l1))
         | _ \<Rightarrow> (p, None, l))"

definition warn_on_version_mismatch :: "(nat \<Rightarrow> str) \<Rightarrow> str \<Rightarrow> str \<Rightarrow> client_error + response \<Rightarrow> version_latch \<Rightarrow> str option \<times> version_latch" where
  "warn_on_version_mismatch span cli_version socket_path answer l =
     (if vl_observed l then (None, l) else snd (probe_with span cli_version socket_path answer l))"

definition version_of :: "response \<Rightarrow> str" where
  "version_of r = unwrap_or (response_text r ''version'') ''unknown''"

section \<open>The program to start\<close>

definition GUI_SIBLING_NAMES :: "str list" where "GUI_SIBLING_NAMES = [''gpty-editor'', ''gpty-gui'']"
definition MACOS_APP_INTERNALS :: str where "MACOS_APP_INTERNALS = ''gPTY.app/Contents/MacOS/gPTY''"

definition gui_candidates :: "str \<Rightarrow> str option \<Rightarrow> str list" where
  "gui_candidates exe_dir home =
     map (path_join exe_dir) GUI_SIBLING_NAMES @
     [path_join exe_dir MACOS_APP_INTERNALS, path_join ''/Applications'' MACOS_APP_INTERNALS] @
     (case home of Some h \<Rightarrow> [path_join (path_join h ''Applications'') MACOS_APP_INTERNALS] | None \<Rightarrow> [])"

definition launchable :: "places \<Rightarrow> str \<Rightarrow> bool" where
  "launchable st path \<longleftrightarrow>
     absolute path \<and>
     (case st path of None \<Rightarrow> False | Some m \<Rightarrow> fa_kind m = Regular \<and> fa_mode m AND others_write = 0)"

text \<open>The directory of this program and the user's home, where they are known.\<close>

definition find_gui_binary :: "host \<Rightarrow> places \<Rightarrow> str option \<Rightarrow> str option \<Rightarrow> str option" where
  "find_gui_binary h st exe_dir home =
     (case (case ho_env h ''GPTY_GUI'' of Some p \<Rightarrow> if validate_gui_binary (ho_uid h) st p then Some p else None | None \<Rightarrow> None) of
        Some p \<Rightarrow> Some p
      | None \<Rightarrow> Option.bind exe_dir (\<lambda>d. find (launchable st) (gui_candidates d home)))"

text \<open>Starting it: whether the log file could be made, the program found, and what starting answered.\<close>

definition spawn_gui :: "str + unit \<Rightarrow> str option \<Rightarrow> str + unit \<Rightarrow> str + unit" where
  "spawn_gui log gui started =
     and_then log (\<lambda>_.
       case gui of
         None \<Rightarrow> Inl ''no gpty GUI binary found beside this CLI (set GPTY_GUI to its path)''
       | Some g \<Rightarrow> map_err (\<lambda>_. ''could not start '' @ g) started)"

definition last_bytes :: "nat \<Rightarrow> str \<Rightarrow> str" where
  "last_bytes n s = dropWhile cont (drop (length s - n) s)"

definition take_startup_output :: "str \<Rightarrow> str" where
  "take_startup_output content =
     (let s = trim content in if 2000 < length s then trim (last_bytes 2000 s) else s)"

definition gui_exited :: "str \<Rightarrow> str \<Rightarrow> str" where
  "gui_exited exit out =
     (if out = [] then ''the gpty GUI exited immediately ('' @ exit @ '') without starting up''
      else ''the gpty GUI exited immediately ('' @ exit @ ''): '' @ out)"

section \<open>Waiting for an answer\<close>

text \<open>One round: what the probe found, whether the deadline has passed, and what the child's state is when
  there is one (an error, still running, or how it exited).\<close>

record round =
  cr_probe :: gui_probe
  cr_late :: bool
  cr_status :: "str + str option"

definition gave_up :: "str \<Rightarrow> str \<Rightarrow> str \<Rightarrow> bool \<Rightarrow> str" where
  "gave_up socket_path timeout out child =
     (if child
      then ''the gpty GUI was started but did not answer on '' @ socket_path @ '' within '' @ timeout @
        (if out = [] then [] else ''; its output: '' @ out)
      else ''the gpty GUI did not answer on '' @ socket_path @ '' within '' @ timeout @ '' (it may be busy)'')"

text \<open>The loop: how often a program was started, and the response with whether one was, or why not.  The
  child's output is \<open>out\<close>; rounds that are used up mean that it still waits.\<close>

fun connect_loop :: "str \<Rightarrow> str \<Rightarrow> str + unit \<Rightarrow> str \<Rightarrow> round list \<Rightarrow> bool \<Rightarrow> (nat \<times> (str + response \<times> bool)) option" where
  "connect_loop path timeout spawn out [] child = None"
| "connect_loop path timeout spawn out (r # rs) child =
     (let after = (\<lambda>child.
        if cr_late r then Some (0, Inl (gave_up path timeout out child))
        else if \<not> child then connect_loop path timeout spawn out rs child
        else (case cr_status r of
            Inl e \<Rightarrow> Some (0, Inl e)
          | Inr (Some exit) \<Rightarrow> Some (0, Inl (gui_exited exit out))
          | Inr None \<Rightarrow> connect_loop path timeout spawn out rs child))
      in case cr_probe r of
           Gui_Answers resp \<Rightarrow> Some (0, Inr (resp, child))
         | Gui_Auth \<Rightarrow> Some (0, Inl AUTH_HINT)
         | Gui_Failed why \<Rightarrow> Some (0, Inl why)
         | Gui_Busy \<Rightarrow> after child
         | Gui_Absent \<Rightarrow>
             if child then after True
             else (case spawn of
                 Inl e \<Rightarrow> Some (0, Inl e)
               | Inr _ \<Rightarrow> map_option (\<lambda>(n, x). (n + 1, x)) (after True)))"

definition connect_with :: "str \<Rightarrow> str \<Rightarrow> str + unit \<Rightarrow> str \<Rightarrow> round list \<Rightarrow> (nat \<times> (str + response \<times> bool)) option" where
  "connect_with path timeout spawn out rounds = connect_loop path timeout spawn out rounds False"

datatype started = Already str | Launched str

text \<open>\<open>start\<close>, with what its own first probe finds.\<close>

definition daemon_start :: "str \<Rightarrow> str \<Rightarrow> str + unit \<Rightarrow> str \<Rightarrow> gui_probe \<Rightarrow> round list \<Rightarrow> (nat \<times> (str + started)) option" where
  "daemon_start path timeout spawn out first rounds =
     (case first of
        Gui_Answers r \<Rightarrow> Some (0, Inr (Already (version_of r)))
      | Gui_Auth \<Rightarrow> Some (0, Inl AUTH_HINT)
      | Gui_Failed why \<Rightarrow> Some (0, Inl why)
      | _ \<Rightarrow> map_option (\<lambda>(n, x). (n, case x of
               Inl e \<Rightarrow> Inl e
             | Inr (r, launched) \<Rightarrow> Inr (if launched then Launched (version_of r) else Already (version_of r))))
             (connect_with path timeout spawn out rounds))"

section \<open>Status\<close>

definition status_answer :: "gui_probe \<Rightarrow> (nat \<times> json \<times> str) option" where
  "status_answer p =
     (case p of
        Gui_Answers _ \<Rightarrow> None
      | Gui_Auth \<Rightarrow> Some (1, JObj [(''error'', JStr AUTH_HINT), (''status'', JStr ''error'')],
          ''gpty GUI is running but requires GPTY_SECRET authentication (mismatched GPTY_SECRET).'')
      | Gui_Absent \<Rightarrow> Some (1, JObj [(''status'', JStr ''not running'')], ''gpty GUI is not running.'')
      | Gui_Busy \<Rightarrow> Some (1, JObj [(''status'', JStr ''busy'')], ''gpty GUI did not answer within one second (it may be busy).'')
      | Gui_Failed why \<Rightarrow> Some (1, JObj [(''error'', JStr why), (''status'', JStr ''error'')], why))"

text \<open>The exit code of \<open>daemon status\<close> and what it prints; the printers of a response and of a value are
  parameters.\<close>

definition run_status :: "(response \<Rightarrow> str) \<Rightarrow> (json \<Rightarrow> str) \<Rightarrow> bool \<Rightarrow> gui_probe \<Rightarrow> nat \<times> str" where
  "run_status print_response print_json as_json p =
     (case p of
        Gui_Answers r \<Rightarrow> (0, if as_json then print_response r else ''gpty GUI is running (v'' @ version_of r @ '')'')
      | _ \<Rightarrow> (case status_answer p of
            Some (c, shaped, sentence) \<Rightarrow> (c, if as_json then print_json shaped else sentence)
          | None \<Rightarrow> (0, [])))"

text \<open>\<open>daemon stop\<close>: what it prints, or its error; a response is printed before its error fails the command.\<close>

definition check_error :: "response \<Rightarrow> str + unit" where
  "check_error r =
     (case rs_error r of
        Some e \<Rightarrow> Inl (''rpc error '' @ dec_int (re_code e) @ '': '' @ re_message e)
      | None \<Rightarrow> Inr ())"

definition format_response :: "(response \<Rightarrow> str) \<Rightarrow> (json \<Rightarrow> str) \<Rightarrow> bool \<Rightarrow> response \<Rightarrow> str option \<times> (str + unit)" where
  "format_response print_response print_json as_json r =
     (if as_json then Some (print_response r) else map_option print_json (rs_result r), check_error r)"

text \<open>\<open>daemon start\<close>: what it prints.\<close>

definition start_command :: "bool \<Rightarrow> str + started \<Rightarrow> str + str" where
  "start_command no_daemon answer =
     (if no_daemon then Inl ''--no-daemon forbids starting the GUI; drop the flag to start one''
      else and_then answer (\<lambda>s. Inr (case s of
          Already v \<Rightarrow> ''gpty GUI is already running (v'' @ v @ '')''
        | Launched v \<Rightarrow> ''gpty GUI started (v'' @ v @ '')'')))"

definition daemon_stop :: "(nat \<Rightarrow> str) \<Rightarrow> (response \<Rightarrow> str) \<Rightarrow> (json \<Rightarrow> str) \<Rightarrow> bool \<Rightarrow> client_error + response \<Rightarrow> str option \<times> (str + unit)" where
  "daemon_stop span print_response print_json as_json answer =
     (case answer of
        Inr r \<Rightarrow> format_response print_response print_json as_json r
      | Inl e \<Rightarrow> if is_not_running e then (Some ''gpty GUI is not running; nothing to stop.'', Inr ())
                  else (None, Inl (client_error_text span e)))"

section \<open>One interface is started\<close>

lemma connect_loop_spec:
  "connect_loop path timeout spawn out rs child = Some (n, r) \<Longrightarrow>
   n \<le> (if child then 0 else 1) \<and>
   (0 < n \<longrightarrow> spawn = Inr () \<and> Gui_Absent \<in> set (map cr_probe rs)) \<and>
   (\<forall>resp launched. r = Inr (resp, launched) \<longrightarrow> Gui_Answers resp \<in> set (map cr_probe rs) \<and> launched = (child \<or> 0 < n))"
proof (induction rs arbitrary: child n r)
  case (Cons q rs)
  define after where "after = (\<lambda>child.
        if cr_late q then Some (0 :: nat, Inl (gave_up path timeout out child))
        else if \<not> child then connect_loop path timeout spawn out rs child
        else (case cr_status q of
            Inl e \<Rightarrow> Some (0, Inl e)
          | Inr (Some exit) \<Rightarrow> Some (0, Inl (gui_exited exit out))
          | Inr None \<Rightarrow> connect_loop path timeout spawn out rs child))"
  have step: "connect_loop path timeout spawn out (q # rs) child =
      (case cr_probe q of
           Gui_Answers resp \<Rightarrow> Some (0, Inr (resp, child))
         | Gui_Auth \<Rightarrow> Some (0, Inl AUTH_HINT)
         | Gui_Failed why \<Rightarrow> Some (0, Inl why)
         | Gui_Busy \<Rightarrow> after child
         | Gui_Absent \<Rightarrow>
             if child then after True
             else (case spawn of
                 Inl e \<Rightarrow> Some (0, Inl e)
               | Inr _ \<Rightarrow> map_option (\<lambda>(n, x). (n + 1, x)) (after True)))"
    by (simp only: connect_loop.simps Let_def after_def)
  have tail: "k \<le> (if c then 0 else 1) \<and> (0 < k \<longrightarrow> spawn = Inr () \<and> Gui_Absent \<in> set (map cr_probe (q # rs))) \<and>
      (\<forall>resp launched. x = Inr (resp, launched) \<longrightarrow> Gui_Answers resp \<in> set (map cr_probe (q # rs)) \<and> launched = (c \<or> 0 < k))"
    if a: "after c = Some (k, x)" for c k x
  proof -
    consider "k = 0" "isl x" | "connect_loop path timeout spawn out rs c = Some (k, x)"
      using a by (auto simp: after_def split: if_splits sum.splits option.splits)
    then show ?thesis
    proof cases
      case 2
      then show ?thesis using Cons.IH [of c k x] by auto
    qed auto
  qed
  show ?case
  proof (cases "cr_probe q")
    case Gui_Absent
    show ?thesis
    proof (cases child)
      case True
      then show ?thesis using Cons.prems tail [of True n r] Gui_Absent unfolding step by auto
    next
      case False
      show ?thesis
      proof (cases spawn)
        case (Inl e)
        then show ?thesis using Cons.prems False Gui_Absent unfolding step by auto
      next
        case (Inr u)
        then obtain k where k: "after True = Some (k, r)" "n = k + 1"
          using Cons.prems False Gui_Absent unfolding step by auto
        then show ?thesis using tail [OF k(1)] False Inr Gui_Absent by auto
      qed
    qed
  next
    case Gui_Busy
    then show ?thesis using Cons.prems tail [of child n r] unfolding step by auto
  qed (use Cons.prems in \<open>auto simp: step\<close>)
qed simp

lemma connect_loop_ends: "\<exists>r \<in> set rs. cr_late r \<Longrightarrow> connect_loop path timeout spawn out rs child \<noteq> None"
proof (induction rs arbitrary: child)
  case (Cons q rs)
  show ?case
  proof (cases "cr_late q")
    case True
    then show ?thesis by (auto simp: Let_def split: gui_probe.splits sum.splits)
  next
    case False
    then have "connect_loop path timeout spawn out rs c \<noteq> None" for c using Cons by auto
    then show ?thesis using False
      by (auto simp: Let_def simp del: not_None_eq split: gui_probe.splits sum.splits option.splits)
  qed
qed simp

text \<open>C34: Waiting for the interface ends, and never starts a second one.  Once the deadline has come the
  wait is over; it started at most one program, and only after a probe found that nothing listens -
  never for an interface that is busy, refuses the secret or answers; and it reports an answer only
  when a probe got it, and says truly whether it started the one that answered.\<close>

theorem connect_starts_one_gui:
  assumes "list_ex cr_late rounds"
  shows "\<exists>n r. connect_with path timeout spawn out rounds = Some (n, r) \<and> n \<le> 1 \<and>
    (n = 1 \<longrightarrow> spawn = Inr () \<and> Gui_Absent \<in> set (map cr_probe rounds)) \<and>
    (\<forall>resp launched. r = Inr (resp, launched) \<longrightarrow> Gui_Answers resp \<in> set (map cr_probe rounds) \<and> launched = (n = 1))"
proof -
  obtain n r where c: "connect_with path timeout spawn out rounds = Some (n, r)"
    using assms connect_loop_ends [of rounds path timeout spawn out False] by (auto simp: connect_with_def list_ex_iff)
  then have "connect_loop path timeout spawn out rounds False = Some (n, r)" by (simp add: connect_with_def)
  note sp = connect_loop_spec [OF this]
  then have n: "n \<le> 1" "(0 < n) = (n = 1)" by auto
  show ?thesis using c n sp unfolding n(2) by (intro exI [of _ n] exI [of _ r]) simp
qed

definition demo_rounds :: "round list" where
  "demo_rounds =
     [\<lparr>cr_probe = Gui_Absent, cr_late = False, cr_status = Inr None\<rparr>,
      \<lparr>cr_probe = Gui_Busy, cr_late = False, cr_status = Inr None\<rparr>,
      \<lparr>cr_probe = Gui_Answers (build_response 1 JNull), cr_late = True, cr_status = Inr None\<rparr>]"

theorem connect_starts_one_gui_witness:
  "connect_with ''/s'' ''5s'' (Inr ()) [] demo_rounds = Some (1, Inr (build_response 1 JNull, True)) \<and>
   (\<exists>n r. connect_with ''/s'' ''5s'' (Inr ()) [] demo_rounds = Some (n, r) \<and> n \<le> 1)"
proof -
  have "list_ex cr_late demo_rounds" by (simp add: demo_rounds_def)
  from connect_starts_one_gui [OF this, of "''/s''" "''5s''" "Inr ()" "[]"]
  have "\<exists>n r. connect_with ''/s'' ''5s'' (Inr ()) [] demo_rounds = Some (n, r) \<and> n \<le> 1" by blast
  then show ?thesis by (simp add: connect_with_def demo_rounds_def)
qed

text \<open>The interface that is started can be written by nobody else; the one named in the environment is the
  user's own.\<close>

lemma gui_binary_is_trusted:
  assumes "find_gui_binary h st exe_dir home = Some p"
  shows "absolute p \<and> (\<exists>m. st p = Some m \<and> fa_kind m = Regular \<and> \<not> written_by_others m) \<and>
    (ho_env h ''GPTY_GUI'' = Some p \<or> (\<exists>d. exe_dir = Some d \<and> p \<in> set (gui_candidates d home)))"
proof -
  consider (named) "ho_env h ''GPTY_GUI'' = Some p" "validate_gui_binary (ho_uid h) st p"
    | (found) d where "exe_dir = Some d" "find (launchable st) (gui_candidates d home) = Some p"
    using assms by (auto simp: find_gui_binary_def bind_eq_Some_conv split: option.splits if_splits)
  then show ?thesis
  proof cases
    case named
    then show ?thesis by (auto simp: validate_gui_binary_def no_others_write split: option.splits)
  next
    case found
    then have "launchable st p" "p \<in> set (gui_candidates d home)" by (auto simp: find_Some_iff)
    then show ?thesis using found(1) by (auto simp: launchable_def no_others_write split: option.splits)
  qed
qed

text \<open>The status command succeeds exactly when an interface answered.\<close>

lemma status_succeeds_when_running: "fst (run_status pr pj as_json p) = 0 \<longleftrightarrow> (\<exists>r. p = Gui_Answers r)"
  by (cases p) (simp_all add: run_status_def status_answer_def)

text \<open>Two binaries of the same release are never warned about, and of two that differ in their protocol the
  user always hears, whatever their versions.\<close>

lemma same_release_is_silent: "stale_binary_line p p v v = None"
  by (simp add: stale_binary_line_def)

lemma different_protocol_is_told: "g \<noteq> p \<Longrightarrow> g \<noteq> [] \<Longrightarrow> stale_binary_line p g v w \<noteq> None"
  by (simp add: stale_binary_line_def)

lemma warned_once: "vl_warned l \<Longrightarrow> fst (note_gui_version v r l) = None"
  by (auto simp: note_gui_version_def Let_def split: option.splits)

end
