(* ===== verification/Closest_Match.thy ===== *)
theory Closest_Match
  imports Rust_Results
begin

text \<open>
  The suggestion a wrong name gets, \<open>crates/gpty-cli/src/commands/mod.rs\<close>: \<open>levenshtein_distance\<close> with
  its two rows, and \<open>closest_match\<close>.  Lower-casing is a parameter.
\<close>

section \<open>The distance\<close>

text \<open>The inner loop: the cells of the current row after its first, from the row before it.\<close>

fun next_cells :: "'c \<Rightarrow> 'c list \<Rightarrow> nat list \<Rightarrow> nat \<Rightarrow> nat list" where
  "next_cells c (b # bs) (diag # up # ps) left =
     (let v = min (min (up + 1) (left + 1)) (diag + (if c = b then 0 else 1))
      in v # next_cells c bs (up # ps) v)"
| "next_cells c _ _ left = []"

definition next_row :: "nat \<Rightarrow> 'c \<Rightarrow> 'c list \<Rightarrow> nat list \<Rightarrow> nat list" where
  "next_row i c bs prev = i # next_cells c bs prev i"

primrec lev_rows :: "'c list \<Rightarrow> nat \<Rightarrow> 'c list \<Rightarrow> nat list \<Rightarrow> nat list" where
  "lev_rows [] i bs prev = prev"
| "lev_rows (c # cs) i bs prev = lev_rows cs (i + 1) bs (next_row i c bs prev)"

definition levenshtein_distance :: "str \<Rightarrow> str \<Rightarrow> nat" where
  "levenshtein_distance a b =
     (let as = chars a; bs = chars b
      in if as = [] then length bs
         else if bs = [] then length as
         else lev_rows as 1 bs [0..<length bs + 1] ! length bs)"

text \<open>\<open>min_by_key\<close>: the first entry with the least distance.\<close>

fun min_by_distance :: "(nat \<times> 'a) list \<Rightarrow> (nat \<times> 'a) option" where
  "min_by_distance [] = None"
| "min_by_distance (x # xs) =
     (case min_by_distance xs of
        None \<Rightarrow> Some x
      | Some y \<Rightarrow> if fst x \<le> fst y then Some x else Some y)"

definition closest_match :: "(str \<Rightarrow> str) \<Rightarrow> str \<Rightarrow> str list \<Rightarrow> str option" where
  "closest_match lower input valid =
     (let i = lower input
      in map_option snd (min_by_distance (filter (\<lambda>(d, v). d \<le> min (max (length v) (length i) div 2) 3)
           (map (\<lambda>v. (levenshtein_distance i v, v)) valid))))"

section \<open>Edits\<close>

text \<open>One edit: a character is removed, added or replaced.\<close>

definition edit :: "'c list \<Rightarrow> 'c list \<Rightarrow> bool" where
  "edit xs ys \<longleftrightarrow>
     (\<exists>p c s. xs = p @ c # s \<and> ys = p @ s) \<or> (\<exists>p c s. xs = p @ s \<and> ys = p @ c # s) \<or>
     (\<exists>p c d s. xs = p @ c # s \<and> ys = p @ d # s)"

text \<open>The distance as it is usually defined.\<close>

fun lev :: "'c list \<Rightarrow> 'c list \<Rightarrow> nat" where
  "lev [] ys = length ys"
| "lev (x # xs) [] = length (x # xs)"
| "lev (x # xs) (y # ys) =
     min (min (lev xs (y # ys) + 1) (lev (x # xs) ys + 1)) (lev xs ys + (if x = y then 0 else 1))"

lemma lev_Nil2 [simp]: "lev xs [] = length xs"
  by (cases xs) auto

lemma edit_Cons: "edit xs ys \<Longrightarrow> edit (c # xs) (c # ys)"
  unfolding edit_def by (metis append_Cons)

lemma edits_Cons: "(edit ^^ n) xs ys \<Longrightarrow> (edit ^^ n) (c # xs) (c # ys)"
proof (induction n arbitrary: ys)
  case (Suc n)
  then show ?case using edit_Cons by (fastforce elim!: relcomppE intro!: relcomppI)
qed auto

lemma edits_insert: "(edit ^^ length ys) [] ys"
proof (induction ys)
  case (Cons y ys)
  have "edit [] [y]" unfolding edit_def by (metis append_Nil)
  from relpowp_Suc_I2 [OF this edits_Cons [OF Cons]] show ?case by simp
qed auto

lemma edits_delete: "(edit ^^ length xs) xs []"
proof (induction xs)
  case (Cons x xs)
  have "edit (x # xs) xs" unfolding edit_def by (metis append_Nil)
  from relpowp_Suc_I2 [OF this Cons] show ?case by simp
qed auto

lemma lev_edits: "(edit ^^ lev xs ys) xs ys"
proof (induction xs ys rule: lev.induct)
  case (3 x xs y ys)
  have del: "(edit ^^ (lev xs (y # ys) + 1)) (x # xs) (y # ys)"
  proof -
    have "edit (x # xs) xs" unfolding edit_def by (metis append_Nil)
    then show ?thesis using 3(1) relpowp_Suc_I2 by fastforce
  qed
  have ins: "(edit ^^ (lev (x # xs) ys + 1)) (x # xs) (y # ys)"
  proof -
    have "edit ys (y # ys)" unfolding edit_def by (metis append_Nil)
    then show ?thesis using 3(2) relpowp_Suc_I by fastforce
  qed
  have same: "(edit ^^ (lev xs ys + (if x = y then 0 else 1))) (x # xs) (y # ys)"
  proof (cases "x = y")
    case True
    then show ?thesis using edits_Cons [OF 3(3)] by simp
  next
    case False
    have "edit (x # xs) (y # xs)" unfolding edit_def by (metis append_Nil)
    then show ?thesis using False relpowp_Suc_I2 [OF _ edits_Cons [OF 3(3)]] by fastforce
  qed
  show ?case using del ins same by (simp add: min_def)
next
  case (1 ys)
  then show ?case using edits_insert by simp
next
  case (2 x xs)
  then show ?case using edits_delete [of "x # xs"] by (simp only: lev.simps)
qed

lemma lev_drop1: "lev (x # xs) ys \<le> lev xs ys + 1"
  by (cases ys) auto

lemma lev_add1: "lev xs (y # ys) \<le> lev xs ys + 1"
  by (cases xs) auto

lemma lev_both: "lev (x # xs) (y # ys) \<le> lev xs ys + (if x = y then 0 else 1)"
  by simp

lemma lev_cases:
  obtains (drop) "lev (x # xs) (y # ys) = lev xs (y # ys) + 1"
  | (add) "lev (x # xs) (y # ys) = lev (x # xs) ys + 1"
  | (both) "lev (x # xs) (y # ys) = lev xs ys + (if x = y then 0 else 1)"
  by (simp add: min_def) (metis)

lemma lev_drop2: "lev xs ys \<le> lev (x # xs) ys + 1"
proof (induction ys)
  case (Cons y ys)
  then show ?case using lev_add1 [of xs y ys] by (cases x xs y ys rule: lev_cases) (simp_all del: lev.simps(3))
qed auto

lemma lev_replace: "lev (x # xs) ys \<le> lev (z # xs) ys + 1"
proof (induction ys)
  case (Cons y ys)
  then show ?case using lev_drop1 [of x xs "y # ys"] lev_add1 [of "x # xs" y ys] lev_both [of x xs y ys]
    by (cases z xs y ys rule: lev_cases) (auto simp del: lev.simps(3) split: if_splits)
qed auto

lemma lev_prefix: "\<forall>zs. lev xs zs \<le> lev ys zs + 1 \<Longrightarrow> lev (a # xs) zs \<le> lev (a # ys) zs + 1"
proof (induction zs)
  case Nil
  then show ?case using spec [OF Nil, of "[]"] by simp
next
  case (Cons z zs)
  have "lev xs (z # zs) \<le> lev ys (z # zs) + 1" "lev xs zs \<le> lev ys zs + 1" using Cons(2) by blast+
  then show ?case using Cons(1) [OF Cons(2)] lev_drop1 [of a xs "z # zs"] lev_add1 [of "a # xs" z zs] lev_both [of a xs z zs]
    by (cases a ys z zs rule: lev_cases) (auto simp del: lev.simps(3) split: if_splits)
qed

lemma lev_edit: "edit xs ys \<Longrightarrow> lev xs zs \<le> lev ys zs + 1"
proof -
  have 1: "\<forall>zs. lev (p @ c # s) zs \<le> lev (p @ s) zs + 1" for p and c :: 'a and s
    by (induction p) (use lev_drop1 lev_prefix in auto)
  have 2: "\<forall>zs. lev (p @ s) zs \<le> lev (p @ c # s) zs + 1" for p and c :: 'a and s
    by (induction p) (use lev_drop2 lev_prefix in auto)
  have 3: "\<forall>zs. lev (p @ c # s) zs \<le> lev (p @ d # s) zs + 1" for p and c d :: 'a and s
    by (induction p) (use lev_replace lev_prefix in auto)
  show "edit xs ys \<Longrightarrow> lev xs zs \<le> lev ys zs + 1"
    using 1 2 3 unfolding edit_def by blast
qed

lemma lev_refl [simp]: "lev xs xs = 0"
  by (induction xs) auto

lemma lev_least: "(edit ^^ n) xs ys \<Longrightarrow> lev xs ys \<le> n"
proof (induction n arbitrary: xs)
  case (Suc n)
  then obtain zs where "edit xs zs" "(edit ^^ n) zs ys" by (meson relpowp_Suc_D2)
  from lev_edit [OF this(1), of ys] Suc.IH [OF this(2)] show ?case by simp
qed auto

lemma edit_rev: "edit xs ys \<Longrightarrow> edit (rev xs) (rev ys)"
  unfolding edit_def by (elim disjE exE conjE) (simp_all, blast+)

lemma edits_rev: "(edit ^^ n) xs ys \<Longrightarrow> (edit ^^ n) (rev xs) (rev ys)"
proof (induction n arbitrary: ys)
  case (Suc n)
  then show ?case using edit_rev by (fastforce elim!: relcomppE intro!: relcomppI)
qed auto

lemma lev_rev: "lev (rev xs) (rev ys) = lev xs ys"
proof (rule antisym)
  show "lev (rev xs) (rev ys) \<le> lev xs ys" using lev_least edits_rev lev_edits by blast
  have "(edit ^^ lev (rev xs) (rev ys)) (rev (rev xs)) (rev (rev ys))" by (rule edits_rev [OF lev_edits])
  then show "lev xs ys \<le> lev (rev xs) (rev ys)" using lev_least by simp
qed

section \<open>The rows\<close>

text \<open>The row of a prefix (reversed, since the last characters are compared first).\<close>

definition lev_row :: "'c list \<Rightarrow> 'c list \<Rightarrow> nat list" where
  "lev_row p bs = map (\<lambda>k. lev p (rev (take k bs))) [0..<Suc (length bs)]"

lemma next_cells_lev:
  "next_cells c rest (map (\<lambda>k. lev p (rev (pre @ take k rest))) [0..<Suc (length rest)]) (lev (c # p) (rev pre)) =
   map (\<lambda>k. lev (c # p) (rev (pre @ take k rest))) [1..<Suc (length rest)]"
proof (induction rest arbitrary: pre)
  case (Cons b rest)
  have shift: "map (\<lambda>k. f (rev (pre @ take k (b # rest)))) [1..<Suc (length (b # rest))] =
      map (\<lambda>k. f (rev ((pre @ [b]) @ take k rest))) [0..<Suc (length rest)]" for f :: "'a list \<Rightarrow> nat"
    by (simp add: map_Suc_upt [symmetric] del: upt_Suc)
  have one: "map g [0..<Suc n] = g 0 # map g [1..<Suc n]" for g :: "nat \<Rightarrow> nat" and n
    by (simp add: upt_conv_Cons del: upt_Suc)
  let ?v = "lev (c # p) (b # rev pre)"
  have v: "?v = min (min (lev p (b # rev pre) + 1) (lev (c # p) (rev pre) + 1)) (lev p (rev pre) + (if c = b then 0 else 1))"
    by simp
  have prev: "map (\<lambda>k. lev p (rev (pre @ take k (b # rest)))) [0..<Suc (length (b # rest))] =
      lev p (rev pre) # lev p (b # rev pre) # map (\<lambda>k. lev p (rev ((pre @ [b]) @ take k rest))) [1..<Suc (length rest)]"
    unfolding one [of _ "length (b # rest)"] shift one [of _ "length rest"] by simp
  have "next_cells c (b # rest) (map (\<lambda>k. lev p (rev (pre @ take k (b # rest)))) [0..<Suc (length (b # rest))])
      (lev (c # p) (rev pre)) =
    ?v # next_cells c rest (map (\<lambda>k. lev p (rev ((pre @ [b]) @ take k rest))) [0..<Suc (length rest)]) ?v"
    unfolding prev one [of _ "length rest"] next_cells.simps Let_def v by simp
  also have "\<dots> = ?v # map (\<lambda>k. lev (c # p) (rev ((pre @ [b]) @ take k rest))) [1..<Suc (length rest)]"
    using Cons [of "pre @ [b]"] by simp
  also have "\<dots> = map (\<lambda>k. lev (c # p) (rev (pre @ take k (b # rest)))) [1..<Suc (length (b # rest))]"
    unfolding shift one [of _ "length rest"] by simp
  finally show ?case .
qed simp

lemma next_row_lev: "next_row (Suc (length p)) c bs (lev_row p bs) = lev_row (c # p) bs"
proof -
  have "lev_row (c # p) bs = Suc (length p) # map (\<lambda>k. lev (c # p) (rev (take k bs))) [1..<Suc (length bs)]"
    by (simp add: lev_row_def upt_conv_Cons del: upt_Suc)
  then show ?thesis using next_cells_lev [of c bs p "[]"] by (simp add: next_row_def lev_row_def del: upt_Suc)
qed

lemma lev_rows_lev: "lev_rows cs (Suc (length p)) bs (lev_row p bs) = lev_row (rev cs @ p) bs"
proof (induction cs arbitrary: p)
  case (Cons c cs)
  then show ?case using Cons [of "c # p"] by (simp add: next_row_lev)
qed simp

lemma lev_row_Nil: "lev_row [] bs = [0..<length bs + 1]"
proof -
  have "map (\<lambda>k. lev [] (rev (take k bs))) [0..<Suc (length bs)] = map id [0..<Suc (length bs)]"
    by (rule map_cong) auto
  then show ?thesis by (simp add: lev_row_def del: upt_Suc)
qed

lemma levenshtein_lev: "levenshtein_distance a b = lev (chars a) (chars b)"
proof -
  let ?as = "chars a" and ?bs = "chars b"
  have "lev_rows ?as 1 ?bs [0..<length ?bs + 1] = lev_row (rev ?as) ?bs"
    using lev_rows_lev [of ?as "[]" ?bs] lev_row_Nil [of ?bs] by simp
  then have "lev_rows ?as 1 ?bs [0..<length ?bs + 1] ! length ?bs = lev (rev ?as) (rev ?bs)"
    by (simp add: lev_row_def del: upt_Suc)
  then show ?thesis by (simp add: levenshtein_distance_def Let_def lev_rev)
qed

text \<open>C40: The distance is the edit distance.  What the two rows compute is the least number of edits - one
  character removed, added or replaced - that turn one text into the other.\<close>

theorem levenshtein_is_edit_distance:
  "levenshtein_distance a b = (LEAST n. (edit ^^ n) (chars a) (chars b)) \<and>
   (edit ^^ levenshtein_distance a b) (chars a) (chars b)"
proof -
  have "(LEAST n. (edit ^^ n) (chars a) (chars b)) = lev (chars a) (chars b)"
    by (intro Least_equality lev_edits lev_least)
  then show ?thesis using lev_edits [of "chars a" "chars b"] by (simp add: levenshtein_lev)
qed

text \<open>What is suggested is one of the valid names, close enough, and none is closer.\<close>

lemma min_by_distance_None: "min_by_distance xs = None \<longleftrightarrow> xs = []"
  by (cases xs) (auto split: option.splits)

lemma min_by_distance_least: "min_by_distance xs = Some (d, v) \<Longrightarrow> (d, v) \<in> set xs \<and> (\<forall>(e, w) \<in> set xs. d \<le> e)"
proof (induction xs arbitrary: d v)
  case (Cons x xs)
  show ?case
  proof (cases "min_by_distance xs")
    case None
    then show ?thesis using Cons(2) by (simp add: min_by_distance_None)
  next
    case (Some y)
    then show ?thesis using Cons(1) [of "fst y" "snd y"] Cons(2) by (fastforce split: if_splits)
  qed
qed simp

lemma closest_match_close:
  assumes "closest_match lower input valid = Some v"
  shows "v \<in> set valid \<and> levenshtein_distance (lower input) v \<le> 3 \<and>
    (\<forall>w \<in> set valid. levenshtein_distance (lower input) w < levenshtein_distance (lower input) v \<longrightarrow>
       max (length w) (length (lower input)) div 2 < levenshtein_distance (lower input) w)"
  using assms by (fastforce simp: closest_match_def Let_def dest!: min_by_distance_least)

end
