(* ===== verification/Cli_Commands.thy ===== *)
theory Cli_Commands
  imports Daemon Closest_Match Concepts Agent_State Gui_Bridge Omp_Events
begin

text \<open>
  The commands of the command line client as calls of the control socket: \<open>gpty-cli/src/main.rs\<close> (the
  commands, which of them may start the interface, how a failure is reported) and one file each under
  \<open>commands/\<close>.  A call is the method, its parameters and, where a command does not keep the client's
  time-out, its own.  Parsing of the arguments is the \<open>clap\<close> library's; the JSON objects list their
  keys in order.
\<close>

section \<open>The commands\<close>

datatype daemon_action = Start_Gui | Stop_Gui | Gui_Status
datatype layout_action = Save_Layout str | Load_Layout str | List_Layouts
datatype concept_action = List_Concepts | Toggle_Concept str

datatype vault_action =
    Search_Vault str str int
  | Read_Note str str
  | Weigh_Link str str str "int option" bool

datatype cli_command =
    New_Pane str "str option" "str list" "str option" "str option" bool "str list"
  | List_Panes
  | Kill_Pane str
  | Focus_Pane str
  | Inject str str
  | Schema_Command str
  | Daemon_Command daemon_action
  | Layout_Command layout_action
  | Concept_Command concept_action
  | Plugin_Command
  | Pane_Read str int
  | Pane_Status "str option"
  | State_Command str
  | Pane_Run str
  | Pane_Wait str str nat
  | Broadcast_Command "str list" str
  | Vault_Command vault_action
  | Mcp_Command
  | Version_Command

definition may_autospawn :: "cli_command \<Rightarrow> bool" where
  "may_autospawn c =
     (case c of
        New_Pane _ _ _ _ _ _ _ \<Rightarrow> True
      | Layout_Command (Load_Layout _) \<Rightarrow> True
      | _ \<Rightarrow> False)"

section \<open>Their calls\<close>

record ipc_call =
  ic_timeout :: "nat option"
  ic_method :: str
  ic_params :: "json option"

definition plain_call :: "str \<Rightarrow> (str \<times> json) list \<Rightarrow> ipc_call" where
  "plain_call m kvs = \<lparr>ic_timeout = None, ic_method = m, ic_params = Some (JObj kvs)\<rparr>"

definition valid_types :: "str list" where
  "valid_types = map pane_type_as_str pane_type_ALL @ [''observer'']"

definition QUOTE :: byte where "QUOTE = CHR 0x22"

definition quoted :: "str \<Rightarrow> str" where
  "quoted s = QUOTE # s @ [QUOTE]"

text \<open>\<open>new_pane\<close>; the keys that are there only when they were given are put in their place.  The warning of
  the old name of a type, which goes to standard error, is left out.\<close>

definition new_pane_call :: "(str \<Rightarrow> str) \<Rightarrow> str \<Rightarrow> str option \<Rightarrow> str list \<Rightarrow> str option \<Rightarrow> str option \<Rightarrow> bool \<Rightarrow> str list \<Rightarrow> str + ipc_call" where
  "new_pane_call lower pane_type cmd args split title focus tags =
     (if pane_type \<notin> set valid_types
      then Inl (''invalid pane type: '' @ quoted pane_type @
        (case closest_match lower pane_type valid_types of
           Some s \<Rightarrow> '' '' @ DASH @ '' did you mean '' @ quoted s @ ''?''
         | None \<Rightarrow> []) @ [LF] @ ''Valid types: '' @ join_with '', '' valid_types)
      else Inr (plain_call ''newPane''
        ((if args \<noteq> [] then [(''args'', JArr (map JStr args))] else []) @
         (case cmd of Some c \<Rightarrow> [(''command'', JStr c)] | None \<Rightarrow> []) @
         [(''focus'', JBool focus)] @
         (case split of Some s \<Rightarrow> [(''split'', JStr s)] | None \<Rightarrow> []) @
         [(''tags'', JArr (map JStr tags))] @
         (case title of Some t \<Rightarrow> [(''title'', JStr t)] | None \<Rightarrow> []) @
         [(''type'', JStr (if pane_type = ''observer'' then ''inspector'' else pane_type))])))"

definition server_wait :: "nat \<Rightarrow> nat" where
  "server_wait timeout_ms = min (max timeout_ms 100) 60000"

definition pane_wait_call :: "str \<Rightarrow> str \<Rightarrow> nat \<Rightarrow> ipc_call" where
  "pane_wait_call pane_id pattern timeout_ms =
     \<lparr>ic_timeout = Some (server_wait timeout_ms + 2000), ic_method = ''paneWait'',
      ic_params = Some (JObj [(''pane_id'', JStr pane_id), (''pattern'', JStr pattern), (''timeout_ms'', JInt (int (server_wait timeout_ms)))])\<rparr>"

definition VAULT_SEARCH_TIMEOUT :: nat where "VAULT_SEARCH_TIMEOUT = 25 * 1000"

definition vault_call :: "vault_action \<Rightarrow> str + ipc_call" where
  "vault_call a =
     (case a of
        Search_Vault vault_path pattern limit \<Rightarrow>
          Inr \<lparr>ic_timeout = Some VAULT_SEARCH_TIMEOUT, ic_method = ''vaultSearch'',
            ic_params = Some (JObj [(''limit'', JInt limit), (''pattern'', JStr pattern), (''vault_path'', JStr vault_path)])\<rparr>
      | Read_Note vault_path path \<Rightarrow>
          Inr (plain_call ''vaultRead'' [(''path'', JStr path), (''vault_path'', JStr vault_path)])
      | Weigh_Link vault_path src target weight clear \<Rightarrow>
          if \<not> clear \<and> weight = None
          then Inl ''give --weight <1-100> to declare a weight, or --clear to remove one''
          else Inr (plain_call ''vaultWeight''
            [(''src'', JStr src), (''target'', JStr target), (''vault_path'', JStr vault_path),
             (''weight'', if clear then JNull else JInt (unwrap_or weight 0))]))"

definition layout_call :: "layout_action \<Rightarrow> ipc_call" where
  "layout_call a =
     (case a of
        Save_Layout name \<Rightarrow> plain_call ''layoutSave'' [(''name'', JStr name)]
      | Load_Layout name \<Rightarrow> plain_call ''layoutLoad'' [(''name'', JStr name)]
      | List_Layouts \<Rightarrow> \<lparr>ic_timeout = None, ic_method = ''layoutList'', ic_params = None\<rparr>)"

definition concept_call :: "concept_action \<Rightarrow> ipc_call" where
  "concept_call a =
     (case a of
        List_Concepts \<Rightarrow> plain_call ''conceptList'' []
      | Toggle_Concept name \<Rightarrow> plain_call ''conceptToggle'' [(''name'', JStr name)])"

text \<open>\<open>dispatch\<close>: nothing for the commands that are handled before it.\<close>

definition dispatch_command :: "(str \<Rightarrow> str) \<Rightarrow> cli_command \<Rightarrow> (str + ipc_call) option" where
  "dispatch_command lower c =
     (case c of
        New_Pane t cmd args split title focus tags \<Rightarrow> Some (new_pane_call lower t cmd args split title focus tags)
      | List_Panes \<Rightarrow> Some (Inr \<lparr>ic_timeout = None, ic_method = ''listPanes'', ic_params = None\<rparr>)
      | Kill_Pane p \<Rightarrow> Some (Inr (plain_call ''killPane'' [(''pane_id'', JStr p)]))
      | Focus_Pane p \<Rightarrow> Some (Inr (plain_call ''focusPane'' [(''pane_id'', JStr p)]))
      | Inject p t \<Rightarrow> Some (Inr (plain_call ''inject'' [(''pane_id'', JStr p), (''text'', JStr t)]))
      | Pane_Read p n \<Rightarrow> Some (Inr (plain_call ''paneRead'' [(''lines'', JInt n), (''pane_id'', JStr p)]))
      | Pane_Status p \<Rightarrow> Some (Inr (plain_call ''paneStatus'' (case p of Some i \<Rightarrow> [(''pane_id'', JStr i)] | None \<Rightarrow> [])))
      | Pane_Run cmd \<Rightarrow> Some (Inr (plain_call ''paneRun'' [(''command'', JStr cmd)]))
      | Pane_Wait p pattern t \<Rightarrow> Some (Inr (pane_wait_call p pattern t))
      | Broadcast_Command tags t \<Rightarrow> Some (Inr (plain_call ''broadcast'' [(''tags'', JArr (map JStr tags)), (''text'', JStr t)]))
      | Vault_Command a \<Rightarrow> Some (vault_call a)
      | Concept_Command a \<Rightarrow> Some (Inr (concept_call a))
      | Layout_Command a \<Rightarrow> Some (Inr (layout_call a))
      | _ \<Rightarrow> None)"

text \<open>Whether the interface is started before the command, and what a failed call prints.\<close>

definition starts_gui :: "bool \<Rightarrow> cli_command \<Rightarrow> bool" where
  "starts_gui no_daemon c \<longleftrightarrow> \<not> no_daemon \<and> may_autospawn c"

definition report_error :: "(nat \<Rightarrow> str) \<Rightarrow> client_error \<Rightarrow> str" where
  "report_error span e = ''error: '' @ (if is_not_running e then NO_GUI_HINT else client_error_text span e)"

section \<open>Declaring the state of a pane\<close>

definition WIRE_EVENT :: str where "WIRE_EVENT = ''gpty.state.declared''"

definition VALID_STATES :: "str list" where
  "VALID_STATES = [''idle'', ''working'', ''needs-attention'', ''completed'', ''failed'']"

record credentials =
  cd_socket :: str
  cd_session :: str
  cd_capability :: str
  cd_pane :: str

definition required_var :: "(str \<Rightarrow> str option) \<Rightarrow> str \<Rightarrow> str + str" where
  "required_var get key =
     (case get key of
        Some v \<Rightarrow> if v \<noteq> [] then Inr v else Inl (''not running inside a gpty pane ('' @ key @ '' is unset)'')
      | None \<Rightarrow> Inl (''not running inside a gpty pane ('' @ key @ '' is unset)''))"

definition credentials_from_env :: "(str \<Rightarrow> str option) \<Rightarrow> str + credentials" where
  "credentials_from_env get =
     and_then (required_var get ''GPTY_EVENT_SOCKET'') (\<lambda>socket.
     and_then (required_var get ''GPTY_TERMINAL_SESSION_ID'') (\<lambda>session.
     and_then (required_var get ''GPTY_EVENT_CAPABILITY'') (\<lambda>capability.
     Inr \<lparr>cd_socket = socket, cd_session = session, cd_capability = capability, cd_pane = unwrap_or (get ''GPTY_PANE_ID'') []\<rparr>)))"

definition state_declaration :: "credentials \<Rightarrow> str \<Rightarrow> ipc_call" where
  "state_declaration c value =
     plain_call ''ompEvent''
       [(''capability'', JStr (cd_capability c)),
        (''event'', JObj [(''name'', JStr WIRE_EVENT), (''state'', JStr value)]),
        (''terminal_session_id'', JStr (cd_session c)),
        (''v'', JInt 1)]"

text \<open>\<open>declare\<close>: the error, or what is printed.\<close>

definition declare_answer :: "(nat \<Rightarrow> str) \<Rightarrow> (response \<Rightarrow> str) \<Rightarrow> bool \<Rightarrow> credentials \<Rightarrow> str \<Rightarrow> client_error + response \<Rightarrow> str + str" where
  "declare_answer span print_response as_json c value answer =
     and_then (map_err (client_error_text span) answer) (\<lambda>r.
       case rs_error r of
         Some e \<Rightarrow> Inl (''rpc error '' @ dec_int (re_code e) @ '': '' @ re_message e @
           (if re_code e = - 32002
            then [LF] @ ''  this pane'' @ [CHR 0x27] @ ''s terminal session is not registered with the running gpty (a stale environment) '' @
              DASH @ '' run this from a live pane''
            else []))
       | None \<Rightarrow> Inr (if as_json then print_response r
                       else ''declared '' @ quoted value @ '' for '' @ (if cd_pane c = [] then ''this pane'' else cd_pane c)))"

definition state_command :: "(str \<Rightarrow> str option) \<Rightarrow> str \<Rightarrow> str + credentials \<times> ipc_call" where
  "state_command get value =
     (if value \<notin> set VALID_STATES
      then Inl (''invalid state: '' @ quoted value @ [LF] @ ''Valid states: '' @ join_with '', '' VALID_STATES)
      else and_then (credentials_from_env get) (\<lambda>c. Inr (c, state_declaration c value)))"

section \<open>The commands and the interface\<close>

text \<open>The methods the interface answers.\<close>

definition served_methods :: "str list" where
  "served_methods = [''version'', ''shutdown'', ''vaultSearch'', ''vaultRead''] @ GDSCRIPT_METHODS"

lemma call_method: "ic_method (plain_call m kvs) = m" "ic_params (plain_call m kvs) = Some (JObj kvs)" "ic_timeout (plain_call m kvs) = None"
  by (simp_all add: plain_call_def)

text \<open>Every command has an answer.  A command that makes a call names a method the interface serves,
  with parameters that are an object or absent, as the server demands; and its client waits longer
  than a wait it asks the server for, but not longer than the server waits for its handler.\<close>

theorem every_command_is_served:
  assumes "dispatch_command lower c = Some (Inr k)"
  shows "ic_method k \<in> set served_methods \<and> (ic_params k = None \<or> (\<exists>kvs. ic_params k = Some (JObj kvs))) \<and>
    (\<forall>p pat t. c = Pane_Wait p pat t \<longrightarrow> (\<exists>b w. ic_timeout k = Some b \<and>
       Option.bind (ic_params k) (\<lambda>v. jget v ''timeout_ms'') = Some (JInt (int w)) \<and> 100 \<le> w \<and> w < b \<and> int b \<le> dispatch_timeout ''paneWait''))"
proof -
  have m: "\<And>m. m \<in> set [''newPane'', ''listPanes'', ''killPane'', ''focusPane'', ''inject'', ''paneRead'', ''paneStatus'', ''paneRun'',
      ''paneWait'', ''broadcast'', ''vaultSearch'', ''vaultRead'', ''vaultWeight'', ''conceptList'', ''conceptToggle'', ''layoutSave'', ''layoutLoad'', ''layoutList'']
      \<Longrightarrow> m \<in> set served_methods"
    by (auto simp: served_methods_def GDSCRIPT_METHODS_def)
  show ?thesis
  proof (cases "\<exists>p pat t. c = Pane_Wait p pat t")
    case True
    then obtain p pat t where c: "c = Pane_Wait p pat t" by blast
    then have "k = pane_wait_call p pat t" using assms by (simp add: dispatch_command_def)
    then show ?thesis using c
      by (auto simp: pane_wait_call_def server_wait_def dispatch_timeout_def fallback_timeout_def PANE_WAIT_TIMEOUT_def
          DISPATCH_SLACK_def served_methods_def GDSCRIPT_METHODS_def intro!: exI [of _ "server_wait t"])
  next
    case False
    then have "ic_method k \<in> set served_methods \<and> (ic_params k = None \<or> (\<exists>kvs. ic_params k = Some (JObj kvs)))"
      using assms
      by (cases c) (auto simp: dispatch_command_def new_pane_call_def vault_call_def concept_call_def layout_call_def call_method
          intro!: m split: if_splits vault_action.splits concept_action.splits layout_action.splits)
    then show ?thesis using False by blast
  qed
qed

theorem every_command_is_served_witness:
  "\<exists>k. dispatch_command id (Pane_Wait ''p1'' ''ready'' 90000) = Some (Inr k) \<and> ic_method k \<in> set served_methods"
proof -
  obtain k where k: "dispatch_command id (Pane_Wait ''p1'' ''ready'' 90000) = Some (Inr k)" by (simp add: dispatch_command_def)
  show ?thesis using every_command_is_served [OF k] k by blast
qed

text \<open>The interface is started for a new pane and for a layout that is loaded, and for nothing else.\<close>

lemma gui_is_started_for:
  "starts_gui no_daemon c \<longleftrightarrow>
     \<not> no_daemon \<and> ((\<exists>t cmd args split title focus tags. c = New_Pane t cmd args split title focus tags) \<or>
       (\<exists>name. c = Layout_Command (Load_Layout name)))"
  by (cases c) (auto simp: starts_gui_def may_autospawn_def split: layout_action.splits)

text \<open>A pane type is accepted when it is one of the interface's own names or the old name of the inspector,
  and what is sent is always one of its own.\<close>

lemma new_pane_type:
  assumes "new_pane_call lower t cmd args split title focus tags = Inr k"
  shows "\<exists>p. jget (unwrap_or (ic_params k) JNull) ''type'' = Some (JStr (pane_type_as_str p)) \<and> pane_type_parse t = Some p"
proof -
  have t: "t \<in> set valid_types" using assms by (auto simp: new_pane_call_def split: if_splits)
  have "jget (unwrap_or (ic_params k) JNull) ''type'' = Some (JStr (if t = ''observer'' then ''inspector'' else t))"
    using assms by (auto simp: new_pane_call_def call_method map_of_append split: if_splits option.splits)
  then show ?thesis using t
    by (auto simp: valid_types_def pane_type_ALL_def pane_type_as_str_def pane_type_parse_def)
qed

text \<open>Every state that can be declared is one the tracker of a pane knows, and the event that declares it is
  one the event socket takes.\<close>

lemma declarations_are_understood:
  "list_all (\<lambda>s. from_declaration s \<noteq> None) VALID_STATES \<and> WIRE_EVENT \<in> set ALLOWED_EVENTS"
proof -
  have "list_all (\<lambda>s. from_declaration s \<noteq> None) VALID_STATES" by code_simp
  moreover have "WIRE_EVENT \<in> set ALLOWED_EVENTS" by (simp add: WIRE_EVENT_def ALLOWED_EVENTS_def)
  ultimately show ?thesis ..
qed

end
