(* ===== verification/Mcp_Server.thy ===== *)
theory Mcp_Server
  imports Cli_Commands
begin

text \<open>
  The MCP server, \<open>crates/gpty-cli/src/commands\<close>: the commands as a tree (\<open>main.rs\<close>), the tools made of it
  (\<open>schema.rs\<close>), the translation of a tool's arguments to the parameters of a call (\<open>wire.rs\<close>), and the
  loop over the lines of standard input (\<open>mcp.rs\<close>).  What a call over the control socket, a start of the
  interface and the JSON text of a line answer are parameters, and so is the upper case of a character
  that is not ASCII.
\<close>

section \<open>The commands as a tree\<close>

datatype clap_action = Sets | Appends | Counts | Sets_True | Sets_False

datatype value_parser = Parses_Bool | Parses_Int | Parses_Text

record clap_arg =
  ca_id :: str
  ca_action :: clap_action
  ca_delimiter :: "byte option"
  ca_parser :: value_parser
  ca_help :: str
  ca_required :: bool
  ca_possible :: "str list"
  ca_default :: "str list"

datatype clap_command = Clap (clap_name: str) (clap_about: str) (clap_args: "clap_arg list") (clap_subs: "clap_command list")

definition string_arg :: "str \<Rightarrow> str \<Rightarrow> bool \<Rightarrow> clap_arg" where
  "string_arg i help req =
     \<lparr>ca_id = i, ca_action = Sets, ca_delimiter = None, ca_parser = Parses_Text, ca_help = help, ca_required = req,
      ca_possible = [], ca_default = []\<rparr>"

definition int_arg :: "str \<Rightarrow> str \<Rightarrow> str list \<Rightarrow> clap_arg" where
  "int_arg i help def = (string_arg i help False)\<lparr>ca_parser := Parses_Int, ca_default := def\<rparr>"

definition list_arg :: "str \<Rightarrow> str \<Rightarrow> byte option \<Rightarrow> clap_arg" where
  "list_arg i help d = (string_arg i help False)\<lparr>ca_action := Appends, ca_delimiter := d\<rparr>"

definition leaf :: "str \<Rightarrow> str \<Rightarrow> clap_arg list \<Rightarrow> clap_command" where
  "leaf name about args = Clap name about args []"

text \<open>\<open>Commands\<close>, in the order of their declarations.\<close>

definition pane_commands :: "clap_command list" where
  "pane_commands =
     [leaf ''new-pane'' ''Open a new pane''
        [(string_arg ''pane_type'' ''Pane type: terminal, code_viewer, file_tree, inspector, reasoning, cli_view, wiki, media'' False)
           \<lparr>ca_default := [''terminal'']\<rparr>,
         string_arg ''command'' ''Shell command to run (terminal only)'' False,
         list_arg ''args'' ''Program arguments (cli_view only; repeatable)'' None,
         (string_arg ''split'' ''Split direction: left, right, top, bottom (default: the tile's aspect)'' False)
           \<lparr>ca_possible := [''left'', ''right'', ''top'', ''bottom'']\<rparr>,
         string_arg ''title'' ''Pane title'' False,
         (string_arg ''focus'' ''Focus the new pane (default: true); `--focus false` leaves focus where it is'' False)
           \<lparr>ca_parser := Parses_Bool, ca_possible := [''true'', ''false''], ca_default := [''true'']\<rparr>,
         list_arg ''tags'' ''Comma-separated pane tags for broadcast targeting'' (Some (CHR '',''))],
      leaf ''list-panes'' ''List all active panes'' [],
      leaf ''kill-pane'' ''Close a pane'' [string_arg ''pane_id'' (''Pane ID, a label unique across workspaces, or '' @ quoted ''active'') True],
      leaf ''focus-pane'' ''Focus a pane'' [string_arg ''pane_id'' ''Pane ID, or a label unique across workspaces'' True],
      leaf ''inject'' ''Send text to a terminal pane''
        [string_arg ''pane_id'' ''Target pane ID, or a label unique across workspaces'' True,
         string_arg ''text'' ''Text to send (trailing newline added)'' True]]"

definition group_commands :: "clap_command list" where
  "group_commands =
     [leaf ''schema'' ''Output JSON Schema describing all commands''
        [(string_arg ''format'' ''Output format: json-schema, mcp'' False)\<lparr>ca_default := [''json-schema'']\<rparr>],
      Clap ''daemon'' ''Manage the GUI daemon'' []
        [leaf ''start'' ''Start the GUI daemon'' [], leaf ''stop'' ''Stop the running GUI'' [], leaf ''status'' ''Check daemon status'' []],
      Clap ''layout'' ''Save, load, or list workspace layouts'' []
        [leaf ''save'' ''Save current layout'' [string_arg ''name'' [] True],
         leaf ''load'' ''Load a saved layout'' [string_arg ''name'' [] True],
         leaf ''list'' ''List saved layouts'' []],
      Clap ''concept'' ''List, enable, or disable concept triggers'' []
        [leaf ''list'' ''List all concepts with enabled/disabled status'' [],
         leaf ''toggle'' ''Enable or disable a concept by name'' [string_arg ''name'' ''Concept name'' True]],
      Clap ''plugin'' ''Install, manage, and run plugins'' []
        [leaf ''install'' ''Install a plugin from a git repo, reviewed in the GUI''
           [string_arg ''target'' (''Plugin target: owner/repo, or owner/repo@ref where ref is any tag, branch, or commit SHA. '' @
              ''A bare owner/repo installs the default branch's latest'') True],
         leaf ''list'' ''List installed plugins'' [],
         leaf ''enable'' ''Enable a plugin'' [string_arg ''id'' ''Plugin id (owner/name)'' True],
         leaf ''disable'' ''Disable a plugin'' [string_arg ''id'' ''Plugin id (owner/name)'' True],
         leaf ''uninstall'' ''Remove a plugin and its per-plugin directories'' [string_arg ''id'' ''Plugin id (owner/name)'' True],
         leaf ''logs'' ''Show a plugin's log files''
           [string_arg ''id'' ''Plugin id (owner/name)'' True,
            (string_arg ''lines'' ''Lines of the newest log to show'' False)\<lparr>ca_default := [''50'']\<rparr>],
         leaf ''run'' ''Run one of the plugin's declared actions through the gpty CLI''
           [string_arg ''id'' ''Plugin id (owner/name)'' True, string_arg ''action'' ''The action's name in the manifest'' True],
         leaf ''validate'' ''Check a manifest file or plugin directory with the install validator''
           [string_arg ''path'' ''Path to a `gpty-plugin.toml`, or to the plugin directory holding it'' True]]]"

definition output_commands :: "clap_command list" where
  "output_commands =
     [leaf ''pane-read'' ''Read pane output (screen plus scrollback)''
        [string_arg ''pane_id'' ''Target pane ID, or a label unique across workspaces'' True,
         int_arg ''lines'' ''Max lines (1-2000)'' [''200'']],
      leaf ''pane-status'' ''Pane status; omit the pane for every pane's status''
        [string_arg ''pane_id'' ''Target pane ID, or a label unique across workspaces (omit for all panes)'' False],
      leaf ''state'' ''Declare this pane's agent state (run inside a pane; display only)''
        [string_arg ''value'' ''idle, working, needs-attention, completed, or failed'' True],
      leaf ''pane-run'' ''Run a command in a new terminal pane (executed through the configured shell)''
        [string_arg ''command'' ''Command to run'' True],
      leaf ''pane-wait'' ''Wait for a pane's output to match a regex pattern''
        [string_arg ''pane_id'' ''Target pane ID, or a label unique across workspaces'' True,
         string_arg ''pattern'' ''Regex pattern (Rust regex syntax, max 1024 chars)'' True,
         int_arg ''timeout_ms'' ''Server-side deadline in ms (100-60000)'' [''10000'']],
      leaf ''broadcast'' ''Inject text into every tagged terminal pane''
        [list_arg ''tags'' ''Comma-separated pane tags'' (Some (CHR '','')), string_arg ''text'' ''Text to send'' True]]"

definition vault_commands :: "clap_command list" where
  "vault_commands =
     [Clap ''vault'' ''Search a Markdown vault, read its notes, and curate link weights'' []
        [leaf ''search'' ''Search a vault's notes by text (indexes changed notes first)''
           [string_arg ''vault_path'' ''Vault directory (absolute path)'' True,
            string_arg ''pattern'' ''Search text; terms are ANDed and notes are stemmed'' True,
            int_arg ''limit'' ''Maximum results (1-500)'' [''20'']],
         leaf ''read'' ''Read one note from a vault''
           [string_arg ''vault_path'' ''Vault directory (absolute path)'' True,
            string_arg ''path'' ''Vault-relative note path (e.g. notes/idea.md)'' True],
         leaf ''weight'' ''Declare (or clear) a display weight for one vault link''
           [string_arg ''vault_path'' ''Vault directory (absolute path)'' True,
            string_arg ''src'' ''Vault-relative source note (e.g. notes/a.md)'' True,
            string_arg ''target'' ''Vault-relative target note (e.g. notes/b.md)'' True,
            int_arg ''weight''
              (''Declared weight, 1-100 (overrides the measured mention count for '' @
               ''edge thickness, layout stiffness and link-panel order only)'') [],
            (string_arg ''clear'' ''Remove the declaration instead of setting one'' False)
              \<lparr>ca_action := Sets_True, ca_parser := Parses_Bool\<rparr>]],
      leaf ''mcp'' ''Run as MCP server over stdio'' [],
      leaf ''version'' ''Print version info'' []]"

definition cli_tree :: "clap_command list" where
  "cli_tree = pane_commands @ group_commands @ output_commands @ vault_commands"

section \<open>The tools\<close>

record tool_def =
  td_name :: str
  td_about :: str
  td_command :: clap_command

definition tools_of :: "clap_command \<Rightarrow> tool_def list" where
  "tools_of sub =
     (if clap_name sub \<in> {''mcp'', ''schema'', ''state'', ''plugin''} then []
      else if clap_subs sub = [] then [\<lparr>td_name = clap_name sub, td_about = clap_about sub, td_command = sub\<rparr>]
      else map (\<lambda>n. \<lparr>td_name = clap_name sub @ ''-'' @ clap_name n, td_about = clap_about n, td_command = n\<rparr>) (clap_subs sub))"

definition tool_defs :: "clap_command list \<Rightarrow> tool_def list" where
  "tool_defs subs = concat (map tools_of subs)"

definition find_tool_command :: "str \<Rightarrow> clap_command option" where
  "find_tool_command tool = map_option td_command (find (\<lambda>d. td_name d = tool) (tool_defs cli_tree))"

text \<open>What one argument accepts.\<close>

datatype arg_kind = K_Text | K_Integer | K_Bool | K_List "byte option"

record arg_spec =
  sp_id :: str
  sp_kind :: arg_kind
  sp_help :: str
  sp_required :: bool
  sp_possible :: "str list"
  sp_default :: "json option"

fun kind_schema :: "arg_kind \<Rightarrow> json" where
  "kind_schema K_Text = JObj [(''type'', JStr ''string'')]"
| "kind_schema K_Integer = JObj [(''type'', JStr ''integer'')]"
| "kind_schema K_Bool = JObj [(''type'', JStr ''boolean'')]"
| "kind_schema (K_List _) = JObj [(''items'', JObj [(''type'', JStr ''string'')]), (''type'', JStr ''array'')]"

fun describe_kind :: "arg_kind \<Rightarrow> str" where
  "describe_kind K_Text = ''a string''"
| "describe_kind K_Integer = ''an integer''"
| "describe_kind K_Bool = ''a boolean''"
| "describe_kind (K_List _) = ''an array of strings''"

definition kind_of :: "clap_arg \<Rightarrow> arg_kind" where
  "kind_of a =
     (case ca_action a of
        Appends \<Rightarrow> K_List (ca_delimiter a)
      | Counts \<Rightarrow> K_Integer
      | Sets_True \<Rightarrow> K_Bool
      | Sets_False \<Rightarrow> K_Bool
      | Sets \<Rightarrow> (case ca_parser a of Parses_Bool \<Rightarrow> K_Bool | Parses_Int \<Rightarrow> K_Integer | Parses_Text \<Rightarrow> K_Text))"

definition split_delimited :: "str \<Rightarrow> byte option \<Rightarrow> json list" where
  "split_delimited s delim =
     (case delim of
        Some d \<Rightarrow> map JStr (filter (\<lambda>p. p \<noteq> []) (map trim (split_on d s)))
      | None \<Rightarrow> map JStr (split_whitespace s))"

definition default_of :: "clap_arg \<Rightarrow> json option" where
  "default_of a =
     (case ca_default a of
        [] \<Rightarrow> None
      | raw # _ \<Rightarrow>
          (case kind_of a of
             K_Bool \<Rightarrow> Some (JBool (raw = ''true'' \<or> raw = ''1''))
           | K_Integer \<Rightarrow> map_option JInt (parse_i64 raw)
           | K_List d \<Rightarrow> Some (JArr (split_delimited raw d))
           | K_Text \<Rightarrow> Some (JStr raw)))"

definition spec_of :: "clap_arg \<Rightarrow> arg_spec" where
  "spec_of a =
     \<lparr>sp_id = ca_id a, sp_kind = kind_of a, sp_help = ca_help a, sp_required = ca_required a,
      sp_possible = ca_possible a, sp_default = default_of a\<rparr>"

definition tool_args :: "clap_command \<Rightarrow> arg_spec list" where
  "tool_args c = map spec_of (clap_args c)"

text \<open>A \<open>serde_json\<close> map keeps its keys in order.\<close>

fun key_insert :: "str \<Rightarrow> json \<Rightarrow> (str \<times> json) list \<Rightarrow> (str \<times> json) list" where
  "key_insert k v [] = [(k, v)]"
| "key_insert k v ((k', v') # kvs) =
     (if k = k' then (k, v) # kvs
      else if k < k' then (k, v) # (k', v') # kvs
      else (k', v') # key_insert k v kvs)"

fun json_set :: "str \<Rightarrow> json \<Rightarrow> json \<Rightarrow> json" where
  "json_set k v (JObj kvs) = JObj (key_insert k v kvs)"
| "json_set k v j = j"

definition arg_schema :: "arg_spec \<Rightarrow> json" where
  "arg_schema s =
     (let s1 = json_set ''description'' (JStr (sp_help s)) (kind_schema (sp_kind s));
          s2 = (if sp_kind s \<noteq> K_Bool \<and> sp_possible s \<noteq> [] then json_set ''enum'' (JArr (map JStr (sp_possible s))) s1 else s1)
      in case sp_default s of Some d \<Rightarrow> json_set ''default'' d s2 | None \<Rightarrow> s2)"

definition build_args_schema :: "clap_command \<Rightarrow> (str \<times> json) list \<times> str list" where
  "build_args_schema c =
     (fold (\<lambda>s. key_insert (sp_id s) (arg_schema s)) (tool_args c) [],
      map sp_id (filter sp_required (tool_args c)))"

definition READ_ONLY_TOOLS :: "str list" where
  "READ_ONLY_TOOLS = [''concept-list'', ''daemon-status'', ''layout-list'', ''list-panes'', ''pane-read'', ''pane-status'',
     ''vault-read'', ''vault-search'', ''version'']"

definition DESTRUCTIVE_TOOLS :: "str list" where
  "DESTRUCTIVE_TOOLS = [''broadcast'', ''daemon-stop'', ''inject'', ''kill-pane'', ''layout-load'', ''pane-run'']"

definition tool_annotations :: "str \<Rightarrow> json" where
  "tool_annotations name =
     JObj [(''destructiveHint'', JBool (name \<in> set DESTRUCTIVE_TOOLS)), (''readOnlyHint'', JBool (name \<in> set READ_ONLY_TOOLS))]"

definition build_tool :: "str \<Rightarrow> str \<Rightarrow> (str \<times> json) list \<Rightarrow> str list \<Rightarrow> json" where
  "build_tool name desc properties req =
     JObj [(''annotations'', tool_annotations name), (''description'', JStr desc),
       (''inputSchema'', JObj [(''properties'', JObj properties), (''required'', JArr (map JStr req)), (''type'', JStr ''object'')]),
       (''name'', JStr name)]"

definition build_mcp_tools_inline :: "clap_command list \<Rightarrow> json" where
  "build_mcp_tools_inline subs =
     JObj [(''tools'', JArr (map (\<lambda>d. case build_args_schema (td_command d) of
        (ps, req) \<Rightarrow> build_tool (td_name d) (td_about d) ps req) (tool_defs subs)))]"

definition mcp_tool_names :: "clap_command list \<Rightarrow> str list" where
  "mcp_tool_names subs =
     (case Option.bind (jget (build_mcp_tools_inline subs) ''tools'') jarr of
        Some tools \<Rightarrow> List.map_filter (\<lambda>tool. Option.bind (jget tool ''name'') jstr) tools
      | None \<Rightarrow> [])"

lemma map_filter_Some: "(\<And>x. f (g x) = Some (h x)) \<Longrightarrow> List.map_filter f (map g xs) = map h xs"
  by (induction xs) simp_all

lemma built_tool_name:
  "Option.bind (jget (case build_args_schema (td_command d) of (ps, req) \<Rightarrow> build_tool (td_name d) (td_about d) ps req) ''name'') jstr =
     Some (td_name d)"
  by (simp add: build_tool_def split: prod.split)

lemma mcp_tool_names: "mcp_tool_names subs = map td_name (tool_defs subs)"
proof -
  have tools: "Option.bind (jget (build_mcp_tools_inline subs) ''tools'') jarr =
      Some (map (\<lambda>d. case build_args_schema (td_command d) of (ps, req) \<Rightarrow> build_tool (td_name d) (td_about d) ps req) (tool_defs subs))"
    by (simp add: build_mcp_tools_inline_def)
  show ?thesis unfolding mcp_tool_names_def tools option.case by (rule map_filter_Some) (rule built_tool_name)
qed

definition clap_command_to_json_schema :: "str \<Rightarrow> clap_command list \<Rightarrow> json" where
  "clap_command_to_json_schema about subs =
     JObj [(CHR ''$'' # ''schema'', JStr ''https://json-schema.org/draft/2020-12/schema''),
       (''description'', JStr about),
       (''oneOf'', JArr (map (\<lambda>sub. JObj
          [(''properties'', JObj
              [(''args'', JObj [(''additionalProperties'', JBool False), (''properties'', JObj (fst (build_args_schema sub))), (''type'', JStr ''object'')]),
               (''command'', JObj [(''const'', JStr (clap_name sub))])]),
           (''required'', JArr [JStr ''command''])]) subs)),
       (''title'', JStr ''gpty CLI''), (''type'', JStr ''object'')]"

definition schema_command :: "(json \<Rightarrow> str) \<Rightarrow> str \<Rightarrow> str \<Rightarrow> str + str" where
  "schema_command print about format =
     (if format = ''json-schema'' then Inr (print (clap_command_to_json_schema about cli_tree))
      else if format = ''mcp'' then Inr (print (build_mcp_tools_inline cli_tree))
      else Inl (''Unknown format: '' @ format @ ''. Use json-schema or mcp.''))"

section \<open>The arguments of a call\<close>

definition wire_key :: "str \<Rightarrow> str \<Rightarrow> str option" where
  "wire_key tool i = (if tool = ''new-pane'' \<and> i = ''pane_type'' then Some ''type'' else None)"

definition json_type :: "json \<Rightarrow> str" where
  "json_type v = json_kind v"

definition arg_mismatch :: "arg_spec \<Rightarrow> json \<Rightarrow> str" where
  "arg_mismatch s got =
     ''argument '' @ [CHR 0x27] @ sp_id s @ [CHR 0x27] @ '' must be '' @ describe_kind (sp_kind s) @ '', got '' @ json_type got"

definition unknown_argument :: "(str \<Rightarrow> str) \<Rightarrow> str \<Rightarrow> str \<Rightarrow> arg_spec list \<Rightarrow> str" where
  "unknown_argument lower tool i specs =
     (let names = map sp_id specs; q = (\<lambda>s. CHR 0x27 # s @ [CHR 0x27])
      in ''unknown argument '' @ q i @ '' for tool '' @ q tool @
         (case closest_match lower i names of Some near \<Rightarrow> '' '' @ DASH @ '' did you mean '' @ q near @ ''?'' | None \<Rightarrow> []) @
         '' (valid arguments: '' @ join_with '', '' names @ '')'')"

fun first_not_string :: "nat \<Rightarrow> json list \<Rightarrow> (nat \<times> json) option" where
  "first_not_string i [] = None"
| "first_not_string i (v # vs) = (if jstr v = None then Some (i, v) else first_not_string (i + 1) vs)"

definition coerce_arg :: "arg_spec \<Rightarrow> json \<Rightarrow> str + json" where
  "coerce_arg s v =
     (case sp_kind s of
        K_Text \<Rightarrow> (case v of JStr _ \<Rightarrow> Inr v | _ \<Rightarrow> Inl (arg_mismatch s v))
      | K_Integer \<Rightarrow> (case v of
            JStr t \<Rightarrow> map_err (\<lambda>_. arg_mismatch s v) (ok_or (map_option JInt (parse_i64 (trim t))) ())
          | JInt _ \<Rightarrow> Inr v
          | _ \<Rightarrow> Inl (arg_mismatch s v))
      | K_Bool \<Rightarrow> (case v of
            JBool _ \<Rightarrow> Inr v
          | JStr t \<Rightarrow> if t = ''true'' \<or> t = ''false'' then Inr (JBool (t = ''true'')) else Inl (arg_mismatch s v)
          | _ \<Rightarrow> Inl (arg_mismatch s v))
      | K_List delim \<Rightarrow> (case v of
            JArr items \<Rightarrow>
              (case first_not_string 0 items of
                 Some (at, item) \<Rightarrow> Inl (''argument '' @ [CHR 0x27] @ sp_id s @ [CHR 0x27] @ '' must be an array of strings; entry '' @
                   dec at @ '' is '' @ json_type item)
               | None \<Rightarrow> Inr v)
          | JStr t \<Rightarrow>
              (case delim of
                 Some d \<Rightarrow> Inr (JArr (split_delimited t (Some d)))
               | None \<Rightarrow> Inl (''argument '' @ [CHR 0x27] @ sp_id s @ [CHR 0x27] @ '' must be an array of strings, not one string (send ['' @
                   quoted ''a'' @ '', '' @ quoted ''b'' @ ''])''))
          | _ \<Rightarrow> Inl (arg_mismatch s v)))"

fun wire_loop :: "(str \<Rightarrow> str) \<Rightarrow> str \<Rightarrow> arg_spec list \<Rightarrow> (str \<times> json) list \<Rightarrow> (str \<times> json) list \<Rightarrow> str + (str \<times> json) list" where
  "wire_loop lower tool specs [] params = Inr params"
| "wire_loop lower tool specs ((i, v) # args) params =
     (case find (\<lambda>s. sp_id s = i) specs of
        None \<Rightarrow> Inl (unknown_argument lower tool i specs)
      | Some s \<Rightarrow>
          and_then (coerce_arg s v) (\<lambda>c.
            wire_loop lower tool specs args (key_insert (unwrap_or (wire_key tool i) i) c params)))"

definition apply_tool_rules :: "str \<Rightarrow> (str \<times> json) list \<Rightarrow> str + (str \<times> json) list" where
  "apply_tool_rules tool params =
     (if tool \<noteq> ''vault-weight'' then Inr params
      else
        (let weight = map_of params ''weight'';
             clear = unwrap_or (Option.bind (map_of params ''clear'') jbool) False;
             params1 = filter (\<lambda>(k, v). k \<noteq> ''clear'') params;
             q = (\<lambda>s. CHR 0x27 # s @ [CHR 0x27])
         in case weight of
              Some _ \<Rightarrow>
                if clear then Inl (''give one of '' @ q ''weight'' @ '' (an integer) or '' @ q ''clear'' @ '' (true), not both'')
                else Inr params1
            | None \<Rightarrow>
                if clear then Inr (key_insert ''weight'' JNull params1)
                else Inl (''give '' @ q ''weight'' @ '' to declare a weight, or '' @ q ''clear'' @ '' to remove one'')))"

definition wire_params :: "(str \<Rightarrow> str) \<Rightarrow> str \<Rightarrow> json \<Rightarrow> str + json" where
  "wire_params lower tool arguments =
     and_then (ok_or (find_tool_command tool) (''Unknown tool: '' @ tool)) (\<lambda>c.
     and_then (case arguments of
         JNull \<Rightarrow> Inr []
       | JObj args \<Rightarrow> wire_loop lower tool (tool_args c) args []
       | _ \<Rightarrow> Inl (''arguments must be a JSON object, got '' @ json_type arguments)) (\<lambda>params.
     and_then (apply_tool_rules tool params) (\<lambda>ps. Inr (JObj ps))))"

section \<open>The server\<close>

text \<open>The method behind a tool; \<open>upper\<close> is the upper case of a character beyond ASCII.\<close>

definition upper_char :: "(str \<Rightarrow> str) \<Rightarrow> str \<Rightarrow> str" where
  "upper_char upper c = (case c of [b] \<Rightarrow> if is_lower b then [char_of (code b - 32)] else [b] | _ \<Rightarrow> upper c)"

fun camel :: "(str \<Rightarrow> str) \<Rightarrow> str list \<Rightarrow> bool \<Rightarrow> str" where
  "camel upper [] next = []"
| "camel upper (c # cs) next =
     (if c = ''-'' then camel upper cs True
      else if next then upper_char upper c @ camel upper cs False
      else c @ camel upper cs False)"

definition tool_to_ipc_method :: "(str \<Rightarrow> str) \<Rightarrow> str \<Rightarrow> str" where
  "tool_to_ipc_method upper tool = camel upper (chars tool) False"

datatype tool_call_error = Malformed str | Transport str | Refused_Call rpc_err

text \<open>What the server runs in: a call over the control socket (with a time-out of its own, if any), a start of
  the interface, text, and the version.\<close>

record 'w mcp_env =
  me_call :: "nat option \<Rightarrow> str \<Rightarrow> json option \<Rightarrow> 'w \<Rightarrow> 'w \<times> (client_error + response)"
  me_start :: "'w \<Rightarrow> 'w \<times> (str + started)"
  me_span :: "nat \<Rightarrow> str"
  me_lower :: "str \<Rightarrow> str"
  me_upper :: "str \<Rightarrow> str"
  me_print :: "json \<Rightarrow> str"
  me_parse :: "str \<Rightarrow> str + request"
  me_version :: str

definition error_status :: "str \<Rightarrow> json" where
  "error_status e = JObj [(''error'', JStr e), (''status'', JStr ''error'')]"

definition refusal_text :: "response \<Rightarrow> str" where
  "refusal_text r = (case rs_error r of Some e \<Rightarrow> re_message e | None \<Rightarrow> ''unknown'')"

definition run_daemon_tool :: "'w mcp_env \<Rightarrow> str \<Rightarrow> 'w \<Rightarrow> 'w \<times> json option" where
  "run_daemon_tool env tool w =
     (if tool = ''daemon-start'' then
        (case me_start env w of (w1, r) \<Rightarrow> (w1, Some (case r of
            Inr (Already v) \<Rightarrow> JObj [(''status'', JStr ''already-running''), (''version'', JStr v)]
          | Inr (Launched v) \<Rightarrow> JObj [(''status'', JStr ''started''), (''version'', JStr v)]
          | Inl e \<Rightarrow> error_status e)))
      else if tool = ''daemon-stop'' then
        (case me_call env None ''shutdown'' (Some JNull) w of (w1, r) \<Rightarrow> (w1, Some (case r of
            Inr resp \<Rightarrow> if rs_error resp = None then JObj [(''status'', JStr ''stopped'')] else error_status (refusal_text resp)
          | Inl e \<Rightarrow> if is_not_running e then JObj [(''status'', JStr ''not running'')]
                      else error_status (client_error_text (me_span env) e))))
      else if tool = ''daemon-status'' then
        (case me_call env None ''version'' None w of (w1, r) \<Rightarrow> (w1, Some (case r of
            Inr resp \<Rightarrow>
              if rs_error resp = None
              then JObj [(''status'', JStr ''running''), (''version'', case response_text resp ''version'' of Some v \<Rightarrow> JStr v | None \<Rightarrow> JNull)]
              else error_status (refusal_text resp)
          | Inl e \<Rightarrow> if is_not_running e then JObj [(''status'', JStr ''not running'')]
                      else error_status (client_error_text (me_span env) e))))
      else (w, None))"

definition tool_content :: "str \<Rightarrow> json" where
  "tool_content s = JArr [JObj [(''text'', JStr s), (''type'', JStr ''text'')]]"

definition tool_result :: "(json \<Rightarrow> str) \<Rightarrow> json \<Rightarrow> bool \<Rightarrow> json" where
  "tool_result print v is_error =
     JObj ([(''content'', tool_content (case v of JStr s \<Rightarrow> s | _ \<Rightarrow> print v)), (''isError'', JBool is_error)] @
       (if jobj v \<noteq> None then [(''structuredContent'', v)] else []))"

definition tool_refusal :: "rpc_err \<Rightarrow> json" where
  "tool_refusal e =
     JObj [(''content'', tool_content (re_message e)), (''isError'', JBool True),
       (''structuredContent'', JObj [(''error'', JObj [(''code'', JInt (re_code e)), (''message'', JStr (re_message e))])])]"

definition INTERNAL_ERROR :: int where "INTERNAL_ERROR = - 32603"

definition tool_call_response :: "(json \<Rightarrow> str) \<Rightarrow> nat \<Rightarrow> tool_call_error + json \<Rightarrow> response" where
  "tool_call_response print i outcome =
     (case outcome of
        Inr v \<Rightarrow> build_response i (tool_result print v False)
      | Inl (Malformed m) \<Rightarrow> build_error i (rpc_err_new INVALID_PARAMS m)
      | Inl (Transport m) \<Rightarrow> build_error i (rpc_err_new INTERNAL_ERROR m)
      | Inl (Refused_Call e) \<Rightarrow> build_response i (tool_refusal e))"

definition dispatch_tool :: "'w mcp_env \<Rightarrow> str \<Rightarrow> json \<Rightarrow> 'w \<Rightarrow> 'w \<times> (tool_call_error + json)" where
  "dispatch_tool env tool arguments w =
     (case wire_params (me_lower env) tool arguments of
        Inl m \<Rightarrow> (w, Inl (Malformed m))
      | Inr params \<Rightarrow>
          (case me_call env None (tool_to_ipc_method (me_upper env) tool) (Some params) w of
             (w1, Inr resp) \<Rightarrow>
               (w1, case rs_error resp of Some e \<Rightarrow> Inl (Refused_Call e) | None \<Rightarrow> Inr (unwrap_or (rs_result resp) JNull))
           | (w1, Inl e) \<Rightarrow>
               (w1, Inl (Transport
                 (if is_not_running e then NO_GUI_HINT @ ''; call the daemon-start tool first''
                  else client_error_text (me_span env) e)))))"

definition MAX_MESSAGE_LEN :: nat where "MAX_MESSAGE_LEN = 64 * 1024"

definition discard_line :: "bytes \<Rightarrow> bytes" where
  "discard_line bs = (case split_once LF bs of Some (_, r) \<Rightarrow> r | None \<Rightarrow> [])"

text \<open>A call of a tool, and a request.\<close>

definition call_tool :: "'w mcp_env \<Rightarrow> nat \<Rightarrow> json \<Rightarrow> 'w \<Rightarrow> 'w \<times> response" where
  "call_tool env i params w =
     (let tool = unwrap_or (Option.bind (jget params ''name'') jstr) [];
          arguments = unwrap_or (jget params ''arguments'') JNull
      in if tool \<notin> set (mcp_tool_names cli_tree)
         then (w, build_error i (rpc_err_new INVALID_PARAMS (''Unknown tool: '' @ tool)))
         else (case run_daemon_tool env tool w of
             (w1, Some v) \<Rightarrow>
               (w1, build_response i (tool_result (me_print env) v (Option.bind (jget v ''status'') jstr = Some ''error'')))
           | (w1, None) \<Rightarrow>
               (case dispatch_tool env tool arguments w1 of
                  (w2, outcome) \<Rightarrow> (w2, tool_call_response (me_print env) i outcome))))"

definition mcp_answer :: "'w mcp_env \<Rightarrow> request \<Rightarrow> nat \<Rightarrow> 'w \<Rightarrow> 'w \<times> response" where
  "mcp_answer env req i w =
     (if rq_method req = ''tools/list'' then (w, build_response i (build_mcp_tools_inline cli_tree))
      else if rq_method req = ''tools/call'' then call_tool env i (unwrap_or (rq_params req) JNull) w
      else if rq_method req = ''initialize'' then
        (w, build_response i (JObj [(''capabilities'', JObj [(''tools'', JObj [])]), (''protocolVersion'', JStr ''2024-11-05''),
          (''serverInfo'', JObj [(''name'', JStr ''gpty''), (''version'', JStr (me_version env))])]))
      else (w, build_error i (rpc_err_new METHOD_NOT_FOUND (''Unknown MCP method: '' @ rq_method req))))"

text \<open>One line that is not too long.\<close>

definition mcp_line :: "'w mcp_env \<Rightarrow> bytes \<Rightarrow> 'w \<Rightarrow> 'w \<times> response option" where
  "mcp_line env raw w =
     (let line = trim (from_utf8_lossy raw)
      in if line = [] then (w, None)
         else (case me_parse env line of
             Inl e \<Rightarrow> (w, Some (build_error 0 (rpc_err_new PARSE_ERROR (''Parse error: '' @ e))))
           | Inr req \<Rightarrow>
               (case rq_id req of
                  None \<Rightarrow> (w, None)
                | Some i \<Rightarrow> (case mcp_answer env req i w of (w1, r) \<Rightarrow> (w1, Some r)))))"

text \<open>One turn of the loop: nothing at the end of the input, else the rest of it, and the response.\<close>

definition mcp_step :: "'w mcp_env \<Rightarrow> bytes \<Rightarrow> 'w \<Rightarrow> (bytes \<times> 'w \<times> response option) option" where
  "mcp_step env stream w =
     (case read_line MAX_MESSAGE_LEN stream of
        (line, rest) \<Rightarrow>
          if line = [] then None
          else if MAX_MESSAGE_LEN \<le> length line \<and> last line \<noteq> LF
          then Some (discard_line rest, w,
            Some (build_error 0 (rpc_err_new INVALID_REQUEST (''Request exceeds '' @ dec MAX_MESSAGE_LEN @ '' bytes''))))
          else (case mcp_line env line w of (w1, r) \<Rightarrow> Some (rest, w1, r)))"

lemma discard_line_length: "length (discard_line bs) \<le> length bs"
  by (auto simp: discard_line_def split_once_Some split: option.splits)

lemma mcp_step_shorter: "mcp_step env stream w = Some (rest, w1, r) \<Longrightarrow> length rest < length stream"
proof -
  assume s: "mcp_step env stream w = Some (rest, w1, r)"
  obtain line more where l: "read_line MAX_MESSAGE_LEN stream = (line, more)" by force
  have "stream = line @ more" using read_line_concat [OF l] .
  moreover have "line \<noteq> []" "rest = more \<or> rest = discard_line more"
    using s l by (auto simp: mcp_step_def split: if_splits prod.splits)
  ultimately show ?thesis using discard_line_length [of more] by (cases line) auto
qed

function mcp_run :: "'w mcp_env \<Rightarrow> bytes \<Rightarrow> 'w \<Rightarrow> 'w \<times> response list" where
  "mcp_run env stream w =
     (case mcp_step env stream w of
        None \<Rightarrow> (w, [])
      | Some (rest, w1, r) \<Rightarrow>
          (case mcp_run env rest w1 of
             (w2, rs) \<Rightarrow> (w2, (case r of Some x \<Rightarrow> [x] | None \<Rightarrow> []) @ rs)))"
  by pat_completeness auto
termination
  by (relation "measure (\<lambda>(env, stream, w). length stream)") (auto dest: mcp_step_shorter [OF sym] mcp_step_shorter)

declare mcp_run.simps [simp del]

section \<open>Lines\<close>

lemma mcp_run_end: "mcp_run env [] w = (w, [])"
proof -
  have "read_line MAX_MESSAGE_LEN [] = ([], [])" using read_line_concat [of MAX_MESSAGE_LEN "[]"] by (cases "read_line MAX_MESSAGE_LEN []") auto
  then show ?thesis by (subst mcp_run.simps) (simp add: mcp_step_def)
qed

text \<open>The reference: what each line gets, one after the other.\<close>

definition line_answer :: "'w mcp_env \<Rightarrow> bytes \<Rightarrow> 'w \<Rightarrow> 'w \<times> response option" where
  "line_answer env l w =
     (if length l < MAX_MESSAGE_LEN then mcp_line env (l @ [LF]) w
      else (w, Some (build_error 0 (rpc_err_new INVALID_REQUEST (''Request exceeds '' @ dec MAX_MESSAGE_LEN @ '' bytes'')))))"

fun answer_lines :: "'w mcp_env \<Rightarrow> bytes list \<Rightarrow> 'w \<Rightarrow> 'w \<times> response list" where
  "answer_lines env [] w = (w, [])"
| "answer_lines env (l # ls) w =
     (case line_answer env l w of
        (w1, r) \<Rightarrow> (case answer_lines env ls w1 of (w2, rs) \<Rightarrow> (w2, (case r of Some x \<Rightarrow> [x] | None \<Rightarrow> []) @ rs)))"

lemma mcp_step_line:
  assumes "LF \<notin> set l"
  shows "mcp_step env (l @ LF # rest) w = (case line_answer env l w of (w1, r) \<Rightarrow> Some (rest, w1, r))"
proof (cases "length l < MAX_MESSAGE_LEN")
  case True
  then have "read_line MAX_MESSAGE_LEN (l @ LF # rest) = (l @ [LF], rest)" by (rule read_line_frame [OF assms])
  then show ?thesis using True by (simp add: mcp_step_def line_answer_def)
next
  case False
  let ?a = "take MAX_MESSAGE_LEN l" and ?b = "drop MAX_MESSAGE_LEN l"
  have len: "length ?a = MAX_MESSAGE_LEN" using False by simp
  have "?a \<noteq> []" using len by (auto simp: MAX_MESSAGE_LEN_def)
  have lf: "LF \<notin> set ?a" "LF \<notin> set ?b" using assms by (auto dest: in_set_takeD in_set_dropD)
  then have "last ?a \<noteq> LF" using \<open>?a \<noteq> []\<close> last_in_set by metis
  have "read_line MAX_MESSAGE_LEN (?a @ (?b @ LF # rest)) = (?a, ?b @ LF # rest)" by (rule read_line_long [OF lf(1) len])
  then have rl: "read_line MAX_MESSAGE_LEN (l @ LF # rest) = (?a, ?b @ LF # rest)" by (simp flip: append_assoc)
  have "split_once LF (?b @ LF # rest) = Some (?b, rest)" using lf(2) by (simp add: split_once_Some)
  then have "discard_line (?b @ LF # rest) = rest" by (simp add: discard_line_def)
  then show ?thesis using rl False len \<open>?a \<noteq> []\<close> \<open>last ?a \<noteq> LF\<close> by (simp add: mcp_step_def line_answer_def)
qed

text \<open>C38: Every line is answered on its own.  Whatever the lines of the input hold and however long they are,
  the server answers them one by one, in order; a line that is too long costs one error and nothing
  of the lines after it.\<close>

theorem mcp_answers_line_by_line:
  assumes "list_all (\<lambda>l. LF \<notin> set l) ls"
  shows "mcp_run env (concat (map (\<lambda>l. l @ [LF]) ls)) w = answer_lines env ls w"
  using assms
proof (induction ls arbitrary: w)
  case Nil
  then show ?case by (simp add: mcp_run_end)
next
  case (Cons l ls)
  obtain w1 r where a: "line_answer env l w = (w1, r)" by force
  have lf: "LF \<notin> set l" using Cons(2) by simp
  have s: "mcp_step env (l @ LF # concat (map (\<lambda>l. l @ [LF]) ls)) w = Some (concat (map (\<lambda>l. l @ [LF]) ls), w1, r)"
    by (simp add: mcp_step_line [OF lf] a)
  have "mcp_run env (l @ LF # concat (map (\<lambda>l. l @ [LF]) ls)) w =
      (case mcp_run env (concat (map (\<lambda>l. l @ [LF]) ls)) w1 of (w2, rs) \<Rightarrow> (w2, (case r of Some x \<Rightarrow> [x] | None \<Rightarrow> []) @ rs))"
    by (subst mcp_run.simps) (simp add: s)
  then show ?case using Cons(1) [of w1] Cons(2) a by simp
qed

definition demo_mcp :: "nat mcp_env" where
  "demo_mcp =
     \<lparr>me_call = (\<lambda>t m p n. (n + 1, Inr (build_response 1 JNull))), me_start = (\<lambda>n. (n, Inr (Launched ''1.0''))),
      me_span = (\<lambda>_. []), me_lower = id, me_upper = id, me_print = (\<lambda>_. ''null''),
      me_parse = (\<lambda>t. if t = ''list'' then Inr \<lparr>rq_jsonrpc = ''2.0'', rq_id = Some 4, rq_method = ''tools/call'',
          rq_params = Some (JObj [(''name'', JStr ''list-panes'')]), rq_secret = None\<rparr> else Inl ''no''),
      me_version = ''1.0''\<rparr>"

theorem mcp_answers_line_by_line_witness:
  "map rs_id (snd (mcp_run demo_mcp (replicate 65536 (CHR ''x'') @ [LF] @ ''?'' @ [LF]) 0)) = [0, 0]"
proof -
  have l: "list_all (\<lambda>l. LF \<notin> set l) [replicate 65536 (CHR ''x''), ''?'']" by simp
  have "mcp_run demo_mcp (concat (map (\<lambda>l. l @ [LF]) [replicate 65536 (CHR ''x''), ''?''])) 0 =
      answer_lines demo_mcp [replicate 65536 (CHR ''x''), ''?''] 0"
    by (rule mcp_answers_line_by_line [OF l])
  moreover have "trim (from_utf8_lossy (''?'' @ [LF])) = ''?''" by code_simp
  ultimately show ?thesis
    by (simp add: line_answer_def MAX_MESSAGE_LEN_def mcp_line_def demo_mcp_def build_error_def)
qed

text \<open>The cap is said to be the control socket's own; a line of exactly that many bytes is refused here and
  read there.\<close>

lemma mcp_cap_is_one_byte_less:
  assumes "length l = MAX_REQUEST_LEN" "LF \<notin> set l" "utf8_valid (l @ [LF])" "trim (l @ [LF]) \<noteq> []"
    and "sv_parse sv (trim (l @ [LF])) = Inr req"
  shows "line_answer env l w =
      (w, Some (build_error 0 (rpc_err_new INVALID_REQUEST (''Request exceeds '' @ dec (length l) @ '' bytes'')))) \<and>
    handle_frame sv (l @ LF # rest) s = (rest, serve_request sv req s)"
proof -
  have "read_line (MAX_REQUEST_LEN + 1) (l @ LF # rest) = (l @ [LF], rest)"
    using read_line_frame [OF assms(2), of "MAX_REQUEST_LEN + 1" rest] assms(1) by simp
  then have "handle_frame sv (l @ LF # rest) s = (rest, serve_request sv req s)"
    using assms by (simp add: handle_frame_def)
  then show ?thesis using assms(1) by (simp add: line_answer_def MAX_MESSAGE_LEN_def MAX_REQUEST_LEN_def)
qed

section \<open>The tools and the interface\<close>

lemma tool_names:
  "mcp_tool_names cli_tree =
     [''new-pane'', ''list-panes'', ''kill-pane'', ''focus-pane'', ''inject'', ''daemon-start'', ''daemon-stop'', ''daemon-status'',
      ''layout-save'', ''layout-load'', ''layout-list'', ''concept-list'', ''concept-toggle'', ''pane-read'', ''pane-status'',
      ''pane-run'', ''pane-wait'', ''broadcast'', ''vault-search'', ''vault-read'', ''vault-weight'', ''version'']"
  unfolding mcp_tool_names by code_simp

lemma ascii_chars: "ascii s \<Longrightarrow> chars s = map (\<lambda>b. [b]) s"
  by (simp add: chars_def utf8_chunks_ascii)

text \<open>The methods of the tools that are not about the interface itself.\<close>

definition TOOL_METHODS :: "str list" where
  "TOOL_METHODS = [''newPane'', ''listPanes'', ''killPane'', ''focusPane'', ''inject'', ''layoutSave'', ''layoutLoad'', ''layoutList'',
     ''conceptList'', ''conceptToggle'', ''paneRead'', ''paneStatus'', ''paneRun'', ''paneWait'', ''broadcast'', ''vaultSearch'',
     ''vaultRead'', ''vaultWeight'', ''version'']"

lemma tool_methods:
  "map (tool_to_ipc_method upper) [''new-pane'', ''list-panes'', ''kill-pane'', ''focus-pane'', ''inject'',
      ''layout-save'', ''layout-load'', ''layout-list'', ''concept-list'', ''concept-toggle'', ''pane-read'', ''pane-status'',
      ''pane-run'', ''pane-wait'', ''broadcast'', ''vault-search'', ''vault-read'', ''vault-weight'', ''version''] = TOOL_METHODS"
  by (simp add: TOOL_METHODS_def tool_to_ipc_method_def ascii_chars ascii_def upper_char_def is_lower_def code_def) code_simp

text \<open>What every call leaves true, for the methods a call can name, is true after the whole input.\<close>

definition mcp_methods :: "str list" where "mcp_methods = ''shutdown'' # TOOL_METHODS"

lemma tool_method:
  assumes "tool \<in> set (mcp_tool_names cli_tree)" "tool \<notin> {''daemon-start'', ''daemon-stop'', ''daemon-status''}"
  shows "tool_to_ipc_method upper tool \<in> set TOOL_METHODS"
proof -
  have "tool \<in> set [''new-pane'', ''list-panes'', ''kill-pane'', ''focus-pane'', ''inject'',
      ''layout-save'', ''layout-load'', ''layout-list'', ''concept-list'', ''concept-toggle'', ''pane-read'', ''pane-status'',
      ''pane-run'', ''pane-wait'', ''broadcast'', ''vault-search'', ''vault-read'', ''vault-weight'', ''version'']"
    using assms unfolding tool_names by auto
  then show ?thesis unfolding tool_methods [of upper, symmetric] set_map by (rule imageI)
qed

definition mcp_keeps :: "('w \<Rightarrow> bool) \<Rightarrow> 'w mcp_env \<Rightarrow> bool" where
  "mcp_keeps I env \<longleftrightarrow>
     (\<forall>w m p. m \<in> set mcp_methods \<longrightarrow> I w \<longrightarrow> I (fst (me_call env None m p w))) \<and> (\<forall>w. I w \<longrightarrow> I (fst (me_start env w)))"

lemma call_keeps: "mcp_keeps I env \<Longrightarrow> me_call env None m p w = (w1, r) \<Longrightarrow> m \<in> set mcp_methods \<Longrightarrow> I w \<Longrightarrow> I w1"
  by (metis mcp_keeps_def fst_conv)

lemma start_keeps: "mcp_keeps I env \<Longrightarrow> me_start env w = (w1, r) \<Longrightarrow> I w \<Longrightarrow> I w1"
  by (metis mcp_keeps_def fst_conv)

lemma version_shutdown_methods: "''version'' \<in> set mcp_methods" "''shutdown'' \<in> set mcp_methods"
  by (simp_all add: mcp_methods_def TOOL_METHODS_def)

lemma run_daemon_tool_keeps:
  assumes "mcp_keeps I env" "I w" "run_daemon_tool env tool w = (w1, r)"
  shows "I w1"
  using assms(3,2)
  by (auto simp: run_daemon_tool_def split: if_splits prod.splits
      dest: call_keeps [OF assms(1)] start_keeps [OF assms(1)] intro: version_shutdown_methods)

lemma run_daemon_tool_None: "run_daemon_tool env tool w = (w1, None) \<Longrightarrow> w1 = w \<and> tool \<notin> {''daemon-start'', ''daemon-stop'', ''daemon-status''}"
  by (auto simp: run_daemon_tool_def split: if_splits prod.splits)

lemma dispatch_tool_keeps:
  assumes "mcp_keeps I env" "I w" "dispatch_tool env tool a w = (w1, r)" "tool_to_ipc_method (me_upper env) tool \<in> set mcp_methods"
  shows "I w1"
  using assms(3,2)
  by (auto simp: dispatch_tool_def split: sum.splits prod.splits dest: call_keeps [OF assms(1) _ assms(4)])

lemma call_tool_keeps:
  assumes "mcp_keeps I env" "I w" "call_tool env i params w = (w1, r)"
  shows "I w1"
proof -
  define tool where "tool = unwrap_or (Option.bind (jget params ''name'') jstr) []"
  define a where "a = unwrap_or (jget params ''arguments'') JNull"
  obtain w2 d where d: "run_daemon_tool env tool w = (w2, d)" by force
  have I2: "I w2" by (rule run_daemon_tool_keeps [OF assms(1,2) d])
  show ?thesis
  proof (cases "tool \<in> set (mcp_tool_names cli_tree) \<and> d = None")
    case True
    then have "tool_to_ipc_method (me_upper env) tool \<in> set mcp_methods"
      using tool_method [of tool "me_upper env"] run_daemon_tool_None [of env tool w w2] d by (simp add: mcp_methods_def)
    moreover obtain w3 x where x: "dispatch_tool env tool a w2 = (w3, x)" by force
    ultimately have "I w3" using dispatch_tool_keeps [OF assms(1) I2] by blast
    then show ?thesis using assms(3) True d x by (simp add: call_tool_def tool_def a_def)
  next
    case False
    then show ?thesis using assms(2,3) d I2
      by (auto simp: call_tool_def tool_def a_def Let_def split: if_splits option.splits)
  qed
qed

lemma mcp_step_keeps:
  assumes "mcp_keeps I env" "I w" "mcp_step env stream w = Some (rest, w1, r)"
  shows "I w1"
proof -
  have "I w2" if "mcp_line env l w = (w2, x)" for l w2 x
    using that assms(2)
    by (auto simp: mcp_line_def mcp_answer_def Let_def split: if_splits sum.splits option.splits prod.splits
        dest: call_tool_keeps [OF assms(1)])
  then show ?thesis using assms(2,3) by (auto simp: mcp_step_def split: if_splits prod.splits)
qed

lemma mcp_run_keeps:
  assumes "mcp_keeps I env" "I w"
  shows "I (fst (mcp_run env stream w))"
  using assms(2)
proof (induction "length stream" arbitrary: stream w rule: less_induct)
  case less
  show ?case
  proof (cases "mcp_step env stream w")
    case None
    then show ?thesis using less(2) by (subst mcp_run.simps) simp
  next
    case (Some a)
    obtain rest w1 r where a: "a = (rest, w1, r)" by (cases a)
    have s: "mcp_step env stream w = Some (rest, w1, r)" using Some a by simp
    have "I (fst (mcp_run env rest w1))"
      by (rule less(1) [OF mcp_step_shorter [OF s] mcp_step_keeps [OF assms(1) less(2) s]])
    then show ?thesis by (subst mcp_run.simps) (cases "mcp_run env rest w1", simp add: s)
  qed
qed

text \<open>C35: An agent reaches only what it was offered.  Whatever is written to the server's input, every call it
  makes over the control socket names the method of a tool it advertises, or the shutdown of one; so
  whatever those calls and a start of the interface leave true is true when the input ends.\<close>

theorem mcp_calls_only_its_tools:
  assumes "\<And>w m p. m \<in> set mcp_methods \<Longrightarrow> I w \<Longrightarrow> I (fst (me_call env None m p w))"
    and "\<And>w. I w \<Longrightarrow> I (fst (me_start env w))" and "I w"
  shows "I (fst (mcp_run env stream w)) \<and> set mcp_methods \<subseteq> set served_methods - {''pluginInstall'', ''pluginsChanged''}"
proof -
  have k: "mcp_keeps I env" using assms(1,2) by (simp add: mcp_keeps_def)
  have "I (fst (mcp_run env stream w))" by (rule mcp_run_keeps [OF k assms(3)])
  moreover have "set mcp_methods \<subseteq> set served_methods - {''pluginInstall'', ''pluginsChanged''}"
    by (simp add: mcp_methods_def TOOL_METHODS_def served_methods_def GDSCRIPT_METHODS_def)
  ultimately show ?thesis ..
qed

definition logging_mcp :: "str list mcp_env" where
  "logging_mcp =
     \<lparr>me_call = (\<lambda>t m p calls. (calls @ [m], Inr (build_response 1 JNull))), me_start = (\<lambda>calls. (calls, Inr (Launched ''1.0''))),
      me_span = (\<lambda>_. []), me_lower = id, me_upper = id, me_print = (\<lambda>_. ''null''),
      me_parse = (\<lambda>t. Inr \<lparr>rq_jsonrpc = ''2.0'', rq_id = Some 4, rq_method = ''tools/call'',
          rq_params = Some (JObj [(''name'', JStr t)]), rq_secret = None\<rparr>), me_version = ''1.0''\<rparr>"

theorem mcp_calls_only_its_tools_witness:
  "set (fst (mcp_run logging_mcp ''pluginInstall'' [])) \<subseteq> set mcp_methods"
  by (rule mcp_calls_only_its_tools [where I = "\<lambda>calls. set calls \<subseteq> set mcp_methods", THEN conjunct1])
    (simp_all add: logging_mcp_def)

section \<open>The arguments of a tool\<close>

text \<open>What fits a kind of argument.\<close>

fun fits :: "arg_kind \<Rightarrow> json \<Rightarrow> bool" where
  "fits K_Text (JStr _) = True"
| "fits K_Integer (JInt _) = True"
| "fits K_Bool (JBool _) = True"
| "fits (K_List _) (JArr vs) = list_all (\<lambda>v. jstr v \<noteq> None) vs"
| "fits _ _ = False"

lemma first_not_string: "first_not_string n vs = None \<longleftrightarrow> list_all (\<lambda>v. jstr v \<noteq> None) vs"
  by (induction vs arbitrary: n) auto

lemma coerce_arg_fits: "coerce_arg s v = Inr c \<Longrightarrow> fits (sp_kind s) c"
  by (cases "sp_kind s"; cases v)
    (auto simp: coerce_arg_def first_not_string split_delimited_def ok_or_def list_all_iff split: if_splits option.splits)

lemma coerce_arg_same: "fits (sp_kind s) v \<Longrightarrow> coerce_arg s v = Inr v"
  by (cases "sp_kind s"; cases v) (auto simp: coerce_arg_def first_not_string [of 0, THEN iffD2] split: option.splits)

lemma key_insert_set: "set (key_insert k v kvs) \<subseteq> insert (k, v) (set kvs)"
  by (induction k v kvs rule: key_insert.induct) auto

lemma key_insert_keys: "fst ` set (key_insert k v kvs) = insert k (fst ` set kvs)"
  by (induction k v kvs rule: key_insert.induct) auto

lemma key_insert_sorted: "sorted_wrt (<) (map fst kvs) \<Longrightarrow> sorted_wrt (<) (map fst (key_insert k v kvs))"
proof (induction k v kvs rule: key_insert.induct)
  case (2 k v k' v' kvs)
  consider "k = k'" | "k < k'" | "k \<noteq> k'" "\<not> k < k'" by blast
  then show ?case
  proof cases
    case 2
    then show ?thesis using \<open>sorted_wrt (<) (map fst ((k', v') # kvs))\<close> by (auto dest: less_trans)
  next
    case 3
    then have "k' < k" by simp
    moreover have "sorted_wrt (<) (map fst (key_insert k v kvs))" using 2 3 by simp
    ultimately show ?thesis using \<open>sorted_wrt (<) (map fst ((k', v') # kvs))\<close> 3
      by (auto simp: key_insert_keys)
  qed (use 2 in auto)
qed simp

definition key_of :: "str \<Rightarrow> str \<Rightarrow> str" where
  "key_of tool i = unwrap_or (wire_key tool i) i"

lemma wire_loop_typed:
  assumes "wire_loop lower tool specs args params = Inr ps"
    and "\<forall>(k, v) \<in> set params. \<exists>s \<in> set specs. k = key_of tool (sp_id s) \<and> fits (sp_kind s) v" "sorted_wrt (<) (map fst params)"
  shows "(\<forall>(k, v) \<in> set ps. \<exists>s \<in> set specs. k = key_of tool (sp_id s) \<and> fits (sp_kind s) v) \<and> sorted_wrt (<) (map fst ps)"
  using assms
proof (induction lower tool specs args params rule: wire_loop.induct)
  case (2 lower tool specs i v args params)
  obtain s c where s: "find (\<lambda>s. sp_id s = i) specs = Some s" and c: "coerce_arg s v = Inr c"
    and w: "wire_loop lower tool specs args (key_insert (key_of tool i) c params) = Inr ps"
    using 2(2) by (cases "find (\<lambda>s. sp_id s = i) specs") (auto simp: key_of_def and_then_Inr)
  have in_s: "s \<in> set specs" "sp_id s = i" using s by (auto simp: find_Some_iff)
  have "\<forall>(k, v) \<in> set (key_insert (key_of tool i) c params). \<exists>s \<in> set specs. k = key_of tool (sp_id s) \<and> fits (sp_kind s) v"
  proof -
    have "\<exists>s' \<in> set specs. key_of tool i = key_of tool (sp_id s') \<and> fits (sp_kind s') c"
      using in_s coerce_arg_fits [OF c] by blast
    then show ?thesis using 2(3) key_insert_set [of "key_of tool i" c params] by blast
  qed
  then show ?case
    by (intro 2(1) [OF s]) (use w key_insert_sorted [OF 2(4)] in \<open>simp_all add: key_of_def\<close>)
qed simp

lemma map_of_keys: "map_of kvs k = None \<longleftrightarrow> k \<notin> fst ` set kvs" "map_of kvs k = Some v \<Longrightarrow> (k, v) \<in> set kvs"
  by (simp add: map_of_eq_None_iff, rule map_of_SomeD)

lemma tool_rules_spec:
  assumes "apply_tool_rules tool params = Inr ps" "sorted_wrt (<) (map fst params)"
  shows "(\<forall>(k, v) \<in> set ps. (k, v) \<in> set params \<or> tool = ''vault-weight'' \<and> k = ''weight'' \<and> v = JNull) \<and>
    sorted_wrt (<) (map fst ps) \<and>
    (tool = ''vault-weight'' \<longrightarrow> ''weight'' \<in> fst ` set ps \<and> ''clear'' \<notin> fst ` set ps)"
proof (cases "tool = ''vault-weight''")
  case False
  then show ?thesis using assms by (auto simp: apply_tool_rules_def)
next
  case True
  define kept where "kept = filter (\<lambda>(k, v). k \<noteq> ''clear'') params"
  have kept: "set kept \<subseteq> set params" "''clear'' \<notin> fst ` set kept" by (auto simp: kept_def)
  have sorted: "sorted_wrt (<) (map fst kept)"
    using assms(2) by (simp add: kept_def sorted_wrt_map sorted_wrt_filter)
  show ?thesis
  proof (cases "map_of params ''weight''")
    case None
    then have ps: "ps = key_insert ''weight'' JNull kept" using assms(1) True by (auto simp: apply_tool_rules_def Let_def kept_def split: if_splits)
    have "\<forall>(k, v) \<in> set ps. (k, v) \<in> set params \<or> k = ''weight'' \<and> v = JNull"
      using kept(1) key_insert_set [of "''weight''" JNull kept] unfolding ps by blast
    moreover have "''weight'' \<in> fst ` set ps" "''clear'' \<notin> fst ` set ps" using kept(2) by (simp_all add: ps key_insert_keys)
    ultimately show ?thesis using True key_insert_sorted [OF sorted] by (simp add: ps)
  next
    case (Some v)
    then have ps: "ps = kept" using assms(1) True by (auto simp: apply_tool_rules_def Let_def kept_def split: if_splits)
    have "(''weight'', v) \<in> set kept" using map_of_keys(2) [OF Some] by (simp add: kept_def)
    then have "''weight'' \<in> fst ` set kept" by force
    then show ?thesis using kept True sorted by (auto simp: ps)
  qed
qed



section \<open>Tools and commands\<close>

text \<open>The call of a tool that says what a command says.  The command's own clamp of a wait, its old name of a pane type and
  its rule that clearing wins over a weight are left to the command.\<close>

definition opt_key :: "str \<Rightarrow> str option \<Rightarrow> (str \<times> json) list" where
  "opt_key k v = (case v of Some s \<Rightarrow> [(k, JStr s)] | None \<Rightarrow> [])"

definition tool_call_of :: "cli_command \<Rightarrow> (str \<times> (str \<times> json) list) option" where
  "tool_call_of c =
     (case c of
        New_Pane t cmd args split title focus tags \<Rightarrow>
          if t \<noteq> ''observer''
          then Some (''new-pane'', (if args \<noteq> [] then [(''args'', JArr (map JStr args))] else []) @ opt_key ''command'' cmd @
            [(''focus'', JBool focus), (''pane_type'', JStr t)] @ opt_key ''split'' split @ [(''tags'', JArr (map JStr tags))] @ opt_key ''title'' title)
          else None
      | List_Panes \<Rightarrow> Some (''list-panes'', [])
      | Kill_Pane p \<Rightarrow> Some (''kill-pane'', [(''pane_id'', JStr p)])
      | Focus_Pane p \<Rightarrow> Some (''focus-pane'', [(''pane_id'', JStr p)])
      | Inject p t \<Rightarrow> Some (''inject'', [(''pane_id'', JStr p), (''text'', JStr t)])
      | Pane_Read p n \<Rightarrow> Some (''pane-read'', [(''lines'', JInt n), (''pane_id'', JStr p)])
      | Pane_Status p \<Rightarrow> Some (''pane-status'', opt_key ''pane_id'' p)
      | Pane_Run cmd \<Rightarrow> Some (''pane-run'', [(''command'', JStr cmd)])
      | Pane_Wait p pattern t \<Rightarrow>
          if server_wait t = t
          then Some (''pane-wait'', [(''pane_id'', JStr p), (''pattern'', JStr pattern), (''timeout_ms'', JInt (int t))]) else None
      | Broadcast_Command tags t \<Rightarrow> Some (''broadcast'', [(''tags'', JArr (map JStr tags)), (''text'', JStr t)])
      | Concept_Command List_Concepts \<Rightarrow> Some (''concept-list'', [])
      | Concept_Command (Toggle_Concept n) \<Rightarrow> Some (''concept-toggle'', [(''name'', JStr n)])
      | Layout_Command (Save_Layout n) \<Rightarrow> Some (''layout-save'', [(''name'', JStr n)])
      | Layout_Command (Load_Layout n) \<Rightarrow> Some (''layout-load'', [(''name'', JStr n)])
      | Layout_Command List_Layouts \<Rightarrow> Some (''layout-list'', [])
      | Vault_Command (Search_Vault v pattern limit) \<Rightarrow>
          Some (''vault-search'', [(''limit'', JInt limit), (''pattern'', JStr pattern), (''vault_path'', JStr v)])
      | Vault_Command (Read_Note v path) \<Rightarrow> Some (''vault-read'', [(''path'', JStr path), (''vault_path'', JStr v)])
      | Vault_Command (Weigh_Link v src target weight clear) \<Rightarrow>
          (case weight of
             Some w \<Rightarrow> if clear then None
               else Some (''vault-weight'', [(''src'', JStr src), (''target'', JStr target), (''vault_path'', JStr v), (''weight'', JInt w)])
           | None \<Rightarrow> if clear
               then Some (''vault-weight'', [(''clear'', JBool True), (''src'', JStr src), (''target'', JStr target), (''vault_path'', JStr v)])
               else None)
      | _ \<Rightarrow> None)"

text \<open>The kinds of a tool's arguments.\<close>

definition tool_kinds :: "str \<Rightarrow> (str \<times> arg_kind) list option" where
  "tool_kinds tool = map_option (\<lambda>c. map (\<lambda>s. (sp_id s, sp_kind s)) (tool_args c)) (find_tool_command tool)"

lemma tool_kinds:
  "tool_kinds ''new-pane'' = Some [(''pane_type'', K_Text), (''command'', K_Text), (''args'', K_List None), (''split'', K_Text),
     (''title'', K_Text), (''focus'', K_Bool), (''tags'', K_List (Some (CHR '','')))]"
  "tool_kinds ''list-panes'' = Some []"
  "tool_kinds ''kill-pane'' = Some [(''pane_id'', K_Text)]"
  "tool_kinds ''focus-pane'' = Some [(''pane_id'', K_Text)]"
  "tool_kinds ''inject'' = Some [(''pane_id'', K_Text), (''text'', K_Text)]"
  "tool_kinds ''pane-read'' = Some [(''pane_id'', K_Text), (''lines'', K_Integer)]"
  "tool_kinds ''pane-status'' = Some [(''pane_id'', K_Text)]"
  "tool_kinds ''pane-run'' = Some [(''command'', K_Text)]"
  "tool_kinds ''pane-wait'' = Some [(''pane_id'', K_Text), (''pattern'', K_Text), (''timeout_ms'', K_Integer)]"
  "tool_kinds ''broadcast'' = Some [(''tags'', K_List (Some (CHR '',''))), (''text'', K_Text)]"
  "tool_kinds ''concept-list'' = Some []"
  "tool_kinds ''concept-toggle'' = Some [(''name'', K_Text)]"
  "tool_kinds ''layout-save'' = Some [(''name'', K_Text)]"
  "tool_kinds ''layout-load'' = Some [(''name'', K_Text)]"
  "tool_kinds ''layout-list'' = Some []"
  "tool_kinds ''vault-search'' = Some [(''vault_path'', K_Text), (''pattern'', K_Text), (''limit'', K_Integer)]"
  "tool_kinds ''vault-read'' = Some [(''vault_path'', K_Text), (''path'', K_Text)]"
  "tool_kinds ''vault-weight'' = Some [(''vault_path'', K_Text), (''src'', K_Text), (''target'', K_Text), (''weight'', K_Integer), (''clear'', K_Bool)]"
  by code_simp+

text \<open>Arguments that fit are sent as they are.\<close>

lemma wire_loop_sends:
  "list_all (\<lambda>(i, v). \<exists>k. map_of (map (\<lambda>s. (sp_id s, sp_kind s)) specs) i = Some k \<and> fits k v) args \<Longrightarrow>
     wire_loop lower tool specs args params = Inr (foldl (\<lambda>ps (i, v). key_insert (key_of tool i) v ps) params args)"
proof (induction args arbitrary: params)
  case (Cons a args)
  obtain i v where a: "a = (i, v)" by (cases a)
  obtain s where s: "find (\<lambda>s. sp_id s = i) specs = Some s" "fits (sp_kind s) v"
  proof -
    obtain k where k: "map_of (map (\<lambda>s. (sp_id s, sp_kind s)) specs) i = Some k" "fits k v" using Cons(2) a by auto
    from k(1) have "\<exists>s. find (\<lambda>s. sp_id s = i) specs = Some s \<and> sp_kind s = k" by (induction specs) (auto split: if_splits)
    then show thesis using that k(2) by blast
  qed
  show ?case using Cons by (simp add: a s(1) coerce_arg_same [OF s(2)] key_of_def)
qed simp

lemma wire_params_sends:
  assumes "tool_kinds tool = Some kinds" "list_all (\<lambda>(i, v). \<exists>k. map_of kinds i = Some k \<and> fits k v) args"
  shows "wire_params lower tool (JObj args) =
    and_then (apply_tool_rules tool (foldl (\<lambda>ps (i, v). key_insert (key_of tool i) v ps) [] args)) (\<lambda>ps. Inr (JObj ps))"
proof -
  obtain c where c: "find_tool_command tool = Some c" "kinds = map (\<lambda>s. (sp_id s, sp_kind s)) (tool_args c)"
    using assms(1) by (auto simp: tool_kinds_def)
  show ?thesis using wire_loop_sends [of "tool_args c" args lower tool "[]"] assms(2) c
    by (simp add: wire_params_def ok_or_def)
qed

lemma strings_fit: "fits (K_List d) (JArr (map JStr xs))"
  by (simp add: list_all_iff)

lemma opt_key_simps [simp]: "opt_key k None = []" "opt_key k (Some v) = [(k, JStr v)]"
  by (simp_all add: opt_key_def)

lemma new_pane_params:
  "wire_params lower ''new-pane'' (JObj ((if args \<noteq> [] then [(''args'', JArr (map JStr args))] else []) @ opt_key ''command'' cmd @
      [(''focus'', JBool focus), (''pane_type'', JStr t)] @ opt_key ''split'' split @ [(''tags'', JArr (map JStr tags))] @ opt_key ''title'' title)) =
    Inr (JObj ((if args \<noteq> [] then [(''args'', JArr (map JStr args))] else []) @ opt_key ''command'' cmd @
      [(''focus'', JBool focus)] @ opt_key ''split'' split @ [(''tags'', JArr (map JStr tags))] @ opt_key ''title'' title @ [(''type'', JStr t)]))"
  by (cases "args = []"; cases cmd; cases split; cases title)
    (simp_all add: wire_params_sends [OF tool_kinds(1)] strings_fit del: fits.simps(4) add: apply_tool_rules_def key_of_def wire_key_def)

lemma tool_sends:
  assumes "tool_call_of c = Some (tool, args)" "dispatch_command lower c = Some (Inr k)"
  shows "wire_params lower' tool (JObj args) = Inr (unwrap_or (ic_params k) (JObj []))"
proof (cases c)
  case (New_Pane t cmd as split title focus tags)
  have t: "t \<noteq> ''observer''" using assms(1) by (auto simp: New_Pane tool_call_of_def)
  have call: "(''new-pane'', (if as \<noteq> [] then [(''args'', JArr (map JStr as))] else []) @ opt_key ''command'' cmd @
      [(''focus'', JBool focus), (''pane_type'', JStr t)] @ opt_key ''split'' split @ [(''tags'', JArr (map JStr tags))] @ opt_key ''title'' title) =
      (tool, args)"
    using assms(1) t by (simp add: New_Pane tool_call_of_def)
  have "t \<in> set valid_types" using assms(2) by (auto simp: New_Pane dispatch_command_def new_pane_call_def split: if_splits)
  then have "plain_call ''newPane'' ((if as \<noteq> [] then [(''args'', JArr (map JStr as))] else []) @ opt_key ''command'' cmd @
      [(''focus'', JBool focus)] @ opt_key ''split'' split @ [(''tags'', JArr (map JStr tags))] @ opt_key ''title'' title @ [(''type'', JStr t)]) = k"
    using assms(2) t by (simp add: New_Pane dispatch_command_def new_pane_call_def opt_key_def)
  then show ?thesis using call new_pane_params [of lower' as cmd focus t split tags title] by (auto simp: call_method)
qed (use assms in \<open>auto simp: tool_call_of_def dispatch_command_def call_method pane_wait_call_def vault_call_def concept_call_def layout_call_def
    wire_params_sends tool_kinds strings_fit list_all_iff apply_tool_rules_def key_of_def wire_key_def opt_key_def
    split: option.splits if_splits concept_action.splits layout_action.splits vault_action.splits\<close>)

lemma tool_method_of:
  assumes "tool_call_of c = Some (tool, args)" "dispatch_command lower c = Some (Inr k)"
  shows "tool_to_ipc_method upper tool = ic_method k"
  using assms tool_methods [of upper]
  by (cases c) (auto simp: TOOL_METHODS_def tool_call_of_def dispatch_command_def call_method new_pane_call_def pane_wait_call_def vault_call_def
      concept_call_def layout_call_def split: option.splits if_splits concept_action.splits layout_action.splits vault_action.splits)



text \<open>The command that waits for a pane gives its client longer than the server waits; the tool of the same wait
  keeps the client's own time-out, five seconds unless it was set, and is told of a failed connection when that is shorter.\<close>

lemma waiting_tool_keeps_the_timeout:
  assumes "server_wait t = t"
    and "\<And>ps. me_call env None ''paneWait'' ps w = (w1, Inl (Timed_Out d))"
  shows "dispatch_tool env ''pane-wait'' (JObj [(''pane_id'', JStr p), (''pattern'', JStr pat), (''timeout_ms'', JInt (int t))]) w =
      (w1, Inl (Transport (client_error_text (me_span env) (Timed_Out d)))) \<and>
    ic_timeout (pane_wait_call p pat t) = Some (t + 2000)"
proof -
  have c: "tool_call_of (Pane_Wait p pat t) =
      Some (''pane-wait'', [(''pane_id'', JStr p), (''pattern'', JStr pat), (''timeout_ms'', JInt (int t))])"
    using assms(1) by (simp add: tool_call_of_def)
  have k: "dispatch_command id (Pane_Wait p pat t) = Some (Inr (pane_wait_call p pat t))" by (simp add: dispatch_command_def)
  have "tool_to_ipc_method (me_upper env) ''pane-wait'' = ''paneWait''"
    using tool_method_of [OF c k] by (simp add: pane_wait_call_def)
  then show ?thesis using tool_sends [OF c k, of "me_lower env"] assms
    by (simp add: dispatch_tool_def pane_wait_call_def)
qed

end
