(* ===== verification/Cli_Main.thy ===== *)
theory Cli_Main
  imports Mcp_Server
begin

text \<open>
  One run of the command line client, \<open>main\<close> of \<open>crates/gpty-cli/src/main.rs\<close>: which commands are handled by
  themselves, when the interface is started first, the call of the others and what is printed of its
  answer, and the exit code.  What starting, calling, the plugin commands and the server over standard input do is a parameter over
  a state of the caller's choice.
\<close>

section \<open>What a command prints\<close>

definition jstr_or :: "json \<Rightarrow> str \<Rightarrow> str \<Rightarrow> str" where
  "jstr_or v k d = unwrap_or (Option.bind (jget v k) jstr) d"

definition jnumber :: "json \<Rightarrow> str \<Rightarrow> int" where
  "jnumber v k = unwrap_or (Option.bind (jget v k) ji64) 0"

text \<open>\<open>list-panes\<close>: one line of the table, and the lines of the answer.\<close>

definition pane_line :: "json \<Rightarrow> str" where
  "pane_line p =
     (let focused = unwrap_or (Option.bind (jget p ''focused'') jbool) False;
          number = (\<lambda>k. pad_left 3 (dec_int (jnumber p k)))
      in (if focused then ''*'' else '' '') @ pad_to 5 (jstr_or p ''id'' ''?'') @ '' '' @ pad_to 14 (jstr_or p ''type'' ''?'') @ '' '' @
         pad_to 20 (jstr_or p ''title'' []) @ '' '' @ number ''col'' @ '' '' @ number ''row'' @ '' '' @ number ''cspan'' @ '' '' @ number ''rspan'' @
         ''  '' @ (if focused then ''true'' else ''false''))"

definition PANE_HEADER :: "str list" where
  "PANE_HEADER =
     [pad_to 6 ''ID'' @ '' '' @ pad_to 14 ''TYPE'' @ '' '' @ pad_to 20 ''TITLE'' @ '' '' @ ''COL'' @ '' '' @ ''ROW'' @ '' '' @ pad_left 3 ''CW'' @
      '' '' @ pad_left 3 ''RH'' @ ''  FOCUS'',
      replicate 80 (CHR ''-'')]"

definition list_panes_lines :: "(response \<Rightarrow> str) \<Rightarrow> (json \<Rightarrow> str) \<Rightarrow> bool \<Rightarrow> response \<Rightarrow> str list" where
  "list_panes_lines print_response print_json as_json r =
     (if as_json then [print_response r]
      else if rs_error r = None
      then (case rs_result r of
          None \<Rightarrow> []
        | Some result \<Rightarrow>
            (case Option.bind (jget result ''panes'') jarr of
               Some [] \<Rightarrow> [''No panes.'']
             | Some panes \<Rightarrow> PANE_HEADER @ map pane_line panes
             | None \<Rightarrow> [print_json result]))
      else [])"

text \<open>\<open>layout list\<close>.\<close>

definition layout_lines :: "(response \<Rightarrow> str) \<Rightarrow> bool \<Rightarrow> response \<Rightarrow> str list" where
  "layout_lines print_response as_json r =
     (if as_json then [print_response r]
      else if rs_error r = None
      then (case Option.bind (rs_result r) (\<lambda>v. Option.bind (jget v ''layouts'') jarr) of
          Some ls \<Rightarrow> List.map_filter jstr ls
        | None \<Rightarrow> [])
      else [])"

text \<open>What a command prints of its answer, and whether the answer fails it.\<close>

definition command_prints :: "(response \<Rightarrow> str) \<Rightarrow> (json \<Rightarrow> str) \<Rightarrow> bool \<Rightarrow> cli_command \<Rightarrow> response \<Rightarrow> str list \<times> (str + unit)" where
  "command_prints print_response print_json as_json c r =
     (case c of
        List_Panes \<Rightarrow> (list_panes_lines print_response print_json as_json r, check_error r)
      | Layout_Command List_Layouts \<Rightarrow> (layout_lines print_response as_json r, check_error r)
      | _ \<Rightarrow> (case format_response print_response print_json as_json r of
               (out, x) \<Rightarrow> (case out of Some t \<Rightarrow> [t] | None \<Rightarrow> [], x)))"

section \<open>One run\<close>

text \<open>Why a command failed: an error of the client, or a text.\<close>

type_synonym cli_failure = "client_error + str"

definition report_failure :: "(nat \<Rightarrow> str) \<Rightarrow> cli_failure \<Rightarrow> str" where
  "report_failure span e = (case e of Inl c \<Rightarrow> report_error span c | Inr t \<Rightarrow> ''error: '' @ t)"

record 'w cli_env =
  ce_version :: str
  ce_about :: str
  ce_env :: "str \<Rightarrow> str option"
  ce_span :: "nat \<Rightarrow> str"
  ce_lower :: "str \<Rightarrow> str"
  ce_print :: "json \<Rightarrow> str"
  ce_print_response :: "response \<Rightarrow> str"
  ce_ensure :: "'w \<Rightarrow> 'w \<times> (str + unit)"
  ce_warn :: "'w \<Rightarrow> 'w"
  ce_call :: "nat option \<Rightarrow> str \<Rightarrow> json option \<Rightarrow> 'w \<Rightarrow> 'w \<times> (client_error + response)"
  ce_declare :: "credentials \<Rightarrow> ipc_call \<Rightarrow> 'w \<Rightarrow> 'w \<times> (client_error + response)"
  ce_mcp :: "'w \<Rightarrow> 'w \<times> (str + unit)"
  ce_plugin :: "'w \<Rightarrow> 'w \<times> (cli_failure + str list)"
  ce_daemon :: "daemon_action \<Rightarrow> 'w \<Rightarrow> 'w \<times> (str + nat \<times> str list)"

text \<open>What a run leaves: the lines it printed, the line it printed as an error, and its exit code.\<close>

record cli_result =
  cr_out :: "str list"
  cr_err :: "str option"
  cr_code :: nat

definition prints :: "str list \<Rightarrow> cli_result" where
  "prints out = \<lparr>cr_out = out, cr_err = None, cr_code = 0\<rparr>"

definition fails :: "str list \<Rightarrow> str \<Rightarrow> cli_result" where
  "fails out e = \<lparr>cr_out = out, cr_err = Some e, cr_code = 1\<rparr>"

text \<open>The commands that make a call.\<close>

definition run_dispatch :: "'w cli_env \<Rightarrow> bool \<Rightarrow> cli_command \<Rightarrow> str + ipc_call \<Rightarrow> 'w \<Rightarrow> 'w \<times> cli_result" where
  "run_dispatch env as_json c plan w =
     (case plan of
        Inl e \<Rightarrow> (w, fails [] (report_failure (ce_span env) (Inr e)))
      | Inr k \<Rightarrow>
          (case ce_call env (ic_timeout k) (ic_method k) (ic_params k) w of
             (w1, Inl e) \<Rightarrow> (w1, fails [] (report_failure (ce_span env) (Inl e)))
           | (w1, Inr r) \<Rightarrow>
               (case command_prints (ce_print_response env) (ce_print env) as_json c r of
                  (out, Inl e) \<Rightarrow> (w1, fails out (report_failure (ce_span env) (Inr e)))
                | (out, Inr _) \<Rightarrow> (w1, prints out))))"

definition run_generic :: "'w cli_env \<Rightarrow> bool \<Rightarrow> bool \<Rightarrow> cli_command \<Rightarrow> str + ipc_call \<Rightarrow> 'w \<Rightarrow> 'w \<times> cli_result" where
  "run_generic env as_json no_daemon c plan w =
     (if starts_gui no_daemon c
      then (case ce_ensure env w of
          (w1, Inl e) \<Rightarrow> (w1, fails [] (''error: '' @ e))
        | (w1, Inr _) \<Rightarrow> run_dispatch env as_json c plan (ce_warn env w1))
      else run_dispatch env as_json c plan (ce_warn env w))"

definition cli_main :: "'w cli_env \<Rightarrow> bool \<Rightarrow> bool \<Rightarrow> cli_command option \<Rightarrow> 'w \<Rightarrow> 'w \<times> cli_result" where
  "cli_main env as_json no_daemon cmd w =
     (case cmd of
        None \<Rightarrow> (w, \<lparr>cr_out = [], cr_err = None, cr_code = 2\<rparr>)
      | Some (Schema_Command format) \<Rightarrow>
          (w, case schema_command (ce_print env) (ce_about env) format of Inr t \<Rightarrow> prints [t] | Inl e \<Rightarrow> fails [] e)
      | Some Version_Command \<Rightarrow> (w, prints [''gpty '' @ ce_version env, ''protocol: '' @ PROTOCOL])
      | Some Mcp_Command \<Rightarrow>
          (case ce_mcp env w of (w1, Inr _) \<Rightarrow> (w1, prints []) | (w1, Inl e) \<Rightarrow> (w1, fails [] (''mcp error: '' @ e)))
      | Some (State_Command value) \<Rightarrow>
          (case state_command (ce_env env) value of
             Inl e \<Rightarrow> (w, fails [] e)
           | Inr (c, k) \<Rightarrow>
               (case ce_declare env c k w of
                  (w1, answer) \<Rightarrow>
                    (w1, case declare_answer (ce_span env) (ce_print_response env) as_json c value answer of
                       Inr t \<Rightarrow> prints [t] | Inl e \<Rightarrow> fails [] e)))
      | Some Plugin_Command \<Rightarrow>
          (case ce_plugin env w of
             (w1, Inr out) \<Rightarrow> (w1, prints out)
           | (w1, Inl e) \<Rightarrow> (w1, fails [] (report_failure (ce_span env) e)))
      | Some (Daemon_Command a) \<Rightarrow>
          (case ce_daemon env a w of
             (w1, Inr (n, out)) \<Rightarrow> (w1, \<lparr>cr_out = out, cr_err = None, cr_code = n\<rparr>)
           | (w1, Inl e) \<Rightarrow> (w1, fails [] (''error: '' @ e)))
      | Some c \<Rightarrow>
          (case dispatch_command (ce_lower env) c of
             Some plan \<Rightarrow> run_generic env as_json no_daemon c plan w
           | None \<Rightarrow> (w, prints [])))"

text \<open>The last branch cannot be reached: every command is handled by itself or makes a call.\<close>

lemma dispatch_is_total:
  "dispatch_command lower c = None \<longleftrightarrow>
     (\<exists>f. c = Schema_Command f) \<or> c = Version_Command \<or> c = Mcp_Command \<or> (\<exists>v. c = State_Command v) \<or> c = Plugin_Command \<or>
     (\<exists>a. c = Daemon_Command a)"
  by (cases c) (simp_all add: dispatch_command_def)

section \<open>What a run does\<close>

lemma fails_code [simp]: "cr_code (fails out e) = 1" "cr_err (fails out e) = Some e" "cr_out (fails out e) = out"
  by (simp_all add: fails_def)

lemma prints_code [simp]: "cr_code (prints out) = 0" "cr_err (prints out) = None" "cr_out (prints out) = out"
  by (simp_all add: prints_def)

text \<open>A window opens only for a command that can use one.  A run whose command is neither a new pane nor the load
  of a layout, or that was told not to start anything, goes the same way whatever starting the interface would do; the
  explicit start is the daemon's own command, and the plugin commands ask for it themselves.\<close>

theorem run_opens_no_window:
  assumes "\<forall>c. cmd = Some c \<longrightarrow> \<not> starts_gui no_daemon c"
  shows "cli_main (env\<lparr>ce_ensure := other\<rparr>) as_json no_daemon cmd w = cli_main env as_json no_daemon cmd w"
proof (cases cmd)
  case (Some c)
  then have "\<not> starts_gui no_daemon c" using assms by simp
  then have "run_generic (env\<lparr>ce_ensure := other\<rparr>) as_json no_daemon c plan w = run_generic env as_json no_daemon c plan w" for plan
    by (auto simp: run_generic_def run_dispatch_def split: sum.split prod.split)
  then show ?thesis using Some by (cases c) (auto simp: cli_main_def split: sum.split prod.split option.split)
qed (simp add: cli_main_def)

definition demo_cli :: "str list cli_env" where
  "demo_cli =
     \<lparr>ce_version = ''1.0'', ce_about = [], ce_env = (\<lambda>_. None), ce_span = (\<lambda>_. []), ce_lower = id, ce_print = (\<lambda>_. ''v''), ce_print_response = (\<lambda>_. ''r''),
      ce_ensure = (\<lambda>w. (w @ [''start''], Inr ())), ce_warn = id, ce_call = (\<lambda>t m p w. (w @ [m], Inr (build_response 1 JNull))),
      ce_declare = (\<lambda>c k w. (w, Inr (build_response 1 JNull))), ce_mcp = (\<lambda>w. (w, Inr ())), ce_plugin = (\<lambda>w. (w, Inr [])),
      ce_daemon = (\<lambda>a w. (w, Inr (0, [])))\<rparr>"

theorem run_opens_no_window_witness:
  "fst (cli_main demo_cli False True (Some (Layout_Command (Load_Layout ''work''))) []) = [''layoutLoad'']"
proof -
  let ?c = "Some (Layout_Command (Load_Layout ''work''))"
  have "cli_main (demo_cli\<lparr>ce_ensure := \<lambda>w. (w, Inl ''no'')\<rparr>) False True ?c [] = cli_main demo_cli False True ?c []"
    by (rule run_opens_no_window) (simp add: starts_gui_def)
  then show ?thesis
    by (simp add: cli_main_def dispatch_command_def layout_call_def plain_call_def run_generic_def starts_gui_def run_dispatch_def demo_cli_def
        command_prints_def format_response_def check_error_def build_response_def)
qed

text \<open>C39: The exit code tells.  A command that makes a call ends with success exactly when it was answered and the
  answer carries no error, with \<open>--json\<close> as without; a failure prints one line of why, and with \<open>--json\<close> the answer is printed first.\<close>

theorem exit_code_tells:
  assumes "dispatch_command (ce_lower env) c = Some plan"
    and "run_dispatch env as_json c plan w = (w1, res)"
  shows "(cr_code res = 0 \<longleftrightarrow>
      (\<exists>k r. plan = Inr k \<and> snd (ce_call env (ic_timeout k) (ic_method k) (ic_params k) w) = Inr r \<and> rs_error r = None)) \<and>
    (cr_code res = 0 \<longleftrightarrow> cr_err res = None) \<and>
    (\<forall>k r. as_json \<longrightarrow> plan = Inr k \<longrightarrow> snd (ce_call env (ic_timeout k) (ic_method k) (ic_params k) w) = Inr r \<longrightarrow>
      cr_out res = [ce_print_response env r])"
proof (cases plan)
  case (Inl e)
  then show ?thesis using assms(2) by (auto simp: run_dispatch_def)
next
  case (Inr k)
  obtain w2 answer where a: "ce_call env (ic_timeout k) (ic_method k) (ic_params k) w = (w2, answer)" by force
  show ?thesis
  proof (cases answer)
    case (Inl e)
    then show ?thesis using assms(2) Inr a by (auto simp: run_dispatch_def)
  next
    case (Inr r)
    obtain out x where p: "command_prints (ce_print_response env) (ce_print env) as_json c r = (out, x)" by force
    have x: "x = check_error r" and out: "as_json \<Longrightarrow> out = [ce_print_response env r]"
      using p by (auto simp: command_prints_def format_response_def list_panes_lines_def layout_lines_def
          split: cli_command.splits layout_action.splits)
    have "x = Inr () \<longleftrightarrow> rs_error r = None" by (simp add: x check_error_def split: option.splits)
    then show ?thesis using assms(2) \<open>plan = Inr k\<close> a Inr p out by (cases x) (auto simp: run_dispatch_def)
  qed
qed

theorem exit_code_tells_witness:
  "cr_code (snd (run_dispatch demo_cli True List_Panes (Inr \<lparr>ic_timeout = None, ic_method = ''listPanes'', ic_params = None\<rparr>) [])) = 0"
proof -
  let ?k = "\<lparr>ic_timeout = None, ic_method = ''listPanes'', ic_params = None\<rparr>"
  obtain w1 res where r: "run_dispatch demo_cli True List_Panes (Inr ?k) [] = (w1, res)" by force
  have "dispatch_command (ce_lower demo_cli) List_Panes = Some (Inr ?k)" by (simp add: dispatch_command_def)
  from exit_code_tells [OF this r] have "cr_code res = 0" by (simp add: demo_cli_def build_response_def)
  then show ?thesis by (simp add: r)
qed

end
