(* ===== verification/Key_Map.thy ===== *)
theory Key_Map
  imports Rust_Results 
begin

text \<open>
  The bytes a key sends to the terminal, \<open>crates/gpty-core/src/keymap.rs\<close>: scancodes of Linux' event
  interface and a mask of modifiers to the sequences of xterm.  Nothing is the answer for a key whose character
  the caller sends itself.
\<close>

unbundle bit_operations_syntax

section \<open>Modifiers\<close>

definition SHIFT :: "8 word" where "SHIFT = 1"
definition ALT :: "8 word" where "ALT = 2"
definition CTRL :: "8 word" where "CTRL = 4"
definition SUPER :: "8 word" where "SUPER = 8"

definition xterm_param :: "8 word \<Rightarrow> str option" where
  "xterm_param m =
     (let v = m AND 0xF
      in if v = 0 then None
         else if v = 1 then Some '';2''
         else if v = 2 then Some '';3''
         else if v = 3 then Some '';4''
         else if v = 4 then Some '';5''
         else if v = 5 then Some '';6''
         else if v = 6 then Some '';7''
         else if v = 7 then Some '';8''
         else None)"

definition has_ctrl :: "8 word \<Rightarrow> bool" where "has_ctrl m \<longleftrightarrow> m AND CTRL \<noteq> 0"
definition has_shift :: "8 word \<Rightarrow> bool" where "has_shift m \<longleftrightarrow> m AND SHIFT \<noteq> 0"

section \<open>Sequences\<close>

definition xterm_csi :: "str \<Rightarrow> str option \<Rightarrow> bytes" where
  "xterm_csi letter param =
     [ESC, CHR ''[''] @ (case param of Some p \<Rightarrow> ''1'' @ p | None \<Rightarrow> []) @ letter"

definition xterm_csi_tilde :: "nat \<Rightarrow> str option \<Rightarrow> bytes" where
  "xterm_csi_tilde num param =
     [ESC, CHR ''[''] @ dec num @ (case param of Some p \<Rightarrow> p | None \<Rightarrow> []) @ ''~''"

definition numpad :: "bool \<Rightarrow> bytes \<Rightarrow> bytes \<Rightarrow> bytes" where
  "numpad app_keypad ss3 plain = (if app_keypad then ss3 else plain)"

section \<open>Keys\<close>

text \<open>Arrows, Home, End and F1 to F4; Insert, Delete, the page keys and F5 to F12; the numeric keypad.\<close>

definition LETTER_KEYS :: "(nat \<times> str) list" where
  "LETTER_KEYS =
     [(103, ''A''), (108, ''B''), (106, ''C''), (105, ''D''), (102, ''H''), (107, ''F''),
      (59, ''P''), (60, ''Q''), (61, ''R''), (62, ''S'')]"

definition TILDE_KEYS :: "(nat \<times> nat) list" where
  "TILDE_KEYS =
     [(104, 5), (109, 6), (110, 2), (111, 3),
      (63, 15), (64, 17), (65, 18), (66, 19), (67, 20), (68, 21), (87, 23), (88, 24)]"

definition KP_ENTER :: nat where "KP_ENTER = 96"
definition KP_DIVIDE :: nat where "KP_DIVIDE = 98"
definition KP_MULTIPLY :: nat where "KP_MULTIPLY = 55"
definition KP_SUBTRACT :: nat where "KP_SUBTRACT = 74"
definition KP_ADD :: nat where "KP_ADD = 78"
definition KP_DECIMAL :: nat where "KP_DECIMAL = 83"

definition NUMPAD_KEYS :: "(nat \<times> str \<times> str) list" where
  "NUMPAD_KEYS =
     [(71, ''q'', ''7''), (72, ''r'', ''8''), (73, ''s'', ''9''), (75, ''t'', ''4''), (76, ''u'', ''5''), (77, ''v'', ''6''),
      (79, ''w'', ''1''), (80, ''x'', ''2''), (81, ''y'', ''3''), (82, ''p'', ''0''), (KP_DECIMAL, ''n'', ''.''),
      (KP_ENTER, ''M'', [CHR 0x0D]), (KP_DIVIDE, ''o'', ''/''), (KP_MULTIPLY, ''j'', ''*''), (KP_SUBTRACT, ''m'', ''-''),
      (KP_ADD, ''k'', ''+'')]"

definition key_event_to_bytes :: "nat \<Rightarrow> 8 word \<Rightarrow> bool \<Rightarrow> bytes option" where
  "key_event_to_bytes scancode m app_keypad =
     (if scancode = 1 then Some [ESC]
      else if scancode = 14 then Some [CHR 0x7F]
      else if scancode = 15 then Some (if has_shift m then [ESC] @ ''[Z'' else [CHR 0x09])
      else if scancode = 28 then Some [CHR 0x0D]
      else (case map_of LETTER_KEYS scancode of
          Some s \<Rightarrow> Some (xterm_csi s (xterm_param m))
        | None \<Rightarrow>
            (case map_of TILDE_KEYS scancode of
               Some n \<Rightarrow> Some (xterm_csi_tilde n (xterm_param m))
             | None \<Rightarrow>
                 (case map_of NUMPAD_KEYS scancode of
                    Some (ss3, plain) \<Rightarrow> Some (numpad app_keypad ([ESC] @ ''O'' @ ss3) plain)
                  | None \<Rightarrow>
                      if scancode = 119 then Some [ESC]
                      else if scancode = 57 \<and> has_ctrl m then Some [CHR 0x00]
                      else None))))"

section \<open>Reading a sequence back\<close>

text \<open>What a program makes of a sequence of the cursor and function keys: the key, and the modifiers as the
  parameter counts them.\<close>

definition key_with :: "(nat \<times> 'a) list \<Rightarrow> 'a \<Rightarrow> nat option" where
  "key_with keys x = map_option fst (find (\<lambda>(k, y). y = x) keys)"

definition read_mask :: "str list \<Rightarrow> nat option" where
  "read_mask ps =
     (case ps of
        [] \<Rightarrow> Some 0
      | [p] \<Rightarrow> Option.bind (parse_u64 p) (\<lambda>n. if 2 \<le> n \<and> n \<le> 8 then Some (n - 1) else None)
      | _ \<Rightarrow> None)"

definition read_key :: "bytes \<Rightarrow> (nat \<times> nat) option" where
  "read_key bs =
     (if take 2 bs \<noteq> [ESC, CHR ''[''] \<or> length bs < 3 then None
      else
        (let body = butlast (drop 2 bs); final = last bs; ps = (if body = [] then [] else split_on (CHR '';'') body)
         in if final = CHR ''~''
            then (case ps of
                n # held \<Rightarrow>
                  Option.bind (Option.bind (parse_u64 n) (key_with TILDE_KEYS)) (\<lambda>k. map_option (\<lambda>v. (k, v)) (read_mask held))
              | [] \<Rightarrow> None)
            else Option.bind (key_with LETTER_KEYS [final]) (\<lambda>k.
                map_option (\<lambda>v. (k, v)) (read_mask (if ps = [] then [] else tl ps)))))"

definition CSI_KEYS :: "nat list" where "CSI_KEYS = map fst LETTER_KEYS @ map fst TILDE_KEYS"

lemma key_depends_on_mask: "scancode \<in> set CSI_KEYS \<Longrightarrow> key_event_to_bytes scancode m a = key_event_to_bytes scancode (m AND 0xF) False"
  by (auto simp: CSI_KEYS_def LETTER_KEYS_def TILDE_KEYS_def key_event_to_bytes_def xterm_param_def and.assoc)

lemma read_keys:
  "list_all (\<lambda>k. list_all (\<lambda>v. Option.bind (key_event_to_bytes k (of_nat v) False) read_key = Some (k, v)) [0..<8]) CSI_KEYS"
  by code_simp

lemma low_bits: "(m :: 8 word) AND 0xF = take_bit 4 m" "m AND 7 = take_bit 3 m"
  by (simp_all add: take_bit_eq_mask mask_eq_exp_minus_1)

lemma super_bit: "(m :: 8 word) AND SUPER = 0 \<longleftrightarrow> \<not> bit m 3"
proof -
  have "SUPER = push_bit 3 1" by (simp add: SUPER_def)
  then show ?thesis by (simp add: bit_iff_and_push_bit_not_eq_0)
qed

lemma masked: 
  assumes "(m :: 8 word) AND SUPER = 0"
  shows "m AND 0xF = of_nat (unat (m AND 7)) \<and> unat (m AND 7) < 8"
proof -
  have "take_bit 4 m = take_bit 3 m"
  proof (rule bit_word_eqI)
    fix n assume "n < LENGTH(8)"
    have "n < 4 \<longleftrightarrow> n < 3 \<or> n = 3" by auto
    then show "bit (take_bit 4 m) n \<longleftrightarrow> bit (take_bit 3 m) n" using assms by (auto simp: bit_take_bit_iff super_bit)
  qed
  moreover have "unat (take_bit 3 m) < 8" using take_bit_nat_less_exp [of 3 "unat m"] by (simp add: unsigned_take_bit_eq)
  ultimately show ?thesis by (simp add: low_bits)
qed

text \<open>A program tells every key and its modifiers.  What a cursor or function key sends with any of Shift, Alt and
  Ctrl reads back as that key with those modifiers, whatever mode the numeric keypad is in.\<close>

theorem keys_read_back:
  assumes "scancode \<in> set CSI_KEYS" "m AND SUPER = 0"
  shows "Option.bind (key_event_to_bytes scancode m a) read_key = Some (scancode, unat (m AND 7))"
proof -
  have "Option.bind (key_event_to_bytes scancode (of_nat v) False) read_key = Some (scancode, v)" if "v < 8" for v
    using read_keys assms(1) that by (auto simp: list_all_iff)
  from this [of "unat (m AND 7)"] show ?thesis
    using key_depends_on_mask [OF assms(1), of m a] masked [OF assms(2)] by simp
qed

theorem keys_read_back_witness: "Option.bind (key_event_to_bytes 111 4 True) read_key = Some (111, 4)"
proof -
  have "111 \<in> set CSI_KEYS" "(4 :: 8 word) AND SUPER = 0" by (simp_all add: CSI_KEYS_def TILDE_KEYS_def SUPER_def)
  from keys_read_back [OF this, of True] show ?thesis by simp
qed

text \<open>With Super held the other modifiers are lost as well.\<close>

lemma super_hides_modifiers:
  assumes "m AND SUPER \<noteq> 0"
  shows "xterm_param m = None"
proof -
  have "bit (m AND 0xF) 3" using assms by (simp add: super_bit low_bits bit_take_bit_iff)
  moreover have "\<not> bit (v :: 8 word) 3" if "v \<in> {0, 1, 2, 3, 4, 5, 6, 7}" for v
    using that by (auto simp flip: super_bit simp: SUPER_def)
  ultimately have "m AND 0xF \<notin> {0, 1, 2, 3, 4, 5, 6, 7}" by blast
  then show ?thesis by (simp add: xterm_param_def Let_def)
qed

end
