(* ===== verification/Colours.thy ===== *)
theory Colours
  imports Gpty_Prelude
begin

text \<open>
  Colours of the terminal as red, green and blue, \<open>crates/gpty-core/src/color.rs\<close>: the named colours and the
  256 indexed ones over a palette of sixteen.  Components are natural numbers; that they stay within a byte is
  proved, so no step of the code's byte arithmetic wraps.
\<close>

type_synonym rgb = "nat \<times> nat \<times> nat"

definition SYSTEM_COLORS :: "rgb list" where
  "SYSTEM_COLORS =
     [(0, 0, 0), (205, 0, 0), (0, 205, 0), (205, 205, 0), (0, 0, 238), (205, 0, 205), (0, 205, 205), (229, 229, 229),
      (127, 127, 127), (255, 0, 0), (0, 255, 0), (255, 255, 0), (92, 92, 255), (255, 0, 255), (0, 255, 255), (255, 255, 255)]"

text \<open>The names of the emulator; the cursor and whatever else it names are one here.\<close>

datatype named_color =
    Background | Foreground
  | Black | Red | Green | Yellow | Blue | Magenta | Cyan | White
  | BrightBlack | BrightRed | BrightGreen | BrightYellow | BrightBlue | BrightMagenta | BrightCyan | BrightWhite
  | BrightForeground
  | DimBlack | DimRed | DimGreen | DimYellow | DimBlue | DimMagenta | DimCyan | DimWhite
  | Other_Name

datatype color = Named named_color | Spec rgb | Indexed nat

definition DEFAULT_FG :: rgb where "DEFAULT_FG = (204, 204, 204)"

fun named_to_rgb :: "named_color \<Rightarrow> rgb list \<Rightarrow> rgb" where
  "named_to_rgb Background p = p ! 0"
| "named_to_rgb Foreground p = p ! 7"
| "named_to_rgb Black p = p ! 0"
| "named_to_rgb Red p = p ! 1"
| "named_to_rgb Green p = p ! 2"
| "named_to_rgb Yellow p = p ! 3"
| "named_to_rgb Blue p = p ! 4"
| "named_to_rgb Magenta p = p ! 5"
| "named_to_rgb Cyan p = p ! 6"
| "named_to_rgb White p = p ! 7"
| "named_to_rgb BrightBlack p = p ! 8"
| "named_to_rgb BrightRed p = p ! 9"
| "named_to_rgb BrightGreen p = p ! 10"
| "named_to_rgb BrightYellow p = p ! 11"
| "named_to_rgb BrightBlue p = p ! 12"
| "named_to_rgb BrightMagenta p = p ! 13"
| "named_to_rgb BrightCyan p = p ! 14"
| "named_to_rgb BrightWhite p = p ! 15"
| "named_to_rgb BrightForeground p = p ! 15"
| "named_to_rgb DimBlack p = p ! 0"
| "named_to_rgb DimRed p = p ! 1"
| "named_to_rgb DimGreen p = p ! 2"
| "named_to_rgb DimYellow p = p ! 3"
| "named_to_rgb DimBlue p = p ! 4"
| "named_to_rgb DimMagenta p = p ! 5"
| "named_to_rgb DimCyan p = p ! 6"
| "named_to_rgb DimWhite p = p ! 7"
| "named_to_rgb Other_Name p = DEFAULT_FG"

definition indexed_to_rgb :: "nat \<Rightarrow> rgb list \<Rightarrow> rgb" where
  "indexed_to_rgb idx p =
     (if idx \<le> 15 then p ! idx
      else if idx < 232
      then (let n = idx - 16 in (n div 36 * 51, n div 6 mod 6 * 51, n mod 6 * 51))
      else (let gray = (idx - 232) * 10 + 8 in (gray, gray, gray)))"

definition color_to_rgb :: "color \<Rightarrow> rgb list \<Rightarrow> rgb" where
  "color_to_rgb c p = (case c of Named n \<Rightarrow> named_to_rgb n p | Spec x \<Rightarrow> x | Indexed i \<Rightarrow> indexed_to_rgb i p)"

section \<open>Bytes\<close>

definition byte_rgb :: "rgb \<Rightarrow> bool" where
  "byte_rgb c = (case c of (r, g, b) \<Rightarrow> r < 256 \<and> g < 256 \<and> b < 256)"

definition palette :: "rgb list \<Rightarrow> bool" where
  "palette p \<longleftrightarrow> length p = 16 \<and> list_all byte_rgb p"

lemma palette_nth: "palette p \<Longrightarrow> i < 16 \<Longrightarrow> byte_rgb (p ! i)"
  by (simp add: palette_def list_all_length)

lemma default_is_bytes: "byte_rgb DEFAULT_FG"
  by (simp add: DEFAULT_FG_def byte_rgb_def)

lemma system_palette: "palette SYSTEM_COLORS"
  by (simp add: palette_def SYSTEM_COLORS_def byte_rgb_def)

text \<open>Every colour is bytes when the palette is and an index is one.\<close>

lemma colours_are_bytes:
  assumes "palette p" "case c of Spec x \<Rightarrow> byte_rgb x | Indexed i \<Rightarrow> i < 256 | Named _ \<Rightarrow> True"
  shows "byte_rgb (color_to_rgb c p)"
proof (cases c)
  case (Named n)
  then show ?thesis using assms(1)
    by (cases n) (simp_all add: color_to_rgb_def palette_nth default_is_bytes)
next
  case (Indexed i)
  have "i < 256" using assms(2) Indexed by simp
  show ?thesis
  proof (cases "i \<le> 15")
    case True
    then show ?thesis using palette_nth [OF assms(1), of i] Indexed by (simp add: color_to_rgb_def indexed_to_rgb_def)
  next
    case False
    have "(i - 16) div 36 \<le> 5" if "i < 232" using that by simp
    then have "(i - 16) div 36 * 51 < 256" if "i < 232" using that by simp
    moreover have "k mod 6 * 51 < 256" for k :: nat
    proof -
      have "k mod 6 < 6" by simp
      then show ?thesis by linarith
    qed
    moreover have "(i - 232) * 10 + 8 < 256" using \<open>i < 256\<close> by simp
    ultimately show ?thesis using Indexed False
      by (simp add: color_to_rgb_def indexed_to_rgb_def byte_rgb_def Let_def)
  qed
qed (use assms in \<open>simp add: color_to_rgb_def\<close>)

text \<open>The indexed colours of the cube are all different, and so are the grays.\<close>

lemma cube_is_injective:
  assumes "16 \<le> i" "i < 232" "16 \<le> j" "j < 232" "indexed_to_rgb i p = indexed_to_rgb j p"
  shows "i = j"
proof -
  have digits: "n = n div 36 * 36 + n div 6 mod 6 * 6 + n mod 6" for n :: nat
  proof -
    have "n = n div 6 * 6 + n mod 6" "n div 6 = n div 6 div 6 * 6 + n div 6 mod 6" by simp_all
    moreover have "n div 36 = n div 6 div 6" using div_mult2_eq [of n 6 6] by simp
    ultimately show ?thesis by linarith
  qed
  have "(i - 16) div 36 = (j - 16) div 36" "(i - 16) div 6 mod 6 = (j - 16) div 6 mod 6" "(i - 16) mod 6 = (j - 16) mod 6"
    using assms by (simp_all add: indexed_to_rgb_def Let_def)
  then have "i - 16 = j - 16" using digits [of "i - 16"] digits [of "j - 16"] by simp
  then show ?thesis using assms(1,3) by simp
qed

lemma grays_are_injective:
  assumes "232 \<le> i" "232 \<le> j" "indexed_to_rgb i p = indexed_to_rgb j p"
  shows "i = j"
  using assms by (simp add: indexed_to_rgb_def Let_def)

text \<open>The palette of xterm, which the comment says is followed, has the levels 0, 95, 135, 175, 215 and 255 in its
  cube; here they are equally far apart.\<close>

definition xterm_level :: "nat \<Rightarrow> nat" where
  "xterm_level n = (if n = 0 then 0 else 55 + 40 * n)"

lemma cube_is_not_the_one_of_xterm:
  assumes "n < 6"
  shows "indexed_to_rgb (16 + n) p = (0, 0, xterm_level n) \<longleftrightarrow> n = 0 \<or> n = 5"
proof -
  have "n \<in> {0, 1, 2, 3, 4, 5}" using assms by auto
  then show ?thesis by (auto simp: indexed_to_rgb_def xterm_level_def Let_def)
qed

end
